(* ===== verification/Prelude.thy ===== *)
theory Prelude
  imports Main "HOL-Library.Word" "HOL-Library.Log_Nat" "HOL-Library.Multiset"
begin

text \<open>
  What the components share: the collections of rewrite rules their proofs use, the
  arithmetic of C++ that differs from HOL's (division that truncates towards zero,
  unsigned subtraction that wraps), and lemmas on lists and optional values.
\<close>

named_theorems inv_rules "facts that an operation keeps an invariant"

subsection \<open>C++ integer arithmetic\<close>

text \<open>
  Signed coordinates and times are \<open>int\<close>: an overflow of a signed integer is undefined in
  C++, so the model describes the executions that have none. Unsigned values that the
  code lets wrap are written with the wrap.
\<close>

definition cdiv :: "int \<Rightarrow> int \<Rightarrow> int" where
  "cdiv a b = (if (0 \<le> a) = (0 < b) then \<bar>a\<bar> div \<bar>b\<bar> else - (\<bar>a\<bar> div \<bar>b\<bar>))"

lemma cdiv_nonneg: "0 \<le> a \<Longrightarrow> 0 < b \<Longrightarrow> cdiv a b = a div b"
  by (simp add: cdiv_def)

lemma cdiv_neg: "a < 0 \<Longrightarrow> 0 < b \<Longrightarrow> cdiv a b = - ((- a) div b)"
  by (simp add: cdiv_def)

definition size_bits :: nat where "size_bits = 32"

text \<open>The Tegra K1 is a 32-bit processor, and \<open>size_t\<close> has its width.\<close>

definition wrap_size :: "int \<Rightarrow> nat" where
  "wrap_size n = nat (n mod 4294967296)"

definition usub :: "nat \<Rightarrow> nat \<Rightarrow> nat" where
  "usub a b = wrap_size (int a - int b)"

definition wrap32 :: "int \<Rightarrow> int" where
  "wrap32 n = n mod 4294967296"

definition wrap64 :: "int \<Rightarrow> int" where
  "wrap64 n = n mod 18446744073709551616"

lemma usub_le [simp]: "b \<le> a \<Longrightarrow> a < 4294967296 \<Longrightarrow> usub a b = a - b"
proof -
  assume "b \<le> a" "a < 4294967296"
  then have "(int a - int b) mod 4294967296 = int a - int b"
    by (intro mod_pos_pos_trivial) simp_all
  then show ?thesis using \<open>b \<le> a\<close> by (simp add: usub_def wrap_size_def nat_diff_distrib)
qed

lemma usub_0_1: "usub 0 1 = 4294967295"
  by (simp add: usub_def wrap_size_def)

lemma wrap_size_bound [simp]: "wrap_size n < 4294967296"
  by (simp add: wrap_size_def nat_less_iff)

lemma wrap_size_id [simp]: "n < 4294967296 \<Longrightarrow> wrap_size (int n) = n"
  by (simp add: wrap_size_def)

subsection \<open>Lists\<close>

text \<open>The first position at or after which an element satisfies a predicate
  (\<open>std::find_if\<close>): the list's length when none does.\<close>

fun find_pos :: "('a \<Rightarrow> bool) \<Rightarrow> 'a list \<Rightarrow> nat" where
  "find_pos P [] = 0"
| "find_pos P (x # xs) = (if P x then 0 else Suc (find_pos P xs))"

lemma find_pos_le: "find_pos P xs \<le> length xs"
  by (induction xs) auto

lemma find_pos_less_iff: "find_pos P xs < length xs \<longleftrightarrow> (\<exists>x\<in>set xs. P x)"
  by (induction xs) auto

lemma find_pos_nth: "find_pos P xs < length xs \<Longrightarrow> P (xs ! find_pos P xs)"
  by (induction xs) auto

lemma find_pos_before: "j < find_pos P xs \<Longrightarrow> \<not> P (xs ! j)"
proof (induction xs arbitrary: j)
  case Nil
  then show ?case by simp
next
  case (Cons x xs)
  then show ?case by (cases j) (auto split: if_splits)
qed

definition erase_at :: "nat \<Rightarrow> 'a list \<Rightarrow> 'a list" where
  "erase_at j xs = take j xs @ drop (Suc j) xs"

lemma length_erase_at [simp]: "j < length xs \<Longrightarrow> length (erase_at j xs) = length xs - 1"
  by (simp add: erase_at_def)

lemma set_erase_at: "set (erase_at j xs) \<subseteq> set xs"
  using set_take_subset set_drop_subset by (fastforce simp: erase_at_def)

lemma set_erase_at_insert:
  assumes "j < length xs"
  shows "set xs = insert (xs ! j) (set (erase_at j xs))"
proof -
  have "xs = take j xs @ xs ! j # drop (Suc j) xs"
    using assms by (rule id_take_nth_drop)
  then have "set xs = set (take j xs @ xs ! j # drop (Suc j) xs)" by (rule arg_cong)
  then show ?thesis by (simp add: erase_at_def)
qed

lemma erase_at_update_set:
  assumes "i < j" "j < length xs"
  shows "set (erase_at j (xs[i := y])) = insert y (set (take i xs) \<union> set (drop (Suc i) (erase_at j xs)))"
proof -
  have "erase_at j (xs[i := y]) = (erase_at j xs)[i := y]"
    using assms by (simp add: erase_at_def take_update_swap list_update_append)
  moreover have "i < length (erase_at j xs)" using assms by simp
  moreover have "take i (erase_at j xs) = take i xs"
    using assms by (simp add: erase_at_def min_absorb1)
  ultimately show ?thesis by (auto simp: upd_conv_take_nth_drop)
qed

lemma upt_split: "a \<le> b \<Longrightarrow> b \<le> c \<Longrightarrow> [a..<c] = [a..<b] @ [b..<c]"
  by (metis le_add_diff_inverse upt_add_eq_append)

definition opt_ord :: "'a option \<Rightarrow> 'a \<Rightarrow> 'a" where
  "opt_ord m d = (case m of None \<Rightarrow> d | Some x \<Rightarrow> x)"

lemma opt_ord_simps [simp]: "opt_ord None d = d" "opt_ord (Some x) d = x"
  by (simp_all add: opt_ord_def)

end
