(* ===== verification/Float32.thy ===== *)
theory Float32
  imports Prelude
begin

text \<open>
  The single-precision floats the code computes with. A value is a rational, an infinity
  or not a number; every operation computes the exact rational result and rounds it to
  the nearest value binary32 can hold, ties to even, as IEEE 754 says. The one thing left
  out is the sign of a zero, which no comparison in the modelled code can see.

  The proofs about code that computes with floats need only two facts of the rounding:
  it is monotone, and it leaves alone what binary32 can hold. They are the laws of the
  locale \<open>rounding\<close>, and the rounding defined here is its interpretation.
\<close>

datatype f32 = Fin rat | PInf | NInf | NaN

subsection \<open>Rounding\<close>

definition ilog2 :: "rat \<Rightarrow> int" where
  "ilog2 x = (let (n, d) = quotient_of x; k = bitlen n - bitlen d
              in if x < 2 powi k then k - 1 else k)"

definition rne :: "rat \<Rightarrow> int" where
  "rne y = (let f = \<lfloor>y\<rfloor>; r = y - of_int f
            in if r < 1/2 then f else if r > 1/2 then f + 1
               else if even f then f else f + 1)"

definition f32_exp :: "rat \<Rightarrow> int" where
  "f32_exp x = (if x = 0 then -149 else max (ilog2 \<bar>x\<bar> - 23) (-149))"

definition rnd :: "rat \<Rightarrow> rat" where
  "rnd x = of_int (rne (x / 2 powi f32_exp x)) * 2 powi f32_exp x"

definition f32_of_rat :: "rat \<Rightarrow> f32" where
  "f32_of_rat x = (let r = rnd x in
     if r \<ge> 2 ^ 128 then PInf else if r \<le> - (2 ^ 128) then NInf else Fin r)"

text \<open>What a binary32 can hold: 24 bits of significand from the smallest subnormal up.\<close>

definition representable :: "rat \<Rightarrow> bool" where
  "representable x \<longleftrightarrow> (\<exists>m k. x = of_int m * 2 powi k \<and> \<bar>m\<bar> \<le> 2 ^ 24 \<and> k \<ge> -149)"

lemma rne_bounds: "of_int \<lfloor>y\<rfloor> \<le> (of_int (rne y) :: rat) \<and> rne y \<le> \<lfloor>y\<rfloor> + 1"
  by (simp add: rne_def Let_def)

lemma rne_of_int [simp]: "rne (of_int n) = n"
  by (simp add: rne_def)

lemma rne_mono:
  assumes "x \<le> y"
  shows "rne x \<le> rne y"
proof (cases "\<lfloor>x\<rfloor> = \<lfloor>y\<rfloor>")
  case True
  then show ?thesis using assms by (auto simp: rne_def Let_def)
next
  case False
  with assms have "\<lfloor>x\<rfloor> + 1 \<le> \<lfloor>y\<rfloor>"
    using floor_mono [OF assms] by linarith
  moreover have "rne x \<le> \<lfloor>x\<rfloor> + 1" "\<lfloor>y\<rfloor> \<le> rne y"
    by (simp_all add: rne_def Let_def)
  ultimately show ?thesis by linarith
qed

lemma rne_uminus: "rne (- y) = - rne y"
proof (cases "y = of_int \<lfloor>y\<rfloor>")
  case True
  then have "- y = of_int (- \<lfloor>y\<rfloor>)" by simp
  then show ?thesis using True by (metis rne_of_int)
next
  case False
  define f where "f = \<lfloor>y\<rfloor>"
  have lo: "of_int f < y"
    using False of_int_floor_le [of y] unfolding f_def by linarith
  have up: "y < of_int f + 1"
    using floor_correct [of y] by (simp add: f_def)
  have f': "\<lfloor>- y\<rfloor> = - f - 1" using lo up by linarith
  show ?thesis
    using lo up by (auto simp: rne_def f' f_def [symmetric] Let_def)
qed

lemma ilog2_bounds:
  assumes "0 < x"
  shows "2 powi ilog2 x \<le> x" "x < 2 powi (ilog2 x + 1)"
proof -
  obtain n d where q: "quotient_of x = (n, d)" by fastforce
  have d: "0 < d" using quotient_of_denom_pos [OF q] .
  have x: "x = of_int n / of_int d" using quotient_of_div [OF q] .
  have n: "0 < n" using assms d by (simp add: x zero_less_divide_iff)
  define a b where "a = nat (bitlen n - 1)" and "b = nat (bitlen d - 1)"
  have bn: "0 < bitlen n" and bd: "0 < bitlen d"
    using n d by (simp_all add: bitlen_eq_zero_iff bitlen_nonneg order_less_le)
  have la: "bitlen n = int a + 1" and lb: "bitlen d = int b + 1"
    using bn bd by (simp_all add: a_def b_def)
  have "2 ^ a \<le> n" "n < 2 ^ Suc a"
    using bitlen_bounds [of n] n la by (simp_all add: nat_add_distrib)
  then have na: "(2::rat) ^ a \<le> of_int n" "of_int n < (2::rat) ^ Suc a"
    by (metis of_int_le_iff of_int_numeral of_int_power, metis of_int_less_iff of_int_numeral of_int_power)
  have "2 ^ b \<le> d" "d < 2 ^ Suc b"
    using bitlen_bounds [of d] d lb by (simp_all add: nat_add_distrib)
  then have db: "(2::rat) ^ b \<le> of_int d" "of_int d < (2::rat) ^ Suc b"
    by (metis of_int_le_iff of_int_numeral of_int_power, metis of_int_less_iff of_int_numeral of_int_power)
  define k where "k = bitlen n - bitlen d"
  have k: "k = int a - int b" by (simp add: k_def la lb)
  have dpos: "(0::rat) < of_int d" using d by simp
  have pow_k: "(2::rat) powi k = 2 ^ a / 2 ^ b"
    by (simp add: k power_int_diff)
  have up: "x < 2 powi (k + 1)"
  proof -
    have "x < 2 ^ Suc a / of_int d" unfolding x by (rule divide_strict_right_mono [OF na(2) dpos])
    also have "\<dots> \<le> 2 ^ Suc a / 2 ^ b"
      by (rule divide_left_mono [OF db(1)]) (use d in \<open>simp_all add: zero_less_mult_iff\<close>)
    also have "\<dots> = 2 powi (k + 1)" using pow_k by (simp add: power_int_add)
    finally show ?thesis .
  qed
  have low: "2 powi (k - 1) \<le> x"
  proof -
    have "2 powi (k - 1) = (2::rat) ^ a / 2 ^ Suc b"
      by (simp add: power_int_diff pow_k)
    also have "\<dots> \<le> 2 ^ a / of_int d"
      using db(2) dpos by (intro divide_left_mono) (simp_all add: dpos)
    also have "\<dots> \<le> x" unfolding x using na(1) dpos by (intro divide_right_mono) simp_all
    finally show ?thesis .
  qed
  have il: "ilog2 x = (if x < 2 powi k then k - 1 else k)"
    by (simp add: ilog2_def q k_def Let_def)
  show "2 powi ilog2 x \<le> x" using low by (auto simp: il)
  show "x < 2 powi (ilog2 x + 1)" using up by (auto simp: il)
qed

lemma powi_le_iff: "(2::rat) powi a \<le> 2 powi b \<longleftrightarrow> a \<le> b"
  using power_int_increasing [of a b "2::rat"] power_int_strict_increasing [of b a "2::rat"]
  by (cases "a \<le> b") auto

lemma powi_less_iff: "(2::rat) powi a < 2 powi b \<longleftrightarrow> a < b"
  using powi_le_iff [of b a] by auto

lemma powi_pos [simp]: "0 < (2::rat) powi a"
  by simp

lemma f32_exp_uminus [simp]: "f32_exp (- x) = f32_exp x"
  by (simp add: f32_exp_def)

lemma rnd_uminus: "rnd (- x) = - rnd x"
  by (simp add: rnd_def rne_uminus)

lemma rnd_0 [simp]: "rnd 0 = 0"
  by (simp add: rnd_def rne_def)

lemma rnd_nonneg: "0 \<le> x \<Longrightarrow> 0 \<le> rnd x"
proof -
  assume "0 \<le> x"
  then have "rne 0 \<le> rne (x / 2 powi f32_exp x)" by (intro rne_mono) simp
  then show ?thesis by (simp add: rnd_def rne_def)
qed

lemma abs_less_exp: "\<bar>x\<bar> < 2 powi (f32_exp x + 24)"
proof (cases "x = 0")
  case False
  have "\<bar>x\<bar> < 2 powi (ilog2 \<bar>x\<bar> + 1)" using False by (intro ilog2_bounds) simp
  also have "\<dots> \<le> 2 powi (f32_exp x + 24)" by (simp add: powi_le_iff f32_exp_def False)
  finally show ?thesis .
qed simp

lemma exp_le_abs: "-149 < f32_exp x \<Longrightarrow> 2 powi (f32_exp x + 23) \<le> \<bar>x\<bar>"
proof -
  assume e: "-149 < f32_exp x"
  then have "x \<noteq> 0" by (auto simp: f32_exp_def)
  then have "f32_exp x + 23 = ilog2 \<bar>x\<bar>" using e by (auto simp: f32_exp_def max_def split: if_splits)
  then show ?thesis using ilog2_bounds(1) [of "\<bar>x\<bar>"] \<open>x \<noteq> 0\<close> by simp
qed

lemma rnd_upper:
  assumes "0 \<le> x"
  shows "rnd x \<le> 2 powi (f32_exp x + 24)"
proof -
  let ?e = "f32_exp x"
  have "x < 2 powi (?e + 24)" using abs_less_exp [of x] assms by simp
  then have "x / 2 powi ?e \<le> of_int (2 ^ 24)"
    by (simp add: divide_le_eq power_int_add mult.commute)
  then have "rne (x / 2 powi ?e) \<le> 2 ^ 24" using rne_mono rne_of_int by metis
  then have "(of_int (rne (x / 2 powi ?e)) :: rat) \<le> 2 ^ 24"
    by (metis of_int_le_iff of_int_numeral of_int_power)
  then have "rnd x \<le> 2 ^ 24 * 2 powi ?e"
    unfolding rnd_def by (intro mult_right_mono) simp_all
  then show ?thesis by (simp add: power_int_add mult.commute)
qed

lemma rnd_lower:
  assumes "0 \<le> x" "-149 < f32_exp x"
  shows "2 powi (f32_exp x + 23) \<le> rnd x"
proof -
  let ?e = "f32_exp x"
  have "2 powi (?e + 23) \<le> x" using exp_le_abs [OF assms(2)] assms(1) by simp
  then have "of_int (2 ^ 23) \<le> x / 2 powi ?e"
    by (simp add: le_divide_eq power_int_add mult.commute)
  then have "2 ^ 23 \<le> rne (x / 2 powi ?e)" using rne_mono rne_of_int by metis
  then have "(2::rat) ^ 23 \<le> of_int (rne (x / 2 powi ?e))"
    by (metis of_int_le_iff of_int_numeral of_int_power)
  then have "2 ^ 23 * 2 powi ?e \<le> rnd x"
    unfolding rnd_def by (intro mult_right_mono) simp_all
  then show ?thesis by (simp add: power_int_add mult.commute)
qed

lemma f32_exp_mono: "0 \<le> x \<Longrightarrow> x \<le> y \<Longrightarrow> f32_exp x \<le> f32_exp y"
proof (rule ccontr)
  assume "0 \<le> x" "x \<le> y" and n: "\<not> f32_exp x \<le> f32_exp y"
  have "-149 \<le> f32_exp y" by (simp add: f32_exp_def)
  with n have "2 powi (f32_exp x + 23) \<le> \<bar>x\<bar>" by (intro exp_le_abs) simp
  moreover have "\<bar>y\<bar> < 2 powi (f32_exp y + 24)" by (rule abs_less_exp)
  moreover have "(2::rat) powi (f32_exp y + 24) \<le> 2 powi (f32_exp x + 23)"
    using n by (simp add: powi_le_iff)
  ultimately show False using \<open>0 \<le> x\<close> \<open>x \<le> y\<close> by linarith
qed

lemma rnd_mono_nonneg:
  assumes "0 \<le> x" "x \<le> y"
  shows "rnd x \<le> rnd y"
proof (cases "f32_exp x = f32_exp y")
  case True
  have "rne (x / 2 powi f32_exp y) \<le> rne (y / 2 powi f32_exp y)"
    using assms by (intro rne_mono divide_right_mono) simp_all
  then show ?thesis
    unfolding rnd_def True by (intro mult_right_mono) (simp_all only: of_int_le_iff, simp)
next
  case False
  with f32_exp_mono [OF assms] have lt: "f32_exp x < f32_exp y" by simp
  have "-149 \<le> f32_exp x" by (simp add: f32_exp_def)
  have "rnd x \<le> 2 powi (f32_exp x + 24)" by (rule rnd_upper) fact
  also have "\<dots> \<le> 2 powi (f32_exp y + 23)" using lt by (simp add: powi_le_iff)
  also have "\<dots> \<le> rnd y" using assms lt \<open>-149 \<le> f32_exp x\<close> by (intro rnd_lower) linarith+
  finally show ?thesis .
qed

lemma rnd_mono: "x \<le> y \<Longrightarrow> rnd x \<le> rnd y"
proof -
  assume xy: "x \<le> y"
  consider "0 \<le> x" | "x < 0" "0 \<le> y" | "y < 0" by linarith
  then show ?thesis
  proof cases
    case 1
    then show ?thesis using xy by (rule rnd_mono_nonneg)
  next
    case 2
    then have "0 \<le> rnd (- x)" "0 \<le> rnd y" by (intro rnd_nonneg, simp)+
    then show ?thesis by (simp add: rnd_uminus)
  next
    case 3
    then have "rnd (- y) \<le> rnd (- x)" using xy by (intro rnd_mono_nonneg) simp_all
    then show ?thesis by (simp add: rnd_uminus)
  qed
qed

lemma rnd_representable:
  assumes "representable x"
  shows "rnd x = x"
proof -
  obtain m k where x: "x = of_int m * 2 powi k" and m: "\<bar>m\<bar> \<le> 2 ^ 24" and k: "k \<ge> -149"
    using assms by (auto simp: representable_def)
  obtain m' k' where x': "x = of_int m' * 2 powi k'" and m': "\<bar>m'\<bar> < 2 ^ 24" and k': "k' \<ge> -149"
  proof (cases "\<bar>m\<bar> < 2 ^ 24")
    case True
    then show ?thesis using that x k by blast
  next
    case False
    then have "m = 2 ^ 24 \<or> m = - (2 ^ 24)" using m by linarith
    then have "m = 2 * (m div 2)" and "\<bar>m div 2\<bar> < 2 ^ 24" by auto
    moreover have "of_int (2 * (m div 2)) * 2 powi k = (of_int (m div 2) * 2 powi (k + 1) :: rat)"
      by (simp add: power_int_add)
    ultimately show ?thesis using that [of "m div 2" "k + 1"] x k by simp
  qed
  define e where "e = f32_exp x"
  have "e \<le> k'"
  proof (rule ccontr)
    assume n: "\<not> e \<le> k'"
    then have "2 powi (e + 23) \<le> \<bar>x\<bar>" using k' by (simp add: e_def exp_le_abs)
    moreover have "\<bar>x\<bar> < 2 ^ 24 * 2 powi k'"
    proof -
      have "\<bar>of_int m' :: rat\<bar> < 2 ^ 24"
        using m' by (metis of_int_abs of_int_less_iff of_int_numeral of_int_power)
      then show ?thesis unfolding x' by (simp add: abs_mult)
    qed
    moreover have "(2::rat) ^ 24 * 2 powi k' \<le> 2 powi (e + 23)"
    proof -
      have "(2::rat) ^ 24 * 2 powi k' = 2 powi (24 + k')" by (simp add: power_int_add)
      also have "\<dots> \<le> 2 powi (e + 23)" using n by (simp add: powi_le_iff)
      finally show ?thesis .
    qed
    ultimately show False by linarith
  qed
  then have "(2::rat) powi k' = 2 ^ nat (k' - e) * 2 powi e"
    by (simp add: power_int_add [symmetric] flip: power_int_of_nat)
  then have "x / 2 powi e = of_int (m' * 2 ^ nat (k' - e))"
    by (simp add: x')
  then have "rnd x = of_int (m' * 2 ^ nat (k' - e)) * 2 powi e"
    unfolding rnd_def e_def [symmetric] by (metis rne_of_int)
  also have "\<dots> = x" using \<open>x / 2 powi e = _\<close> by (simp add: field_simps)
  finally show ?thesis .
qed

lemma representable_int: "\<bar>n\<bar> \<le> 2 ^ 24 \<Longrightarrow> representable (of_int n)"
  unfolding representable_def by (rule exI [of _ n], rule exI [of _ 0]) simp

lemma representable_half: "\<bar>n\<bar> < 2 ^ 23 \<Longrightarrow> representable (of_int n + 1/2)"
  unfolding representable_def
  by (rule exI [of _ "2 * n + 1"], rule exI [of _ "-1"]) (auto simp: field_simps)

subsection \<open>What code that computes with floats needs of the rounding\<close>

locale rounding =
  fixes r :: "rat \<Rightarrow> rat" and rep :: "rat \<Rightarrow> bool"
  assumes mono: "x \<le> y \<Longrightarrow> r x \<le> r y"
    and exact: "rep x \<Longrightarrow> r x = x"
    and rep_int: "\<bar>n\<bar> \<le> 2 ^ 24 \<Longrightarrow> rep (of_int n)"
    and rep_half: "\<bar>n\<bar> < 2 ^ 23 \<Longrightarrow> rep (of_int n + 1/2)"
begin

lemma exact_int: "\<bar>n\<bar> \<le> 2 ^ 24 \<Longrightarrow> r (of_int n) = of_int n"
  by (intro exact rep_int)

lemma bracket: "rep a \<Longrightarrow> rep b \<Longrightarrow> a \<le> x \<Longrightarrow> x \<le> b \<Longrightarrow> a \<le> r x \<and> r x \<le> b"
  using mono [of a x] mono [of x b] by (simp add: exact)

lemma bracket_int:
  "\<bar>m\<bar> \<le> 2 ^ 24 \<Longrightarrow> \<bar>n\<bar> \<le> 2 ^ 24 \<Longrightarrow> of_int m \<le> x \<Longrightarrow> x \<le> of_int n \<Longrightarrow>
   of_int m \<le> r x \<and> r x \<le> of_int n"
  by (intro bracket rep_int)

lemma add_grows: "rep a \<Longrightarrow> 0 \<le> b \<Longrightarrow> a \<le> r (a + b)"
  using mono [of a "a + b"] by (simp add: exact)

lemma sub_shrinks: "rep a \<Longrightarrow> 0 \<le> b \<Longrightarrow> r (a - b) \<le> a"
  using mono [of "a - b" a] by (simp add: exact)

lemma floor_nudged:
  assumes "\<bar>n\<bar> < 2 ^ 23" "0 \<le> c" "c \<le> 1/2"
  shows "\<lfloor>r (of_int n + c)\<rfloor> = n"
proof -
  have "of_int n \<le> r (of_int n + c) \<and> r (of_int n + c) \<le> of_int n + 1/2"
    using assms by (intro bracket rep_int rep_half) auto
  then show ?thesis by linarith
qed

lemma ceiling_nudged:
  assumes "\<bar>n\<bar> < 2 ^ 22" "0 \<le> c" "c \<le> 1/2"
  shows "\<lceil>r (of_int n - c)\<rceil> = n"
proof -
  have "rep (of_int (n - 1) + 1/2)" using assms(1) by (intro rep_half) auto
  then have "rep (of_int n - 1/2)" by simp
  then have "of_int n - 1/2 \<le> r (of_int n - c) \<and> r (of_int n - c) \<le> of_int n"
    using assms by (intro bracket rep_int) auto
  then show ?thesis by linarith
qed

end

interpretation b32: rounding rnd representable
  by unfold_locales (simp_all add: rnd_mono rnd_representable representable_int representable_half)

subsection \<open>Comparison and arithmetic\<close>

fun f32_less :: "f32 \<Rightarrow> f32 \<Rightarrow> bool" where
  "f32_less (Fin a) (Fin b) = (a < b)"
| "f32_less NInf (Fin b) = True"
| "f32_less NInf PInf = True"
| "f32_less (Fin a) PInf = True"
| "f32_less _ _ = False"

fun f32_eq :: "f32 \<Rightarrow> f32 \<Rightarrow> bool" where
  "f32_eq (Fin a) (Fin b) = (a = b)"
| "f32_eq PInf PInf = True"
| "f32_eq NInf NInf = True"
| "f32_eq _ _ = False"

definition f32_le :: "f32 \<Rightarrow> f32 \<Rightarrow> bool" where
  "f32_le a b \<longleftrightarrow> f32_less a b \<or> f32_eq a b"

fun f32_neg :: "f32 \<Rightarrow> f32" where
  "f32_neg (Fin a) = Fin (- a)"
| "f32_neg PInf = NInf"
| "f32_neg NInf = PInf"
| "f32_neg NaN = NaN"

fun f32_abs :: "f32 \<Rightarrow> f32" where
  "f32_abs (Fin a) = Fin \<bar>a\<bar>"
| "f32_abs PInf = PInf"
| "f32_abs NInf = PInf"
| "f32_abs NaN = NaN"

fun f32_add :: "f32 \<Rightarrow> f32 \<Rightarrow> f32" where
  "f32_add (Fin a) (Fin b) = f32_of_rat (a + b)"
| "f32_add NaN b = NaN"
| "f32_add a NaN = NaN"
| "f32_add PInf NInf = NaN"
| "f32_add NInf PInf = NaN"
| "f32_add PInf b = PInf"
| "f32_add NInf b = NInf"
| "f32_add a b = b"

definition f32_sub :: "f32 \<Rightarrow> f32 \<Rightarrow> f32" where
  "f32_sub a b = f32_add a (f32_neg b)"

definition f32_inf_signed :: "rat \<Rightarrow> f32" where
  "f32_inf_signed s = (if s = 0 then NaN else if 0 < s then PInf else NInf)"

fun f32_sign :: "f32 \<Rightarrow> rat" where
  "f32_sign (Fin a) = sgn a"
| "f32_sign PInf = 1"
| "f32_sign NInf = -1"
| "f32_sign NaN = 0"

fun f32_mul :: "f32 \<Rightarrow> f32 \<Rightarrow> f32" where
  "f32_mul (Fin a) (Fin b) = f32_of_rat (a * b)"
| "f32_mul NaN b = NaN"
| "f32_mul a NaN = NaN"
| "f32_mul a b = f32_inf_signed (f32_sign a * f32_sign b)"

text \<open>A division by zero gives the infinity of the dividend's sign: the divisor's zero is
  taken as positive, as it is wherever the code divides (a difference of equal edges).\<close>

fun f32_div :: "f32 \<Rightarrow> f32 \<Rightarrow> f32" where
  "f32_div (Fin a) (Fin b) = (if b = 0 then f32_inf_signed (sgn a) else f32_of_rat (a / b))"
| "f32_div NaN b = NaN"
| "f32_div a NaN = NaN"
| "f32_div (Fin a) b = Fin 0"
| "f32_div a (Fin b) = f32_inf_signed (f32_sign a * (if b < 0 then -1 else 1))"
| "f32_div a b = NaN"

definition f32_of_int :: "int \<Rightarrow> f32" where
  "f32_of_int n = f32_of_rat (of_int n)"

fun f32_floor :: "f32 \<Rightarrow> f32" where
  "f32_floor (Fin a) = Fin (of_int \<lfloor>a\<rfloor>)"
| "f32_floor a = a"

fun f32_ceil :: "f32 \<Rightarrow> f32" where
  "f32_ceil (Fin a) = Fin (of_int \<lceil>a\<rceil>)"
| "f32_ceil a = a"

text \<open>The conversion to \<open>int32_t\<close> truncates. Out of range it is undefined in C++; here it
  saturates, which is what the processor's own instruction does.\<close>

fun f32_to_i32 :: "f32 \<Rightarrow> int" where
  "f32_to_i32 (Fin a) =
     max (-2147483648) (min 2147483647 (if 0 \<le> a then \<lfloor>a\<rfloor> else \<lceil>a\<rceil>))"
| "f32_to_i32 PInf = 2147483647"
| "f32_to_i32 NInf = -2147483648"
| "f32_to_i32 NaN = 0"

fun f32_isfinite :: "f32 \<Rightarrow> bool" where
  "f32_isfinite (Fin a) = True"
| "f32_isfinite _ = False"

lemma f32_eq_refl [simp]: "f32_eq a a \<longleftrightarrow> a \<noteq> NaN"
  by (cases a) auto

lemma f32_eq_iff: "f32_eq a b \<longleftrightarrow> a = b \<and> a \<noteq> NaN"
  by (cases a; cases b) auto

lemma rnd_small:
  assumes "\<bar>x\<bar> \<le> 2 ^ 24"
  shows "- (2 ^ 24) \<le> rnd x \<and> rnd x \<le> 2 ^ 24"
proof -
  have "of_int (- (2 ^ 24)) \<le> rnd x \<and> rnd x \<le> of_int (2 ^ 24)"
    using assms by (intro b32.bracket_int) auto
  then show ?thesis by simp
qed

lemma f32_of_rat_Fin: "\<bar>x\<bar> \<le> 2 ^ 24 \<Longrightarrow> f32_of_rat x = Fin (rnd x)"
  using rnd_small [of x] by (auto simp: f32_of_rat_def Let_def)

lemma f32_of_int_Fin: "\<bar>n\<bar> \<le> 2 ^ 24 \<Longrightarrow> f32_of_int n = Fin (of_int n)"
proof -
  assume n: "\<bar>n\<bar> \<le> 2 ^ 24"
  then have "\<bar>of_int n :: rat\<bar> \<le> 2 ^ 24"
    by (metis of_int_abs of_int_le_iff of_int_numeral of_int_power)
  then show ?thesis using n by (simp add: f32_of_int_def f32_of_rat_Fin b32.exact_int)
qed

lemma f32_of_rat_int: "\<bar>n\<bar> \<le> 2 ^ 24 \<Longrightarrow> f32_of_rat (of_int n) = Fin (of_int n)"
  using f32_of_int_Fin by (simp add: f32_of_int_def)

text \<open>Reading the four bytes of a float: sign, eight bits of exponent, 23 of fraction.\<close>

definition f32_of_bits :: "32 word \<Rightarrow> f32" where
  "f32_of_bits w = (let s = (if bit w 31 then -1 else 1);
       e = uint (take_bit 8 (drop_bit 23 w)); m = uint (take_bit 23 w)
     in if e = 255 then (if m \<noteq> 0 then NaN else if s = 1 then PInf else NInf)
        else if e = 0 then Fin (s * of_int m * 2 powi (-149))
        else Fin (s * of_int (m + 2 ^ 23) * 2 powi (e - 150)))"

end
