(* ===== verification/Rects.thy ===== *)
theory Rects
  imports Float32
begin

text \<open>
  The rectangles of compositor/Rect.h: edges, right and bottom exclusive, of integers or
  of floats, and the set of pixels a rectangle of integers covers. The small geometric
  helpers that Occlusion.cpp and PartialRedraw.cpp each keep a copy of are here once.
\<close>

record 'a rect =
  rleft :: 'a
  rtop :: 'a
  rright :: 'a
  rbottom :: 'a

type_synonym irect = "int rect"
type_synonym frect = "f32 rect"

definition mk_rect :: "'a \<Rightarrow> 'a \<Rightarrow> 'a \<Rightarrow> 'a \<Rightarrow> 'a rect" where
  "mk_rect l t r b = \<lparr>rleft = l, rtop = t, rright = r, rbottom = b\<rparr>"

definition rwidth :: "irect \<Rightarrow> int" where
  "rwidth r = rright r - rleft r"

definition rheight :: "irect \<Rightarrow> int" where
  "rheight r = rbottom r - rtop r"

definition fwidth :: "frect \<Rightarrow> f32" where
  "fwidth r = f32_sub (rright r) (rleft r)"

definition fheight :: "frect \<Rightarrow> f32" where
  "fheight r = f32_sub (rbottom r) (rtop r)"

text \<open>Equality of rectangles of floats compares the floats as C++ does.\<close>

definition frect_eq :: "frect \<Rightarrow> frect \<Rightarrow> bool" where
  "frect_eq a b \<longleftrightarrow> f32_eq (rleft a) (rleft b) \<and> f32_eq (rtop a) (rtop b) \<and>
     f32_eq (rright a) (rright b) \<and> f32_eq (rbottom a) (rbottom b)"

definition rEmpty :: "irect \<Rightarrow> bool" where
  "rEmpty r \<longleftrightarrow> rright r \<le> rleft r \<or> rbottom r \<le> rtop r"

definition Intersect :: "irect \<Rightarrow> irect \<Rightarrow> irect" where
  "Intersect a b = mk_rect (max (rleft a) (rleft b)) (max (rtop a) (rtop b))
     (min (rright a) (rright b)) (min (rbottom a) (rbottom b))"

definition rJoin :: "irect \<Rightarrow> irect \<Rightarrow> irect" where
  "rJoin a b = mk_rect (min (rleft a) (rleft b)) (min (rtop a) (rtop b))
     (max (rright a) (rright b)) (max (rbottom a) (rbottom b))"

definition rMeet :: "irect \<Rightarrow> irect \<Rightarrow> bool" where
  "rMeet a b \<longleftrightarrow> rleft a < rright b \<and> rleft b < rright a \<and> rtop a < rbottom b \<and>
     rtop b < rbottom a"

subsection \<open>The pixels covered\<close>

definition pts :: "irect \<Rightarrow> (int \<times> int) set" where
  "pts r = {(x, y). rleft r \<le> x \<and> x < rright r \<and> rtop r \<le> y \<and> y < rbottom r}"

definition region :: "irect list \<Rightarrow> (int \<times> int) set" where
  "region rs = (\<Union>r\<in>set rs. pts r)"

definition inside :: "irect \<Rightarrow> irect \<Rightarrow> bool" where
  "inside a b \<longleftrightarrow> rleft b \<le> rleft a \<and> rtop b \<le> rtop a \<and> rright a \<le> rright b \<and>
     rbottom a \<le> rbottom b"

lemma mk_rect_simps [simp]:
  "rleft (mk_rect l t r b) = l" "rtop (mk_rect l t r b) = t"
  "rright (mk_rect l t r b) = r" "rbottom (mk_rect l t r b) = b"
  by (simp_all add: mk_rect_def)

lemma mk_rect_eq_iff [simp]:
  "mk_rect l t r b = mk_rect l' t' r' b' \<longleftrightarrow> l = l' \<and> t = t' \<and> r = r' \<and> b = b'"
  by (simp add: mk_rect_def)

lemma rect_eqI:
  "rleft a = rleft b \<Longrightarrow> rtop a = rtop b \<Longrightarrow> rright a = rright b \<Longrightarrow> rbottom a = rbottom b \<Longrightarrow>
   a = (b :: 'a rect)"
  by (cases a; cases b) simp

lemma in_pts [simp]:
  "(x, y) \<in> pts r \<longleftrightarrow> rleft r \<le> x \<and> x < rright r \<and> rtop r \<le> y \<and> y < rbottom r"
  by (simp add: pts_def)

lemma pts_code [code]:
  "pts r = set (List.product [rleft r..rright r - 1] [rtop r..rbottom r - 1])"
  by auto

lemma in_region: "p \<in> region rs \<longleftrightarrow> (\<exists>r\<in>set rs. p \<in> pts r)"
  by (simp add: region_def)

lemma region_simps [simp]:
  "region [] = {}" "region (r # rs) = pts r \<union> region rs" "region (as @ bs) = region as \<union> region bs"
  by (auto simp: region_def)

lemma region_concat: "region (concat rss) = (\<Union>rs\<in>set rss. region rs)"
  by (auto simp: region_def)

lemma region_mono: "set as \<subseteq> set bs \<Longrightarrow> region as \<subseteq> region bs"
  by (auto simp: region_def)

lemma corner_in_pts: "\<not> rEmpty r \<Longrightarrow> (rleft r, rtop r) \<in> pts r"
  by (simp add: rEmpty_def)

lemma far_corner_in_pts: "\<not> rEmpty r \<Longrightarrow> (rright r - 1, rbottom r - 1) \<in> pts r"
  by (simp add: rEmpty_def)

lemma rEmpty_iff: "rEmpty r \<longleftrightarrow> pts r = {}"
proof
  assume "pts r = {}"
  then show "rEmpty r" using corner_in_pts [of r] by blast
qed (auto simp: rEmpty_def pts_def)

lemma pts_Intersect [simp]: "pts (Intersect a b) = pts a \<inter> pts b"
  by (auto simp: Intersect_def)

lemma pts_rJoin: "pts a \<union> pts b \<subseteq> pts (rJoin a b)"
  by (auto simp: rJoin_def)

lemma rMeet_iff: "\<not> rEmpty a \<Longrightarrow> \<not> rEmpty b \<Longrightarrow> rMeet a b \<longleftrightarrow> pts a \<inter> pts b \<noteq> {}"
proof -
  assume "\<not> rEmpty a" "\<not> rEmpty b"
  then have "rMeet a b \<longleftrightarrow> \<not> rEmpty (Intersect a b)"
    by (auto simp: rMeet_def rEmpty_def Intersect_def)
  then show ?thesis by (simp add: rEmpty_iff)
qed

lemma rMeet_sym: "rMeet a b = rMeet b a"
  by (auto simp: rMeet_def)

lemma inside_refl [simp]: "inside a a"
  by (simp add: inside_def)

lemma inside_trans: "inside a b \<Longrightarrow> inside b c \<Longrightarrow> inside a c"
  by (auto simp: inside_def)

lemma inside_pts: "inside a b \<Longrightarrow> pts a \<subseteq> pts b"
  by (auto simp: inside_def)

lemma pts_inside: "\<not> rEmpty a \<Longrightarrow> pts a \<subseteq> pts b \<Longrightarrow> inside a b"
proof -
  assume ne: "\<not> rEmpty a" and sub: "pts a \<subseteq> pts b"
  then have "(rleft a, rtop a) \<in> pts b" "(rright a - 1, rbottom a - 1) \<in> pts b"
    using corner_in_pts [OF ne] far_corner_in_pts [OF ne] by blast+
  then show ?thesis by (simp add: inside_def)
qed

lemma inside_rJoin [simp]: "inside a (rJoin a b)" "inside b (rJoin a b)"
  by (simp_all add: inside_def rJoin_def)

lemma rJoin_least: "inside a c \<Longrightarrow> inside b c \<Longrightarrow> inside (rJoin a b) c"
  by (auto simp: inside_def rJoin_def)

lemma not_rEmpty_rJoin: "\<not> rEmpty a \<Longrightarrow> \<not> rEmpty (rJoin a b)"
  by (auto simp: rEmpty_def rJoin_def)

lemma Intersect_inside [simp]: "inside (Intersect a b) a" "inside (Intersect a b) b"
  by (simp_all add: inside_def Intersect_def)

subsection \<open>The box around a list of rectangles\<close>

definition box_of :: "irect \<Rightarrow> irect list \<Rightarrow> irect" where
  "box_of r rs = fold (\<lambda>r b. rJoin b r) rs r"

lemma box_of_simps [simp]:
  "box_of r [] = r" "box_of r (s # rs) = box_of (rJoin r s) rs"
  by (simp_all add: box_of_def)

lemma inside_box_of: "a = r \<or> a \<in> set rs \<Longrightarrow> inside a (box_of r rs)"
proof (induction rs arbitrary: r a)
  case Nil
  then show ?case by simp
next
  case (Cons s rs)
  have "inside (rJoin r s) (box_of (rJoin r s) rs)" by (rule Cons.IH) simp
  then show ?case using Cons.prems Cons.IH
    by (auto intro: inside_trans [OF inside_rJoin(1)] inside_trans [OF inside_rJoin(2)])
qed

lemma box_of_least:
  "inside r c \<Longrightarrow> (\<And>a. a \<in> set rs \<Longrightarrow> inside a c) \<Longrightarrow> inside (box_of r rs) c"
  by (induction rs arbitrary: r) (simp_all add: rJoin_least)

lemma region_box_of: "region (r # rs) \<subseteq> pts (box_of r rs)"
proof
  fix p
  assume "p \<in> region (r # rs)"
  then obtain a where "a = r \<or> a \<in> set rs" "p \<in> pts a" by (auto simp: in_region)
  then show "p \<in> pts (box_of r rs)" using inside_pts [OF inside_box_of] by blast
qed

lemma not_rEmpty_box_of: "\<not> rEmpty r \<Longrightarrow> \<not> rEmpty (box_of r rs)"
  by (induction rs arbitrary: r) (simp_all add: not_rEmpty_rJoin)

text \<open>Whatever rectangle holds the pixels of non-empty rectangles holds their box.\<close>

lemma box_of_tight:
  assumes "\<forall>a\<in>set (r # rs). \<not> rEmpty a" "region (r # rs) \<subseteq> pts c"
  shows "inside (box_of r rs) c"
proof (rule box_of_least)
  show "inside r c" using assms by (intro pts_inside) auto
  show "inside a c" if "a \<in> set rs" for a
    using assms that by (intro pts_inside) (auto simp: region_def)
qed

lemmas rect_defs = rEmpty_def Intersect_def rJoin_def inside_def rMeet_def

end
