(* ===== verification/Occlusion.thy ===== *)
theory Occlusion
  imports Rects
begin

text \<open>
  compositor/Occlusion.h and Occlusion.cpp: what of each layer can be seen once everything
  above it is in place. The definitions are the code's; the lemmas show that the list of
  rectangles they compute is exactly the set of pixels it stands for.
\<close>

record occ_layer =
  ol_frame :: irect
  ol_visible :: "irect list"
  ol_opaque :: bool
  ol_corner_crop :: irect
  ol_radius :: f32
  ol_keep :: bool

record shown =
  sh_hidden :: bool
  sh_bounds :: irect

definition subtract_one :: "irect \<Rightarrow> irect \<Rightarrow> irect list" where
  "subtract_one hole r =
     (let overlap = Intersect r hole in
      if rEmpty overlap then [r]
      else (if rtop r < rtop overlap
            then [mk_rect (rleft r) (rtop r) (rright r) (rtop overlap)] else []) @
           (if rbottom overlap < rbottom r
            then [mk_rect (rleft r) (rbottom overlap) (rright r) (rbottom r)] else []) @
           (if rleft r < rleft overlap
            then [mk_rect (rleft r) (rtop overlap) (rleft overlap) (rbottom overlap)] else []) @
           (if rright overlap < rright r
            then [mk_rect (rright overlap) (rtop overlap) (rright r) (rbottom overlap)] else []))"

definition Subtract :: "irect list \<Rightarrow> irect \<Rightarrow> irect list" where
  "Subtract rs hole = concat (map (subtract_one hole) rs)"

definition OpaqueParts :: "occ_layer \<Rightarrow> irect list" where
  "OpaqueParts l =
     (if \<not> ol_opaque l then []
      else if f32_le (ol_radius l) (Fin 0) then [ol_frame l]
      else let crop = Intersect (ol_frame l) (ol_corner_crop l);
               r = f32_to_i32 (f32_ceil (ol_radius l));
               tall = mk_rect (rleft crop + r) (rtop crop) (rright crop - r) (rbottom crop);
               wide = mk_rect (rleft crop) (rtop crop + r) (rright crop) (rbottom crop - r)
           in (if rEmpty tall then [] else [tall]) @ (if rEmpty wide then [] else [wide]))"

fun cut_all :: "irect list \<Rightarrow> irect list \<Rightarrow> irect list" where
  "cut_all rs [] = rs"
| "cut_all rs (h # hs) = (if rs = [] then rs else cut_all (Subtract rs h) hs)"

definition start_region :: "occ_layer \<Rightarrow> irect list" where
  "start_region l =
     (if ol_visible l = [] then [ol_frame l]
      else filter (\<lambda>r. \<not> rEmpty r) (map (\<lambda>v. Intersect v (ol_frame l)) (ol_visible l)))"

definition resolve_layer :: "occ_layer \<Rightarrow> irect list \<Rightarrow> shown" where
  "resolve_layer l hiding =
     (if \<not> ol_keep l \<and> \<not> rEmpty (ol_frame l)
      then (case cut_all (start_region l) hiding of
              [] \<Rightarrow> \<lparr>sh_hidden = True, sh_bounds = ol_frame l\<rparr>
            | r # rs \<Rightarrow> \<lparr>sh_hidden = False, sh_bounds = box_of r (r # rs)\<rparr>)
      else \<lparr>sh_hidden = False, sh_bounds = ol_frame l\<rparr>)"

fun resolve_down :: "occ_layer list \<Rightarrow> irect list \<Rightarrow> shown list" where
  "resolve_down [] hiding = []"
| "resolve_down (l # ls) hiding =
     resolve_layer l hiding # resolve_down ls (hiding @ OpaqueParts l)"

text \<open>The loop walks down from the top of the stack and writes each answer at its layer's
  own index.\<close>

definition Resolve :: "occ_layer list \<Rightarrow> shown list" where
  "Resolve bottom_first = rev (resolve_down (rev bottom_first) [])"

definition CropSource :: "frect \<Rightarrow> irect \<Rightarrow> irect \<Rightarrow> bool \<Rightarrow> bool \<Rightarrow> bool \<Rightarrow> frect option" where
  "CropSource source frame shown hflip vflip rotate90 =
     (if rotate90 \<or> rEmpty frame \<or> rleft shown < rleft frame \<or> rtop shown < rtop frame \<or>
         rright shown > rright frame \<or> rbottom shown > rbottom frame
      then None
      else let sx = f32_div (fwidth source) (f32_of_int (rwidth frame));
               sy = f32_div (fheight source) (f32_of_int (rheight frame));
               cut_left = f32_of_int (rleft shown - rleft frame);
               cut_right = f32_of_int (rright frame - rright shown);
               cut_top = f32_of_int (rtop shown - rtop frame);
               cut_bottom = f32_of_int (rbottom frame - rbottom shown)
           in Some (mk_rect
                (f32_add (rleft source) (f32_mul (if hflip then cut_right else cut_left) sx))
                (f32_add (rtop source) (f32_mul (if vflip then cut_bottom else cut_top) sy))
                (f32_sub (rright source) (f32_mul (if hflip then cut_left else cut_right) sx))
                (f32_sub (rbottom source) (f32_mul (if vflip then cut_top else cut_bottom) sy))))"

subsection \<open>Taking a rectangle out of a region\<close>

lemma subtract_one_pts: "region (subtract_one hole r) = pts r - pts hole"
proof (cases "rEmpty (Intersect r hole)")
  case True
  then have "pts r \<inter> pts hole = {}" by (simp add: rEmpty_iff)
  then show ?thesis using True by (auto simp: subtract_one_def)
next
  case False
  define ov where "ov = Intersect r hole"
  have o: "rleft r \<le> rleft ov" "rleft ov < rright ov" "rright ov \<le> rright r"
    "rtop r \<le> rtop ov" "rtop ov < rbottom ov" "rbottom ov \<le> rbottom r"
    using False by (auto simp: ov_def rect_defs)
  have "pts r - pts hole = pts r - pts ov" by (auto simp: ov_def simp del: in_pts)
  moreover have "p \<in> region (subtract_one hole r) \<longleftrightarrow> p \<in> pts r - pts ov" for p
    using False o by (cases p) (auto simp: subtract_one_def Let_def ov_def [symmetric])
  ultimately show ?thesis by blast
qed

lemma Subtract_region: "region (Subtract rs hole) = region rs - pts hole"
  by (induction rs) (auto simp: Subtract_def subtract_one_pts)

lemma subtract_one_nonempty:
  assumes "\<not> rEmpty r"
  shows "\<forall>a\<in>set (subtract_one hole r). \<not> rEmpty a"
proof (cases "rEmpty (Intersect r hole)")
  case True
  then show ?thesis using assms by (simp add: subtract_one_def)
next
  case False
  then show ?thesis by (auto simp: subtract_one_def Let_def rect_defs)
qed

lemma Subtract_nonempty:
  "\<forall>r\<in>set rs. \<not> rEmpty r \<Longrightarrow> \<forall>a\<in>set (Subtract rs hole). \<not> rEmpty a"
  unfolding Subtract_def using subtract_one_nonempty by auto

lemma cut_all_region: "region (cut_all rs hs) = region rs - region hs"
  by (induction rs hs rule: cut_all.induct) (auto simp: Subtract_region)

lemma cut_all_nonempty:
  "\<forall>r\<in>set rs. \<not> rEmpty r \<Longrightarrow> \<forall>a\<in>set (cut_all rs hs). \<not> rEmpty a"
proof (induction rs hs rule: cut_all.induct)
  case (2 rs h hs)
  then show ?case by (cases "rs = []") (auto dest: Subtract_nonempty)
qed simp

lemma nonempty_region_Nil:
  "\<forall>r\<in>set rs. \<not> rEmpty r \<Longrightarrow> region rs = {} \<longleftrightarrow> rs = []"
  by (cases rs) (auto simp: rEmpty_iff)

subsection \<open>One layer against what hides it\<close>

text \<open>What SurfaceFlinger says of a layer: its visible region inside its frame.\<close>

definition described :: "occ_layer \<Rightarrow> (int \<times> int) set" where
  "described l = pts (ol_frame l) \<inter> (if ol_visible l = [] then UNIV else region (ol_visible l))"

lemma start_region_pts: "region (start_region l) = described l"
proof -
  have "region (filter (\<lambda>r. \<not> rEmpty r) (map (\<lambda>v. Intersect v (ol_frame l)) vs)) =
        pts (ol_frame l) \<inter> region vs" for vs
    by (induction vs) (auto simp: rEmpty_iff)
  then show ?thesis by (auto simp: start_region_def described_def)
qed

lemma start_region_nonempty: "\<not> rEmpty (ol_frame l) \<Longrightarrow> \<forall>r\<in>set (start_region l). \<not> rEmpty r"
  by (auto simp: start_region_def)

lemma resolve_layer_exact:
  fixes l hiding
  defines "seen \<equiv> described l - region hiding"
  assumes "\<not> ol_keep l" "\<not> rEmpty (ol_frame l)"
  shows "sh_hidden (resolve_layer l hiding) \<longleftrightarrow> seen = {}"
    and "seen \<noteq> {} \<Longrightarrow> seen \<subseteq> pts (sh_bounds (resolve_layer l hiding))"
    and "seen \<noteq> {} \<Longrightarrow> seen \<subseteq> pts c \<Longrightarrow> inside (sh_bounds (resolve_layer l hiding)) c"
    and "inside (sh_bounds (resolve_layer l hiding)) (ol_frame l)"
proof -
  let ?rs = "cut_all (start_region l) hiding"
  have ne: "\<forall>r\<in>set ?rs. \<not> rEmpty r"
    by (intro cut_all_nonempty start_region_nonempty assms)
  have reg: "region ?rs = seen" by (simp add: cut_all_region start_region_pts seen_def)
  show hid: "sh_hidden (resolve_layer l hiding) \<longleftrightarrow> seen = {}"
    using assms(2,3) nonempty_region_Nil [OF ne] unfolding reg
    by (auto simp: resolve_layer_def split: list.splits)
  have tight: "inside (sh_bounds (resolve_layer l hiding)) c"
    if "seen \<noteq> {}" "seen \<subseteq> pts c" for c
  proof (cases ?rs)
    case Nil
    then show ?thesis using that reg by simp
  next
    case (Cons r rs)
    have "inside (box_of r (r # rs)) c"
      using that ne by (intro box_of_tight) (auto simp: reg [unfolded Cons, symmetric] Cons)
    then show ?thesis
      using assms(2,3) by (simp add: resolve_layer_def Cons del: box_of_simps)
  qed
  then show "seen \<noteq> {} \<Longrightarrow> seen \<subseteq> pts c \<Longrightarrow> inside (sh_bounds (resolve_layer l hiding)) c"
    by blast
  show "seen \<noteq> {} \<Longrightarrow> seen \<subseteq> pts (sh_bounds (resolve_layer l hiding))"
  proof (cases ?rs)
    case (Cons r rs)
    then show ?thesis
      using reg assms(2,3) region_box_of [of r "r # rs"]
      by (simp add: resolve_layer_def del: box_of_simps)
  qed (use reg in simp)
  show "inside (sh_bounds (resolve_layer l hiding)) (ol_frame l)"
  proof (cases "seen = {}")
    case True
    then have "?rs = []" using nonempty_region_Nil [OF ne] reg by simp
    then show ?thesis using assms(2,3) by (simp add: resolve_layer_def)
  next
    case False
    then show ?thesis by (intro tight) (auto simp: seen_def described_def)
  qed
qed

subsection \<open>The whole stack\<close>

lemma length_resolve_down [simp]: "length (resolve_down ls h) = length ls"
  by (induction ls arbitrary: h) auto

lemma length_Resolve [simp]: "length (Resolve ls) = length ls"
  by (simp add: Resolve_def)

lemma resolve_down_nth:
  "i < length ls \<Longrightarrow>
   resolve_down ls h ! i = resolve_layer (ls ! i) (h @ concat (map OpaqueParts (take i ls)))"
proof (induction ls arbitrary: h i)
  case (Cons l ls)
  then show ?case by (cases i) auto
qed simp

lemma Resolve_nth:
  assumes "i < length ls"
  shows "Resolve ls ! i = resolve_layer (ls ! i) (concat (map OpaqueParts (rev (drop (Suc i) ls))))"
proof -
  let ?k = "length ls - Suc i"
  have k: "?k < length ls" using assms by simp
  have "Resolve ls ! i = resolve_down (rev ls) [] ! ?k"
    using assms by (simp add: Resolve_def rev_nth)
  also have "\<dots> = resolve_layer (rev ls ! ?k) (concat (map OpaqueParts (take ?k (rev ls))))"
    using resolve_down_nth [of ?k "rev ls" "[]"] k by simp
  also have "rev ls ! ?k = ls ! i" using assms by (simp add: rev_nth)
  also have "take ?k (rev ls) = rev (drop (Suc i) ls)" using assms by (simp add: take_rev)
  finally show ?thesis .
qed

text \<open>What the layers above position \<open>i\<close> hide.\<close>

definition hidden_above :: "occ_layer list \<Rightarrow> nat \<Rightarrow> (int \<times> int) set" where
  "hidden_above ls i = (\<Union>l\<in>set (drop (Suc i) ls). region (OpaqueParts l))"

lemma hidden_above_region:
  "region (concat (map OpaqueParts (rev (drop (Suc i) ls)))) = hidden_above ls i"
  by (simp add: region_concat hidden_above_def)

subsection \<open>The opaque part of a layer with rounded corners\<close>

definition in_corner :: "irect \<Rightarrow> int \<Rightarrow> int \<times> int \<Rightarrow> bool" where
  "in_corner c r p \<longleftrightarrow> (fst p < rleft c + r \<or> rright c - r \<le> fst p) \<and>
     (snd p < rtop c + r \<or> rbottom c - r \<le> snd p)"

lemma OpaqueParts_cross:
  assumes "ol_opaque l" "\<not> f32_le (ol_radius l) (Fin 0)"
    "r = f32_to_i32 (f32_ceil (ol_radius l))" "0 \<le> r"
  shows "region (OpaqueParts l) =
    {p \<in> pts (Intersect (ol_frame l) (ol_corner_crop l)).
       \<not> in_corner (Intersect (ol_frame l) (ol_corner_crop l)) r p}"
proof -
  define c where "c = Intersect (ol_frame l) (ol_corner_crop l)"
  define tall where "tall = mk_rect (rleft c + r) (rtop c) (rright c - r) (rbottom c)"
  define wide where "wide = mk_rect (rleft c) (rtop c + r) (rright c) (rbottom c - r)"
  have "region ((if rEmpty tall then [] else [tall]) @ (if rEmpty wide then [] else [wide])) =
        pts tall \<union> pts wide"
    by (auto simp: rEmpty_iff)
  moreover have "OpaqueParts l = (if rEmpty tall then [] else [tall]) @ (if rEmpty wide then [] else [wide])"
    using assms(1,2) by (simp add: OpaqueParts_def tall_def wide_def c_def assms(3) Let_def)
  moreover have "pts tall \<union> pts wide = {p \<in> pts c. \<not> in_corner c r p}"
    using assms(4) by (auto simp: tall_def wide_def in_corner_def)
  ultimately show ?thesis by (simp add: c_def)
qed

lemma radius_ceil_pos:
  assumes "\<not> f32_le a (Fin 0)" "a \<noteq> NaN"
  shows "0 < f32_to_i32 (f32_ceil a)"
  using assms by (cases a) (auto simp: f32_le_def)

subsection \<open>Cropping the source\<close>

text \<open>A source drawn at its own size, on whole pixels small enough for a float to count.\<close>

definition whole_rect :: "irect \<Rightarrow> frect" where
  "whole_rect r = mk_rect (Fin (of_int (rleft r))) (Fin (of_int (rtop r)))
     (Fin (of_int (rright r))) (Fin (of_int (rbottom r)))"

definition float_sized :: "irect \<Rightarrow> bool" where
  "float_sized r \<longleftrightarrow> \<bar>rleft r\<bar> \<le> 2 ^ 22 \<and> \<bar>rtop r\<bar> \<le> 2 ^ 22 \<and> \<bar>rright r\<bar> \<le> 2 ^ 22 \<and>
     \<bar>rbottom r\<bar> \<le> 2 ^ 22"

lemma f32_int_arith:
  assumes "\<bar>a\<bar> \<le> 2 ^ 23" "\<bar>b\<bar> \<le> 2 ^ 23"
  shows "f32_add (Fin (of_int a)) (Fin (of_int b)) = Fin (of_int (a + b))"
    and "f32_sub (Fin (of_int a)) (Fin (of_int b)) = Fin (of_int (a - b))"
proof -
  have "f32_of_rat (of_int (a + b)) = Fin (of_int (a + b))"
    using assms by (intro f32_of_rat_int) simp
  then show "f32_add (Fin (of_int a)) (Fin (of_int b)) = Fin (of_int (a + b))" by simp
  have "f32_of_rat (of_int (a - b)) = Fin (of_int (a - b))"
    using assms by (intro f32_of_rat_int) simp
  then show "f32_sub (Fin (of_int a)) (Fin (of_int b)) = Fin (of_int (a - b))"
    by (simp add: f32_sub_def)
qed

lemma f32_mul_1: "\<bar>a\<bar> \<le> 2 ^ 24 \<Longrightarrow> f32_mul (Fin (of_int a)) (Fin 1) = Fin (of_int a)"
  using f32_of_rat_int [of a] by simp

lemma f32_div_self: "n \<noteq> 0 \<Longrightarrow> f32_div (Fin (of_int n)) (Fin (of_int n)) = Fin 1"
  using f32_of_rat_int [of 1] by simp

lemma fsize_whole:
  assumes "float_sized r"
  shows "fwidth (whole_rect r) = Fin (of_int (rwidth r))"
    and "fheight (whole_rect r) = Fin (of_int (rheight r))"
  using assms f32_int_arith(2) [of "rright r" "rleft r"] f32_int_arith(2) [of "rbottom r" "rtop r"]
  by (simp_all add: fwidth_def fheight_def whole_rect_def float_sized_def rwidth_def rheight_def)

lemma f32_shift_whole:
  assumes "\<bar>a\<bar> \<le> 2 ^ 22" "0 \<le> c" "c \<le> 2 ^ 23"
  shows "f32_add (Fin (of_int a)) (f32_mul (f32_of_int c) (Fin 1)) = Fin (of_int (a + c))"
    and "f32_sub (Fin (of_int a)) (f32_mul (f32_of_int c) (Fin 1)) = Fin (of_int (a - c))"
proof -
  have "f32_mul (f32_of_int c) (Fin 1) = Fin (of_int c)"
    using assms f32_mul_1 [of c] by (simp add: f32_of_int_Fin)
  then show "f32_add (Fin (of_int a)) (f32_mul (f32_of_int c) (Fin 1)) = Fin (of_int (a + c))"
    and "f32_sub (Fin (of_int a)) (f32_mul (f32_of_int c) (Fin 1)) = Fin (of_int (a - c))"
    using assms f32_int_arith [of a c] by simp_all
qed

subsection \<open>Properties\<close>

text \<open>C9: the resolution of a stack is exact. For every layer the occlusion may touch, the
  layer is reported hidden exactly when every pixel SurfaceFlinger says is visible lies
  under an opaque part of a layer above, and otherwise the bounds reported are the least
  rectangle around the pixels that remain, inside the layer's frame.\<close>

theorem Resolve_exact:
  assumes "i < length ls" "\<not> ol_keep (ls ! i)" "\<not> rEmpty (ol_frame (ls ! i))"
  shows "let seen = described (ls ! i) - hidden_above ls i; s = Resolve ls ! i in
    sh_hidden s = (seen = {}) \<and>
    (seen \<noteq> {} \<longrightarrow> seen \<subseteq> pts (sh_bounds s) \<and>
       (\<forall>c. seen \<subseteq> pts c \<longrightarrow> inside (sh_bounds s) c)) \<and>
    inside (sh_bounds s) (ol_frame (ls ! i))"
proof -
  let ?h = "concat (map OpaqueParts (rev (drop (Suc i) ls)))"
  note R = resolve_layer_exact [OF assms(2,3), of ?h, unfolded hidden_above_region]
  show ?thesis
    unfolding Let_def Resolve_nth [OF assms(1)] using R by blast
qed

text \<open>A status bar over an application, both opaque, over a wallpaper the application
  covers whole.\<close>

definition demo_stack :: "occ_layer list" where
  "demo_stack =
     [\<lparr>ol_frame = mk_rect 0 0 100 100, ol_visible = [], ol_opaque = True,
       ol_corner_crop = mk_rect 0 0 0 0, ol_radius = Fin 0, ol_keep = False\<rparr>,
      \<lparr>ol_frame = mk_rect 0 0 100 100, ol_visible = [], ol_opaque = True,
       ol_corner_crop = mk_rect 0 0 0 0, ol_radius = Fin 0, ol_keep = False\<rparr>,
      \<lparr>ol_frame = mk_rect 0 0 100 10, ol_visible = [], ol_opaque = True,
       ol_corner_crop = mk_rect 0 0 0 0, ol_radius = Fin 0, ol_keep = False\<rparr>]"

lemma demo_Resolve:
  "Resolve demo_stack = [\<lparr>sh_hidden = True, sh_bounds = mk_rect 0 0 100 100\<rparr>,
     \<lparr>sh_hidden = False, sh_bounds = mk_rect 0 10 100 100\<rparr>,
     \<lparr>sh_hidden = False, sh_bounds = mk_rect 0 0 100 10\<rparr>]"
  by (simp add: demo_stack_def Resolve_def resolve_layer_def start_region_def OpaqueParts_def
      f32_le_def Subtract_def subtract_one_def rect_defs Let_def)

theorem Resolve_exact_witness:
  "sh_hidden (Resolve demo_stack ! 0) \<and> described (demo_stack ! 0) - hidden_above demo_stack 0 = {}"
proof -
  have h: "0 < length demo_stack" "\<not> ol_keep (demo_stack ! 0)"
    "\<not> rEmpty (ol_frame (demo_stack ! 0))"
    by (simp_all add: demo_stack_def rEmpty_def)
  show ?thesis using Resolve_exact [OF h] by (simp add: demo_Resolve Let_def)
qed

text \<open>an opaque layer with rounded corners hides exactly its rounded crop less the four
  corner squares, each the radius whole pixels on a side; and with a radius that is above
  nought those squares are never empty, so nothing is hidden where a corner lets the layers
  below through.\<close>

theorem OpaqueParts_rounded:
  assumes "ol_opaque l" "\<not> f32_le (ol_radius l) (Fin 0)" "ol_radius l \<noteq> NaN"
  shows "region (OpaqueParts l) =
      {p \<in> pts (Intersect (ol_frame l) (ol_corner_crop l)).
         \<not> in_corner (Intersect (ol_frame l) (ol_corner_crop l)) (f32_to_i32 (f32_ceil (ol_radius l))) p} \<and>
    0 < f32_to_i32 (f32_ceil (ol_radius l))"
  using OpaqueParts_cross [OF assms(1,2) refl] radius_ceil_pos [OF assms(2,3)] by simp

theorem OpaqueParts_rounded_witness:
  "(0, 0) \<notin> region (OpaqueParts \<lparr>ol_frame = mk_rect 0 0 100 50, ol_visible = [],
      ol_opaque = True, ol_corner_crop = mk_rect 0 0 100 50, ol_radius = Fin (25/2), ol_keep = False\<rparr>)"
  (is "_ \<notin> region (OpaqueParts ?l)")
proof -
  have h: "ol_opaque ?l" "\<not> f32_le (ol_radius ?l) (Fin 0)" "ol_radius ?l \<noteq> NaN"
    by (simp_all add: f32_le_def)
  show ?thesis using OpaqueParts_rounded [OF h] by (simp add: in_corner_def Intersect_def)
qed

text \<open>a layer drawn at its own size is cropped without a rounding error: the part of the
  source read has exactly the size of the part shown, taken from the frame's edges or,
  flipped, from the opposite ones.\<close>

theorem CropSource_unscaled:
  assumes "\<not> rEmpty s" "inside s f" "float_sized f" "float_sized src"
    "rwidth src = rwidth f" "rheight src = rheight f"
  shows "CropSource (whole_rect src) f s hflip vflip False = Some (whole_rect (mk_rect
    (rleft src + (if hflip then rright f - rright s else rleft s - rleft f))
    (rtop src + (if vflip then rbottom f - rbottom s else rtop s - rtop f))
    (rright src - (if hflip then rleft s - rleft f else rright f - rright s))
    (rbottom src - (if vflip then rtop s - rtop f else rbottom f - rbottom s))))"
proof -
  have ok: "\<not> (rEmpty f \<or> rleft s < rleft f \<or> rtop s < rtop f \<or> rright s > rright f \<or> rbottom s > rbottom f)"
    and wh: "rwidth f \<noteq> 0" "rheight f \<noteq> 0"
    using assms(1,2) by (auto simp: rEmpty_def inside_def rwidth_def rheight_def)
  have small: "\<bar>rwidth f\<bar> \<le> 2 ^ 24" "\<bar>rheight f\<bar> \<le> 2 ^ 24"
    using assms(3) by (auto simp: float_sized_def rwidth_def rheight_def abs_le_iff)
  have sx: "f32_div (fwidth (whole_rect src)) (f32_of_int (rwidth f)) = Fin 1"
    "f32_div (fheight (whole_rect src)) (f32_of_int (rheight f)) = Fin 1"
    unfolding fsize_whole [OF assms(4)] assms(5,6) f32_of_int_Fin [OF small(1)] f32_of_int_Fin [OF small(2)]
    using f32_div_self [OF wh(1)] f32_div_self [OF wh(2)] by simp_all
  have shifts: "0 \<le> c \<and> c \<le> 2 ^ 23"
    if "c \<in> {rleft s - rleft f, rright f - rright s, rtop s - rtop f, rbottom f - rbottom s}" for c
    using that assms(1-3) by (auto simp: inside_def float_sized_def rEmpty_def)
  have edges: "\<bar>a\<bar> \<le> 2 ^ 22" if "a \<in> {rleft src, rtop src, rright src, rbottom src}" for a
    using that assms(4) by (auto simp: float_sized_def)
  show ?thesis
    unfolding CropSource_def Let_def sx using ok shifts edges
    by (simp add: whole_rect_def f32_shift_whole)
qed

theorem CropSource_unscaled_witness:
  "CropSource (whole_rect (mk_rect 0 0 100 50)) (mk_rect 10 20 110 70) (mk_rect 30 20 110 60)
     True False False = Some (whole_rect (mk_rect 0 0 80 40))"
proof -
  have h: "\<not> rEmpty (mk_rect 30 20 110 60)" "inside (mk_rect 30 20 110 60) (mk_rect 10 20 110 70)"
    "float_sized (mk_rect 10 20 110 70)" "float_sized (mk_rect 0 0 100 50)"
    "rwidth (mk_rect 0 0 100 50) = rwidth (mk_rect 10 20 110 70)"
    "rheight (mk_rect 0 0 100 50) = rheight (mk_rect 10 20 110 70)"
    by (simp_all add: rEmpty_def inside_def float_sized_def rwidth_def rheight_def)
  show ?thesis using CropSource_unscaled [OF h, of True False] by simp
qed

end
