(* ===== verification/MergeGroup.thy ===== *)
theory MergeGroup
  imports Rects
begin

text \<open>
  compositor/MergeGroup.h and MergeGroup.cpp: the group of layers the merging window takes,
  and the stack reordered around it. The search object of the code is the record \<open>search\<close>
  (its budget of steps and the best choice so far); the two vectors it pushes and pops are
  arguments of the walk.
\<close>

record group_member =
  gm_live :: bool
  gm_frame :: "irect option"
  gm_turn :: nat

record group_choice =
  gc_order :: "nat list"
  gc_begin :: nat
  gc_width :: nat
  gc_live :: nat
  gc_lowered :: nat

record search =
  se_steps :: nat
  se_best :: "group_choice option"

definition Overlaps :: "group_member \<Rightarrow> group_member \<Rightarrow> bool" where
  "Overlaps a b = (case (gm_frame a, gm_frame b) of
     (Some p, Some q) \<Rightarrow> max (rleft p) (rleft q) < min (rright p) (rright q) \<and>
                        max (rtop p) (rtop q) < min (rbottom p) (rbottom q)
   | _ \<Rightarrow> True)"

definition kSteps :: nat where "kSteps = 4096"

definition live1 :: "group_member \<Rightarrow> nat" where
  "live1 m = (if gm_live m then 1 else 0)"

definition Record_choice ::
  "group_member list \<Rightarrow> nat \<Rightarrow> nat \<Rightarrow> nat list \<Rightarrow> nat list \<Rightarrow> nat \<Rightarrow> nat \<Rightarrow> group_choice" where
  "Record_choice stack width start members lowered i live =
     \<lparr>gc_order = [0..<start] @ lowered @ members @ [i..<length stack],
      gc_begin = start + length lowered, gc_width = width, gc_live = live,
      gc_lowered = length lowered\<rparr>"

definition cut_off :: "search \<Rightarrow> nat \<Rightarrow> nat list \<Rightarrow> bool" where
  "cut_off s live lowered = (case se_best s of None \<Rightarrow> False
     | Some b \<Rightarrow> live > gc_live b \<or> (live = gc_live b \<and> length lowered \<ge> gc_lowered b))"

function Walk :: "group_member list \<Rightarrow> nat \<Rightarrow> nat \<Rightarrow> nat \<Rightarrow> nat \<Rightarrow> nat \<Rightarrow> nat list \<Rightarrow> nat list \<Rightarrow>
    search \<Rightarrow> search" where
  "Walk stack width start turn i live members lowered s0 =
     (let s = s0\<lparr>se_steps := se_steps s0 - 1\<rparr> in
      if cut_off s live lowered then s
      else if length members = width
      then s\<lparr>se_best := Some (Record_choice stack width start members lowered i live)\<rparr>
      else if length stack \<le> i then s
      else let layer = stack ! i;
               foreign = (gm_turn layer \<noteq> turn);
               s2 = (if foreign then s
                     else Walk stack width start turn (Suc i) (live + live1 layer)
                            (members @ [i]) lowered s)
           in if (gm_live layer \<or> foreign) \<and> 0 < se_steps s2 \<and>
                 length stack - i - 1 \<ge> width - length members \<and>
                 list_all (\<lambda>m. \<not> Overlaps (stack ! m) layer) members
              then Walk stack width start turn (Suc i) live members (lowered @ [i]) s2
              else s2)"
  by pat_completeness auto
termination
  by (relation "measure (\<lambda>(stack, _, _, _, i, _). length stack - i)") auto

declare Walk.simps [simp del]

definition From :: "group_member list \<Rightarrow> nat \<Rightarrow> nat \<Rightarrow> search \<Rightarrow> search" where
  "From stack width start s =
     Walk stack width start (gm_turn (stack ! start)) (start + 1) (live1 (stack ! start)) [start] [] s"

definition ChooseMergeGroup :: "group_member list \<Rightarrow> nat \<Rightarrow> group_choice option" where
  "ChooseMergeGroup stack width =
     (if width = 0 \<or> width > length stack then None
      else se_best (fold (From stack width) [0..<length stack - width + 1]
                         \<lparr>se_steps = kSteps, se_best = None\<rparr>))"

subsection \<open>What a choice promises\<close>

definition keeps_overlaps :: "group_member list \<Rightarrow> nat list \<Rightarrow> bool" where
  "keeps_overlaps stack order \<longleftrightarrow>
     sorted_wrt (\<lambda>a b. a < b \<or> \<not> Overlaps (stack ! b) (stack ! a)) order"

definition group_of :: "group_choice \<Rightarrow> nat list" where
  "group_of c = take (gc_width c) (drop (gc_begin c) (gc_order c))"

definition count_live :: "group_member list \<Rightarrow> nat list \<Rightarrow> nat" where
  "count_live stack is = (\<Sum>i\<leftarrow>is. live1 (stack ! i))"

definition valid_choice :: "group_member list \<Rightarrow> nat \<Rightarrow> group_choice \<Rightarrow> bool" where
  "valid_choice stack width c \<longleftrightarrow>
     mset (gc_order c) = mset [0..<length stack] \<and> keeps_overlaps stack (gc_order c) \<and>
     gc_width c = width \<and> length (group_of c) = width \<and> sorted_wrt (<) (group_of c) \<and>
     (\<exists>t. \<forall>i\<in>set (group_of c). gm_turn (stack ! i) = t) \<and>
     gc_live c = count_live stack (group_of c) \<and>
     (gc_lowered c = 0 \<longrightarrow> gc_order c = [0..<length stack])"

text \<open>What holds of the walk's two vectors: together they are the layers walked so far.\<close>

definition walk_inv :: "group_member list \<Rightarrow> nat \<Rightarrow> nat \<Rightarrow> nat \<Rightarrow> nat \<Rightarrow> nat \<Rightarrow> nat list \<Rightarrow> nat list \<Rightarrow> bool" where
  "walk_inv stack width start turn i live members lowered \<longleftrightarrow>
     start < i \<and> i \<le> length stack \<and> length members \<le> width \<and>
     mset (lowered @ members) = mset [start..<i] \<and>
     sorted_wrt (<) members \<and> sorted_wrt (<) lowered \<and>
     (\<forall>m\<in>set members. gm_turn (stack ! m) = turn) \<and>
     live = count_live stack members \<and>
     (\<forall>l\<in>set lowered. \<forall>m\<in>set members. m < l \<longrightarrow> \<not> Overlaps (stack ! m) (stack ! l))"

definition best_valid :: "group_member list \<Rightarrow> nat \<Rightarrow> search \<Rightarrow> bool" where
  "best_valid stack width s \<longleftrightarrow> (\<forall>c. se_best s = Some c \<longrightarrow> valid_choice stack width c)"

lemma best_valid_steps [simp]:
  "best_valid stack width (s\<lparr>se_steps := n\<rparr>) = best_valid stack width s"
  by (simp add: best_valid_def)

lemma walk_inv_mem:
  assumes "walk_inv stack width start turn i live members lowered"
  shows "x \<in> set lowered \<or> x \<in> set members \<longleftrightarrow> start \<le> x \<and> x < i"
proof -
  have "mset (lowered @ members) = mset [start..<i]" using assms by (simp add: walk_inv_def)
  then have "set (lowered @ members) = set [start..<i]" by (rule mset_eq_setD)
  then have "x \<in> set (lowered @ members) \<longleftrightarrow> x \<in> set [start..<i]" by (rule arg_cong)
  then show ?thesis by simp
qed

lemma walk_inv_len:
  assumes "walk_inv stack width start turn i live members lowered"
  shows "length lowered + length members = i - start"
proof -
  have "mset (lowered @ members) = mset [start..<i]" using assms by (simp add: walk_inv_def)
  then have "length (lowered @ members) = length [start..<i]" by (rule mset_eq_length)
  then show ?thesis by simp
qed

lemma walk_inv_less:
  assumes "walk_inv stack width start turn i live members lowered"
  shows "x \<in> set members \<Longrightarrow> start \<le> x \<and> x < i" "x \<in> set lowered \<Longrightarrow> start \<le> x \<and> x < i"
  using walk_inv_mem [OF assms, of x] by blast+

lemma walk_inv_take:
  assumes inv: "walk_inv stack width start turn i live members lowered"
    and "i < length stack" "length members \<noteq> width" "gm_turn (stack ! i) = turn"
  shows "walk_inv stack width start turn (Suc i) (live + live1 (stack ! i)) (members @ [i]) lowered"
  unfolding walk_inv_def
proof (intro conjI)
  note lt = walk_inv_less [OF inv]
  show "sorted_wrt (<) (members @ [i])"
    using inv lt(1) by (auto simp: walk_inv_def sorted_wrt_append)
  show "\<forall>l\<in>set lowered. \<forall>m\<in>set (members @ [i]). m < l \<longrightarrow> \<not> Overlaps (stack ! m) (stack ! l)"
  proof (intro ballI impI)
    fix l m assume lm: "l \<in> set lowered" "m \<in> set (members @ [i])" "m < l"
    then have "m \<in> set members" using lt(2) [OF lm(1)] by auto
    then show "\<not> Overlaps (stack ! m) (stack ! l)" using inv lm by (simp add: walk_inv_def)
  qed
qed (use assms in \<open>auto simp: walk_inv_def count_live_def\<close>)

lemma walk_inv_lower:
  assumes inv: "walk_inv stack width start turn i live members lowered"
    and "i < length stack" "list_all (\<lambda>m. \<not> Overlaps (stack ! m) (stack ! i)) members"
  shows "walk_inv stack width start turn (Suc i) live members (lowered @ [i])"
  unfolding walk_inv_def
proof (intro conjI)
  note lt = walk_inv_less [OF inv]
  show "sorted_wrt (<) (lowered @ [i])"
    using inv lt(2) by (auto simp: walk_inv_def sorted_wrt_append)
  show "\<forall>l\<in>set (lowered @ [i]). \<forall>m\<in>set members. m < l \<longrightarrow> \<not> Overlaps (stack ! m) (stack ! l)"
    using inv assms(3) by (simp add: walk_inv_def list_all_iff)
qed (use assms in \<open>auto simp: walk_inv_def\<close>)

lemma sorted_eq_upt: "sorted_wrt (<) xs \<Longrightarrow> mset xs = mset [a..<b] \<Longrightarrow> xs = [a..<b]"
  by (metis mset_eq_setD sorted_distinct_set_unique sorted_upt distinct_upt
      strict_sorted_iff)

lemma Record_valid:
  assumes "walk_inv stack width start turn i live members lowered" "length members = width"
  shows "valid_choice stack width (Record_choice stack width start members lowered i live)"
proof -
  let ?c = "Record_choice stack width start members lowered i live"
  have inv: "start < i" "i \<le> length stack" "mset (lowered @ members) = mset [start..<i]"
    "sorted_wrt (<) members" "sorted_wrt (<) lowered"
    "\<forall>m\<in>set members. gm_turn (stack ! m) = turn" "live = count_live stack members"
    "\<forall>l\<in>set lowered. \<forall>m\<in>set members. m < l \<longrightarrow> \<not> Overlaps (stack ! m) (stack ! l)"
    using assms(1) by (auto simp: walk_inv_def)
  have mem: "x \<in> set lowered \<or> x \<in> set members \<longleftrightarrow> start \<le> x \<and> x < i" for x
    by (rule walk_inv_mem [OF assms(1)])
  have split: "[0..<length stack] = [0..<start] @ [start..<i] @ [i..<length stack]"
    using inv(1,2) upt_split [of 0 start "length stack"] upt_split [of start i "length stack"] by simp
  have order: "mset (gc_order ?c) = mset [0..<length stack]"
    unfolding split using inv(3) by (simp add: Record_choice_def)
  have group: "group_of ?c = members"
    using assms(2) by (simp add: group_of_def Record_choice_def)
  have sorted_le: "a < b" if "a \<in> set lowered \<union> set members" "i \<le> b" for a b
    using that mem [of a] by auto
  have "distinct (lowered @ members)" using inv(3) mset_eq_imp_distinct_iff distinct_upt by blast
  then have disj: "a \<noteq> b" if "a \<in> set lowered" "b \<in> set members" for a b
    using that by auto
  have less: "sorted_wrt R xs" if "sorted_wrt (<) xs" "\<And>a b. a < b \<Longrightarrow> R a b"
    for R :: "nat \<Rightarrow> nat \<Rightarrow> bool" and xs
    using that by (rule sorted_wrt_mono_rel [rotated]) auto
  have keep: "keeps_overlaps stack (gc_order ?c)"
  proof -
    let ?R = "\<lambda>a b. a < b \<or> \<not> Overlaps (stack ! b) (stack ! a)"
    note lt = walk_inv_less [OF assms(1)]
    have "sorted_wrt ?R [0..<start]" "sorted_wrt ?R [i..<length stack]"
      "sorted_wrt ?R lowered" "sorted_wrt ?R members"
      by (rule less; simp add: inv(4,5))+
    moreover have "\<forall>a\<in>set lowered. \<forall>b\<in>set members. ?R a b"
      using inv(8) disj by (metis nat_neq_iff)
    moreover have "\<forall>a\<in>set lowered. \<forall>b\<in>set [i..<length stack]. ?R a b"
      "\<forall>a\<in>set members. \<forall>b\<in>set [i..<length stack]. ?R a b"
      using sorted_le by simp_all
    moreover have "\<forall>a\<in>set [0..<start]. \<forall>b\<in>set lowered. ?R a b"
      "\<forall>a\<in>set [0..<start]. \<forall>b\<in>set members. ?R a b"
      using lt by fastforce+
    moreover have "\<forall>a\<in>set [0..<start]. \<forall>b\<in>set [i..<length stack]. ?R a b"
      using inv(1) by simp
    ultimately show ?thesis
      unfolding keeps_overlaps_def Record_choice_def group_choice.simps sorted_wrt_append set_append ball_Un
        ball_conj_distrib
      by simp
  qed
  have "gc_order ?c = [0..<length stack]" if "lowered = []"
    using that inv(3,4) sorted_eq_upt [of members start i] split by (simp add: Record_choice_def)
  then show ?thesis
    using order keep group inv(4,6,7) assms(2)
    by (auto simp: valid_choice_def Record_choice_def)
qed

subsection \<open>The walk keeps the best choice valid, and only improves it\<close>

text \<open>Fewer drawing layers first, then fewer layers moved.\<close>

definition no_worse :: "group_choice \<Rightarrow> nat \<Rightarrow> nat \<Rightarrow> bool" where
  "no_worse c live low \<longleftrightarrow> gc_live c < live \<or> (gc_live c = live \<and> gc_lowered c \<le> low)"

definition reached :: "search \<Rightarrow> nat \<Rightarrow> nat \<Rightarrow> bool" where
  "reached s live low \<longleftrightarrow> (\<exists>c. se_best s = Some c \<and> no_worse c live low)"

lemma reached_steps [simp]: "reached (s\<lparr>se_steps := n\<rparr>) live low = reached s live low"
  by (simp add: reached_def)

lemma cut_off_iff: "cut_off s live lowered \<longleftrightarrow> reached s live (length lowered)"
  by (auto simp: cut_off_def reached_def no_worse_def split: option.splits)

lemma reached_weaken:
  "reached s live low \<Longrightarrow> live < live' \<or> (live = live' \<and> low \<le> low') \<Longrightarrow> reached s live' low'"
  by (auto simp: reached_def no_worse_def)

lemma Record_no_worse:
  "no_worse (Record_choice stack width start members lowered i live) live (length lowered)"
  by (simp add: Record_choice_def no_worse_def)

text \<open>The one induction over the walk: \<open>I\<close> holds of its arguments, \<open>J\<close> of the search.\<close>

lemma Walk_rule:
  assumes steps: "\<And>s n. J s \<Longrightarrow> J (s\<lparr>se_steps := n\<rparr>)"
    and rec: "\<And>s i live ms ls. I i live ms ls \<Longrightarrow> J s \<Longrightarrow> \<not> cut_off s live ls \<Longrightarrow> length ms = width \<Longrightarrow>
       J (s\<lparr>se_best := Some (Record_choice stack width start ms ls i live)\<rparr>)"
    and tk: "\<And>i live ms ls. I i live ms ls \<Longrightarrow> i < length stack \<Longrightarrow> length ms \<noteq> width \<Longrightarrow>
       gm_turn (stack ! i) = turn \<Longrightarrow> I (Suc i) (live + live1 (stack ! i)) (ms @ [i]) ls"
    and lw: "\<And>i live ms ls. I i live ms ls \<Longrightarrow> i < length stack \<Longrightarrow>
       list_all (\<lambda>m. \<not> Overlaps (stack ! m) (stack ! i)) ms \<Longrightarrow> I (Suc i) live ms (ls @ [i])"
  shows "I i live ms ls \<Longrightarrow> J s \<Longrightarrow> J (Walk stack width start turn i live ms ls s)"
proof (induction "length stack - i" arbitrary: i live ms ls s)
  case (0 i live ms ls s)
  then show ?case using steps rec by (subst Walk.simps) (auto simp: Let_def)
next
  case (Suc n i live ms ls s)
  let ?s = "s\<lparr>se_steps := se_steps s - 1\<rparr>"
  have i: "i < length stack" using Suc.hyps(2) by simp
  then have n: "n = length stack - (Suc i)" using Suc.hyps(2) by simp
  have s: "J ?s" using Suc.prems(2) by (rule steps)
  show ?case
  proof (cases "cut_off ?s live ls \<or> length ms = width")
    case True
    then show ?thesis using s rec [OF Suc.prems(1) s] by (subst Walk.simps) (auto simp: Let_def)
  next
    case False
    define s2 where "s2 = (if gm_turn (stack ! i) \<noteq> turn then ?s
      else Walk stack width start turn (Suc i) (live + live1 (stack ! i)) (ms @ [i]) ls ?s)"
    have s2: "J s2"
      using Suc.hyps(1) [OF n tk [OF Suc.prems(1) i] s] False s by (auto simp: s2_def)
    have "J (Walk stack width start turn (Suc i) live ms (ls @ [i]) s2)"
      if "list_all (\<lambda>m. \<not> Overlaps (stack ! m) (stack ! i)) ms"
      by (rule Suc.hyps(1) [OF n lw [OF Suc.prems(1) i that] s2])
    moreover have "Walk stack width start turn i live ms ls s =
      (if (gm_live (stack ! i) \<or> gm_turn (stack ! i) \<noteq> turn) \<and> 0 < se_steps s2 \<and>
          length stack - i - 1 \<ge> width - length ms \<and> list_all (\<lambda>m. \<not> Overlaps (stack ! m) (stack ! i)) ms
       then Walk stack width start turn (Suc i) live ms (ls @ [i]) s2 else s2)"
      using False i by (subst Walk.simps) (simp add: Let_def s2_def)
    ultimately show ?thesis using s2 by presburger
  qed
qed

lemma Walk_valid:
  assumes "walk_inv stack width start turn i live members lowered" "best_valid stack width s"
  shows "best_valid stack width (Walk stack width start turn i live members lowered s)"
  by (rule Walk_rule [where I = "walk_inv stack width start turn" and J = "best_valid stack width", OF _ _ _ _ assms])
    (simp_all add: walk_inv_take walk_inv_lower, simp add: best_valid_def Record_valid)

lemma Walk_improves:
  assumes "reached s live0 low0"
  shows "reached (Walk stack width start turn i live members lowered s) live0 low0"
proof (rule Walk_rule [where I = "\<lambda>_ _ _ _. True" and J = "\<lambda>s. reached s live0 low0", OF _ _ _ _ TrueI assms])
  fix s :: search and i live :: nat and ms ls :: "nat list"
  assume "reached s live0 low0" "\<not> cut_off s live ls"
  then show "reached (s\<lparr>se_best := Some (Record_choice stack width start ms ls i live)\<rparr>) live0 low0"
    by (auto simp: cut_off_iff reached_def no_worse_def Record_choice_def)
qed simp_all

text \<open>A walk that meets only layers of the group's turn fills the group without lowering any,
  or is cut because something as good was found.\<close>

lemma Walk_run:
  assumes "length members + k = width" "i + k \<le> length stack"
    "\<forall>j\<in>{i..<i + k}. gm_turn (stack ! j) = turn"
  shows "reached (Walk stack width start turn i live members [] s)
           (live + count_live stack [i..<i + k]) 0"
  using assms
proof (induction k arbitrary: i live members s)
  case 0
  let ?s = "s\<lparr>se_steps := se_steps s - 1\<rparr>"
  show ?case
    using 0 Record_no_worse [of stack width start members "[]" i live]
    by (subst Walk.simps) (auto simp: Let_def cut_off_iff reached_def count_live_def)
next
  case (Suc k)
  let ?s = "s\<lparr>se_steps := se_steps s - 1\<rparr>"
  let ?live = "live + count_live stack [i..<i + Suc k]"
  have cnt: "count_live stack [i..<i + Suc k] = live1 (stack ! i) + count_live stack [Suc i..<Suc i + k]"
    by (simp add: count_live_def upt_conv_Cons del: upt_Suc)
  show ?case
  proof (cases "cut_off ?s live []")
    case True
    then have "reached ?s ?live 0"
      by (auto simp: cut_off_iff elim: reached_weaken)
    with True show ?thesis by (subst Walk.simps) (simp add: Let_def)
  next
    case False
    let ?w = "Walk stack width start turn (Suc i) (live + live1 (stack ! i)) (members @ [i]) [] ?s"
    have "reached ?w (live + live1 (stack ! i) + count_live stack [Suc i..<Suc i + k]) 0"
      using Suc.IH [where members = "members @ [i]" and i = "Suc i" and s = ?s
          and live = "live + live1 (stack ! i)"] Suc.prems by simp
    then have w: "reached ?w ?live 0" by (simp only: cnt add.assoc)
    show ?thesis
      using False Suc.prems w Walk_improves [OF w]
      by (subst Walk.simps) (auto simp: Let_def)
  qed
qed

lemma From_valid:
  assumes "0 < width" "start < length stack" "best_valid stack width s"
  shows "best_valid stack width (From stack width start s)"
proof -
  have "walk_inv stack width start (gm_turn (stack ! start)) (start + 1) (live1 (stack ! start)) [start] []"
    using assms by (simp add: walk_inv_def count_live_def)
  then show ?thesis using assms(3) by (simp add: From_def Walk_valid)
qed

lemma fold_From_valid:
  "0 < width \<Longrightarrow> \<forall>b\<in>set starts. b < length stack \<Longrightarrow> best_valid stack width s \<Longrightarrow>
   best_valid stack width (fold (From stack width) starts s)"
  by (induction starts arbitrary: s) (auto simp: From_valid)

lemma fold_From_improves:
  "reached s live low \<Longrightarrow> reached (fold (From stack width) starts s) live low"
  by (induction starts arbitrary: s) (auto simp: From_def Walk_improves)

lemma fold_From_run:
  assumes "b \<in> set starts" "0 < width" "b + width \<le> length stack"
    "\<forall>j\<in>{b..<b + width}. gm_turn (stack ! j) = gm_turn (stack ! b)"
  shows "reached (fold (From stack width) starts s) (count_live stack [b..<b + width]) 0"
  using assms(1)
proof (induction starts arbitrary: s)
  case (Cons a starts)
  show ?case
  proof (cases "a = b")
    case True
    have "[b..<b + width] = b # [Suc b..<Suc b + (width - 1)]"
      using assms(2) by (simp add: upt_conv_Cons)
    then have "count_live stack [b..<b + width] = live1 (stack ! b) + count_live stack [Suc b..<Suc b + (width - 1)]"
      by (simp add: count_live_def)
    moreover have "{Suc b..<Suc b + (width - 1)} \<subseteq> {b..<b + width}" by auto
    then have "\<forall>j\<in>{Suc b..<Suc b + (width - 1)}. gm_turn (stack ! j) = gm_turn (stack ! b)"
      using assms(4) by blast
    then have "reached (Walk stack width b (gm_turn (stack ! b)) (Suc b) (live1 (stack ! b)) [b] [] s)
        (live1 (stack ! b) + count_live stack [Suc b..<Suc b + (width - 1)]) 0"
      by (intro Walk_run; (assumption | use assms(2,3) in simp))
    then have "reached (From stack width b s)
        (live1 (stack ! b) + count_live stack [Suc b..<Suc b + (width - 1)]) 0"
      by (simp only: From_def Suc_eq_plus1)
    ultimately show ?thesis using True by (simp add: fold_From_improves)
  next
    case False
    then show ?thesis using Cons by simp
  qed
qed simp

subsection \<open>Properties\<close>

text \<open>C17: a group that is chosen is sound. The order is a permutation of the stack in which
  any two layers that overlap keep their order, so the panel shows the same picture; the
  group has exactly the width asked for, its members are taken bottom to top and share one
  turn, and the count of drawing layers is the group's own.\<close>

theorem ChooseMergeGroup_sound:
  assumes "ChooseMergeGroup stack width = Some c"
  shows "valid_choice stack width c"
proof -
  have w: "0 < width" "width \<le> length stack"
    and c: "se_best (fold (From stack width) [0..<length stack - width + 1]
              \<lparr>se_steps = kSteps, se_best = None\<rparr>) = Some c"
    using assms by (auto simp: ChooseMergeGroup_def split: if_splits)
  have "best_valid stack width (fold (From stack width) [0..<length stack - width + 1]
          \<lparr>se_steps = kSteps, se_best = None\<rparr>)"
    using w by (intro fold_From_valid) (auto simp: best_valid_def)
  then show ?thesis using c by (simp add: best_valid_def)
qed

text \<open>Two quiet bars with a drawing layer between them that touches neither: it is lowered.\<close>

definition demo_members :: "group_member list" where
  "demo_members =
     [\<lparr>gm_live = False, gm_frame = Some (mk_rect 0 0 100 10), gm_turn = 0\<rparr>,
      \<lparr>gm_live = True, gm_frame = Some (mk_rect 0 50 100 60), gm_turn = 0\<rparr>,
      \<lparr>gm_live = False, gm_frame = Some (mk_rect 0 90 100 100), gm_turn = 0\<rparr>]"

definition demo_choice :: group_choice where
  "demo_choice = \<lparr>gc_order = [1, 0, 2], gc_begin = 1, gc_width = 2, gc_live = 0, gc_lowered = 1\<rparr>"

lemma demo_ChooseMergeGroup: "ChooseMergeGroup demo_members 2 = Some demo_choice"
  by code_simp

theorem ChooseMergeGroup_sound_witness: "valid_choice demo_members 2 demo_choice"
  by (rule ChooseMergeGroup_sound [OF demo_ChooseMergeGroup])

text \<open>the group is never worse than a contiguous run of the stack. Whenever some run of
  the asked width shares a turn, a group is found, with no more drawing layers than the run,
  and with nothing lowered when it has as many: the bound on the search's steps never costs
  the choice that was there before anything was lowered.\<close>

theorem ChooseMergeGroup_no_worse_than_run:
  assumes "0 < width" "b + width \<le> length stack"
    "\<forall>j\<in>{b..<b + width}. gm_turn (stack ! j) = gm_turn (stack ! b)"
  shows "\<exists>c. ChooseMergeGroup stack width = Some c \<and>
    (gc_live c < count_live stack [b..<b + width] \<or>
     (gc_live c = count_live stack [b..<b + width] \<and> gc_lowered c = 0))"
proof -
  have "b \<in> set [0..<length stack - width + 1]" using assms(2) by auto
  from fold_From_run [OF this assms, of "\<lparr>se_steps = kSteps, se_best = None\<rparr>"]
  show ?thesis
    using assms(1,2) by (auto simp: ChooseMergeGroup_def reached_def no_worse_def)
qed

theorem ChooseMergeGroup_no_worse_than_run_witness:
  "\<exists>c. ChooseMergeGroup demo_members 2 = Some c \<and> (gc_live c < 1 \<or> (gc_live c = 1 \<and> gc_lowered c = 0))"
proof -
  have h: "0 < (2::nat)" "0 + 2 \<le> length demo_members"
    "\<forall>j\<in>{0..<0 + 2}. gm_turn (demo_members ! j) = gm_turn (demo_members ! 0)"
    by (auto simp: demo_members_def less_2_cases_iff numeral_2_eq_2 less_Suc_eq)
  have "count_live demo_members [0..<0 + 2] = 1" by code_simp
  then show ?thesis using ChooseMergeGroup_no_worse_than_run [OF h] by simp
qed

end
