(* ===== verification/PictureMemory.thy ===== *)
theory PictureMemory
  imports Rects
begin

text \<open>
  compositor/PictureMemory.h and PictureMemory.cpp: the last picture an engine drew, kept to
  be shown again. The class is the record \<open>picture_memory\<close>; \<open>Judge\<close>, \<open>SameButFrames\<close>,
  \<open>Remember\<close> and \<open>Forget\<close> are its methods.
\<close>

record member =
  mb_source :: nat
  mb_generation :: nat
  mb_serial :: nat
  mb_solid :: bool
  mb_color :: "f32 list"
  mb_src :: frect
  mb_dst :: irect
  mb_alpha :: f32
  mb_premultiplied :: bool
  mb_opaque :: bool
  mb_transform :: nat
  mb_corners :: "f32 list"
  mb_turned :: "f32 list"

datatype verdict =
  kSame | kFirstSight | kChangedShape | kChangedSize | kNameless | kChangedIdentity
  | kChangedFrame | kChangedGeometry | kChangedBlend | kChangedTransform | kChangedEffects

record picture_memory =
  pm_remembered :: bool
  pm_width :: nat
  pm_height :: nat
  pm_members :: "member list"

definition pm_init :: picture_memory where
  "pm_init = \<lparr>pm_remembered = False, pm_width = 0, pm_height = 0, pm_members = []\<rparr>"

text \<open>\<open>operator==\<close> of an array of floats compares element by element.\<close>

definition f32s_eq :: "f32 list \<Rightarrow> f32 list \<Rightarrow> bool" where
  "f32s_eq = list_all2 f32_eq"

definition judge_identity :: "bool \<Rightarrow> member \<Rightarrow> member \<Rightarrow> verdict" where
  "judge_identity frames_aside m r =
     (if frames_aside
      then if mb_serial m = 0 then kNameless
           else if mb_solid m \<noteq> mb_solid r \<or> mb_serial m \<noteq> mb_serial r \<or>
                   \<not> f32s_eq (mb_color m) (mb_color r) then kChangedIdentity
           else kSame
      else if \<not> mb_solid m \<and> mb_source m = 0 then kNameless
           else if mb_solid m \<noteq> mb_solid r \<or> mb_source m \<noteq> mb_source r \<or>
                   \<not> f32s_eq (mb_color m) (mb_color r) then kChangedIdentity
           else if mb_generation m \<noteq> mb_generation r then kChangedFrame
           else kSame)"

definition judge_member :: "bool \<Rightarrow> member \<Rightarrow> member \<Rightarrow> verdict" where
  "judge_member frames_aside m r =
     (let v = judge_identity frames_aside m r in
      if v \<noteq> kSame then v
      else if \<not> frect_eq (mb_src m) (mb_src r) \<or> mb_dst m \<noteq> mb_dst r then kChangedGeometry
      else if \<not> f32_eq (mb_alpha m) (mb_alpha r) \<or> mb_premultiplied m \<noteq> mb_premultiplied r \<or>
              mb_opaque m \<noteq> mb_opaque r then kChangedBlend
      else if mb_transform m \<noteq> mb_transform r then kChangedTransform
      else if \<not> f32s_eq (mb_corners m) (mb_corners r) \<or> \<not> f32s_eq (mb_turned m) (mb_turned r)
           then kChangedEffects
      else kSame)"

fun judge_members :: "bool \<Rightarrow> member list \<Rightarrow> member list \<Rightarrow> verdict" where
  "judge_members aside (m # ms) (r # rs) =
     (let v = judge_member aside m r in if v \<noteq> kSame then v else judge_members aside ms rs)"
| "judge_members aside _ _ = kSame"

definition Compare :: "picture_memory \<Rightarrow> nat \<Rightarrow> nat \<Rightarrow> member list \<Rightarrow> bool \<Rightarrow> verdict" where
  "Compare p width height members frames_aside =
     (if \<not> pm_remembered p then kFirstSight
      else if length members \<noteq> length (pm_members p) then kChangedShape
      else if width \<noteq> pm_width p \<or> height \<noteq> pm_height p then kChangedSize
      else judge_members frames_aside members (pm_members p))"

definition Judge :: "picture_memory \<Rightarrow> nat \<Rightarrow> nat \<Rightarrow> member list \<Rightarrow> verdict" where
  "Judge p width height members = Compare p width height members False"

definition SameButFrames :: "picture_memory \<Rightarrow> nat \<Rightarrow> nat \<Rightarrow> member list \<Rightarrow> bool" where
  "SameButFrames p width height members = (Compare p width height members True = kSame)"

definition Remember :: "picture_memory \<Rightarrow> nat \<Rightarrow> nat \<Rightarrow> member list \<Rightarrow> picture_memory" where
  "Remember p width height members =
     p\<lparr>pm_remembered := True, pm_width := width, pm_height := height, pm_members := members\<rparr>"

definition Forget :: "picture_memory \<Rightarrow> picture_memory" where
  "Forget p = p\<lparr>pm_remembered := False\<rparr>"

subsection \<open>What a verdict of the same picture means\<close>

text \<open>What a member shows, whichever layer serial it carries; and which layer, whichever
  buffer and frame.\<close>

definition same_look :: "member \<Rightarrow> member \<Rightarrow> bool" where
  "same_look m r \<longleftrightarrow> mb_solid m = mb_solid r \<and> mb_color m = mb_color r \<and> mb_src m = mb_src r \<and>
     mb_dst m = mb_dst r \<and> mb_alpha m = mb_alpha r \<and> mb_premultiplied m = mb_premultiplied r \<and>
     mb_opaque m = mb_opaque r \<and> mb_transform m = mb_transform r \<and>
     mb_corners m = mb_corners r \<and> mb_turned m = mb_turned r"

definition no_nan :: "member \<Rightarrow> bool" where
  "no_nan m \<longleftrightarrow> NaN \<notin> set (mb_color m) \<and> rleft (mb_src m) \<noteq> NaN \<and> rtop (mb_src m) \<noteq> NaN \<and>
     rright (mb_src m) \<noteq> NaN \<and> rbottom (mb_src m) \<noteq> NaN \<and> mb_alpha m \<noteq> NaN \<and>
     NaN \<notin> set (mb_corners m) \<and> NaN \<notin> set (mb_turned m)"

definition nameable :: "member \<Rightarrow> bool" where
  "nameable m \<longleftrightarrow> mb_solid m \<or> mb_source m \<noteq> 0"

lemma f32s_eq_iff: "f32s_eq xs ys \<longleftrightarrow> xs = ys \<and> NaN \<notin> set xs"
proof (induction xs arbitrary: ys)
  case (Cons x xs)
  then show ?case by (cases ys) (auto simp: f32s_eq_def f32_eq_iff)
qed (auto simp: f32s_eq_def)

lemma frect_eq_iff: "frect_eq a b \<longleftrightarrow> a = b \<and>
    rleft a \<noteq> NaN \<and> rtop a \<noteq> NaN \<and> rright a \<noteq> NaN \<and> rbottom a \<noteq> NaN"
  by (auto simp: frect_eq_def f32_eq_iff intro: rect_eqI)

lemma judge_member_False:
  "judge_member False m r = kSame \<longleftrightarrow> nameable m \<and> no_nan m \<and> same_look m r \<and>
     mb_source m = mb_source r \<and> mb_generation m = mb_generation r"
  by (auto simp: judge_member_def judge_identity_def Let_def nameable_def no_nan_def same_look_def
      f32s_eq_iff frect_eq_iff f32_eq_iff)

lemma judge_member_True:
  "judge_member True m r = kSame \<longleftrightarrow> mb_serial m \<noteq> 0 \<and> no_nan m \<and> same_look m r \<and>
     mb_serial m = mb_serial r"
  by (auto simp: judge_member_def judge_identity_def Let_def no_nan_def same_look_def
      f32s_eq_iff frect_eq_iff f32_eq_iff)

lemma judge_members_same:
  "length ms = length rs \<Longrightarrow>
   judge_members aside ms rs = kSame \<longleftrightarrow> list_all2 (\<lambda>m r. judge_member aside m r = kSame) ms rs"
  by (induction ms rs rule: list_induct2) (auto simp: Let_def)

lemma Compare_same:
  "Compare p w h ms aside = kSame \<longleftrightarrow> pm_remembered p \<and> w = pm_width p \<and> h = pm_height p \<and>
     list_all2 (\<lambda>m r. judge_member aside m r = kSame) ms (pm_members p)"
  by (auto simp: Compare_def judge_members_same dest: list_all2_lengthD)

lemma same_look_members:
  "(\<forall>m\<in>set ms. no_nan m \<and> nameable m) \<Longrightarrow>
   list_all2 (\<lambda>m r. judge_member False m r = kSame) ms ms"
  by (induction ms) (auto simp: judge_member_False same_look_def)

subsection \<open>Properties\<close>

text \<open>a picture is judged the remembered one exactly when one is remembered, the sizes
  agree, and every member can be named and is, frame, place, blend, turn and effects
  included, the member remembered in its place; the layer serial is not compared.\<close>

theorem Judge_same_iff:
  "Judge p w h ms = kSame \<longleftrightarrow> pm_remembered p \<and> w = pm_width p \<and> h = pm_height p \<and>
     list_all2 (\<lambda>m r. nameable m \<and> no_nan m \<and> same_look m r \<and> mb_source m = mb_source r \<and>
       mb_generation m = mb_generation r) ms (pm_members p)"
  by (simp add: Judge_def Compare_same judge_member_False)

text \<open>what is remembered is recognised, and nothing else is until the next picture: after
  \<open>Remember\<close> the same picture is judged the same, and after \<open>Forget\<close> no picture is.\<close>

theorem Remember_Judge_roundtrip:
  assumes "\<forall>m\<in>set ms. no_nan m \<and> nameable m"
  shows "Judge (Remember p w h ms) w h ms = kSame \<and> Judge (Forget (Remember p w h ms)) w h ms = kFirstSight"
  using same_look_members [OF assms]
  by (simp add: Judge_def Compare_same, simp add: Remember_def Forget_def Compare_def)

definition demo_member :: member where
  "demo_member = \<lparr>mb_source = 7, mb_generation = 1, mb_serial = 3, mb_solid = False,
     mb_color = [Fin 0, Fin 0, Fin 0, Fin 0], mb_src = mk_rect (Fin 0) (Fin 0) (Fin 100) (Fin 50),
     mb_dst = mk_rect 0 0 100 50, mb_alpha = Fin 1, mb_premultiplied = True, mb_opaque = False,
     mb_transform = 0, mb_corners = [Fin 0, Fin 0, Fin 0, Fin 0, Fin 0],
     mb_turned = [Fin 0, Fin 0, Fin 0, Fin 0, Fin 0, Fin 0]\<rparr>"

theorem Remember_Judge_roundtrip_witness:
  "Judge (Remember pm_init 100 50 [demo_member]) 100 50 [demo_member] = kSame"
proof -
  have h: "\<forall>m\<in>set [demo_member]. no_nan m \<and> nameable m"
    by (simp add: demo_member_def no_nan_def nameable_def)
  show ?thesis using Remember_Judge_roundtrip [OF h, of pm_init 100 50] by simp
qed

end

