(* ===== verification/Gather.thy ===== *)
theory Gather
  imports PictureMemory
begin

text \<open>
  How compositor/PartialRedraw.cpp turns the places to draw into parts an engine can take
  (\<open>Gather\<close>): on its edges, inside the buffer, near ones joined, few enough, and, for an
  engine that cannot draw a part no member lands in, none that only clears. Every loop joins
  two parts a time; what a join keeps, the loops keep, and that is proved once, in the locale
  \<open>kept_by_joins\<close>.
\<close>

record engine =
  draws_scaled_in_part :: bool
  draws_many_parts :: bool
  draws_empty_part :: bool

definition kColumnGrain :: int where "kColumnGrain = 16"
definition kRowGrain :: int where "kRowGrain = 2"
definition kPartPixels :: int where "kPartPixels = 65536"
definition kMostParts :: nat where "kMostParts = 4"

definition Down :: "int \<Rightarrow> int \<Rightarrow> int" where
  "Down v grain = cdiv v grain * grain"

definition Up :: "int \<Rightarrow> int \<Rightarrow> int" where
  "Up v grain = cdiv (v + grain - 1) grain * grain"

definition AreaOf :: "irect \<Rightarrow> int" where
  "AreaOf r = (if rEmpty r then 0 else rwidth r * rheight r)"

definition Growth :: "irect \<Rightarrow> irect \<Rightarrow> int" where
  "Growth a b = AreaOf (rJoin a b) - AreaOf a - AreaOf b"

definition Bounds :: "irect list \<Rightarrow> irect" where
  "Bounds parts = (case parts of [] \<Rightarrow> mk_rect 0 0 0 0 | r # rs \<Rightarrow> box_of r rs)"

definition Area :: "irect list \<Rightarrow> int" where
  "Area parts = sum_list (map AreaOf parts)"

text \<open>A place, grown to the engine's edges and kept inside the buffer.\<close>

definition on_edges :: "irect \<Rightarrow> irect \<Rightarrow> irect" where
  "on_edges bounds r = mk_rect
     (max (Down (rleft r) kColumnGrain) (rleft bounds)) (max (Down (rtop r) kRowGrain) (rtop bounds))
     (min (Up (rright r) kColumnGrain) (rright bounds)) (min (Up (rbottom r) kRowGrain) (rbottom bounds))"

text \<open>The lambda \<open>join\<close> of \<open>Gather\<close>, the pairs of positions in the order its loops visit
  them, and the lambda \<open>draws_something\<close>.\<close>

definition join_at :: "nat \<Rightarrow> nat \<Rightarrow> irect list \<Rightarrow> irect list" where
  "join_at i j parts = erase_at j (parts[i := rJoin (parts ! i) (parts ! j)])"

definition pairs :: "nat \<Rightarrow> (nat \<times> nat) list" where
  "pairs n = concat (map (\<lambda>i. map (Pair i) [Suc i..<n]) [0..<n])"

definition draws_something :: "member list \<Rightarrow> irect \<Rightarrow> bool" where
  "draws_something members part = list_ex (\<lambda>m. rMeet (mb_dst m) part) members"

lemma in_pairs: "(i, j) \<in> set (pairs n) \<longleftrightarrow> i < j \<and> j < n"
proof -
  have "(i, j) \<in> set (pairs n) \<longleftrightarrow> i \<in> {0..<n} \<and> j \<in> {Suc i..<n}"
    unfolding pairs_def set_concat set_map set_upt image_image by (auto intro!: bexI [of _ i])
  then show ?thesis by (simp only: atLeastLessThan_iff) arith
qed

lemma length_join_at: "i < j \<Longrightarrow> j < length parts \<Longrightarrow> length (join_at i j parts) = length parts - 1"
  by (simp add: join_at_def)

subsection \<open>Near parts are joined\<close>

definition near :: "irect list \<Rightarrow> nat \<times> nat \<Rightarrow> bool" where
  "near parts ij = (case ij of (i, j) \<Rightarrow>
     rMeet (parts ! i) (parts ! j) \<or> Growth (parts ! i) (parts ! j) \<le> kPartPixels)"

lemma find_pairs: "find P (pairs n) = Some (i, j) \<Longrightarrow> i < j \<and> j < n"
proof -
  assume "find P (pairs n) = Some (i, j)"
  then have "(i, j) \<in> set (pairs n)" by (auto simp: find_Some_iff)
  then show ?thesis by (simp only: in_pairs)
qed

lemma join_at_shorter: "i < j \<Longrightarrow> j < length parts \<Longrightarrow> length (join_at i j parts) < length parts"
  by (simp add: length_join_at)

function join_near :: "irect list \<Rightarrow> irect list" where
  "join_near parts = (case find (near parts) (pairs (length parts)) of
     None \<Rightarrow> parts
   | Some (i, j) \<Rightarrow> join_near (join_at i j parts))"
  by pat_completeness auto

termination
proof (relation "measure length")
  fix parts :: "irect list" and x i j
  assume "find (near parts) (pairs (length parts)) = Some x" "(i, j) = x"
  then have "i < j \<and> j < length parts" using find_pairs by blast
  then show "(join_at i j parts, parts) \<in> measure length"
    using join_at_shorter by simp
qed simp

declare join_near.simps [simp del]

subsection \<open>A part that only clears is joined to another\<close>

text \<open>The candidate starts as the first other part, whether or not that one draws, and is
  replaced by a drawing one that grows less.\<close>

definition best_for :: "member list \<Rightarrow> irect list \<Rightarrow> nat \<Rightarrow> nat" where
  "best_for members parts i = fold (\<lambda>j best.
       if j \<noteq> i \<and> draws_something members (parts ! j) \<and>
          Growth (parts ! i) (parts ! j) < Growth (parts ! i) (parts ! best)
       then j else best)
     [0..<length parts] (if i = 0 then 1 else 0)"

lemma best_fold:
  assumes "b \<noteq> i" "b < n" "\<forall>j\<in>set js. j < n"
  shows "fold (\<lambda>j best. if j \<noteq> i \<and> P j \<and> g j < (g best :: int) then j else best) js b \<noteq> i \<and>
    fold (\<lambda>j best. if j \<noteq> i \<and> P j \<and> g j < g best then j else best) js b < n"
  using assms by (induction js arbitrary: b) simp_all

lemma best_for_ok:
  assumes "i < length parts" "length parts \<noteq> 1"
  shows "best_for members parts i \<noteq> i \<and> best_for members parts i < length parts"
proof -
  have "(if i = 0 then 1 else 0) \<noteq> i" by simp
  moreover have "(if i = 0 then 1 else 0) < length parts"
    using assms by (cases "length parts") auto
  moreover have "\<forall>j\<in>set [0..<length parts]. j < length parts"
    by (simp only: set_upt) simp
  ultimately show ?thesis
    unfolding best_for_def
    by (rule best_fold [of "if i = 0 then 1 else 0" i "length parts" "[0..<length parts]"
        "\<lambda>j. draws_something members (parts ! j)" "\<lambda>j. Growth (parts ! i) (parts ! j)"])
qed

lemma min_max_best:
  assumes "i < length parts" "length parts \<noteq> 1"
  shows "min i (best_for members parts i) < max i (best_for members parts i)"
    "max i (best_for members parts i) < length parts"
  using best_for_ok [OF assms, of members] assms(1) by (auto simp: min_def max_def)

function join_idle :: "member list \<Rightarrow> irect list \<Rightarrow> nat \<Rightarrow> irect list" where
  "join_idle members parts i =
     (if i < length parts then
        if draws_something members (parts ! i) \<or> length parts = 1
        then join_idle members parts (Suc i)
        else let best = best_for members parts i
             in join_idle members (join_at (min i best) (max i best) parts) 0
      else parts)"
  by pat_completeness auto

termination
proof (relation "measures [\<lambda>(m, parts, i). length parts, \<lambda>(m, parts, i). length parts - i]")
  fix members parts i best
  assume "i < length parts" "\<not> (draws_something members (parts ! i) \<or> length parts = 1)"
    "best = best_for members parts i"
  then show "((members, join_at (min i best) (max i best) parts, 0), members, parts, i)
      \<in> measures [\<lambda>(m, parts, i). length parts, \<lambda>(m, parts, i). length parts - i]"
    using join_at_shorter min_max_best [of i parts members] by simp
qed auto

declare join_idle.simps [simp del]

subsection \<open>Down to the most parts one picture is drawn in\<close>

definition least_growth :: "irect list \<Rightarrow> nat \<times> nat" where
  "least_growth parts = fold (\<lambda>(i, j) (bi, bj).
       if Growth (parts ! i) (parts ! j) < Growth (parts ! bi) (parts ! bj) then (i, j) else (bi, bj))
     (pairs (length parts)) (0, 1)"

lemma least_fold:
  assumes "bi < bj" "bj < n" "\<forall>(i, j)\<in>set ps. i < j \<and> j < n"
    "fold (\<lambda>(i, j) (bi, bj). if (g i j :: int) < g bi bj then (i, j) else (bi, bj)) ps (bi, bj) = (i, j)"
  shows "i < j \<and> j < n"
  using assms
proof (induction ps arbitrary: bi bj)
  case (Cons p ps)
  obtain a b where p: "p = (a, b)" by (cases p)
  show ?case
  proof (cases "g a b < g bi bj")
    case True
    then show ?thesis using Cons.IH [of a b] Cons.prems by (simp add: p)
  next
    case False
    then show ?thesis using Cons.IH [of bi bj] Cons.prems by (simp add: p)
  qed
qed simp

lemma least_growth_ok:
  assumes "length parts > kMostParts"
  shows "fst (least_growth parts) < snd (least_growth parts) \<and>
    snd (least_growth parts) < length parts"
proof -
  have "\<forall>(i, j)\<in>set (pairs (length parts)). i < j \<and> j < length parts"
    using in_pairs by blast
  moreover have "0 < (1::nat)" "1 < length parts" using assms by (simp_all add: kMostParts_def)
  ultimately show ?thesis
    using least_fold [of 0 1 "length parts" "pairs (length parts)"
        "\<lambda>i j. Growth (parts ! i) (parts ! j)" "fst (least_growth parts)"
        "snd (least_growth parts)"]
    by (simp only: least_growth_def prod.collapse)
qed

function join_least :: "irect list \<Rightarrow> irect list" where
  "join_least parts = (if length parts > kMostParts
     then join_least (join_at (fst (least_growth parts)) (snd (least_growth parts)) parts)
     else parts)"
  by pat_completeness auto

termination
  by (relation "measure length") (simp_all add: least_growth_ok join_at_shorter)

declare join_least.simps [simp del]

definition Gather :: "irect list \<Rightarrow> irect \<Rightarrow> member list \<Rightarrow> engine \<Rightarrow> irect list" where
  "Gather places bounds members engine =
     (let parts = filter (\<lambda>p. \<not> rEmpty p) (map (on_edges bounds) places) in
      if parts = [] then []
      else if \<not> draws_many_parts engine then [Bounds parts]
      else let near = join_near parts;
               idle = (if draws_empty_part engine then near else join_idle members near 0)
           in join_least idle)"

subsection \<open>What joining keeps\<close>

lemma in_join_at:
  assumes "i < j" "j < length parts" "q \<in> set (join_at i j parts)"
  shows "q = rJoin (parts ! i) (parts ! j) \<or> q \<in> set parts"
proof -
  have "q \<in> set (parts[i := rJoin (parts ! i) (parts ! j)])"
    by (rule subsetD [OF set_erase_at assms(3) [unfolded join_at_def]])
  then show ?thesis using set_update_subset_insert [of parts i "rJoin (parts ! i) (parts ! j)"] by blast
qed

lemma joined_in: "i < j \<Longrightarrow> j < length parts \<Longrightarrow> rJoin (parts ! i) (parts ! j) \<in> set (join_at i j parts)"
  by (simp add: join_at_def erase_at_update_set)

lemma kept_in:
  assumes "i < j" "j < length parts" "q \<in> set parts"
  shows "q = parts ! i \<or> q = parts ! j \<or> q \<in> set (join_at i j parts)"
proof -
  obtain k where k: "k < length parts" "q = parts ! k" using assms(3) by (auto simp: in_set_conv_nth)
  let ?u = "parts[i := rJoin (parts ! i) (parts ! j)]"
  have "q \<in> set ?u" if "k \<noteq> i" using k that by (auto simp: in_set_conv_nth intro!: exI [of _ k])
  moreover have "set ?u = insert (parts ! j) (set (join_at i j parts))"
    using set_erase_at_insert [of j ?u] assms(1,2) by (simp add: join_at_def)
  ultimately show ?thesis using k(2) by auto
qed

lemma region_join_at:
  assumes "i < j" "j < length parts"
  shows "region parts \<subseteq> region (join_at i j parts)"
proof
  fix p
  assume "p \<in> region parts"
  then obtain q where q: "q \<in> set parts" "p \<in> pts q" by (auto simp: in_region)
  have "p \<in> pts (rJoin (parts ! i) (parts ! j))" if "q = parts ! i \<or> q = parts ! j"
    using that q(2) pts_rJoin by blast
  then show "p \<in> region (join_at i j parts)"
    using kept_in [OF assms q(1)] joined_in [OF assms] q(2) by (auto simp: in_region)
qed

locale kept_by_joins =
  fixes P :: "irect list \<Rightarrow> bool"
  assumes join: "P parts \<Longrightarrow> i < j \<Longrightarrow> j < length parts \<Longrightarrow> P (join_at i j parts)"
begin

lemma near: "P parts \<Longrightarrow> P (join_near parts)"
proof (induction parts rule: join_near.induct)
  case (1 parts)
  show ?case
  proof (cases "find (near parts) (pairs (length parts))")
    case None
    then show ?thesis using 1(2) by (simp add: join_near.simps [of parts])
  next
    case (Some ij)
    obtain i j where ij: "ij = (i, j)" by (cases ij)
    have "i < j \<and> j < length parts" using Some unfolding ij by (rule find_pairs)
    then show ?thesis
      using 1(1) [OF Some ij [symmetric]] join [OF 1(2)] Some
      by (simp add: join_near.simps [of parts] ij)
  qed
qed

lemma idle: "P parts \<Longrightarrow> P (join_idle members parts i)"
proof (induction members parts i rule: join_idle.induct)
  case (1 members parts i)
  consider "\<not> i < length parts" | "i < length parts" "draws_something members (parts ! i) \<or> length parts = 1"
    | "i < length parts" "\<not> (draws_something members (parts ! i) \<or> length parts = 1)" by blast
  then show ?case
  proof cases
    case 1
    then show ?thesis using "1.prems" by (simp add: join_idle.simps [of members parts i])
  next
    case 2
    then show ?thesis using "1.IH"(1) "1.prems"
      by (simp add: join_idle.simps [of members parts i])
  next
    case 3
    have "P (join_at (min i (best_for members parts i)) (max i (best_for members parts i)) parts)"
      using 3 by (intro join "1.prems" min_max_best) auto
    then show ?thesis using "1.IH"(2) [OF 3 refl] 3
      by (simp add: join_idle.simps [of members parts i] Let_def)
  qed
qed

lemma least: "P parts \<Longrightarrow> P (join_least parts)"
proof (induction parts rule: join_least.induct)
  case (1 parts)
  show ?case
  proof (cases "kMostParts < length parts")
    case True
    then show ?thesis using 1(1) [OF True] join [OF 1(2)] least_growth_ok [OF True]
      by (simp add: join_least.simps [of parts])
  qed (use 1(2) in \<open>simp add: join_least.simps [of parts]\<close>)
qed

end

interpretation covering: kept_by_joins "\<lambda>qs. X \<subseteq> region qs" for X
  by unfold_locales (use region_join_at in blast)

interpretation within: kept_by_joins "\<lambda>qs. \<forall>q\<in>set qs. inside q b \<and> \<not> rEmpty q" for b
proof
  fix parts i j
  assume p: "\<forall>q\<in>set parts. inside q b \<and> \<not> rEmpty q" and ij: "i < j" "j < length parts"
  have "inside (rJoin (parts ! i) (parts ! j)) b" "\<not> rEmpty (rJoin (parts ! i) (parts ! j))"
    using p ij by (auto intro!: rJoin_least not_rEmpty_rJoin)
  then show "\<forall>q\<in>set (join_at i j parts). inside q b \<and> \<not> rEmpty q"
    using in_join_at [OF ij] p by blast
qed

lemma rMeet_rJoin: "rMeet d a \<or> rMeet d b \<Longrightarrow> rMeet d (rJoin a b)"
  by (auto simp: rMeet_def rJoin_def)

lemma draws_something_join:
  "draws_something ms a \<or> draws_something ms b \<Longrightarrow> draws_something ms (rJoin a b)"
  using rMeet_rJoin unfolding draws_something_def list_ex_iff by blast

text \<open>A single part may only clear: there is nothing to join it to.\<close>

definition all_draw :: "member list \<Rightarrow> irect list \<Rightarrow> bool" where
  "all_draw ms parts \<longleftrightarrow> length parts \<le> 1 \<or> (\<forall>q\<in>set parts. draws_something ms q)"

interpretation drawing: kept_by_joins "all_draw ms" for ms
proof
  fix parts i j
  assume p: "all_draw ms parts" and ij: "i < j" "j < length parts"
  then have d: "\<forall>q\<in>set parts. draws_something ms q" by (auto simp: all_draw_def)
  then have "draws_something ms (rJoin (parts ! i) (parts ! j))"
    using ij by (intro draws_something_join) simp
  then show "all_draw ms (join_at i j parts)"
    using in_join_at [OF ij] d by (auto simp: all_draw_def)
qed

lemma join_idle_draws:
  "\<forall>k<min i (length parts). draws_something ms (parts ! k) \<or> length parts = 1 \<Longrightarrow>
   all_draw ms (join_idle ms parts i)"
proof (induction ms parts i rule: join_idle.induct)
  case (1 ms parts i)
  consider "\<not> i < length parts" | "i < length parts" "draws_something ms (parts ! i) \<or> length parts = 1"
    | "i < length parts" "\<not> (draws_something ms (parts ! i) \<or> length parts = 1)" by blast
  then show ?case
  proof cases
    case 1
    then show ?thesis using "1.prems"
      by (auto simp: join_idle.simps [of ms parts i] all_draw_def in_set_conv_nth)
  next
    case 2
    have "\<forall>k<min (Suc i) (length parts). draws_something ms (parts ! k) \<or> length parts = 1"
      using "1.prems" 2 by (auto simp: less_Suc_eq)
    then show ?thesis using "1.IH"(1) [OF 2] 2 by (simp add: join_idle.simps [of ms parts i])
  next
    case 3
    then show ?thesis using "1.IH"(2) [OF 3 refl]
      by (simp add: join_idle.simps [of ms parts i] Let_def)
  qed
qed

lemma length_join_least: "length (join_least parts) \<le> kMostParts"
proof (induction parts rule: join_least.induct)
  case (1 parts)
  then show ?case by (cases "kMostParts < length parts") (simp_all add: join_least.simps [of parts])
qed

subsection \<open>The edges of the engine\<close>

lemma Down_le: "0 \<le> v \<Longrightarrow> 0 < g \<Longrightarrow> Down v g \<le> v"
  by (simp add: Down_def cdiv_nonneg minus_mod_eq_div_mult [symmetric])

lemma Down_neg: "v < 0 \<Longrightarrow> 0 < g \<Longrightarrow> Down v g \<le> 0"
  by (simp add: Down_def cdiv_neg mult_nonneg_nonneg pos_imp_zdiv_nonneg_iff)

lemma le_Up: "0 \<le> v \<Longrightarrow> 0 < g \<Longrightarrow> v \<le> Up v g"
proof -
  assume "0 \<le> v" "0 < g"
  then have "Up v g = v + g - 1 - (v + g - 1) mod g"
    by (simp add: Up_def cdiv_nonneg minus_mod_eq_div_mult [symmetric])
  then show ?thesis using pos_mod_bound [OF \<open>0 < g\<close>, of "v + g - 1"] by linarith
qed

lemma pts_on_edges:
  assumes "rleft b = 0" "rtop b = 0"
  shows "pts r \<inter> pts b \<subseteq> pts (on_edges b r)"
proof -
  have d: "Down v g \<le> x" if "v \<le> x" "0 \<le> x" "0 < g" for v x g
    using Down_le [of v g] Down_neg [of v g] that by (cases "0 \<le> v") auto
  have u: "x < Up v g" if "x < v" "0 \<le> x" "0 < g" for v x g
    using le_Up [of v g] that by auto
  show ?thesis
    using assms d u by (auto simp: on_edges_def kColumnGrain_def kRowGrain_def)
qed

lemma on_edges_inside: "inside (on_edges b r) b"
  by (simp add: on_edges_def inside_def)

definition buffer_bounds :: "nat \<Rightarrow> nat \<Rightarrow> irect" where
  "buffer_bounds width height = mk_rect 0 0 (int width) (int height)"

text \<open>What \<open>Gather\<close> answers, whichever way the engine draws.\<close>

lemma Gather_cases:
  fixes places bounds
  defines "parts \<equiv> filter (\<lambda>p. \<not> rEmpty p) (map (on_edges bounds) places)"
  obtains "parts = []" "Gather places bounds ms e = []"
  | r rs where "parts = r # rs" "\<not> draws_many_parts e" "Gather places bounds ms e = [box_of r rs]"
  | "parts \<noteq> []" "draws_many_parts e"
    "Gather places bounds ms e = join_least (if draws_empty_part e then join_near parts
       else join_idle ms (join_near parts) 0)"
proof (cases parts)
  case Nil
  then show thesis using that(1) by (simp add: Gather_def parts_def)
next
  case (Cons r rs)
  show thesis
  proof (cases "draws_many_parts e")
    case True
    then show thesis using that(3) Cons by (simp add: Gather_def parts_def Let_def)
  next
    case False
    then show thesis using that(2) [OF Cons False] Cons
      by (simp add: Gather_def parts_def Let_def Bounds_def)
  qed
qed

lemma region_parts:
  "rleft b = 0 \<Longrightarrow> rtop b = 0 \<Longrightarrow>
   region places \<inter> pts b \<subseteq> region (filter (\<lambda>p. \<not> rEmpty p) (map (on_edges b) places))"
proof
  fix p
  assume b: "rleft b = 0" "rtop b = 0" and p: "p \<in> region places \<inter> pts b"
  then obtain r where r: "r \<in> set places" "p \<in> pts (on_edges b r)"
    using pts_on_edges [OF b] by (auto simp: in_region)
  then have "\<not> rEmpty (on_edges b r)" by (auto simp: rEmpty_iff)
  then show "p \<in> region (filter (\<lambda>p. \<not> rEmpty p) (map (on_edges b) places))"
    using r by (auto simp: in_region)
qed

lemma Gather_region:
  assumes "rleft b = 0" "rtop b = 0"
  shows "region places \<inter> pts b \<subseteq> region (Gather places b ms e)"
proof (cases rule: Gather_cases [of b places ms e])
  case 1
  then show ?thesis using region_parts [OF assms, of places] by simp
next
  case (2 r rs)
  then show ?thesis using region_parts [OF assms, of places] region_box_of [of r rs] by auto
next
  case 3
  then show ?thesis using region_parts [OF assms, of places]
    by (auto intro!: covering.least covering.near covering.idle)
qed

lemma parts_within:
  "\<forall>a\<in>set (filter (\<lambda>p. \<not> rEmpty p) (map (on_edges b) places)). inside a b \<and> \<not> rEmpty a"
  using on_edges_inside by auto

lemma Gather_within: "q \<in> set (Gather places b ms e) \<Longrightarrow> inside q b \<and> \<not> rEmpty q"
proof (cases rule: Gather_cases [of b places ms e])
  case (2 r rs)
  have "\<forall>a\<in>set (r # rs). inside a b \<and> \<not> rEmpty a"
    using parts_within [of b places] unfolding 2(1) .
  then have "inside (box_of r rs) b" "\<not> rEmpty (box_of r rs)"
    by (auto intro!: box_of_least not_rEmpty_box_of)
  moreover assume "q \<in> set (Gather places b ms e)"
  ultimately show ?thesis by (simp add: 2(3))
next
  case 3
  note near = within.least [OF within.near [OF parts_within]]
  note idle = within.least [OF within.idle [OF within.near [OF parts_within]]]
  assume q: "q \<in> set (Gather places b ms e)"
  show ?thesis
  proof (cases "draws_empty_part e")
    case True
    show ?thesis by (rule bspec [OF near]) (use q True 3(3) in \<open>simp only: if_True\<close>)
  next
    case False
    show ?thesis by (rule bspec [OF idle]) (use q False 3(3) in \<open>simp only: if_False\<close>)
  qed
qed simp

lemma Gather_few: "length (Gather places b ms e) \<le> (if draws_many_parts e then kMostParts else 1)"
  by (cases rule: Gather_cases [of b places ms e]) (simp_all add: length_join_least)

lemma Gather_draws:
  "draws_many_parts e \<Longrightarrow> \<not> draws_empty_part e \<Longrightarrow> all_draw ms (Gather places b ms e)"
proof (cases rule: Gather_cases [of b places ms e])
  case 3
  moreover assume "\<not> draws_empty_part e"
  ultimately show ?thesis by (simp add: drawing.least join_idle_draws)
qed (simp_all add: all_draw_def)

subsection \<open>Properties\<close>

text \<open>C35: the parts gathered cover every pixel of the buffer that is in a place to draw, and
  each of them is a non-empty rectangle inside the buffer.\<close>

theorem Gather_covers:
  "region places \<inter> pts (buffer_bounds w h) \<subseteq> region (Gather places (buffer_bounds w h) ms e) \<and>
   list_all (\<lambda>q. inside q (buffer_bounds w h) \<and> \<not> rEmpty q) (Gather places (buffer_bounds w h) ms e)"
  using Gather_region [of "buffer_bounds w h"] Gather_within
  by (simp add: buffer_bounds_def list_all_iff)

text \<open>an engine gets no more parts than it can take -- one, or at most \<open>kMostParts\<close> -- and
  an engine that needs a member to draw a part gets none that only clears unless that is the
  only part.\<close>

theorem Gather_suits_engine:
  "length (Gather places b ms e) \<le> (if draws_many_parts e then kMostParts else 1) \<and>
   (draws_empty_part e \<or> length (Gather places b ms e) \<le> 1 \<or>
    list_all (draws_something ms) (Gather places b ms e))"
proof -
  have "draws_empty_part e \<or> all_draw ms (Gather places b ms e)"
    using Gather_draws [of e ms places b] Gather_few [of places b ms e]
    by (cases "draws_many_parts e") (auto simp: all_draw_def)
  then show ?thesis using Gather_few [of places b ms e] by (auto simp: all_draw_def list_all_iff)
qed

definition scattered_places :: "irect list" where
  "scattered_places = [mk_rect 0 0 16 100, mk_rect 2000 0 2016 100, mk_rect 1008 0 1024 1000,
     mk_rect 304 3000 320 3100, mk_rect 3504 2000 3520 2100]"

definition capable :: engine where
  "capable = \<lparr>draws_scaled_in_part = True, draws_many_parts = True, draws_empty_part = True\<rparr>"

text \<open>the joins that bring the parts down to \<open>kMostParts\<close> can leave two of them over the
  same pixels: overlapping parts are not always one, and \<open>Area\<close> counts such pixels twice.\<close>

theorem Gather_may_overlap:
  "rMeet (Gather scattered_places (buffer_bounds 4096 4096) [] capable ! 0)
     (Gather scattered_places (buffer_bounds 4096 4096) [] capable ! 1)"
  by code_simp

end
