(* ===== verification/OrderedMap.thy ===== *)
theory OrderedMap
  imports Prelude
begin

text \<open>
  The code's \<open>std::map\<close> is iterated in the order of its keys, and some choices (which entry is
  found first, which of two equals is taken) depend on that order. It is a list of pairs with
  strictly increasing keys. The laws its users rely on are those of the locale \<open>key_map\<close>.
\<close>

type_synonym ('k, 'v) omap = "('k \<times> 'v) list"

fun om_put :: "'k::linorder \<Rightarrow> 'v \<Rightarrow> ('k, 'v) omap \<Rightarrow> ('k, 'v) omap" where
  "om_put k v [] = [(k, v)]"
| "om_put k v ((a, b) # xs) =
     (if k < a then (k, v) # (a, b) # xs
      else if k = a then (k, v) # xs
      else (a, b) # om_put k v xs)"

definition om_get :: "('k, 'v) omap \<Rightarrow> 'k \<Rightarrow> 'v option" where
  "om_get m k = map_of m k"

definition om_del :: "'k \<Rightarrow> ('k, 'v) omap \<Rightarrow> ('k, 'v) omap" where
  "om_del k m = filter (\<lambda>e. fst e \<noteq> k) m"

definition om_ok :: "('k::linorder, 'v) omap \<Rightarrow> bool" where
  "om_ok m \<longleftrightarrow> sorted_wrt (<) (map fst m)"

definition om_keys :: "('k, 'v) omap \<Rightarrow> 'k set" where
  "om_keys m = fst ` set m"

locale key_map =
  fixes empty :: "'m" and get :: "'m \<Rightarrow> 'k \<Rightarrow> 'v option" and put :: "'k \<Rightarrow> 'v \<Rightarrow> 'm \<Rightarrow> 'm"
    and del :: "'k \<Rightarrow> 'm \<Rightarrow> 'm" and ok :: "'m \<Rightarrow> bool"
  assumes ok_empty: "ok empty"
    and get_empty: "get empty k = None"
    and ok_put: "ok m \<Longrightarrow> ok (put k v m)"
    and get_put: "ok m \<Longrightarrow> get (put k v m) = (get m)(k \<mapsto> v)"
    and ok_del: "ok m \<Longrightarrow> ok (del k m)"
    and get_del: "ok m \<Longrightarrow> get (del k m) = (get m)(k := None)"
begin

lemma put_same: "ok m \<Longrightarrow> get (put k v m) k = Some v"
  by (simp add: get_put)

lemma put_other: "ok m \<Longrightarrow> j \<noteq> k \<Longrightarrow> get (put k v m) j = get m j"
  by (simp add: get_put)

lemma dom_put: "ok m \<Longrightarrow> dom (get (put k v m)) = insert k (dom (get m))"
  by (simp add: get_put)

lemma dom_del: "ok m \<Longrightarrow> dom (get (del k m)) = dom (get m) - {k}"
  by (simp add: get_del)

text \<open>A predicate of every value is kept by storing a value that has it, and by removing.\<close>

definition all_values :: "('k \<Rightarrow> 'v \<Rightarrow> bool) \<Rightarrow> 'm \<Rightarrow> bool" where
  "all_values P m \<longleftrightarrow> (\<forall>k v. get m k = Some v \<longrightarrow> P k v)"

lemma all_values_empty: "all_values P empty"
  by (simp add: all_values_def get_empty)

lemma all_values_put: "ok m \<Longrightarrow> all_values P m \<Longrightarrow> P k v \<Longrightarrow> all_values P (put k v m)"
  by (simp add: all_values_def get_put)

lemma all_values_del: "ok m \<Longrightarrow> all_values P m \<Longrightarrow> all_values P (del k m)"
  by (simp add: all_values_def get_del)

end

lemma om_put_keys: "fst ` set (om_put k v m) = insert k (fst ` set m)"
  by (induction m rule: om_put.induct [where ?a0.0 = k and ?a1.0 = v]) auto

lemma om_ok_put: "om_ok m \<Longrightarrow> om_ok (om_put k v m)"
proof (induction m)
  case (Cons e m)
  obtain a b where e: "e = (a, b)" by fastforce
  have "set (map fst (om_put k v m)) = insert k (set (map fst m))" using om_put_keys by force
  then show ?case using Cons e by (auto simp: om_ok_def)
qed (simp add: om_ok_def)

lemma om_get_put: "om_ok m \<Longrightarrow> om_get (om_put k v m) = (om_get m)(k \<mapsto> v)"
proof (induction m)
  case (Cons e m)
  obtain a b where e: "e = (a, b)" by fastforce
  then show ?case using Cons by (auto simp: om_ok_def om_get_def fun_eq_iff)
qed (simp add: om_get_def fun_eq_iff)

lemma om_get_del: "om_get (om_del k m) = (om_get m)(k := None)"
  by (induction m) (auto simp: om_get_def om_del_def fun_eq_iff)

lemma om_ok_filter: "om_ok m \<Longrightarrow> om_ok (filter P m)"
  by (simp add: om_ok_def sorted_wrt_filter sorted_wrt_map)

lemma om_ok_del: "om_ok m \<Longrightarrow> om_ok (om_del k m)"
  by (simp add: om_del_def om_ok_filter)

interpretation om: key_map "[]" om_get om_put om_del om_ok
  by unfold_locales
    (simp_all add: om_ok_put om_get_put om_get_del om_ok_del, simp_all add: om_ok_def om_get_def)

lemma om_get_in: "om_get m k = Some v \<Longrightarrow> (k, v) \<in> set m"
  by (simp add: om_get_def map_of_SomeD)

lemma om_in_get: "om_ok m \<Longrightarrow> (k, v) \<in> set m \<Longrightarrow> om_get m k = Some v"
  by (simp add: om_get_def om_ok_def strict_sorted_iff)

lemma om_get_None: "om_get m k = None \<longleftrightarrow> k \<notin> om_keys m"
  by (simp add: om_get_def om_keys_def map_of_eq_None_iff)

lemma length_om_put:
  "om_ok m \<Longrightarrow> length (om_put k v m) = (if k \<in> om_keys m then length m else Suc (length m))"
proof (induction m)
  case (Cons e m)
  obtain a b where e: "e = (a, b)" by fastforce
  then show ?case using Cons by (auto simp: om_ok_def om_keys_def)
qed (simp add: om_keys_def)

lemma length_om_del:
  assumes "om_ok m" "k \<in> om_keys m"
  shows "length (om_del k m) < length m"
proof -
  obtain e where "e \<in> set m" "fst e = k" using assms(2) by (auto simp: om_keys_def)
  then show ?thesis unfolding om_del_def by (intro length_filter_less [of e]) simp_all
qed

text \<open>The values as a multiset.\<close>

definition om_values :: "('k, 'v) omap \<Rightarrow> 'v multiset" where
  "om_values m = mset (map snd m)"

lemma om_del_absent: "k \<notin> om_keys m \<Longrightarrow> om_del k m = m"
  by (auto simp: om_del_def om_keys_def filter_id_conv)

lemma om_values_put:
  "om_ok m \<Longrightarrow> om_values (om_put k v m) = add_mset v (om_values (om_del k m))"
proof (induction m)
  case (Cons e m)
  obtain a b where e: "e = (a, b)" by fastforce
  have m: "om_ok m" "a \<notin> om_keys m" "\<forall>x\<in>om_keys m. a < x"
    using Cons.prems e by (auto simp: om_ok_def om_keys_def)
  show ?case
  proof (cases "k \<le> a")
    case True
    then have "k \<notin> om_keys m" using m(3) by auto
    then have "om_del k m = m" by (rule om_del_absent)
    then have "om_del k (e # m) = (if k = a then m else e # m)" using e by (cases "k = a") (simp_all add: om_del_def)
    then show ?thesis using True e by (auto simp: om_values_def)
  next
    case False
    then show ?thesis using Cons.IH [OF m(1)] e by (auto simp: om_values_def om_del_def)
  qed
qed (simp add: om_values_def om_del_def)

lemma om_values_del:
  "om_ok m \<Longrightarrow> om_get m k = Some v \<Longrightarrow> om_values m = add_mset v (om_values (om_del k m))"
proof (induction m)
  case (Cons e m)
  obtain a b where e: "e = (a, b)" by fastforce
  have m: "om_ok m" "a \<notin> om_keys m"
    using Cons.prems(1) e by (auto simp: om_ok_def om_keys_def)
  show ?case
  proof (cases "k = a")
    case True
    then have "om_del k (e # m) = m" using e om_del_absent [OF m(2)] by (simp add: om_del_def)
    then show ?thesis using Cons.prems(2) e True by (simp add: om_values_def om_get_def)
  next
    case False
    then show ?thesis using Cons.IH [OF m(1)] Cons.prems(2) e by (auto simp: om_values_def om_del_def om_get_def)
  qed
qed (simp add: om_get_def)

end
