(* ===== verification/DamageHistory.thy ===== *)
theory DamageHistory
  imports OrderedMap PictureMemory
begin

text \<open>
  The class \<open>DamageHistory\<close> of compositor/PartialRedraw.h: what each layer's clients said
  changed, frame by frame of its buffers. The map from layer serials is ordered by serial,
  as \<open>std::map\<close> is, which decides which of the entries is found oldest first.
\<close>

record dh_frame =
  df_generation :: nat
  df_damage :: "irect list"

record dh_layer =
  dl_frames :: "dh_frame list"
  dl_recorded_at :: nat

record damage_history =
  dh_layers :: "(nat, dh_layer) omap"
  dh_clock :: nat

definition kFrames :: nat where "kFrames = 8"
definition kLayers :: nat where "kLayers = 64"

definition dh_init :: damage_history where
  "dh_init = \<lparr>dh_layers = [], dh_clock = 0\<rparr>"

definition new_layer :: dh_layer where
  "new_layer = \<lparr>dl_frames = [], dl_recorded_at = 0\<rparr>"

text \<open>The first entry heard from longest ago; the loop replaces its candidate only by an entry
  strictly older.\<close>

fun oldest_entry :: "nat \<times> dh_layer \<Rightarrow> (nat, dh_layer) omap \<Rightarrow> nat" where
  "oldest_entry (k, l) [] = k"
| "oldest_entry (k, l) ((k', l') # es) =
     (if dl_recorded_at l' < dl_recorded_at l then oldest_entry (k', l') es
      else oldest_entry (k, l) es)"

definition keep_last :: "nat \<Rightarrow> 'a list \<Rightarrow> 'a list" where
  "keep_last n xs = drop (length xs - n) xs"

definition evict_oldest :: "(nat, dh_layer) omap \<Rightarrow> (nat, dh_layer) omap" where
  "evict_oldest m = (if length m > kLayers
     then (case m of [] \<Rightarrow> m | e # es \<Rightarrow> om_del (oldest_entry e es) m) else m)"

definition dh_Record :: "damage_history \<Rightarrow> nat \<Rightarrow> nat \<Rightarrow> irect list \<Rightarrow> damage_history" where
  "dh_Record h serial generation damage =
     (let clock = dh_clock h + 1;
          l = (opt_ord (om_get (dh_layers h) serial) new_layer)\<lparr>dl_recorded_at := clock\<rparr>
      in if dl_frames l \<noteq> [] \<and> df_generation (last (dl_frames l)) \<ge> generation
         then \<lparr>dh_layers = om_put serial l (dh_layers h), dh_clock = clock\<rparr>
         else let frames = keep_last kFrames
                    (dl_frames l @ [\<lparr>df_generation = generation, df_damage = damage\<rparr>])
              in \<lparr>dh_layers = evict_oldest (om_put serial (l\<lparr>dl_frames := frames\<rparr>) (dh_layers h)),
                  dh_clock = clock\<rparr>)"

text \<open>The answer of \<open>Between\<close>: the value it returns, the rectangles it appended and the flag.\<close>

type_synonym between = "bool \<times> irect list \<times> bool"

fun between_loop :: "dh_frame list \<Rightarrow> nat list \<Rightarrow> irect list \<Rightarrow> between" where
  "between_loop frames [] rects = (True, rects, False)"
| "between_loop frames (g # gs) rects =
     (case find (\<lambda>f. df_generation f = g) frames of
        None \<Rightarrow> (False, rects, False)
      | Some f \<Rightarrow> if df_damage f = [] then (True, rects, True)
                  else between_loop frames gs (rects @ filter (\<lambda>r. \<not> rEmpty r) (df_damage f)))"

definition Between :: "damage_history \<Rightarrow> nat \<Rightarrow> nat \<Rightarrow> nat \<Rightarrow> between" where
  "Between h serial from to =
     (case om_get (dh_layers h) serial of
        None \<Rightarrow> (False, [], False)
      | Some l \<Rightarrow> between_loop (dl_frames l) [from + 1..<to + 1] [])"

subsection \<open>What the history keeps\<close>

text \<open>Each layer's frames are in the order of their generations and at most \<open>kFrames\<close>; no
  layer was heard from after the clock; at most \<open>kLayers\<close> layers are kept.\<close>

definition layer_ok :: "nat \<Rightarrow> dh_layer \<Rightarrow> bool" where
  "layer_ok clock l \<longleftrightarrow> sorted_wrt (<) (map df_generation (dl_frames l)) \<and>
     length (dl_frames l) \<le> kFrames \<and> dl_frames l \<noteq> [] \<and> dl_recorded_at l \<le> clock"

definition history_ok :: "damage_history \<Rightarrow> bool" where
  "history_ok h \<longleftrightarrow> om_ok (dh_layers h) \<and> om.all_values (\<lambda>_. layer_ok (dh_clock h)) (dh_layers h) \<and>
     length (dh_layers h) \<le> kLayers"

lemma sorted_keep_last: "sorted_wrt R (map f xs) \<Longrightarrow> sorted_wrt R (map f (keep_last n xs))"
  by (simp add: keep_last_def sorted_wrt_drop drop_map [symmetric])

lemma length_keep_last: "length (keep_last n xs) = min n (length xs)"
  by (simp add: keep_last_def)

lemma set_keep_last: "set (keep_last n xs) \<subseteq> set xs"
  by (simp add: keep_last_def set_drop_subset)

lemma oldest_in: "oldest_entry e es \<in> fst ` set (e # es)"
  by (induction e es rule: oldest_entry.induct) auto

lemma om_ok_evict: "om_ok m \<Longrightarrow> om_ok (evict_oldest m)"
  by (auto simp: evict_oldest_def om.ok_del split: list.splits)

lemma get_evict: "om_ok m \<Longrightarrow> om_get (evict_oldest m) k = Some v \<Longrightarrow> om_get m k = Some v"
  by (auto simp: evict_oldest_def om.get_del split: list.splits if_splits)

lemma length_evict:
  assumes "om_ok m" "length m \<le> Suc kLayers"
  shows "length (evict_oldest m) \<le> kLayers"
proof (cases "length m > kLayers")
  case True
  then obtain e es where m: "m = e # es" by (cases m) auto
  have "length (om_del (oldest_entry e es) m) < length m"
    using assms(1) oldest_in [of e es] by (intro length_om_del) (auto simp: om_keys_def m)
  then show ?thesis using assms(2) by (simp add: evict_oldest_def m)
qed (simp add: evict_oldest_def)

lemma layer_ok_mono: "layer_ok c l \<Longrightarrow> c \<le> d \<Longrightarrow> layer_ok d l"
  by (simp add: layer_ok_def)

lemma history_ok_init: "history_ok dh_init"
  by (simp add: history_ok_def dh_init_def om.ok_empty om.all_values_empty)

lemma history_ok_layer:
  "history_ok h \<Longrightarrow> om_get (dh_layers h) s = Some l \<Longrightarrow> layer_ok (dh_clock h) l"
  by (auto simp: history_ok_def om.all_values_def)

text \<open>The entry stored for a layer: an old frame changes nothing but the time.\<close>

definition recorded :: "damage_history \<Rightarrow> nat \<Rightarrow> nat \<Rightarrow> irect list \<Rightarrow> dh_layer" where
  "recorded h serial generation damage =
     (let l = (opt_ord (om_get (dh_layers h) serial) new_layer)\<lparr>dl_recorded_at := dh_clock h + 1\<rparr>
      in if dl_frames l \<noteq> [] \<and> df_generation (last (dl_frames l)) \<ge> generation then l
         else l\<lparr>dl_frames := keep_last kFrames
                (dl_frames l @ [\<lparr>df_generation = generation, df_damage = damage\<rparr>])\<rparr>)"

lemma dh_Record_layers:
  "dh_clock (dh_Record h s g d) = dh_clock h + 1 \<and>
   (dh_layers (dh_Record h s g d) = om_put s (recorded h s g d) (dh_layers h) \<and>
      om_get (dh_layers h) s \<noteq> None \<or>
    dh_layers (dh_Record h s g d) = evict_oldest (om_put s (recorded h s g d) (dh_layers h)))"
  by (auto simp: dh_Record_def recorded_def Let_def new_layer_def opt_ord_def split: option.splits)

lemma sorted_snoc_last:
  "sorted_wrt (<) xs \<Longrightarrow> (xs \<noteq> [] \<longrightarrow> last xs < y) \<Longrightarrow> sorted_wrt (<) (xs @ [y :: nat])"
  by (induction xs) (auto split: if_splits, metis last_in_set less_trans)

lemma recorded_ok:
  assumes "history_ok h"
  shows "layer_ok (dh_clock h + 1) (recorded h s g d)"
proof -
  define l where "l = opt_ord (om_get (dh_layers h) s) new_layer"
  have l: "sorted_wrt (<) (map df_generation (dl_frames l))" "length (dl_frames l) \<le> kFrames"
    using history_ok_layer [OF assms, of s]
    by (auto simp: l_def opt_ord_def layer_ok_def new_layer_def split: option.splits)
  define fs where "fs = dl_frames l @ [\<lparr>df_generation = g, df_damage = d\<rparr>]"
  have new: "layer_ok (dh_clock h + 1) (l\<lparr>dl_recorded_at := dh_clock h + 1, dl_frames := keep_last kFrames fs\<rparr>)"
    if "\<not> (dl_frames l \<noteq> [] \<and> df_generation (last (dl_frames l)) \<ge> g)"
  proof -
    have "sorted_wrt (<) (map df_generation fs)"
      using that l(1) sorted_snoc_last [of "map df_generation (dl_frames l)" g]
      by (cases "dl_frames l = []") (simp_all add: fs_def last_map not_le)
    then have "sorted_wrt (<) (map df_generation (keep_last kFrames fs))"
      by (rule sorted_keep_last)
    moreover have "keep_last kFrames fs \<noteq> []" "length (keep_last kFrames fs) \<le> kFrames"
      using length_keep_last [of kFrames fs]
      by (simp_all add: fs_def kFrames_def keep_last_def)
    ultimately show ?thesis by (simp add: layer_ok_def)
  qed
  show ?thesis
  proof (cases "dl_frames l \<noteq> [] \<and> df_generation (last (dl_frames l)) \<ge> g")
    case True
    then show ?thesis using l by (simp add: recorded_def l_def [symmetric] Let_def layer_ok_def)
  next
    case False
    have "recorded h s g d = l\<lparr>dl_recorded_at := dh_clock h + 1, dl_frames := keep_last kFrames fs\<rparr>"
      using False by (auto simp: recorded_def l_def [symmetric] fs_def Let_def)
    then show ?thesis using new [OF False] by simp
  qed
qed

lemma history_ok_Record:
  assumes "history_ok h"
  shows "history_ok (dh_Record h s g d)"
proof -
  let ?m = "om_put s (recorded h s g d) (dh_layers h)"
  have ok: "om_ok (dh_layers h)" and len: "length (dh_layers h) \<le> kLayers"
    using assms by (auto simp: history_ok_def)
  have m: "om_ok ?m" using ok by (rule om.ok_put)
  have vals: "om.all_values (\<lambda>_. layer_ok (dh_clock h + 1)) ?m"
  proof (rule om.all_values_put [OF ok])
    show "om.all_values (\<lambda>_. layer_ok (dh_clock h + 1)) (dh_layers h)"
      unfolding om.all_values_def
      by (intro allI impI layer_ok_mono [OF history_ok_layer [OF assms]]) simp_all
  qed (rule recorded_ok [OF assms])
  have lm: "length ?m \<le> Suc kLayers" "om_get (dh_layers h) s \<noteq> None \<Longrightarrow> length ?m \<le> kLayers"
    using len by (auto simp: length_om_put [OF ok] om_get_None)
  have "om.all_values (\<lambda>_. layer_ok (dh_clock h + 1)) (evict_oldest ?m)"
    using vals get_evict [OF m] by (auto simp: om.all_values_def)
  then show ?thesis
    using dh_Record_layers [of h s g d] m vals lm length_evict [OF m lm(1)] om_ok_evict [OF m]
    by (auto simp: history_ok_def)
qed

subsection \<open>What the history answers\<close>

lemma find_generation:
  "sorted_wrt (<) (map df_generation fs) \<Longrightarrow> f \<in> set fs \<Longrightarrow>
   find (\<lambda>f'. df_generation f' = df_generation f) fs = Some f"
proof (induction fs)
  case (Cons a fs)
  then show ?case by (cases "f = a") auto
qed simp

text \<open>All frames asked for are known, and none changed all of its buffer before the loop
  reached it: the answer is their damage, in order.\<close>

lemma between_loop_step:
  "between_loop frames (g # gs) acc = (True, rects, whole) \<Longrightarrow>
   \<exists>f\<in>set frames. df_generation f = g \<and>
     (df_damage f = [] \<and> rects = acc \<and> whole \<or>
      df_damage f \<noteq> [] \<and>
      between_loop frames gs (acc @ filter (\<lambda>r. \<not> rEmpty r) (df_damage f)) = (True, rects, whole))"
  by (simp only: between_loop.simps split: option.splits if_splits)
    (auto simp: find_Some_iff)

definition tells :: "dh_frame list \<Rightarrow> irect list \<Rightarrow> nat \<Rightarrow> bool" where
  "tells frames rects g \<longleftrightarrow> (\<exists>f\<in>set frames. df_generation f = g \<and> df_damage f \<noteq> [] \<and>
     (\<forall>r\<in>set (df_damage f). rEmpty r \<or> r \<in> set rects))"

lemma between_loop_True:
  "between_loop fs gs acc = (True, rects, whole) \<Longrightarrow>
   set acc \<subseteq> set rects \<and> (whole \<or> (\<forall>g\<in>set gs. tells fs rects g))"
proof (induction gs arbitrary: acc)
  case (Cons g gs)
  obtain f where f: "f \<in> set fs" "df_generation f = g"
    and d: "df_damage f = [] \<and> rects = acc \<and> whole \<or> df_damage f \<noteq> [] \<and>
      between_loop fs gs (acc @ filter (\<lambda>r. \<not> rEmpty r) (df_damage f)) = (True, rects, whole)"
    using between_loop_step [OF Cons.prems] by blast
  from d show ?case
  proof
    assume n: "df_damage f \<noteq> [] \<and>
      between_loop fs gs (acc @ filter (\<lambda>r. \<not> rEmpty r) (df_damage f)) = (True, rects, whole)"
    have ih: "set (acc @ filter (\<lambda>r. \<not> rEmpty r) (df_damage f)) \<subseteq> set rects"
      "whole \<or> (\<forall>g\<in>set gs. tells fs rects g)"
      using Cons.IH n by blast+
    have "tells fs rects g" unfolding tells_def using f n ih(1) by (intro bexI [of _ f]) auto
    then show ?case using ih by simp
  qed simp
qed simp

lemma between_loop_nonempty:
  "between_loop fs gs acc = (True, rects, whole) \<Longrightarrow> \<forall>r\<in>set acc. \<not> rEmpty r \<Longrightarrow>
   \<forall>r\<in>set rects. \<not> rEmpty r"
proof (induction gs arbitrary: acc)
  case (Cons g gs)
  obtain f :: dh_frame where "df_damage f = [] \<and> rects = acc \<and> whole \<or>
      between_loop fs gs (acc @ filter (\<lambda>r. \<not> rEmpty r) (df_damage f)) = (True, rects, whole)"
    using between_loop_step [OF Cons.prems(1)] by blast
  then show ?case
  proof
    assume n: "between_loop fs gs (acc @ filter (\<lambda>r. \<not> rEmpty r) (df_damage f)) = (True, rects, whole)"
    have "\<forall>r\<in>set (acc @ filter (\<lambda>r. \<not> rEmpty r) (df_damage f)). \<not> rEmpty r"
      using Cons.prems(2) by (simp add: ball_Un)
    then show ?case by (rule Cons.IH [OF n])
  qed (use Cons.prems(2) in simp)
qed simp

lemma Between_True:
  assumes "Between h serial from to = (True, rects, whole)"
  obtains l where "om_get (dh_layers h) serial = Some l"
    "whole \<or> (\<forall>g. from < g \<and> g \<le> to \<longrightarrow> tells (dl_frames l) rects g)"
proof -
  obtain l where l: "om_get (dh_layers h) serial = Some l"
    and b: "between_loop (dl_frames l) [from + 1..<to + 1] [] = (True, rects, whole)"
    using assms by (simp only: Between_def split: option.splits) auto
  have "g \<in> set [from + 1..<to + 1] \<longleftrightarrow> from < g \<and> g \<le> to" for g
    by (simp only: set_upt atLeastLessThan_iff) arith
  then show thesis using that [OF l] conjunct2 [OF between_loop_True [OF b]] by blast
qed

end
