(* ===== verification/PartialRedraw.thy ===== *)
theory PartialRedraw
  imports Gather DamageHistory
begin

text \<open>
  compositor/PartialRedraw.h and PartialRedraw.cpp: redrawing only what changed, in a buffer
  drawn before. \<open>Decide\<close> says what to draw into a buffer whose snapshot is known; the class
  \<open>SlotPictures\<close> is the record \<open>slot_pictures\<close> and keeps the snapshots of an engine's
  buffers. What the plans are for is stated against a picture: what each member shows at a
  pixel, put together by the engine.
\<close>

record snapshot =
  sn_valid :: bool
  sn_width :: nat
  sn_height :: nat
  sn_members :: "member list"
  sn_partial_run :: nat

datatype plan_kind = kFull | kPartial | kUnchanged

record plan =
  pl_kind :: plan_kind
  pl_why :: char
  pl_parts :: "irect list"

definition new_plan :: plan where
  "new_plan = \<lparr>pl_kind = kFull, pl_why = CHR ''n'', pl_parts = []\<rparr>"

definition kMostPartialInARow :: nat where "kMostPartialInARow = 30"

definition SameButFrame :: "member \<Rightarrow> member \<Rightarrow> bool" where
  "SameButFrame a b \<longleftrightarrow> mb_serial a = mb_serial b \<and> mb_solid a = mb_solid b \<and>
     f32s_eq (mb_color a) (mb_color b) \<and> frect_eq (mb_src a) (mb_src b) \<and> mb_dst a = mb_dst b \<and>
     f32_eq (mb_alpha a) (mb_alpha b) \<and> mb_premultiplied a = mb_premultiplied b \<and>
     mb_opaque a = mb_opaque b \<and> mb_transform a = mb_transform b \<and>
     f32s_eq (mb_corners a) (mb_corners b)"

text \<open>The literals \<open>0.01F\<close> and \<open>0.001F\<close> are the floats nearest to them.\<close>

definition Scaled :: "member \<Rightarrow> bool" where
  "Scaled m \<longleftrightarrow>
     f32_le (f32_of_rat (1/100)) (f32_abs (f32_sub (fwidth (mb_src m)) (f32_of_int (rwidth (mb_dst m))))) \<or>
     f32_le (f32_of_rat (1/100)) (f32_abs (f32_sub (fheight (mb_src m)) (f32_of_int (rheight (mb_dst m)))))"

text \<open>The lambdas \<open>x\<close> and \<open>y\<close> of \<open>Onto\<close>, for an axis of the member's place and of its source
  and the scale between them.\<close>

definition onto_axis :: "int \<Rightarrow> f32 \<Rightarrow> f32 \<Rightarrow> int \<Rightarrow> bool \<Rightarrow> int" where
  "onto_axis dst src scale v up =
     (let f = f32_add (f32_of_int dst) (f32_mul (f32_sub (f32_of_int v) src) scale)
      in f32_to_i32 (if up then f32_ceil (f32_sub f (f32_of_rat (1/1000)))
                     else f32_floor (f32_add f (f32_of_rat (1/1000)))))"

definition Onto :: "irect \<Rightarrow> member \<Rightarrow> bool \<Rightarrow> irect" where
  "Onto r m scaled =
     (let sx = f32_div (f32_of_int (rwidth (mb_dst m))) (fwidth (mb_src m));
          sy = f32_div (f32_of_int (rheight (mb_dst m))) (fheight (mb_src m));
          pad = (if scaled then 1 else 0);
          x = onto_axis (rleft (mb_dst m)) (rleft (mb_src m)) sx;
          y = onto_axis (rtop (mb_dst m)) (rtop (mb_src m)) sy
      in mk_rect
          (max (x (rleft r) False - pad) (rleft (mb_dst m)))
          (max (y (rtop r) False - pad) (rtop (mb_dst m)))
          (min (x (rright r) True + pad) (rright (mb_dst m)))
          (min (y (rbottom r) True + pad) (rbottom (mb_dst m))))"

text \<open>One member now and then: the reason to draw in full, or the places it changed.\<close>

definition member_damage :: "damage_history \<Rightarrow> member \<Rightarrow> member \<Rightarrow> char + irect list" where
  "member_damage h now held =
     (if mb_serial now = 0 \<or> \<not> SameButFrame now held then Inl CHR ''i''
      else if mb_generation now < mb_generation held then Inl CHR ''g''
      else if mb_generation now = mb_generation held then Inr []
      else if mb_transform now \<noteq> 0 \<or> f32_le (fwidth (mb_src now)) (Fin 0) \<or>
              f32_le (fheight (mb_src now)) (Fin 0) then Inl CHR ''t''
      else case Between h (mb_serial now) (mb_generation held) (mb_generation now) of
             (ok, rects, whole) \<Rightarrow>
               if \<not> ok then Inl CHR ''d''
               else Inr ((if whole then [mb_dst now] else []) @
                         map (\<lambda>r. Onto r now (Scaled now)) rects))"

fun members_damage :: "damage_history \<Rightarrow> member list \<Rightarrow> member list \<Rightarrow> irect list \<Rightarrow> char + irect list" where
  "members_damage h (now # ms) (held # hs) damage =
     (case member_damage h now held of
        Inl why \<Rightarrow> Inl why
      | Inr rs \<Rightarrow> members_damage h ms hs (damage @ rs))"
| "members_damage h _ _ damage = Inr damage"

definition Decide :: "snapshot \<Rightarrow> nat \<Rightarrow> nat \<Rightarrow> member list \<Rightarrow> damage_history \<Rightarrow> engine \<Rightarrow> plan" where
  "Decide held width height members history e =
     (if \<not> sn_valid held \<or> sn_width held \<noteq> width \<or> sn_height held \<noteq> height
      then \<lparr>pl_kind = kFull, pl_why = CHR ''h'', pl_parts = []\<rparr>
      else let bounds = buffer_bounds width height in
      if \<not> draws_scaled_in_part e \<and> list_ex Scaled members
      then \<lparr>pl_kind = kFull, pl_why = CHR ''s'', pl_parts = []\<rparr>
      else let held_places = map mb_dst (sn_members held) @ map mb_dst members;
               full = Gather held_places bounds members e;
               full_for = (\<lambda>why. \<lparr>pl_kind = kFull, pl_why = why, pl_parts = full\<rparr>) in
      if length (sn_members held) \<noteq> length members then full_for CHR ''c''
      else if sn_partial_run held \<ge> kMostPartialInARow then full_for CHR ''r''
      else case members_damage history members (sn_members held) [] of
        Inl why \<Rightarrow> full_for why
      | Inr damage \<Rightarrow>
          let parts = Gather damage bounds members e in
          if parts = [] then \<lparr>pl_kind = kUnchanged, pl_why = CHR ''n'', pl_parts = []\<rparr>
          else if Area parts \<ge> Area full then full_for CHR ''a''
          else \<lparr>pl_kind = kPartial, pl_why = CHR ''n'', pl_parts = parts\<rparr>)"

definition ClipTo :: "irect \<Rightarrow> frect \<Rightarrow> irect \<Rightarrow> (frect \<times> irect) option" where
  "ClipTo bound src dst =
     (let inn = Intersect dst bound in
      if rEmpty inn then None
      else let sx = f32_div (fwidth src) (f32_of_int (rwidth dst));
               sy = f32_div (fheight src) (f32_of_int (rheight dst)) in
        Some (mk_rect
          (f32_add (rleft src) (f32_mul (f32_of_int (rleft inn - rleft dst)) sx))
          (f32_add (rtop src) (f32_mul (f32_of_int (rtop inn - rtop dst)) sy))
          (f32_sub (rright src) (f32_mul (f32_of_int (rright dst - rright inn)) sx))
          (f32_sub (rbottom src) (f32_mul (f32_of_int (rbottom dst - rbottom inn)) sy)), inn))"

subsection \<open>The buffers of an engine\<close>

text \<open>A buffer is named by a pointer, a fence by its descriptor.\<close>

record held =
  hd_snapshot :: snapshot
  hd_fence :: "nat option"

record slot_pictures =
  sp_engine :: engine
  sp_slots :: "nat \<Rightarrow> held option"
  sp_history :: damage_history

definition sp_init :: "engine \<Rightarrow> slot_pictures" where
  "sp_init e = \<lparr>sp_engine = e, sp_slots = Map.empty, sp_history = dh_init\<rparr>"

definition new_held :: held where
  "new_held = \<lparr>hd_snapshot = \<lparr>sn_valid = False, sn_width = 0, sn_height = 0, sn_members = [],
     sn_partial_run = 0\<rparr>, hd_fence = None\<rparr>"

definition sp_Record :: "slot_pictures \<Rightarrow> member \<Rightarrow> irect list \<Rightarrow> slot_pictures" where
  "sp_Record s m damage =
     s\<lparr>sp_history := dh_Record (sp_history s) (mb_serial m) (mb_generation m) damage\<rparr>"

definition sp_Decide :: "slot_pictures \<Rightarrow> nat \<Rightarrow> nat \<Rightarrow> nat \<Rightarrow> member list \<Rightarrow> plan" where
  "sp_Decide s slot width height members =
     (case sp_slots s slot of
        None \<Rightarrow> new_plan
      | Some h \<Rightarrow>
          let plan = Decide (hd_snapshot h) width height members (sp_history s) (sp_engine s) in
          if pl_kind plan = kUnchanged \<and> hd_fence h = None then plan\<lparr>pl_kind := kFull\<rparr> else plan)"

definition sp_Drawn :: "slot_pictures \<Rightarrow> nat \<Rightarrow> nat \<Rightarrow> nat \<Rightarrow> member list \<Rightarrow> plan \<Rightarrow> nat option \<Rightarrow> slot_pictures" where
  "sp_Drawn s slot width height members plan fence =
     (let h = opt_ord (sp_slots s slot) new_held;
          run = sn_partial_run (hd_snapshot h);
          snapshot = \<lparr>sn_valid = True, sn_width = width, sn_height = height, sn_members = members,
            sn_partial_run = (case pl_kind plan of kPartial \<Rightarrow> wrap_size (int run + 1)
              | kUnchanged \<Rightarrow> run | kFull \<Rightarrow> 0)\<rparr>
      in s\<lparr>sp_slots := (sp_slots s)(slot \<mapsto> \<lparr>hd_snapshot = snapshot, hd_fence = fence\<rparr>)\<rparr>)"

definition sp_Lost :: "slot_pictures \<Rightarrow> nat \<Rightarrow> slot_pictures" where
  "sp_Lost s slot = (case sp_slots s slot of
     None \<Rightarrow> s
   | Some h \<Rightarrow> s\<lparr>sp_slots := (sp_slots s)(slot \<mapsto>
       h\<lparr>hd_snapshot := (hd_snapshot h)\<lparr>sn_valid := False\<rparr>\<rparr>)\<rparr>)"

definition sp_Fence :: "slot_pictures \<Rightarrow> nat \<Rightarrow> nat option" where
  "sp_Fence s slot = (case sp_slots s slot of None \<Rightarrow> None | Some h \<Rightarrow> hd_fence h)"

subsection \<open>What a drawing leaves in a buffer\<close>

text \<open>
  The engine and the clients are not under src/: what a member shows at a pixel (\<open>look\<close>) and
  how the members that reach a pixel are put together (\<open>blend\<close>, of none what a cleared pixel
  holds) are parameters. The engine draws the parts of a plan, all of the buffer when it has
  none, and nothing for a picture unchanged.
\<close>

type_synonym 'c look = "member \<Rightarrow> int \<times> int \<Rightarrow> 'c"

definition picture :: "('c list \<Rightarrow> 'c) \<Rightarrow> 'c look \<Rightarrow> member list \<Rightarrow> int \<times> int \<Rightarrow> 'c" where
  "picture blend look ms p = blend (map (\<lambda>m. look m p) (filter (\<lambda>m. p \<in> pts (mb_dst m)) ms))"

definition drawn :: "plan \<Rightarrow> (int \<times> int \<Rightarrow> 'c) \<Rightarrow> (int \<times> int \<Rightarrow> 'c) \<Rightarrow> int \<times> int \<Rightarrow> 'c" where
  "drawn plan content pic p =
     (if pl_kind plan = kUnchanged then content p
      else if pl_parts plan = [] \<or> p \<in> region (pl_parts plan) then pic p else content p)"

text \<open>What the clients promise: a member's pixels depend on its layer, its place and its frame;
  where they differ between two frames, one of the frames after the first changed them, as its
  damage says -- all of the buffer, or a rectangle that lands there.\<close>

definition honest :: "(nat \<Rightarrow> nat \<Rightarrow> irect list) \<Rightarrow> 'c look \<Rightarrow> bool" where
  "honest dmg look \<longleftrightarrow> (\<forall>m r p. mb_serial m \<noteq> 0 \<longrightarrow> SameButFrame m r \<longrightarrow>
     mb_generation r \<le> mb_generation m \<longrightarrow> p \<in> pts (mb_dst m) \<longrightarrow> look m p \<noteq> look r p \<longrightarrow>
     (\<exists>g. mb_generation r < g \<and> g \<le> mb_generation m \<and>
       (dmg (mb_serial m) g = [] \<or>
        (\<exists>q\<in>set (dmg (mb_serial m) g). \<not> rEmpty q \<and> p \<in> pts (Onto q m (Scaled m))))))"

definition history_true :: "(nat \<Rightarrow> nat \<Rightarrow> irect list) \<Rightarrow> damage_history \<Rightarrow> bool" where
  "history_true dmg h \<longleftrightarrow> (\<forall>s l f. om_get (dh_layers h) s = Some l \<longrightarrow> f \<in> set (dl_frames l) \<longrightarrow>
     df_damage f = dmg s (df_generation f))"

lemma history_true_init: "history_true dmg dh_init"
  by (simp add: history_true_def dh_init_def om.get_empty)

lemma recorded_frames:
  "f \<in> set (dl_frames (recorded h s g d)) \<Longrightarrow>
   (\<exists>l. om_get (dh_layers h) s = Some l \<and> f \<in> set (dl_frames l)) \<or>
   df_generation f = g \<and> df_damage f = d"
proof -
  assume f: "f \<in> set (dl_frames (recorded h s g d))"
  define fs where "fs = dl_frames (opt_ord (om_get (dh_layers h) s) new_layer)"
  have "set (dl_frames (recorded h s g d)) \<subseteq>
      set (fs @ [\<lparr>df_generation = g, df_damage = d\<rparr>])"
    using set_keep_last [of kFrames "fs @ [\<lparr>df_generation = g, df_damage = d\<rparr>]"]
    by (auto simp: recorded_def Let_def fs_def)
  then have "f \<in> set fs \<or> f = \<lparr>df_generation = g, df_damage = d\<rparr>" using f by auto
  then show ?thesis
    by (cases "om_get (dh_layers h) s") (auto simp: fs_def new_layer_def)
qed

lemma history_true_Record:
  assumes "history_ok h" "history_true dmg h"
  shows "history_true dmg (dh_Record h s g (dmg s g))"
  unfolding history_true_def
proof (intro allI impI)
  fix k l f
  assume l: "om_get (dh_layers (dh_Record h s g (dmg s g))) k = Some l" and f: "f \<in> set (dl_frames l)"
  have ok: "om_ok (dh_layers h)" using assms(1) by (simp add: history_ok_def)
  let ?m = "om_put s (recorded h s g (dmg s g)) (dh_layers h)"
  have "om_get ?m k = Some l"
    using dh_Record_layers [of h s g "dmg s g"] l get_evict [OF om.ok_put [OF ok]] by auto
  then have "k = s \<and> l = recorded h s g (dmg s g) \<or> om_get (dh_layers h) k = Some l"
    by (auto simp: om.get_put [OF ok] split: if_splits)
  then show "df_damage f = dmg k (df_generation f)"
    using recorded_frames [of f h s g "dmg s g"] f assms(2) unfolding history_true_def by blast
qed

subsection \<open>What \<open>Decide\<close> leaves out did not change\<close>

lemma SameButFrame_dst: "SameButFrame a b \<Longrightarrow> mb_dst b = mb_dst a"
  by (simp add: SameButFrame_def)

lemma member_damage_sound:
  assumes "honest dmg look" "history_true dmg h" "member_damage h now old = Inr rs"
    "p \<in> pts (mb_dst now)" "p \<notin> region rs"
  shows "mb_dst old = mb_dst now \<and> look now p = look old p"
proof -
  have same: "mb_serial now \<noteq> 0" "SameButFrame now old" "mb_generation old \<le> mb_generation now"
    using assms(3) by (auto simp: member_damage_def split: if_splits)
  moreover have "look now p = look old p"
  proof (rule ccontr)
    assume "look now p \<noteq> look old p"
    then obtain g where g: "mb_generation old < g" "g \<le> mb_generation now"
      and d: "dmg (mb_serial now) g = [] \<or>
        (\<exists>q\<in>set (dmg (mb_serial now) g). \<not> rEmpty q \<and> p \<in> pts (Onto q now (Scaled now)))"
      using assms(1,4) same unfolding honest_def by blast
    obtain rects whole where b: "Between h (mb_serial now) (mb_generation old) (mb_generation now)
        = (True, rects, whole)"
      and rs: "rs = (if whole then [mb_dst now] else []) @ map (\<lambda>r. Onto r now (Scaled now)) rects"
      using assms(3) g by (auto simp: member_damage_def split: if_splits prod.splits)
    have "\<not> whole" using assms(4,5) rs by auto
    then obtain l where l: "om_get (dh_layers h) (mb_serial now) = Some l" "tells (dl_frames l) rects g"
      using Between_True [OF b] g by metis
    then obtain f where f: "f \<in> set (dl_frames l)" "df_generation f = g" "df_damage f \<noteq> []"
      "\<forall>r\<in>set (df_damage f). rEmpty r \<or> r \<in> set rects"
      unfolding tells_def by blast
    have "df_damage f = dmg (mb_serial now) g"
      using assms(2) l(1) f(1,2) unfolding history_true_def by blast
    then obtain q where "q \<in> set rects" "p \<in> pts (Onto q now (Scaled now))" using d f(3,4) by auto
    then show False using assms(5) by (auto simp: rs in_region)
  qed
  ultimately show ?thesis using SameButFrame_dst by simp
qed

lemma members_damage_grows:
  "members_damage h ms hs acc = Inr damage \<Longrightarrow> set acc \<subseteq> set damage"
  by (induction h ms hs acc rule: members_damage.induct) (auto split: sum.splits)

lemma members_damage_sound:
  assumes "honest dmg look"
  shows "members_damage h ms hs acc = Inr damage \<Longrightarrow> history_true dmg h \<Longrightarrow> length ms = length hs \<Longrightarrow> p \<notin> region damage \<Longrightarrow>
    map (\<lambda>m. look m p) (filter (\<lambda>m. p \<in> pts (mb_dst m)) ms) =
    map (\<lambda>m. look m p) (filter (\<lambda>m. p \<in> pts (mb_dst m)) hs)"
proof (induction h ms hs acc rule: members_damage.induct)
  case (1 h now ms old hs acc)
  obtain rs where rs: "member_damage h now old = Inr rs"
    and n: "members_damage h ms hs (acc @ rs) = Inr damage"
    using "1.prems"(1) by (auto split: sum.splits)
  have "region rs \<subseteq> region damage" using members_damage_grows [OF n] by (intro region_mono) auto
  then have "p \<in> pts (mb_dst now) \<Longrightarrow> mb_dst old = mb_dst now \<and> look now p = look old p"
    using "1.prems"(4) by (intro member_damage_sound [OF assms "1.prems"(2) rs]) auto
  moreover have "mb_dst old = mb_dst now"
    using rs by (auto simp: member_damage_def SameButFrame_dst split: if_splits)
  ultimately show ?case using "1.IH" [OF rs n] "1.prems"(2-4) by simp
qed auto

lemma places_picture:
  assumes "p \<notin> region (map mb_dst ms)"
  shows "picture blend look ms p = blend []"
proof -
  have "filter (\<lambda>m. p \<in> pts (mb_dst m)) ms = []"
    using assms by (auto simp: in_region filter_empty_conv)
  then show ?thesis by (simp add: picture_def)
qed

text \<open>A full drawing in parts: every member where it is, and every place one stood.\<close>

lemma full_parts_draw:
  assumes "\<forall>p\<in>pts (buffer_bounds w h). content p = picture blend look held p"
    "p \<in> pts (buffer_bounds w h)" "pl_kind plan = kFull"
    "pl_parts plan = Gather (map mb_dst held @ map mb_dst ms) (buffer_bounds w h) ms e"
  shows "drawn plan content (picture blend look ms) p = picture blend look ms p"
proof (cases "p \<in> region (map mb_dst held @ map mb_dst ms)")
  case True
  then have "p \<in> region (pl_parts plan)"
    using Gather_region [of "buffer_bounds w h" "map mb_dst held @ map mb_dst ms" ms e] assms(2,4)
    by (auto simp: buffer_bounds_def)
  then show ?thesis by (simp add: drawn_def assms(3))
next
  case False
  then have "picture blend look held p = picture blend look ms p"
    by (simp add: places_picture)
  then show ?thesis using assms(1,2) by (simp add: drawn_def)
qed

lemma damage_draw:
  assumes "honest dmg look" "history_true dmg hist"
    "members_damage hist ms held [] = Inr damage" "length held = length ms"
    "\<forall>p\<in>pts (buffer_bounds w h). content p = picture blend look held p"
    "p \<in> pts (buffer_bounds w h)" "p \<notin> region (Gather damage (buffer_bounds w h) ms e)"
  shows "content p = picture blend look ms p"
proof -
  have "p \<notin> region damage"
    using Gather_region [of "buffer_bounds w h" damage ms e] assms(6,7)
    by (auto simp: buffer_bounds_def)
  then show ?thesis
    using members_damage_sound [OF assms(1,3,2)] assms(4-6) by (simp add: picture_def)
qed

lemma Decide_draws:
  assumes "honest dmg look" "history_true dmg hist"
    "sn_valid held \<Longrightarrow> \<forall>p\<in>pts (buffer_bounds (sn_width held) (sn_height held)).
       content p = picture blend look (sn_members held) p"
    "p \<in> pts (buffer_bounds w h)"
  shows "drawn (Decide held w h ms hist e) content (picture blend look ms) p = picture blend look ms p"
proof (cases "sn_valid held \<and> sn_width held = w \<and> sn_height held = h \<and>
    (draws_scaled_in_part e \<or> \<not> list_ex Scaled ms)")
  case False
  then show ?thesis by (auto simp: Decide_def drawn_def Let_def)
next
  case True
  then have c: "\<forall>p\<in>pts (buffer_bounds w h). content p = picture blend look (sn_members held) p"
    using assms(3) by auto
  define full where "full why = \<lparr>pl_kind = kFull, pl_why = why, pl_parts =
    Gather (map mb_dst (sn_members held) @ map mb_dst ms) (buffer_bounds w h) ms e\<rparr>" for why
  have fulls: "drawn (full why) content (picture blend look ms) p = picture blend look ms p" for why
    by (rule full_parts_draw [OF c assms(4)]) (simp_all add: full_def)
  define damage where "damage = members_damage hist ms (sn_members held) []"
  have D: "Decide held w h ms hist e =
    (if length (sn_members held) \<noteq> length ms then full CHR ''c''
     else if sn_partial_run held \<ge> kMostPartialInARow then full CHR ''r''
     else case damage of Inl why \<Rightarrow> full why
      | Inr d \<Rightarrow> let parts = Gather d (buffer_bounds w h) ms e in
          if parts = [] then \<lparr>pl_kind = kUnchanged, pl_why = CHR ''n'', pl_parts = []\<rparr>
          else if Area parts \<ge> Area (Gather (map mb_dst (sn_members held) @ map mb_dst ms)
                   (buffer_bounds w h) ms e) then full CHR ''a''
          else \<lparr>pl_kind = kPartial, pl_why = CHR ''n'', pl_parts = parts\<rparr>)"
    unfolding Decide_def full_def damage_def Let_def using True by auto
  have parts: "content p = picture blend look ms p"
    if "damage = Inr d" "length (sn_members held) = length ms"
      "p \<notin> region (Gather d (buffer_bounds w h) ms e)" for d
    using damage_draw [OF assms(1,2) _ that(2) c assms(4) that(3)] that(1) by (simp add: damage_def)
  show ?thesis
  proof (cases damage)
    case (Inl why)
    then show ?thesis unfolding D by (simp add: fulls)
  next
    case (Inr d)
    then show ?thesis using parts [OF Inr] unfolding D
      by (auto simp: fulls Let_def) (auto simp: drawn_def)
  qed
qed

end
