(* ===== verification/SlotWorld.thy ===== *)
theory SlotWorld
  imports PartialRedraw
begin

text \<open>
  The buffers of an engine over time: frames' damage heard, a plan decided for a buffer and the
  buffer given up as unknown (as the state manager does before it hands the drawing to the
  engine), the drawing done, or refused, drawings of a whole buffer that nothing decided. Any
  order of these is a path of the step relation; only one drawing is under way at a time.
\<close>

record pending =
  pd_slot :: nat
  pd_width :: nat
  pd_height :: nat
  pd_members :: "member list"
  pd_plan :: plan

record 'c world =
  w_pictures :: slot_pictures
  w_content :: "nat \<Rightarrow> int \<times> int \<Rightarrow> 'c"
  w_pending :: "pending option"

definition w_init :: "engine \<Rightarrow> (nat \<Rightarrow> int \<times> int \<Rightarrow> 'c) \<Rightarrow> 'c world" where
  "w_init e content = \<lparr>w_pictures = sp_init e, w_content = content, w_pending = None\<rparr>"

inductive slot_step ::
  "(nat \<Rightarrow> nat \<Rightarrow> irect list) \<Rightarrow> ('c list \<Rightarrow> 'c) \<Rightarrow> 'c look \<Rightarrow> 'c world \<Rightarrow> 'c world \<Rightarrow> bool"
  for dmg blend look where
  heard: "slot_step dmg blend look s
    (s\<lparr>w_pictures := sp_Record (w_pictures s) m (dmg (mb_serial m) (mb_generation m))\<rparr>)"
| decided: "w_pending s = None \<Longrightarrow> slot_step dmg blend look s
    (s\<lparr>w_pictures := sp_Lost (w_pictures s) slot,
       w_pending := Some \<lparr>pd_slot = slot, pd_width = w, pd_height = h, pd_members = ms,
         pd_plan = sp_Decide (w_pictures s) slot w h ms\<rparr>\<rparr>)"
| finished: "w_pending s = Some d \<Longrightarrow> slot_step dmg blend look s
    (s\<lparr>w_pictures := sp_Drawn (w_pictures s) (pd_slot d) (pd_width d) (pd_height d) (pd_members d)
         (pd_plan d) fence,
       w_content := (w_content s)(pd_slot d :=
         drawn (pd_plan d) (w_content s (pd_slot d)) (picture blend look (pd_members d))),
       w_pending := None\<rparr>)"
| refused: "w_pending s = Some d \<Longrightarrow> slot_step dmg blend look s
    (s\<lparr>w_content := (w_content s)(pd_slot d := junk), w_pending := None\<rparr>)"
| undecided: "w_pending s = None \<Longrightarrow> slot_step dmg blend look s
    (s\<lparr>w_pictures := sp_Drawn (sp_Lost (w_pictures s) slot) slot w h ms new_plan fence,
       w_content := (w_content s)(slot := picture blend look ms)\<rparr>)"
| lost: "w_pending s = None \<Longrightarrow> slot_step dmg blend look s
    (s\<lparr>w_pictures := sp_Lost (w_pictures s) slot, w_content := (w_content s)(slot := junk)\<rparr>)"

inductive slot_reach ::
  "(nat \<Rightarrow> nat \<Rightarrow> irect list) \<Rightarrow> ('c list \<Rightarrow> 'c) \<Rightarrow> 'c look \<Rightarrow> 'c world \<Rightarrow> bool"
  for dmg blend look where
  start: "slot_reach dmg blend look (w_init e content)"
| more: "slot_reach dmg blend look s \<Longrightarrow> slot_step dmg blend look s t \<Longrightarrow> slot_reach dmg blend look t"

subsection \<open>The invariant\<close>

text \<open>A buffer whose snapshot is valid shows its members, and the drawing under way will leave
  its buffer showing its own; partial drawings in a row stay within their bound.\<close>

definition displays :: "('c list \<Rightarrow> 'c) \<Rightarrow> 'c look \<Rightarrow> snapshot \<Rightarrow> (int \<times> int \<Rightarrow> 'c) \<Rightarrow> bool" where
  "displays blend look sn content \<longleftrightarrow> (\<forall>p\<in>pts (buffer_bounds (sn_width sn) (sn_height sn)).
     content p = picture blend look (sn_members sn) p)"

definition slots_ok :: "('c list \<Rightarrow> 'c) \<Rightarrow> 'c look \<Rightarrow> 'c world \<Rightarrow> bool" where
  "slots_ok blend look s \<longleftrightarrow> (\<forall>k h. sp_slots (w_pictures s) k = Some h \<longrightarrow>
     sn_partial_run (hd_snapshot h) \<le> kMostPartialInARow \<and>
     (sn_valid (hd_snapshot h) \<longrightarrow> displays blend look (hd_snapshot h) (w_content s k)))"

definition slot_run :: "slot_pictures \<Rightarrow> nat \<Rightarrow> nat" where
  "slot_run s k = sn_partial_run (hd_snapshot (opt_ord (sp_slots s k) new_held))"

definition pending_ok :: "('c list \<Rightarrow> 'c) \<Rightarrow> 'c look \<Rightarrow> 'c world \<Rightarrow> pending \<Rightarrow> bool" where
  "pending_ok blend look s d \<longleftrightarrow>
     (\<forall>h. sp_slots (w_pictures s) (pd_slot d) = Some h \<longrightarrow> \<not> sn_valid (hd_snapshot h)) \<and>
     (pl_kind (pd_plan d) = kPartial \<longrightarrow> slot_run (w_pictures s) (pd_slot d) < kMostPartialInARow) \<and>
     (\<forall>p\<in>pts (buffer_bounds (pd_width d) (pd_height d)).
       drawn (pd_plan d) (w_content s (pd_slot d)) (picture blend look (pd_members d)) p =
       picture blend look (pd_members d) p)"

definition world_ok :: "(nat \<Rightarrow> nat \<Rightarrow> irect list) \<Rightarrow> ('c list \<Rightarrow> 'c) \<Rightarrow> 'c look \<Rightarrow> 'c world \<Rightarrow> bool" where
  "world_ok dmg blend look s \<longleftrightarrow>
     history_ok (sp_history (w_pictures s)) \<and> history_true dmg (sp_history (w_pictures s)) \<and>
     slots_ok blend look s \<and> (\<forall>d. w_pending s = Some d \<longrightarrow> pending_ok blend look s d)"

lemma slot_pictures_simps [simp]:
  "sp_history (sp_Lost s k) = sp_history s" "sp_history (sp_Drawn s k w h ms p f) = sp_history s"
  "sp_slots (sp_Record s m d) = sp_slots s" "slot_run (sp_Lost s k) = slot_run s"
  by (auto simp: sp_Lost_def sp_Drawn_def sp_Record_def Let_def slot_run_def fun_eq_iff
      split: option.splits)

lemma sp_slots_Lost:
  "sp_slots (sp_Lost s k) j = Some h \<Longrightarrow>
   \<exists>h'. sp_slots s j = Some h' \<and> sn_partial_run (hd_snapshot h) = sn_partial_run (hd_snapshot h') \<and>
     (if j = k then \<not> sn_valid (hd_snapshot h) else h = h')"
  by (auto simp: sp_Lost_def split: option.splits if_splits)

lemma sp_slots_Drawn:
  "sp_slots (sp_Drawn s k w h ms plan f) j =
   (if j = k then Some \<lparr>hd_snapshot = \<lparr>sn_valid = True, sn_width = w, sn_height = h,
      sn_members = ms, sn_partial_run = (case pl_kind plan of
        kPartial \<Rightarrow> wrap_size (int (slot_run s k) + 1) | kUnchanged \<Rightarrow> slot_run s k | kFull \<Rightarrow> 0)\<rparr>,
      hd_fence = f\<rparr> else sp_slots s j)"
  by (cases "pl_kind plan") (simp_all add: sp_Drawn_def Let_def slot_run_def)

lemma slot_run_bound: "slots_ok blend look s \<Longrightarrow> slot_run (w_pictures s) k \<le> kMostPartialInARow"
  by (cases "sp_slots (w_pictures s) k")
    (auto simp: slots_ok_def slot_run_def new_held_def)

lemma Decide_partial_run:
  "pl_kind (Decide held w h ms hist e) = kPartial \<Longrightarrow> sn_partial_run held < kMostPartialInARow"
  by (auto simp: Decide_def Let_def split: if_splits)

lemma sp_Decide_partial_run:
  "pl_kind (sp_Decide s k w h ms) = kPartial \<Longrightarrow> slot_run s k < kMostPartialInARow"
  by (auto simp: sp_Decide_def slot_run_def new_plan_def Let_def Decide_partial_run
      split: option.splits if_splits)

lemma drawn_whole: "pl_kind p = kFull \<Longrightarrow> pl_parts p = [] \<Longrightarrow> drawn p content pic q = pic q"
  by (simp add: drawn_def)

lemma Decide_unchanged: "pl_kind (Decide held w h ms hist e) = kUnchanged \<Longrightarrow>
    pl_parts (Decide held w h ms hist e) = []"
  by (auto simp: Decide_def Let_def split: if_splits sum.splits)

lemma sp_Decide_draws:
  assumes "honest dmg look" "history_true dmg (sp_history (w_pictures s))" "slots_ok blend look s"
    "p \<in> pts (buffer_bounds w h)"
  shows "drawn (sp_Decide (w_pictures s) k w h ms) (w_content s k) (picture blend look ms) p =
    picture blend look ms p"
proof (cases "sp_slots (w_pictures s) k")
  case None
  then show ?thesis by (simp add: sp_Decide_def new_plan_def drawn_def)
next
  case (Some hd)
  let ?sn = "hd_snapshot hd"
  let ?plan = "Decide ?sn w h ms (sp_history (w_pictures s)) (sp_engine (w_pictures s))"
  have "drawn ?plan (w_content s k) (picture blend look ms) p = picture blend look ms p"
    using assms Some by (intro Decide_draws) (auto simp: slots_ok_def displays_def)
  then show ?thesis
    using Decide_unchanged [of ?sn w h ms "sp_history (w_pictures s)" "sp_engine (w_pictures s)"]
    by (auto simp: sp_Decide_def Some Let_def drawn_whole)
qed

text \<open>After a drawing, its buffer shows its members.\<close>

lemma slots_ok_Drawn:
  assumes "slots_ok blend look s" "pending_ok blend look s d"
  shows "slots_ok blend look (s\<lparr>w_pictures := sp_Drawn (w_pictures s) (pd_slot d) (pd_width d)
      (pd_height d) (pd_members d) (pd_plan d) fence,
    w_content := (w_content s)(pd_slot d :=
      drawn (pd_plan d) (w_content s (pd_slot d)) (picture blend look (pd_members d))),
    w_pending := None\<rparr>)"
proof -
  have "wrap_size (int (slot_run (w_pictures s) (pd_slot d)) + 1) \<le> kMostPartialInARow"
    if "pl_kind (pd_plan d) = kPartial"
  proof -
    have r: "slot_run (w_pictures s) (pd_slot d) < kMostPartialInARow"
      using assms(2) that by (simp add: pending_ok_def)
    have "wrap_size (int (Suc (slot_run (w_pictures s) (pd_slot d)))) =
        Suc (slot_run (w_pictures s) (pd_slot d))"
      using r by (intro wrap_size_id) (simp add: kMostPartialInARow_def)
    then show ?thesis using r by (simp add: add.commute)
  qed
  then show ?thesis
    using assms slot_run_bound [OF assms(1), of "pd_slot d"]
    by (auto simp: slots_ok_def sp_slots_Drawn pending_ok_def displays_def split: plan_kind.splits)
qed

lemma slots_ok_Lost:
  "slots_ok blend look s \<Longrightarrow> slots_ok blend look
     (s\<lparr>w_pictures := sp_Lost (w_pictures s) k, w_content := (w_content s)(k := junk)\<rparr>)"
  by (fastforce simp: slots_ok_def dest!: sp_slots_Lost split: if_splits)

lemma world_ok_init: "world_ok dmg blend look (w_init e content)"
  by (simp add: world_ok_def w_init_def sp_init_def history_ok_init history_true_init slots_ok_def)

lemma pending_ok_cong:
  "pending_ok blend look s d \<Longrightarrow> sp_slots (w_pictures t) = sp_slots (w_pictures s) \<Longrightarrow>
   w_content t = w_content s \<Longrightarrow> pending_ok blend look t d"
  by (simp add: pending_ok_def slot_run_def)

lemma Lost_invalid: "sp_slots (sp_Lost s k) k = Some h \<Longrightarrow> \<not> sn_valid (hd_snapshot h)"
  using sp_slots_Lost by fastforce

lemma world_ok_heard:
  assumes "world_ok dmg blend look s"
  shows "world_ok dmg blend look
    (s\<lparr>w_pictures := sp_Record (w_pictures s) m (dmg (mb_serial m) (mb_generation m))\<rparr>)"
    (is "world_ok _ _ _ ?t")
proof -
  let ?h = "sp_history (w_pictures s)"
  have h: "history_ok ?h" "history_true dmg ?h" and sl: "slots_ok blend look s"
    and pd: "\<And>d. w_pending s = Some d \<Longrightarrow> pending_ok blend look s d"
    using assms by (auto simp: world_ok_def)
  have "sp_history (w_pictures ?t) =
      dh_Record ?h (mb_serial m) (mb_generation m) (dmg (mb_serial m) (mb_generation m))"
    by (simp add: sp_Record_def)
  moreover have "slots_ok blend look ?t" using sl by (simp add: slots_ok_def)
  moreover have "sp_slots (w_pictures ?t) = sp_slots (w_pictures s)" by simp
  ultimately show ?thesis
    using history_ok_Record [OF h(1)] history_true_Record [OF h] pending_ok_cong [OF pd]
    by (simp add: world_ok_def)
qed

lemma slot_step_ok:
  assumes "honest dmg look" "slot_step dmg blend look s t" "world_ok dmg blend look s"
  shows "world_ok dmg blend look t"
  using assms(2)
proof cases
  case (heard m)
  then show ?thesis using world_ok_heard [OF assms(3)] by simp
next
  case (decided slot w h ms)
  have "slots_ok blend look (s\<lparr>w_pictures := sp_Lost (w_pictures s) slot,
      w_content := (w_content s)(slot := w_content s slot)\<rparr>)"
    using assms(3) by (intro slots_ok_Lost) (simp add: world_ok_def)
  then have "slots_ok blend look t" by (simp add: decided slots_ok_def)
  moreover have "pending_ok blend look t \<lparr>pd_slot = slot, pd_width = w, pd_height = h, pd_members = ms,
         pd_plan = sp_Decide (w_pictures s) slot w h ms\<rparr>"
    using assms(3) sp_Decide_draws [OF assms(1)] sp_Decide_partial_run Lost_invalid
    by (simp add: decided pending_ok_def world_ok_def)
  ultimately show ?thesis using assms(3) by (simp add: decided world_ok_def)
next
  case (finished d fence)
  then have "slots_ok blend look t"
    using slots_ok_Drawn [of blend look s d fence] assms(3) by (simp add: world_ok_def)
  then show ?thesis using assms(3) by (simp add: finished world_ok_def)
next
  case (refused d junk)
  then have "slots_ok blend look s" "pending_ok blend look s d"
    using assms(3) by (auto simp: world_ok_def)
  then have "slots_ok blend look t" by (auto simp: refused slots_ok_def pending_ok_def)
  then show ?thesis using assms(3) by (simp add: refused world_ok_def)
next
  case (undecided slot ms w h fence)
  let ?s = "s\<lparr>w_pictures := sp_Lost (w_pictures s) slot, w_content := (w_content s)(slot := w_content s slot)\<rparr>"
  let ?d = "\<lparr>pd_slot = slot, pd_width = w, pd_height = h, pd_members = ms, pd_plan = new_plan\<rparr>"
  have new: "drawn new_plan content pic = pic" for content and pic :: "int \<times> int \<Rightarrow> 'a"
    by (simp add: drawn_def new_plan_def fun_eq_iff)
  have "slots_ok blend look ?s" using assms(3) by (intro slots_ok_Lost) (simp add: world_ok_def)
  moreover have "pending_ok blend look ?s ?d"
  proof -
    have "pl_kind new_plan \<noteq> kPartial" by (simp add: new_plan_def)
    then show ?thesis using Lost_invalid by (auto simp: pending_ok_def new)
  qed
  ultimately have "slots_ok blend look t"
    using slots_ok_Drawn [of blend look ?s ?d fence] by (simp add: undecided slots_ok_def new)
  then show ?thesis using assms(3) by (simp add: undecided world_ok_def)
next
  case (lost slot junk)
  have "slots_ok blend look t" using slots_ok_Lost [of blend look s slot junk] assms(3)
    by (simp add: lost world_ok_def)
  then show ?thesis using assms(3) by (simp add: lost world_ok_def)
qed

lemma slot_reach_ok:
  "honest dmg look \<Longrightarrow> slot_reach dmg blend look s \<Longrightarrow> world_ok dmg blend look s"
  by (rotate_tac 1, induction rule: slot_reach.induct) (auto intro: world_ok_init slot_step_ok)

subsection \<open>Properties\<close>


text \<open>no buffer is drawn in part more than \<open>kMostPartialInARow\<close> times in a row, whatever
  the clients say; and a plan to show a buffer undrawn is made only for a buffer with a fence to
  show it against.\<close>

theorem partial_run_bounded:
  assumes "honest dmg look" "slot_reach dmg blend look s" "sp_slots (w_pictures s) k = Some h"
  shows "sn_partial_run (hd_snapshot h) \<le> kMostPartialInARow \<and>
    (pl_kind (sp_Decide (w_pictures s) k width height ms) = kUnchanged \<longrightarrow>
       sp_Fence (w_pictures s) k \<noteq> None)"
proof -
  have "slots_ok blend look s" using slot_reach_ok [OF assms(1,2)] by (simp add: world_ok_def)
  then show ?thesis using assms(3)
    by (auto simp: slots_ok_def sp_Decide_def sp_Fence_def Let_def split: if_splits)
qed

text \<open>A client that says every frame changes all of its buffer.\<close>

definition candid_look :: "nat look" where "candid_look m p = mb_generation m"

lemma candid: "honest (\<lambda>s g. []) candid_look"
  unfolding honest_def candid_look_def by (metis le_neq_implies_less order_refl)

definition demo_frame_members :: "nat \<Rightarrow> member list" where
  "demo_frame_members g = [demo_member\<lparr>mb_generation := g\<rparr>,
     demo_member\<lparr>mb_serial := 4, mb_dst := mk_rect 0 400 100 450\<rparr>]"

text \<open>The first picture drawn in full, then the second frame of its first member heard of, and
  drawn in part.\<close>

definition demo_pictures :: "slot_pictures" where
  "demo_pictures = sp_Drawn (sp_init capable) 0 200 500 (demo_frame_members 2) new_plan (Some 3)"

definition demo_heard_pictures :: "slot_pictures" where
  "demo_heard_pictures = sp_Record (sp_Record demo_pictures (demo_member\<lparr>mb_generation := 2\<rparr>) [])
     (demo_member\<lparr>mb_generation := 3\<rparr>) []"

definition demo_plan :: plan where
  "demo_plan = sp_Decide demo_heard_pictures 0 200 500 (demo_frame_members 3)"

definition demo_first :: "nat world" where
  "demo_first = \<lparr>w_pictures = demo_pictures,
     w_content = (\<lambda>k p. 0)(0 := picture sum_list candid_look (demo_frame_members 2)), w_pending = None\<rparr>"

definition demo_heard :: "nat world" where
  "demo_heard = demo_first\<lparr>w_pictures := demo_heard_pictures\<rparr>"

definition demo_second :: "nat world" where
  "demo_second = demo_heard\<lparr>w_pictures := sp_Drawn (sp_Lost demo_heard_pictures 0) 0 200 500
       (demo_frame_members 3) demo_plan (Some 4),
     w_content := (w_content demo_heard)(0 := drawn demo_plan (w_content demo_heard 0)
       (picture sum_list candid_look (demo_frame_members 3))),
     w_pending := None\<rparr>"

definition demo_history :: damage_history where
  "demo_history = dh_Record (dh_Record dh_init 3 2 []) 3 3 []"

lemma demo_between: "Between demo_history 3 2 3 = (True, [], True)" by code_simp

lemma demo_sizes: "f32_sub (Fin 100) (Fin 0) = Fin 100" "f32_sub (Fin 50) (Fin 0) = Fin 50" by code_simp+

lemma demo_same: "SameButFrame (demo_member\<lparr>mb_generation := 3\<rparr>) (demo_member\<lparr>mb_generation := 2\<rparr>)"
  "SameButFrame (demo_member\<lparr>mb_serial := 4, mb_dst := mk_rect 0 400 100 450\<rparr>) (demo_member\<lparr>mb_serial := 4, mb_dst := mk_rect 0 400 100 450\<rparr>)" by code_simp+

lemma demo_fields: "mb_serial demo_member = 3" "mb_transform demo_member = 0" "mb_dst demo_member = mk_rect 0 0 100 50"
  "fwidth (mb_src demo_member) = Fin 100" "fheight (mb_src demo_member) = Fin 50"
  by (simp_all add: demo_member_def fwidth_def fheight_def demo_sizes)

lemma demo_damage: "members_damage demo_history (demo_frame_members 3) (demo_frame_members 2) [] = Inr [mk_rect 0 0 100 50]"
proof -
  have "member_damage demo_history (demo_member\<lparr>mb_generation := 3\<rparr>) (demo_member\<lparr>mb_generation := 2\<rparr>) = Inr [mk_rect 0 0 100 50]"
   by (simp add: member_damage_def demo_same demo_fields demo_between f32_le_def)
  moreover have "member_damage demo_history (demo_member\<lparr>mb_serial := 4, mb_dst := mk_rect 0 400 100 450\<rparr>) (demo_member\<lparr>mb_serial := 4, mb_dst := mk_rect 0 400 100 450\<rparr>) = Inr []"
    by (simp add: member_damage_def demo_same demo_fields)
  ultimately show ?thesis by (simp add: demo_frame_members_def)
qed

lemma demo_parts: "Gather [mk_rect 0 0 100 50] (buffer_bounds 200 500) (demo_frame_members 3) capable = [mk_rect 0 0 112 50]" by code_simp

lemma demo_full: "Gather [mk_rect 0 0 100 50,mk_rect 0 400 100 450,mk_rect 0 0 100 50,mk_rect 0 400 100 450] (buffer_bounds 200 500) (demo_frame_members 3) capable = [mk_rect 0 0 112 450]" by code_simp

lemma demo_pictures_slot:
  "sp_slots demo_heard_pictures 0 = Some \<lparr>hd_snapshot = \<lparr>sn_valid = True, sn_width = 200,
     sn_height = 500, sn_members = demo_frame_members 2, sn_partial_run = 0\<rparr>, hd_fence = Some 3\<rparr>"
  "sp_history demo_heard_pictures = demo_history" "sp_engine demo_heard_pictures = capable"
  by (simp_all add: demo_heard_pictures_def demo_pictures_def sp_init_def sp_Record_def
      sp_Drawn_def Let_def new_plan_def demo_history_def demo_fields)

lemma demo_plan_partial: "demo_plan = \<lparr>pl_kind = kPartial, pl_why = CHR ''n'', pl_parts = [mk_rect 0 0 112 50]\<rparr>"
proof -
  let ?sn = "\<lparr>sn_valid = True, sn_width = 200, sn_height = 500, sn_members = demo_frame_members 2,
    sn_partial_run = 0\<rparr>"
  have m: "map mb_dst (sn_members ?sn) @ map mb_dst (demo_frame_members 3) =
      [mk_rect 0 0 100 50, mk_rect 0 400 100 450, mk_rect 0 0 100 50, mk_rect 0 400 100 450]"
    by code_simp
  have a: "Area [mk_rect 0 0 112 450] = 50400" "Area [mk_rect 0 0 112 50] = 5600" by code_simp+
  have s: "draws_scaled_in_part capable" "length (demo_frame_members g) = 2" for g
    by (simp_all add: capable_def demo_frame_members_def)
  have "Decide ?sn 200 500 (demo_frame_members 3) demo_history capable =
      \<lparr>pl_kind = kPartial, pl_why = CHR ''n'', pl_parts = [mk_rect 0 0 112 50]\<rparr>"
    unfolding Decide_def m Let_def demo_full
    by (simp add: s demo_damage demo_parts a kMostPartialInARow_def)
  then show ?thesis by (simp add: demo_plan_def sp_Decide_def demo_pictures_slot)
qed

lemma demo_reached: "slot_reach (\<lambda>s g. []) sum_list candid_look demo_second"
proof -
  let ?step = "slot_step (\<lambda>s g. []) sum_list candid_look"
  let ?reach = "slot_reach (\<lambda>s g. []) sum_list candid_look"
  have "?reach (w_init capable (\<lambda>k p. 0))" by (rule slot_reach.start)
  then have "?reach demo_first"
    by (rule slot_reach.more) (use undecided [of "w_init capable (\<lambda>k p. 0)"] in
      \<open>simp add: w_init_def demo_first_def demo_pictures_def sp_init_def sp_Lost_def\<close>)
  moreover have "?step demo_first (demo_first\<lparr>w_pictures := sp_Record (w_pictures demo_first)
      (demo_member\<lparr>mb_generation := 2\<rparr>) []\<rparr>)"
    using heard [of "\<lambda>s g. []" sum_list candid_look demo_first "demo_member\<lparr>mb_generation := 2\<rparr>"] by simp
  moreover have "?step (demo_first\<lparr>w_pictures := sp_Record (w_pictures demo_first)
      (demo_member\<lparr>mb_generation := 2\<rparr>) []\<rparr>) demo_heard"
    using heard [of "\<lambda>s g. []" sum_list candid_look "demo_first\<lparr>w_pictures := sp_Record (w_pictures demo_first)
      (demo_member\<lparr>mb_generation := 2\<rparr>) []\<rparr>" "demo_member\<lparr>mb_generation := 3\<rparr>"]
    by (simp add: demo_heard_def demo_heard_pictures_def demo_first_def)
  ultimately have h: "?reach demo_heard" by (blast intro: slot_reach.more)
  let ?d = "\<lparr>pd_slot = 0, pd_width = 200, pd_height = 500, pd_members = demo_frame_members 3, pd_plan = demo_plan\<rparr>"
  let ?mid = "demo_heard\<lparr>w_pictures := sp_Lost demo_heard_pictures 0, w_pending := Some ?d\<rparr>"
  have none: "w_pending demo_heard = None" "w_pictures demo_heard = demo_heard_pictures" by (simp_all add: demo_heard_def demo_first_def)
  have "?reach ?mid"
    using h decided [OF none(1), of "\<lambda>s g. []" sum_list candid_look 0 200 500 "demo_frame_members 3"]
    unfolding demo_plan_def none(2) by (rule slot_reach.more)
  moreover have "?step ?mid demo_second"
    using finished [of ?mid ?d "\<lambda>s g. []" sum_list candid_look "Some 4"]
    by (simp add: demo_second_def)
  ultimately show ?thesis by (rule slot_reach.more)
qed

lemma demo_slot:
  "sp_slots (w_pictures demo_second) 0 = Some \<lparr>hd_snapshot = \<lparr>sn_valid = True, sn_width = 200,
     sn_height = 500, sn_members = demo_frame_members 3, sn_partial_run = 1\<rparr>, hd_fence = Some 4\<rparr>"
  by (simp add: demo_second_def demo_heard_def demo_plan_partial sp_slots_Drawn wrap_size_def
      slot_run_def demo_pictures_slot)


theorem partial_run_bounded_witness:
  "sn_partial_run (hd_snapshot (the (sp_slots (w_pictures demo_second) 0))) \<le> 30"
  using partial_run_bounded [OF candid demo_reached demo_slot]
  by (simp add: demo_slot kMostPartialInARow_def)

end
