(* ===== verification/JobQueue.thy ===== *)
theory JobQueue
  imports Prelude
begin

text \<open>
  compositor/JobQueue.h: the work one engine is asked for, between the thread that plans a
  frame and the worker that hands it to the engine. Every method runs under the queue's mutex,
  so each is one step; \<open>Take\<close> and \<open>Resolve\<close> answer \<open>None\<close> where the code waits on its condition,
  leaving the queue as it is. Which thread calls what when is a path of the step relation.
\<close>

datatype job_state = JQueued | JSubmitting | JSubmitted | JRefused | JDropped | JCancelled

record ('j, 'r) entry =
  en_id :: nat
  en_state :: job_state
  en_droppable :: bool
  en_job :: "'j option"
  en_result :: "'r option"
  en_cancelled :: bool

record ('j, 'r) job_queue =
  jq_entries :: "('j, 'r) entry list"
  jq_last_id :: nat
  jq_dropped_in_a_row :: nat
  jq_dropped :: nat
  jq_stopped :: bool

record 'r outcome =
  oc_state :: job_state
  oc_result :: "'r option"

definition jq_init :: "('j, 'r) job_queue" where
  "jq_init = \<lparr>jq_entries = [], jq_last_id = 0, jq_dropped_in_a_row = 0, jq_dropped = 0,
     jq_stopped = False\<rparr>"

definition kMostDroppedInARow :: nat where "kMostDroppedInARow = 1"

definition dropped_entry :: "('j, 'r) entry \<Rightarrow> ('j, 'r) entry" where
  "dropped_entry e = e\<lparr>en_state := JDropped, en_job := None\<rparr>"

text \<open>The loop of \<open>Queue\<close> over the entries, with the number dropped in a row; the number of
  all dropped grows as much.\<close>

fun drop_superseded :: "nat \<Rightarrow> ('j, 'r) entry list \<Rightarrow> nat \<times> ('j, 'r) entry list" where
  "drop_superseded n [] = (n, [])"
| "drop_superseded n (e # es) =
     (if en_state e \<noteq> JQueued \<or> \<not> en_droppable e
      then (case drop_superseded n es of (m, es') \<Rightarrow> (m, e # es'))
      else if n \<ge> kMostDroppedInARow then (n, e # es)
      else (case drop_superseded (Suc n) es of (m, es') \<Rightarrow> (m, dropped_entry e # es')))"

definition jq_Queue :: "('j, 'r) job_queue \<Rightarrow> 'j \<Rightarrow> bool \<Rightarrow> nat \<times> ('j, 'r) job_queue" where
  "jq_Queue q job droppable =
     (case drop_superseded (jq_dropped_in_a_row q) (jq_entries q) of (n, es) \<Rightarrow>
       let i = jq_last_id q + 1 in
       (i, q\<lparr>jq_entries := es @ [\<lparr>en_id = i, en_state = JQueued, en_droppable = droppable,
                en_job = Some job, en_result = None, en_cancelled = False\<rparr>],
             jq_last_id := i, jq_dropped_in_a_row := n,
             jq_dropped := jq_dropped q + (n - jq_dropped_in_a_row q)\<rparr>))"

fun take_first :: "('j, 'r) entry list \<Rightarrow> ((nat \<times> 'j) \<times> ('j, 'r) entry list) option" where
  "take_first [] = None"
| "take_first (e # es) =
     (if en_state e \<noteq> JQueued
      then map_option (\<lambda>(t, es'). (t, e # es')) (take_first es)
      else Some ((en_id e, the (en_job e)), e\<lparr>en_state := JSubmitting, en_job := None\<rparr> # es))"

definition TakeLocked :: "('j, 'r) job_queue \<Rightarrow> (nat \<times> 'j) option \<times> ('j, 'r) job_queue" where
  "TakeLocked q = (case take_first (jq_entries q) of
     None \<Rightarrow> (None, q) | Some (t, es) \<Rightarrow> (Some t, q\<lparr>jq_entries := es\<rparr>))"

text \<open>\<open>Take\<close> answers nothing once the queue is stopped, and otherwise waits for a job.\<close>

definition jq_Take :: "('j, 'r) job_queue \<Rightarrow> ((nat \<times> 'j) option \<times> ('j, 'r) job_queue) option" where
  "jq_Take q = (if jq_stopped q then Some (None, q)
     else case TakeLocked q of (None, _) \<Rightarrow> None | (Some t, q') \<Rightarrow> Some (Some t, q'))"

definition TryTake :: "('j, 'r) job_queue \<Rightarrow> (nat \<times> 'j) option \<times> ('j, 'r) job_queue" where
  "TryTake q = (if jq_stopped q then (None, q) else TakeLocked q)"

definition jq_Find :: "('j, 'r) job_queue \<Rightarrow> nat \<Rightarrow> ('j, 'r) entry option" where
  "jq_Find q i = find (\<lambda>e. en_id e = i) (jq_entries q)"

fun forget_first :: "nat \<Rightarrow> ('j, 'r) entry list \<Rightarrow> ('j, 'r) entry list" where
  "forget_first i [] = []"
| "forget_first i (e # es) = (if en_id e = i then es else e # forget_first i es)"

definition jq_Forget :: "('j, 'r) job_queue \<Rightarrow> nat \<Rightarrow> ('j, 'r) job_queue" where
  "jq_Forget q i = q\<lparr>jq_entries := forget_first i (jq_entries q)\<rparr>"

text \<open>A write through the pointer \<open>Find\<close> gave.\<close>

fun change_first :: "nat \<Rightarrow> (('j, 'r) entry \<Rightarrow> ('j, 'r) entry) \<Rightarrow> ('j, 'r) entry list \<Rightarrow> ('j, 'r) entry list" where
  "change_first i f [] = []"
| "change_first i f (e # es) = (if en_id e = i then f e # es else e # change_first i f es)"

definition jq_change :: "('j, 'r) job_queue \<Rightarrow> nat \<Rightarrow> (('j, 'r) entry \<Rightarrow> ('j, 'r) entry) \<Rightarrow> ('j, 'r) job_queue" where
  "jq_change q i f = q\<lparr>jq_entries := change_first i f (jq_entries q)\<rparr>"

definition jq_Done :: "('j, 'r) job_queue \<Rightarrow> nat \<Rightarrow> bool \<Rightarrow> 'r option \<Rightarrow> ('j, 'r) job_queue" where
  "jq_Done q i submitted result =
     (case jq_Find q i of
        None \<Rightarrow> q
      | Some e \<Rightarrow>
          let q1 = (if submitted then q\<lparr>jq_dropped_in_a_row := 0\<rparr> else q) in
          if en_cancelled e then jq_Forget q1 i
          else jq_change q1 i (\<lambda>e. e\<lparr>en_state := (if submitted then JSubmitted else JRefused),
                 en_result := result\<rparr>))"

definition jq_Resolve :: "('j, 'r) job_queue \<Rightarrow> nat \<Rightarrow> bool \<Rightarrow> ('r outcome \<times> ('j, 'r) job_queue) option" where
  "jq_Resolve q i wait =
     (case jq_Find q i of
        None \<Rightarrow> Some (\<lparr>oc_state = JCancelled, oc_result = None\<rparr>, q)
      | Some e0 \<Rightarrow>
          let drop = (en_state e0 = JQueued \<and> \<not> wait \<and> en_droppable e0 \<and>
                      jq_dropped_in_a_row q < kMostDroppedInARow);
              e = (if drop then dropped_entry e0 else e0);
              q1 = (if drop then (jq_change q i dropped_entry)
                        \<lparr>jq_dropped_in_a_row := jq_dropped_in_a_row q + 1, jq_dropped := jq_dropped q + 1\<rparr>
                    else q)
          in if en_state e \<noteq> JQueued \<and> en_state e \<noteq> JSubmitting
             then Some (\<lparr>oc_state = en_state e, oc_result = en_result e\<rparr>, jq_Forget q1 i)
             else if jq_stopped q1
             then Some (\<lparr>oc_state = JCancelled, oc_result = None\<rparr>, jq_Forget q1 i)
             else None)"

definition jq_Cancel :: "('j, 'r) job_queue \<Rightarrow> nat \<Rightarrow> ('j, 'r) job_queue" where
  "jq_Cancel q i = (case jq_Find q i of
     None \<Rightarrow> q
   | Some e \<Rightarrow> if en_state e = JSubmitting then jq_change q i (\<lambda>e. e\<lparr>en_cancelled := True\<rparr>)
               else jq_Forget q i)"

definition jq_Stop :: "('j, 'r) job_queue \<Rightarrow> ('j, 'r) job_queue" where
  "jq_Stop q = q\<lparr>jq_stopped := True,
     jq_entries := map (\<lambda>e. if en_state e = JQueued then e\<lparr>en_job := None\<rparr> else e) (jq_entries q)\<rparr>"

definition jq_waiting :: "('j, 'r) job_queue \<Rightarrow> nat" where
  "jq_waiting q = length (filter (\<lambda>e. en_state e = JQueued) (jq_entries q))"

subsection \<open>The queue in use\<close>

text \<open>Beside the queue: what the worker took, in order, and how it said each went; how many
  submissions the queue was told of.\<close>

record ('j, 'r) use =
  us_queue :: "('j, 'r) job_queue"
  us_taken :: "(nat \<times> 'j) list"
  us_done :: "(nat \<times> bool \<times> 'r option) list"
  us_queued :: "(nat \<times> 'j) list"
  us_submissions :: nat

definition us_init :: "('j, 'r) use" where
  "us_init = \<lparr>us_queue = jq_init, us_taken = [], us_done = [], us_queued = [], us_submissions = 0\<rparr>"

text \<open>The worker calls \<open>Done\<close> for a job it took; everything else is called for any id.\<close>

inductive jq_step :: "('j, 'r) use \<Rightarrow> ('j, 'r) use \<Rightarrow> bool" where
  queue: "jq_Queue (us_queue s) job droppable = (i, q) \<Longrightarrow>
    jq_step s (s\<lparr>us_queue := q, us_queued := us_queued s @ [(i, job)]\<rparr>)"
| take: "jq_Take (us_queue s) = Some (Some t, q) \<Longrightarrow>
    jq_step s (s\<lparr>us_queue := q, us_taken := us_taken s @ [t]\<rparr>)"
| try_take: "TryTake (us_queue s) = (Some t, q) \<Longrightarrow>
    jq_step s (s\<lparr>us_queue := q, us_taken := us_taken s @ [t]\<rparr>)"
| worked: "i \<in> fst ` set (us_taken s) \<Longrightarrow>
    jq_step s (s\<lparr>us_queue := jq_Done (us_queue s) i submitted result,
      us_done := us_done s @ [(i, submitted, result)],
      us_submissions := us_submissions s + (if submitted then 1 else 0)\<rparr>)"
| resolve: "jq_Resolve (us_queue s) i wait = Some (out, q) \<Longrightarrow> jq_step s (s\<lparr>us_queue := q\<rparr>)"
| cancel: "jq_step s (s\<lparr>us_queue := jq_Cancel (us_queue s) i\<rparr>)"
| stop: "jq_step s (s\<lparr>us_queue := jq_Stop (us_queue s)\<rparr>)"

inductive jq_reach :: "('j, 'r) use \<Rightarrow> bool" where
  start: "jq_reach us_init"
| more: "jq_reach s \<Longrightarrow> jq_step s t \<Longrightarrow> jq_reach t"

subsection \<open>The operations on the list of entries\<close>

lemma dropped_entry_simps [simp]:
  "en_id (dropped_entry e) = en_id e" "en_state (dropped_entry e) = JDropped"
  "en_droppable (dropped_entry e) = en_droppable e" "en_result (dropped_entry e) = en_result e"
  by (simp_all add: dropped_entry_def)

lemma drop_superseded_spec:
  "drop_superseded n es = (m, es') \<Longrightarrow> n \<le> kMostDroppedInARow \<Longrightarrow>
   n \<le> m \<and> m \<le> kMostDroppedInARow \<and> map en_id es' = map en_id es \<and>
   (\<forall>e'\<in>set es'. e' \<in> set es \<or>
      (\<exists>e\<in>set es. e' = dropped_entry e \<and> en_state e = JQueued \<and> en_droppable e))"
proof (induction n es arbitrary: m es' rule: drop_superseded.induct)
  case (2 n e es)
  consider "en_state e \<noteq> JQueued \<or> \<not> en_droppable e" | "en_state e = JQueued" "en_droppable e" "n \<ge> kMostDroppedInARow"
    | "en_state e = JQueued" "en_droppable e" "\<not> n \<ge> kMostDroppedInARow" by blast
  then show ?case
  proof cases
    case 1
    obtain es1 where d: "drop_superseded n es = (m, es1)" "es' = e # es1"
      using 1 "2.prems"(1) by (auto split: prod.splits)
    then show ?thesis using "2.IH"(1) [OF 1 d(1) "2.prems"(2)] by auto
  next
    case 2
    then show ?thesis using "2.prems" by auto
  next
    case 3
    obtain es1 where d: "drop_superseded (Suc n) es = (m, es1)" "es' = dropped_entry e # es1"
      using 3 "2.prems"(1) by (auto split: prod.splits)
    then show ?thesis using "2.IH"(2) [OF _ 3(3) d(1)] 3 by auto
  qed
qed simp

lemma take_first_spec:
  "take_first es = Some (t, es') \<Longrightarrow>
   \<exists>xs e ys. es = xs @ e # ys \<and> (\<forall>x\<in>set xs. en_state x \<noteq> JQueued) \<and> en_state e = JQueued \<and>
     t = (en_id e, the (en_job e)) \<and> es' = xs @ e\<lparr>en_state := JSubmitting, en_job := None\<rparr> # ys"
proof (induction es arbitrary: es')
  case (Cons e es)
  show ?case
  proof (cases "en_state e = JQueued")
    case True
    then show ?thesis using Cons.prems by (intro exI [of _ "[]"]) auto
  next
    case False
    then obtain es1 where "take_first es = Some (t, es1)" "es' = e # es1" using Cons.prems by auto
    then obtain xs d ys where "es = xs @ d # ys" "\<forall>x\<in>set xs. en_state x \<noteq> JQueued" "en_state d = JQueued"
      "t = (en_id d, the (en_job d))" "es1 = xs @ d\<lparr>en_state := JSubmitting, en_job := None\<rparr> # ys"
      using Cons.IH by blast
    then show ?thesis using False \<open>es' = e # es1\<close>
      by (intro exI [of _ "e # xs"] exI [of _ d] exI [of _ ys]) simp
  qed
qed simp

lemma take_first_None: "take_first es = None \<longleftrightarrow> (\<forall>e\<in>set es. en_state e \<noteq> JQueued)"
  by (induction es) auto

lemma set_forget_first: "set (forget_first i es) \<subseteq> set es"
  by (induction es) auto

lemma sorted_forget_first:
  "sorted_wrt (<) (map en_id es) \<Longrightarrow> sorted_wrt (<) (map en_id (forget_first i es))"
proof (induction es)
  case (Cons e es)
  then show ?case using set_forget_first [of i es] by auto
qed simp

lemma forget_first_gone:
  "sorted_wrt (<) (map en_id es) \<Longrightarrow> i \<notin> en_id ` set (forget_first i es)"
  by (induction es) auto

lemma change_first_ids:
  "(\<And>e. en_id (f e) = en_id e) \<Longrightarrow> map en_id (change_first i f es) = map en_id es"
  by (induction es) auto

lemma in_change_first:
  "e' \<in> set (change_first i f es) \<Longrightarrow> e' \<in> set es \<or> (\<exists>e\<in>set es. en_id e = i \<and> e' = f e)"
  by (induction es) (auto split: if_splits)

lemma jq_Find_in: "jq_Find q i = Some e \<Longrightarrow> e \<in> set (jq_entries q) \<and> en_id e = i"
  by (auto simp: jq_Find_def find_Some_iff)

lemma sorted_ids_eq:
  "sorted_wrt (<) (map en_id es) \<Longrightarrow> e \<in> set es \<Longrightarrow> d \<in> set es \<Longrightarrow> en_id e = en_id d \<Longrightarrow> e = d"
  by (induction es) auto

subsection \<open>The invariant\<close>

definition entry_ok :: "('j, 'r) use \<Rightarrow> ('j, 'r) entry \<Rightarrow> bool" where
  "entry_ok s e \<longleftrightarrow> en_id e \<le> jq_last_id (us_queue s) \<and> en_state e \<noteq> JCancelled \<and>
     (en_state e = JQueued \<longrightarrow> (\<forall>t\<in>set (us_taken s). fst t < en_id e) \<and>
        (jq_stopped (us_queue s) \<or> (\<exists>j. en_job e = Some j \<and> (en_id e, j) \<in> set (us_queued s)))) \<and>
     (en_state e = JDropped \<longrightarrow> en_droppable e \<and> en_id e \<notin> fst ` set (us_taken s)) \<and>
     (en_state e = JSubmitting \<longrightarrow> en_id e \<in> fst ` set (us_taken s)) \<and>
     (en_state e = JSubmitted \<longrightarrow> (en_id e, True, en_result e) \<in> set (us_done s)) \<and>
     (en_state e = JRefused \<longrightarrow> (en_id e, False, en_result e) \<in> set (us_done s))"

definition queue_ok :: "('j, 'r) use \<Rightarrow> bool" where
  "queue_ok s \<longleftrightarrow> sorted_wrt (<) (map en_id (jq_entries (us_queue s))) \<and>
     (\<forall>e\<in>set (jq_entries (us_queue s)). entry_ok s e) \<and>
     sorted_wrt (<) (map fst (us_taken s)) \<and> set (us_taken s) \<subseteq> set (us_queued s) \<and>
     (\<forall>t\<in>set (us_queued s). fst t \<le> jq_last_id (us_queue s)) \<and>
     jq_dropped_in_a_row (us_queue s) \<le> kMostDroppedInARow \<and>
     jq_dropped (us_queue s) \<le> us_submissions s + jq_dropped_in_a_row (us_queue s)"

lemma queue_ok_init: "queue_ok us_init"
  by (simp add: queue_ok_def us_init_def jq_init_def)

text \<open>A step that only changes entries, or forgets some.\<close>

lemma queue_ok_entries:
  assumes "queue_ok s" "sorted_wrt (<) (map en_id es)" "\<forall>e\<in>set es. entry_ok s e"
    "n \<le> kMostDroppedInARow" "d \<le> us_submissions s + n"
  shows "queue_ok (s\<lparr>us_queue := (us_queue s)\<lparr>jq_entries := es, jq_dropped_in_a_row := n, jq_dropped := d\<rparr>\<rparr>)"
  using assms by (simp add: queue_ok_def entry_ok_def)

lemma entry_ok_dropped:
  "entry_ok s e \<Longrightarrow> en_state e = JQueued \<Longrightarrow> en_droppable e \<Longrightarrow> entry_ok s (dropped_entry e)"
  by (fastforce simp: entry_ok_def)

lemma queue_ok_Forget:
  assumes "queue_ok s"
  shows "queue_ok (s\<lparr>us_queue := jq_Forget (us_queue s) i\<rparr>)"
proof -
  let ?q = "us_queue s"
  have "queue_ok (s\<lparr>us_queue := ?q\<lparr>jq_entries := forget_first i (jq_entries ?q),
      jq_dropped_in_a_row := jq_dropped_in_a_row ?q, jq_dropped := jq_dropped ?q\<rparr>\<rparr>)"
    using assms set_forget_first [of i "jq_entries ?q"]
    by (intro queue_ok_entries) (auto simp: queue_ok_def sorted_forget_first)
  then show ?thesis by (simp add: jq_Forget_def)
qed

lemma queue_ok_change:
  assumes "queue_ok s" "\<And>e. en_id (f e) = en_id e"
    "\<And>e. e \<in> set (jq_entries (us_queue s)) \<Longrightarrow> en_id e = i \<Longrightarrow> entry_ok s (f e)"
    "n \<le> kMostDroppedInARow" "d \<le> us_submissions s + n"
  shows "queue_ok (s\<lparr>us_queue := (jq_change (us_queue s) i f)\<lparr>jq_dropped_in_a_row := n, jq_dropped := d\<rparr>\<rparr>)"
proof -
  let ?q = "us_queue s"
  have "queue_ok (s\<lparr>us_queue := ?q\<lparr>jq_entries := change_first i f (jq_entries ?q),
      jq_dropped_in_a_row := n, jq_dropped := d\<rparr>\<rparr>)"
  proof (rule queue_ok_entries [OF assms(1)])
    show "sorted_wrt (<) (map en_id (change_first i f (jq_entries ?q)))"
      using assms(1) by (simp add: change_first_ids [of f, OF assms(2)] queue_ok_def)
    show "\<forall>e\<in>set (change_first i f (jq_entries ?q)). entry_ok s e"
      using assms(1,3) in_change_first [of _ i f "jq_entries ?q"] unfolding queue_ok_def by blast
  qed (use assms in auto)
  then show ?thesis by (simp add: jq_change_def)
qed

lemma queue_ok_change_only:
  assumes "queue_ok s" "\<And>e. en_id (f e) = en_id e"
    "\<And>e. e \<in> set (jq_entries (us_queue s)) \<Longrightarrow> en_id e = i \<Longrightarrow> entry_ok s (f e)"
  shows "queue_ok (s\<lparr>us_queue := jq_change (us_queue s) i f\<rparr>)"
  using queue_ok_change [of s f i "jq_dropped_in_a_row (us_queue s)" "jq_dropped (us_queue s)"] assms
  by (simp add: jq_change_def queue_ok_def)

lemma queue_ok_Queue:
  assumes "queue_ok s" "jq_Queue (us_queue s) job droppable = (i, q)"
  shows "queue_ok (s\<lparr>us_queue := q, us_queued := us_queued s @ [(i, job)]\<rparr>)"
proof -
  let ?q = "us_queue s"
  obtain m es where d: "drop_superseded (jq_dropped_in_a_row ?q) (jq_entries ?q) = (m, es)" by fastforce
  define new where "new = \<lparr>en_id = jq_last_id ?q + 1, en_state = JQueued, en_droppable = droppable,
      en_job = Some job, en_result = (None :: 'b option), en_cancelled = False\<rparr>"
  have i: "i = jq_last_id ?q + 1" and q: "q = ?q\<lparr>jq_entries := es @ [new], jq_last_id := i,
      jq_dropped_in_a_row := m, jq_dropped := jq_dropped ?q + (m - jq_dropped_in_a_row ?q)\<rparr>"
    using assms(2) d by (auto simp: jq_Queue_def Let_def new_def)
  have row: "jq_dropped_in_a_row ?q \<le> kMostDroppedInARow" using assms(1) by (simp add: queue_ok_def)
  note spec = drop_superseded_spec [OF d row]
  have old: "entry_ok s e" if "e \<in> set es" for e
    using spec that assms(1) entry_ok_dropped [of s] by (auto simp: queue_ok_def)
  define t where "t = s\<lparr>us_queue := q, us_queued := us_queued s @ [(i, job)]\<rparr>"
  have "entry_ok t e" if "e \<in> set es" for e
    using old [OF that] by (auto simp: entry_ok_def t_def q i)
  moreover have "entry_ok t new" using assms(1)
    by (auto simp: entry_ok_def t_def q i new_def queue_ok_def dest!: bspec subsetD)
  moreover have "sorted_wrt (<) (map en_id (es @ [new]))"
    using spec assms(1) old by (auto simp: queue_ok_def sorted_wrt_append new_def entry_ok_def less_Suc_eq_le)
  ultimately show ?thesis
    using assms(1) spec unfolding t_def [symmetric]
    by (auto simp: queue_ok_def t_def q i)
qed

lemma queue_ok_take:
  assumes "queue_ok s" "take_first (jq_entries (us_queue s)) = Some (t, es)" "\<not> jq_stopped (us_queue s)"
  shows "queue_ok (s\<lparr>us_queue := (us_queue s)\<lparr>jq_entries := es\<rparr>, us_taken := us_taken s @ [t]\<rparr>)"
    (is "queue_ok ?s")
proof -
  obtain xs e ys where x: "jq_entries (us_queue s) = xs @ e # ys" "\<forall>x\<in>set xs. en_state x \<noteq> JQueued"
    "en_state e = JQueued" "t = (en_id e, the (en_job e))"
    "es = xs @ e\<lparr>en_state := JSubmitting, en_job := None\<rparr> # ys"
    using take_first_spec [OF assms(2)] by blast
  have srt: "sorted_wrt (<) (map en_id (xs @ e # ys))" and
    ok: "\<And>d. d \<in> set (xs @ e # ys) \<Longrightarrow> entry_ok s d"
    using assms(1) by (auto simp: queue_ok_def x(1))
  have e: "entry_ok s e" using ok by simp
  have "entry_ok ?s d" if "d \<in> set xs" for d
    using ok [of d] x(2) srt that by (auto simp: entry_ok_def x(4) sorted_wrt_append)
  moreover have "entry_ok ?s d" if "d \<in> set ys" for d
    using ok [of d] srt that by (auto simp: entry_ok_def x(4) sorted_wrt_append)
  moreover have "entry_ok ?s (e\<lparr>en_state := JSubmitting, en_job := None\<rparr>)"
    using e by (auto simp: entry_ok_def x(4))
  moreover have "sorted_wrt (<) (map fst (us_taken s @ [t]))" "t \<in> set (us_queued s)"
    using e assms(1,3) x(3) by (auto simp: entry_ok_def x(4) queue_ok_def sorted_wrt_append)
  ultimately show ?thesis using assms(1) srt by (auto simp: queue_ok_def x(5))
qed

lemma queue_ok_Done:
  assumes "queue_ok s" "i \<in> fst ` set (us_taken s)"
  shows "queue_ok (s\<lparr>us_queue := jq_Done (us_queue s) i submitted result,
      us_done := us_done s @ [(i, submitted, result)],
      us_submissions := us_submissions s + (if submitted then 1 else 0)\<rparr>)"
proof -
  define n where "n = (if submitted then 0 else jq_dropped_in_a_row (us_queue s))"
  define s1 where "s1 = s\<lparr>us_done := us_done s @ [(i, submitted, result)],
      us_submissions := us_submissions s + (if submitted then 1 else 0)\<rparr>"
  define q1 where "q1 = (if submitted then (us_queue s)\<lparr>jq_dropped_in_a_row := 0\<rparr> else us_queue s)"
  have same: "jq_entries q1 = jq_entries (us_queue s)" by (simp add: q1_def)
  have "queue_ok s1" using assms(1) by (auto simp: queue_ok_def entry_ok_def s1_def)
  have same1: "s1\<lparr>us_queue := us_queue s\<rparr> = s1" by (simp add: s1_def)
  have ok1: "queue_ok (s1\<lparr>us_queue := q1\<rparr>)"
    using assms(1) by (auto simp: queue_ok_def entry_ok_def s1_def q1_def kMostDroppedInARow_def)
  let ?f = "\<lambda>e. e\<lparr>en_state := (if submitted then JSubmitted else JRefused), en_result := result\<rparr>"
  have chg: "queue_ok (s1\<lparr>us_queue := jq_change q1 i ?f\<rparr>)"
  proof -
    have "entry_ok (s1\<lparr>us_queue := q1\<rparr>) (?f e)" if "e \<in> set (jq_entries q1)" "en_id e = i" for e
    proof -
      have "entry_ok (s1\<lparr>us_queue := q1\<rparr>) e" using ok1 that(1) by (simp add: queue_ok_def)
      then show ?thesis using that(2) by (cases submitted) (simp_all add: entry_ok_def s1_def)
    qed
    then show ?thesis using queue_ok_change_only [OF ok1, of ?f i] by simp
  qed
  have fgt: "queue_ok (s1\<lparr>us_queue := jq_Forget q1 i\<rparr>)"
    using queue_ok_Forget [OF ok1, of i] by simp
  have "jq_Done (us_queue s) i submitted result \<in> {us_queue s, jq_change q1 i ?f, jq_Forget q1 i}"
    unfolding jq_Done_def q1_def [symmetric] Let_def by (simp split: option.split)
  then have "queue_ok (s1\<lparr>us_queue := jq_Done (us_queue s) i submitted result\<rparr>)"
    using \<open>queue_ok s1\<close> chg fgt by (auto simp only: insert_iff empty_iff same1)
  moreover have "s1\<lparr>us_queue := q\<rparr> = s\<lparr>us_queue := q,
      us_done := us_done s @ [(i, submitted, result)],
      us_submissions := us_submissions s + (if submitted then 1 else 0)\<rparr>" for q
    by (simp add: s1_def)
  ultimately show ?thesis by (simp only:)
qed

lemma queue_ok_Resolve:
  assumes "queue_ok s" "jq_Resolve (us_queue s) i wait = Some (out, q)"
  shows "queue_ok (s\<lparr>us_queue := q\<rparr>)"
proof (cases "jq_Find (us_queue s) i")
  case None
  then show ?thesis using assms by (auto simp: jq_Resolve_def)
next
  case (Some e)
  have e: "e \<in> set (jq_entries (us_queue s))" "en_id e = i" using jq_Find_in [OF Some] by auto
  let ?n = "jq_dropped_in_a_row (us_queue s)"
  let ?q = "(jq_change (us_queue s) i dropped_entry)\<lparr>jq_dropped_in_a_row := ?n + 1,
    jq_dropped := jq_dropped (us_queue s) + 1\<rparr>"
  have drp: "queue_ok (s\<lparr>us_queue := ?q\<rparr>)"
    if "en_state e = JQueued" "en_droppable e" "?n < kMostDroppedInARow"
  proof (rule queue_ok_change [OF assms(1)])
    fix d
    assume "d \<in> set (jq_entries (us_queue s))" "en_id d = i"
    then have "d = e" using sorted_ids_eq [of "jq_entries (us_queue s)" d e] assms(1) e
      by (simp add: queue_ok_def)
    then show "entry_ok s (dropped_entry d)"
      using that assms(1) e by (intro entry_ok_dropped) (auto simp: queue_ok_def)
  qed (use assms(1) that in \<open>auto simp: queue_ok_def\<close>)
  have "q = jq_Forget (us_queue s) i \<or>
      q = jq_Forget ?q i \<and> en_state e = JQueued \<and> en_droppable e \<and> ?n < kMostDroppedInARow"
    using assms(2) Some by (auto simp: jq_Resolve_def Let_def split: if_splits)
  then show ?thesis
    using queue_ok_Forget [OF assms(1), of i] queue_ok_Forget [OF drp, of i] by auto
qed

lemma queue_ok_Cancel:
  assumes "queue_ok s"
  shows "queue_ok (s\<lparr>us_queue := jq_Cancel (us_queue s) i\<rparr>)"
proof -
  have "queue_ok (s\<lparr>us_queue := jq_change (us_queue s) i (\<lambda>e. e\<lparr>en_cancelled := True\<rparr>)\<rparr>)"
    using assms by (intro queue_ok_change_only) (auto simp: queue_ok_def entry_ok_def)
  then show ?thesis using assms queue_ok_Forget [OF assms, of i]
    by (auto simp: jq_Cancel_def split: option.splits)
qed

lemma queue_ok_Stop:
  assumes "queue_ok s"
  shows "queue_ok (s\<lparr>us_queue := jq_Stop (us_queue s)\<rparr>)"
proof -
  define f :: "('a, 'b) entry \<Rightarrow> ('a, 'b) entry" where
    "f e = (if en_state e = JQueued then e\<lparr>en_job := None\<rparr> else e)" for e
  have q: "jq_Stop (us_queue s) = (us_queue s)\<lparr>jq_entries := map f (jq_entries (us_queue s)), jq_stopped := True\<rparr>"
    by (simp add: jq_Stop_def f_def)
  have "en_id (f e) = en_id e" for e by (simp add: f_def)
  then have "map en_id (map f es) = map en_id es" for es by simp
  moreover have "entry_ok (s\<lparr>us_queue := jq_Stop (us_queue s)\<rparr>) (f e)" if "entry_ok s e" for e
    using that by (auto simp: q entry_ok_def f_def)
  ultimately show ?thesis using assms unfolding queue_ok_def q
    by (simp del: map_map sorted_wrt_map)
qed

lemma TakeLocked_Some:
  "TakeLocked q = (Some t, q') \<Longrightarrow>
   \<exists>es. take_first (jq_entries q) = Some (t, es) \<and> q' = q\<lparr>jq_entries := es\<rparr>"
  by (auto simp: TakeLocked_def split: option.splits prod.splits)

lemma jq_Take_Some:
  "jq_Take q = Some (Some t, q') \<Longrightarrow> \<not> jq_stopped q \<and> TakeLocked q = (Some t, q')"
  by (auto simp: jq_Take_def split: if_splits option.splits prod.splits)

lemma TryTake_Some: "TryTake q = (Some t, q') \<Longrightarrow> \<not> jq_stopped q \<and> TakeLocked q = (Some t, q')"
  by (auto simp: TryTake_def split: if_splits)

lemma queue_ok_taken:
  "queue_ok s \<Longrightarrow> \<not> jq_stopped (us_queue s) \<Longrightarrow> TakeLocked (us_queue s) = (Some t, q) \<Longrightarrow>
   queue_ok (s\<lparr>us_queue := q, us_taken := us_taken s @ [t]\<rparr>)"
  using TakeLocked_Some queue_ok_take by blast

lemma jq_step_ok: "jq_step s t \<Longrightarrow> queue_ok s \<Longrightarrow> queue_ok t"
proof (induction rule: jq_step.induct)
  case (queue s job droppable i q)
  then show ?case by (rule queue_ok_Queue [rotated])
next
  case (take s t q)
  then show ?case using jq_Take_Some queue_ok_taken by blast
next
  case (try_take s t q)
  then show ?case using TryTake_Some queue_ok_taken by blast
next
  case (worked i s submitted result)
  then show ?case by (intro queue_ok_Done)
next
  case (resolve s i wait out q)
  then show ?case by (rule queue_ok_Resolve [rotated])
qed (simp_all add: queue_ok_Cancel queue_ok_Stop)

lemma jq_reach_ok: "jq_reach s \<Longrightarrow> queue_ok s"
  by (induction rule: jq_reach.induct) (auto intro: queue_ok_init jq_step_ok)

lemma Forget_gone: "sorted_wrt (<) (map en_id (jq_entries q)) \<Longrightarrow> jq_Find (jq_Forget q i) i = None"
  using forget_first_gone [of "jq_entries q" i] by (auto simp: jq_Find_def jq_Forget_def find_None_iff)

lemma jq_Resolve_cases:
  "jq_Resolve q i wait = Some (out, q') \<Longrightarrow>
   oc_state out = JCancelled \<and> (q' = q \<and> jq_Find q i = None \<or> q' = jq_Forget q i) \<or>
   (\<exists>e. jq_Find q i = Some e \<and>
     (out = \<lparr>oc_state = en_state e, oc_result = en_result e\<rparr> \<and> q' = jq_Forget q i \<or>
      oc_state out = JDropped \<and> en_state e = JQueued \<and> en_droppable e \<and>
      (\<exists>n d. q' = jq_Forget ((jq_change q i dropped_entry)\<lparr>jq_dropped_in_a_row := n, jq_dropped := d\<rparr>) i)))"
  by (auto simp: jq_Resolve_def Let_def split: option.splits if_splits)

lemma queued_not_taken:
  "entry_ok s e \<Longrightarrow> en_state e = JQueued \<Longrightarrow> en_id e \<notin> fst ` set (us_taken s)"
  unfolding entry_ok_def by (metis imageE less_irrefl)

subsection \<open>Properties\<close>

text \<open>C18: the worker takes jobs in the order they were queued, each at most once and each with
  the work it was queued with, whatever is dropped, cancelled or resolved meanwhile.\<close>

theorem jobs_taken_in_order:
  assumes "jq_reach s"
  shows "sorted_wrt (<) (map fst (us_taken s)) \<and> set (us_taken s) \<subseteq> set (us_queued s)"
  using jq_reach_ok [OF assms] by (simp add: queue_ok_def)

text \<open>never two drops in a row. Over any run the jobs dropped are at most one more than the
  submissions to the engine: a stream of jobs that each arrive too late still moves.\<close>

theorem drops_bounded:
  assumes "jq_reach s"
  shows "jq_dropped_in_a_row (us_queue s) \<le> 1 \<and> jq_dropped (us_queue s) \<le> us_submissions s + 1"
  using jq_reach_ok [OF assms] by (auto simp: queue_ok_def kMostDroppedInARow_def)

text \<open>C38: an outcome tells the truth and is told once. A job resolved as submitted or refused
  was said so by the worker, with that result; one resolved as dropped the worker never had;
  and after any outcome the queue has forgotten the job.\<close>

theorem Resolve_honest:
  assumes "jq_reach s" "jq_Resolve (us_queue s) i wait = Some (out, q)"
  shows "(oc_state out = JSubmitted \<longrightarrow> (i, True, oc_result out) \<in> set (us_done s)) \<and>
    (oc_state out = JRefused \<longrightarrow> (i, False, oc_result out) \<in> set (us_done s)) \<and>
    (oc_state out = JDropped \<longrightarrow> i \<notin> fst ` set (us_taken s)) \<and>
    oc_state out \<noteq> JQueued \<and> jq_Find q i = None"
proof -
  have ok: "queue_ok s" by (rule jq_reach_ok [OF assms(1)])
  then have srt: "sorted_wrt (<) (map en_id (jq_entries (us_queue s)))" by (simp add: queue_ok_def)
  have out: "oc_state out \<noteq> JQueued"
    using assms(2) by (auto simp: jq_Resolve_def Let_def split: option.splits if_splits)
  have "en_id (dropped_entry e) = en_id e" for e :: "('a, 'b) entry" by simp
  then have srt': "sorted_wrt (<) (map en_id (jq_entries
      ((jq_change (us_queue s) i dropped_entry)\<lparr>jq_dropped_in_a_row := n, jq_dropped := d\<rparr>)))" for n d
    using srt by (simp add: jq_change_def change_first_ids [of dropped_entry])
  have fnd: "e \<in> set (jq_entries (us_queue s)) \<and> en_id e = i \<and> entry_ok s e"
    if "jq_Find (us_queue s) i = Some e" for e
    using jq_Find_in [OF that] ok by (simp add: queue_ok_def)
  have gone: "jq_Find q i = None"
    using jq_Resolve_cases [OF assms(2)] Forget_gone [OF srt] Forget_gone [OF srt'] by auto
  consider "oc_state out = JCancelled"
    | e where "jq_Find (us_queue s) i = Some e" "out = \<lparr>oc_state = en_state e, oc_result = en_result e\<rparr>"
    | e where "jq_Find (us_queue s) i = Some e" "oc_state out = JDropped" "en_state e = JQueued"
    using jq_Resolve_cases [OF assms(2)] by blast
  then show ?thesis
  proof cases
    case (2 e)
    then show ?thesis using fnd [OF 2(1)] out gone by (auto simp: entry_ok_def)
  next
    case (3 e)
    have "i \<notin> fst ` set (us_taken s)" using fnd [OF 3(1)] queued_not_taken [OF _ 3(3)] by blast
    then show ?thesis using 3(2) gone by simp
  qed (use gone in simp)
qed

text \<open>when a frame waits for its job. \<open>Resolve\<close> waits exactly for a job the worker has, and
  for one still queued that must be drawn, because the frame asks to wait, or the job may not be
  dropped, or one was dropped just before -- and for none once the queue is stopped.\<close>

theorem Resolve_waits_iff:
  "jq_Resolve q i wait = None \<longleftrightarrow> \<not> jq_stopped q \<and> (\<exists>e. jq_Find q i = Some e \<and>
     (en_state e = JSubmitting \<or>
      en_state e = JQueued \<and> (wait \<or> \<not> en_droppable e \<or> kMostDroppedInARow \<le> jq_dropped_in_a_row q)))"
  by (auto simp: jq_Resolve_def Let_def jq_change_def split: option.splits)

lemma Resolve_waits_iff_witness:
  "jq_Resolve (jq_init :: (nat, nat) job_queue) 1 True \<noteq> None"
  using Resolve_waits_iff [of "jq_init :: (nat, nat) job_queue" 1 True]
  by (simp add: jq_init_def jq_Find_def)

text \<open>Three droppable jobs queued: the first is superseded and dropped, the second is not, a
  drop having just gone before it; the worker takes it and it is submitted.\<close>

definition demo_use0 :: "(nat, nat) use" where
  "demo_use0 = us_init"

definition demo_use1 :: "(nat, nat) use" where
  "demo_use1 = demo_use0\<lparr>us_queue := snd (jq_Queue (us_queue demo_use0) 10 True),
     us_queued := us_queued demo_use0 @ [(1, 10)]\<rparr>"

definition demo_use2 :: "(nat, nat) use" where
  "demo_use2 = demo_use1\<lparr>us_queue := snd (jq_Queue (us_queue demo_use1) 11 True),
     us_queued := us_queued demo_use1 @ [(2, 11)]\<rparr>"

definition demo_use3 :: "(nat, nat) use" where
  "demo_use3 = demo_use2\<lparr>us_queue := snd (jq_Queue (us_queue demo_use2) 12 True),
     us_queued := us_queued demo_use2 @ [(3, 12)]\<rparr>"

definition demo_use4 :: "(nat, nat) use" where
  "demo_use4 = demo_use3\<lparr>us_queue := snd (TryTake (us_queue demo_use3)),
     us_taken := us_taken demo_use3 @ [(2, 11)]\<rparr>"

definition demo_use :: "(nat, nat) use" where
  "demo_use = demo_use4\<lparr>us_queue := jq_Done (us_queue demo_use4) 2 True (Some 7),
     us_done := us_done demo_use4 @ [(2, True, Some 7)],
     us_submissions := us_submissions demo_use4 + (if True then 1 else 0)\<rparr>"

lemma demo_use_reached: "jq_reach demo_use"
proof -
  have r: "jq_reach demo_use0" unfolding demo_use0_def by (rule jq_reach.start)
  have r: "jq_reach demo_use1"
    by (rule jq_reach.more [OF r]) (unfold demo_use1_def, rule queue, code_simp)
  have r: "jq_reach demo_use2"
    by (rule jq_reach.more [OF r]) (unfold demo_use2_def, rule queue, code_simp)
  have r: "jq_reach demo_use3"
    by (rule jq_reach.more [OF r]) (unfold demo_use3_def, rule queue, code_simp)
  have r: "jq_reach demo_use4"
    by (rule jq_reach.more [OF r]) (unfold demo_use4_def, rule try_take, code_simp)
  show ?thesis
    by (rule jq_reach.more [OF r]) (unfold demo_use_def, rule worked, code_simp)
qed

theorem jobs_taken_in_order_witness: "map fst (us_taken demo_use) = [2] \<and> (2, 11) \<in> set (us_queued demo_use)"
proof -
  have "us_taken demo_use = [(2, 11)]" by code_simp
  then show ?thesis using jobs_taken_in_order [OF demo_use_reached] by simp
qed

theorem drops_bounded_witness:
  "jq_dropped (us_queue demo_use) \<le> us_submissions demo_use + 1"
  using drops_bounded [OF demo_use_reached] by simp

theorem Resolve_honest_witness: "(2, True, Some 7) \<in> set (us_done demo_use)"
proof -
  have "jq_Resolve (us_queue demo_use) 2 False =
      Some (\<lparr>oc_state = JSubmitted, oc_result = Some 7\<rparr>, jq_Forget (us_queue demo_use) 2)"
    by code_simp
  from Resolve_honest [OF demo_use_reached this] show ?thesis by simp
qed

end
