(* ===== verification/Controllers.thy ===== *)
theory Controllers
  imports Prelude
begin

text \<open>
  The controllers with a thread of their own: compositor/HdcpController, FlatteningController
  and GarbageCollector. Each method holds the controller's mutex, and so does each stretch of
  its thread between two waits; those are the steps. Times are in milliseconds on the clock the
  code reads, an argument of the steps; callbacks are the outputs of a step.
\<close>

subsection \<open>HDCP\<close>

datatype hdcp_state = HUndesired | HDesired | HRequested | HEnabled | HRetry | HThreadExit

datatype content_type = kType0 | kType1

datatype hdcp_call = Notify "content_type option" | TriggerRetryFrame

record hdcp =
  hc_state :: hdcp_state
  hc_was_retry :: bool
  hc_sleep_until :: int
  hc_timeout :: int

definition hc_init :: "int \<Rightarrow> hdcp" where
  "hc_init timeout = \<lparr>hc_state = HUndesired, hc_was_retry = False, hc_sleep_until = 0, hc_timeout = timeout\<rparr>"

definition hc_Start :: "hdcp \<Rightarrow> hdcp" where
  "hc_Start h = (if hc_state h \<noteq> HRetry then h\<lparr>hc_state := HDesired\<rparr> else h)"

definition hc_Requested :: "int \<Rightarrow> hdcp \<Rightarrow> hdcp" where
  "hc_Requested now h =
     (if hc_state h = HEnabled \<or> hc_state h = HUndesired then h
      else h\<lparr>hc_was_retry := (hc_state h = HRetry), hc_state := HRequested,
             hc_sleep_until := now + hc_timeout h\<rparr>)"

definition SetContentProtectionStatus :: "bool \<Rightarrow> hdcp \<Rightarrow> hdcp \<times> hdcp_call list" where
  "SetContentProtectionStatus cp_enabled h =
     (if hc_state h = HRequested then
        if cp_enabled then
          (h\<lparr>hc_state := HEnabled, hc_was_retry := False\<rparr>,
           [Notify (Some (if hc_was_retry h then kType0 else kType1))])
        else if hc_was_retry h then
          (h\<lparr>hc_was_retry := False, hc_state := HUndesired\<rparr>, [Notify None])
        else (h\<lparr>hc_state := HRetry\<rparr>, [TriggerRetryFrame])
      else (h, []))"

definition hc_Terminate :: "hdcp \<Rightarrow> hdcp \<times> hdcp_call list" where
  "hc_Terminate h = (h\<lparr>hc_state := HUndesired\<rparr>, [Notify None])"

text \<open>The thread: what it does with the mutex held, and after a timed wait.\<close>

datatype hdcp_wait = HExit | HFire | HWaitUntil int | HWaitForever

definition hc_round :: "int \<Rightarrow> hdcp \<Rightarrow> hdcp_wait" where
  "hc_round now h =
     (if hc_state h = HThreadExit then HExit
      else if hc_state h = HRequested then
        if hc_sleep_until h \<le> now then HFire else HWaitUntil (min (hc_sleep_until h) (now + 1000))
      else HWaitForever)"

definition hc_early_check :: "bool \<Rightarrow> bool \<Rightarrow> hdcp \<Rightarrow> hdcp \<times> hdcp_call list" where
  "hc_early_check cp_first cp_again h =
     (if hc_state h = HRequested \<and> cp_first then SetContentProtectionStatus cp_again h else (h, []))"

text \<open>The controller in use, with the calls it made and how many times its protection was
  asked for.\<close>

record hdcp_use =
  hu_ctl :: hdcp
  hu_calls :: "hdcp_call list"
  hu_starts :: nat

inductive hdcp_step :: "hdcp_use \<Rightarrow> hdcp_use \<Rightarrow> bool" where
  started: "hdcp_step s (s\<lparr>hu_ctl := hc_Start (hu_ctl s), hu_starts := hu_starts s + 1\<rparr>)"
| requested: "hc_state (hu_ctl s) = HDesired \<or> hc_state (hu_ctl s) = HRetry \<Longrightarrow>
    hdcp_step s (s\<lparr>hu_ctl := hc_Requested now (hu_ctl s)\<rparr>)"
| terminated: "hc_Terminate (hu_ctl s) = (h, calls) \<Longrightarrow>
    hdcp_step s (s\<lparr>hu_ctl := h, hu_calls := hu_calls s @ calls\<rparr>)"
| fired: "hc_round now (hu_ctl s) = HFire \<Longrightarrow> SetContentProtectionStatus cp (hu_ctl s) = (h, calls) \<Longrightarrow>
    hdcp_step s (s\<lparr>hu_ctl := h, hu_calls := hu_calls s @ calls\<rparr>)"
| checked: "hc_early_check cp cp' (hu_ctl s) = (h, calls) \<Longrightarrow>
    hdcp_step s (s\<lparr>hu_ctl := h, hu_calls := hu_calls s @ calls\<rparr>)"

inductive hdcp_reach :: "hdcp_use \<Rightarrow> bool" where
  start: "hdcp_reach \<lparr>hu_ctl = hc_init timeout, hu_calls = [], hu_starts = 0\<rparr>"
| more: "hdcp_reach s \<Longrightarrow> hdcp_step s t \<Longrightarrow> hdcp_reach t"

text \<open>Every frame asked for to retry is paid for by a start: a start allows one retry, used up
  when the retry frame is asked for.\<close>

definition retries :: "hdcp_call list \<Rightarrow> nat" where
  "retries calls = length (filter (\<lambda>c. c = TriggerRetryFrame) calls)"

definition retry_credit :: "hdcp \<Rightarrow> nat" where
  "retry_credit h = (if hc_state h = HDesired \<or> hc_state h = HRequested \<and> \<not> hc_was_retry h then 1 else 0)"

lemma retries_simps [simp]:
  "retries [] = 0" "retries (as @ bs) = retries as + retries bs"
  "retries [Notify c] = 0" "retries [TriggerRetryFrame] = 1"
  by (simp_all add: retries_def)

lemma hdcp_step_credit:
  "hdcp_step s t \<Longrightarrow> retries (hu_calls s) + retry_credit (hu_ctl s) \<le> hu_starts s \<Longrightarrow>
   retries (hu_calls t) + retry_credit (hu_ctl t) \<le> hu_starts t"
  by (induction rule: hdcp_step.induct)
    (auto simp: hc_Start_def hc_Requested_def hc_Terminate_def SetContentProtectionStatus_def
      hc_early_check_def retry_credit_def split: if_splits)

lemma hdcp_reach_credit:
  "hdcp_reach s \<Longrightarrow> retries (hu_calls s) + retry_credit (hu_ctl s) \<le> hu_starts s"
proof (induction rule: hdcp_reach.induct)
  case (more s t)
  then show ?case using hdcp_step_credit by blast
qed (simp add: retry_credit_def hc_init_def)

subsection \<open>Flattening\<close>

datatype flat_state = FDisabled | FActive | FTriggeredCallback | FFlattened | FExitThread

text \<open>The states pushed to the statistics are the outputs of \<open>SetState\<close>.\<close>

record flat =
  fl_state :: flat_state
  fl_sleep_until :: int
  fl_timeout :: int
  fl_atoms :: "flat_state list"

definition fl_init :: "int \<Rightarrow> flat" where
  "fl_init timeout = \<lparr>fl_state = FDisabled, fl_sleep_until = 0, fl_timeout = timeout, fl_atoms = []\<rparr>"

definition SetState :: "flat_state \<Rightarrow> flat \<Rightarrow> flat" where
  "SetState st f = (if fl_state f \<noteq> st
     then f\<lparr>fl_state := st, fl_atoms := fl_atoms f @
            (if st = FDisabled \<or> st = FActive \<or> st = FFlattened then [st] else [])\<rparr>
     else f)"

definition DisableFlattening :: "flat \<Rightarrow> flat" where
  "DisableFlattening f = SetState FDisabled f"

definition NewFrame :: "int \<Rightarrow> flat \<Rightarrow> flat" where
  "NewFrame now f = (if fl_state f = FTriggeredCallback then SetState FFlattened f
     else SetState FActive (f\<lparr>fl_sleep_until := now + fl_timeout f\<rparr>))"

definition SettledFrame :: "flat \<Rightarrow> flat" where
  "SettledFrame f = (if fl_state f = FDisabled \<or> fl_state f = FExitThread then f else SetState FFlattened f)"

definition ShouldFlatten :: "flat \<Rightarrow> bool" where
  "ShouldFlatten f \<longleftrightarrow> fl_state f = FTriggeredCallback \<or> fl_state f = FFlattened"

definition StopThread :: "flat \<Rightarrow> flat" where
  "StopThread f = SetState FExitThread f"

datatype flat_wait = FExit | FTrigger | FWait | FWaitUntil int

definition fl_round :: "int \<Rightarrow> flat \<Rightarrow> flat_wait \<times> flat" where
  "fl_round now f =
     (if fl_state f = FExitThread then (FExit, f)
      else if fl_sleep_until f \<le> now \<and> fl_state f = FActive then (FTrigger, SetState FTriggeredCallback f)
      else if fl_state f \<noteq> FActive then (FWait, f)
      else (FWaitUntil (fl_sleep_until f), f))"

text \<open>The controller in use: when its last new frame came, how many frames there were and how
  many times it called for a refresh, each with its time.\<close>

record flat_use =
  fu_ctl :: flat
  fu_frames :: "int list"
  fu_triggers :: "int list"
  fu_now :: int

inductive flat_step :: "flat_use \<Rightarrow> flat_use \<Rightarrow> bool" where
  tick: "fu_now s \<le> now \<Longrightarrow> flat_step s (s\<lparr>fu_now := now\<rparr>)"
| frame: "fl_state (fu_ctl s) \<noteq> FExitThread \<Longrightarrow>
    flat_step s (s\<lparr>fu_ctl := NewFrame (fu_now s) (fu_ctl s), fu_frames := fu_frames s @ [fu_now s]\<rparr>)"
| settled: "flat_step s (s\<lparr>fu_ctl := SettledFrame (fu_ctl s)\<rparr>)"
| disabled: "fl_state (fu_ctl s) \<noteq> FExitThread \<Longrightarrow>
    flat_step s (s\<lparr>fu_ctl := DisableFlattening (fu_ctl s)\<rparr>)"
| stopped: "flat_step s (s\<lparr>fu_ctl := StopThread (fu_ctl s)\<rparr>)"
| round: "fl_round (fu_now s) (fu_ctl s) = (w, f) \<Longrightarrow>
    flat_step s (s\<lparr>fu_ctl := f,
      fu_triggers := fu_triggers s @ (if w = FTrigger then [fu_now s] else [])\<rparr>)"

inductive flat_reach :: "int \<Rightarrow> flat_use \<Rightarrow> bool" for timeout where
  start: "flat_reach timeout \<lparr>fu_ctl = fl_init timeout, fu_frames = [], fu_triggers = [], fu_now = now\<rparr>"
| more: "flat_reach timeout s \<Longrightarrow> flat_step s t \<Longrightarrow> flat_reach timeout t"

definition flat_inv :: "int \<Rightarrow> flat_use \<Rightarrow> bool" where
  "flat_inv timeout s \<longleftrightarrow> fl_timeout (fu_ctl s) = timeout \<and>
     length (fu_triggers s) + (if fl_state (fu_ctl s) = FActive then 1 else 0) \<le> length (fu_frames s) \<and>
     (fl_state (fu_ctl s) = FActive \<longrightarrow> fu_frames s \<noteq> [] \<and> fl_sleep_until (fu_ctl s) = last (fu_frames s) + timeout) \<and>
     (\<forall>t\<in>set (fu_triggers s). \<exists>f\<in>set (fu_frames s). f + timeout \<le> t)"

lemma flat_step_inv: "flat_step s t \<Longrightarrow> flat_inv timeout s \<Longrightarrow> flat_inv timeout t"
proof (induction rule: flat_step.induct)
  case (round s w f)
  then show ?case
    by (auto simp: fl_round_def flat_inv_def SetState_def split: if_splits
        intro!: bexI [of _ "last (fu_frames s)"])
qed (auto simp: flat_inv_def NewFrame_def SettledFrame_def DisableFlattening_def StopThread_def
    SetState_def)

lemma flat_reach_inv: "flat_reach timeout s \<Longrightarrow> flat_inv timeout s"
proof (induction rule: flat_reach.induct)
  case (more s t)
  then show ?case using flat_step_inv by blast
qed (simp add: flat_inv_def fl_init_def)

subsection \<open>The garbage collector\<close>

text \<open>A job is a value of any type; what it closes is outside the program. \<open>gc_ran\<close> lists the
  jobs run, in order.\<close>

record 'j collector =
  gc_jobs :: "'j list"
  gc_running :: "'j option"
  gc_stopping :: bool
  gc_started :: bool
  gc_ended :: bool
  gc_ran :: "'j list"

definition gc_init :: "'j collector" where
  "gc_init = \<lparr>gc_jobs = [], gc_running = None, gc_stopping = False, gc_started = False,
     gc_ended = False, gc_ran = []\<rparr>"

definition gc_Post :: "'j \<Rightarrow> 'j collector \<Rightarrow> 'j collector" where
  "gc_Post job g = g\<lparr>gc_jobs := gc_jobs g @ [job], gc_started := True\<rparr>"

definition gc_Close :: "int \<Rightarrow> int collector \<Rightarrow> int collector" where
  "gc_Close fd g = (if fd < 0 then g else gc_Post fd g)"

definition gc_stop :: "'j collector \<Rightarrow> 'j collector" where
  "gc_stop g = g\<lparr>gc_stopping := True\<rparr>"

text \<open>One turn of the thread's loop, as far as it goes under the mutex: \<open>None\<close> where it waits.
  A job taken runs without the mutex, and ends in \<open>gc_finish\<close>.\<close>

definition gc_loop :: "'j collector \<Rightarrow> 'j collector option" where
  "gc_loop g = (if \<not> gc_started g \<or> gc_ended g \<or> gc_running g \<noteq> None then None
     else if \<not> (gc_stopping g \<or> gc_jobs g \<noteq> []) then None
     else if gc_jobs g = [] then Some (g\<lparr>gc_ended := True\<rparr>)
     else Some (g\<lparr>gc_running := Some (hd (gc_jobs g)), gc_jobs := tl (gc_jobs g)\<rparr>))"

definition gc_finish :: "'j collector \<Rightarrow> 'j collector option" where
  "gc_finish g = (case gc_running g of None \<Rightarrow> None
     | Some j \<Rightarrow> Some (g\<lparr>gc_running := None, gc_ran := gc_ran g @ [j]\<rparr>))"

definition gc_idle :: "'j collector \<Rightarrow> bool" where
  "gc_idle g \<longleftrightarrow> gc_jobs g = [] \<and> gc_running g = None"

definition gc_pending :: "'j collector \<Rightarrow> nat" where
  "gc_pending g = length (gc_jobs g) + (if gc_running g \<noteq> None then 1 else 0)"

inductive gc_reach :: "'j collector \<Rightarrow> 'j list \<Rightarrow> bool" where
  start: "gc_reach gc_init []"
| post: "gc_reach g posted \<Longrightarrow> \<not> gc_stopping g \<Longrightarrow> gc_reach (gc_Post j g) (posted @ [j])"
| stop: "gc_reach g posted \<Longrightarrow> gc_reach (gc_stop g) posted"
| turn: "gc_reach g posted \<Longrightarrow> gc_loop g = Some h \<Longrightarrow> gc_reach h posted"
| finish: "gc_reach g posted \<Longrightarrow> gc_finish g = Some h \<Longrightarrow> gc_reach h posted"

definition gc_inv :: "'j collector \<Rightarrow> 'j list \<Rightarrow> bool" where
  "gc_inv g posted \<longleftrightarrow>
     posted = gc_ran g @ (case gc_running g of None \<Rightarrow> [] | Some j \<Rightarrow> [j]) @ gc_jobs g \<and>
     (gc_ended g \<longrightarrow> gc_stopping g \<and> gc_idle g) \<and> (\<not> gc_started g \<longrightarrow> posted = [])"

lemma gc_reach_inv: "gc_reach g posted \<Longrightarrow> gc_inv g posted"
  by (induction rule: gc_reach.induct)
    (auto simp: gc_inv_def gc_init_def gc_Post_def gc_stop_def gc_loop_def gc_finish_def gc_idle_def
      split: if_splits option.splits)

subsection \<open>Properties\<close>

text \<open>HDCP falls back once. However starts, commits, terminations, time-outs and early
  checks follow one another, frames to retry are asked for at most once per start.\<close>

theorem hdcp_retries_bounded:
  assumes "hdcp_reach s"
  shows "retries (hu_calls s) \<le> hu_starts s"
  using hdcp_reach_credit [OF assms] by simp

lemma demo_hdcp_reach:
  "hdcp_reach \<lparr>hu_ctl = \<lparr>hc_state = HRetry, hc_was_retry = False, hc_sleep_until = 5000, hc_timeout = 5000\<rparr>,
     hu_calls = [TriggerRetryFrame], hu_starts = 1\<rparr>"
proof -
  have r: "hdcp_reach \<lparr>hu_ctl = hc_init 5000, hu_calls = [], hu_starts = 0\<rparr>" by (rule hdcp_reach.start)
  have r: "hdcp_reach \<lparr>hu_ctl = hc_Start (hc_init 5000), hu_calls = [], hu_starts = 1\<rparr>"
    using hdcp_reach.more [OF r started] by simp
  have r: "hdcp_reach \<lparr>hu_ctl = hc_Requested 0 (hc_Start (hc_init 5000)), hu_calls = [], hu_starts = 1\<rparr>"
    using hdcp_reach.more [OF r requested [of _ 0]] by (simp add: hc_Start_def hc_init_def)
  show ?thesis
    using hdcp_reach.more [OF r fired [of 5000 _ False]]
    by (simp add: hc_round_def hc_Requested_def hc_Start_def hc_init_def SetContentProtectionStatus_def)
qed

theorem hdcp_retries_bounded_witness: "retries [TriggerRetryFrame] \<le> 1"
  using hdcp_retries_bounded [OF demo_hdcp_reach] by simp

text \<open>what a check of the protection answers. In any state but a request it does nothing.
  For a request the client is told of type 1 when the first attempt succeeded and of type 0 when
  the retry did; a first failure asks for a retry and tells nothing; a second ends undesired.\<close>

theorem content_protection_outcome:
  "SetContentProtectionStatus cp h =
     (if hc_state h \<noteq> HRequested then (h, [])
      else case (cp, hc_was_retry h) of
        (True, False) \<Rightarrow> (h\<lparr>hc_state := HEnabled, hc_was_retry := False\<rparr>, [Notify (Some kType1)])
      | (True, True) \<Rightarrow> (h\<lparr>hc_state := HEnabled, hc_was_retry := False\<rparr>, [Notify (Some kType0)])
      | (False, False) \<Rightarrow> (h\<lparr>hc_state := HRetry\<rparr>, [TriggerRetryFrame])
      | (False, True) \<Rightarrow> (h\<lparr>hc_state := HUndesired, hc_was_retry := False\<rparr>, [Notify None]))"
  by (cases cp; cases "hc_was_retry h") (simp_all add: SetContentProtectionStatus_def)

text \<open>a second request while one is pending forgets that the first was a retry, so the
  client is then told of type 1 for what was asked for as type 0, and a failure retries again.\<close>

theorem request_forgets_retry:
  "SetContentProtectionStatus True (hc_Requested 20 (hc_Requested 10 (hc_init 5000\<lparr>hc_state := HRetry\<rparr>)))
     = (hc_init 5000\<lparr>hc_state := HEnabled, hc_sleep_until := 5020\<rparr>, [Notify (Some kType1)]) \<and>
   SetContentProtectionStatus True (hc_Requested 10 (hc_init 5000\<lparr>hc_state := HRetry\<rparr>))
     = (hc_init 5000\<lparr>hc_state := HEnabled, hc_sleep_until := 5010\<rparr>, [Notify (Some kType0)])"
  by (simp add: SetContentProtectionStatus_def hc_Requested_def hc_init_def)

text \<open>flattening asks for a refresh at most once per new frame, and never before the scene
  has been idle for the time-out: every refresh comes at least the time-out after a frame.\<close>

theorem flattening_waits_its_timeout:
  assumes "flat_reach timeout s"
  shows "length (fu_triggers s) \<le> length (fu_frames s) \<and>
    list_all (\<lambda>t. list_ex (\<lambda>f. f + timeout \<le> t) (fu_frames s)) (fu_triggers s)"
  using flat_reach_inv [OF assms] by (auto simp: flat_inv_def list_all_iff list_ex_iff split: if_splits)

lemma demo_flat_reach:
  "flat_reach 1000 \<lparr>fu_ctl = \<lparr>fl_state = FTriggeredCallback, fl_sleep_until = 1000, fl_timeout = 1000,
     fl_atoms = [FActive]\<rparr>, fu_frames = [0], fu_triggers = [1500], fu_now = 1500\<rparr>"
proof -
  have r: "flat_reach 1000 \<lparr>fu_ctl = fl_init 1000, fu_frames = [], fu_triggers = [], fu_now = 0\<rparr>"
    by (rule flat_reach.start)
  have r: "flat_reach 1000 \<lparr>fu_ctl = NewFrame 0 (fl_init 1000), fu_frames = [0], fu_triggers = [], fu_now = 0\<rparr>"
    using flat_reach.more [OF r frame] by (simp add: fl_init_def)
  have r: "flat_reach 1000 \<lparr>fu_ctl = NewFrame 0 (fl_init 1000), fu_frames = [0], fu_triggers = [], fu_now = 1500\<rparr>"
    using flat_reach.more [OF r tick [of _ 1500]] by simp
  show ?thesis
    using flat_reach.more [OF r round [of _ FTrigger "SetState FTriggeredCallback (NewFrame 0 (fl_init 1000))"]]
    by (simp add: fl_round_def NewFrame_def SetState_def fl_init_def)
qed

theorem flattening_waits_its_timeout_witness: "length [1500 :: int] \<le> length [0 :: int]"
  using flattening_waits_its_timeout [OF demo_flat_reach] by simp

text \<open>the collector runs the jobs in the order posted, none lost and none twice; and when its
  thread has ended every job posted has run.\<close>

theorem collector_runs_all:
  assumes "gc_reach g posted"
  shows "(\<exists>rest. posted = gc_ran g @ rest \<and> length rest = gc_pending g) \<and>
    (gc_ended g \<longrightarrow> gc_ran g = posted)"
  using gc_reach_inv [OF assms] by (auto simp: gc_inv_def gc_pending_def gc_idle_def split: option.splits)

lemma demo_gc_reach:
  "gc_reach \<lparr>gc_jobs = [8], gc_running = Some 7, gc_stopping = True, gc_started = True, gc_ended = False,
     gc_ran = []\<rparr> [7, 8 :: int]"
proof -
  have r: "gc_reach (gc_Post 8 (gc_Post 7 gc_init)) ([] @ [7] @ [8 :: int])"
    using gc_reach.post [OF gc_reach.post [OF gc_reach.start, of 7], of 8]
    by (simp add: gc_init_def gc_Post_def)
  have "gc_loop (gc_stop (gc_Post 8 (gc_Post 7 gc_init))) = Some \<lparr>gc_jobs = [8], gc_running = Some (7 :: int),
      gc_stopping = True, gc_started = True, gc_ended = False, gc_ran = []\<rparr>"
    by (simp add: gc_loop_def gc_stop_def gc_Post_def gc_init_def)
  then show ?thesis using gc_reach.turn [OF gc_reach.stop [OF r]] by simp
qed

theorem collector_runs_all_witness: "\<exists>rest. [7, 8 :: int] = [] @ rest \<and> length rest = 2"
  using collector_runs_all [OF demo_gc_reach] by (simp add: gc_pending_def)

end
