(* ===== verification/Tuning.thy ===== *)
theory Tuning
  imports Prelude "HOL-Library.Char_ord"
begin

text \<open>
  governor/Tuning.h and Tuning.cpp: what the governor's policy is tuned by, and the file that
  overrides it. A file is the string of its bytes, or nothing when it does not open; \<open>fgets\<close>,
  \<open>strtoul\<close> and the rest of the C library the code calls are written out. The governor's
  processor is a 32-bit one, whose \<open>unsigned long\<close> has 32 bits.
\<close>

record tuning =
  factor_pct :: nat
  pixels_per_clock :: nat
  job_kcycles :: nat
  min_cold_mhz :: nat
  cold_cap_mhz :: nat
  cpu_khz :: nat
  cpu_cap_ms :: nat
  cpu_low_khz :: nat
  pause_ms :: nat
  cpu_pause_lift :: nat
  submit_measured :: nat
  submit_smooth :: nat
  cold_measured :: nat
  hold_ms :: nat
  powergate_ms :: nat
  warm_ahead :: nat
  lead_us :: nat
  submit_warm_us :: nat
  submit_cold_us :: nat
  submit_cold_slow_us :: nat
  lead_min_us :: nat
  latch_margin_us :: nat
  phase_max_age_periods :: nat
  next_submit_us :: nat
  budget_empty_us :: nat
  budget_waited_us :: nat
  fence_patience_ms :: nat
  orphan_ms :: nat
  profile_poll_ms :: nat
  gpu_boost :: nat
  gpu_cap_mhz :: nat
  gpu_pixels_per_kclock :: nat

definition default_tuning :: tuning where
  "default_tuning = \<lparr>
     factor_pct = 125,
     pixels_per_clock = 2,
     job_kcycles = 250,
     min_cold_mhz = 504,
     cold_cap_mhz = 756,
     cpu_khz = 1044000,
     cpu_cap_ms = 5,
     cpu_low_khz = 400000,
     pause_ms = 100,
     cpu_pause_lift = 0,
     submit_measured = 1,
     submit_smooth = 3,
     cold_measured = 1,
     hold_ms = 17,
     powergate_ms = 500,
     warm_ahead = 0,
     lead_us = 1500,
     submit_warm_us = 250,
     submit_cold_us = 600,
     submit_cold_slow_us = 1200,
     lead_min_us = 1000,
     latch_margin_us = 700,
     phase_max_age_periods = 120,
     next_submit_us = 6500,
     budget_empty_us = 7200,
     budget_waited_us = 23000,
     fence_patience_ms = 500,
     orphan_ms = 100,
     profile_poll_ms = 250,
     gpu_boost = 1,
     gpu_cap_mhz = 324,
     gpu_pixels_per_kclock = 3100\<rparr>"

definition tuningKeys :: "(string \<times> (nat \<Rightarrow> tuning \<Rightarrow> tuning)) list" where
  "tuningKeys = [
    (''factor_pct'', \<lambda>v t. t\<lparr>factor_pct := v\<rparr>),
    (''pixels_per_clock'', \<lambda>v t. t\<lparr>pixels_per_clock := v\<rparr>),
    (''job_kcycles'', \<lambda>v t. t\<lparr>job_kcycles := v\<rparr>),
    (''min_cold_mhz'', \<lambda>v t. t\<lparr>min_cold_mhz := v\<rparr>),
    (''cold_cap_mhz'', \<lambda>v t. t\<lparr>cold_cap_mhz := v\<rparr>),
    (''cpu_khz'', \<lambda>v t. t\<lparr>cpu_khz := v\<rparr>),
    (''cpu_cap_ms'', \<lambda>v t. t\<lparr>cpu_cap_ms := v\<rparr>),
    (''cpu_low_khz'', \<lambda>v t. t\<lparr>cpu_low_khz := v\<rparr>),
    (''pause_ms'', \<lambda>v t. t\<lparr>pause_ms := v\<rparr>),
    (''cpu_pause_lift'', \<lambda>v t. t\<lparr>cpu_pause_lift := v\<rparr>),
    (''submit_measured'', \<lambda>v t. t\<lparr>submit_measured := v\<rparr>),
    (''submit_smooth'', \<lambda>v t. t\<lparr>submit_smooth := v\<rparr>),
    (''cold_measured'', \<lambda>v t. t\<lparr>cold_measured := v\<rparr>),
    (''hold_ms'', \<lambda>v t. t\<lparr>hold_ms := v\<rparr>),
    (''powergate_ms'', \<lambda>v t. t\<lparr>powergate_ms := v\<rparr>),
    (''warm_ahead'', \<lambda>v t. t\<lparr>warm_ahead := v\<rparr>),
    (''lead_us'', \<lambda>v t. t\<lparr>lead_us := v\<rparr>),
    (''submit_warm_us'', \<lambda>v t. t\<lparr>submit_warm_us := v\<rparr>),
    (''submit_cold_us'', \<lambda>v t. t\<lparr>submit_cold_us := v\<rparr>),
    (''submit_cold_slow_us'', \<lambda>v t. t\<lparr>submit_cold_slow_us := v\<rparr>),
    (''lead_min_us'', \<lambda>v t. t\<lparr>lead_min_us := v\<rparr>),
    (''latch_margin_us'', \<lambda>v t. t\<lparr>latch_margin_us := v\<rparr>),
    (''phase_max_age_periods'', \<lambda>v t. t\<lparr>phase_max_age_periods := v\<rparr>),
    (''next_submit_us'', \<lambda>v t. t\<lparr>next_submit_us := v\<rparr>),
    (''budget_empty_us'', \<lambda>v t. t\<lparr>budget_empty_us := v\<rparr>),
    (''budget_waited_us'', \<lambda>v t. t\<lparr>budget_waited_us := v\<rparr>),
    (''fence_patience_ms'', \<lambda>v t. t\<lparr>fence_patience_ms := v\<rparr>),
    (''orphan_ms'', \<lambda>v t. t\<lparr>orphan_ms := v\<rparr>),
    (''profile_poll_ms'', \<lambda>v t. t\<lparr>profile_poll_ms := v\<rparr>),
    (''gpu_boost'', \<lambda>v t. t\<lparr>gpu_boost := v\<rparr>),
    (''gpu_cap_mhz'', \<lambda>v t. t\<lparr>gpu_cap_mhz := v\<rparr>),
    (''gpu_pixels_per_kclock'', \<lambda>v t. t\<lparr>gpu_pixels_per_kclock := v\<rparr>)]"

subsection \<open>The C library\<close>

definition newline :: char where "newline = CHR 0x0A"

fun fgets_go :: "nat \<Rightarrow> string \<Rightarrow> string \<times> string" where
  "fgets_go 0 s = ([], s)"
| "fgets_go (Suc n) [] = ([], [])"
| "fgets_go (Suc n) (c # s) =
     (if c = newline then ([c], s) else (case fgets_go n s of (a, b) \<Rightarrow> (c # a, b)))"

text \<open>\<open>None\<close> at the end of the file; otherwise what a buffer of \<open>n\<close> bytes got, and the rest.\<close>

definition fgets :: "nat \<Rightarrow> string \<Rightarrow> (string \<times> string) option" where
  "fgets n s = (if s = [] then None else Some (fgets_go (n - 1) s))"

text \<open>A C string ends at its first NUL.\<close>

definition c_string :: "string \<Rightarrow> string" where
  "c_string s = takeWhile (\<lambda>c. c \<noteq> CHR 0x00) s"

definition isspace :: "char \<Rightarrow> bool" where
  "isspace c \<longleftrightarrow> c \<in> {CHR '' '', CHR 0x09, CHR 0x0A, CHR 0x0B, CHR 0x0C, CHR 0x0D}"

definition is_digit :: "char \<Rightarrow> bool" where
  "is_digit c \<longleftrightarrow> 48 \<le> (of_char c :: nat) \<and> (of_char c :: nat) \<le> 57"

definition digit_val :: "char \<Rightarrow> nat" where
  "digit_val c = (of_char c :: nat) - 48"

fun digits_val :: "string \<Rightarrow> nat \<Rightarrow> nat" where
  "digits_val [] acc = acc"
| "digits_val (c # s) acc = digits_val s (acc * 10 + digit_val c)"

definition ULONG_MAX :: nat where "ULONG_MAX = 4294967295"
definition UINT32_MAX :: nat where "UINT32_MAX = 4294967295"

text \<open>The number and what is left after it; all of the string when there is no digit.\<close>

definition strtoul :: "string \<Rightarrow> nat \<times> string" where
  "strtoul s =
     (let t = dropWhile isspace s;
          neg = (t \<noteq> [] \<and> hd t = CHR ''-'');
          u = (if t \<noteq> [] \<and> (hd t = CHR ''-'' \<or> hd t = CHR ''+'') then tl t else t);
          ds = takeWhile is_digit u; n = digits_val ds 0
      in if ds = [] then (0, s)
         else (if n > ULONG_MAX then ULONG_MAX else if neg then wrap_size (- int n) else n,
               dropWhile is_digit u))"

subsection \<open>Reading a line\<close>

definition blank :: "char \<Rightarrow> bool" where
  "blank c \<longleftrightarrow> c = CHR '' '' \<or> c = CHR 0x09"

definition trailing :: "char \<Rightarrow> bool" where
  "trailing c \<longleftrightarrow> c = CHR '' '' \<or> c = CHR 0x09 \<or> c = CHR 0x0A \<or> c = CHR 0x0D"

definition Trim :: "string \<Rightarrow> string" where
  "Trim line = rev (dropWhile trailing (rev
     (dropWhile blank (takeWhile (\<lambda>c. c \<noteq> CHR 0x23) line))))"

text \<open>The strictness both readers share.\<close>

definition parse_value :: "string \<Rightarrow> nat option" where
  "parse_value value = (case strtoul value of (parsed, rest) \<Rightarrow>
     if value \<noteq> [] \<and> (hd value = CHR ''-'' \<or> hd value = CHR ''+'') \<or> rest = value \<or> rest \<noteq> [] \<or>
        parsed > UINT32_MAX then None else Some parsed)"

datatype complaint = NotAPair | NotANumber string | NoSuchSetting string

definition set_key :: "string \<Rightarrow> nat \<Rightarrow> tuning \<Rightarrow> tuning option" where
  "set_key name v t = map_option (\<lambda>f. f v t) (map_of tuningKeys name)"

definition read_line :: "string \<Rightarrow> tuning \<Rightarrow> tuning \<times> complaint option" where
  "read_line line t =
     (let text = Trim (c_string line) in
      if text = [] then (t, None)
      else if CHR ''='' \<notin> set text then (t, Some NotAPair)
      else let name = Trim (takeWhile (\<lambda>c. c \<noteq> CHR ''='') text);
               value = Trim (tl (dropWhile (\<lambda>c. c \<noteq> CHR ''='') text))
           in case parse_value value of
                None \<Rightarrow> (t, Some (NotANumber value))
              | Some v \<Rightarrow> (case set_key name v t of
                  None \<Rightarrow> (t, Some (NoSuchSetting name))
                | Some t' \<Rightarrow> (t', None)))"

lemma fgets_go_shorter: "s \<noteq> [] \<Longrightarrow> 0 < n \<Longrightarrow> fgets_go n s = (a, b) \<Longrightarrow> length b < length s"
proof (induction n s arbitrary: a b rule: fgets_go.induct)
  case (3 n c s)
  have "length (snd (fgets_go n s)) \<le> length s" for n and s :: string
    by (induction n s rule: fgets_go.induct) (auto split: prod.splits)
  then show ?case using 3(4) by (auto split: if_splits prod.splits) (metis snd_conv le_imp_less_Suc)
qed simp_all

lemma fgets_shorter: "fgets 160 file = Some (line, rest) \<Longrightarrow> length rest < length file"
  by (auto simp: fgets_def split: if_splits) (use fgets_go_shorter in \<open>metis zero_less_numeral\<close>)

function read_lines :: "nat \<Rightarrow> string \<Rightarrow> tuning \<Rightarrow> (nat \<times> complaint) list \<Rightarrow>
    tuning \<times> (nat \<times> complaint) list" where
  "read_lines number file t said =
     (case fgets 160 file of
        None \<Rightarrow> (t, said)
      | Some (line, rest) \<Rightarrow>
          let n = number + 1; r = read_line line t
          in read_lines n rest (fst r)
               (said @ (case snd r of None \<Rightarrow> [] | Some c \<Rightarrow> [(n, c)])))"
  by pat_completeness auto
termination
  by (relation "measure (\<lambda>(_, file, _, _). length file)")
    (auto simp: fgets_shorter)

declare read_lines.simps [simp del]

definition not_zero :: "tuning \<Rightarrow> tuning" where
  "not_zero t = (let t1 = (if factor_pct t = 0 then t\<lparr>factor_pct := 100\<rparr> else t)
     in if pixels_per_clock t1 = 0 then t1\<lparr>pixels_per_clock := 1\<rparr> else t1)"

definition ReadTuningFile :: "string option \<Rightarrow> tuning \<Rightarrow> bool \<times> tuning \<times> (nat \<times> complaint) list" where
  "ReadTuningFile file t = (case file of
     None \<Rightarrow> (False, t, [])
   | Some text \<Rightarrow> (case read_lines 0 text t [] of (t', said) \<Rightarrow> (True, not_zero t', said)))"

definition ReadPowergateDelay :: "string option \<Rightarrow> tuning \<Rightarrow> bool \<times> tuning" where
  "ReadPowergateDelay file t = (case file of
     None \<Rightarrow> (False, t)
   | Some text \<Rightarrow> (case fgets 32 text of
       None \<Rightarrow> (False, t)
     | Some (line, _) \<Rightarrow> (case parse_value (Trim (c_string line)) of
         None \<Rightarrow> (False, t)
       | Some v \<Rightarrow> (True, t\<lparr>powergate_ms := v\<rparr>))))"

subsection \<open>Printing a number and reading it back\<close>

function show_dec :: "nat \<Rightarrow> string" where
  "show_dec n = (if n < 10 then [char_of (n + 48)]
     else show_dec (n div 10) @ [char_of (n mod 10 + 48)])"
  by pat_completeness auto
termination
  by (relation "measure id") auto

declare show_dec.simps [simp del]

lemma digit_char: "n < 10 \<Longrightarrow> is_digit (char_of (n + 48)) \<and> digit_val (char_of (n + 48)) = n"
  by (simp add: is_digit_def digit_val_def)

lemma is_digit_plain: "is_digit c \<Longrightarrow> \<not> isspace c \<and> \<not> trailing c \<and> \<not> blank c \<and>
    c \<notin> {CHR ''-'', CHR ''+'', CHR 0x23, CHR ''='', CHR 0x00, newline}"
  by (auto simp: is_digit_def isspace_def trailing_def blank_def newline_def)

lemma show_dec_digits: "show_dec n \<noteq> [] \<and> list_all is_digit (show_dec n)"
proof (induction n rule: show_dec.induct)
  case (1 n)
  then show ?case by (cases "n < 10") (simp_all add: show_dec.simps [of n] digit_char)
qed

lemma digits_val_snoc: "digits_val (s @ [c]) acc = digits_val s acc * 10 + digit_val c"
  by (induction s acc rule: digits_val.induct) simp_all

lemma digits_val_show: "digits_val (show_dec n) 0 = n"
proof (induction n rule: show_dec.induct)
  case (1 n)
  then show ?case
    by (cases "n < 10") (simp_all add: show_dec.simps [of n] digits_val_snoc digit_char)
qed

lemma show_dec_set: "c \<in> set (show_dec n) \<Longrightarrow> is_digit c"
  using show_dec_digits [of n] by (simp add: list_all_iff)

lemma strtoul_show:
  assumes "n \<le> ULONG_MAX"
  shows "strtoul (show_dec n) = (n, [])"
proof -
  obtain c cs where c: "show_dec n = c # cs" using show_dec_digits [of n] by (cases "show_dec n") auto
  then have plain: "is_digit c" using show_dec_set [of c n] by simp
  have "dropWhile isspace (show_dec n) = show_dec n"
    using is_digit_plain [OF plain] by (simp add: c)
  moreover have "takeWhile is_digit (show_dec n) = show_dec n" "dropWhile is_digit (show_dec n) = []"
    using show_dec_set [of _ n] by (simp_all add: takeWhile_eq_all_conv)
  ultimately show ?thesis
    using assms is_digit_plain [OF plain] digits_val_show [of n]
    by (simp add: strtoul_def Let_def c)
qed

lemma parse_show: "n \<le> UINT32_MAX \<Longrightarrow> parse_value (show_dec n) = Some n"
proof -
  assume n: "n \<le> UINT32_MAX"
  have "show_dec n \<noteq> []" "hd (show_dec n) \<notin> {CHR ''-'', CHR ''+''}"
    using show_dec_digits [of n] is_digit_plain show_dec_set [of "hd (show_dec n)" n] by auto
  then show ?thesis using strtoul_show [of n] n
    by (auto simp: parse_value_def ULONG_MAX_def UINT32_MAX_def)
qed

text \<open>A string with none of the bytes the line reader treats specially.\<close>

definition plain_text :: "string \<Rightarrow> bool" where
  "plain_text s \<longleftrightarrow> list_all (\<lambda>c. \<not> trailing c \<and> c \<notin> {CHR 0x00, CHR 0x23, CHR ''=''}) s"

lemma Trim_plain: "plain_text s \<Longrightarrow> list_all trailing w \<Longrightarrow> CHR 0x23 \<notin> set w \<Longrightarrow> Trim (s @ w) = s"
proof -
  assume s: "plain_text s" and w: "list_all trailing w" "CHR 0x23 \<notin> set w"
  have c: "takeWhile (\<lambda>c. c \<noteq> CHR 0x23) (s @ w) = s @ w"
    using s w by (auto simp: plain_text_def list_all_iff takeWhile_eq_all_conv)
  show ?thesis
  proof (cases s)
    case Nil
    have "list_all trailing (dropWhile blank w)"
      using w set_dropWhileD by (fastforce simp: list_all_iff)
    then show ?thesis unfolding Trim_def c
      by (simp add: Nil dropWhile_eq_Nil_conv list_all_iff)
  next
    case (Cons a as)
    have "\<not> blank a" using s by (auto simp: Cons plain_text_def blank_def trailing_def)
    then have d: "dropWhile blank (s @ w) = s @ w" by (simp add: Cons)
    have "\<forall>x\<in>set (rev w). trailing x" using w by (simp add: list_all_iff)
    then have "dropWhile trailing (rev w @ rev s) = dropWhile trailing (rev s)"
      by (intro dropWhile_append2) simp
    also have "\<dots> = rev s"
      using s by (cases "rev s") (auto simp: plain_text_def list_all_iff dest: arg_cong [of _ _ set])
    finally show ?thesis unfolding Trim_def c d by simp
  qed
qed

lemma plain_show: "plain_text (show_dec n)"
  using show_dec_set [of _ n] is_digit_plain by (auto simp: plain_text_def list_all_iff)

lemma keys_plain: "list_all (\<lambda>(k, f). plain_text k \<and> k \<noteq> [] \<and> length k < 30) tuningKeys"
  by code_simp

lemma length_show_dec: "n \<le> UINT32_MAX \<Longrightarrow> length (show_dec n) \<le> 10"
proof -
  have "n < 10 ^ Suc k \<Longrightarrow> length (show_dec n) \<le> Suc k" for n k
  proof (induction k arbitrary: n)
    case (Suc k)
    have "n div 10 < 10 ^ Suc k" using Suc.prems by (simp add: div_less_iff_less_mult)
    then show ?case using Suc.IH [of "n div 10"] by (cases "n < 10") (simp_all add: show_dec.simps [of n])
  qed (simp add: show_dec.simps)
  from this [of n 9] show "n \<le> UINT32_MAX \<Longrightarrow> length (show_dec n) \<le> 10"
    by (simp add: UINT32_MAX_def)
qed

lemma fgets_go_line:
  "newline \<notin> set s \<Longrightarrow> length s < n \<Longrightarrow> fgets_go n (s @ [newline]) = (s @ [newline], [])"
proof (induction n s rule: fgets_go.induct)
  case (2 n)
  then show ?case by simp
next
  case (3 n c s)
  then show ?case by auto
qed simp_all

lemma read_line_setting:
  assumes "plain_text name" "name \<noteq> []" "v \<le> UINT32_MAX"
  shows "read_line (name @ CHR ''='' # show_dec v @ [newline]) t =
    (case set_key name v t of None \<Rightarrow> (t, Some (NoSuchSetting name)) | Some t' \<Rightarrow> (t', None))"
proof -
  let ?line = "name @ CHR ''='' # show_dec v @ [newline]"
  have nul: "CHR 0x00 \<notin> set ?line" and hash: "CHR 0x23 \<notin> set ?line"
    using assms(1) plain_show [of v] by (auto simp: plain_text_def list_all_iff newline_def)
  then have "c_string ?line = ?line" by (auto simp: c_string_def takeWhile_eq_all_conv)
  moreover have "Trim ?line = name @ CHR ''='' # show_dec v"
  proof -
    obtain a as where a: "name = a # as" using assms(2) by (cases name) auto
    have "\<not> blank a" using assms(1) by (auto simp: a plain_text_def blank_def trailing_def)
    moreover obtain b bs where b: "rev (show_dec v) = b # bs"
      using show_dec_digits [of v] by (cases "rev (show_dec v)") auto
    moreover have "\<not> trailing b"
      using plain_show [of v] arg_cong [OF b, of set] by (auto simp: plain_text_def list_all_iff)
    moreover have "takeWhile (\<lambda>c. c \<noteq> CHR 0x23) ?line = ?line"
      using hash by (auto simp: takeWhile_eq_all_conv)
    moreover have "show_dec v = rev bs @ [b]" using b by (metis rev.simps(2) rev_rev_ident)
    ultimately show ?thesis unfolding Trim_def by (simp add: a trailing_def newline_def)
  qed
  moreover have "takeWhile (\<lambda>c. c \<noteq> CHR ''='') (name @ CHR ''='' # show_dec v) = name"
    "dropWhile (\<lambda>c. c \<noteq> CHR ''='') (name @ CHR ''='' # show_dec v) = CHR ''='' # show_dec v"
    using assms(1) by (auto simp: plain_text_def list_all_iff takeWhile_append2 dropWhile_append2)
  moreover have "Trim name = name" "Trim (show_dec v) = show_dec v"
    using Trim_plain [OF assms(1), of "[]"] Trim_plain [OF plain_show, of "[]" v] by simp_all
  ultimately show ?thesis
    using parse_show [OF assms(3)] assms(2) by (simp add: read_line_def Let_def)
qed

subsection \<open>Properties\<close>

text \<open>a setting written as the tuning file writes it is read back: the file that holds the
  line \<open>name=value\<close>, for any name of the table and any value of 32 bits, sets that field to
  that value, the two divisors kept from nought, and is complained of nowhere.\<close>

theorem tuning_roundtrip:
  assumes "(name, set_field) \<in> set tuningKeys" "v \<le> UINT32_MAX"
  shows "ReadTuningFile (Some (name @ CHR ''='' # show_dec v @ [newline])) t =
    (True, not_zero (the (set_key name v t)), []) \<and> set_key name v t \<noteq> None"
proof -
  have k: "plain_text name" "name \<noteq> []" "length name < 30"
    using keys_plain assms(1) by (auto simp: list_all_iff)
  let ?line = "name @ CHR ''='' # show_dec v @ [newline]"
  have "newline \<notin> set (name @ CHR ''='' # show_dec v)"
    using k(1) plain_show [of v] by (auto simp: plain_text_def list_all_iff newline_def trailing_def)
  then have "fgets_go 159 ((name @ CHR ''='' # show_dec v) @ [newline]) =
      ((name @ CHR ''='' # show_dec v) @ [newline], [])"
    using k(3) length_show_dec [OF assms(2)] by (intro fgets_go_line) simp_all
  then have f: "fgets 160 ?line = Some (?line, [])" "fgets 160 [] = None"
    by (simp_all add: fgets_def)
  have "map_of tuningKeys name \<noteq> None"
    using assms(1) by (metis map_of_eq_None_iff fst_conv image_eqI)
  then obtain t' where t': "set_key name v t = Some t'" by (auto simp: set_key_def)
  then show ?thesis
    by (simp add: ReadTuningFile_def read_lines.simps [of _ ?line] read_lines.simps [of _ "[]"] f
        read_line_setting [OF k(1,2) assms(2)] Let_def)
qed

theorem tuning_roundtrip_witness:
  "fst (snd (ReadTuningFile (Some (''hold_ms'' @ CHR ''='' # show_dec 25 @ [newline])) default_tuning))
     = not_zero (default_tuning\<lparr>hold_ms := 25\<rparr>)"
proof -
  have k: "(''hold_ms'', \<lambda>v t. t\<lparr>hold_ms := v\<rparr>) \<in> set tuningKeys" "(25 :: nat) \<le> UINT32_MAX"
    by (simp_all add: tuningKeys_def UINT32_MAX_def)
  have "set_key ''hold_ms'' 25 default_tuning = Some (default_tuning\<lparr>hold_ms := 25\<rparr>)"
    by (simp add: set_key_def tuningKeys_def)
  then show ?thesis using tuning_roundtrip [OF k, of default_tuning] by simp
qed

text \<open>whatever a tuning file holds, the two settings the model divides by are not nought
  after it is read.\<close>

theorem tuning_divisors_nonzero:
  "factor_pct (fst (snd (ReadTuningFile (Some text) t))) \<noteq> 0 \<and>
   pixels_per_clock (fst (snd (ReadTuningFile (Some text) t))) \<noteq> 0"
  by (simp add: ReadTuningFile_def not_zero_def Let_def split: prod.splits)

text \<open>With a 32-bit \<open>unsigned long\<close> a delay too large for 32 bits is not refused:
  \<open>strtoul\<close> saturates to \<open>UINT32_MAX\<close>, which the check lets through, and the engine is then never taken
  to have powered down.\<close>

theorem oversized_delay_accepted:
  "ReadPowergateDelay (Some (''99999999999'' @ [newline])) default_tuning =
     (True, default_tuning\<lparr>powergate_ms := 4294967295\<rparr>)"
proof -
  have "fgets 32 (''99999999999'' @ [newline]) = Some (''99999999999'' @ [newline], [])" by code_simp
  moreover have "Trim (c_string (''99999999999'' @ [newline])) = ''99999999999''" by code_simp
  moreover have "parse_value ''99999999999'' = Some 4294967295"
    by (simp add: parse_value_def strtoul_def isspace_def is_digit_def digit_val_def ULONG_MAX_def
        UINT32_MAX_def Let_def)
  ultimately show ?thesis by (simp add: ReadPowergateDelay_def)
qed

end
