(* ===== verification/FloorLane.thy ===== *)
theory FloorLane
  imports Tuning
begin

text \<open>
  governor/FenceWatch, FloorLane, EngineClock and GpuClock: one engine's clock floor and how
  long it stands. \<open>FloorActuator\<close>, the interface of the code, is a record of operations with
  its laws in the locale \<open>floor_actuator\<close>; the engine's and the GPU's clock are its two
  interpretations. What the kernel answers is part of an actuator's state, given from outside.
\<close>

definition nsPerUs :: int where "nsPerUs = 1000"
definition nsPerMs :: int where "nsPerMs = 1000000"

unbundle bit_operations_syntax

subsection \<open>The actuators\<close>

record 'a actuator =
  ac_usable :: "'a \<Rightarrow> bool"
  ac_CurrentMhz :: "'a \<Rightarrow> nat option"
  ac_SetFloor :: "nat \<Rightarrow> 'a \<Rightarrow> bool \<times> 'a"
  ac_Release :: "'a \<Rightarrow> 'a"
  ac_floor :: "'a \<Rightarrow> nat"

locale floor_actuator =
  fixes ops :: "'a actuator"
  assumes set_floor: "ac_SetFloor ops mhz a = (True, b) \<Longrightarrow> ac_floor ops b = mhz"
    and set_fails: "ac_SetFloor ops mhz a = (False, b) \<Longrightarrow>
      ac_floor ops b = ac_floor ops a \<or> ac_floor ops b = 0"
    and released: "ac_floor ops (ac_Release ops a) = 0"
begin

lemma set_floor_zero:
  "ac_SetFloor ops mhz a = (ok, b) \<Longrightarrow> ac_floor ops a = 0 \<Longrightarrow> \<not> ok \<Longrightarrow> ac_floor ops b = 0"
  using set_fails [of mhz a b] by auto

end

text \<open>The kernel's answer to the \<open>n\<close>-th request is a field: done, refused for good, or failed.\<close>

datatype clock_answer = ClockDone | ClockRefused | ClockFailed

record engine_clock =
  ec_open :: bool
  ec_devfreq_hz :: "nat option"
  ec_refused :: bool
  ec_floor_mhz :: nat
  ec_calls :: nat
  ec_kernel :: "nat \<Rightarrow> nat \<Rightarrow> clock_answer"

definition ec_usable :: "engine_clock \<Rightarrow> bool" where
  "ec_usable c \<longleftrightarrow> ec_open c \<and> \<not> ec_refused c"

definition ec_CurrentMhz :: "engine_clock \<Rightarrow> nat option" where
  "ec_CurrentMhz c = map_option (\<lambda>hz. wrap_size (int (hz div 1000000))) (ec_devfreq_hz c)"

definition ec_Request :: "nat \<Rightarrow> engine_clock \<Rightarrow> bool \<times> engine_clock" where
  "ec_Request rate_hz c =
     (if \<not> ec_usable c then (False, c)
      else let c1 = c\<lparr>ec_calls := ec_calls c + 1\<rparr> in
           case ec_kernel c (ec_calls c) rate_hz of
             ClockDone \<Rightarrow> (True, c1)
           | ClockRefused \<Rightarrow> (False, c1\<lparr>ec_refused := True\<rparr>)
           | ClockFailed \<Rightarrow> (False, c1))"

definition ec_SetFloor :: "nat \<Rightarrow> engine_clock \<Rightarrow> bool \<times> engine_clock" where
  "ec_SetFloor mhz c = (case ec_Request (wrap_size (int mhz * 1000000)) c of
     (ok, c1) \<Rightarrow> if ok then (True, c1\<lparr>ec_floor_mhz := mhz\<rparr>) else (False, c1))"

definition ec_Release :: "engine_clock \<Rightarrow> engine_clock" where
  "ec_Release c = (if ec_floor_mhz c = 0 then c
     else snd (ec_Request 0 (c\<lparr>ec_floor_mhz := 0\<rparr>)))"

definition engine_ops :: "engine_clock actuator" where
  "engine_ops = \<lparr>ac_usable = ec_usable, ac_CurrentMhz = ec_CurrentMhz, ac_SetFloor = ec_SetFloor,
     ac_Release = ec_Release, ac_floor = ec_floor_mhz\<rparr>"

record gpu_clock =
  gk_open :: bool
  gk_devfreq_hz :: "nat option"
  gk_floor_mhz :: nat
  gk_calls :: nat
  gk_kernel :: "nat \<Rightarrow> nat \<Rightarrow> bool"

definition gk_CurrentMhz :: "gpu_clock \<Rightarrow> nat option" where
  "gk_CurrentMhz c = map_option (\<lambda>hz. wrap_size (int (hz div 1000000))) (gk_devfreq_hz c)"

definition gk_Write :: "nat \<Rightarrow> gpu_clock \<Rightarrow> bool \<times> gpu_clock" where
  "gk_Write khz c =
     (if \<not> gk_open c then (False, c)
      else if gk_kernel c (gk_calls c) khz then (True, c\<lparr>gk_calls := gk_calls c + 1\<rparr>)
      else (False, c\<lparr>gk_calls := gk_calls c + 1, gk_open := False, gk_floor_mhz := 0\<rparr>))"

definition gk_SetFloor :: "nat \<Rightarrow> gpu_clock \<Rightarrow> bool \<times> gpu_clock" where
  "gk_SetFloor mhz c = (case gk_Write (wrap_size (int mhz * 1000)) c of
     (ok, c1) \<Rightarrow> if ok then (True, c1\<lparr>gk_floor_mhz := mhz\<rparr>) else (False, c1))"

definition gk_Release :: "gpu_clock \<Rightarrow> gpu_clock" where
  "gk_Release c = (if gk_floor_mhz c = 0 then c else snd (gk_Write 0 (c\<lparr>gk_floor_mhz := 0\<rparr>)))"

definition gpu_ops :: "gpu_clock actuator" where
  "gpu_ops = \<lparr>ac_usable = gk_open, ac_CurrentMhz = gk_CurrentMhz, ac_SetFloor = gk_SetFloor,
     ac_Release = gk_Release, ac_floor = gk_floor_mhz\<rparr>"

interpretation engine_floor: floor_actuator engine_ops
  by unfold_locales
    (auto simp: engine_ops_def ec_SetFloor_def ec_Request_def ec_Release_def Let_def
      split: if_splits prod.splits clock_answer.splits)

interpretation gpu_floor: floor_actuator gpu_ops
  by unfold_locales
    (auto simp: gpu_ops_def gk_SetFloor_def gk_Write_def gk_Release_def
      split: if_splits prod.splits)

subsection \<open>The fences of work in flight\<close>

record watched =
  wa_fd :: int
  wa_seq :: nat
  wa_since_ns :: int

record fence_watch =
  fw_watched :: "watched list"
  fw_latest_seq :: nat

definition fw_init :: fence_watch where
  "fw_init = \<lparr>fw_watched = [], fw_latest_seq = 0\<rparr>"

record pollfd =
  pf_fd :: int
  pf_events :: "16 word"
  pf_revents :: "16 word"

definition POLLIN :: "16 word" where "POLLIN = 1"
definition POLL_DUE :: "16 word" where "POLL_DUE = 1 OR 8 OR 16 OR 32"

definition fw_Add :: "int \<Rightarrow> nat \<Rightarrow> int \<Rightarrow> fence_watch \<Rightarrow> fence_watch" where
  "fw_Add fd seq now f =
     (let g = (if seq > fw_latest_seq f then f\<lparr>fw_latest_seq := seq\<rparr> else f) in
      if fd < 0 then g
      else g\<lparr>fw_watched := fw_watched g @ [\<lparr>wa_fd = fd, wa_seq = seq, wa_since_ns = now\<rparr>]\<rparr>)"

definition fw_empty :: "fence_watch \<Rightarrow> bool" where
  "fw_empty f \<longleftrightarrow> fw_watched f = []"

definition fw_AppendPollSet :: "fence_watch \<Rightarrow> pollfd list \<Rightarrow> pollfd list" where
  "fw_AppendPollSet f fds =
     fds @ map (\<lambda>w. \<lparr>pf_fd = wa_fd w, pf_events = POLLIN, pf_revents = 0\<rparr>) (fw_watched f)"

fun give_up_min :: "int \<Rightarrow> watched list \<Rightarrow> int \<Rightarrow> int" where
  "give_up_min patience [] earliest = earliest"
| "give_up_min patience (w # ws) earliest =
     (let gone = wa_since_ns w + patience
      in give_up_min patience ws (if earliest = 0 \<or> gone < earliest then gone else earliest))"

definition fw_NextGiveUpNs :: "int \<Rightarrow> fence_watch \<Rightarrow> int" where
  "fw_NextGiveUpNs patience f = give_up_min patience (fw_watched f) 0"

text \<open>The slot of the fence at \<open>slot\<close> reports it due; a fence is closed then, or when it has
  outlived the patience.\<close>

definition signaled :: "pollfd list \<Rightarrow> nat \<Rightarrow> bool" where
  "signaled fds slot \<longleftrightarrow> slot < length fds \<and> pf_revents (fds ! slot) AND POLL_DUE \<noteq> 0"

definition due :: "pollfd list \<Rightarrow> nat \<Rightarrow> int \<Rightarrow> int \<Rightarrow> watched \<Rightarrow> bool" where
  "due fds slot now patience w \<longleftrightarrow> signaled fds slot \<or> now - wa_since_ns w \<ge> patience"

text \<open>The fences kept and the descriptors closed.\<close>

fun judge_loop :: "pollfd list \<Rightarrow> int \<Rightarrow> int \<Rightarrow> nat \<Rightarrow> watched list \<Rightarrow> watched list \<times> int list" where
  "judge_loop fds now patience slot [] = ([], [])"
| "judge_loop fds now patience slot (w # ws) =
     (case judge_loop fds now patience (Suc slot) ws of (kept, shut) \<Rightarrow>
        if due fds slot now patience w then (kept, wa_fd w # shut) else (w # kept, shut))"

definition fw_Judge :: "pollfd list \<Rightarrow> nat \<Rightarrow> int \<Rightarrow> int \<Rightarrow> fence_watch \<Rightarrow> bool \<times> fence_watch \<times> int list" where
  "fw_Judge fds first_slot now patience f =
     (case judge_loop fds now patience first_slot (fw_watched f) of
        (kept, shut) \<Rightarrow> (shut \<noteq> [], f\<lparr>fw_watched := kept\<rparr>, shut))"

definition fw_DropAll :: "fence_watch \<Rightarrow> fence_watch \<times> int list" where
  "fw_DropAll f = (f\<lparr>fw_watched := []\<rparr>, map wa_fd (fw_watched f))"

subsection \<open>The lane\<close>

text \<open>The operations of the lane's actuator are an argument of its methods. \<open>ln_closed\<close> lists the
  descriptors the lane has closed.\<close>

record 'a lane =
  ln_actuator :: 'a
  ln_fences :: fence_watch
  ln_first_slot :: nat
  ln_release_due :: int
  ln_orphan_due :: int
  ln_owed :: nat
  ln_closed :: "int list"

definition ln_init :: "'a \<Rightarrow> 'a lane" where
  "ln_init a = \<lparr>ln_actuator = a, ln_fences = fw_init, ln_first_slot = 0, ln_release_due = 0,
     ln_orphan_due = 0, ln_owed = 0, ln_closed = []\<rparr>"

definition HasReported :: "nat \<Rightarrow> 'a lane \<Rightarrow> bool" where
  "HasReported seq l \<longleftrightarrow> fw_latest_seq (ln_fences l) \<ge> seq"

definition consider_due :: "int \<Rightarrow> int \<Rightarrow> int" where
  "consider_due w d = (if w > 0 \<and> (d = 0 \<or> w < d) then w else d)"

definition patience_ns :: "tuning \<Rightarrow> int" where
  "patience_ns t = int (fence_patience_ms t) * nsPerMs"

definition ln_NextDueNs :: "tuning \<Rightarrow> 'a lane \<Rightarrow> int" where
  "ln_NextDueNs t l = consider_due (fw_NextGiveUpNs (patience_ns t) (ln_fences l))
     (consider_due (ln_orphan_due l) (consider_due (ln_release_due l) 0))"

definition ln_AppendPollSet :: "pollfd list \<Rightarrow> 'a lane \<Rightarrow> pollfd list \<times> 'a lane" where
  "ln_AppendPollSet fds l = (fw_AppendPollSet (ln_fences l) fds, l\<lparr>ln_first_slot := length fds\<rparr>)"

definition ln_Reported :: "'a actuator \<Rightarrow> 'a lane \<Rightarrow> 'a lane" where
  "ln_Reported ops l =
     (let step = ln_owed l; l1 = l\<lparr>ln_orphan_due := 0, ln_owed := 0\<rparr> in
      if step = 0 \<or> \<not> ac_usable ops (ln_actuator l) \<or> step \<le> ac_floor ops (ln_actuator l) then l1
      else l1\<lparr>ln_actuator := snd (ac_SetFloor ops step (ln_actuator l))\<rparr>)"

definition ln_Follow :: "'a actuator \<Rightarrow> tuning \<Rightarrow> pollfd list \<Rightarrow> watched list \<Rightarrow> int \<Rightarrow> 'a lane \<Rightarrow> 'a lane" where
  "ln_Follow ops t fds submitted now l =
     (case fw_Judge fds (ln_first_slot l) now (patience_ns t) (ln_fences l) of
        (any_done, f1, shut) \<Rightarrow>
          let f2 = fold (\<lambda>w f. fw_Add (wa_fd w) (wa_seq w) now f) submitted f1;
              l1 = l\<lparr>ln_fences := f2, ln_closed := ln_closed l @ shut\<rparr>
          in if any_done \<and> fw_empty f2 \<and> ac_floor ops (ln_actuator l) \<noteq> 0 \<and> ln_orphan_due l = 0
             then l1\<lparr>ln_release_due := now + int (hold_ms t) * nsPerMs\<rparr> else l1)"

text \<open>The answer of \<open>SetFloor\<close> is asked for only upward from the floor and the engine's clock.\<close>

definition raise_floor :: "'a actuator \<Rightarrow> nat \<Rightarrow> 'a \<Rightarrow> bool \<times> 'a" where
  "raise_floor ops step a =
     (if step > ac_floor ops a \<and> step > opt_ord (ac_CurrentMhz ops a) 0
      then ac_SetFloor ops step a else (False, a))"

definition ln_Ask :: "'a actuator \<Rightarrow> tuning \<Rightarrow> nat \<Rightarrow> nat \<Rightarrow> bool \<Rightarrow> int \<Rightarrow> 'a lane \<Rightarrow> 'a lane" where
  "ln_Ask ops t step owed reported now l =
     (case raise_floor ops step (ln_actuator l) of
        (raised, a) \<Rightarrow>
          let l1 = l\<lparr>ln_owed := owed, ln_actuator := a\<rparr> in
          if \<not> raised \<and> ac_floor ops a = 0 then l1
          else if \<not> reported
          then l1\<lparr>ln_release_due := 0, ln_orphan_due := now + int (orphan_ms t) * nsPerMs\<rparr>
          else l1\<lparr>ln_orphan_due := 0, ln_release_due :=
                 (if fw_empty (ln_fences l) then now + int (hold_ms t) * nsPerMs else 0)\<rparr>)"

definition ln_ReleaseIfDue :: "'a actuator \<Rightarrow> int \<Rightarrow> 'a lane \<Rightarrow> 'a lane" where
  "ln_ReleaseIfDue ops now l =
     (if ac_floor ops (ln_actuator l) = 0 \<or> \<not> fw_empty (ln_fences l) then l
      else if (ln_release_due l \<noteq> 0 \<and> now \<ge> ln_release_due l) \<or>
              (ln_orphan_due l \<noteq> 0 \<and> now \<ge> ln_orphan_due l)
      then l\<lparr>ln_release_due := 0, ln_orphan_due := 0, ln_owed := 0,
             ln_actuator := ac_Release ops (ln_actuator l)\<rparr>
      else l)"

definition ln_DropAll :: "'a actuator \<Rightarrow> 'a lane \<Rightarrow> 'a lane" where
  "ln_DropAll ops l = (case fw_DropAll (ln_fences l) of (f, shut) \<Rightarrow>
     l\<lparr>ln_fences := f, ln_closed := ln_closed l @ shut, ln_release_due := 0, ln_orphan_due := 0,
       ln_owed := 0, ln_actuator := ac_Release ops (ln_actuator l)\<rparr>)"

text \<open>A lane's share of one round of the governor's thread: reports first, then the fences, a plan
  that asks for a step, and the release.\<close>

definition lane_round :: "'a actuator \<Rightarrow> tuning \<Rightarrow> pollfd list \<Rightarrow> watched list \<Rightarrow>
    (nat \<times> nat \<times> bool) option \<Rightarrow> int \<Rightarrow> 'a lane \<Rightarrow> 'a lane" where
  "lane_round ops t fds submitted ask now l =
     (let l1 = (if submitted \<noteq> [] then ln_Reported ops l else l);
          l2 = ln_Follow ops t fds submitted now l1;
          l3 = (case ask of None \<Rightarrow> l2
                | Some (step, owed, reported) \<Rightarrow> ln_Ask ops t step owed reported now l2)
      in ln_ReleaseIfDue ops now l3)"

inductive lane_reach :: "'a actuator \<Rightarrow> tuning \<Rightarrow> 'a lane \<Rightarrow> int list \<Rightarrow> bool" for ops t where
  start: "ac_floor ops a = 0 \<Longrightarrow> lane_reach ops t (ln_init a) []"
| round: "lane_reach ops t l given \<Longrightarrow> 0 < now \<Longrightarrow> \<forall>w\<in>set submitted. 0 \<le> wa_fd w \<Longrightarrow>
    lane_reach ops t (lane_round ops t fds submitted ask now (l\<lparr>ln_first_slot := slot\<rparr>))
      (given @ map wa_fd submitted)"
| drop: "lane_reach ops t l given \<Longrightarrow> lane_reach ops t (ln_DropAll ops l) given"

subsection \<open>Every descriptor is closed once\<close>

lemma judge_loop_mset:
  "judge_loop fds now p slot ws = (kept, shut) \<Longrightarrow>
   mset (map wa_fd ws) = mset (map wa_fd kept) + mset shut \<and> set kept \<subseteq> set ws"
proof (induction ws arbitrary: slot kept shut)
  case (Cons w ws)
  obtain k c where j: "judge_loop fds now p (Suc slot) ws = (k, c)" by fastforce
  show ?case using Cons.prems Cons.IH [OF j] by (auto simp: j split: if_splits)
qed simp

lemma judge_loop_all_due:
  "judge_loop fds now p slot ws = (kept, shut) \<Longrightarrow> \<forall>w\<in>set ws. now - wa_since_ns w \<ge> p \<Longrightarrow> kept = []"
proof (induction ws arbitrary: slot kept shut)
  case (Cons w ws)
  obtain k c where j: "judge_loop fds now p (Suc slot) ws = (k, c)" by fastforce
  show ?case using Cons.prems Cons.IH [OF j] by (auto simp: j due_def split: if_splits)
qed simp

lemma judge_loop_shut: "judge_loop fds now p slot ws = (kept, []) \<Longrightarrow> kept = ws"
proof (induction ws arbitrary: slot kept)
  case (Cons w ws)
  obtain k c where j: "judge_loop fds now p (Suc slot) ws = (k, c)" by fastforce
  have "c = []" using Cons.prems by (auto simp: j split: if_splits)
  then show ?case using Cons.prems Cons.IH [of "Suc slot" k] by (auto simp: j split: if_splits)
qed simp

abbreviation add_all :: "int \<Rightarrow> watched list \<Rightarrow> fence_watch \<Rightarrow> fence_watch" where
  "add_all now ws f \<equiv> fold (\<lambda>w f. fw_Add (wa_fd w) (wa_seq w) now f) ws f"

lemma fw_Add_watched:
  "0 \<le> fd \<Longrightarrow> fw_watched (fw_Add fd seq now f) =
     fw_watched f @ [\<lparr>wa_fd = fd, wa_seq = seq, wa_since_ns = now\<rparr>]"
  by (simp add: fw_Add_def Let_def)

lemma add_all_watched:
  "\<forall>w\<in>set ws. 0 \<le> wa_fd w \<Longrightarrow> fw_watched (add_all now ws f) =
     fw_watched f @ map (\<lambda>w. \<lparr>wa_fd = wa_fd w, wa_seq = wa_seq w, wa_since_ns = now\<rparr>) ws"
  by (induction ws arbitrary: f) (simp_all add: fw_Add_watched)

definition lane_fds :: "'a lane \<Rightarrow> int multiset" where
  "lane_fds l = mset (map wa_fd (fw_watched (ln_fences l))) + mset (ln_closed l)"

lemma lane_fds_simps [simp]:
  "lane_fds (ln_Reported ops l) = lane_fds l" "lane_fds (ln_Ask ops t step owed reported now l) = lane_fds l"
  "lane_fds (ln_ReleaseIfDue ops now l) = lane_fds l" "lane_fds (ln_DropAll ops l) = lane_fds l"
  by (auto simp: lane_fds_def ln_Reported_def ln_Ask_def ln_ReleaseIfDue_def ln_DropAll_def
      fw_DropAll_def Let_def split: prod.splits)

lemma lane_fds_Follow:
  assumes "\<forall>w\<in>set submitted. 0 \<le> wa_fd w"
  shows "lane_fds (ln_Follow ops t fds submitted now l) = lane_fds l + mset (map wa_fd submitted)"
proof -
  obtain kept shut where j: "judge_loop fds now (patience_ns t) (ln_first_slot l)
      (fw_watched (ln_fences l)) = (kept, shut)" by fastforce
  show ?thesis
    using judge_loop_mset [OF j]
    by (simp add: ln_Follow_def fw_Judge_def j lane_fds_def Let_def add_all_watched [OF assms]
        multiset.map_comp comp_def)
qed

lemma lane_reach_fds: "lane_reach ops t l given \<Longrightarrow> lane_fds l = mset given"
proof (induction rule: lane_reach.induct)
  case (round l given now submitted fds ask slot)
  have "lane_fds (l\<lparr>ln_first_slot := slot\<rparr>) = lane_fds l" by (simp add: lane_fds_def)
  then show ?case using round
    by (auto simp: lane_round_def Let_def lane_fds_Follow split: option.splits)
qed (simp_all, simp add: lane_fds_def ln_init_def fw_init_def)

subsection \<open>A floor that stands will fall\<close>

text \<open>Where a floor stands, something is set to let it go: a timer, or a fence in flight.\<close>

definition lane_ok :: "'a actuator \<Rightarrow> 'a lane \<Rightarrow> bool" where
  "lane_ok ops l \<longleftrightarrow>
     (ac_floor ops (ln_actuator l) \<noteq> 0 \<longrightarrow>
        ln_release_due l \<noteq> 0 \<or> ln_orphan_due l \<noteq> 0 \<or> fw_watched (ln_fences l) \<noteq> []) \<and>
     0 \<le> ln_release_due l \<and> 0 \<le> ln_orphan_due l \<and>
     (\<forall>w\<in>set (fw_watched (ln_fences l)). 0 < wa_since_ns w)"

lemma ms_nonneg [simp]: "0 < now \<Longrightarrow> 0 < now + int n * nsPerMs" "0 \<le> int n * nsPerMs"
  by (simp_all add: nsPerMs_def)

lemma ln_Follow_fields [simp]:
  "ln_actuator (ln_Follow ops t fds ws now l) = ln_actuator l"
  "ln_orphan_due (ln_Follow ops t fds ws now l) = ln_orphan_due l"
  by (simp_all add: ln_Follow_def Let_def split: prod.splits)

lemma Follow_watched:
  assumes "\<forall>w\<in>set ws. 0 \<le> wa_fd w"
  obtains kept shut where "judge_loop fds now (patience_ns t) (ln_first_slot l) (fw_watched (ln_fences l)) = (kept, shut)"
    "fw_watched (ln_fences (ln_Follow ops t fds ws now l)) =
       kept @ map (\<lambda>w. \<lparr>wa_fd = wa_fd w, wa_seq = wa_seq w, wa_since_ns = now\<rparr>) ws"
    "ln_release_due (ln_Follow ops t fds ws now l) =
       (if shut \<noteq> [] \<and> kept = [] \<and> ws = [] \<and> ac_floor ops (ln_actuator l) \<noteq> 0 \<and> ln_orphan_due l = 0
        then now + int (hold_ms t) * nsPerMs else ln_release_due l)"
proof -
  obtain kept shut where j: "judge_loop fds now (patience_ns t) (ln_first_slot l)
      (fw_watched (ln_fences l)) = (kept, shut)" by fastforce
  show thesis
    using that [OF j]
    by (simp add: ln_Follow_def fw_Judge_def j Let_def add_all_watched [OF assms] fw_empty_def)
qed

lemma lane_ok_Follow:
  assumes "\<forall>w\<in>set ws. 0 \<le> wa_fd w" "0 < now" "ws \<noteq> [] \<or> lane_ok ops l"
    "0 \<le> ln_release_due l" "0 \<le> ln_orphan_due l" "\<forall>w\<in>set (fw_watched (ln_fences l)). 0 < wa_since_ns w"
  shows "lane_ok ops (ln_Follow ops t fds ws now l)"
proof (cases rule: Follow_watched [OF assms(1), of fds now t l ops])
  case (1 kept shut)
  have sub: "set kept \<subseteq> set (fw_watched (ln_fences l))" using judge_loop_mset [OF 1(1)] by simp
  have all: "\<forall>w\<in>set (fw_watched (ln_fences (ln_Follow ops t fds ws now l))). 0 < wa_since_ns w"
    using sub assms(2,6) by (auto simp: 1(2))
  have same: "shut = [] \<Longrightarrow> kept = fw_watched (ln_fences l)" using judge_loop_shut 1(1) by auto
  let ?l = "ln_Follow ops t fds ws now l"
  have hold: "0 < now + int (hold_ms t) * nsPerMs" using assms(2) by (rule ms_nonneg)
  have "ln_release_due ?l \<noteq> 0 \<or> ln_orphan_due ?l \<noteq> 0 \<or> fw_watched (ln_fences ?l) \<noteq> []"
    if fl: "ac_floor ops (ln_actuator ?l) \<noteq> 0"
  proof -
    consider "ws \<noteq> [] \<or> kept \<noteq> []" | "ws = []" "kept = []" "shut = []"
      | "ws = []" "kept = []" "shut \<noteq> []" by blast
    then show ?thesis
    proof cases
      case 1
      then show ?thesis using \<open>fw_watched (ln_fences ?l) = _\<close> by auto
    next
      case 2
      then have "lane_ok ops l" "fw_watched (ln_fences l) = []" using assms(3) same by auto
      then show ?thesis using 2 fl \<open>ln_release_due ?l = _\<close> by (auto simp: lane_ok_def)
    next
      case 3
      then show ?thesis using fl hold 1(3) by auto
    qed
  qed
  moreover have "0 \<le> ln_release_due ?l" using assms(4) hold by (simp add: 1(3))
  ultimately show ?thesis using all assms(5) by (simp add: lane_ok_def)
qed

lemma lane_ok_Ask:
  assumes "0 < now" "lane_ok ops l"
  shows "lane_ok ops (ln_Ask ops t step owed reported now l)"
proof -
  have "0 < now + int (orphan_ms t) * nsPerMs" "0 < now + int (hold_ms t) * nsPerMs"
    using assms(1) by (rule ms_nonneg)+
  then show ?thesis using assms(2)
    by (auto simp: ln_Ask_def lane_ok_def Let_def fw_empty_def split: prod.splits)
qed

text \<open>A round with no news, at a time when every timer has run out and every fence has outlived
  the patience: the floor is let go in it, or in the next one the hold later.\<close>

definition overdue :: "tuning \<Rightarrow> int \<Rightarrow> 'a lane \<Rightarrow> bool" where
  "overdue t now l \<longleftrightarrow> ln_release_due l \<le> now \<and> ln_orphan_due l \<le> now \<and>
     (\<forall>w\<in>set (fw_watched (ln_fences l)). wa_since_ns w + patience_ns t \<le> now)"

context floor_actuator
begin

lemma lane_ok_ReleaseIfDue: "lane_ok ops l \<Longrightarrow> lane_ok ops (ln_ReleaseIfDue ops now l)"
  by (auto simp: ln_ReleaseIfDue_def lane_ok_def released)

lemma lane_ok_round:
  assumes "lane_ok ops l" "0 < now" "\<forall>w\<in>set ws. 0 \<le> wa_fd w"
  shows "lane_ok ops (lane_round ops t fds ws ask now l)"
proof -
  let ?l1 = "if ws \<noteq> [] then ln_Reported ops l else l"
  have "ws \<noteq> [] \<or> lane_ok ops ?l1" using assms(1) by simp
  moreover have "0 \<le> ln_release_due ?l1" "0 \<le> ln_orphan_due ?l1"
    "\<forall>w\<in>set (fw_watched (ln_fences ?l1)). 0 < wa_since_ns w"
    using assms(1) by (auto simp: lane_ok_def ln_Reported_def Let_def)
  ultimately have f: "lane_ok ops (ln_Follow ops t fds ws now ?l1)"
    using assms(2,3) by (intro lane_ok_Follow)
  define l2 where "l2 = ln_Follow ops t fds ws now ?l1"
  have "lane_ok ops (case ask of None \<Rightarrow> l2
      | Some (step, owed, reported) \<Rightarrow> ln_Ask ops t step owed reported now l2)"
    using f lane_ok_Ask [OF assms(2), of ops l2] by (auto simp: l2_def [symmetric] split: option.split)
  then show ?thesis unfolding lane_round_def Let_def l2_def [symmetric] by (rule lane_ok_ReleaseIfDue)
qed

lemma lane_reach_ok: "lane_reach ops t l given \<Longrightarrow> lane_ok ops l"
proof (induction rule: lane_reach.induct)
  case (round l given now submitted fds ask slot)
  have "lane_ok ops (l\<lparr>ln_first_slot := slot\<rparr>)" using round.IH by (simp add: lane_ok_def)
  then show ?case using round.hyps by (intro lane_ok_round)
qed (auto simp: lane_ok_def ln_init_def fw_init_def ln_DropAll_def fw_DropAll_def released)

lemma quiet_round:
  assumes "lane_ok ops l" "overdue t now l" "0 < now"
  shows "fw_watched (ln_fences (lane_round ops t fds [] None now l)) = [] \<and>
    (ac_floor ops (ln_actuator (lane_round ops t fds [] None now l)) = 0 \<or>
     ln_release_due (lane_round ops t fds [] None now l) = now + int (hold_ms t) * nsPerMs)"
proof (cases rule: Follow_watched [of "[]" fds now t l ops, simplified])
  case (1 kept shut)
  note 2 = 1
  have kept: "kept = []"
    by (rule judge_loop_all_due [OF 2(1)]) (use assms(2) in \<open>auto simp: overdue_def\<close>)
  have same: "shut = [] \<Longrightarrow> fw_watched (ln_fences l) = []" using judge_loop_shut 2(1) kept by auto
  let ?l = "ln_Follow ops t fds [] now l"
  have w: "fw_watched (ln_fences ?l) = []" using 2(2) kept by simp
  have r: "lane_round ops t fds [] None now l = ln_ReleaseIfDue ops now ?l"
    by (simp add: lane_round_def Let_def)
  show ?thesis
  proof (cases "ac_floor ops (ln_actuator l) = 0 \<or> ln_orphan_due l \<noteq> 0 \<or> ln_release_due ?l = ln_release_due l")
    case True
    then show ?thesis using assms(1,2) w same kept 2(3)
      by (auto simp: r ln_ReleaseIfDue_def released fw_empty_def lane_ok_def overdue_def split: if_splits)
  next
    case False
    then have "ln_release_due ?l = now + int (hold_ms t) * nsPerMs"
      using 2(3) by (simp split: if_splits)
    then show ?thesis using w by (auto simp: r ln_ReleaseIfDue_def released fw_empty_def)
  qed
qed

lemma quiet_rounds_release:
  assumes "lane_ok ops l" "overdue t now l" "0 < now" "now + int (hold_ms t) * nsPerMs \<le> later"
  shows "ac_floor ops (ln_actuator
    (lane_round ops t fds' [] None later (lane_round ops t fds [] None now l))) = 0"
proof -
  let ?l = "lane_round ops t fds [] None now l"
  have q: "fw_watched (ln_fences ?l) = []" "ac_floor ops (ln_actuator ?l) = 0 \<or>
     ln_release_due ?l = now + int (hold_ms t) * nsPerMs" using quiet_round [OF assms(1-3)] by auto
  let ?k = "ln_Follow ops t fds' [] later ?l"
  have "fw_watched (ln_fences ?k) = [] \<and> ln_release_due ?k = ln_release_due ?l"
    by (cases rule: Follow_watched [of "[]" fds' later t ?l ops, simplified]) (use q(1) in auto)
  then show ?thesis using q assms(4) ms_nonneg(1) [OF assms(3), of "hold_ms t"]
    by (auto simp: lane_round_def [of _ _ _ _ _ later] Let_def ln_ReleaseIfDue_def fw_empty_def released)
qed

end

subsection \<open>Properties\<close>

text \<open>a floor that stands falls. After any rounds of reports (each with its fence), plans and
  fences coming due, once nothing more is heard: a round at a time when the timers have run out
  and the fences outlived the patience, and one the hold later, leave the engine with no floor.\<close>

theorem engine_floor_falls:
  assumes "lane_reach engine_ops t l given" "overdue t now l" "0 < now"
    "now + int (hold_ms t) * nsPerMs \<le> later"
  shows "ec_floor_mhz (ln_actuator (lane_round engine_ops t fds' [] None later
    (lane_round engine_ops t fds [] None now l))) = 0"
  using engine_floor.quiet_rounds_release [OF engine_floor.lane_reach_ok [OF assms(1)] assms(2-4)]
  by (simp add: engine_ops_def)

text \<open>no descriptor is lost and none is closed twice. The fences given to a lane are, at any
  time, those it still watches and those it has closed.\<close>

theorem fences_closed_once:
  assumes "lane_reach gpu_ops t l given"
  shows "mset given = mset (map wa_fd (fw_watched (ln_fences l))) + mset (ln_closed l)"
  using lane_reach_fds [OF assms] by (simp add: lane_fds_def)

definition demo_clock :: engine_clock where
  "demo_clock = \<lparr>ec_open = True, ec_devfreq_hz = Some 180000000, ec_refused = False,
     ec_floor_mhz = 0, ec_calls = 0, ec_kernel = \<lambda>n hz. ClockDone\<rparr>"

text \<open>A step asked for a frame's work, and its report.\<close>

definition demo_asked :: "engine_clock lane" where
  "demo_asked = lane_round engine_ops default_tuning [] [] (Some (504, 0, False)) 1000000000
     (ln_init demo_clock\<lparr>ln_first_slot := 1\<rparr>)"

lemma demo_asked_eval:
  "demo_asked = \<lparr>ln_actuator = demo_clock\<lparr>ec_floor_mhz := 504, ec_calls := 1\<rparr>, ln_fences = fw_init,
     ln_first_slot = 1, ln_release_due = 0, ln_orphan_due = 1100000000, ln_owed = 0, ln_closed = []\<rparr>"
  by (simp add: demo_asked_def lane_round_def ln_Follow_def fw_Judge_def ln_init_def fw_init_def
      ln_Ask_def raise_floor_def engine_ops_def ec_CurrentMhz_def ec_SetFloor_def ec_Request_def
      ec_usable_def demo_clock_def ln_ReleaseIfDue_def fw_empty_def Let_def default_tuning_def
      nsPerMs_def wrap_size_def)

lemma demo_asked_reached: "lane_reach engine_ops default_tuning demo_asked []"
  using lane_reach.round [OF lane_reach.start, of engine_ops demo_clock 1000000000 "[]" default_tuning
      "[]" "Some (504, 0, False)" 1]
  by (simp add: demo_asked_def engine_ops_def demo_clock_def)

theorem engine_floor_falls_witness:
  "ec_floor_mhz (ln_actuator demo_asked) = 504 \<and>
   ec_floor_mhz (ln_actuator (lane_round engine_ops default_tuning [] [] None 2000000000
     (lane_round engine_ops default_tuning [] [] None 1900000000 demo_asked))) = 0"
proof -
  have o: "overdue default_tuning 1900000000 demo_asked"
    by (simp add: overdue_def demo_asked_eval fw_init_def)
  have h: "(1900000000 :: int) + int (hold_ms default_tuning) * nsPerMs \<le> 2000000000"
    by (simp add: default_tuning_def nsPerMs_def)
  show ?thesis using engine_floor_falls [OF demo_asked_reached o _ h] by (simp add: demo_asked_eval)
qed

text \<open>but a floor whose work is reported without a fence stands for ever. The report puts the
  orphan timer off, no fence is watched, and so nothing is ever due: no later round without news
  lets the floor go.\<close>

theorem fenceless_report_strands_floor:
  "let l = lane_round engine_ops default_tuning [] [\<lparr>wa_fd = -1, wa_seq = 1, wa_since_ns = 0\<rparr>] None
       1010000000 demo_asked
   in ec_floor_mhz (ln_actuator l) = 504 \<and> ln_NextDueNs default_tuning l = 0 \<and>
      (\<forall>now. lane_round engine_ops default_tuning [] [] None now l = l)"
  by (simp add: demo_asked_eval lane_round_def ln_Reported_def ln_Follow_def fw_Judge_def fw_init_def
      fw_Add_def ln_ReleaseIfDue_def engine_ops_def fw_empty_def demo_clock_def Let_def
      ln_NextDueNs_def consider_due_def fw_NextGiveUpNs_def)

definition demo_gpu :: gpu_clock where
  "demo_gpu = \<lparr>gk_open = True, gk_devfreq_hz = None, gk_floor_mhz = 0, gk_calls = 0, gk_kernel = \<lambda>n khz. True\<rparr>"

theorem fences_closed_once_witness:
  "mset [7, 8] = mset (map wa_fd (fw_watched (ln_fences (lane_round gpu_ops default_tuning []
      [\<lparr>wa_fd = 7, wa_seq = 1, wa_since_ns = 0\<rparr>, \<lparr>wa_fd = 8, wa_seq = 2, wa_since_ns = 0\<rparr>] None 5
      (ln_init demo_gpu\<lparr>ln_first_slot := 1\<rparr>))))) +
    mset (ln_closed (lane_round gpu_ops default_tuning []
      [\<lparr>wa_fd = 7, wa_seq = 1, wa_since_ns = 0\<rparr>, \<lparr>wa_fd = 8, wa_seq = 2, wa_since_ns = 0\<rparr>] None 5
      (ln_init demo_gpu\<lparr>ln_first_slot := 1\<rparr>)))"
proof -
  have "lane_reach gpu_ops default_tuning (ln_init demo_gpu) []"
    by (rule lane_reach.start) (simp add: gpu_ops_def demo_gpu_def)
  from lane_reach.round [OF this, of 5 "[\<lparr>wa_fd = 7, wa_seq = 1, wa_since_ns = 0\<rparr>, \<lparr>wa_fd = 8, wa_seq = 2, wa_since_ns = 0\<rparr>]"
      "[]" None 1]
  show ?thesis using fences_closed_once [of default_tuning _ "[7, 8]"] by simp
qed

end
