(* ===== verification/MergePlan.thy ===== *)
theory MergePlan
  imports FloorLane Float32
begin

text \<open>
  governor/ClockSteps.h, MergePlan.h and MergePlan.cpp: from a planned frame to the clock step
  its work needs. The code computes with doubles; a double is the same datatype of values as a
  float, rounded to the 53 bits of binary64 by the operations here.
\<close>

subsection \<open>Doubles\<close>

type_synonym f64 = f32

definition f64_exp :: "rat \<Rightarrow> int" where
  "f64_exp x = (if x = 0 then -1074 else max (ilog2 \<bar>x\<bar> - 52) (-1074))"

definition rnd64 :: "rat \<Rightarrow> rat" where
  "rnd64 x = of_int (rne (x / 2 powi f64_exp x)) * 2 powi f64_exp x"

definition f64_of_rat :: "rat \<Rightarrow> f64" where
  "f64_of_rat x = (let r = rnd64 x in
     if r \<ge> 2 ^ 1024 then PInf else if r \<le> - (2 ^ 1024) then NInf else Fin r)"

fun f64_add :: "f64 \<Rightarrow> f64 \<Rightarrow> f64" where
  "f64_add (Fin a) (Fin b) = f64_of_rat (a + b)"
| "f64_add a b = f32_add a b"

fun f64_mul :: "f64 \<Rightarrow> f64 \<Rightarrow> f64" where
  "f64_mul (Fin a) (Fin b) = f64_of_rat (a * b)"
| "f64_mul a b = f32_mul a b"

fun f64_div :: "f64 \<Rightarrow> f64 \<Rightarrow> f64" where
  "f64_div (Fin a) (Fin b) = (if b = 0 then f32_inf_signed (sgn a) else f64_of_rat (a / b))"
| "f64_div a b = f32_div a b"

definition f64_of_int :: "int \<Rightarrow> f64" where
  "f64_of_int n = f64_of_rat (of_int n)"

definition f64_min :: "f64 \<Rightarrow> f64 \<Rightarrow> f64" where
  "f64_min a b = (if f32_less b a then b else a)"

text \<open>Out of range the conversion is undefined in C++; here it saturates.\<close>

fun f64_to_u32 :: "f64 \<Rightarrow> nat" where
  "f64_to_u32 (Fin a) = (if a \<le> 0 then 0 else min 4294967295 (nat \<lfloor>a\<rfloor>))"
| "f64_to_u32 PInf = 4294967295"
| "f64_to_u32 _ = 0"

subsection \<open>The clock's steps\<close>

record ladder =
  cl_steps :: "nat list"
  cl_cap_mhz :: nat

definition clockStepsMhz :: "nat list" where
  "clockStepsMhz = [180, 258, 336, 378, 420, 462, 504, 552, 600, 684, 720, 756]"

definition gpuStepsMhz :: "nat list" where
  "gpuStepsMhz = [72, 108, 180, 252, 324, 396, 468, 540, 612, 648, 684, 708, 756, 804, 852]"

definition Top :: "ladder \<Rightarrow> nat" where
  "Top l = fold (\<lambda>s hi. if cl_cap_mhz l = 0 \<or> s \<le> cl_cap_mhz l then s else hi) (cl_steps l) 0"

fun at_least_loop :: "nat \<Rightarrow> nat \<Rightarrow> nat list \<Rightarrow> nat" where
  "at_least_loop hi need [] = 0"
| "at_least_loop hi need (s # ss) =
     (if s \<le> hi then if s \<ge> need then s else at_least_loop hi need ss else 0)"

definition AtLeast :: "ladder \<Rightarrow> nat \<Rightarrow> nat" where
  "AtLeast l need = at_least_loop (Top l) need (cl_steps l)"

definition vicLadder :: ladder where
  "vicLadder = \<lparr>cl_steps = clockStepsMhz, cl_cap_mhz = 0\<rparr>"

definition GpuLadder :: "nat \<Rightarrow> ladder" where
  "GpuLadder cap = \<lparr>cl_steps = gpuStepsMhz, cl_cap_mhz = cap\<rparr>"

definition StepAtLeast :: "nat \<Rightarrow> nat" where
  "StepAtLeast need = AtLeast vicLadder need"

subsection \<open>The frame and the model\<close>

record gov_member =
  ge_src_w :: nat
  ge_src_h :: nat
  ge_dst_w :: nat
  ge_dst_h :: nat

record gov_frame =
  fr_seq :: nat
  fr_now_ns :: int
  fr_last_latch_ns :: int
  fr_vsync_period_ns :: int
  fr_last_engine_use_ns :: int
  fr_merge_planned :: bool
  fr_merge_reuse_predicted :: bool
  fr_previous_flip_landed :: bool
  fr_power_mode :: nat
  fr_target_w :: nat
  fr_target_h :: nat

definition EngineCold :: "gov_frame \<Rightarrow> int \<Rightarrow> int \<Rightarrow> tuning \<Rightarrow> bool" where
  "EngineCold f last_warm now t =
     (let last_use = max (fr_last_engine_use_ns f) last_warm
      in last_use = 0 \<or> now - last_use > int (powergate_ms t) * nsPerMs)"

definition PhaseKnown :: "gov_frame \<Rightarrow> int \<Rightarrow> tuning \<Rightarrow> bool" where
  "PhaseKnown f now t =
     (if fr_last_latch_ns f \<le> 0 \<or> fr_vsync_period_ns f \<le> 0 then False
      else let age = now - fr_last_latch_ns f
           in age \<ge> 0 \<and> age \<le> int (phase_max_age_periods t) * fr_vsync_period_ns f)"

definition LatchDeadline :: "gov_frame \<Rightarrow> int \<Rightarrow> tuning \<Rightarrow> int" where
  "LatchDeadline f now t =
     (if \<not> PhaseKnown f now t
      then now + int (if fr_previous_flip_landed f then budget_empty_us t else budget_waited_us t) * nsPerUs
      else let elapsed = now - fr_last_latch_ns f;
               periods = cdiv elapsed (fr_vsync_period_ns f);
               next0 = fr_last_latch_ns f + (periods + 1) * fr_vsync_period_ns f;
               next1 = (if \<not> fr_previous_flip_landed f then next0 + fr_vsync_period_ns f else next0)
           in next1 - int (latch_margin_us t) * nsPerUs)"

definition merge_area :: "gov_member list \<Rightarrow> int" where
  "merge_area ms = fold (\<lambda>m area. wrap64 (area + int (max (ge_src_w m * ge_src_h m) (ge_dst_w m * ge_dst_h m)))) ms 0"

definition MergeCycles :: "gov_member list \<Rightarrow> tuning \<Rightarrow> f64" where
  "MergeCycles ms t =
     (let raw = f64_add (f64_mul (f64_of_int (int (job_kcycles t))) (Fin 1000))
                  (f64_div (f64_of_int (merge_area ms)) (f64_of_int (int (pixels_per_clock t))))
      in f64_div (f64_mul raw (f64_of_int (int (factor_pct t)))) (Fin 100))"

record estimate =
  es_cycles :: f64
  es_deadline_ns :: int
  es_budget_ns :: int
  es_need_mhz :: nat
  es_step_mhz :: nat
  es_late :: bool
  es_beyond :: bool
  es_slipped :: bool

definition Estimate :: "f64 \<Rightarrow> int \<Rightarrow> int \<Rightarrow> ladder \<Rightarrow> bool \<Rightarrow> estimate" where
  "Estimate cycles deadline submit_end ladder slipped =
     (let budget0 = deadline - submit_end;
          late = (budget0 < nsPerMs);
          budget = (if late then nsPerMs else budget0);
          hi = Top ladder;
          need_hz = f64_div (f64_mul cycles (Fin 1000000000)) (f64_of_int budget);
          need = f64_to_u32 (f32_ceil (f64_min (f64_div need_hz (Fin 1000000))
                   (f64_mul (Fin 4) (f64_of_int (int hi)))));
          step = AtLeast ladder need
      in \<lparr>es_cycles = cycles, es_deadline_ns = deadline, es_budget_ns = budget, es_need_mhz = need,
          es_step_mhz = (if step = 0 then hi else step), es_late = late, es_beyond = (step = 0),
          es_slipped = slipped\<rparr>)"

definition EstimateWork :: "gov_frame \<Rightarrow> f64 \<Rightarrow> f64 \<Rightarrow> int \<Rightarrow> int \<Rightarrow> tuning \<Rightarrow> ladder \<Rightarrow> estimate" where
  "EstimateWork f cycles raw_cycles now submit_end t ladder =
     (let deadline = LatchDeadline f now t;
          top_ns = f64_mul (f64_div raw_cycles (f64_of_int (int (Top ladder)))) (Fin 1000);
          soonest = now + int (lead_min_us t) * nsPerUs;
          hopeless = f32_less (f64_of_int (deadline - soonest)) top_ns
      in if hopeless \<and> PhaseKnown f now t
         then let latch = deadline + int (latch_margin_us t) * nsPerUs;
                  slipped = min (deadline + fr_vsync_period_ns f) (latch + int (next_submit_us t) * nsPerUs)
              in Estimate cycles slipped submit_end ladder True
         else Estimate cycles deadline submit_end ladder False)"

definition GpuCycles :: "nat \<Rightarrow> tuning \<Rightarrow> f64" where
  "GpuCycles pixels t =
     f64_div (f64_mul (f64_div (f64_mul (f64_of_int (int pixels)) (Fin 1000))
       (f64_of_int (int (gpu_pixels_per_kclock t)))) (f64_of_int (int (factor_pct t)))) (Fin 100)"

definition without_margin :: "f64 \<Rightarrow> tuning \<Rightarrow> f64" where
  "without_margin cycles t = f64_div (f64_mul cycles (Fin 100)) (f64_of_int (int (factor_pct t)))"

definition EstimateGpu :: "gov_frame \<Rightarrow> nat \<Rightarrow> int \<Rightarrow> tuning \<Rightarrow> estimate" where
  "EstimateGpu f pixels now t =
     (let cycles = GpuCycles pixels t; submit_end = now + int (submit_warm_us t) * nsPerUs
      in EstimateWork f cycles (without_margin cycles t) now submit_end t (GpuLadder (gpu_cap_mhz t)))"

definition EstimateMerge :: "gov_frame \<Rightarrow> gov_member list \<Rightarrow> int \<Rightarrow> tuning \<Rightarrow> bool \<Rightarrow> bool \<Rightarrow> int \<Rightarrow> estimate" where
  "EstimateMerge f ms now t cold cpu_lifted submit_after =
     (let cycles = MergeCycles ms t;
          submit_us = (if cold then if cpu_lifted then submit_cold_us t else submit_cold_slow_us t
                       else submit_warm_us t);
          submit_end = (if submit_after > 0 then fr_now_ns f + submit_after
                        else now + int (wrap_size (int (lead_us t + submit_us))) * nsPerUs);
          e = EstimateWork f cycles (without_margin cycles t) now submit_end t vicLadder
      in if cold \<and> es_step_mhz e < min_cold_mhz t then e\<lparr>es_step_mhz := min_cold_mhz t\<rparr> else e)"

subsection \<open>Ladders\<close>

lemma at_least_loop_spec:
  "sorted_wrt (<) ss \<Longrightarrow> 0 \<notin> set ss \<Longrightarrow>
   (if \<exists>s\<in>set ss. s \<le> hi \<and> need \<le> s
    then at_least_loop hi need ss \<in> set ss \<and> at_least_loop hi need ss \<le> hi \<and>
      need \<le> at_least_loop hi need ss \<and>
      (\<forall>s\<in>set ss. need \<le> s \<longrightarrow> at_least_loop hi need ss \<le> s)
    else at_least_loop hi need ss = 0)"
proof (induction ss)
  case (Cons a ss)
  have up: "\<forall>s\<in>set ss. a < s" using Cons.prems by simp
  consider "\<not> a \<le> hi" | "a \<le> hi" "need \<le> a" | "a \<le> hi" "\<not> need \<le> a" by blast
  then show ?case
  proof cases
    case 1
    then show ?thesis using up by (auto dest!: bspec)
  next
    case 2
    then show ?thesis using up by auto
  next
    case 3
    then show ?thesis using Cons.IH Cons.prems by (auto split: if_splits)
  qed
qed simp

lemma Top_fold:
  "sorted_wrt (<) ss \<Longrightarrow> \<forall>s\<in>set ss. init < s \<Longrightarrow>
   (let hi = fold (\<lambda>s hi. if cap = 0 \<or> s \<le> cap then s else hi) ss (init :: nat)
    in (hi = init \<or> hi \<in> set ss) \<and> (\<forall>s\<in>set ss. (cap = 0 \<or> s \<le> cap) \<longrightarrow> s \<le> hi) \<and> init \<le> hi \<and>
       (hi = init \<or> cap = 0 \<or> hi \<le> cap))"
proof (induction ss arbitrary: init)
  case (Cons a ss)
  show ?case
  proof (cases "cap = 0 \<or> a \<le> cap")
    case True
    then show ?thesis using Cons.IH [of a] Cons.prems by (auto simp: Let_def)
  next
    case False
    then show ?thesis using Cons.IH [of init] Cons.prems by (auto simp: Let_def)
  qed
qed simp

definition ladder_ok :: "ladder \<Rightarrow> bool" where
  "ladder_ok l \<longleftrightarrow> sorted_wrt (<) (cl_steps l) \<and> 0 \<notin> set (cl_steps l)"

lemma ladders_ok [simp]: "ladder_ok vicLadder" "ladder_ok (GpuLadder cap)"
  by (simp_all add: ladder_ok_def vicLadder_def GpuLadder_def clockStepsMhz_def gpuStepsMhz_def)

text \<open>A step that may be asked for: one of the ladder's, no higher than its cap.\<close>

definition may_ask :: "ladder \<Rightarrow> nat \<Rightarrow> bool" where
  "may_ask l s \<longleftrightarrow> s \<in> set (cl_steps l) \<and> (cl_cap_mhz l = 0 \<or> s \<le> cl_cap_mhz l)"

lemma Top_spec:
  assumes "ladder_ok l"
  shows "(Top l = 0 \<and> (\<forall>s. \<not> may_ask l s)) \<or> (may_ask l (Top l) \<and> (\<forall>s. may_ask l s \<longrightarrow> s \<le> Top l))"
proof -
  have pos: "\<forall>s\<in>set (cl_steps l). 0 < s" using assms by (auto simp: ladder_ok_def intro: gr0I)
  have "sorted_wrt (<) (cl_steps l)" using assms by (simp add: ladder_ok_def)
  from Top_fold [OF this pos, of "cl_cap_mhz l", folded Top_def]
  have t: "Top l = 0 \<or> Top l \<in> set (cl_steps l)"
    "\<forall>s\<in>set (cl_steps l). (cl_cap_mhz l = 0 \<or> s \<le> cl_cap_mhz l) \<longrightarrow> s \<le> Top l"
    "Top l = 0 \<or> cl_cap_mhz l = 0 \<or> Top l \<le> cl_cap_mhz l"
    by (simp_all add: Let_def)
  show ?thesis
  proof (cases "Top l = 0")
    case True
    then show ?thesis using t(2) pos by (auto simp: may_ask_def)
  next
    case False
    then show ?thesis using t by (auto simp: may_ask_def)
  qed
qed

lemma AtLeast_spec:
  assumes "ladder_ok l"
  shows "if \<exists>s. may_ask l s \<and> need \<le> s
    then may_ask l (AtLeast l need) \<and> need \<le> AtLeast l need \<and>
      (\<forall>s. may_ask l s \<longrightarrow> need \<le> s \<longrightarrow> AtLeast l need \<le> s)
    else AtLeast l need = 0"
proof -
  have hi: "s \<le> Top l \<longleftrightarrow> cl_cap_mhz l = 0 \<or> s \<le> cl_cap_mhz l" if "s \<in> set (cl_steps l)" for s
    using Top_spec [OF assms] that assms
    by (cases "s = 0") (auto simp: may_ask_def ladder_ok_def)
  have m: "may_ask l s \<longleftrightarrow> s \<in> set (cl_steps l) \<and> s \<le> Top l" for s
    using hi by (auto simp: may_ask_def)
  show ?thesis
    using at_least_loop_spec [of "cl_steps l" "Top l" need] assms
    by (auto simp: m AtLeast_def ladder_ok_def split: if_splits)
qed


subsection \<open>What the estimates promise\<close>

lemma Estimate_step:
  "es_step_mhz (Estimate c d e l b) =
     (if AtLeast l (es_need_mhz (Estimate c d e l b)) = 0 then Top l
      else AtLeast l (es_need_mhz (Estimate c d e l b)))"
  "es_beyond (Estimate c d e l b) \<longleftrightarrow> AtLeast l (es_need_mhz (Estimate c d e l b)) = 0"
  "es_deadline_ns (Estimate c d e l b) = d" "es_slipped (Estimate c d e l b) = b"
  "nsPerMs \<le> es_budget_ns (Estimate c d e l b)"
  by (simp_all add: Estimate_def Let_def)

lemma EstimateWork_is_Estimate:
  "\<exists>d b. EstimateWork f c r now se t l = Estimate c d se l b"
  by (auto simp: EstimateWork_def Let_def)

lemma may_ask_pos: "ladder_ok l \<Longrightarrow> may_ask l s \<Longrightarrow> 0 < s"
  by (auto simp: ladder_ok_def may_ask_def intro: gr0I)

text \<open>The step an estimate asks for is one the clock has, under its cap; it is the least step
  that meets the need when some step does, and the highest the cap allows, reported as beyond,
  when none does. The budget it divides by is never less than a millisecond.\<close>

theorem estimate_step_least:
  assumes "ladder_ok l" "may_ask l s0" "e = EstimateWork f c r now se t l"
  shows "may_ask l (es_step_mhz e) \<and>
    (es_beyond e \<longleftrightarrow> (\<forall>s. may_ask l s \<longrightarrow> s < es_need_mhz e)) \<and>
    (\<not> es_beyond e \<longrightarrow> es_need_mhz e \<le> es_step_mhz e \<and>
       (\<forall>s. may_ask l s \<and> es_need_mhz e \<le> s \<longrightarrow> es_step_mhz e \<le> s)) \<and>
    (es_beyond e \<longrightarrow> (\<forall>s. may_ask l s \<longrightarrow> s \<le> es_step_mhz e)) \<and>
    nsPerMs \<le> es_budget_ns e"
proof -
  obtain d b where e: "e = Estimate c d se l b"
    using EstimateWork_is_Estimate assms(3) by metis
  note step = Estimate_step [of c d se l b, folded e]
  have hi: "may_ask l (Top l)" "\<forall>s. may_ask l s \<longrightarrow> s \<le> Top l"
    using Top_spec [OF assms(1)] assms(2) by auto
  show ?thesis
  proof (cases "\<exists>s. may_ask l s \<and> es_need_mhz e \<le> s")
    case True
    note sp = AtLeast_spec [OF assms(1), of "es_need_mhz e"]
    have a: "may_ask l (AtLeast l (es_need_mhz e))" "es_need_mhz e \<le> AtLeast l (es_need_mhz e)"
      "\<forall>s. may_ask l s \<longrightarrow> es_need_mhz e \<le> s \<longrightarrow> AtLeast l (es_need_mhz e) \<le> s"
      using sp True by (simp_all only: if_True) blast+
    have "AtLeast l (es_need_mhz e) \<noteq> 0" using may_ask_pos [OF assms(1) a(1)] by simp
    then have st: "es_step_mhz e = AtLeast l (es_need_mhz e)" "\<not> es_beyond e"
      using step(1) step(2) by simp_all
    show ?thesis using a st True step(5) by (metis not_less)
  next
    case False
    then have "AtLeast l (es_need_mhz e) = 0"
      using AtLeast_spec [OF assms(1), of "es_need_mhz e"] by (simp only: if_False)
    then have st: "es_step_mhz e = Top l" "es_beyond e" using step(1) step(2) by simp_all
    show ?thesis using hi st False step(5) by (metis not_less)
  qed
qed

definition sample_frame :: gov_frame where
  "sample_frame = \<lparr>fr_seq = 1, fr_now_ns = 100, fr_last_latch_ns = 100, fr_vsync_period_ns = 16,
     fr_last_engine_use_ns = 0, fr_merge_planned = True, fr_merge_reuse_predicted = False,
     fr_previous_flip_landed = True, fr_power_mode = 4, fr_target_w = 1536, fr_target_h = 2048\<rparr>"

lemma estimate_step_least_witness:
  "may_ask vicLadder (es_step_mhz (EstimateWork sample_frame (Fin 1000) (Fin 900) 100 110 default_tuning vicLadder))"
  using estimate_step_least [of vicLadder 180, OF ladders_ok(1) _ refl,
      of sample_frame "Fin 1000" "Fin 900" 100 110 default_tuning]
  by (simp add: may_ask_def vicLadder_def clockStepsMhz_def)

text \<open>While the phase is known the deadline is a latch of the display's own grid, less the
  margin: the first latch after now when the previous flip has landed, the one after it when it
  has not.\<close>

theorem deadline_on_latch_grid:
  assumes "PhaseKnown f now t"
  shows "\<exists>k. LatchDeadline f now t + int (latch_margin_us t) * nsPerUs =
      fr_last_latch_ns f + k * fr_vsync_period_ns f \<and>
    (let latch = LatchDeadline f now t + int (latch_margin_us t) * nsPerUs;
         waited = (if fr_previous_flip_landed f then 0 else fr_vsync_period_ns f)
     in now < latch - waited \<and> latch - waited \<le> now + fr_vsync_period_ns f)"
proof -
  have p: "0 < fr_vsync_period_ns f" "0 \<le> now - fr_last_latch_ns f"
    using assms by (auto simp: PhaseKnown_def Let_def split: if_splits)
  define q where "q = (now - fr_last_latch_ns f) div fr_vsync_period_ns f"
  have m: "now - fr_last_latch_ns f = q * fr_vsync_period_ns f + (now - fr_last_latch_ns f) mod fr_vsync_period_ns f"
    "0 \<le> (now - fr_last_latch_ns f) mod fr_vsync_period_ns f"
    "(now - fr_last_latch_ns f) mod fr_vsync_period_ns f < fr_vsync_period_ns f"
    using p by (simp_all add: q_def)
  have d: "LatchDeadline f now t + int (latch_margin_us t) * nsPerUs =
      fr_last_latch_ns f + (q + 1 + (if fr_previous_flip_landed f then 0 else 1)) * fr_vsync_period_ns f"
    by (simp only: LatchDeadline_def assms Let_def cdiv_nonneg [OF p(2,1)] q_def)
      (simp add: distrib_right)
  show ?thesis
    by (rule exI [of _ "q + 1 + (if fr_previous_flip_landed f then 0 else 1)"], unfold d Let_def)
      (use m in \<open>cases "fr_previous_flip_landed f"; simp add: distrib_right\<close>)
qed

lemma deadline_on_latch_grid_witness:
  "PhaseKnown sample_frame 110 default_tuning \<and>
   (\<exists>k. LatchDeadline sample_frame 110 default_tuning + int (latch_margin_us default_tuning) * nsPerUs = 100 + k * 16)"
proof -
  have p: "PhaseKnown sample_frame 110 default_tuning"
    by (simp add: PhaseKnown_def sample_frame_def default_tuning_def Let_def)
  show ?thesis using deadline_on_latch_grid [OF p] p by (auto simp: sample_frame_def)
qed

text \<open>An estimate slips only when the phase is known, and then to no earlier than the deadline it
  gave up and to no later than one refresh after it; an estimate that does not slip aims at the
  deadline itself.\<close>

theorem slip_within_a_refresh:
  fixes t :: tuning
  assumes "e = EstimateWork f c r now se t l"
  shows "(es_slipped e \<longrightarrow> PhaseKnown f now t \<and> LatchDeadline f now t \<le> es_deadline_ns e \<and>
      es_deadline_ns e \<le> LatchDeadline f now t + fr_vsync_period_ns f) \<and>
    (\<not> es_slipped e \<longrightarrow> es_deadline_ns e = LatchDeadline f now t)"
proof (cases "es_slipped e")
  case True
  then have ph: "PhaseKnown f now t"
    and d: "es_deadline_ns e = min (LatchDeadline f now t + fr_vsync_period_ns f)
      (LatchDeadline f now t + int (latch_margin_us t) * nsPerUs + int (next_submit_us t) * nsPerUs)"
    using assms by (auto simp: EstimateWork_def Let_def Estimate_step split: if_splits)
  have "0 < fr_vsync_period_ns f" using ph by (auto simp: PhaseKnown_def split: if_splits)
  moreover have "0 \<le> int (latch_margin_us t) * nsPerUs" "0 \<le> int (next_submit_us t) * nsPerUs"
    by (simp_all add: nsPerUs_def)
  ultimately show ?thesis using True ph d by (simp add: min_def)
next
  case False
  then show ?thesis using assms by (auto simp: EstimateWork_def Let_def Estimate_step split: if_splits)
qed

lemma slip_within_a_refresh_witness:
  "\<not> es_slipped (EstimateWork (sample_frame\<lparr>fr_vsync_period_ns := 0\<rparr>) (Fin 1) (Fin 1) 5 6 default_tuning vicLadder)"
  using slip_within_a_refresh [OF refl, of "sample_frame\<lparr>fr_vsync_period_ns := 0\<rparr>" "Fin 1" "Fin 1" 5 6 default_tuning vicLadder]
  by (auto simp: PhaseKnown_def sample_frame_def)

end
