(* ===== verification/Governor.thy ===== *)
theory Governor
  imports MergePlan
begin

text \<open>
  governor/Mailbox, CpuFloor, PerfProfile and TegraGovernor: the governor of the engine's, the
  GPU's and the processor's clock. The composer's threads leave their news in the mailbox; the
  governor's thread wakes, empties it and decides. Every critical section of the mailbox is one
  step. What the host, the kernel and the properties answer is part of the state, given from
  outside.
\<close>

subsection \<open>The mailbox\<close>

datatype power = Power_off | Power_doze | Power_dozeSuspend | Power_suspend | Power_on

record planned =
  pl_frame :: gov_frame
  pl_members :: "gov_member list"

record gpu_plan =
  gp_seq :: nat
  gp_now_ns :: int
  gp_pixels :: nat

record mailbox =
  mb_pending :: "planned option"
  mb_submitted :: "watched list"
  mb_gpu_pending :: "gpu_plan option"
  mb_gpu_submitted :: "watched list"
  mb_power :: power
  mb_stop :: bool
  mb_rung :: bool

definition mb_init :: mailbox where
  "mb_init = \<lparr>mb_pending = None, mb_submitted = [], mb_gpu_pending = None, mb_gpu_submitted = [],
     mb_power = Power_on, mb_stop = False, mb_rung = False\<rparr>"

definition mb_Ring :: "mailbox \<Rightarrow> mailbox" where
  "mb_Ring m = m\<lparr>mb_rung := True\<rparr>"

definition mb_Plan :: "gov_frame \<Rightarrow> gov_member list \<Rightarrow> mailbox \<Rightarrow> mailbox" where
  "mb_Plan f members m = mb_Ring (m\<lparr>mb_pending := Some \<lparr>pl_frame = f, pl_members = members\<rparr>\<rparr>)"

definition mb_Submit :: "nat \<Rightarrow> int \<Rightarrow> int \<Rightarrow> mailbox \<Rightarrow> mailbox" where
  "mb_Submit seq fd now m = mb_Ring (m\<lparr>mb_submitted := mb_submitted m @
     [\<lparr>wa_fd = fd, wa_seq = seq, wa_since_ns = now\<rparr>]\<rparr>)"

definition mb_PlanGpu :: "nat \<Rightarrow> nat \<Rightarrow> int \<Rightarrow> mailbox \<Rightarrow> mailbox" where
  "mb_PlanGpu seq pixels now m = mb_Ring (m\<lparr>mb_gpu_pending :=
     Some \<lparr>gp_seq = seq, gp_now_ns = now, gp_pixels = pixels\<rparr>\<rparr>)"

definition mb_SubmitGpu :: "nat \<Rightarrow> int \<Rightarrow> int \<Rightarrow> mailbox \<Rightarrow> mailbox" where
  "mb_SubmitGpu seq fd now m = mb_Ring (m\<lparr>mb_gpu_submitted := mb_gpu_submitted m @
     [\<lparr>wa_fd = fd, wa_seq = seq, wa_since_ns = now\<rparr>]\<rparr>)"

definition mb_SetPower :: "power \<Rightarrow> mailbox \<Rightarrow> mailbox" where
  "mb_SetPower mode m = mb_Ring (
     let m1 = m\<lparr>mb_power := mode\<rparr> in
     if mode \<noteq> Power_on then m1\<lparr>mb_pending := None, mb_gpu_pending := None\<rparr> else m1)"

definition mb_Stop :: "mailbox \<Rightarrow> mailbox" where
  "mb_Stop m = mb_Ring (m\<lparr>mb_stop := True\<rparr>)"

record contents =
  mc_planned :: "planned option"
  mc_submitted :: "watched list"
  mc_gpu_planned :: "gpu_plan option"
  mc_gpu_submitted :: "watched list"
  mc_power :: power
  mc_stop :: bool

definition mb_Take :: "bool \<Rightarrow> mailbox \<Rightarrow> contents \<times> mailbox" where
  "mb_Take rung m =
     (\<lparr>mc_planned = mb_pending m, mc_submitted = mb_submitted m, mc_gpu_planned = mb_gpu_pending m,
       mc_gpu_submitted = mb_gpu_submitted m, mc_power = mb_power m, mc_stop = mb_stop m\<rparr>,
      m\<lparr>mb_pending := None, mb_submitted := [], mb_gpu_pending := None, mb_gpu_submitted := [],
        mb_rung := (if rung then False else mb_rung m)\<rparr>)"

definition HasSubmitted :: "mailbox \<Rightarrow> bool" where
  "HasSubmitted m \<longleftrightarrow> mb_submitted m \<noteq> []"

text \<open>What is closed of a list of fences: those with a descriptor.\<close>

definition close_all :: "watched list \<Rightarrow> int list" where
  "close_all ws = map wa_fd (filter (\<lambda>w. wa_fd w \<ge> 0) ws)"

definition mb_Discard :: "mailbox \<Rightarrow> mailbox \<times> int list" where
  "mb_Discard m = (m\<lparr>mb_pending := None, mb_submitted := [], mb_gpu_pending := None, mb_gpu_submitted := []\<rparr>,
     close_all (mb_submitted m) @ close_all (mb_gpu_submitted m))"

subsection \<open>The processor's floor and the profile\<close>

record cpu_floor =
  cf_open :: bool
  cf_lifted :: bool
  cf_cur_khz :: "nat option"
  cf_calls :: nat
  cf_kernel :: "nat \<Rightarrow> nat \<Rightarrow> bool"

definition cf_CurrentKhz :: "cpu_floor \<Rightarrow> nat" where
  "cf_CurrentKhz c = (case cf_cur_khz c of None \<Rightarrow> 0 | Some khz \<Rightarrow> wrap_size (int khz))"

definition cf_Write :: "nat \<Rightarrow> cpu_floor \<Rightarrow> bool \<times> cpu_floor" where
  "cf_Write khz c =
     (if \<not> cf_open c then (False, c)
      else if cf_kernel c (cf_calls c) khz then (True, c\<lparr>cf_calls := cf_calls c + 1\<rparr>)
      else (False, c\<lparr>cf_open := False, cf_lifted := False, cf_calls := cf_calls c + 1\<rparr>))"

definition cf_Lift :: "nat \<Rightarrow> cpu_floor \<Rightarrow> bool \<times> cpu_floor" where
  "cf_Lift khz c = (case cf_Write khz c of
     (ok, c1) \<Rightarrow> if ok then (True, c1\<lparr>cf_lifted := True\<rparr>) else (False, c1))"

definition cf_Drop :: "cpu_floor \<Rightarrow> cpu_floor" where
  "cf_Drop c = (if \<not> cf_lifted c then c else snd (cf_Write 0 (c\<lparr>cf_lifted := False\<rparr>)))"

record perf_profile =
  pp_read_ns :: int
  pp_profile :: int
  pp_property :: "int option"

definition powerSave :: int where "powerSave = 0"

definition pp_Read :: "int \<Rightarrow> int \<Rightarrow> perf_profile \<Rightarrow> int \<times> perf_profile" where
  "pp_Read now poll p =
     (if pp_read_ns p \<noteq> 0 \<and> now - pp_read_ns p < poll then (pp_profile p, p)
      else let v = (case pp_property p of None \<Rightarrow> -1 | Some v \<Rightarrow> v)
           in (v, p\<lparr>pp_read_ns := now, pp_profile := v\<rparr>))"

subsection \<open>The governor\<close>

text \<open>\<open>gv_warm_answer\<close> is what the host answers to the \<open>gv_warms\<close>-th warm-up; \<open>gv_closed\<close> and
  \<open>gv_warm_closed\<close> are the descriptors the governor itself has closed, of fences handed to it and of
  its own warm-ups.\<close>

record governor =
  gv_dead :: bool
  gv_mail :: mailbox
  gv_vic :: "engine_clock lane"
  gv_gpu :: "gpu_clock lane"
  gv_cpu :: cpu_floor
  gv_profile :: perf_profile
  gv_cpu_until :: int
  gv_last_warm :: int
  gv_last_plan :: int
  gv_last_frame :: gov_frame
  gv_planned_seq :: nat
  gv_planned_validate :: int
  gv_planned_cpu_khz :: nat
  gv_planned_cold :: bool
  gv_submit_cycles :: int
  gv_cold_extra :: int
  gv_warms :: nat
  gv_warm_answer :: "nat \<Rightarrow> int"
  gv_warm_closed :: "int list"
  gv_closed :: "int list"

definition INT64_MAX :: int where "INT64_MAX = 9223372036854775807"

text \<open>The composer's side.\<close>

definition FramePlanned :: "gov_frame \<Rightarrow> gov_member list \<Rightarrow> governor \<Rightarrow> governor" where
  "FramePlanned f ms g = (if gv_dead g then g else g\<lparr>gv_mail := mb_Plan f ms (gv_mail g)\<rparr>)"

definition MergeSubmitted :: "nat \<Rightarrow> int \<Rightarrow> int \<Rightarrow> governor \<Rightarrow> governor" where
  "MergeSubmitted seq fd now g =
     (if gv_dead g then if fd \<ge> 0 then g\<lparr>gv_closed := gv_closed g @ [fd]\<rparr> else g
      else g\<lparr>gv_mail := mb_Submit seq fd now (gv_mail g)\<rparr>)"

definition GpuPlanned :: "nat \<Rightarrow> nat \<Rightarrow> int \<Rightarrow> governor \<Rightarrow> governor" where
  "GpuPlanned seq pixels now g =
     (if gv_dead g then g else g\<lparr>gv_mail := mb_PlanGpu seq pixels now (gv_mail g)\<rparr>)"

definition GpuSubmitted :: "nat \<Rightarrow> int \<Rightarrow> int \<Rightarrow> governor \<Rightarrow> governor" where
  "GpuSubmitted seq fd now g =
     (if gv_dead g then if fd \<ge> 0 then g\<lparr>gv_closed := gv_closed g @ [fd]\<rparr> else g
      else g\<lparr>gv_mail := mb_SubmitGpu seq fd now (gv_mail g)\<rparr>)"

definition PowerMode :: "power \<Rightarrow> governor \<Rightarrow> governor" where
  "PowerMode mode g = g\<lparr>gv_mail := mb_SetPower mode (gv_mail g)\<rparr>"

text \<open>The thread's side.\<close>

definition TimeoutMs :: "tuning \<Rightarrow> int \<Rightarrow> governor \<Rightarrow> int" where
  "TimeoutMs t now g =
     (let due = consider_due (ln_NextDueNs t (gv_gpu g))
                  (consider_due (ln_NextDueNs t (gv_vic g)) (consider_due (gv_cpu_until g) 0))
      in if due = 0 then -1 else if due \<le> now then 0
         else sint (word_of_int (cdiv (due - now + nsPerMs - 1) nsPerMs) :: 32 word))"

definition gv_DropCpu :: "governor \<Rightarrow> governor" where
  "gv_DropCpu g = g\<lparr>gv_cpu := cf_Drop (gv_cpu g), gv_cpu_until := 0\<rparr>"

definition DropEverything :: "governor \<Rightarrow> governor" where
  "DropEverything g = gv_DropCpu (g\<lparr>gv_vic := ln_DropAll engine_ops (gv_vic g),
     gv_gpu := ln_DropAll gpu_ops (gv_gpu g)\<rparr>)"

definition Warm :: "int \<Rightarrow> governor \<Rightarrow> governor" where
  "Warm now g =
     (let fd = gv_warm_answer g (gv_warms g); g1 = g\<lparr>gv_warms := gv_warms g + 1\<rparr> in
      if fd < 0 then g1
      else g1\<lparr>gv_last_warm := now, gv_warm_closed := gv_warm_closed g @ [fd]\<rparr>)"

definition ReadProfile :: "tuning \<Rightarrow> int \<Rightarrow> governor \<Rightarrow> int \<times> governor" where
  "ReadProfile t now g = (case pp_Read now (int (profile_poll_ms t) * nsPerMs) (gv_profile g) of
     (v, p) \<Rightarrow> (v, g\<lparr>gv_profile := p\<rparr>))"

definition WarmAhead :: "tuning \<Rightarrow> gov_frame \<Rightarrow> int \<Rightarrow> int \<Rightarrow> governor \<Rightarrow> governor" where
  "WarmAhead t f now gap g =
     (if warm_ahead t = 0 \<or> gap < int (powergate_ms t) * nsPerMs \<or> \<not> EngineCold f (gv_last_warm g) now t
      then g
      else case ReadProfile t now g of (v, g1) \<Rightarrow> if v = powerSave then g1 else Warm now g1)"

definition MeasuredSubmitNs :: "nat \<Rightarrow> governor \<Rightarrow> int" where
  "MeasuredSubmitNs khz g =
     (if gv_submit_cycles g = 0 \<or> khz = 0 then 0 else cdiv (gv_submit_cycles g * 1000000) (int khz))"

definition MeasuredColdExtraNs :: "tuning \<Rightarrow> nat \<Rightarrow> governor \<Rightarrow> int" where
  "MeasuredColdExtraNs t khz g =
     (if cold_measured t = 0 \<or> gv_cold_extra g = 0 \<or> khz = 0 then 0
      else cdiv (gv_cold_extra g * 1000000) (int khz))"

text \<open>The running mean of both measures: the first sample is the mean, and one three times the
  mean is left out.\<close>

definition take_sample :: "int \<Rightarrow> int \<Rightarrow> int \<Rightarrow> int" where
  "take_sample smooth mean sample =
     (if mean \<noteq> 0 \<and> sample > 3 * mean then mean
      else if mean = 0 then sample else cdiv (mean * smooth + sample) (smooth + 1))"

definition NoteColdSubmit :: "tuning \<Rightarrow> int \<Rightarrow> governor \<Rightarrow> governor" where
  "NoteColdSubmit t sample g =
     (if gv_submit_cycles g = 0 \<or> gv_planned_cpu_khz g = 0 then g
      else let total = cdiv (sample * int (gv_planned_cpu_khz g)) 1000000;
               extra = max (total - gv_submit_cycles g) 0
           in g\<lparr>gv_cold_extra := take_sample (int (submit_smooth t)) (gv_cold_extra g) extra\<rparr>)"

definition NoteSubmit :: "tuning \<Rightarrow> nat \<Rightarrow> int \<Rightarrow> governor \<Rightarrow> governor" where
  "NoteSubmit t seq reported g =
     (if seq \<noteq> gv_planned_seq g \<or> gv_planned_validate g = 0 then g
      else let sample = reported - gv_planned_validate g; g1 = g\<lparr>gv_planned_validate := 0\<rparr> in
           if gv_planned_cpu_khz g = 0 \<or> sample \<le> 0 \<or> sample > 100 * nsPerMs then g1
           else if gv_planned_cold g then NoteColdSubmit t sample g1
           else let cycles = cdiv (sample * int (gv_planned_cpu_khz g)) 1000000
                in g1\<lparr>gv_submit_cycles := take_sample (int (submit_smooth t)) (gv_submit_cycles g) cycles\<rparr>)"


text \<open>The first merge after a pause, read from the engine's last use.\<close>

definition decide_paused :: "tuning \<Rightarrow> gov_frame \<Rightarrow> int \<Rightarrow> bool" where
  "decide_paused t f now \<longleftrightarrow> pause_ms t \<noteq> 0 \<and> fr_last_engine_use_ns f \<noteq> 0 \<and>
     now - fr_last_engine_use_ns f \<ge> int (pause_ms t) * nsPerMs"

definition decide_khz :: "tuning \<Rightarrow> bool \<Rightarrow> bool \<Rightarrow> governor \<Rightarrow> nat" where
  "decide_khz t cold paused g =
     (if cf_open (gv_cpu g) \<and> (submit_measured t \<noteq> 0 \<or> cold \<or> paused) then cf_CurrentKhz (gv_cpu g) else 0)"

definition decide_lift :: "tuning \<Rightarrow> gov_frame \<Rightarrow> bool \<Rightarrow> bool \<Rightarrow> bool \<Rightarrow> bool \<Rightarrow> governor \<Rightarrow> bool" where
  "decide_lift t f cold paused reported power_save g \<longleftrightarrow>
     (cold \<or> paused \<and> cpu_pause_lift t \<noteq> 0) \<and> \<not> reported \<and> fr_previous_flip_landed f \<and> \<not> power_save \<and>
     cf_open (gv_cpu g) \<and> cpu_khz t \<noteq> 0 \<and> ac_usable engine_ops (ln_actuator (gv_vic g))"

definition LiftCpu :: "tuning \<Rightarrow> int \<Rightarrow> governor \<Rightarrow> bool \<times> governor" where
  "LiftCpu t now g = (case cf_Lift (cpu_khz t) (gv_cpu g) of (ok, c) \<Rightarrow>
     if ok then (True, g\<lparr>gv_cpu := c, gv_cpu_until := now + int (cpu_cap_ms t) * nsPerMs\<rparr>)
     else (False, g\<lparr>gv_cpu := c\<rparr>))"

definition decide_submit_after :: "tuning \<Rightarrow> bool \<Rightarrow> bool \<Rightarrow> nat \<Rightarrow> governor \<Rightarrow> int" where
  "decide_submit_after t cold lift_cpu path_khz g =
     (let after = (if submit_measured t \<noteq> 0 then MeasuredSubmitNs path_khz g else 0) in
      if after > 0 \<and> cold
      then let extra = MeasuredColdExtraNs t path_khz g
           in after + (if extra > 0 then extra
                else int (if lift_cpu then submit_cold_us t else submit_cold_slow_us t) * nsPerUs)
      else after)"

text \<open>The tail of a merge's decision, once its estimate is known: the warm-up, the floor, and the
  processor's lift where it was left for last.\<close>

definition decide_act :: "tuning \<Rightarrow> int \<Rightarrow> bool \<Rightarrow> bool \<Rightarrow> bool \<Rightarrow> bool \<Rightarrow> bool \<Rightarrow> bool \<Rightarrow> nat \<Rightarrow> governor \<Rightarrow> governor" where
  "decide_act t now reported has_submitted cold power_save lift_cpu lifted step g =
     (let g1 = (if cold \<and> \<not> reported then Warm now g else g) in
      if power_save then g1
      else if \<not> ac_usable engine_ops (ln_actuator (gv_vic g1)) then g1
      else let held = (cold \<and> \<not> reported \<and> step > cold_cap_mhz t);
               owed = (if held then step else 0);
               ask = (if held then cold_cap_mhz t else step);
               g2 = g1\<lparr>gv_vic := ln_Ask engine_ops t ask owed reported now (gv_vic g1)\<rparr>
           in if lift_cpu \<and> \<not> lifted \<and> \<not> has_submitted then snd (LiftCpu t now g2) else g2)"

definition decide_merge :: "tuning \<Rightarrow> planned \<Rightarrow> int \<Rightarrow> bool \<Rightarrow> bool \<Rightarrow> governor \<Rightarrow> governor" where
  "decide_merge t p now reported has_submitted g0 =
     (case ReadProfile t now g0 of (profile, g) \<Rightarrow>
      let f = pl_frame p;
          power_save = (profile = powerSave);
          cold = EngineCold f (gv_last_warm g) now t;
          paused = decide_paused t f now;
          khz = decide_khz t cold paused g;
          lift_cpu = decide_lift t f cold paused reported power_save g
      in case (if lift_cpu \<and> (khz \<le> cpu_low_khz t \<or> \<not> cold \<and> khz < cpu_khz t) then LiftCpu t now g
               else (False, g)) of
           (lifted, g1) \<Rightarrow>
             let path_khz = (if lift_cpu then max khz (cpu_khz t) else khz);
                 g2 = g1\<lparr>gv_planned_seq := fr_seq f, gv_planned_validate := fr_now_ns f,
                         gv_planned_cpu_khz := path_khz, gv_planned_cold := cold\<rparr>;
                 e = EstimateMerge f (pl_members p) now t cold lift_cpu
                       (decide_submit_after t cold lift_cpu path_khz g2)
             in decide_act t now reported has_submitted cold power_save lift_cpu lifted (es_step_mhz e) g2)"

definition gv_Decide :: "tuning \<Rightarrow> planned \<Rightarrow> int \<Rightarrow> bool \<Rightarrow> bool \<Rightarrow> governor \<Rightarrow> governor" where
  "gv_Decide t p now reported has_submitted g =
     (let f = pl_frame p;
          gap = (if gv_last_plan g \<noteq> 0 then fr_now_ns f - gv_last_plan g else INT64_MAX);
          g1 = g\<lparr>gv_last_plan := fr_now_ns f, gv_last_frame := f\<rparr>
      in if \<not> fr_merge_planned f \<or> fr_merge_reuse_predicted f then WarmAhead t f now gap g1
         else decide_merge t p now reported has_submitted g1)"

definition DecideGpu :: "tuning \<Rightarrow> gpu_plan \<Rightarrow> int \<Rightarrow> governor \<Rightarrow> governor" where
  "DecideGpu t p now g =
     (if gpu_boost t = 0 \<or> \<not> ac_usable gpu_ops (ln_actuator (gv_gpu g)) then g
      else if fr_seq (gv_last_frame g) \<noteq> gp_seq p then g
      else case ReadProfile t now g of (profile, g1) \<Rightarrow>
        if profile = powerSave then g1
        else g1\<lparr>gv_gpu := ln_Ask gpu_ops t (es_step_mhz (EstimateGpu (gv_last_frame g1) (gp_pixels p) now t)) 0
                  (HasReported (gp_seq p) (gv_gpu g1)) now (gv_gpu g1)\<rparr>)"

text \<open>The poll set of a round: the mailbox, then each lane's fences.\<close>

definition gv_poll_set :: "int \<Rightarrow> governor \<Rightarrow> pollfd list \<times> governor" where
  "gv_poll_set fd g =
     (case ln_AppendPollSet [\<lparr>pf_fd = fd, pf_events = POLLIN, pf_revents = 0\<rparr>] (gv_vic g) of
        (fds1, vic) \<Rightarrow> case ln_AppendPollSet fds1 (gv_gpu g) of
          (fds2, gpu) \<Rightarrow> (fds2, g\<lparr>gv_vic := vic, gv_gpu := gpu\<rparr>))"

definition note_all :: "tuning \<Rightarrow> watched list \<Rightarrow> governor \<Rightarrow> governor" where
  "note_all t ws g = fold (\<lambda>w. NoteSubmit t (wa_seq w) (wa_since_ns w)) ws g"

definition gv_serve :: "tuning \<Rightarrow> pollfd list \<Rightarrow> int \<Rightarrow> bool \<Rightarrow> contents \<Rightarrow> governor \<Rightarrow> governor" where
  "gv_serve t fds now has_submitted mail g =
     (let g1 = (if mc_submitted mail \<noteq> []
                then let d = gv_DropCpu g in d\<lparr>gv_vic := ln_Reported engine_ops (gv_vic d)\<rparr> else g);
          g2 = note_all t (mc_submitted mail) g1;
          g3 = g2\<lparr>gv_vic := ln_Follow engine_ops t fds (mc_submitted mail) now (gv_vic g2)\<rparr>;
          g4 = (if mc_gpu_submitted mail \<noteq> [] then g3\<lparr>gv_gpu := ln_Reported gpu_ops (gv_gpu g3)\<rparr> else g3);
          g5 = g4\<lparr>gv_gpu := ln_Follow gpu_ops t fds (mc_gpu_submitted mail) now (gv_gpu g4)\<rparr>;
          g6 = (case mc_planned mail of None \<Rightarrow> g5
                | Some p \<Rightarrow> note_all t (mc_submitted mail)
                    (gv_Decide t p now (HasReported (fr_seq (pl_frame p)) (gv_vic g5)) has_submitted g5));
          g7 = (case mc_gpu_planned mail of None \<Rightarrow> g6 | Some p \<Rightarrow> DecideGpu t p now g6);
          g8 = g7\<lparr>gv_vic := ln_ReleaseIfDue engine_ops now (gv_vic g7),
                  gv_gpu := ln_ReleaseIfDue gpu_ops now (gv_gpu g7)\<rparr>
      in if gv_cpu_until g8 \<noteq> 0 \<and> now \<ge> gv_cpu_until g8 then gv_DropCpu g8 else g8)"

text \<open>One turn of the thread, whether it goes on and what it leaves. \<open>None\<close> is a poll that failed;
  \<open>Some fds\<close> the poll set as it came back. \<open>has_submitted\<close> is the mailbox asked again, later in the
  turn.\<close>

definition gv_turn :: "tuning \<Rightarrow> pollfd list option \<Rightarrow> int \<Rightarrow> bool \<Rightarrow> governor \<Rightarrow> bool \<times> governor" where
  "gv_turn t polled now has_submitted g =
     (case polled of
        None \<Rightarrow> (False, DropEverything (g\<lparr>gv_dead := True\<rparr>))
      | Some fds \<Rightarrow>
          (case mb_Take (pf_revents (fds ! 0) AND POLLIN \<noteq> 0) (gv_mail g) of
             (mail, m) \<Rightarrow>
               let g1 = g\<lparr>gv_mail := m\<rparr> in
               if mc_stop mail \<or> mc_power mail \<noteq> Power_on
               then (\<not> mc_stop mail, DropEverything (g1\<lparr>gv_closed := gv_closed g1 @
                       close_all (mc_submitted mail) @ close_all (mc_gpu_submitted mail)\<rparr>))
               else (True, gv_serve t fds now has_submitted mail g1)))"

text \<open>The destructor, once the thread is joined: the mailbox closes what was never taken.\<close>

definition gv_Destroy :: "governor \<Rightarrow> governor" where
  "gv_Destroy g = (case mb_Discard (gv_mail g) of
     (m, shut) \<Rightarrow> g\<lparr>gv_mail := m, gv_closed := gv_closed g @ shut\<rparr>)"


subsection \<open>What each step touches\<close>

definition all_closed :: "governor \<Rightarrow> int list" where
  "all_closed g = gv_closed g @ ln_closed (gv_vic g) @ ln_closed (gv_gpu g)"

definition mail_fds :: "mailbox \<Rightarrow> int multiset" where
  "mail_fds m = mset (close_all (mb_submitted m)) + mset (close_all (mb_gpu_submitted m))"

definition gov_fds :: "governor \<Rightarrow> int multiset" where
  "gov_fds g = mset (gv_closed g) + mail_fds (gv_mail g) + lane_fds (gv_vic g) + lane_fds (gv_gpu g)"

lemma close_all_simps [simp]:
  "close_all [] = []" "close_all (ws @ vs) = close_all ws @ close_all vs"
  "close_all [\<lparr>wa_fd = fd, wa_seq = s, wa_since_ns = n\<rparr>] = (if fd < 0 then [] else [fd])"
  by (simp_all add: close_all_def)

lemma add_all_fds:
  "map wa_fd (fw_watched (add_all now ws f)) = map wa_fd (fw_watched f) @ close_all ws"
  by (induction ws arbitrary: f) (auto simp: fw_Add_def Let_def close_all_def)

lemma lane_fds_Follow_all:
  "lane_fds (ln_Follow ops t fds submitted now l) = lane_fds l + mset (close_all submitted)"
proof -
  obtain kept shut where j: "judge_loop fds now (patience_ns t) (ln_first_slot l)
      (fw_watched (ln_fences l)) = (kept, shut)" by fastforce
  show ?thesis
    using judge_loop_mset [OF j]
    by (simp add: ln_Follow_def fw_Judge_def j lane_fds_def Let_def add_all_fds del: mset_map)
qed

text \<open>The steps of a decision that leave the fences, the mailbox and the other lane alone.\<close>

definition same_fds :: "governor \<Rightarrow> governor \<Rightarrow> bool" where
  "same_fds g h \<longleftrightarrow> gv_closed h = gv_closed g \<and> gv_mail h = gv_mail g \<and> gv_dead h = gv_dead g \<and>
     lane_fds (gv_vic h) = lane_fds (gv_vic g) \<and> lane_fds (gv_gpu h) = lane_fds (gv_gpu g)"

lemma same_fds_refl [simp]: "same_fds g g"
  by (simp add: same_fds_def)

lemma same_fds_trans: "same_fds f g \<Longrightarrow> same_fds g h \<Longrightarrow> same_fds f h"
  by (simp add: same_fds_def)

lemma same_fds_gov: "same_fds g h \<Longrightarrow> gov_fds h = gov_fds g"
  by (simp add: same_fds_def gov_fds_def)

lemma ReadProfile_alt:
  "ReadProfile t now g = (fst (ReadProfile t now g), g\<lparr>gv_profile := gv_profile (snd (ReadProfile t now g))\<rparr>)"
  by (simp add: ReadProfile_def split: prod.split)

lemma ReadProfile_obtain:
  obtains v p where "ReadProfile t now g = (v, g\<lparr>gv_profile := p\<rparr>)" "v = fst (ReadProfile t now g)"
  using ReadProfile_alt by metis

lemma cf_Lift_fails: "cf_Lift khz c = (False, d) \<Longrightarrow> cf_lifted d \<longrightarrow> cf_lifted c"
  by (auto simp: cf_Lift_def cf_Write_def split: if_splits prod.splits)

lemma LiftCpu_obtain:
  obtains ok c u where "LiftCpu t now g = (ok, g\<lparr>gv_cpu := c, gv_cpu_until := u\<rparr>)"
    "ok \<Longrightarrow> u = now + int (cpu_cap_ms t) * nsPerMs"
    "\<not> ok \<Longrightarrow> u = gv_cpu_until g \<and> (cf_lifted c \<longrightarrow> cf_lifted (gv_cpu g))"
proof -
  obtain ok c where l: "cf_Lift (cpu_khz t) (gv_cpu g) = (ok, c)" by fastforce
  show thesis
  proof (cases ok)
    case True
    then show thesis
      using that [of True "now + int (cpu_cap_ms t) * nsPerMs" c] l by (simp add: LiftCpu_def)
  next
    case False
    then show thesis
      using that [of False "gv_cpu_until g" c] l cf_Lift_fails [of "cpu_khz t" "gv_cpu g" c]
      by (simp add: LiftCpu_def)
  qed
qed

lemma same_fds_Warm [simp]: "same_fds g (Warm now g)"
  by (simp add: same_fds_def Warm_def Let_def)

lemma same_fds_WarmAhead: "same_fds g (WarmAhead t f now gap g)"
proof -
  obtain v p where r: "ReadProfile t now g = (v, g\<lparr>gv_profile := p\<rparr>)" by (rule ReadProfile_obtain)
  have "same_fds g (g\<lparr>gv_profile := p\<rparr>)" by (simp add: same_fds_def)
  then show ?thesis
    using same_fds_trans [OF _ same_fds_Warm] by (auto simp: WarmAhead_def r)
qed

lemma same_fds_LiftCpu: "same_fds g (snd (LiftCpu t now g))"
  by (rule LiftCpu_obtain [of t now g]) (simp add: same_fds_def)

lemma same_fds_act:
  "same_fds g (decide_act t now reported hs cold ps lift lifted step g)"
proof -
  define g1 where "g1 = (if cold \<and> \<not> reported then Warm now g else g)"
  have 1: "same_fds g g1" by (simp add: g1_def)
  have 2: "same_fds g1 (g1\<lparr>gv_vic := ln_Ask engine_ops t a o' reported now (gv_vic g1)\<rparr>)" for a o'
    by (simp add: same_fds_def)
  show ?thesis
    unfolding decide_act_def g1_def [symmetric]
    using same_fds_trans [OF 1] 1 same_fds_trans [OF same_fds_trans [OF 1 2] same_fds_LiftCpu]
      same_fds_trans [OF 1 2]
    by (simp add: Let_def)
qed

lemma same_fds_merge: "same_fds g (decide_merge t p now reported hs g)"
proof -
  obtain v q where r: "ReadProfile t now g = (v, g\<lparr>gv_profile := q\<rparr>)" by (rule ReadProfile_obtain)
  define g1 where "g1 = g\<lparr>gv_profile := q\<rparr>"
  have 1: "same_fds g g1" by (simp add: same_fds_def g1_def)
  have l: "same_fds g1 (snd (if b then LiftCpu t now g1 else (False, g1)))" for b
    using same_fds_LiftCpu by simp
  have n: "same_fds h (h\<lparr>gv_planned_seq := a, gv_planned_validate := b, gv_planned_cpu_khz := c,
      gv_planned_cold := d\<rparr>)" for h a b c d
    by (simp add: same_fds_def)
  show ?thesis
    unfolding decide_merge_def r g1_def [symmetric]
    using same_fds_trans [OF same_fds_trans [OF same_fds_trans [OF 1 l] n] same_fds_act]
    by (simp add: Let_def split_beta)
qed

lemma same_fds_Decide: "same_fds g (gv_Decide t p now reported hs g)"
proof -
  have n: "same_fds g (g\<lparr>gv_last_plan := a, gv_last_frame := b\<rparr>)" for a b
    by (simp add: same_fds_def)
  show ?thesis
    using same_fds_trans [OF n same_fds_WarmAhead] same_fds_trans [OF n same_fds_merge]
    by (simp add: gv_Decide_def Let_def)
qed

lemma same_fds_DecideGpu: "same_fds g (DecideGpu t p now g)"
proof -
  obtain v p where r: "ReadProfile t now g = (v, g\<lparr>gv_profile := p\<rparr>)" by (rule ReadProfile_obtain)
  show ?thesis by (simp add: DecideGpu_def r same_fds_def)
qed

lemma same_fds_NoteSubmit: "same_fds g (NoteSubmit t seq reported g)"
  by (simp add: NoteSubmit_def NoteColdSubmit_def Let_def same_fds_def)

lemma same_fds_note_all: "same_fds g (note_all t ws g)"
  unfolding note_all_def
proof (induction ws arbitrary: g)
  case (Cons w ws)
  show ?case
    by (simp only: fold_Cons o_apply) (rule same_fds_trans [OF same_fds_NoteSubmit Cons.IH])
qed simp

lemma gov_fds_serve:
  "gov_fds (gv_serve t fds now hs mail g) =
     gov_fds g + mset (close_all (mc_submitted mail)) + mset (close_all (mc_gpu_submitted mail))"
proof -
  define g1 where "g1 = (if mc_submitted mail \<noteq> []
    then (gv_DropCpu g)\<lparr>gv_vic := ln_Reported engine_ops (gv_vic (gv_DropCpu g))\<rparr> else g)"
  define g2 where "g2 = note_all t (mc_submitted mail) g1"
  define g3 where "g3 = g2\<lparr>gv_vic := ln_Follow engine_ops t fds (mc_submitted mail) now (gv_vic g2)\<rparr>"
  define g4 where "g4 = (if mc_gpu_submitted mail \<noteq> [] then g3\<lparr>gv_gpu := ln_Reported gpu_ops (gv_gpu g3)\<rparr> else g3)"
  define g5 where "g5 = g4\<lparr>gv_gpu := ln_Follow gpu_ops t fds (mc_gpu_submitted mail) now (gv_gpu g4)\<rparr>"
  define g6 where "g6 = (case mc_planned mail of None \<Rightarrow> g5
     | Some p \<Rightarrow> note_all t (mc_submitted mail)
         (gv_Decide t p now (HasReported (fr_seq (pl_frame p)) (gv_vic g5)) hs g5))"
  define g7 where "g7 = (case mc_gpu_planned mail of None \<Rightarrow> g6 | Some p \<Rightarrow> DecideGpu t p now g6)"
  define g8 where "g8 = g7\<lparr>gv_vic := ln_ReleaseIfDue engine_ops now (gv_vic g7),
                  gv_gpu := ln_ReleaseIfDue gpu_ops now (gv_gpu g7)\<rparr>"
  have e: "gv_serve t fds now hs mail g = (if gv_cpu_until g8 \<noteq> 0 \<and> now \<ge> gv_cpu_until g8 then gv_DropCpu g8 else g8)"
    unfolding gv_serve_def Let_def g8_def g7_def g6_def g5_def g4_def g3_def g2_def g1_def by (rule refl)
  have "gov_fds g1 = gov_fds g" by (simp add: g1_def gov_fds_def gv_DropCpu_def)
  moreover have "gov_fds g2 = gov_fds g1"
    unfolding g2_def by (rule same_fds_gov [OF same_fds_note_all])
  moreover have "gov_fds g3 = gov_fds g2 + mset (close_all (mc_submitted mail))"
    by (simp add: g3_def gov_fds_def lane_fds_Follow_all)
  moreover have "gov_fds g4 = gov_fds g3" by (simp add: g4_def gov_fds_def)
  moreover have "gov_fds g5 = gov_fds g4 + mset (close_all (mc_gpu_submitted mail))"
    by (simp add: g5_def gov_fds_def lane_fds_Follow_all)
  moreover have "gov_fds g6 = gov_fds g5"
    unfolding g6_def
    by (cases "mc_planned mail")
      (simp_all add: same_fds_gov [OF same_fds_trans [OF same_fds_Decide same_fds_note_all]])
  moreover have "gov_fds g7 = gov_fds g6"
    unfolding g7_def by (cases "mc_gpu_planned mail") (simp_all add: same_fds_gov [OF same_fds_DecideGpu])
  moreover have "gov_fds g8 = gov_fds g7" by (simp add: g8_def gov_fds_def)
  moreover have "gov_fds (gv_DropCpu g8) = gov_fds g8" by (simp add: gov_fds_def gv_DropCpu_def)
  ultimately show ?thesis by (simp add: e)
qed


subsection \<open>Runs of the governor\<close>

text \<open>\<open>world\<close> is the kernel's and the properties' state moving under the governor. \<open>given\<close> lists
  every descriptor handed over, \<open>clk\<close> is the time of the thread's last turn, and \<open>running\<close> says
  whether the thread still stands.\<close>

definition gov_start :: "governor \<Rightarrow> bool" where
  "gov_start g \<longleftrightarrow> \<not> gv_dead g \<and> gv_mail g = mb_init \<and>
     gv_vic g = ln_init (ln_actuator (gv_vic g)) \<and> gv_gpu g = ln_init (ln_actuator (gv_gpu g)) \<and>
     ec_floor_mhz (ln_actuator (gv_vic g)) = 0 \<and> gk_floor_mhz (ln_actuator (gv_gpu g)) = 0 \<and>
     \<not> cf_lifted (gv_cpu g) \<and> gv_cpu_until g = 0 \<and> gv_closed g = []"

definition world :: "nat option \<Rightarrow> nat option \<Rightarrow> nat option \<Rightarrow> int option \<Rightarrow> governor \<Rightarrow> governor" where
  "world vic_hz gpu_hz cpu prop g = g\<lparr>
     gv_vic := (gv_vic g)\<lparr>ln_actuator := (ln_actuator (gv_vic g))\<lparr>ec_devfreq_hz := vic_hz\<rparr>\<rparr>,
     gv_gpu := (gv_gpu g)\<lparr>ln_actuator := (ln_actuator (gv_gpu g))\<lparr>gk_devfreq_hz := gpu_hz\<rparr>\<rparr>,
     gv_cpu := (gv_cpu g)\<lparr>cf_cur_khz := cpu\<rparr>,
     gv_profile := (gv_profile g)\<lparr>pp_property := prop\<rparr>\<rparr>"

inductive gov_reach :: "tuning \<Rightarrow> bool \<Rightarrow> governor \<Rightarrow> int list \<Rightarrow> int \<Rightarrow> bool" for t where
  start: "gov_start g \<Longrightarrow> gov_reach t True g [] 0"
| planned: "gov_reach t r g given clk \<Longrightarrow> gov_reach t r (FramePlanned f ms g) given clk"
| merged: "gov_reach t r g given clk \<Longrightarrow> 0 \<le> fd \<Longrightarrow>
    gov_reach t r (MergeSubmitted seq fd now g) (fd # given) clk"
| merged_unfenced: "gov_reach t r g given clk \<Longrightarrow> fd < 0 \<Longrightarrow>
    gov_reach t r (MergeSubmitted seq fd now g) given clk"
| gpu_planned: "gov_reach t r g given clk \<Longrightarrow> gov_reach t r (GpuPlanned seq px now g) given clk"
| gpu_merged: "gov_reach t r g given clk \<Longrightarrow> 0 \<le> fd \<Longrightarrow>
    gov_reach t r (GpuSubmitted seq fd now g) (fd # given) clk"
| gpu_unfenced: "gov_reach t r g given clk \<Longrightarrow> fd < 0 \<Longrightarrow>
    gov_reach t r (GpuSubmitted seq fd now g) given clk"
| power: "gov_reach t r g given clk \<Longrightarrow> gov_reach t r (PowerMode mode g) given clk"
| stopped: "gov_reach t r g given clk \<Longrightarrow> gov_reach t r (g\<lparr>gv_mail := mb_Stop (gv_mail g)\<rparr>) given clk"
| world: "gov_reach t r g given clk \<Longrightarrow> gov_reach t r (world a b c d g) given clk"
| turn: "gov_reach t True g given clk \<Longrightarrow> clk < now \<Longrightarrow>
    gv_turn t polled now hs (snd (gv_poll_set efd g)) = (r, h) \<Longrightarrow> gov_reach t r h given now"

lemma mail_fds_simps [simp]:
  "mail_fds (mb_Plan f ms m) = mail_fds m" "mail_fds (mb_PlanGpu seq px now m) = mail_fds m"
  "mail_fds (mb_SetPower p m) = mail_fds m" "mail_fds (mb_Stop m) = mail_fds m"
  "mail_fds (mb_Submit seq fd now m) = mail_fds m + (if fd < 0 then {#} else {#fd#})"
  "mail_fds (mb_SubmitGpu seq fd now m) = mail_fds m + (if fd < 0 then {#} else {#fd#})"
  "mail_fds (snd (mb_Take rung m)) = {#}" "mail_fds (fst (mb_Discard m)) = {#}"
  "mail_fds mb_init = {#}"
  by (simp_all add: mail_fds_def mb_Plan_def mb_PlanGpu_def mb_SetPower_def mb_Stop_def mb_Submit_def
      mb_SubmitGpu_def mb_Ring_def mb_Take_def mb_Discard_def mb_init_def Let_def)

lemma mb_Take_fields [simp]:
  "mc_submitted (fst (mb_Take rung m)) = mb_submitted m"
  "mc_gpu_submitted (fst (mb_Take rung m)) = mb_gpu_submitted m"
  by (simp_all add: mb_Take_def)

lemma lane_fds_fields [simp]:
  "lane_fds (l\<lparr>ln_actuator := a\<rparr>) = lane_fds l" "lane_fds (l\<lparr>ln_first_slot := s\<rparr>) = lane_fds l"
  by (simp_all add: lane_fds_def)

lemma gov_fds_poll_set [simp]: "gov_fds (snd (gv_poll_set efd g)) = gov_fds g"
  by (simp add: gv_poll_set_def ln_AppendPollSet_def gov_fds_def)

lemma gov_fds_DropEverything [simp]: "gov_fds (DropEverything g) = gov_fds g"
  by (simp add: DropEverything_def gv_DropCpu_def gov_fds_def)

definition lanes_bare :: "governor \<Rightarrow> bool" where
  "lanes_bare g \<longleftrightarrow> fw_watched (ln_fences (gv_vic g)) = [] \<and> fw_watched (ln_fences (gv_gpu g)) = []"

lemma lanes_bare_DropEverything [simp]: "lanes_bare (DropEverything g)"
  by (simp add: lanes_bare_def DropEverything_def gv_DropCpu_def ln_DropAll_def fw_DropAll_def)

lemma gv_turn_fds:
  assumes "gv_turn t polled now hs g = (r, h)"
  shows "gov_fds h = gov_fds g \<and> (\<not> r \<longrightarrow> lanes_bare h)"
proof (cases polled)
  case None
  then show ?thesis using assms by (auto simp: gv_turn_def gov_fds_def [of "g\<lparr>gv_dead := True\<rparr>"] gov_fds_def [of g])
next
  case (Some fds)
  define rung where "rung \<longleftrightarrow> pf_revents (fds ! 0) AND POLLIN \<noteq> 0"
  define mail where "mail = fst (mb_Take rung (gv_mail g))"
  define m where "m = snd (mb_Take rung (gv_mail g))"
  have tk: "mb_Take rung (gv_mail g) = (mail, m)" by (simp add: mail_def m_def)
  have base: "gov_fds (g\<lparr>gv_mail := m\<rparr>) + mset (close_all (mc_submitted mail)) +
      mset (close_all (mc_gpu_submitted mail)) = gov_fds g"
    by (simp add: gov_fds_def m_def mail_def mail_fds_def [of "gv_mail g"])
  show ?thesis
  proof (cases "mc_stop mail \<or> mc_power mail \<noteq> Power_on")
    case True
    then have h: "h = DropEverything (g\<lparr>gv_mail := m, gv_closed := gv_closed g @
        close_all (mc_submitted mail) @ close_all (mc_gpu_submitted mail)\<rparr>)"
      using assms by (simp add: gv_turn_def Some rung_def [symmetric] tk Let_def)
    have "gov_fds h = gov_fds g"
      unfolding h gov_fds_DropEverything using base by (simp add: gov_fds_def ac_simps)
    then show ?thesis by (simp add: h)
  next
    case False
    then have "r" "h = gv_serve t fds now hs mail (g\<lparr>gv_mail := m\<rparr>)"
      using assms by (simp_all add: gv_turn_def Some rung_def [symmetric] tk Let_def)
    then show ?thesis using base by (simp add: gov_fds_serve)
  qed
qed

lemma gov_reach_fds:
  "gov_reach t r g given clk \<Longrightarrow> gov_fds g = mset given \<and> (\<not> r \<longrightarrow> lanes_bare g)"
proof (induction rule: gov_reach.induct)
  case (start g)
  have "lane_fds (ln_init a) = {#}" for a :: 'a by (simp add: lane_fds_def ln_init_def fw_init_def)
  then have "lane_fds (gv_vic g) = {#}" "lane_fds (gv_gpu g) = {#}" "gv_mail g = mb_init" "gv_closed g = []"
    using start by (metis gov_start_def lane_fds_def ln_init_def)+
  then show ?case by (simp add: gov_fds_def)
next
  case (turn g given clk now polled hs efd r h)
  then show ?case using gv_turn_fds [OF turn.hyps(3)] by simp
qed (auto simp: gov_fds_def lanes_bare_def FramePlanned_def MergeSubmitted_def GpuPlanned_def
    GpuSubmitted_def PowerMode_def world_def)

text \<open>C14: Every fence handed to the governor is closed exactly once: through plans, submits, power
  changes, turns of the thread, a failing poll and the governor's end, the descriptors it has closed by the
  time it is destroyed are those it was given, and no other and none twice.\<close>

theorem governor_closes_every_fence:
  assumes "gov_reach t False g given clk"
  shows "mset (all_closed (gv_Destroy g)) = mset given"
proof -
  have "gov_fds g = mset given" "lanes_bare g" using gov_reach_fds [OF assms] by auto
  then show ?thesis
    by (simp add: gov_fds_def lanes_bare_def all_closed_def gv_Destroy_def mb_Discard_def mail_fds_def
        lane_fds_def union_ac)
qed


definition sample_governor :: governor where
  "sample_governor = \<lparr>gv_dead = False, gv_mail = mb_init,
     gv_vic = ln_init \<lparr>ec_open = True, ec_devfreq_hz = Some 180000000, ec_refused = False,
       ec_floor_mhz = 0, ec_calls = 0, ec_kernel = (\<lambda>_ _. ClockDone)\<rparr>,
     gv_gpu = ln_init \<lparr>gk_open = True, gk_devfreq_hz = Some 72000000, gk_floor_mhz = 0,
       gk_calls = 0, gk_kernel = (\<lambda>_ _. True)\<rparr>,
     gv_cpu = \<lparr>cf_open = True, cf_lifted = False, cf_cur_khz = Some 204000, cf_calls = 0,
       cf_kernel = (\<lambda>_ _. True)\<rparr>,
     gv_profile = \<lparr>pp_read_ns = 0, pp_profile = -1, pp_property = Some 0\<rparr>,
     gv_cpu_until = 0, gv_last_warm = 0, gv_last_plan = 0, gv_last_frame = sample_frame,
     gv_planned_seq = 0, gv_planned_validate = 0, gv_planned_cpu_khz = 0, gv_planned_cold = False,
     gv_submit_cycles = 0, gv_cold_extra = 0, gv_warms = 0, gv_warm_answer = (\<lambda>_. 9),
     gv_warm_closed = [], gv_closed = []\<rparr>"

lemma sample_governor_start: "gov_start sample_governor"
  by (simp add: gov_start_def sample_governor_def ln_init_def)

lemma governor_closes_every_fence_witness:
  "\<exists>g. gov_reach default_tuning False g [7] 10 \<and> mset (all_closed (gv_Destroy g)) = {#7#}"
proof -
  have s: "gov_reach default_tuning True (MergeSubmitted 1 7 5 sample_governor) [7] 0"
    by (rule gov_reach.merged [OF gov_reach.start [OF sample_governor_start]]) simp
  obtain h where h: "gv_turn default_tuning None 10 False
      (snd (gv_poll_set 3 (MergeSubmitted 1 7 5 sample_governor))) = (False, h)"
    by (simp add: gv_turn_def)
  have "gov_reach default_tuning False h [7] 10"
    by (rule gov_reach.turn [OF s _ h]) simp
  then show ?thesis using governor_closes_every_fence by fastforce
qed

subsection \<open>A dark display\<close>

lemma cf_Drop_down [simp]: "\<not> cf_lifted (cf_Drop c)"
  by (simp add: cf_Drop_def cf_Write_def)

lemma DropEverything_down:
  "ec_floor_mhz (ln_actuator (gv_vic (DropEverything g))) = 0"
  "gk_floor_mhz (ln_actuator (gv_gpu (DropEverything g))) = 0"
  "\<not> cf_lifted (gv_cpu (DropEverything g))" "gv_cpu_until (DropEverything g) = 0"
  using engine_floor.released gpu_floor.released
  by (simp_all add: DropEverything_def gv_DropCpu_def ln_DropAll_def fw_DropAll_def engine_ops_def gpu_ops_def)



subsection \<open>The processor is lifted for a while only\<close>

definition lift_ok :: "tuning \<Rightarrow> int \<Rightarrow> governor \<Rightarrow> bool" where
  "lift_ok t now g \<longleftrightarrow> (cf_lifted (gv_cpu g) \<longrightarrow>
     0 < gv_cpu_until g \<and> gv_cpu_until g \<le> now + int (cpu_cap_ms t) * nsPerMs)"

lemma lift_ok_same:
  "gv_cpu h = gv_cpu g \<Longrightarrow> gv_cpu_until h = gv_cpu_until g \<Longrightarrow> lift_ok t now g \<Longrightarrow> lift_ok t now h"
  by (simp add: lift_ok_def)

lemma lift_ok_LiftCpu:
  assumes "0 < now" "lift_ok t now g"
  shows "lift_ok t now (snd (LiftCpu t now g))"
proof (rule LiftCpu_obtain [of t now g])
  fix ok c u
  assume "LiftCpu t now g = (ok, g\<lparr>gv_cpu := c, gv_cpu_until := u\<rparr>)"
    "ok \<Longrightarrow> u = now + int (cpu_cap_ms t) * nsPerMs"
    "\<not> ok \<Longrightarrow> u = gv_cpu_until g \<and> (cf_lifted c \<longrightarrow> cf_lifted (gv_cpu g))"
  then show ?thesis using assms ms_nonneg(1) [OF assms(1), of "cpu_cap_ms t"]
    by (cases ok) (auto simp: lift_ok_def)
qed

lemma Warm_cpu [simp]: "gv_cpu (Warm now g) = gv_cpu g" "gv_cpu_until (Warm now g) = gv_cpu_until g"
  "gv_vic (Warm now g) = gv_vic g" "gv_gpu (Warm now g) = gv_gpu g"
  by (simp_all add: Warm_def Let_def)

lemma WarmAhead_cpu [simp]:
  "gv_cpu (WarmAhead t f now gap g) = gv_cpu g" "gv_cpu_until (WarmAhead t f now gap g) = gv_cpu_until g"
  "gv_vic (WarmAhead t f now gap g) = gv_vic g" "gv_gpu (WarmAhead t f now gap g) = gv_gpu g"
  by (auto simp: WarmAhead_def ReadProfile_def split: prod.splits)

lemma DecideGpu_cpu [simp]:
  "gv_cpu (DecideGpu t p now g) = gv_cpu g" "gv_cpu_until (DecideGpu t p now g) = gv_cpu_until g"
  by (auto simp: DecideGpu_def ReadProfile_def split: prod.splits)

lemma NoteSubmit_cpu [simp]:
  "gv_cpu (NoteSubmit t s r g) = gv_cpu g" "gv_cpu_until (NoteSubmit t s r g) = gv_cpu_until g"
  by (simp_all add: NoteSubmit_def NoteColdSubmit_def Let_def)

lemma note_all_cpu [simp]:
  "gv_cpu (note_all t ws g) = gv_cpu g" "gv_cpu_until (note_all t ws g) = gv_cpu_until g"
  unfolding note_all_def by (induction ws arbitrary: g) simp_all

lemma lift_ok_act:
  assumes "0 < now" "lift_ok t now g"
  shows "lift_ok t now (decide_act t now reported hs cold ps lift lifted step g)"
proof -
  define g1 where "g1 = (if cold \<and> \<not> reported then Warm now g else g)"
  have 1: "lift_ok t now g1" using assms(2) by (simp add: g1_def lift_ok_def)
  then have 2: "lift_ok t now (g1\<lparr>gv_vic := v\<rparr>)" for v by (simp add: lift_ok_def)
  show ?thesis
    unfolding decide_act_def g1_def [symmetric]
    using 1 2 lift_ok_LiftCpu [OF assms(1) 2] by (simp add: Let_def)
qed

lemma lift_ok_Decide:
  assumes "0 < now" "lift_ok t now g"
  shows "lift_ok t now (gv_Decide t p now reported hs g)"
proof -
  define g1 where "g1 = g\<lparr>gv_last_plan := fr_now_ns (pl_frame p), gv_last_frame := pl_frame p\<rparr>"
  have 1: "lift_ok t now g1" using assms(2) by (simp add: g1_def lift_ok_def)
  have 2: "lift_ok t now (WarmAhead t f now gap g1)" for f gap using 1 by (simp add: lift_ok_def)
  obtain v q where r: "ReadProfile t now g1 = (v, g1\<lparr>gv_profile := q\<rparr>)" by (rule ReadProfile_obtain)
  have 3: "lift_ok t now (g1\<lparr>gv_profile := q\<rparr>)" using 1 by (simp add: lift_ok_def)
  have 4: "lift_ok t now (snd (if b then LiftCpu t now (g1\<lparr>gv_profile := q\<rparr>) else (False, g1\<lparr>gv_profile := q\<rparr>)))" for b
    using 3 lift_ok_LiftCpu [OF assms(1) 3] by simp
  have n: "lift_ok t now h \<Longrightarrow> lift_ok t now (h\<lparr>gv_planned_seq := a, gv_planned_validate := b,
      gv_planned_cpu_khz := c, gv_planned_cold := d\<rparr>)" for h a b c d
    by (simp add: lift_ok_def)
  have 5: "lift_ok t now (decide_merge t p now reported hs g1)"
    unfolding decide_merge_def r
    using lift_ok_act [OF assms(1) n [OF 4]] by (simp add: Let_def split_beta)
  show ?thesis using 2 5 by (simp add: gv_Decide_def Let_def g1_def)
qed


lemma lift_ok_serve:
  assumes "0 < now" "lift_ok t now g"
  shows "cf_lifted (gv_cpu (gv_serve t fds now hs mail g)) \<longrightarrow>
    now < gv_cpu_until (gv_serve t fds now hs mail g) \<and>
    gv_cpu_until (gv_serve t fds now hs mail g) \<le> now + int (cpu_cap_ms t) * nsPerMs"
proof -
  define g1 where "g1 = (if mc_submitted mail \<noteq> []
    then (gv_DropCpu g)\<lparr>gv_vic := ln_Reported engine_ops (gv_vic (gv_DropCpu g))\<rparr> else g)"
  define g2 where "g2 = note_all t (mc_submitted mail) g1"
  define g3 where "g3 = g2\<lparr>gv_vic := ln_Follow engine_ops t fds (mc_submitted mail) now (gv_vic g2)\<rparr>"
  define g4 where "g4 = (if mc_gpu_submitted mail \<noteq> [] then g3\<lparr>gv_gpu := ln_Reported gpu_ops (gv_gpu g3)\<rparr> else g3)"
  define g5 where "g5 = g4\<lparr>gv_gpu := ln_Follow gpu_ops t fds (mc_gpu_submitted mail) now (gv_gpu g4)\<rparr>"
  define g6 where "g6 = (case mc_planned mail of None \<Rightarrow> g5
     | Some p \<Rightarrow> note_all t (mc_submitted mail)
         (gv_Decide t p now (HasReported (fr_seq (pl_frame p)) (gv_vic g5)) hs g5))"
  define g7 where "g7 = (case mc_gpu_planned mail of None \<Rightarrow> g6 | Some p \<Rightarrow> DecideGpu t p now g6)"
  define g8 where "g8 = g7\<lparr>gv_vic := ln_ReleaseIfDue engine_ops now (gv_vic g7),
                  gv_gpu := ln_ReleaseIfDue gpu_ops now (gv_gpu g7)\<rparr>"
  have e: "gv_serve t fds now hs mail g = (if gv_cpu_until g8 \<noteq> 0 \<and> now \<ge> gv_cpu_until g8 then gv_DropCpu g8 else g8)"
    unfolding gv_serve_def Let_def g8_def g7_def g6_def g5_def g4_def g3_def g2_def g1_def by (rule refl)
  have "lift_ok t now g1" using assms(2) by (simp add: g1_def lift_ok_def gv_DropCpu_def)
  then have 5: "lift_ok t now g5" by (simp add: g5_def g4_def g3_def g2_def lift_ok_def)
  have "lift_ok t now g6"
  proof (cases "mc_planned mail")
    case None
    then show ?thesis using 5 by (simp add: g6_def)
  next
    case (Some p)
    show ?thesis
      by (rule lift_ok_same [OF _ _ lift_ok_Decide [OF assms(1) 5,
            of p "HasReported (fr_seq (pl_frame p)) (gv_vic g5)" hs]]) (simp_all add: g6_def Some)
  qed
  then have "lift_ok t now g8" by (simp add: g8_def g7_def lift_ok_def split: option.split)
  then show ?thesis by (auto simp: e lift_ok_def gv_DropCpu_def)
qed

lemma gov_reach_lift:
  "gov_reach t r g given clk \<Longrightarrow> 0 \<le> clk \<and> (cf_lifted (gv_cpu g) \<longrightarrow>
     clk < gv_cpu_until g \<and> gv_cpu_until g \<le> clk + int (cpu_cap_ms t) * nsPerMs)"
proof (induction rule: gov_reach.induct)
  case (turn g given clk now polled hs efd r h)
  let ?g = "snd (gv_poll_set efd g)"
  have ok: "lift_ok t now (?g\<lparr>gv_mail := m\<rparr>)" for m
    using turn.IH turn.hyps(2)
    by (auto simp: lift_ok_def gv_poll_set_def ln_AppendPollSet_def)
  have now: "0 < now" using turn.IH turn.hyps(2) by simp
  show ?case
  proof (cases polled)
    case None
    then show ?thesis using turn.hyps(3) now DropEverything_down by (auto simp: gv_turn_def)
  next
    case (Some fds)
    obtain mail m where tk: "mb_Take (pf_revents (fds ! 0) AND POLLIN \<noteq> 0) (gv_mail ?g) = (mail, m)"
      by fastforce
    show ?thesis
    proof (cases "mc_stop mail \<or> mc_power mail \<noteq> Power_on")
      case True
      then obtain g' where "h = DropEverything g'" using turn.hyps(3) Some by (auto simp: gv_turn_def tk Let_def)
      then show ?thesis using DropEverything_down now by simp
    next
      case False
      then have "h = gv_serve t fds now hs mail (?g\<lparr>gv_mail := m\<rparr>)"
        using turn.hyps(3) Some by (auto simp: gv_turn_def tk Let_def)
      then show ?thesis using lift_ok_serve [OF now ok] now by auto
    qed
  qed
qed (auto simp: gov_start_def FramePlanned_def MergeSubmitted_def GpuPlanned_def GpuSubmitted_def
    PowerMode_def world_def)


lemma sint_small: "0 \<le> n \<Longrightarrow> n < 2147483648 \<Longrightarrow> sint (word_of_int n :: 32 word) = n"
  by (simp add: signed_take_bit_int_eq_self sint_sbintrunc')

definition next_due :: "tuning \<Rightarrow> governor \<Rightarrow> int" where
  "next_due t g = consider_due (ln_NextDueNs t (gv_gpu g))
     (consider_due (ln_NextDueNs t (gv_vic g)) (consider_due (gv_cpu_until g) 0))"

text \<open>The thread sleeps until its earliest timer: without a timer it waits for mail alone, with one
  past due not at all, and otherwise no shorter than the timer and less than a millisecond longer.\<close>

theorem thread_sleeps_to_its_timer:
  assumes "next_due t g - now < 2147483647 * nsPerMs"
  shows "(next_due t g = 0 \<longrightarrow> TimeoutMs t now g = -1) \<and>
    (next_due t g \<noteq> 0 \<longrightarrow> next_due t g \<le> now \<longrightarrow> TimeoutMs t now g = 0) \<and>
    (next_due t g > now \<and> next_due t g \<noteq> 0 \<longrightarrow> next_due t g \<le> now + TimeoutMs t now g * nsPerMs \<and>
       now + TimeoutMs t now g * nsPerMs < next_due t g + nsPerMs)"
proof -
  have T: "TimeoutMs t now g = (if next_due t g = 0 then -1 else if next_due t g \<le> now then 0
         else sint (word_of_int (cdiv (next_due t g - now + nsPerMs - 1) nsPerMs) :: 32 word))"
    by (simp add: TimeoutMs_def next_due_def Let_def)
  have "next_due t g \<le> now + TimeoutMs t now g * nsPerMs \<and>
       now + TimeoutMs t now g * nsPerMs < next_due t g + nsPerMs"
    if d: "next_due t g > now" "next_due t g \<noteq> 0"
  proof -
    define x where "x = next_due t g - now"
    have x: "0 < x" "x < 2147483647 * nsPerMs" using d assms by (simp_all add: x_def)
    have c: "cdiv (x + nsPerMs - 1) nsPerMs = (x + nsPerMs - 1) div nsPerMs"
      using x by (intro cdiv_nonneg) (simp_all add: nsPerMs_def)
    have "0 \<le> (x + nsPerMs - 1) div nsPerMs" "(x + nsPerMs - 1) div nsPerMs < 2147483648"
      using x by (simp_all add: nsPerMs_def)
    then have "TimeoutMs t now g = (x + nsPerMs - 1) div nsPerMs"
      using d c by (simp add: T x_def sint_small)
    moreover have "x \<le> (x + nsPerMs - 1) div nsPerMs * nsPerMs"
      "(x + nsPerMs - 1) div nsPerMs * nsPerMs < x + nsPerMs"
      by (simp_all add: nsPerMs_def)
    ultimately show ?thesis by (simp add: x_def)
  qed
  then show ?thesis by (simp add: T)
qed


text \<open>A frame whose merge has to wake a cold engine, with the processor too low for it.\<close>

definition sample_plan :: planned where
  "sample_plan = \<lparr>pl_frame = sample_frame, pl_members = [\<lparr>ge_src_w = 100, ge_src_h = 100, ge_dst_w = 50, ge_dst_h = 50\<rparr>]\<rparr>"

lemma thread_sleeps_to_its_timer_witness:
  "TimeoutMs default_tuning 5 (sample_governor\<lparr>gv_cpu_until := 2000005\<rparr>) = 2 \<and>
   2000005 \<le> 5 + TimeoutMs default_tuning 5 (sample_governor\<lparr>gv_cpu_until := 2000005\<rparr>) * nsPerMs"
proof -
  let ?g = "sample_governor\<lparr>gv_cpu_until := 2000005\<rparr>"
  have n: "next_due default_tuning ?g = 2000005"
    by (simp add: next_due_def sample_governor_def ln_NextDueNs_def ln_init_def fw_NextGiveUpNs_def
        fw_init_def consider_due_def)
  have "2000005 \<le> 5 + TimeoutMs default_tuning 5 ?g * nsPerMs"
    "5 + TimeoutMs default_tuning 5 ?g * nsPerMs < 2000005 + nsPerMs"
    using thread_sleeps_to_its_timer [of default_tuning ?g 5] by (simp_all add: n nsPerMs_def)
  then show ?thesis by (simp add: nsPerMs_def)
qed

subsection \<open>What a decision may do\<close>

lemma decide_act_saving:
  "decide_act t now reported hs cold True lift lifted step g = (if cold \<and> \<not> reported then Warm now g else g)"
  by (simp add: decide_act_def Let_def)

lemma ReadProfile_fields:
  "ReadProfile t now (g\<lparr>gv_last_plan := a, gv_last_frame := b\<rparr>) =
     (fst (ReadProfile t now g),
      (snd (ReadProfile t now g))\<lparr>gv_last_plan := a, gv_last_frame := b\<rparr>)"
  by (simp add: ReadProfile_def split: prod.split)

lemma Warm_warms [simp]: "gv_warms (Warm now g) = Suc (gv_warms g)"
  by (simp add: Warm_def Let_def)

lemma LiftCpu_other [simp]:
  "gv_vic (snd (LiftCpu t now g)) = gv_vic g" "gv_gpu (snd (LiftCpu t now g)) = gv_gpu g"
  "gv_warms (snd (LiftCpu t now g)) = gv_warms g"
  by (auto simp: LiftCpu_def split: prod.splits)

text \<open>C36: In power save nothing is raised: a plan leaves both lanes, the processor and its timer as they
  were, and at most one warm-up is asked of the engine; a drawing's plan leaves the GPU's lane
  alone.\<close>

theorem power_save_raises_nothing:
  assumes "fst (ReadProfile t now g) = powerSave"
  shows "gv_vic (gv_Decide t p now reported hs g) = gv_vic g \<and>
    gv_gpu (gv_Decide t p now reported hs g) = gv_gpu g \<and>
    gv_cpu (gv_Decide t p now reported hs g) = gv_cpu g \<and>
    gv_cpu_until (gv_Decide t p now reported hs g) = gv_cpu_until g \<and>
    gv_warms (gv_Decide t p now reported hs g) \<le> gv_warms g + 1 \<and>
    gv_gpu (DecideGpu t q now g) = gv_gpu g"
proof -
  define g1 where "g1 = g\<lparr>gv_last_plan := fr_now_ns (pl_frame p), gv_last_frame := pl_frame p\<rparr>"
  obtain x where r: "ReadProfile t now g = (powerSave, g\<lparr>gv_profile := x\<rparr>)"
    using assms ReadProfile_alt by metis
  have r1: "ReadProfile t now g1 = (powerSave, g1\<lparr>gv_profile := x\<rparr>)"
    unfolding g1_def ReadProfile_fields r by simp
  define g2 where "g2 = g1\<lparr>gv_profile := x\<rparr>"
  define cold where "cold = EngineCold (pl_frame p) (gv_last_warm g2) now t"
  define khz where "khz = decide_khz t cold (decide_paused t (pl_frame p) now) g2"
  define h where "h = g2\<lparr>gv_planned_seq := fr_seq (pl_frame p), gv_planned_validate := fr_now_ns (pl_frame p),
     gv_planned_cpu_khz := khz, gv_planned_cold := cold\<rparr>"
  have lift: "decide_lift t f c paused reported True k = False" for f c paused k
    by (simp add: decide_lift_def)
  have m: "decide_merge t p now reported hs g1 = (if cold \<and> \<not> reported then Warm now h else h)"
    by (simp only: decide_merge_def r1 prod.case Let_def g2_def [symmetric] cold_def [symmetric] lift
        simp_thms if_False khz_def [symmetric] h_def [symmetric] decide_act_saving)
  have same: "gv_vic h = gv_vic g" "gv_gpu h = gv_gpu g" "gv_cpu h = gv_cpu g"
    "gv_cpu_until h = gv_cpu_until g" "gv_warms h = gv_warms g"
    by (simp_all add: h_def g2_def g1_def)
  have "WarmAhead t f now gap g1 = g1 \<or> WarmAhead t f now gap g1 = g2" for f gap
    by (simp add: WarmAhead_def r1 g2_def)
  then have "gv_Decide t p now reported hs g \<in> {g1, g2, h, Warm now h}"
    using m by (auto simp: gv_Decide_def Let_def g1_def [symmetric])
  moreover have "gv_gpu (DecideGpu t q now g) = gv_gpu g" by (simp add: DecideGpu_def r)
  moreover have "gv_vic g2 = gv_vic g" "gv_gpu g2 = gv_gpu g" "gv_cpu g2 = gv_cpu g"
    "gv_cpu_until g2 = gv_cpu_until g" "gv_warms g2 = gv_warms g" "gv_vic g1 = gv_vic g"
    "gv_gpu g1 = gv_gpu g" "gv_cpu g1 = gv_cpu g" "gv_cpu_until g1 = gv_cpu_until g" "gv_warms g1 = gv_warms g"
    by (simp_all add: g2_def g1_def)
  ultimately show ?thesis using same by auto
qed

lemma power_save_raises_nothing_witness:
  "fst (ReadProfile default_tuning 5 sample_governor) = powerSave \<and>
   gv_cpu (gv_Decide default_tuning sample_plan 5 False False sample_governor) = gv_cpu sample_governor"
proof -
  have s: "fst (ReadProfile default_tuning 5 sample_governor) = powerSave"
    by (simp add: ReadProfile_def pp_Read_def sample_governor_def powerSave_def)
  show ?thesis using power_save_raises_nothing [OF s] s by blast
qed

lemma raise_floor_le: "ec_floor_mhz (snd (raise_floor engine_ops ask a)) \<le> max (ec_floor_mhz a) ask"
proof (cases "raise_floor engine_ops ask a")
  case (Pair ok b)
  then show ?thesis
    using engine_floor.set_floor [of ask a b] engine_floor.set_fails [of ask a b]
    by (cases ok) (auto simp: raise_floor_def engine_ops_def split: if_splits)
qed

lemma ln_Ask_floor:
  "ec_floor_mhz (ln_actuator (ln_Ask engine_ops t ask owed reported now l)) \<le>
     max (ec_floor_mhz (ln_actuator l)) ask"
  "ln_owed (ln_Ask engine_ops t ask owed reported now l) = owed"
  using raise_floor_le [of ask "ln_actuator l"]
  by (auto simp: ln_Ask_def Let_def split: prod.split)

text \<open>A merge that finds the engine cold, its submit still ahead, raises the engine's floor no
  higher than the cold cap, and what it needs above that is owed; a merge already reported neither
  warms the engine nor touches the processor.\<close>

theorem cold_engine_asked_the_cap:
  assumes "fr_merge_planned (pl_frame p)" "\<not> fr_merge_reuse_predicted (pl_frame p)"
    "EngineCold (pl_frame p) (gv_last_warm g) now t"
    "h = gv_Decide t p now reported hs g"
  shows "(\<not> reported \<longrightarrow> ec_floor_mhz (ln_actuator (gv_vic h)) \<le>
        max (ec_floor_mhz (ln_actuator (gv_vic g))) (cold_cap_mhz t) \<and>
      (ln_owed (gv_vic h) = ln_owed (gv_vic g) \<or> ln_owed (gv_vic h) = 0 \<or> ln_owed (gv_vic h) > cold_cap_mhz t)) \<and>
    (reported \<longrightarrow> gv_warms h = gv_warms g \<and> gv_cpu h = gv_cpu g \<and> gv_cpu_until h = gv_cpu_until g)"
proof -
  define g1 where "g1 = g\<lparr>gv_last_plan := fr_now_ns (pl_frame p), gv_last_frame := pl_frame p\<rparr>"
  obtain v x where r: "ReadProfile t now g1 = (v, g1\<lparr>gv_profile := x\<rparr>)" by (rule ReadProfile_obtain)
  define g2 where "g2 = g1\<lparr>gv_profile := x\<rparr>"
  have w: "gv_last_warm g2 = gv_last_warm g" by (simp add: g2_def g1_def)
  have cold: "EngineCold (pl_frame p) (gv_last_warm g) now t = True" using assms(3) by simp
  define paused where "paused = decide_paused t (pl_frame p) now"
  define khz where "khz = decide_khz t True paused g2"
  define lift where "lift = decide_lift t (pl_frame p) True paused reported (v = powerSave) g2"
  define g3 where "g3 = (if lift \<and> khz \<le> cpu_low_khz t then LiftCpu t now g2 else (False, g2))"
  define k where "k = (if lift then max khz (cpu_khz t) else khz)"
  define g4 where "g4 = (snd g3)\<lparr>gv_planned_seq := fr_seq (pl_frame p), gv_planned_validate := fr_now_ns (pl_frame p),
         gv_planned_cpu_khz := k, gv_planned_cold := True\<rparr>"
  define step where "step = es_step_mhz (EstimateMerge (pl_frame p) (pl_members p) now t True lift
      (decide_submit_after t True lift k g4))"
  have m: "decide_merge t p now reported hs g1 =
      decide_act t now reported hs True (v = powerSave) lift (fst g3) step g4"
    by (simp only: decide_merge_def r prod.case Let_def g2_def [symmetric] w cold
      paused_def [symmetric] khz_def [symmetric] lift_def [symmetric] k_def [symmetric]
      simp_thms g3_def [symmetric] split_beta fst_conv snd_conv g4_def [symmetric] step_def [symmetric])
  have h: "h = decide_act t now reported hs True (v = powerSave) lift (fst g3) step g4"
    using assms(1,2,4) m by (simp add: gv_Decide_def Let_def g1_def [symmetric])
  have g3: "gv_vic g4 = gv_vic g" "gv_warms g4 = gv_warms g"
    by (simp_all add: g4_def g3_def g2_def g1_def)
  have rep: "reported \<Longrightarrow> \<not> lift" by (simp add: lift_def decide_lift_def)
  have g3r: "reported \<Longrightarrow> snd g3 = g2" using rep by (simp add: g3_def)
  show ?thesis
  proof (cases reported)
    case True
    then show ?thesis using rep g3r by (simp add: h decide_act_def Let_def g4_def g2_def g1_def)
  next
    case False
    have f: "ec_floor_mhz (ln_actuator (ln_Ask engine_ops t (cold_cap_mhz t) o' False now (gv_vic g))) \<le>
        max (ec_floor_mhz (ln_actuator (gv_vic g))) (cold_cap_mhz t)" for o'
      by (rule ln_Ask_floor)
    have f': "step \<le> cold_cap_mhz t \<Longrightarrow> ec_floor_mhz (ln_actuator (ln_Ask engine_ops t step o' False now (gv_vic g))) \<le>
        max (ec_floor_mhz (ln_actuator (gv_vic g))) (cold_cap_mhz t)" for o'
      using ln_Ask_floor(1) [of t step o' False now "gv_vic g"] by linarith
    show ?thesis using False f f'
      by (auto simp: h decide_act_def Let_def g3 ln_Ask_floor(2) not_less)
  qed
qed


lemma cold_engine_asked_the_cap_witness:
  "EngineCold sample_frame 0 100 default_tuning \<and>
   ec_floor_mhz (ln_actuator (gv_vic (gv_Decide default_tuning sample_plan 100 False False sample_governor))) \<le> 756"
proof -
  have c: "EngineCold sample_frame 0 100 default_tuning"
    by (simp add: EngineCold_def sample_frame_def Let_def)
  have "ec_floor_mhz (ln_actuator (gv_vic (gv_Decide default_tuning sample_plan 100 False False sample_governor)))
      \<le> max (ec_floor_mhz (ln_actuator (gv_vic sample_governor))) (cold_cap_mhz default_tuning)"
    using cold_engine_asked_the_cap [OF _ _ _ refl, of sample_plan sample_governor 100 default_tuning False False] c
    by (simp add: sample_plan_def sample_frame_def sample_governor_def)
  moreover have "ec_floor_mhz (ln_actuator (gv_vic sample_governor)) = 0" "cold_cap_mhz default_tuning \<le> 756"
    by (simp_all add: sample_governor_def ln_init_def default_tuning_def)
  ultimately show ?thesis using c by (simp only: max_0L simp_thms)
qed


subsection \<open>The measure of the submit\<close>

lemma take_sample_between:
  assumes "0 < mean" "0 \<le> sample" "0 \<le> smooth"
  shows "min mean sample \<le> take_sample smooth mean sample \<and>
    take_sample smooth mean sample \<le> max mean sample \<and> take_sample smooth mean sample \<le> 3 * mean"
proof (cases "sample > 3 * mean")
  case False
  have c: "take_sample smooth mean sample = (mean * smooth + sample) div (smooth + 1)"
    using False assms by (simp add: take_sample_def cdiv_nonneg)
  have lo: "min mean sample * (smooth + 1) \<le> mean * smooth + sample"
    using assms mult_right_mono [of "min mean sample" mean smooth] by (simp add: distrib_left)
  have hi: "mean * smooth + sample \<le> max mean sample * (smooth + 1)"
    using assms mult_right_mono [of mean "max mean sample" smooth] by (simp add: distrib_left)
  have "min mean sample \<le> (mean * smooth + sample) div (smooth + 1)"
    using zdiv_mono1 [OF lo, of "smooth + 1"] assms(3) by simp
  moreover have "(mean * smooth + sample) div (smooth + 1) \<le> max mean sample"
    using zdiv_mono1 [OF hi, of "smooth + 1"] assms(3) by simp
  ultimately show ?thesis using False assms c by simp
qed (use assms in \<open>simp add: take_sample_def\<close>)

text \<open>A report of a merge is measured once: the running mean of the warm path moves to a value
  between itself and the new sample and never past three times itself, the cold path's mean is not
  touched by a warm merge nor the warm path's by a cold one, and a second report of the same merge
  changes nothing.\<close>

theorem submit_measured_once:
  assumes "0 < gv_submit_cycles g" "g1 = NoteSubmit t seq reported g"
  shows "(gv_planned_cold g \<longrightarrow> gv_submit_cycles g1 = gv_submit_cycles g) \<and>
    (\<not> gv_planned_cold g \<longrightarrow> gv_cold_extra g1 = gv_cold_extra g) \<and>
    (let sample = cdiv ((reported - gv_planned_validate g) * int (gv_planned_cpu_khz g)) 1000000
     in gv_submit_cycles g1 = gv_submit_cycles g \<or>
        (min (gv_submit_cycles g) sample \<le> gv_submit_cycles g1 \<and>
         gv_submit_cycles g1 \<le> max (gv_submit_cycles g) sample \<and>
         gv_submit_cycles g1 \<le> 3 * gv_submit_cycles g)) \<and>
    NoteSubmit t seq again g1 = g1"
proof -
  define d where "d = reported - gv_planned_validate g"
  define sample where "sample = cdiv (d * int (gv_planned_cpu_khz g)) 1000000"
  have pos: "0 < d \<Longrightarrow> 0 \<le> sample" by (simp add: sample_def cdiv_nonneg pos_imp_zdiv_nonneg_iff)
  have g1: "g1 = (if seq \<noteq> gv_planned_seq g \<or> gv_planned_validate g = 0 then g
      else if gv_planned_cpu_khz g = 0 \<or> d \<le> 0 \<or> d > 100 * nsPerMs then g\<lparr>gv_planned_validate := 0\<rparr>
      else if gv_planned_cold g then NoteColdSubmit t d (g\<lparr>gv_planned_validate := 0\<rparr>)
      else g\<lparr>gv_planned_validate := 0, gv_submit_cycles := take_sample (int (submit_smooth t)) (gv_submit_cycles g) sample\<rparr>)"
    by (simp add: assms(2) NoteSubmit_def Let_def d_def sample_def)
  have "NoteSubmit t seq again g1 = g1"
    by (simp add: g1 NoteColdSubmit_def Let_def NoteSubmit_def)
  moreover have "gv_planned_cold g \<longrightarrow> gv_submit_cycles g1 = gv_submit_cycles g"
    "\<not> gv_planned_cold g \<longrightarrow> gv_cold_extra g1 = gv_cold_extra g"
    by (simp_all add: g1 NoteColdSubmit_def Let_def)
  moreover have "gv_submit_cycles g1 = gv_submit_cycles g \<or>
      (0 < d \<and> gv_submit_cycles g1 = take_sample (int (submit_smooth t)) (gv_submit_cycles g) sample)"
    by (simp add: g1 NoteColdSubmit_def Let_def)
  then have "gv_submit_cycles g1 = gv_submit_cycles g \<or>
        (min (gv_submit_cycles g) sample \<le> gv_submit_cycles g1 \<and>
         gv_submit_cycles g1 \<le> max (gv_submit_cycles g) sample \<and>
         gv_submit_cycles g1 \<le> 3 * gv_submit_cycles g)"
    using take_sample_between [OF assms(1) pos, of "int (submit_smooth t)"] by auto
  ultimately show ?thesis by (simp only: Let_def sample_def d_def)
qed

lemma submit_measured_once_witness:
  "NoteSubmit default_tuning 1 9 (NoteSubmit default_tuning 1 8 (sample_governor\<lparr>gv_submit_cycles := 5\<rparr>)) =
     NoteSubmit default_tuning 1 8 (sample_governor\<lparr>gv_submit_cycles := 5\<rparr>)"
  using submit_measured_once [OF _ refl, of "sample_governor\<lparr>gv_submit_cycles := 5\<rparr>" default_tuning 1 8 9] by simp

subsection \<open>The mailbox against its contract\<close>

datatype mail_event = MailPlan gov_frame "gov_member list" | MailSubmit nat int int
  | MailPlanGpu nat nat int | MailSubmitGpu nat int int | MailPower power

fun mail_step :: "mail_event \<Rightarrow> mailbox \<Rightarrow> mailbox" where
  "mail_step (MailPlan f ms) m = mb_Plan f ms m"
| "mail_step (MailSubmit seq fd now) m = mb_Submit seq fd now m"
| "mail_step (MailPlanGpu seq px now) m = mb_PlanGpu seq px now m"
| "mail_step (MailSubmitGpu seq fd now) m = mb_SubmitGpu seq fd now m"
| "mail_step (MailPower p) m = mb_SetPower p m"

text \<open>What is to be found in it, read from the latest news backwards: the last plan, unless the
  display went dark after it.\<close>

fun latest_plan :: "mail_event list \<Rightarrow> planned option" where
  "latest_plan [] = None"
| "latest_plan (MailPlan f ms # rest) = Some \<lparr>pl_frame = f, pl_members = ms\<rparr>"
| "latest_plan (MailPower p # rest) = (if p \<noteq> Power_on then None else latest_plan rest)"
| "latest_plan (_ # rest) = latest_plan rest"

fun all_submits :: "mail_event list \<Rightarrow> watched list" where
  "all_submits [] = []"
| "all_submits (MailSubmit seq fd now # rest) = \<lparr>wa_fd = fd, wa_seq = seq, wa_since_ns = now\<rparr> # all_submits rest"
| "all_submits (_ # rest) = all_submits rest"

lemma all_submits_append: "all_submits (xs @ ys) = all_submits xs @ all_submits ys"
proof (induction xs)
  case (Cons e xs)
  then show ?case by (cases e) simp_all
qed simp

text \<open>C37: Between two takes the mailbox keeps its contract: a take finds every merge reported since the
  last one, in order, the last frame planned unless the display has gone dark since, and leaves
  the box empty.\<close>

theorem mailbox_delivers:
  assumes "mb_Take rung (fold mail_step evs (snd (mb_Take rung0 m0))) = (mail, m)"
  shows "mc_submitted mail = all_submits evs \<and> mc_planned mail = latest_plan (rev evs) \<and>
    mb_submitted m = [] \<and> mb_pending m = None \<and> mb_gpu_submitted m = [] \<and> mb_gpu_pending m = None \<and>
    \<not> HasSubmitted m"
proof -
  define e0 where "e0 = snd (mb_Take rung0 m0)"
  have e0: "mb_submitted e0 = []" "mb_pending e0 = None" by (simp_all add: e0_def mb_Take_def)
  have "mb_submitted (fold mail_step evs e0) = all_submits evs \<and>
    mb_pending (fold mail_step evs e0) = latest_plan (rev evs)"
  proof (induction evs rule: rev_induct)
    case (snoc e evs)
    then show ?case
      by (cases e) (simp_all add: all_submits_append mb_Plan_def mb_Submit_def mb_PlanGpu_def
          mb_SubmitGpu_def mb_SetPower_def mb_Ring_def Let_def)
  qed (simp add: e0)
  then show ?thesis using assms by (auto simp: e0_def mb_Take_def HasSubmitted_def)
qed

lemma mailbox_delivers_witness:
  "mc_submitted (fst (mb_Take True (fold mail_step [MailSubmit 1 7 5, MailPower Power_off, MailSubmit 2 8 6]
     (snd (mb_Take True mb_init))))) =
   [\<lparr>wa_fd = 7, wa_seq = 1, wa_since_ns = 5\<rparr>, \<lparr>wa_fd = 8, wa_seq = 2, wa_since_ns = 6\<rparr>]"
  using mailbox_delivers [OF surjective_pairing, of True "[MailSubmit 1 7 5, MailPower Power_off, MailSubmit 2 8 6]" True mb_init]
  by simp

end
