(* ===== verification/Layers.thy ===== *)
theory Layers
  imports Rects
begin

text \<open>
  compositor/LayerData.h and LayerEffects: what the composer knows of a layer when it places and
  draws it, and the effects the framework sends for it as bytes under string keys. Of a buffer's
  description only what the modelled code reads is kept.
\<close>

unbundle bit_operations_syntax

subsection \<open>Layer data\<close>

datatype comp_type = CInvalid | CClient | CDevice | CSolidColor | CCursor | CDeviceOccluded

datatype transfer_fn = TfUnknown | TfSmpte170M | TfSrgb | TfPq | TfHlg

datatype colorspace = CsDefault | CsBt601 | CsBt709 | CsDciP3 | CsBt2020

datatype color_enc = CeUndefined | CeItuRec601 | CeItuRec709 | CeItuRec2020

datatype sample_rng = SrUndefined | SrFullRange | SrLimitedRange

datatype blend = BmUndefined | BmNone | BmPreMult | BmCoverage

record turn =
  tn_hflip :: bool
  tn_vflip :: bool
  tn_rotate90 :: bool

definition no_turn :: turn where
  "no_turn = \<lparr>tn_hflip = False, tn_vflip = False, tn_rotate90 = False\<rparr>"

record present_info =
  pi_transform :: turn
  pi_alpha :: f32
  pi_source_crop :: "frect option"
  pi_display_frame :: "irect option"
  pi_damage :: "irect list"

definition kAlphaOpaque :: f32 where "kAlphaOpaque = Fin 1"

definition pi_init :: present_info where
  "pi_init = \<lparr>pi_transform = no_turn, pi_alpha = kAlphaOpaque, pi_source_crop = None,
     pi_display_frame = None, pi_damage = []\<rparr>"

record extents =
  ex_src_w :: f32
  ex_src_h :: f32
  ex_dst_w :: f32
  ex_dst_h :: f32

definition ExtentsInDestAxes :: "present_info \<Rightarrow> f32 \<Rightarrow> f32 \<Rightarrow> extents" where
  "ExtentsInDestAxes p whole_w whole_h =
     (let w = (case pi_source_crop p of None \<Rightarrow> whole_w | Some r \<Rightarrow> fwidth r);
          h = (case pi_source_crop p of None \<Rightarrow> whole_h | Some r \<Rightarrow> fheight r);
          turned = tn_rotate90 (pi_transform p)
      in \<lparr>ex_src_w = (if turned then h else w), ex_src_h = (if turned then w else h),
          ex_dst_w = (case pi_display_frame p of None \<Rightarrow> whole_w | Some r \<Rightarrow> f32_of_int (rwidth r)),
          ex_dst_h = (case pi_display_frame p of None \<Rightarrow> whole_h | Some r \<Rightarrow> f32_of_int (rheight r))\<rparr>)"

definition Resizes :: "present_info \<Rightarrow> bool" where
  "Resizes p \<longleftrightarrow> pi_source_crop p \<noteq> None \<and> pi_display_frame p \<noteq> None \<and>
     (let e = ExtentsInDestAxes p (Fin 0) (Fin 0)
      in \<not> f32_eq (ex_src_w e) (ex_dst_w e) \<or> \<not> f32_eq (ex_src_h e) (ex_dst_h e))"

definition RequireScalingOrPhasing :: "present_info \<Rightarrow> bool" where
  "RequireScalingOrPhasing p = (case (pi_source_crop p, pi_display_frame p) of
     (Some src, Some _) \<Rightarrow>
       Resizes p \<or> \<not> f32_eq (f32_sub (rleft src) (f32_floor (rleft src))) (Fin 0) \<or>
       \<not> f32_eq (f32_sub (rtop src) (f32_floor (rtop src))) (Fin 0)
   | _ \<Rightarrow> False)"

definition MirrorRectWithin :: "irect \<Rightarrow> bool \<Rightarrow> bool \<Rightarrow> int \<Rightarrow> int \<Rightarrow> irect" where
  "MirrorRectWithin r mirror_x mirror_y width height =
     mk_rect (if mirror_x then width - rright r else rleft r)
       (if mirror_y then height - rbottom r else rtop r)
       (if mirror_x then width - rleft r else rright r)
       (if mirror_y then height - rtop r else rbottom r)"

text \<open>A mirror is an involution and moves the pixels a rectangle covers, one for one, about the
  middle of the extents.\<close>

lemma MirrorRectWithin_twice:
  "MirrorRectWithin (MirrorRectWithin r mx my w h) mx my w h = r"
  by (simp add: MirrorRectWithin_def mk_rect_def)

lemma pts_MirrorRectWithin:
  "(x, y) \<in> pts (MirrorRectWithin r mx my w h) \<longleftrightarrow>
     (if mx then w - 1 - x else x, if my then h - 1 - y else y) \<in> pts r"
  by (auto simp: MirrorRectWithin_def in_pts)

subsection \<open>Effects\<close>

record layer_effects =
  fx_corners :: "f32 list"
  fx_shadow :: "f32 list"
  fx_blur :: "f32 list"
  fx_stretch :: "f32 list"
  fx_turned :: "f32 list"

definition fx_init :: layer_effects where
  "fx_init = \<lparr>fx_corners = replicate 5 (Fin 0), fx_shadow = [], fx_blur = [], fx_stretch = [],
     fx_turned = replicate 10 (Fin 0)\<rparr>"

definition AllZero :: "f32 list \<Rightarrow> bool" where
  "AllZero v \<longleftrightarrow> list_all (\<lambda>f. f32_eq f (Fin 0)) v"

definition HasTurn :: "layer_effects \<Rightarrow> bool" where
  "HasTurn e \<longleftrightarrow> list_ex (\<lambda>f. \<not> f32_eq f (Fin 0)) (fx_turned e)"

text \<open>The static floor of a radius is the first argument.\<close>

definition HasCorners :: "f32 \<Rightarrow> layer_effects \<Rightarrow> bool" where
  "HasCorners min_corner_radius e \<longleftrightarrow>
     f32_less (Fin 0) (fx_corners e ! 4) \<and> f32_le min_corner_radius (fx_corners e ! 4)"

definition ReachesPastFrame :: "layer_effects \<Rightarrow> bool" where
  "ReachesPastFrame e \<longleftrightarrow> \<not> AllZero (fx_shadow e) \<or> \<not> AllZero (fx_blur e) \<or> \<not> AllZero (fx_stretch e)"

definition fx_Any :: "f32 \<Rightarrow> layer_effects \<Rightarrow> bool" where
  "fx_Any min_corner_radius e \<longleftrightarrow> HasCorners min_corner_radius e \<or> ReachesPastFrame e \<or> HasTurn e"

definition kEffectKeys :: "string list" where
  "kEffectKeys = [''org.lineageos.mocha.rounded_corners'', ''org.lineageos.mocha.shadow'',
     ''org.lineageos.mocha.blur'', ''org.lineageos.mocha.stretch'', ''org.lineageos.mocha.turned'']"

datatype effect_result = FxApplied | FxUnknownKey | FxMalformed

definition word_of_bytes :: "8 word \<Rightarrow> 8 word \<Rightarrow> 8 word \<Rightarrow> 8 word \<Rightarrow> 32 word" where
  "word_of_bytes a b c d = ucast a OR push_bit 8 (ucast b) OR push_bit 16 (ucast c) OR push_bit 24 (ucast d)"

fun raw_floats :: "8 word list \<Rightarrow> f32 list" where
  "raw_floats (a # b # c # d # rest) = f32_of_bits (word_of_bytes a b c d) # raw_floats rest"
| "raw_floats _ = []"

definition Floats :: "8 word list \<Rightarrow> f32 list option" where
  "Floats value = (if length value mod 4 \<noteq> 0 then None
     else let v = raw_floats value in if list_all f32_isfinite v then Some v else None)"

text \<open>A float to \<open>size_t\<close>, saturating where C++ leaves it open.\<close>

fun f32_to_size :: "f32 \<Rightarrow> nat" where
  "f32_to_size (Fin a) = (if a \<le> 0 then 0 else min 4294967295 (nat \<lfloor>a\<rfloor>))"
| "f32_to_size PInf = 4294967295"
| "f32_to_size _ = 0"

text \<open>The number of floats a blur says it has, in \<open>size_t\<close>.\<close>

definition blur_need :: "f32 list \<Rightarrow> nat" where
  "blur_need v = wrap_size (2 + 10 * int (f32_to_size (v ! 1)))"

definition ApplyEffectMetadata :: "string \<Rightarrow> 8 word list \<Rightarrow> layer_effects \<Rightarrow> effect_result \<times> layer_effects" where
  "ApplyEffectMetadata key value e = (case Floats value of
     None \<Rightarrow> (FxMalformed, e)
   | Some v \<Rightarrow>
       if key = kEffectKeys ! 0
       then if v = [] then (FxApplied, e\<lparr>fx_corners := replicate 5 (Fin 0)\<rparr>)
            else if length v \<noteq> 5 \<or> f32_less (v ! 4) (Fin 0) then (FxMalformed, e)
            else (FxApplied, e\<lparr>fx_corners := v\<rparr>)
       else if key = kEffectKeys ! 4
       then if v = [] then (FxApplied, e\<lparr>fx_turned := replicate 10 (Fin 0)\<rparr>)
            else if length v \<noteq> 10 then (FxMalformed, e)
            else (FxApplied, e\<lparr>fx_turned := v\<rparr>)
       else if key = kEffectKeys ! 1
       then if v \<noteq> [] \<and> length v \<noteq> 17 then (FxMalformed, e) else (FxApplied, e\<lparr>fx_shadow := v\<rparr>)
       else if key = kEffectKeys ! 2
       then if v \<noteq> [] \<and> (length v < 2 \<or> f32_less (v ! 1) (Fin 0)) then (FxMalformed, e)
            else if v \<noteq> [] \<and> length v \<noteq> blur_need v then (FxMalformed, e)
            else (FxApplied, e\<lparr>fx_blur := v\<rparr>)
       else if key = kEffectKeys ! 3
       then if v \<noteq> [] \<and> length v \<noteq> 10 then (FxMalformed, e) else (FxApplied, e\<lparr>fx_stretch := v\<rparr>)
       else (FxUnknownKey, e))"

subsection \<open>The bytes and the floats\<close>

definition bytes_of_word :: "32 word \<Rightarrow> 8 word list" where
  "bytes_of_word w = [ucast w, ucast (drop_bit 8 w), ucast (drop_bit 16 w), ucast (drop_bit 24 w)]"

definition wire :: "32 word list \<Rightarrow> 8 word list" where
  "wire ws = concat (map bytes_of_word ws)"

lemma word_of_bytes_of_word:
  "word_of_bytes (ucast w) (ucast (drop_bit 8 w)) (ucast (drop_bit 16 w)) (ucast (drop_bit 24 w)) = w"
proof (rule bit_word_eqI)
  fix n
  assume n: "n < LENGTH(32)"
  consider "n < 8" | "8 \<le> n" "n < 16" | "16 \<le> n" "n < 24" | "24 \<le> n" by linarith
  then show "bit (word_of_bytes (ucast w) (ucast (drop_bit 8 w)) (ucast (drop_bit 16 w))
      (ucast (drop_bit 24 w))) n = bit w n"
    using n by cases (auto simp: word_of_bytes_def bit_simps)
qed

lemma raw_floats_wire: "raw_floats (wire ws) = map f32_of_bits ws"
  by (induction ws) (simp_all add: wire_def bytes_of_word_def word_of_bytes_of_word)

lemma length_wire: "length (wire ws) = 4 * length ws"
  by (induction ws) (simp_all add: wire_def bytes_of_word_def)

lemma Floats_wire:
  "Floats (wire ws) = (if list_all f32_isfinite (map f32_of_bits ws) then Some (map f32_of_bits ws) else None)"
  by (simp add: Floats_def length_wire raw_floats_wire Let_def)

lemma Floats_finite: "Floats value = Some v \<Longrightarrow> list_all f32_isfinite v"
  by (auto simp: Floats_def Let_def split: if_splits)

lemma distinct_keys: "distinct kEffectKeys" "length kEffectKeys = 5"
  by (simp_all add: kEffectKeys_def)

lemma key_neq: "i < 5 \<Longrightarrow> j < 5 \<Longrightarrow> kEffectKeys ! i = kEffectKeys ! j \<longleftrightarrow> i = j"
  using distinct_keys nth_eq_iff_index_eq by metis

text \<open>What the metadata may leave in a layer.\<close>

definition effects_ok :: "layer_effects \<Rightarrow> bool" where
  "effects_ok e \<longleftrightarrow> length (fx_corners e) = 5 \<and> list_all f32_isfinite (fx_corners e) \<and>
     \<not> f32_less (fx_corners e ! 4) (Fin 0) \<and>
     length (fx_turned e) = 10 \<and> list_all f32_isfinite (fx_turned e) \<and>
     (fx_shadow e = [] \<or> length (fx_shadow e) = 17) \<and> list_all f32_isfinite (fx_shadow e) \<and>
     (fx_stretch e = [] \<or> length (fx_stretch e) = 10) \<and> list_all f32_isfinite (fx_stretch e) \<and>
     (fx_blur e = [] \<or> 2 \<le> length (fx_blur e) \<and> \<not> f32_less (fx_blur e ! 1) (Fin 0) \<and>
        length (fx_blur e) = blur_need (fx_blur e)) \<and> list_all f32_isfinite (fx_blur e)"

lemma effects_ok_init: "effects_ok fx_init"
  by (simp add: effects_ok_def fx_init_def nth_replicate list_all_iff)

lemma Apply_cases:
  assumes "ApplyEffectMetadata key value e = (r, e')"
  obtains "e' = e" | "e' = e\<lparr>fx_corners := replicate 5 (Fin 0)\<rparr>" | "e' = e\<lparr>fx_turned := replicate 10 (Fin 0)\<rparr>"
  | v where "list_all f32_isfinite v" "e' = e\<lparr>fx_corners := v\<rparr>" "length v = 5" "\<not> f32_less (v ! 4) (Fin 0)"
  | v where "list_all f32_isfinite v" "e' = e\<lparr>fx_turned := v\<rparr>" "length v = 10"
  | v where "list_all f32_isfinite v" "e' = e\<lparr>fx_shadow := v\<rparr>" "v = [] \<or> length v = 17"
  | v where "list_all f32_isfinite v" "e' = e\<lparr>fx_stretch := v\<rparr>" "v = [] \<or> length v = 10"
  | v where "list_all f32_isfinite v" "e' = e\<lparr>fx_blur := v\<rparr>"
      "v = [] \<or> 2 \<le> length v \<and> \<not> f32_less (v ! 1) (Fin 0) \<and> length v = blur_need v"
proof (cases "Floats value")
  case None
  then show thesis using that(1) assms by (simp add: ApplyEffectMetadata_def)
next
  case (Some v)
  note fin = Floats_finite [OF Some]
  note a = assms [unfolded ApplyEffectMetadata_def Some option.case, symmetric]
  consider "key = kEffectKeys ! 0" | "key \<noteq> kEffectKeys ! 0" "key = kEffectKeys ! 4"
    | "key \<noteq> kEffectKeys ! 0" "key \<noteq> kEffectKeys ! 4" "key = kEffectKeys ! 1"
    | "key \<noteq> kEffectKeys ! 0" "key \<noteq> kEffectKeys ! 4" "key \<noteq> kEffectKeys ! 1" "key = kEffectKeys ! 2"
    | "key \<noteq> kEffectKeys ! 0" "key \<noteq> kEffectKeys ! 4" "key \<noteq> kEffectKeys ! 1" "key \<noteq> kEffectKeys ! 2"
    by blast
  then show thesis
  proof cases
    case 1
    then show thesis using a that(1) that(2) that(4) [OF fin] by (auto split: if_splits)
  next
    case 2
    then have "(r, e') = (if v = [] then (FxApplied, e\<lparr>fx_turned := replicate 10 (Fin 0)\<rparr>)
            else if length v \<noteq> 10 then (FxMalformed, e) else (FxApplied, e\<lparr>fx_turned := v\<rparr>))"
      using a by (simp only: if_False if_True refl)
    then show thesis using that(1) that(3) that(5) [OF fin] by (auto split: if_splits)
  next
    case 3
    then have "(r, e') = (if v \<noteq> [] \<and> length v \<noteq> 17 then (FxMalformed, e) else (FxApplied, e\<lparr>fx_shadow := v\<rparr>))"
      using a by (simp only: if_False if_True refl)
    then show thesis using that(1) that(6) [OF fin] by (auto split: if_splits)
  next
    case 4
    then have "(r, e') = (if v \<noteq> [] \<and> (length v < 2 \<or> f32_less (v ! 1) (Fin 0)) then (FxMalformed, e)
            else if v \<noteq> [] \<and> length v \<noteq> blur_need v then (FxMalformed, e)
            else (FxApplied, e\<lparr>fx_blur := v\<rparr>))"
      using a by (simp only: if_False if_True refl)
    then show thesis using that(1) that(8) [OF fin] by (auto simp: not_less split: if_splits)
  next
    case 5
    then have "(r, e') = (if key = kEffectKeys ! 3
       then if v \<noteq> [] \<and> length v \<noteq> 10 then (FxMalformed, e) else (FxApplied, e\<lparr>fx_stretch := v\<rparr>)
       else (FxUnknownKey, e))"
      using a by (simp only: if_False refl)
    then show thesis using that(1) that(7) [OF fin] by (auto split: if_splits)
  qed
qed

lemma effects_ok_applied:
  assumes "effects_ok e" "ApplyEffectMetadata key value e = (r, e')"
  shows "effects_ok e'"
  using assms(2) by (rule Apply_cases)
    (use assms(1) in \<open>simp_all add: effects_ok_def nth_replicate list_all_iff\<close>)

text \<open>Whatever bytes arrive under whatever key, the effects stay well-formed: every list is empty or
  of its layout's length, every number finite and the corner radius not negative; a value that is
  refused changes nothing.\<close>

theorem effects_stay_formed:
  assumes "effects_ok e" "ApplyEffectMetadata key value e = (r, e')"
  shows "effects_ok e' \<and> (r \<noteq> FxApplied \<longrightarrow> e' = e) \<and>
    (r = FxUnknownKey \<longrightarrow> key \<notin> set kEffectKeys) \<and>
    (key \<notin> set kEffectKeys \<longrightarrow> r \<noteq> FxApplied)"
proof -
  have "r \<noteq> FxApplied \<longrightarrow> e' = e" using assms(2) unfolding ApplyEffectMetadata_def
    by (simp split: option.splits if_split_asm)
  moreover have "r = FxUnknownKey \<longrightarrow> key \<notin> set kEffectKeys" "key \<notin> set kEffectKeys \<longrightarrow> r \<noteq> FxApplied"
    using assms(2) unfolding ApplyEffectMetadata_def
    by (simp_all add: kEffectKeys_def split: option.splits if_split_asm)
  ultimately show ?thesis using effects_ok_applied [OF assms] by blast
qed

lemma effects_stay_formed_witness:
  "effects_ok fx_init \<and> snd (ApplyEffectMetadata ''org.lineageos.mocha.blur'' [1, 2] fx_init) = fx_init"
proof -
  obtain r e' where a: "ApplyEffectMetadata ''org.lineageos.mocha.blur'' [1, 2] fx_init = (r, e')" by fastforce
  have "r \<noteq> FxApplied" using a by (auto simp: ApplyEffectMetadata_def Floats_def)
  then show ?thesis using effects_stay_formed [OF effects_ok_init a] a effects_ok_init by simp
qed

text \<open>What the framework writes for the corners of a layer is what the layer has: five finite
  little-endian floats with a radius not negative come back as the floats they encode, and no
  other effect moves.\<close>

theorem corners_roundtrip:
  assumes "length ws = 5" "list_all f32_isfinite (map f32_of_bits ws)"
    "\<not> f32_less (f32_of_bits (ws ! 4)) (Fin 0)"
  shows "ApplyEffectMetadata ''org.lineageos.mocha.rounded_corners'' (wire ws) e =
    (FxApplied, e\<lparr>fx_corners := map f32_of_bits ws\<rparr>)"
proof -
  have k: "''org.lineageos.mocha.rounded_corners'' = kEffectKeys ! 0" by (simp add: kEffectKeys_def)
  have f: "Floats (wire ws) = Some (map f32_of_bits ws)" using assms(2) by (simp add: Floats_wire)
  have n: "map f32_of_bits ws \<noteq> []" "length (map f32_of_bits ws) = 5" "map f32_of_bits ws ! 4 = f32_of_bits (ws ! 4)"
    using assms(1) by auto
  show ?thesis
    unfolding ApplyEffectMetadata_def f option.case k using n assms(3) by simp
qed

lemma corners_roundtrip_witness:
  "ApplyEffectMetadata ''org.lineageos.mocha.rounded_corners'' (wire [0, 0, 0, 0, 0]) fx_init =
    (FxApplied, fx_init\<lparr>fx_corners := map f32_of_bits [0, 0, 0, 0, 0]\<rparr>)"
  by (rule corners_roundtrip) (simp_all add: f32_of_bits_def)

text \<open>The check of a blur's length can be got round: with a 32-bit \<open>size_t\<close> the length wraps, and a
  blur of two numbers that says it holds 2147483648 regions is taken as it came.\<close>

theorem blur_count_wraps:
  "ApplyEffectMetadata ''org.lineageos.mocha.blur'' (wire [0, 0x4F000000]) fx_init =
     (FxApplied, fx_init\<lparr>fx_blur := [Fin 0, Fin 2147483648]\<rparr>)"
proof -
  have b: "f32_of_bits 0 = Fin 0" by (simp add: f32_of_bits_def)
  have c: "f32_of_bits 0x4F000000 = Fin 2147483648" by code_simp
  have k: "''org.lineageos.mocha.blur'' = kEffectKeys ! 2" by (simp add: kEffectKeys_def)
  have "blur_need [Fin 0, Fin 2147483648] = 2" by (simp add: blur_need_def wrap_size_def)
  then show ?thesis
    unfolding ApplyEffectMetadata_def Floats_wire k by (simp add: b c key_neq)
qed

end
