(* ===== verification/HwcLayers.thy ===== *)
theory HwcLayers
  imports Layers Occlusion
begin

text \<open>
  hwc/HwcLayer: one layer of a display as the framework sets it. Every property that shapes a
  plan raises a bit when it changes, so that a frame with no bit raised may take the plan of the
  frame before; what the framework set is kept apart from what the occlusion narrows it to; and a
  layer is live while it draws.
\<close>

subsection \<open>The invalidators of PlanInvalidation.h\<close>

definition kBufferGeometry :: "32 word" where "kBufferGeometry = push_bit 0 1"
definition kBlendMode :: "32 word" where "kBlendMode = push_bit 1 1"
definition kCompositionType :: "32 word" where "kCompositionType = push_bit 2 1"
definition kDisplayFrame :: "32 word" where "kDisplayFrame = push_bit 3 1"
definition kPlaneAlpha :: "32 word" where "kPlaneAlpha = push_bit 4 1"
definition kSourceCrop :: "32 word" where "kSourceCrop = push_bit 5 1"
definition kTransform :: "32 word" where "kTransform = push_bit 6 1"
definition kZOrder :: "32 word" where "kZOrder = push_bit 7 1"
definition kDataspace :: "32 word" where "kDataspace = push_bit 8 1"
definition kEffects :: "32 word" where "kEffects = push_bit 17 1"

lemmas invalidator_defs = kBufferGeometry_def kBlendMode_def kCompositionType_def kDisplayFrame_def
  kPlaneAlpha_def kSourceCrop_def kTransform_def kZOrder_def kDataspace_def kEffects_def

subsection \<open>The layer\<close>

record buffer_info =
  bf_width :: nat
  bf_height :: nat
  bf_format :: nat
  bf_modifier :: nat
  bf_unique_id :: nat
  bf_color_encoding :: color_enc
  bf_sample_range :: sample_rng
  bf_blend_mode :: blend
  bf_handle :: nat
  bf_offsets :: "nat list"
  bf_pitches :: "nat list"

text \<open>An imported framebuffer is known by its identity; none is a failed import.\<close>

record buffer =
  bu_bi :: buffer_info
  bu_fb :: "nat option"
  bu_fence :: int

record layer_data =
  ld_bi :: "buffer_info option"
  ld_fb :: "nat option"
  ld_pi :: present_info
  ld_acquire_fence :: int
  ld_generation :: nat
  ld_serial :: nat
  ld_colorspace :: colorspace
  ld_transfer_func :: transfer_fn
  ld_brightness :: "f32 option"
  ld_live :: bool
  ld_effects :: layer_effects
  ld_solid_color :: "f32 list option"

record layer_properties =
  lp_buffer :: "buffer option"
  lp_blend_mode :: "blend option"
  lp_color_encoding :: "color_enc option"
  lp_sample_range :: "sample_rng option"
  lp_colorspace :: "colorspace option"
  lp_transfer_func :: "transfer_fn option"
  lp_composition_type :: "comp_type option"
  lp_display_frame :: "irect option option"
  lp_alpha :: "f32 option"
  lp_source_crop :: "frect option option"
  lp_transform :: "turn option"
  lp_z_order :: "nat option"
  lp_damage :: "irect list option"
  lp_brightness :: "f32 option"

text \<open>Times are nanoseconds of the steady clock, nought for a time point never set; the display's size and the floor of a corner
  radius are arguments of the methods that read them.\<close>

record hwc_layer =
  hl_sf_type :: comp_type
  hl_validated_type :: comp_type
  hl_z_order :: nat
  hl_data :: layer_data
  hl_sf_display_frame :: "irect option"
  hl_sf_source_crop :: "frect option"
  hl_sf_visible :: "irect list"
  hl_hidden :: bool
  hl_color_encoding :: color_enc
  hl_sample_range :: sample_rng
  hl_blend_mode :: blend
  hl_colorspace :: colorspace
  hl_transfer_func :: transfer_fn
  hl_brightness :: "f32 option"
  hl_invalidators :: "32 word"
  hl_last_activity :: int
  hl_previous_activity :: int
  hl_live :: bool
  hl_prior_scanout :: bool
  hl_prior_buffer :: nat
  hl_has_buffer_set :: bool

definition hl_new :: "nat \<Rightarrow> hwc_layer" where
  "hl_new serial = \<lparr>hl_sf_type = CInvalid, hl_validated_type = CInvalid, hl_z_order = 0,
     hl_data = \<lparr>ld_bi = None, ld_fb = None, ld_pi = pi_init, ld_acquire_fence = -1, ld_generation = 0,
       ld_serial = serial, ld_colorspace = CsDefault, ld_transfer_func = TfUnknown, ld_brightness = None, ld_live = False,
       ld_effects = fx_init, ld_solid_color = None\<rparr>,
     hl_sf_display_frame = None, hl_sf_source_crop = None, hl_sf_visible = [], hl_hidden = False,
     hl_color_encoding = CeUndefined, hl_sample_range = SrUndefined, hl_blend_mode = BmUndefined,
     hl_colorspace = CsDefault, hl_transfer_func = TfUnknown, hl_brightness = None, hl_invalidators = 0,
     hl_last_activity = 0, hl_previous_activity = 0, hl_live = False, hl_prior_scanout = False,
     hl_prior_buffer = 0, hl_has_buffer_set = False\<rparr>"

definition kSameFrame :: int where "kSameFrame = 8000000"
definition kLayerQuietDelay :: int where "kLayerQuietDelay = 1000000000"
definition kSmallShare :: nat where "kSmallShare = 8"

definition MarkActivity :: "int \<Rightarrow> hwc_layer \<Rightarrow> hwc_layer" where
  "MarkActivity now l =
     (let l1 = (if now - hl_last_activity l \<ge> kSameFrame
                then l\<lparr>hl_previous_activity := hl_last_activity l\<rparr> else l)
      in l1\<lparr>hl_last_activity := now\<rparr>)"

text \<open>Raising a bit is the one way the setters change the invalidators.\<close>

definition raise_if :: "bool \<Rightarrow> 32 word \<Rightarrow> hwc_layer \<Rightarrow> hwc_layer" where
  "raise_if changed b l = (if changed then l\<lparr>hl_invalidators := hl_invalidators l OR b\<rparr> else l)"

definition mark_if :: "bool \<Rightarrow> int \<Rightarrow> hwc_layer \<Rightarrow> hwc_layer" where
  "mark_if changed now l = (if changed then MarkActivity now l else l)"

definition other_shape :: "layer_data \<Rightarrow> buffer \<Rightarrow> bool" where
  "other_shape d b \<longleftrightarrow> (case ld_bi d of
     None \<Rightarrow> True
   | Some bi \<Rightarrow> bf_width bi \<noteq> bf_width (bu_bi b) \<or> bf_height bi \<noteq> bf_height (bu_bi b) \<or>
       bf_format bi \<noteq> bf_format (bu_bi b) \<or> bf_modifier bi \<noteq> bf_modifier (bu_bi b) \<or>
       (ld_fb d = None) \<noteq> (bu_fb b = None))"

definition set_buffer :: "int \<Rightarrow> buffer \<Rightarrow> hwc_layer \<Rightarrow> hwc_layer" where
  "set_buffer now b l =
     (let d = hl_data l;
          l1 = mark_if (ld_fb d \<noteq> bu_fb b) now l;
          l2 = raise_if (other_shape d b) kBufferGeometry l1
      in l2\<lparr>hl_prior_scanout := (hl_validated_type l \<noteq> CClient),
            hl_prior_buffer := (case ld_bi d of None \<Rightarrow> 0 | Some bi \<Rightarrow> bf_handle bi),
            hl_has_buffer_set := True,
            hl_data := d\<lparr>ld_bi := Some (bu_bi b), ld_fb := bu_fb b, ld_acquire_fence := bu_fence b,
                         ld_generation := nat (wrap64 (int (ld_generation d) + 1))\<rparr>\<rparr>)"

definition set_pi :: "(present_info \<Rightarrow> present_info) \<Rightarrow> hwc_layer \<Rightarrow> hwc_layer" where
  "set_pi f l = l\<lparr>hl_data := (hl_data l)\<lparr>ld_pi := f (ld_pi (hl_data l))\<rparr>\<rparr>"

definition frame_eq :: "irect option \<Rightarrow> irect option \<Rightarrow> bool" where
  "frame_eq a b \<longleftrightarrow> a = b"

definition crop_eq :: "frect option \<Rightarrow> frect option \<Rightarrow> bool" where
  "crop_eq a b \<longleftrightarrow> (case (a, b) of (Some p, Some q) \<Rightarrow> frect_eq p q | (None, None) \<Rightarrow> True | _ \<Rightarrow> False)"

definition set_frame :: "int \<Rightarrow> irect option \<Rightarrow> hwc_layer \<Rightarrow> hwc_layer" where
  "set_frame now v l =
     (let changed = \<not> frame_eq (hl_sf_display_frame l) v;
          l1 = mark_if changed now (raise_if changed kDisplayFrame l)
      in set_pi (\<lambda>p. p\<lparr>pi_display_frame := v\<rparr>) (l1\<lparr>hl_sf_display_frame := v\<rparr>))"

definition set_alpha :: "int \<Rightarrow> f32 \<Rightarrow> hwc_layer \<Rightarrow> hwc_layer" where
  "set_alpha now v l =
     (let changed = \<not> f32_eq (pi_alpha (ld_pi (hl_data l))) v;
          l1 = mark_if changed now (raise_if changed kPlaneAlpha l)
      in set_pi (\<lambda>p. p\<lparr>pi_alpha := v\<rparr>) l1)"

definition set_crop :: "int \<Rightarrow> frect option \<Rightarrow> hwc_layer \<Rightarrow> hwc_layer" where
  "set_crop now v l =
     (let changed = \<not> crop_eq (hl_sf_source_crop l) v;
          l1 = mark_if changed now (raise_if changed kSourceCrop l)
      in set_pi (\<lambda>p. p\<lparr>pi_source_crop := v\<rparr>) (l1\<lparr>hl_sf_source_crop := v\<rparr>))"

definition set_transform :: "int \<Rightarrow> turn \<Rightarrow> hwc_layer \<Rightarrow> hwc_layer" where
  "set_transform now v l =
     (let changed = (pi_transform (ld_pi (hl_data l)) \<noteq> v);
          l1 = mark_if changed now (raise_if changed kTransform l)
      in set_pi (\<lambda>p. p\<lparr>pi_transform := v\<rparr>) l1)"

definition brightness_set :: "f32 option \<Rightarrow> bool" where
  "brightness_set b = (case b of None \<Rightarrow> False | Some v \<Rightarrow> f32_le (Fin 0) v)"

definition PopulateLayerData :: "hwc_layer \<Rightarrow> hwc_layer" where
  "PopulateLayerData l = (case ld_bi (hl_data l) of
     None \<Rightarrow> l
   | Some bi \<Rightarrow>
       let bi1 = (if hl_blend_mode l \<noteq> BmUndefined then bi\<lparr>bf_blend_mode := hl_blend_mode l\<rparr> else bi);
           bi2 = (if hl_color_encoding l \<noteq> CeUndefined then bi1\<lparr>bf_color_encoding := hl_color_encoding l\<rparr> else bi1);
           bi3 = (if hl_sample_range l \<noteq> SrUndefined then bi2\<lparr>bf_sample_range := hl_sample_range l\<rparr> else bi2);
           d = (hl_data l)\<lparr>ld_bi := Some bi3\<rparr>;
           d1 = (if hl_colorspace l \<noteq> CsDefault then d\<lparr>ld_colorspace := hl_colorspace l\<rparr> else d);
           d2 = (if hl_transfer_func l \<noteq> TfUnknown then d1\<lparr>ld_transfer_func := hl_transfer_func l\<rparr> else d1);
           d3 = (if brightness_set (hl_brightness l) then d2\<lparr>ld_brightness := hl_brightness l\<rparr> else d2)
       in l\<lparr>hl_data := d3\<rparr>)"

text \<open>A property that is not among those set is left alone.\<close>

definition opt_set :: "'v option \<Rightarrow> ('v \<Rightarrow> hwc_layer \<Rightarrow> hwc_layer) \<Rightarrow> hwc_layer \<Rightarrow> hwc_layer" where
  "opt_set v f l = (case v of None \<Rightarrow> l | Some x \<Rightarrow> f x l)"

definition SetLayerProperties :: "int \<Rightarrow> layer_properties \<Rightarrow> hwc_layer \<Rightarrow> hwc_layer" where
  "SetLayerProperties now p l0 =
     (let l1 = opt_set (lp_buffer p) (set_buffer now) l0;
          l2 = opt_set (lp_blend_mode p) (\<lambda>v l. (raise_if (hl_blend_mode l \<noteq> v) kBlendMode l)\<lparr>hl_blend_mode := v\<rparr>) l1;
          l3 = opt_set (lp_colorspace p) (\<lambda>v l. (raise_if (hl_colorspace l \<noteq> v) kDataspace l)\<lparr>hl_colorspace := v\<rparr>) l2;
          l4 = opt_set (lp_color_encoding p) (\<lambda>v l. (raise_if (hl_color_encoding l \<noteq> v) kDataspace l)\<lparr>hl_color_encoding := v\<rparr>) l3;
          l5 = opt_set (lp_sample_range p) (\<lambda>v l. (raise_if (hl_sample_range l \<noteq> v) kDataspace l)\<lparr>hl_sample_range := v\<rparr>) l4;
          l6 = opt_set (lp_transfer_func p) (\<lambda>v l. (raise_if (hl_transfer_func l \<noteq> v) kDataspace l)\<lparr>hl_transfer_func := v\<rparr>) l5;
          l7 = opt_set (lp_composition_type p) (\<lambda>v l. (raise_if (hl_sf_type l \<noteq> v) kCompositionType l)\<lparr>hl_sf_type := v\<rparr>) l6;
          l8 = opt_set (lp_display_frame p) (set_frame now) l7;
          l9 = opt_set (lp_alpha p) (set_alpha now) l8;
          l10 = opt_set (lp_source_crop p) (set_crop now) l9;
          l11 = opt_set (lp_transform p) (set_transform now) l10;
          l12 = opt_set (lp_z_order p) (\<lambda>v l. (raise_if (hl_z_order l \<noteq> v) kZOrder l)\<lparr>hl_z_order := v\<rparr>) l11;
          l13 = opt_set (lp_damage p) (\<lambda>v. set_pi (\<lambda>q. q\<lparr>pi_damage := v\<rparr>)) l12;
          l14 = opt_set (lp_brightness p) (\<lambda>v l. l\<lparr>hl_brightness := Some v\<rparr>) l13
      in if hl_has_buffer_set l14 then PopulateLayerData l14 else l14)"

definition TakePlanInvalidators :: "hwc_layer \<Rightarrow> 32 word \<times> hwc_layer" where
  "TakePlanInvalidators l = (hl_invalidators l, l\<lparr>hl_invalidators := 0\<rparr>)"

definition AcceptTypeChange :: "hwc_layer \<Rightarrow> hwc_layer" where
  "AcceptTypeChange l = l\<lparr>hl_sf_type := hl_validated_type l\<rparr>"

definition SetValidatedType :: "comp_type \<Rightarrow> hwc_layer \<Rightarrow> hwc_layer" where
  "SetValidatedType v l = l\<lparr>hl_validated_type := v\<rparr>"

definition IsTypeChanged :: "hwc_layer \<Rightarrow> bool" where
  "IsTypeChanged l \<longleftrightarrow> hl_sf_type l \<noteq> hl_validated_type l"

definition ClearPriorBufferScanOutFlag :: "hwc_layer \<Rightarrow> hwc_layer" where
  "ClearPriorBufferScanOutFlag l = l\<lparr>hl_prior_scanout := False, hl_prior_buffer := 0\<rparr>"

definition hl_ApplyEffectMetadata :: "f32 \<Rightarrow> string \<Rightarrow> 8 word list \<Rightarrow> hwc_layer \<Rightarrow> effect_result \<times> hwc_layer" where
  "hl_ApplyEffectMetadata mcr key value l =
     (let had = fx_Any mcr (ld_effects (hl_data l)) in
      case ApplyEffectMetadata key value (ld_effects (hl_data l)) of
        (r, e) \<Rightarrow> (r, raise_if (r = FxApplied \<and> had \<noteq> fx_Any mcr e) kEffects
                        (l\<lparr>hl_data := (hl_data l)\<lparr>ld_effects := e\<rparr>\<rparr>)))"

definition SetSolidColor :: "nat \<Rightarrow> nat \<Rightarrow> nat \<Rightarrow> nat \<Rightarrow> hwc_layer \<Rightarrow> hwc_layer" where
  "SetSolidColor r g b a l =
     (let c = map (\<lambda>v. f32_div (f32_of_int (int v)) (Fin 255)) [r, g, b, a];
          l1 = raise_if (ld_solid_color (hl_data l) = None) kEffects l
      in l1\<lparr>hl_data := (hl_data l1)\<lparr>ld_solid_color := Some c\<rparr>\<rparr>)"

definition IsLayerUsableAsDevice :: "hwc_layer \<Rightarrow> bool" where
  "IsLayerUsableAsDevice l \<longleftrightarrow> hl_has_buffer_set l \<and> ld_fb (hl_data l) \<noteq> None"

text \<open>The product of the sides is an \<open>int\<close> returned as \<open>uint32_t\<close>; the size of the display is
  in \<open>uint32_t\<close>.\<close>

definition GetPixOps :: "nat \<times> nat \<Rightarrow> hwc_layer \<Rightarrow> nat" where
  "GetPixOps sz l = (case pi_display_frame (ld_pi (hl_data l)) of
     Some r \<Rightarrow> wrap_size (rwidth r * rheight r)
   | None \<Rightarrow> wrap_size (int (fst sz * snd sz)))"

definition IsSmall :: "nat \<times> nat \<Rightarrow> hwc_layer \<Rightarrow> bool" where
  "IsSmall sz l \<longleftrightarrow> GetPixOps sz l * kSmallShare \<le> fst sz * snd sz"

definition LivenessWouldChange :: "nat \<times> nat \<Rightarrow> int \<Rightarrow> hwc_layer \<Rightarrow> bool" where
  "LivenessWouldChange sz now l =
     (let recent = (now - hl_last_activity l < kLayerQuietDelay);
          live = (recent \<and> (hl_live l \<or> \<not> IsSmall sz l \<or>
                   hl_last_activity l - hl_previous_activity l < kLayerQuietDelay))
      in live \<noteq> hl_live l)"

definition RefreshLiveness :: "nat \<times> nat \<Rightarrow> int \<Rightarrow> hwc_layer \<Rightarrow> bool \<times> hwc_layer" where
  "RefreshLiveness sz now l =
     (if \<not> LivenessWouldChange sz now l then (False, l) else (True, l\<lparr>hl_live := \<not> hl_live l\<rparr>))"

definition SetVisibleRegion :: "irect list \<Rightarrow> hwc_layer \<Rightarrow> hwc_layer" where
  "SetVisibleRegion r l = (raise_if (r \<noteq> hl_sf_visible l) kDisplayFrame l)\<lparr>hl_sf_visible := r\<rparr>"

definition OcclusionInput :: "f32 \<Rightarrow> irect \<Rightarrow> hwc_layer \<Rightarrow> occ_layer" where
  "OcclusionInput mcr screen l =
     (let d = hl_data l; e = ld_effects d;
          full_alpha = f32_le kAlphaOpaque (pi_alpha (ld_pi d));
          c = fx_corners e; corners = HasCorners mcr e
      in \<lparr>ol_frame = (case hl_sf_display_frame l of None \<Rightarrow> screen | Some r \<Rightarrow> r),
          ol_visible = hl_sf_visible l,
          ol_opaque = (if HasTurn e then False
             else case ld_bi d of
               Some bi \<Rightarrow> full_alpha \<and> bf_blend_mode bi = BmNone
             | None \<Rightarrow> (case ld_solid_color d of
                 Some col \<Rightarrow> full_alpha \<and> f32_le (Fin 1) (col ! 3)
               | None \<Rightarrow> False)),
          ol_corner_crop = (if corners
             then mk_rect (f32_to_i32 (f32_floor (c ! 0))) (f32_to_i32 (f32_floor (c ! 1)))
                    (f32_to_i32 (f32_ceil (c ! 2))) (f32_to_i32 (f32_ceil (c ! 3)))
             else mk_rect 0 0 0 0),
          ol_radius = (if corners then c ! 4 else Fin 0),
          ol_keep = (hl_sf_type l = CCursor \<or> ReachesPastFrame e \<or> HasTurn e)\<rparr>)"

text \<open>The frame and the crop a layer is shown with.\<close>

definition occluded_rects :: "shown \<Rightarrow> hwc_layer \<Rightarrow> irect option \<times> frect option" where
  "occluded_rects s l =
     (let frame = hl_sf_display_frame l; crop = hl_sf_source_crop l in
      case frame of None \<Rightarrow> (frame, crop)
      | Some f \<Rightarrow>
        if sh_hidden s \<or> sh_bounds s = f then (frame, crop)
        else let source = (case crop of Some c \<Rightarrow> Some c
                 | None \<Rightarrow> (case ld_bi (hl_data l) of None \<Rightarrow> None
                     | Some bi \<Rightarrow> Some (mk_rect (Fin 0) (Fin 0) (f32_of_int (int (bf_width bi))) (f32_of_int (int (bf_height bi))))));
                 t = pi_transform (ld_pi (hl_data l))
             in case source of
                  Some src \<Rightarrow> (case CropSource src f (sh_bounds s) (tn_hflip t) (tn_vflip t) (tn_rotate90 t) of
                      Some narrowed \<Rightarrow> (Some (sh_bounds s), Some narrowed)
                    | None \<Rightarrow> (frame, crop))
                | None \<Rightarrow> if \<not> tn_rotate90 t then (Some (sh_bounds s), crop) else (frame, crop))"

definition ApplyOcclusion :: "shown \<Rightarrow> hwc_layer \<Rightarrow> hwc_layer" where
  "ApplyOcclusion s l = (case occluded_rects s l of
     (frame, crop) \<Rightarrow>
       let p = ld_pi (hl_data l);
           l1 = raise_if (\<not> frame_eq frame (pi_display_frame p) \<or> hl_hidden l \<noteq> sh_hidden s) kDisplayFrame l;
           l2 = raise_if (\<not> crop_eq crop (pi_source_crop p)) kSourceCrop l1
       in (set_pi (\<lambda>q. q\<lparr>pi_display_frame := frame, pi_source_crop := crop\<rparr>) l2)\<lparr>hl_hidden := sh_hidden s\<rparr>)"

subsection \<open>A layer's part in a display\<close>

text \<open>HwcDisplay::ResolveOcclusion: the layers, bottom of the stack first, each shown what the occlusion
  left of it. Layers at the same depth are kept in their order, one of those \<open>std::sort\<close> may choose.\<close>

definition ResolveOcclusion :: "bool \<Rightarrow> f32 \<Rightarrow> irect \<Rightarrow> hwc_layer list \<Rightarrow> hwc_layer list" where
  "ResolveOcclusion enabled mcr screen ls =
     (let order = sort_key hl_z_order ls;
          input = map (OcclusionInput mcr screen) order;
          shown = (if enabled then Resolve input
                   else map (\<lambda>i. \<lparr>sh_hidden = False, sh_bounds = ol_frame i\<rparr>) input)
      in map (\<lambda>(s, l). ApplyOcclusion s l) (zip shown order))"

subsection \<open>No bit raised, nothing changed\<close>

lemma raise_if_simps [simp]:
  "hl_sf_type (raise_if c b l) = hl_sf_type l" "hl_z_order (raise_if c b l) = hl_z_order l"
  "hl_data (raise_if c b l) = hl_data l" "hl_sf_display_frame (raise_if c b l) = hl_sf_display_frame l"
  "hl_sf_source_crop (raise_if c b l) = hl_sf_source_crop l" "hl_sf_visible (raise_if c b l) = hl_sf_visible l"
  "hl_hidden (raise_if c b l) = hl_hidden l" "hl_blend_mode (raise_if c b l) = hl_blend_mode l"
  "hl_colorspace (raise_if c b l) = hl_colorspace l" "hl_color_encoding (raise_if c b l) = hl_color_encoding l"
  "hl_sample_range (raise_if c b l) = hl_sample_range l" "hl_transfer_func (raise_if c b l) = hl_transfer_func l"
  "hl_live (raise_if c b l) = hl_live l" "hl_has_buffer_set (raise_if c b l) = hl_has_buffer_set l"
  "hl_validated_type (raise_if c b l) = hl_validated_type l"
  by (simp_all add: raise_if_def)

lemma mark_if_simps [simp]:
  "hl_sf_type (mark_if c n l) = hl_sf_type l" "hl_z_order (mark_if c n l) = hl_z_order l"
  "hl_data (mark_if c n l) = hl_data l" "hl_sf_display_frame (mark_if c n l) = hl_sf_display_frame l"
  "hl_sf_source_crop (mark_if c n l) = hl_sf_source_crop l" "hl_sf_visible (mark_if c n l) = hl_sf_visible l"
  "hl_hidden (mark_if c n l) = hl_hidden l" "hl_blend_mode (mark_if c n l) = hl_blend_mode l"
  "hl_colorspace (mark_if c n l) = hl_colorspace l" "hl_color_encoding (mark_if c n l) = hl_color_encoding l"
  "hl_sample_range (mark_if c n l) = hl_sample_range l" "hl_transfer_func (mark_if c n l) = hl_transfer_func l"
  "hl_live (mark_if c n l) = hl_live l" "hl_has_buffer_set (mark_if c n l) = hl_has_buffer_set l"
  "hl_validated_type (mark_if c n l) = hl_validated_type l" "hl_invalidators (mark_if c n l) = hl_invalidators l"
  by (simp_all add: mark_if_def MarkActivity_def Let_def)

text \<open>What of a layer shapes a plan.\<close>

record plan_view =
  pv_shape :: "(nat \<times> nat \<times> nat \<times> nat) option"
  pv_usable :: bool
  pv_blend :: blend
  pv_space :: "colorspace \<times> color_enc \<times> sample_rng \<times> transfer_fn"
  pv_type :: comp_type
  pv_frame :: "irect option"
  pv_alpha :: f32
  pv_crop :: "frect option"
  pv_turn :: turn
  pv_z :: nat
  pv_visible :: "irect list"
  pv_colored :: bool
  pv_effects :: bool

definition view_of :: "f32 \<Rightarrow> hwc_layer \<Rightarrow> plan_view" where
  "view_of mcr l = \<lparr>pv_shape = map_option (\<lambda>b. (bf_width b, bf_height b, bf_format b, bf_modifier b)) (ld_bi (hl_data l)),
     pv_usable = (ld_fb (hl_data l) \<noteq> None), pv_blend = hl_blend_mode l,
     pv_space = (hl_colorspace l, hl_color_encoding l, hl_sample_range l, hl_transfer_func l),
     pv_type = hl_sf_type l, pv_frame = hl_sf_display_frame l,
     pv_alpha = pi_alpha (ld_pi (hl_data l)), pv_crop = hl_sf_source_crop l,
     pv_turn = pi_transform (ld_pi (hl_data l)), pv_z = hl_z_order l, pv_visible = hl_sf_visible l,
     pv_colored = (ld_solid_color (hl_data l) \<noteq> None), pv_effects = fx_Any mcr (ld_effects (hl_data l))\<rparr>"

lemma bits_nonzero: "kBufferGeometry \<noteq> 0" "kBlendMode \<noteq> 0" "kCompositionType \<noteq> 0" "kDisplayFrame \<noteq> 0"
  "kPlaneAlpha \<noteq> 0" "kSourceCrop \<noteq> 0" "kTransform \<noteq> 0" "kZOrder \<noteq> 0" "kDataspace \<noteq> 0" "kEffects \<noteq> 0"
  by (simp_all add: invalidator_defs push_bit_eq_mult)

lemma raise_if_zero [simp]:
  "b \<noteq> 0 \<Longrightarrow> hl_invalidators (raise_if c b l) = 0 \<longleftrightarrow> hl_invalidators l = 0 \<and> \<not> c"
  by (auto simp: raise_if_def or_eq_0_iff)

text \<open>A step of the layer that raises a bit for whatever it changes of the view.\<close>

definition honest_step :: "f32 \<Rightarrow> (hwc_layer \<Rightarrow> hwc_layer) \<Rightarrow> bool" where
  "honest_step mcr f \<longleftrightarrow> (\<forall>l. hl_invalidators (f l) = 0 \<longrightarrow>
     hl_invalidators l = 0 \<and> view_of mcr (f l) = view_of mcr l)"

lemma honest_comp: "honest_step mcr f \<Longrightarrow> honest_step mcr g \<Longrightarrow> honest_step mcr (g \<circ> f)"
  unfolding honest_step_def o_apply by metis

lemma honest_opt_set: "(\<And>v. honest_step mcr (f v)) \<Longrightarrow> honest_step mcr (opt_set p f)"
  by (cases p) (simp_all add: honest_step_def opt_set_def)

lemma frect_eq_imp: "frect_eq a b \<Longrightarrow> a = b"
  by (auto simp: frect_eq_def f32_eq_iff intro!: rect_eqI)

lemma crop_eq_imp: "crop_eq a b \<Longrightarrow> a = b"
  by (auto simp: crop_eq_def frect_eq_imp split: option.splits)

lemma honest_set_buffer: "honest_step mcr (set_buffer now b)"
  by (auto simp: honest_step_def set_buffer_def Let_def bits_nonzero view_of_def other_shape_def
      split: option.splits)

lemma honest_setters:
  "honest_step mcr (\<lambda>l. (raise_if (hl_blend_mode l \<noteq> v1) kBlendMode l)\<lparr>hl_blend_mode := v1\<rparr>)"
  "honest_step mcr (\<lambda>l. (raise_if (hl_colorspace l \<noteq> v2) kDataspace l)\<lparr>hl_colorspace := v2\<rparr>)"
  "honest_step mcr (\<lambda>l. (raise_if (hl_color_encoding l \<noteq> v3) kDataspace l)\<lparr>hl_color_encoding := v3\<rparr>)"
  "honest_step mcr (\<lambda>l. (raise_if (hl_sample_range l \<noteq> v4) kDataspace l)\<lparr>hl_sample_range := v4\<rparr>)"
  "honest_step mcr (\<lambda>l. (raise_if (hl_transfer_func l \<noteq> v5) kDataspace l)\<lparr>hl_transfer_func := v5\<rparr>)"
  "honest_step mcr (\<lambda>l. (raise_if (hl_sf_type l \<noteq> v6) kCompositionType l)\<lparr>hl_sf_type := v6\<rparr>)"
  "honest_step mcr (\<lambda>l. (raise_if (hl_z_order l \<noteq> v7) kZOrder l)\<lparr>hl_z_order := v7\<rparr>)"
  "honest_step mcr (\<lambda>l. l\<lparr>hl_brightness := v8\<rparr>)"
  "honest_step mcr (set_pi (\<lambda>q. q\<lparr>pi_damage := v9\<rparr>))"
  by (simp_all add: honest_step_def bits_nonzero view_of_def set_pi_def)

lemma honest_frames:
  "honest_step mcr (set_frame now vf)" "honest_step mcr (set_alpha now va)"
  "honest_step mcr (set_crop now vc)" "honest_step mcr (set_transform now vt)"
  by (auto simp: honest_step_def set_frame_def set_alpha_def set_crop_def set_transform_def Let_def
      bits_nonzero view_of_def set_pi_def frame_eq_def f32_eq_iff dest: crop_eq_imp)

lemma Populate_fields [simp]:
  "hl_invalidators (PopulateLayerData l) = hl_invalidators l" "view_of mcr (PopulateLayerData l) = view_of mcr l"
  by (simp_all add: PopulateLayerData_def view_of_def Let_def split: option.split)

text \<open>The setters, one after the other.\<close>

lemma SetLayerProperties_chain:
  "SetLayerProperties now p =
    (\<lambda>l. if hl_has_buffer_set l then PopulateLayerData l else l) \<circ>
    opt_set (lp_brightness p) (\<lambda>v l. l\<lparr>hl_brightness := Some v\<rparr>) \<circ>
    opt_set (lp_damage p) (\<lambda>v. set_pi (\<lambda>q. q\<lparr>pi_damage := v\<rparr>)) \<circ>
    opt_set (lp_z_order p) (\<lambda>v l. (raise_if (hl_z_order l \<noteq> v) kZOrder l)\<lparr>hl_z_order := v\<rparr>) \<circ>
    opt_set (lp_transform p) (set_transform now) \<circ>
    opt_set (lp_source_crop p) (set_crop now) \<circ>
    opt_set (lp_alpha p) (set_alpha now) \<circ>
    opt_set (lp_display_frame p) (set_frame now) \<circ>
    opt_set (lp_composition_type p) (\<lambda>v l. (raise_if (hl_sf_type l \<noteq> v) kCompositionType l)\<lparr>hl_sf_type := v\<rparr>) \<circ>
    opt_set (lp_transfer_func p) (\<lambda>v l. (raise_if (hl_transfer_func l \<noteq> v) kDataspace l)\<lparr>hl_transfer_func := v\<rparr>) \<circ>
    opt_set (lp_sample_range p) (\<lambda>v l. (raise_if (hl_sample_range l \<noteq> v) kDataspace l)\<lparr>hl_sample_range := v\<rparr>) \<circ>
    opt_set (lp_color_encoding p) (\<lambda>v l. (raise_if (hl_color_encoding l \<noteq> v) kDataspace l)\<lparr>hl_color_encoding := v\<rparr>) \<circ>
    opt_set (lp_colorspace p) (\<lambda>v l. (raise_if (hl_colorspace l \<noteq> v) kDataspace l)\<lparr>hl_colorspace := v\<rparr>) \<circ>
    opt_set (lp_blend_mode p) (\<lambda>v l. (raise_if (hl_blend_mode l \<noteq> v) kBlendMode l)\<lparr>hl_blend_mode := v\<rparr>) \<circ>
    opt_set (lp_buffer p) (set_buffer now)"
  by (rule ext) (simp only: SetLayerProperties_def Let_def o_apply)

lemma honest_SetLayerProperties: "honest_step mcr (SetLayerProperties now p)"
proof -
  have "honest_step mcr (\<lambda>l. if hl_has_buffer_set l then PopulateLayerData l else l)"
    by (simp add: honest_step_def)
  then show ?thesis unfolding SetLayerProperties_chain
    by (intro honest_comp honest_opt_set honest_set_buffer honest_setters honest_frames)
qed

text \<open>What the framework and the composer may do to a layer between two plans.\<close>

datatype layer_update = UpProperties int layer_properties | UpEffect string "8 word list"
  | UpColor nat nat nat nat | UpVisible "irect list" | UpOcclusion shown | UpValidated comp_type

fun update :: "f32 \<Rightarrow> layer_update \<Rightarrow> hwc_layer \<Rightarrow> hwc_layer" where
  "update mcr (UpProperties now p) l = SetLayerProperties now p l"
| "update mcr (UpEffect key value) l = snd (hl_ApplyEffectMetadata mcr key value l)"
| "update mcr (UpColor r g b a) l = SetSolidColor r g b a l"
| "update mcr (UpVisible rs) l = SetVisibleRegion rs l"
| "update mcr (UpOcclusion s) l = ApplyOcclusion s l"
| "update mcr (UpValidated t) l = SetValidatedType t l"

lemma refused_effect: "ApplyEffectMetadata key value e = (r, e') \<Longrightarrow> r \<noteq> FxApplied \<Longrightarrow> e' = e"
  unfolding ApplyEffectMetadata_def by (simp split: option.splits if_split_asm)

lemma honest_update: "honest_step mcr (update mcr u)"
proof (cases u)
  case (UpEffect key bytes)
  show ?thesis unfolding UpEffect honest_step_def
  proof (intro allI impI)
    fix l
    assume z: "hl_invalidators (update mcr (UpEffect key bytes) l) = 0"
    obtain r e where a: "ApplyEffectMetadata key bytes (ld_effects (hl_data l)) = (r, e)" by fastforce
    have "fx_Any mcr e = fx_Any mcr (ld_effects (hl_data l))" "hl_invalidators l = 0"
      using z refused_effect [OF a] by (auto simp: hl_ApplyEffectMetadata_def a Let_def bits_nonzero)
    then show "hl_invalidators l = 0 \<and> view_of mcr (update mcr (UpEffect key bytes) l) = view_of mcr l"
      by (simp add: hl_ApplyEffectMetadata_def a Let_def view_of_def)
  qed
next
  case (UpColor r g b a)
  then show ?thesis by (simp add: honest_step_def SetSolidColor_def Let_def bits_nonzero view_of_def)
next
  case (UpVisible rs)
  then show ?thesis by (simp add: honest_step_def SetVisibleRegion_def bits_nonzero view_of_def)
next
  case (UpOcclusion s)
  then show ?thesis
    by (auto simp: honest_step_def ApplyOcclusion_def Let_def bits_nonzero view_of_def set_pi_def split: prod.split)
next
  case (UpValidated t)
  then show ?thesis by (simp add: honest_step_def SetValidatedType_def view_of_def)
next
  case (UpProperties now p)
  show ?thesis unfolding UpProperties honest_step_def update.simps
    using honest_SetLayerProperties [unfolded honest_step_def] by blast
qed

lemma honest_run:
  "hl_invalidators (fold (update mcr) us l) = 0 \<Longrightarrow>
   hl_invalidators l = 0 \<and> view_of mcr (fold (update mcr) us l) = view_of mcr l"
proof (induction us arbitrary: l)
  case (Cons u us)
  have "honest_step mcr (update mcr u)" by (rule honest_update)
  then show ?case using Cons.IH [of "update mcr u l"] Cons.prems by (simp add: honest_step_def)
qed simp


definition no_props :: layer_properties where
  "no_props = \<lparr>lp_buffer = None, lp_blend_mode = None, lp_color_encoding = None, lp_sample_range = None,
     lp_colorspace = None, lp_transfer_func = None, lp_composition_type = None, lp_display_frame = None,
     lp_alpha = None, lp_source_crop = None, lp_transform = None, lp_z_order = None, lp_damage = None,
     lp_brightness = None\<rparr>"



subsection \<open>What the occlusion leaves of a layer\<close>

lemma ApplyOcclusion_kept [simp]:
  "hl_sf_display_frame (ApplyOcclusion s l) = hl_sf_display_frame l"
  "hl_sf_source_crop (ApplyOcclusion s l) = hl_sf_source_crop l"
  "ld_bi (hl_data (ApplyOcclusion s l)) = ld_bi (hl_data l)"
  "pi_transform (ld_pi (hl_data (ApplyOcclusion s l))) = pi_transform (ld_pi (hl_data l))"
proof -
  obtain f c where "occluded_rects s l = (f, c)" by fastforce
  then show "hl_sf_display_frame (ApplyOcclusion s l) = hl_sf_display_frame l"
    "hl_sf_source_crop (ApplyOcclusion s l) = hl_sf_source_crop l"
    "ld_bi (hl_data (ApplyOcclusion s l)) = ld_bi (hl_data l)"
    "pi_transform (ld_pi (hl_data (ApplyOcclusion s l))) = pi_transform (ld_pi (hl_data l))"
    by (simp_all add: ApplyOcclusion_def Let_def set_pi_def)
qed

lemma occluded_rects_again: "occluded_rects s (ApplyOcclusion s' l) = occluded_rects s l"
  by (simp only: occluded_rects_def ApplyOcclusion_kept)

lemma ApplyOcclusion_fields [simp]:
  "pi_display_frame (ld_pi (hl_data (ApplyOcclusion s l))) = fst (occluded_rects s l)"
  "pi_source_crop (ld_pi (hl_data (ApplyOcclusion s l))) = snd (occluded_rects s l)"
  "hl_hidden (ApplyOcclusion s l) = sh_hidden s"
  by (simp_all add: ApplyOcclusion_def Let_def set_pi_def split: prod.split)

text \<open>What a layer is shown with follows from what the framework set and from the last occlusion
  alone: an earlier narrowing leaves no trace in the frame, the crop or the hiding, and when the
  same occlusion comes again only a crop that is not a number can raise a bit.\<close>

theorem occlusion_starts_again:
  "occluded_rects s (ApplyOcclusion s' l) = occluded_rects s l \<and>
   ld_pi (hl_data (ApplyOcclusion s (ApplyOcclusion s' l))) = ld_pi (hl_data (ApplyOcclusion s l)) \<and>
   hl_hidden (ApplyOcclusion s (ApplyOcclusion s' l)) = sh_hidden s \<and>
   (crop_eq (snd (occluded_rects s l)) (snd (occluded_rects s l)) \<longrightarrow>
      hl_invalidators (ApplyOcclusion s (ApplyOcclusion s l)) = hl_invalidators (ApplyOcclusion s l))"
proof -
  obtain f c where r: "occluded_rects s l = (f, c)" by fastforce
  have again: "occluded_rects s (ApplyOcclusion s'' l) = (f, c)" for s''
    using occluded_rects_again r by simp
  have "ld_pi (hl_data (ApplyOcclusion s (ApplyOcclusion s' l))) = ld_pi (hl_data (ApplyOcclusion s l))"
    unfolding ApplyOcclusion_def [of s "ApplyOcclusion s' l"] again
    by (simp add: ApplyOcclusion_def Let_def set_pi_def r split: prod.split)
  moreover have "hl_invalidators (ApplyOcclusion s (ApplyOcclusion s l)) = hl_invalidators (ApplyOcclusion s l)"
    if "crop_eq c c"
    unfolding ApplyOcclusion_def [of s "ApplyOcclusion s l"] again
    using that by (simp add: Let_def set_pi_def r raise_if_def frame_eq_def)
  ultimately show ?thesis using again r by simp
qed

lemma occlusion_starts_again_witness:
  "hl_invalidators (ApplyOcclusion \<lparr>sh_hidden = True, sh_bounds = mk_rect 0 0 0 0\<rparr>
     (ApplyOcclusion \<lparr>sh_hidden = True, sh_bounds = mk_rect 0 0 0 0\<rparr> (hl_new 1))) =
   hl_invalidators (ApplyOcclusion \<lparr>sh_hidden = True, sh_bounds = mk_rect 0 0 0 0\<rparr> (hl_new 1))"
proof -
  let ?s = "\<lparr>sh_hidden = True, sh_bounds = mk_rect 0 0 0 0\<rparr>"
  have "crop_eq (snd (occluded_rects ?s (hl_new 1))) (snd (occluded_rects ?s (hl_new 1)))"
    by (simp add: occluded_rects_def hl_new_def crop_eq_def Let_def)
  then show ?thesis using occlusion_starts_again [where s = ?s and s' = ?s and l = "hl_new 1"] by blast
qed

text \<open>A layer over the whole of a display of 100 pixels a side, of which the occlusion leaves the
  lower 90 rows.\<close>

definition narrowed_layer :: hwc_layer where
  "narrowed_layer = ApplyOcclusion \<lparr>sh_hidden = False, sh_bounds = mk_rect 0 10 100 100\<rparr>
     (SetLayerProperties 5 (no_props\<lparr>lp_display_frame := Some (Some (mk_rect 0 0 100 100))\<rparr>) (hl_new 1))"

text \<open>Setting the same display frame again is not free: it puts a narrowed layer back to its whole
  frame without a bit, and the same occlusion narrowing it again then raises one, though neither the
  framework nor the stack has changed anything.\<close>

theorem restated_frame_raises:
  "let l = snd (TakePlanInvalidators narrowed_layer);
       again = SetLayerProperties 6 (no_props\<lparr>lp_display_frame := Some (Some (mk_rect 0 0 100 100))\<rparr>) l
   in hl_invalidators again = 0 \<and>
      hl_invalidators (ApplyOcclusion \<lparr>sh_hidden = False, sh_bounds = mk_rect 0 10 100 100\<rparr> l) = 0 \<and>
      hl_invalidators (ApplyOcclusion \<lparr>sh_hidden = False, sh_bounds = mk_rect 0 10 100 100\<rparr> again) = kDisplayFrame"
  by code_simp

lemma length_order [simp]: "length (sort_key hl_z_order ls) = length ls"
  by simp

text \<open>C13: The occlusion and the layers agree about every pixel: after a display has resolved its
  occlusion, a pixel of a layer's visible region that lies under no opaque part of a layer above is
  shown by that layer, which is not hidden and whose frame still holds the pixel.\<close>

theorem shown_where_visible:
  assumes "i < length ls"
    "order = sort_key hl_z_order ls"
    "inputs = map (OcclusionInput mcr screen) order"
    "p \<in> described (inputs ! i) - hidden_above inputs i"
    "hl_sf_display_frame (order ! i) = Some f"
    "l = ResolveOcclusion enabled mcr screen ls ! i"
  shows "\<not> hl_hidden l \<and> (\<exists>g. pi_display_frame (ld_pi (hl_data l)) = Some g \<and> p \<in> pts g)"
proof -
  have n: "i < length order" "i < length inputs" using assms(1-3) by simp_all
  have fr: "ol_frame (inputs ! i) = f"
    using assms(3,5) n by (simp add: OcclusionInput_def Let_def)
  have pf: "p \<in> pts f" using assms(4) fr by (simp add: described_def)
  define s where "s = (if enabled then Resolve inputs ! i else \<lparr>sh_hidden = False, sh_bounds = ol_frame (inputs ! i)\<rparr>)"
  have l: "l = ApplyOcclusion s (order ! i)"
    using assms(2,3,6) n by (simp add: ResolveOcclusion_def Let_def s_def length_Resolve)
  have s: "\<not> sh_hidden s \<and> p \<in> pts (sh_bounds s)"
  proof (cases "enabled \<and> \<not> ol_keep (inputs ! i)")
    case True
    have ne: "\<not> rEmpty (ol_frame (inputs ! i))" using pf fr by (auto simp: rEmpty_iff)
    let ?h = "concat (map OpaqueParts (rev (drop (Suc i) inputs)))"
    have "described (inputs ! i) - region ?h \<noteq> {}" using assms(4) by (auto simp: hidden_above_region)
    with resolve_layer_exact(1,2) [OF _ ne, of ?h] True assms(4)
    show ?thesis by (auto simp: s_def Resolve_nth [OF n(2)] hidden_above_region)
  next
    case False
    then have "s = \<lparr>sh_hidden = False, sh_bounds = f\<rparr>"
      by (auto simp: s_def Resolve_nth [OF n(2)] resolve_layer_def fr)
    then show ?thesis using pf by simp
  qed
  have "fst (occluded_rects s (order ! i)) = Some f \<or> fst (occluded_rects s (order ! i)) = Some (sh_bounds s)"
    by (simp add: occluded_rects_def assms(5) Let_def split: option.split)
  then show ?thesis using s pf by (auto simp: l)
qed

lemma shown_where_visible_witness:
  "\<exists>g. pi_display_frame (ld_pi (hl_data (ResolveOcclusion True (Fin 0) (mk_rect 0 0 100 100) [narrowed_layer] ! 0))) = Some g \<and>
     (5, 5) \<in> pts g"
proof -
  let ?o = "sort_key hl_z_order [narrowed_layer]"
  have f: "hl_sf_display_frame (?o ! 0) = Some (mk_rect 0 0 100 100)" "hl_sf_visible (?o ! 0) = []"
    by (simp_all add: narrowed_layer_def SetLayerProperties_def no_props_def opt_set_def
      set_frame_def raise_if_def mark_if_def MarkActivity_def hl_new_def Let_def set_pi_def ApplyOcclusion_def split: prod.split)
  have "(5, 5) \<in> described (map (OcclusionInput (Fin 0) (mk_rect 0 0 100 100)) ?o ! 0) -
      hidden_above (map (OcclusionInput (Fin 0) (mk_rect 0 0 100 100)) ?o) 0"
    using f by (simp add: described_def hidden_above_def OcclusionInput_def Let_def in_pts)
  then show ?thesis using shown_where_visible [where ls = "[narrowed_layer]" and mcr = "Fin 0" and i = 0 and enabled = True, OF _ refl refl _ f(1) refl] by auto
qed

end
