(* ===== verification/Planner.thy ===== *)
theory Planner
  imports HwcLayers
begin

text \<open>
  compositor/CompositionPlanner and GenericCompositionPlanner: which layers of a frame the client
  draws and which the display's planes show. The display the planner asks is a record; the
  kernel's answer to the \<open>n\<close>-th test of a composition is one of its fields. A layer is known by its
  serial where the code has its address. What the planner counts and logs about itself is left out.
\<close>

datatype flatten_reason = FrNone | FrValidateFailed | FrCtmWithOffset | FrNoPerPlaneColorspaceSupport

record composition =
  co_types :: "nat \<Rightarrow> comp_type option"
  co_punch :: "nat list"
  co_plan :: "nat option"
  co_reason :: flatten_reason
  co_cursor_validated :: "bool option"
  co_error :: int
  co_gpu_draws_client :: bool

definition co_init :: composition where
  "co_init = \<lparr>co_types = (\<lambda>_. None), co_punch = [], co_plan = None, co_reason = FrNone,
     co_cursor_validated = None, co_error = 0, co_gpu_draws_client = False\<rparr>"

record commit_status =
  cs_success :: bool
  cs_error :: int

record compositor_display =
  cd_layers :: "hwc_layer list"
  cd_size :: "nat \<times> nat"
  cd_min_corner :: f32
  cd_ctm_by_gpu :: bool
  cd_color_pipeline :: bool
  cd_forced_scaling :: bool
  cd_invalidators :: "32 word"
  cd_reusable :: "composition option"
  cd_cursor_plane :: "(layer_data \<Rightarrow> bool) option"
  cd_cursor_needs_pipeline :: "hwc_layer \<Rightarrow> bool"
  cd_planes :: nat
  cd_direct_planes :: nat
  cd_test :: "nat \<Rightarrow> composition \<Rightarrow> commit_status \<times> nat option"

abbreviation serial :: "hwc_layer \<Rightarrow> nat" where
  "serial l \<equiv> ld_serial (hl_data l)"

definition GetFlattenedComposition :: "hwc_layer list \<Rightarrow> flatten_reason \<Rightarrow> composition" where
  "GetFlattenedComposition layers reason =
     co_init\<lparr>co_types := fold (\<lambda>l m. m(serial l \<mapsto> CClient)) layers (\<lambda>_. None), co_reason := reason\<rparr>"

definition LayersUseDifferentColorspaces :: "hwc_layer list \<Rightarrow> bool" where
  "LayersUseDifferentColorspaces layers = (case layers of [] \<Rightarrow> False
   | l # ls \<Rightarrow> list_ex (\<lambda>k. ld_colorspace (hl_data k) \<noteq> ld_colorspace (hl_data l)) ls)"

definition GetCursorLayer :: "hwc_layer list \<Rightarrow> hwc_layer option" where
  "GetCursorLayer layers = find (\<lambda>l. hl_sf_type l = CCursor) layers"

definition HardwareSupportsLayerType :: "comp_type \<Rightarrow> bool" where
  "HardwareSupportsLayerType t \<longleftrightarrow> t = CDevice \<or> t = CCursor"

definition IsClientLayer :: "compositor_display \<Rightarrow> hwc_layer \<Rightarrow> bool" where
  "IsClientLayer d l \<longleftrightarrow> fx_Any (cd_min_corner d) (ld_effects (hl_data l)) \<or>
     \<not> HardwareSupportsLayerType (hl_sf_type l) \<or> \<not> IsLayerUsableAsDevice l \<or> cd_ctm_by_gpu d \<or>
     RequireScalingOrPhasing (ld_pi (hl_data l)) \<and> cd_forced_scaling d"

definition CalcPixOps :: "compositor_display \<Rightarrow> hwc_layer list \<Rightarrow> nat \<Rightarrow> nat \<Rightarrow> nat" where
  "CalcPixOps d layers first_z n =
     fold (\<lambda>l acc. wrap_size (int (acc + GetPixOps (cd_size d) l))) (take n (drop first_z layers)) 0"

definition GetPunchOutLayers :: "hwc_layer list \<Rightarrow> nat \<Rightarrow> nat \<Rightarrow> nat list" where
  "GetPunchOutLayers layers client_first_z client_size =
     (if client_size = 0 then [] else map serial (take client_first_z layers))"

definition type_at :: "hwc_layer list \<Rightarrow> nat \<Rightarrow> nat \<Rightarrow> bool \<Rightarrow> nat \<Rightarrow> comp_type" where
  "type_at layers client_first_z client_size use_cursor_plane z =
     (if client_first_z \<le> z \<and> z < client_first_z + client_size then CClient
      else if use_cursor_plane \<and> hl_sf_type (layers ! z) = CCursor then CCursor else CDevice)"

definition GetCompositionTypes :: "hwc_layer list \<Rightarrow> nat \<Rightarrow> nat \<Rightarrow> bool \<Rightarrow> nat \<Rightarrow> comp_type option" where
  "GetCompositionTypes layers client_first_z client_size use_cursor_plane =
     fold (\<lambda>z m. m(serial (layers ! z) \<mapsto> type_at layers client_first_z client_size use_cursor_plane z))
       [0..<length layers] (\<lambda>_. None)"

text \<open>The smallest range that holds every layer only the client can draw.\<close>

fun client_bounds :: "compositor_display \<Rightarrow> nat \<Rightarrow> hwc_layer list \<Rightarrow> nat \<Rightarrow> nat \<Rightarrow> nat \<times> nat" where
  "client_bounds d z [] client_start client_size = (client_start, client_size)"
| "client_bounds d z (l # ls) client_start client_size =
     (if IsClientLayer d l
      then let start = (if client_size = 0 then z else client_start)
           in client_bounds d (Suc z) ls start (z - start + 1)
      else client_bounds d (Suc z) ls client_start client_size)"

text \<open>The cheapest place of a window of \<open>client_size\<close> layers among \<open>steps\<close> from \<open>start\<close>.\<close>

fun slide :: "compositor_display \<Rightarrow> hwc_layer list \<Rightarrow> nat \<Rightarrow> nat \<Rightarrow> nat list \<Rightarrow> nat \<Rightarrow> nat \<Rightarrow> nat" where
  "slide d layers start client_size [] best client_start = client_start"
| "slide d layers start client_size (i # is) best client_start =
     (let po = CalcPixOps d layers (start + i) client_size in
      if po < best then slide d layers start client_size is po (start + i)
      else slide d layers start client_size is best client_start)"

definition UINT32_TOP :: nat where "UINT32_TOP = 4294967295"

text \<open>How many planes there are to give and how many layers want one, before the client's range is
  grown: in \<open>size_t\<close>, which wraps.\<close>

definition plane_budget :: "compositor_display \<Rightarrow> hwc_layer list \<Rightarrow> nat \<Rightarrow> nat \<Rightarrow> bool \<Rightarrow> nat \<times> nat" where
  "plane_budget d layers client_start client_size use_cursor_plane =
     (let n = (if use_cursor_plane then usub (length layers) 1 else length layers);
          a = (if cd_planes d < n then usub (cd_planes d) 1 else cd_planes d)
      in if \<not> use_cursor_plane \<and> 0 < a \<and> 0 < n \<and> client_start + client_size < n \<and>
            hl_sf_type (last layers) = CCursor
         then (a - 1, n - 1) else (a, n))"

definition GetExtraClientRange :: "compositor_display \<Rightarrow> hwc_layer list \<Rightarrow> nat \<Rightarrow> nat \<Rightarrow> bool \<Rightarrow> nat \<Rightarrow> nat \<times> nat" where
  "GetExtraClientRange d layers client_start client_size use_cursor_plane forced =
     (case plane_budget d layers client_start client_size use_cursor_plane of (avail, n) \<Rightarrow>
      if (usub n client_size > avail \<or> forced > 0) \<and> client_size < n
      then let extra0 = (if n - client_size > avail then n - client_size - avail else 0);
               extra = min (wrap_size (int (extra0 + forced))) (n - client_size);
               prepend = min client_start extra;
               append = min (usub n (client_start + client_size)) extra;
               start = (if client_size \<noteq> 0 then client_start - prepend else 0);
               range = (if client_size \<noteq> 0 then client_size + extra else extra);
               steps = (if client_size \<noteq> 0 then 1 + min (min append prepend) (usub n (start + range))
                        else 1 + n - extra)
           in (slide d layers start range [0..<steps] UINT32_TOP client_start, range)
      else (client_start, client_size))"

definition GetClientLayers :: "compositor_display \<Rightarrow> hwc_layer list \<Rightarrow> bool \<Rightarrow> nat \<Rightarrow> nat \<times> nat" where
  "GetClientLayers d layers use_cursor_plane forced =
     (case client_bounds d 0 layers 0 0 of (start, n) \<Rightarrow>
        GetExtraClientRange d layers start n use_cursor_plane forced)"

text \<open>The planner's state through a validation: how many tests the kernel has been asked, the range
  and the composition being weighed, and the last answer.\<close>

record weighing =
  we_asked :: nat
  we_start :: nat
  we_size :: nat
  we_composition :: composition
  we_status :: commit_status

definition TestComposition :: "compositor_display \<Rightarrow> weighing \<Rightarrow> bool \<times> weighing" where
  "TestComposition d w = (case cd_test d (we_asked w) (we_composition w) of (st, plan) \<Rightarrow>
     let c = we_composition w in
     (cs_success st, w\<lparr>we_asked := we_asked w + 1, we_status := st,
        we_composition := (if cs_success st then c\<lparr>co_plan := plan\<rparr> else c)\<rparr>))"

definition validate_and_test :: "compositor_display \<Rightarrow> hwc_layer list \<Rightarrow> bool \<Rightarrow> weighing \<Rightarrow> bool \<times> weighing" where
  "validate_and_test d layers use_cursor w =
     (let c = (we_composition w)\<lparr>
            co_types := GetCompositionTypes layers (we_start w) (we_size w) use_cursor,
            co_punch := GetPunchOutLayers layers (we_start w) (we_size w)\<rparr>
      in if we_start w \<noteq> 0 \<or> we_size w \<noteq> length layers
         then TestComposition d (w\<lparr>we_composition := c\<rparr>)
         else (True, w\<lparr>we_composition := c\<lparr>co_plan := None\<rparr>\<rparr>))"

definition cursor_wanted :: "compositor_display \<Rightarrow> hwc_layer list \<Rightarrow> bool" where
  "cursor_wanted d layers = (case (GetCursorLayer layers, cd_cursor_plane d) of
     (Some l, Some valid) \<Rightarrow> layers \<noteq> [] \<and> serial (last layers) = serial l \<and> \<not> IsClientLayer d l \<and>
        valid (hl_data l) \<and> \<not> cd_cursor_needs_pipeline d l
   | _ \<Rightarrow> False)"

definition probe_cursor :: "compositor_display \<Rightarrow> hwc_layer list \<Rightarrow> bool \<times> nat" where
  "probe_cursor d layers =
     (if cursor_wanted d layers
      then (cs_success (fst (cd_test d 0 (co_init\<lparr>co_types := GetCompositionTypes layers 0 (length layers - 1) True\<rparr>))), 1)
      else (False, 0))"

definition rung_of :: "compositor_display \<Rightarrow> hwc_layer list \<Rightarrow> nat \<Rightarrow> nat" where
  "rung_of d layers refused_size =
     (let direct = cd_direct_planes d; device_layers = usub (length layers) refused_size
      in if direct > 0 \<and> device_layers + 1 > direct then device_layers + 1 - direct else 1)"

text \<open>The ladder: one rung down after a refusal, if that changes the range.\<close>

definition try_rung :: "compositor_display \<Rightarrow> hwc_layer list \<Rightarrow> bool \<Rightarrow> bool \<times> weighing \<Rightarrow> bool \<times> weighing" where
  "try_rung d layers use_cursor r = (case r of (success, w) \<Rightarrow>
     if \<not> success \<and> length layers > 1
     then (case GetClientLayers d layers use_cursor (rung_of d layers (we_size w)) of (start, n) \<Rightarrow>
       if start \<noteq> we_start w \<or> n \<noteq> we_size w
       then validate_and_test d layers use_cursor (w\<lparr>we_start := start, we_size := n\<rparr>)
       else (success, w))
     else (success, w))"

text \<open>The cursor fallback: everything below the cursor to the client.\<close>

definition try_cursor :: "compositor_display \<Rightarrow> hwc_layer list \<Rightarrow> bool \<Rightarrow> bool \<times> weighing \<Rightarrow> bool \<times> weighing" where
  "try_cursor d layers use_cursor r = (case r of (success, w) \<Rightarrow>
     if \<not> success \<and> GetCursorLayer layers \<noteq> None \<and> hl_sf_type (last layers) = CCursor
     then validate_and_test d layers use_cursor (w\<lparr>we_start := 0, we_size := length layers - 1\<rparr>)
     else (success, w))"

definition weigh :: "compositor_display \<Rightarrow> hwc_layer list \<Rightarrow> composition" where
  "weigh d layers =
     (case probe_cursor d layers of (use_cursor, asked) \<Rightarrow>
      case GetClientLayers d layers use_cursor 0 of (start, n) \<Rightarrow>
      let w0 = \<lparr>we_asked = asked, we_start = start, we_size = n, we_composition = co_init,
            we_status = \<lparr>cs_success = False, cs_error = 0\<rparr>\<rparr>
      in case try_cursor d layers use_cursor (try_rung d layers use_cursor
             (validate_and_test d layers use_cursor w0)) of
           (success, w) \<Rightarrow>
             let c = (if success then we_composition w
                  else (GetFlattenedComposition layers FrValidateFailed)\<lparr>co_error := cs_error (we_status w)\<rparr>)
             in if use_cursor then c\<lparr>co_cursor_validated := Some success\<rparr> else c)"

definition reuse :: "compositor_display \<Rightarrow> composition option" where
  "reuse d = (case cd_reusable d of
     Some c \<Rightarrow> if cd_invalidators d = 0 \<and> co_reason c = FrNone then Some c else None
   | None \<Rightarrow> None)"

text \<open>The composition, and whether it is the last one handed back.\<close>

definition ValidateDisplay :: "compositor_display \<Rightarrow> composition \<times> bool" where
  "ValidateDisplay d =
     (let layers = cd_layers d in
      if cd_ctm_by_gpu d then (GetFlattenedComposition layers FrCtmWithOffset, False)
      else if LayersUseDifferentColorspaces layers \<and> \<not> cd_color_pipeline d
      then (GetFlattenedComposition layers FrNoPerPlaneColorspaceSupport, False)
      else case reuse d of
             Some c \<Rightarrow> (c, True)
           | None \<Rightarrow> (weigh d layers, False))"


subsection \<open>The range the client draws\<close>

lemma fold_typing:
  assumes "distinct (map serial layers)" "n \<le> length layers"
  shows "fold (\<lambda>z m. m(serial (layers ! z) \<mapsto> f z)) [0..<n] (\<lambda>_. None) k =
     (if \<exists>z<n. serial (layers ! z) = k then Some (f (THE z. z < n \<and> serial (layers ! z) = k)) else None)"
  using assms(2)
proof (induction n)
  case (Suc n)
  have one: "(THE z. z < m \<and> serial (layers ! z) = serial (layers ! i)) = i"
    if "i < m" "m \<le> length layers" for i m
    using that assms(1) by (intro the_equality) (auto simp: distinct_conv_nth dest: order_less_le_trans)
  show ?case
  proof (cases "serial (layers ! n) = k")
    case True
    then have "(THE z. z < Suc n \<and> serial (layers ! z) = k) = n" using one [of n "Suc n"] Suc.prems by simp
    with True show ?thesis by auto
  next
    case False
    then have "\<And>z. z < Suc n \<and> serial (layers ! z) = k \<longleftrightarrow> z < n \<and> serial (layers ! z) = k"
      by (auto simp: less_Suc_eq)
    with False Suc show ?thesis by simp
  qed
qed simp

lemma GetCompositionTypes_at:
  assumes "distinct (map serial layers)" "z < length layers"
  shows "GetCompositionTypes layers s n u (serial (layers ! z)) = Some (type_at layers s n u z)"
proof -
  have "(THE y. y < length layers \<and> serial (layers ! y) = serial (layers ! z)) = z"
    using assms by (intro the_equality) (auto simp: distinct_conv_nth)
  then show ?thesis using assms by (auto simp: GetCompositionTypes_def fold_typing)
qed

lemma flattened_at:
  assumes "l \<in> set layers"
  shows "co_types (GetFlattenedComposition layers r) (serial l) = Some CClient"
proof -
  have "fold (\<lambda>l m. m(serial l \<mapsto> CClient)) ls m (serial l) = Some CClient"
    if "l \<in> set ls \<or> m (serial l) = Some CClient" for ls m
    using that by (induction ls arbitrary: m) auto
  with assms show ?thesis by (simp add: GetFlattenedComposition_def)
qed

text \<open>What a range found over the layers from depth \<open>z\<close> on is to one found before them.\<close>

definition bounds_ok :: "compositor_display \<Rightarrow> nat \<Rightarrow> hwc_layer list \<Rightarrow> nat \<times> nat \<Rightarrow> nat \<times> nat \<Rightarrow> bool" where
  "bounds_ok d z ls r r' \<longleftrightarrow> (case (r, r') of ((s, n), (s', n')) \<Rightarrow>
     (n \<noteq> 0 \<longrightarrow> s' = s \<and> s + n \<le> s' + n') \<and> (n' = 0 \<longrightarrow> n = 0 \<and> s' = s) \<and>
     (\<forall>i<length ls. IsClientLayer d (ls ! i) \<longrightarrow> s' \<le> z + i \<and> z + i < s' + n') \<and>
     (n = 0 \<and> n' \<noteq> 0 \<longrightarrow> (\<exists>i<length ls. IsClientLayer d (ls ! i) \<and> s' = z + i)) \<and>
     (n' \<noteq> 0 \<longrightarrow> n \<noteq> 0 \<and> s' + n' = s + n \<or>
        (\<exists>i<length ls. IsClientLayer d (ls ! i) \<and> s' + n' = Suc (z + i))))"

lemma client_bounds_ok:
  "(n \<noteq> 0 \<longrightarrow> s + n \<le> z) \<Longrightarrow> bounds_ok d z ls (s, n) (client_bounds d z ls s n)"
proof (induction ls arbitrary: z s n)
  case Nil
  then show ?case by (auto simp: bounds_ok_def)
next
  case (Cons l ls)
  note heads = length_Cons All_less_Suc2 Ex_less_Suc2 nth_Cons_0 nth_Cons_Suc
  show ?case
  proof (cases "IsClientLayer d l")
    case True
    let ?s = "if n = 0 then z else s" and ?n = "z - (if n = 0 then z else s) + 1"
    have le: "?s + ?n = Suc z" "?n \<noteq> 0" using Cons.prems by auto
    obtain s' n' where r: "client_bounds d (Suc z) ls ?s ?n = (s', n')" by fastforce
    have c: "client_bounds d z (l # ls) s n = (s', n')" using True r by (simp add: Let_def)
    have "bounds_ok d (Suc z) ls (?s, ?n) (s', n')" using Cons.IH [of ?n ?s "Suc z"] le r by simp
    then show ?thesis using True le Cons.prems
      unfolding c bounds_ok_def prod.case heads by (auto split: if_splits)
  next
    case False
    obtain s' n' where r: "client_bounds d (Suc z) ls s n = (s', n')" by fastforce
    have "bounds_ok d (Suc z) ls (s, n) (s', n')" using Cons.IH [of n s "Suc z"] Cons.prems r by auto
    then show ?thesis using False Cons.prems r
      unfolding bounds_ok_def prod.case heads client_bounds.simps by auto
  qed
qed


lemma slide_spec:
  "slide d layers start w is best s = s \<and> (\<forall>i\<in>set is. best \<le> CalcPixOps d layers (start + i) w) \<or>
   (\<exists>i\<in>set is. slide d layers start w is best s = start + i \<and> CalcPixOps d layers (start + i) w < best \<and>
      (\<forall>j\<in>set is. CalcPixOps d layers (start + i) w \<le> CalcPixOps d layers (start + j) w))"
proof (induction "is" arbitrary: best s)
  case (Cons i "is")
  let ?po = "CalcPixOps d layers (start + i) w"
  show ?case
  proof (cases "?po < best")
    case True
    have e: "slide d layers start w (i # is) best s = slide d layers start w is ?po (start + i)"
      using True by (simp add: Let_def)
    from Cons.IH [of ?po "start + i"] True show ?thesis unfolding e by force
  next
    case False
    have e: "slide d layers start w (i # is) best s = slide d layers start w is best s"
      using False by (simp add: Let_def)
    from Cons.IH [of best s] False show ?thesis unfolding e by force
  qed
qed simp

text \<open>The counts the planner reckons with fit its integers: a frame has fewer than two thousand
  million layers, and the pixels of all of them together are below \<open>UINT32_MAX\<close>.\<close>

definition countable_scene :: "compositor_display \<Rightarrow> hwc_layer list \<Rightarrow> bool" where
  "countable_scene d layers \<longleftrightarrow> length layers < 2 ^ 31 \<and> cd_planes d < 2 ^ 31 \<and>
     sum_list (map (GetPixOps (cd_size d)) layers) < UINT32_TOP"

lemma fold_pixops:
  "a + sum_list (map f ls) < UINT32_TOP \<Longrightarrow>
   fold (\<lambda>l acc. wrap_size (int (acc + f l))) ls a = a + sum_list (map f ls)"
proof (induction ls arbitrary: a)
  case (Cons l ls)
  then have "wrap_size (int (a + f l)) = a + f l" by (intro wrap_size_id) (simp add: UINT32_TOP_def)
  with Cons.IH [of "a + f l"] Cons.prems show ?case by (simp add: add.assoc)
qed simp

lemma sum_list_part: "sum_list (map f (take n (drop m xs))) \<le> sum_list (map (f :: 'a \<Rightarrow> nat) xs)"
proof -
  have "xs = take m xs @ take n (drop m xs) @ drop n (drop m xs)"
    by (simp only: append_take_drop_id)
  then have "sum_list (map f xs) = sum_list (map f (take m xs @ take n (drop m xs) @ drop n (drop m xs)))"
    by (rule arg_cong)
  then show ?thesis by (simp only: map_append sum_list_append)
qed

lemma CalcPixOps_sum:
  assumes "countable_scene d layers"
  shows "CalcPixOps d layers z n = sum_list (map (GetPixOps (cd_size d)) (take n (drop z layers)))"
    "CalcPixOps d layers z n < UINT32_TOP"
proof -
  have lt: "sum_list (map (GetPixOps (cd_size d)) (take n (drop z layers))) < UINT32_TOP"
    using assms sum_list_part [of "GetPixOps (cd_size d)" n z layers] by (simp add: countable_scene_def)
  then show "CalcPixOps d layers z n = sum_list (map (GetPixOps (cd_size d)) (take n (drop z layers)))"
    unfolding CalcPixOps_def using fold_pixops [of 0 "GetPixOps (cd_size d)"] by simp
  with lt show "CalcPixOps d layers z n < UINT32_TOP" by simp
qed

lemma plane_budget_spec:
  assumes "plane_budget d layers s n u = (avail, N)" "length layers < 2 ^ 31" "cd_planes d < 2 ^ 31"
    "0 < cd_planes d" "u \<Longrightarrow> layers \<noteq> [] \<and> s + n < length layers" "s + n \<le> length layers"
  shows "s + n \<le> N" "N \<le> length layers" "u \<Longrightarrow> N = length layers - 1"
    "length layers - 1 \<le> N" "N = length layers \<or> u \<or> hl_sf_type (last layers) = CCursor"
    "\<And>w. n \<le> w \<Longrightarrow> w \<le> N \<Longrightarrow> N - w \<le> avail \<Longrightarrow>
       length layers - w - (if u then 1 else 0) + (if w = 0 then 0 else 1) \<le> cd_planes d"
  using assms by (auto simp: plane_budget_def Let_def split: if_splits)


lemma GetExtraClientRange_spec:
  assumes b: "plane_budget d layers s n u = (avail, N)" and c: "countable_scene d layers"
    and g: "GetExtraClientRange d layers s n u forced = (s', n')"
    and sn: "s + n \<le> N" "N \<le> length layers" "n = 0 \<longrightarrow> s = 0" and f: "forced < 2 ^ 31"
  shows "n \<le> n' \<and> N - n' \<le> avail \<and> s' + n' \<le> N \<and> (n \<noteq> 0 \<longrightarrow> s' \<le> s \<and> s + n \<le> s' + n')" (is ?range)
    "\<forall>st. (n \<noteq> 0 \<longrightarrow> st \<le> s \<and> s + n \<le> st + n') \<and> st + n' \<le> N \<longrightarrow>
       CalcPixOps d layers s' n' \<le> CalcPixOps d layers st n'" (is ?least)
proof -
  have len: "length layers < 2147483648" using c by (simp add: countable_scene_def)
  define extra where "extra = min ((N - n - avail) + forced) (N - n)"
  have "?range \<and> ?least"
  proof (cases "(usub N n > avail \<or> forced > 0) \<and> n < N")
    case False
    have "s' = s" "n' = n" using g b False by (auto simp: GetExtraClientRange_def)
    moreover have "N - n \<le> avail" using False sn len by auto
    moreover have "CalcPixOps d layers s n \<le> CalcPixOps d layers st n"
      if "n \<noteq> 0 \<longrightarrow> st \<le> s \<and> s + n \<le> st + n" for st
      using that by (cases "n = 0") (auto simp: CalcPixOps_def)
    ultimately show ?thesis using sn by simp
  next
    case True
    have w: "min (wrap_size (int ((if N - n > avail then N - n - avail else 0) + forced))) (N - n) = extra"
      using len sn f by (subst wrap_size_id) (auto simp: extra_def)
    have fits: "n + extra \<le> N" "extra \<le> N - n" using True by (auto simp: extra_def min_def)
    define start where "start = (if n \<noteq> 0 then s - min s extra else 0)"
    define steps where "steps = (if n \<noteq> 0 then 1 + min (min (min (N - (s + n)) extra) (min s extra)) (N - (start + (n + extra)))
      else 1 + N - extra)"
    have sw: "start + (n + extra) \<le> N" using sn fits by (auto simp: start_def)
    have us: "usub N (s + n) = N - (s + n)" "usub N (start + (n + extra)) = N - (start + (n + extra))"
      using sn len sw by simp_all
    have "n' = n + extra \<and> s' = slide d layers start (n + extra) [0..<steps] UINT32_TOP s"
    proof (cases "n = 0")
      case True
      show ?thesis using g True
        unfolding GetExtraClientRange_def b prod.case if_P [OF \<open>(usub N n > avail \<or> forced > 0) \<and> n < N\<close>] Let_def w
        by (auto simp: start_def steps_def)
    next
      case False
      have st: "s - min s extra = start" using False by (simp add: start_def)
      show ?thesis using g False us
        unfolding GetExtraClientRange_def b prod.case if_P [OF True] Let_def w
        by (auto simp: st steps_def)
    qed
    then have r: "n' = n + extra" "s' = slide d layers start (n + extra) [0..<steps] UINT32_TOP s"
      by blast+
    have below: "j < steps \<longleftrightarrow> (if n = 0 then j \<le> N - extra
        else j \<le> N - (s + n) \<and> j \<le> extra \<and> j \<le> s \<and> j \<le> N - (start + (n + extra)))" for j
    proof (cases "n = 0")
      case True
      then show ?thesis using fits by (simp add: steps_def, linarith)
    next
      case False
      then show ?thesis unfolding steps_def if_not_P [OF False] if_P [OF False] plus_1_eq_Suc less_Suc_eq_le min.bounded_iff
        by blast
    qed
    have first: "n \<noteq> 0 \<longrightarrow> start = s - s \<or> start = s - extra" "n = 0 \<longrightarrow> start = 0" "start \<le> s"
      "s - start \<le> extra" using sn(3) by (simp_all add: start_def min_def)
    have pos: "0 \<in> set [0..<steps]" by (simp add: below)
    have "\<not> UINT32_TOP \<le> CalcPixOps d layers (start + 0) (n + extra)"
      using CalcPixOps_sum(2) [OF c, of "start + 0" "n + extra"] by simp
    with slide_spec [of d layers start "n + extra" "[0..<steps]" UINT32_TOP s] pos
    obtain i where i: "i < steps" "s' = start + i"
      and least: "\<And>j. j < steps \<Longrightarrow> CalcPixOps d layers s' n' \<le> CalcPixOps d layers (start + j) n'"
      using r by force
    have "s' + n' \<le> N" using i [unfolded below] r(1) sw fits first(2) by (cases "n = 0") (simp_all, linarith)
    moreover have "n \<noteq> 0 \<longrightarrow> s' \<le> s \<and> s + n \<le> s' + n'"
      using i [unfolded below] r(1) first by (cases "n = 0") (simp_all, linarith)
    moreover have "N - n' \<le> avail" using r(1) by (auto simp: extra_def min_def)
    moreover have "CalcPixOps d layers s' n' \<le> CalcPixOps d layers st n'"
      if st: "n \<noteq> 0 \<longrightarrow> st \<le> s \<and> s + n \<le> st + n'" "st + n' \<le> N" for st
    proof -
      have ge: "start \<le> st" using st r(1) first by (cases "n = 0") (simp_all, linarith)
      have "st - start < steps" unfolding below
        using st r(1) ge fits sn first by (cases "n = 0") (simp_all, linarith)
      from least [OF this] ge show ?thesis by simp
    qed
    ultimately show ?thesis using r by simp
  qed
  then show ?range ?least by blast+
qed


text \<open>What a range of \<open>n\<close> layers from \<open>s\<close> on should be: it holds every layer only the client can draw, what
  is left fits the planes, and no range of its size that will do is cheaper.\<close>

definition cheapest_range :: "compositor_display \<Rightarrow> hwc_layer list \<Rightarrow> bool \<Rightarrow> nat \<Rightarrow> nat \<Rightarrow> bool" where
  "cheapest_range d layers u s n \<longleftrightarrow>
    (\<forall>z<length layers. IsClientLayer d (layers ! z) \<longrightarrow> s \<le> z \<and> z < s + n) \<and> s + n \<le> length layers \<and>
    length layers - n - (if u then 1 else 0) + (if n = 0 then 0 else 1) \<le> cd_planes d \<and>
    (\<forall>st. (\<forall>z<length layers. IsClientLayer d (layers ! z) \<longrightarrow> st \<le> z \<and> z < st + n) \<longrightarrow>
       st + n \<le> length layers - (if u \<or> hl_sf_type (last layers) = CCursor then 1 else 0) \<longrightarrow>
       CalcPixOps d layers s n \<le> CalcPixOps d layers st n)"

lemma GetClientLayers_cheapest:
  assumes "countable_scene d layers" "0 < cd_planes d" "forced < 2 ^ 31"
    "u \<Longrightarrow> layers \<noteq> [] \<and> \<not> IsClientLayer d (last layers)"
    "GetClientLayers d layers u forced = (s, n)"
  shows "cheapest_range d layers u s n"
proof -
  obtain s0 n0 where b0: "client_bounds d 0 layers 0 0 = (s0, n0)" by fastforce
  obtain avail N where pb: "plane_budget d layers s0 n0 u = (avail, N)" by fastforce
  have ok: "bounds_ok d 0 layers (0, 0) (s0, n0)" using client_bounds_ok [of 0 0 0 d layers] b0 by simp
  then have hull: "\<forall>z<length layers. IsClientLayer d (layers ! z) \<longrightarrow> s0 \<le> z \<and> z < s0 + n0"
    "n0 = 0 \<longrightarrow> s0 = 0" "n0 \<noteq> 0 \<longrightarrow> s0 < length layers \<and> IsClientLayer d (layers ! s0)"
    "n0 \<noteq> 0 \<longrightarrow> (\<exists>z<length layers. IsClientLayer d (layers ! z) \<and> s0 + n0 = Suc z)"
    by (auto simp: bounds_ok_def)
  have in_layers: "s0 + n0 \<le> length layers" using hull by (cases "n0 = 0") auto
  have below: "s0 + n0 < length layers" if u
  proof (cases "n0 = 0")
    case False
    with hull(4) obtain z where z: "z < length layers" "IsClientLayer d (layers ! z)" "s0 + n0 = Suc z" by blast
    with assms(4) [OF that] have "z \<noteq> length layers - 1" by (auto simp: last_conv_nth)
    with z show ?thesis by simp
  qed (use hull assms(4) [OF that] in simp)
  have sc: "length layers < 2 ^ 31" "cd_planes d < 2 ^ 31" using assms(1) by (simp_all add: countable_scene_def)
  note budget = plane_budget_spec [OF pb sc assms(2) _ in_layers]
  have N: "s0 + n0 \<le> N" "N \<le> length layers" "length layers - 1 \<le> N"
    "N = length layers \<or> u \<or> hl_sf_type (last layers) = CCursor"
    using budget below assms(4) by blast+
  have g: "GetExtraClientRange d layers s0 n0 u forced = (s, n)"
    using assms(5) by (simp add: GetClientLayers_def b0)
  note spec = GetExtraClientRange_spec [OF pb assms(1) g N(1,2) hull(2) assms(3)]
  have "length layers - n - (if u then 1 else 0) + (if n = 0 then 0 else 1) \<le> cd_planes d"
    by (rule budget(6)) (use spec(1) below assms(4) in auto)
  moreover have "\<forall>z<length layers. IsClientLayer d (layers ! z) \<longrightarrow> s \<le> z \<and> z < s + n"
    using spec(1) hull(1) by (cases "n0 = 0") fastforce+
  moreover have "CalcPixOps d layers s n \<le> CalcPixOps d layers st n"
    if st: "\<forall>z<length layers. IsClientLayer d (layers ! z) \<longrightarrow> st \<le> z \<and> z < st + n"
      "st + n \<le> length layers - (if u \<or> hl_sf_type (last layers) = CCursor then 1 else 0)" for st
  proof -
    have "n0 \<noteq> 0 \<longrightarrow> st \<le> s0 \<and> s0 + n0 \<le> st + n" using st(1) hull(3,4) by fastforce
    moreover have "st + n \<le> N" using st(2) N by (auto split: if_splits)
    ultimately show ?thesis using spec(2) by blast
  qed
  ultimately show ?thesis using spec(1) N(2) unfolding cheapest_range_def by auto
qed

text \<open>C12: The range of layers handed to the client is the cheapest that will do. It holds every layer
  only the client can draw; what is left, with the client's own target when there is one, fits the
  planes of the display; and of all ranges of its size that hold those layers, leaving a cursor on
  top its plane, none takes fewer pixels to draw.\<close>

theorem client_range_cheapest:
  assumes "countable_scene d layers" "0 < cd_planes d" "forced < 2 ^ 31"
    "u \<Longrightarrow> layers \<noteq> [] \<and> \<not> IsClientLayer d (last layers)"
    "GetClientLayers d layers u forced = (s, n)"
  shows "(\<forall>z<length layers. IsClientLayer d (layers ! z) \<longrightarrow> s \<le> z \<and> z < s + n) \<and> s + n \<le> length layers \<and>
    length layers - n - (if u then 1 else 0) + (if n = 0 then 0 else 1) \<le> cd_planes d \<and>
    (\<forall>st. (\<forall>z<length layers. IsClientLayer d (layers ! z) \<longrightarrow> st \<le> z \<and> z < st + n) \<longrightarrow>
       st + n \<le> length layers - (if u \<or> hl_sf_type (last layers) = CCursor then 1 else 0) \<longrightarrow>
       CalcPixOps d layers s n \<le> CalcPixOps d layers st n)"
  using GetClientLayers_cheapest [OF assms(1-3) _ assms(5)] assms(4) unfolding cheapest_range_def by blast


subsection \<open>The composition handed back\<close>

text \<open>What is true of a composition being weighed: where its range came from, that its types and its
  holes are those of the range, and that a success is the kernel's or needs none.\<close>

definition accepted :: "compositor_display \<Rightarrow> hwc_layer list \<Rightarrow> weighing \<Rightarrow> bool" where
  "accepted d layers w \<longleftrightarrow> we_start w = 0 \<and> we_size w = length layers \<and> co_plan (we_composition w) = None \<or>
     (\<exists>k asked st. k < we_asked w \<and> cd_test d k asked = (st, co_plan (we_composition w)) \<and> cs_success st \<and>
        co_types asked = co_types (we_composition w) \<and> co_punch asked = co_punch (we_composition w))"

definition weighed :: "compositor_display \<Rightarrow> hwc_layer list \<Rightarrow> bool \<Rightarrow> nat \<Rightarrow> bool \<times> weighing \<Rightarrow> bool" where
  "weighed d layers u m r \<longleftrightarrow> (case r of (success, w) \<Rightarrow>
     ((\<exists>f < 2 ^ 31. GetClientLayers d layers u f = (we_start w, we_size w)) \<or>
      we_start w = 0 \<and> we_size w = length layers - 1 \<and> layers \<noteq> [] \<and> hl_sf_type (last layers) = CCursor) \<and>
     co_types (we_composition w) = GetCompositionTypes layers (we_start w) (we_size w) u \<and>
     co_punch (we_composition w) = GetPunchOutLayers layers (we_start w) (we_size w) \<and>
     co_reason (we_composition w) = FrNone \<and> we_asked w \<le> m \<and> (success \<longrightarrow> accepted d layers w))"

lemma weighed_test:
  assumes "(\<exists>f < 2 ^ 31. GetClientLayers d layers u f = (we_start w, we_size w)) \<or>
      we_start w = 0 \<and> we_size w = length layers - 1 \<and> layers \<noteq> [] \<and> hl_sf_type (last layers) = CCursor"
    "co_reason (we_composition w) = FrNone" "we_asked w \<le> m"
  shows "weighed d layers u (Suc m) (validate_and_test d layers u w)"
proof (cases "we_start w \<noteq> 0 \<or> we_size w \<noteq> length layers")
  case True
  let ?c = "(we_composition w)\<lparr>co_types := GetCompositionTypes layers (we_start w) (we_size w) u,
            co_punch := GetPunchOutLayers layers (we_start w) (we_size w)\<rparr>"
  obtain st plan where t: "cd_test d (we_asked w) ?c = (st, plan)" by fastforce
  have v: "validate_and_test d layers u w = (cs_success st, w\<lparr>we_asked := we_asked w + 1, we_status := st,
      we_composition := if cs_success st then ?c\<lparr>co_plan := plan\<rparr> else ?c\<rparr>)"
    using True by (simp add: validate_and_test_def TestComposition_def t Let_def)
  show ?thesis using assms t unfolding v weighed_def accepted_def
    by (auto intro!: exI [of _ "we_asked w"] exI [of _ ?c])
next
  case False
  then show ?thesis using assms
    by (auto simp: validate_and_test_def weighed_def accepted_def Let_def)
qed

lemma weighed_mono: "weighed d layers u m r \<Longrightarrow> m \<le> m' \<Longrightarrow> weighed d layers u m' r"
  by (auto simp: weighed_def)

lemma rung_of_bound: "length layers < 2 ^ 31 - 1 \<Longrightarrow> rung_of d layers n < 2 ^ 31 \<or> length layers < n"
  by (auto simp: rung_of_def Let_def)

lemma weighed_rung:
  assumes "weighed d layers u m r" "length layers < 2 ^ 31 - 1" "we_size (snd r) \<le> length layers"
  shows "weighed d layers u (Suc m) (try_rung d layers u r)"
proof -
  obtain ok w where r: "r = (ok, w)" by fastforce
  obtain s n where g: "GetClientLayers d layers u (rung_of d layers (we_size w)) = (s, n)" by fastforce
  have f: "rung_of d layers (we_size w) < 2 ^ 31" using rung_of_bound [OF assms(2)] assms(3) r
    by (metis linorder_not_less snd_conv)
  have "weighed d layers u (Suc m) (validate_and_test d layers u (w\<lparr>we_start := s, we_size := n\<rparr>))"
    by (rule weighed_test) (use assms(1) r g f in \<open>auto simp: weighed_def\<close>)
  with weighed_mono [OF assms(1)] show ?thesis by (auto simp: try_rung_def r g)
qed

lemma weighed_cursor:
  assumes "weighed d layers u m r"
  shows "weighed d layers u (Suc m) (try_cursor d layers u r)"
proof -
  obtain ok w where r: "r = (ok, w)" by fastforce
  have "weighed d layers u (Suc m) (validate_and_test d layers u (w\<lparr>we_start := 0, we_size := length layers - 1\<rparr>))"
    if "GetCursorLayer layers \<noteq> None" "hl_sf_type (last layers) = CCursor"
  proof -
    have "layers \<noteq> []" using that by (auto simp: GetCursorLayer_def)
    with that show ?thesis by (intro weighed_test) (use assms r in \<open>auto simp: weighed_def\<close>)
  qed
  with weighed_mono [OF assms] show ?thesis by (auto simp: try_cursor_def r)
qed

lemma probe_cursor_wanted: "probe_cursor d layers = (u, asked) \<Longrightarrow> asked \<le> 1 \<and> (u \<longrightarrow> cursor_wanted d layers)"
  by (auto simp: probe_cursor_def split: if_splits)

lemma cursor_wanted_top:
  assumes "cursor_wanted d layers" "distinct (map serial layers)"
  shows "layers \<noteq> [] \<and> \<not> IsClientLayer d (last layers) \<and> hl_sf_type (last layers) = CCursor"
proof -
  from assms(1) obtain l where l: "GetCursorLayer layers = Some l" "layers \<noteq> []"
    "serial (last layers) = serial l" "\<not> IsClientLayer d l"
    by (auto simp: cursor_wanted_def split: option.splits)
  then have "l \<in> set layers" "hl_sf_type l = CCursor" by (auto simp: GetCursorLayer_def find_Some_iff)
  moreover have "last layers = l"
    using assms(2) l \<open>l \<in> set layers\<close> by (auto simp: distinct_map dest!: inj_onD)
  ultimately show ?thesis using l by simp
qed


definition plannable :: "compositor_display \<Rightarrow> bool" where
  "plannable d \<longleftrightarrow> distinct (map serial (cd_layers d)) \<and> countable_scene d (cd_layers d) \<and>
     length (cd_layers d) < 2 ^ 31 - 1 \<and> 0 < cd_planes d"

text \<open>Every range weighed lies among the layers and leaves nothing outside but what the hardware can
  show, a cursor on top apart.\<close>

lemma weighed_range:
  assumes "plannable d" "layers = cd_layers d" "u \<Longrightarrow> cursor_wanted d layers"
    "weighed d layers u m (ok, w)"
  shows "we_start w + we_size w \<le> length layers"
    "\<forall>z<length layers. IsClientLayer d (layers ! z) \<longrightarrow> we_start w \<le> z \<and> z < we_start w + we_size w \<or>
       Suc z = length layers \<and> hl_sf_type (layers ! z) = CCursor"
proof -
  have scene: "distinct (map serial layers)" "countable_scene d layers" "0 < cd_planes d"
    using assms(1,2) by (simp_all add: plannable_def)
  have "cheapest_range d layers u (we_start w) (we_size w) \<or>
      we_start w = 0 \<and> we_size w = length layers - 1 \<and> layers \<noteq> [] \<and> hl_sf_type (last layers) = CCursor"
    using assms(4) GetClientLayers_cheapest [OF scene(2,3), where u = u] cursor_wanted_top [OF assms(3) scene(1)]
    unfolding weighed_def by blast
  then have "we_start w + we_size w \<le> length layers \<and> (\<forall>z<length layers. IsClientLayer d (layers ! z) \<longrightarrow>
      we_start w \<le> z \<and> z < we_start w + we_size w \<or> Suc z = length layers \<and> hl_sf_type (layers ! z) = CCursor)"
  proof
    assume "cheapest_range d layers u (we_start w) (we_size w)"
    then show ?thesis unfolding cheapest_range_def by blast
  next
    assume f: "we_start w = 0 \<and> we_size w = length layers - 1 \<and> layers \<noteq> [] \<and> hl_sf_type (last layers) = CCursor"
    have "z < length layers - 1 \<or> Suc z = length layers \<and> hl_sf_type (layers ! z) = CCursor"
      if "z < length layers" for z
    proof (cases "Suc z = length layers")
      case True
      then have "z = length layers - 1" by simp
      with f True last_conv_nth [of layers] show ?thesis by simp
    qed (use that in simp)
    with f show ?thesis by simp
  qed
  then show "we_start w + we_size w \<le> length layers"
    "\<forall>z<length layers. IsClientLayer d (layers ! z) \<longrightarrow> we_start w \<le> z \<and> z < we_start w + we_size w \<or>
       Suc z = length layers \<and> hl_sf_type (layers ! z) = CCursor"
    by blast+
qed

text \<open>A plan made from scratch is the composition last weighed, or all of it the client's.\<close>

lemma weigh_cases:
  assumes "plannable d" "layers = cd_layers d"
  obtains u ok w where "u \<Longrightarrow> cursor_wanted d layers" "weighed d layers u 4 (ok, w)"
    "co_types (weigh d layers) = co_types (if ok then we_composition w else GetFlattenedComposition layers FrValidateFailed)"
    "co_punch (weigh d layers) = co_punch (if ok then we_composition w else GetFlattenedComposition layers FrValidateFailed)"
    "co_plan (weigh d layers) = co_plan (if ok then we_composition w else GetFlattenedComposition layers FrValidateFailed)"
    "co_reason (weigh d layers) = (if ok then FrNone else FrValidateFailed)"
proof -
  have scene: "distinct (map serial layers)" "countable_scene d layers" "0 < cd_planes d" "length layers < 2 ^ 31 - 1"
    using assms by (simp_all add: plannable_def)
  obtain u asked where p: "probe_cursor d layers = (u, asked)" by fastforce
  note wanted = probe_cursor_wanted [OF p]
  obtain s n where g: "GetClientLayers d layers u 0 = (s, n)" by fastforce
  define w0 where "w0 = \<lparr>we_asked = asked, we_start = s, we_size = n, we_composition = co_init,
            we_status = \<lparr>cs_success = False, cs_error = 0\<rparr>\<rparr>"
  have r1: "weighed d layers u (Suc 1) (validate_and_test d layers u w0)"
    by (rule weighed_test) (use wanted g in \<open>auto simp: w0_def co_init_def intro: exI [of _ "0::nat"]\<close>)
  have size: "we_size (snd (validate_and_test d layers u w0)) \<le> length layers"
  proof -
    obtain ok1 w1 where v: "validate_and_test d layers u w0 = (ok1, w1)" by fastforce
    have "we_start w1 + we_size w1 \<le> length layers"
      by (rule weighed_range(1) [OF assms _ r1 [unfolded v]]) (use wanted in blast)
    then show ?thesis by (simp add: v)
  qed
  obtain ok w where r: "try_cursor d layers u (try_rung d layers u (validate_and_test d layers u w0)) = (ok, w)"
    by fastforce
  have w: "weighed d layers u 4 (ok, w)"
    using weighed_cursor [OF weighed_rung [OF r1 scene(4) size]] by (simp add: r eval_nat_numeral)
  have e: "weigh d layers = (let c = (if ok then we_composition w
                  else (GetFlattenedComposition layers FrValidateFailed)\<lparr>co_error := cs_error (we_status w)\<rparr>)
             in if u then c\<lparr>co_cursor_validated := Some ok\<rparr> else c)"
    unfolding weigh_def p prod.case g Let_def w0_def [symmetric] r by simp
  have "co_reason (we_composition w) = FrNone" using w by (simp add: weighed_def)
  then show ?thesis
    by (intro that [of u ok w]) (use wanted w in \<open>auto simp: e Let_def GetFlattenedComposition_def\<close>)
qed


text \<open>A new composition is one of two: everything the client's, or a range the client draws among layers
  the hardware shows, as the kernel accepted it.\<close>

lemma ValidateDisplay_cases:
  assumes "plannable d" "ValidateDisplay d = (c, False)" "layers = cd_layers d"
  obtains (flat) r where "co_types c = co_types (GetFlattenedComposition layers r)"
      "co_punch c = []" "co_reason c \<noteq> FrNone"
    | (ranged) u w where "u \<Longrightarrow> cursor_wanted d layers" "weighed d layers u 4 (True, w)"
      "co_types c = co_types (we_composition w)" "co_punch c = co_punch (we_composition w)"
      "co_plan c = co_plan (we_composition w)" "co_reason c = FrNone"
proof -
  consider r where "c = GetFlattenedComposition layers r" "r \<noteq> FrNone" | "c = weigh d layers"
    using assms(2,3) by (fastforce simp: ValidateDisplay_def Let_def split: if_splits option.splits)
  then show ?thesis
  proof cases
    case (1 r)
    then show ?thesis by (intro flat [of r]) (simp_all add: GetFlattenedComposition_def co_init_def)
  next
    case 2
    from weigh_cases [OF assms(1,3)] obtain u ok w where w: "u \<Longrightarrow> cursor_wanted d layers"
      "weighed d layers u 4 (ok, w)"
      "co_types c = co_types (if ok then we_composition w else GetFlattenedComposition layers FrValidateFailed)"
      "co_punch c = co_punch (if ok then we_composition w else GetFlattenedComposition layers FrValidateFailed)"
      "co_plan c = co_plan (if ok then we_composition w else GetFlattenedComposition layers FrValidateFailed)"
      "co_reason c = (if ok then FrNone else FrValidateFailed)" unfolding 2 by metis
    show ?thesis
    proof (cases ok)
      case True
      with w show ?thesis by (intro ranged [of u w]) auto
    next
      case False
      with w show ?thesis
        by (intro flat [of FrValidateFailed]) (simp_all add: GetFlattenedComposition_def co_init_def)
    qed
  qed
qed

lemma weighed_types:
  assumes "distinct (map serial layers)" "z < length layers" "weighed d layers u m (ok, w)"
  shows "co_types (we_composition w) (serial (layers ! z)) =
     Some (type_at layers (we_start w) (we_size w) u z)"
  using assms by (simp add: weighed_def GetCompositionTypes_at)

lemma plan_types:
  assumes "plannable d" "ValidateDisplay d = (c, False)" "z < length (cd_layers d)"
  shows "\<exists>t. co_types c (serial (cd_layers d ! z)) = Some t \<and> (t = CClient \<or> t = CDevice \<or> t = CCursor) \<and>
    (t = CCursor \<longrightarrow> hl_sf_type (cd_layers d ! z) = CCursor) \<and>
    (IsClientLayer d (cd_layers d ! z) \<longrightarrow> t = CClient \<or>
       Suc z = length (cd_layers d) \<and> hl_sf_type (cd_layers d ! z) = CCursor)"
  using assms(1,2) refl
proof (cases rule: ValidateDisplay_cases)
  case (flat r)
  then show ?thesis using assms(3) by (simp add: flattened_at)
next
  case (ranged u w)
  have "distinct (map serial (cd_layers d))" using assms(1) by (simp add: plannable_def)
  from weighed_types [OF this assms(3) ranged(2)] weighed_range(2) [OF assms(1) refl ranged(1,2)] assms(3)
  show ?thesis unfolding ranged(3) type_at_def by force
qed



text \<open>C28: A plan that gives the hardware anything is one the kernel has accepted as it stands, with the
  plane assignment the kernel answered, after no more than four questions; a refusal of everything
  ends with the client drawing all of it.\<close>

theorem kernel_accepts_plan:
  assumes "plannable d" "ValidateDisplay d = (c, False)"
  shows "(\<forall>l\<in>set (cd_layers d). co_types c (serial l) = Some CClient) \<or>
    (\<exists>k<4. \<exists>asked st. cd_test d k asked = (st, co_plan c) \<and> cs_success st \<and>
       co_types asked = co_types c \<and> co_punch asked = co_punch c)"
  using assms refl
proof (cases rule: ValidateDisplay_cases)
  case (flat r)
  then show ?thesis by (simp add: flattened_at)
next
  case (ranged u w)
  have dist: "distinct (map serial (cd_layers d))" using assms(1) by (simp add: plannable_def)
  have "accepted d (cd_layers d) w" "we_asked w \<le> 4" using ranged(2) by (simp_all add: weighed_def)
  then consider "we_start w = 0" "we_size w = length (cd_layers d)"
    | k asked st where "k < 4" "cd_test d k asked = (st, co_plan (we_composition w))" "cs_success st"
        "co_types asked = co_types (we_composition w)" "co_punch asked = co_punch (we_composition w)"
    unfolding accepted_def by (meson order_less_le_trans)
  then show ?thesis
  proof cases
    case 1
    then have "co_types c (serial (cd_layers d ! z)) = Some CClient" if "z < length (cd_layers d)" for z
      using weighed_types [OF dist that ranged(2)] that by (simp add: ranged(3) type_at_def)
    then show ?thesis by (metis in_set_conv_nth)
  next
    case (2 k asked st)
    then show ?thesis using ranged(3-5) by auto
  qed
qed


subsection \<open>A frame of three layers\<close>

text \<open>Three layers, one on the other, the middle one with a size of its own and the top one the cursor;
  \<open>turned\<close> gives the cursor an effect. The kernel of the sample display refuses, of the compositions
  that give the hardware anything, those that satisfy the given predicate.\<close>

definition plain_layer :: "nat \<Rightarrow> comp_type \<Rightarrow> irect \<Rightarrow> hwc_layer" where
  "plain_layer k t r = (hl_new k)\<lparr>hl_sf_type := t, hl_z_order := k, hl_has_buffer_set := True,
     hl_data := (hl_data (hl_new k))\<lparr>ld_fb := Some k, ld_pi := pi_init\<lparr>pi_display_frame := Some r\<rparr>\<rparr>\<rparr>"

definition turned :: "hwc_layer \<Rightarrow> hwc_layer" where
  "turned l = l\<lparr>hl_data := (hl_data l)\<lparr>ld_effects := fx_init\<lparr>fx_turned := replicate 10 (Fin 1)\<rparr>\<rparr>\<rparr>"

definition three_layers :: "(hwc_layer \<Rightarrow> hwc_layer) \<Rightarrow> hwc_layer list" where
  "three_layers f = [plain_layer 0 CDevice (mk_rect 0 0 9 9), plain_layer 1 CDevice (mk_rect 0 0 2 3),
     f (plain_layer 2 CCursor (mk_rect 4 4 6 6))]"

definition sample_display :: "(hwc_layer \<Rightarrow> hwc_layer) \<Rightarrow> nat \<Rightarrow> (composition \<Rightarrow> bool) \<Rightarrow> compositor_display" where
  "sample_display f planes refused = \<lparr>cd_layers = three_layers f, cd_size = (9, 9), cd_min_corner = Fin 0,
     cd_ctm_by_gpu = False, cd_color_pipeline = False, cd_forced_scaling = False, cd_invalidators = 1,
     cd_reusable = None, cd_cursor_plane = None, cd_cursor_needs_pipeline = (\<lambda>_. False), cd_planes = planes,
     cd_direct_planes = 0,
     cd_test = (\<lambda>_ c. (if refused c then \<lparr>cs_success = False, cs_error = -22\<rparr>
        else \<lparr>cs_success = True, cs_error = 0\<rparr>, Some 7))\<rparr>"

lemma sample_plannable:
  "plannable (sample_display id 2 (\<lambda>_. False))" "plannable (sample_display turned 4 f)"
  by (simp_all add: plannable_def countable_scene_def sample_display_def three_layers_def plain_layer_def
      turned_def hl_new_def GetPixOps_def rwidth_def rheight_def wrap_size_def UINT32_TOP_def)

lemma plain_layer_fields [simp]:
  "serial (plain_layer k t r) = k" "hl_sf_type (plain_layer k t r) = t" "IsLayerUsableAsDevice (plain_layer k t r)"
  "ld_pi (hl_data (plain_layer k t r)) = pi_init\<lparr>pi_display_frame := Some r\<rparr>"
  "ld_effects (hl_data (plain_layer k t r)) = fx_init" "ld_colorspace (hl_data (plain_layer k t r)) = CsDefault"
  by (simp_all add: plain_layer_def hl_new_def IsLayerUsableAsDevice_def)

lemma turned_fields [simp]:
  "serial (turned l) = serial l" "hl_sf_type (turned l) = hl_sf_type l" "fx_Any m (ld_effects (hl_data (turned l)))"
  "ld_pi (hl_data (turned l)) = ld_pi (hl_data l)" "ld_colorspace (hl_data (turned l)) = ld_colorspace (hl_data l)"
  by (simp_all add: turned_def fx_Any_def HasTurn_def f32_eq_iff eval_nat_numeral)

lemma fx_init_none: "\<not> fx_Any (Fin 0) fx_init"
  by (simp add: fx_Any_def HasCorners_def ReachesPastFrame_def HasTurn_def AllZero_def fx_init_def f32_eq_iff
      eval_nat_numeral)

lemma sample_client:
  "IsClientLayer (sample_display f n r) (plain_layer k t q) \<longleftrightarrow> t \<noteq> CDevice \<and> t \<noteq> CCursor"
  by (auto simp: IsClientLayer_def sample_display_def HardwareSupportsLayerType_def RequireScalingOrPhasing_def
      pi_init_def fx_init_none)

lemma sample_client_turned: "IsClientLayer (sample_display f n r) (turned l)"
  by (simp add: IsClientLayer_def)

lemmas planning = GetClientLayers_def GetExtraClientRange_def plane_budget_def CalcPixOps_def GetPixOps_def
  rwidth_def rheight_def wrap_size_def usub_def UINT32_TOP_def three_layers_def

lemma sample_display_fields [simp]:
  "cd_layers (sample_display f n r) = three_layers f" "cd_planes (sample_display f n r) = n"
  "cd_direct_planes (sample_display f n r) = 0" "cd_size (sample_display f n r) = (9, 9)"
  "cd_cursor_plane (sample_display f n r) = None" "\<not> cd_ctm_by_gpu (sample_display f n r)"
  "cd_test (sample_display f n r) k c = ((if r c then \<lparr>cs_success = False, cs_error = -22\<rparr>
     else \<lparr>cs_success = True, cs_error = 0\<rparr>), Some 7)"
  "reuse (sample_display f n r) = None"
  by (simp_all add: sample_display_def reuse_def)

lemma sample_range:
  "GetClientLayers (sample_display id 2 r) (three_layers id) False 0 = (0, 2)"
  "GetClientLayers (sample_display turned 4 r) (three_layers turned) False 0 = (2, 1)"
  "GetClientLayers (sample_display turned 4 r) (three_layers turned) False 1 = (1, 2)"
  by (simp_all add: planning sample_client sample_client_turned Let_def pi_init_def)

lemma sample_weighed:
  "fst (ValidateDisplay (sample_display id n r)) = weigh (sample_display id n r) (three_layers id)"
  "snd (ValidateDisplay (sample_display id n r)) = False"
  "fst (ValidateDisplay (sample_display turned n r)) = weigh (sample_display turned n r) (three_layers turned)"
  "snd (ValidateDisplay (sample_display turned n r)) = False"
  by (simp_all add: ValidateDisplay_def Let_def LayersUseDifferentColorspaces_def three_layers_def)

lemma length_three [simp]: "length (three_layers f) = 3"
  by (simp add: three_layers_def)

lemma sample_probe [simp]: "probe_cursor (sample_display f n r) layers = (False, 0)"
  by (simp add: probe_cursor_def cursor_wanted_def split: option.split)

lemma sample_plan:
  "weigh (sample_display id 2 (\<lambda>_. False)) (three_layers id) = co_init\<lparr>
     co_types := GetCompositionTypes (three_layers id) 0 2 False, co_plan := Some 7\<rparr>"
  by (simp add: weigh_def sample_range validate_and_test_def TestComposition_def try_rung_def
      try_cursor_def Let_def GetPunchOutLayers_def co_init_def)

definition picky :: compositor_display where
  "picky = sample_display turned 4 (\<lambda>c. co_types c 2 = Some CClient)"

lemma picky_test:
  assumes "s \<noteq> 0 \<or> n \<noteq> 3"
  shows "validate_and_test picky (three_layers turned) False
      \<lparr>we_asked = a, we_start = s, we_size = n, we_composition = c, we_status = st\<rparr> =
    (let c' = c\<lparr>co_types := GetCompositionTypes (three_layers turned) s n False,
           co_punch := GetPunchOutLayers (three_layers turned) s n\<rparr>
     in if s \<le> 2 \<and> 2 < s + n
        then (False, \<lparr>we_asked = a + 1, we_start = s, we_size = n, we_composition = c',
           we_status = \<lparr>cs_success = False, cs_error = -22\<rparr>\<rparr>)
        else (True, \<lparr>we_asked = a + 1, we_start = s, we_size = n, we_composition = c'\<lparr>co_plan := Some 7\<rparr>,
           we_status = \<lparr>cs_success = True, cs_error = 0\<rparr>\<rparr>))"
proof -
  have "GetCompositionTypes (three_layers turned) s n False 2 = Some (type_at (three_layers turned) s n False 2)"
    using GetCompositionTypes_at [of "three_layers turned" 2] by (simp add: three_layers_def)
  with assms show ?thesis
    by (simp add: picky_def validate_and_test_def TestComposition_def Let_def type_at_def)
qed

lemma turned_plan:
  "weigh picky (three_layers turned) = co_init\<lparr>
     co_types := GetCompositionTypes (three_layers turned) 0 2 False, co_plan := Some 7\<rparr>"
proof -
  have cur: "\<exists>l. GetCursorLayer (three_layers turned) = Some l" "hl_sf_type (last (three_layers turned)) = CCursor"
    by (simp_all add: GetCursorLayer_def three_layers_def)
  have rung: "rung_of picky (three_layers turned) 1 = 1" by (simp add: rung_of_def picky_def)
  note range = sample_range(2,3) [of "\<lambda>c. co_types c 2 = Some CClient", folded picky_def]
  have "probe_cursor picky (three_layers turned) = (False, 0)" by (simp add: picky_def)
  with cur show ?thesis
    by (auto simp: weigh_def range picky_test try_rung_def try_cursor_def Let_def rung
      GetPunchOutLayers_def co_init_def simp del: One_nat_def)
qed


text \<open>The sample display that refuses nothing.\<close>

definition obliging :: compositor_display where
  "obliging = sample_display turned 4 (\<lambda>_. False)"

lemma obliging_plan:
  "weigh obliging (three_layers turned) = co_init\<lparr>co_types := GetCompositionTypes (three_layers turned) 2 1 False,
     co_punch := [0, 1], co_plan := Some 7\<rparr>"
proof -
  have "map serial (take 2 (three_layers turned)) = [0, 1]" by (simp add: three_layers_def)
  moreover have "probe_cursor obliging (three_layers turned) = (False, 0)" by (simp add: obliging_def)
  ultimately show ?thesis
    by (simp add: weigh_def obliging_def sample_range validate_and_test_def TestComposition_def try_rung_def
      try_cursor_def Let_def GetPunchOutLayers_def co_init_def)
qed

lemma sample_validations:
  "ValidateDisplay obliging = (weigh obliging (three_layers turned), False)"
  "ValidateDisplay picky = (weigh picky (three_layers turned), False)"
  using sample_weighed(3,4) unfolding obliging_def picky_def by (metis prod.collapse)+

lemma sample_displays:
  "plannable obliging" "plannable picky" "cd_layers obliging = three_layers turned" "cd_layers picky = three_layers turned"
  by (simp_all add: obliging_def picky_def sample_plannable)

lemma turned_types:
  "z < 3 \<Longrightarrow> GetCompositionTypes (three_layers turned) s n u (serial (three_layers turned ! z)) =
     Some (type_at (three_layers turned) s n u z)"
  by (rule GetCompositionTypes_at) (simp_all add: three_layers_def)

lemma client_range_cheapest_witness:
  "0 + 2 \<le> length (three_layers id) \<and> length (three_layers id) - 2 - 0 + 1 \<le> cd_planes (sample_display id 2 (\<lambda>_. False))"
  using client_range_cheapest [OF _ _ _ _ sample_range(1), of "\<lambda>_. False"] sample_plannable(1)
  by (simp add: plannable_def)



lemma kernel_accepts_plan_witness:
  "\<exists>k<4. \<exists>asked st. cd_test picky k asked = (st, Some 7) \<and> cs_success st"
proof -
  have "co_types (weigh picky (three_layers turned)) (serial (three_layers turned ! 2)) \<noteq> Some CClient"
    using turned_types [of 2 0 2 False] by (simp add: turned_plan type_at_def)
  moreover have "three_layers turned ! 2 \<in> set (three_layers turned)" by (rule nth_mem) simp
  moreover have "co_plan (weigh picky (three_layers turned)) = Some 7" by (simp add: turned_plan)
  ultimately show ?thesis
    using kernel_accepts_plan [OF sample_displays(2) sample_validations(2)] unfolding sample_displays(4) by metis
qed

text \<open>The last resort but one forgets why a cursor was the client's: when the kernel refuses every
  plan that leaves the cursor to the client, a cursor with an effect is handed to the hardware, which
  shows it without.\<close>

theorem cursor_fallback_drops_effect:
  "plannable picky \<and> IsClientLayer picky (cd_layers picky ! 2) \<and>
   fx_Any (cd_min_corner picky) (ld_effects (hl_data (cd_layers picky ! 2))) \<and>
   co_types (fst (ValidateDisplay picky)) (serial (cd_layers picky ! 2)) = Some CDevice"
proof -
  have "cd_layers picky ! 2 = turned (plain_layer 2 CCursor (mk_rect 4 4 6 6))"
    by (simp add: sample_displays three_layers_def)
  moreover have "co_types (fst (ValidateDisplay picky)) (serial (cd_layers picky ! 2)) = Some CDevice"
    using turned_types [of 2 0 2 False]
    by (simp add: sample_validations(2) sample_displays(4) turned_plan type_at_def)
  ultimately show ?thesis using sample_displays(2) by (simp add: picky_def sample_client_turned)
qed

end
