(* ===== verification/FrameCycle.thy ===== *)
theory FrameCycle
  imports Planner OrderedMap
begin

text \<open>
  hwc/HwcDisplay: a frame from what the framework sets to what is committed, as far as it decides
  whether the last plan may be handed back. The layers are the code's map from identifiers; the
  planner, the kernel and the GPU executor answer from outside, and what they answer in one
  validation is a record. The flattening controller, the statistics and the fences are left out.
\<close>

subsection \<open>The display\<close>

definition kLayerAdded :: "32 word" where "kLayerAdded = push_bit 9 1"
definition kLayerRemoved :: "32 word" where "kLayerRemoved = push_bit 10 1"
definition kColorTransform :: "32 word" where "kColorTransform = push_bit 11 1"
definition kColorMode :: "32 word" where "kColorMode = push_bit 12 1"
definition kDisplayConfig :: "32 word" where "kDisplayConfig = push_bit 13 1"
definition kPowerMode :: "32 word" where "kPowerMode = push_bit 14 1"
definition kAllDirty :: "32 word" where "kAllDirty = push_bit 15 1"
definition kLayerActivity :: "32 word" where "kLayerActivity = push_bit 16 1"

lemmas display_bits = kLayerAdded_def kLayerRemoved_def kColorTransform_def kColorMode_def
  kDisplayConfig_def kPowerMode_def kAllDirty_def kLayerActivity_def

text \<open>What of the platform stays the same.\<close>

record platform =
  pf_size :: "nat \<times> nat"
  pf_min_corner :: f32
  pf_color_pipeline :: bool
  pf_forced_scaling :: bool
  pf_occlusion :: bool

text \<open>What the rest of the composer and the kernel answer in one validation. \<open>an_seat\<close> is what
  SeatGpuBuffer hands the client's layer, none without an executor or a buffer it knows.\<close>

record answers =
  an_now :: int
  an_profile_changed :: bool
  an_gpu :: bool
  an_seat :: "layer_properties option"
  an_readable :: "nat \<Rightarrow> bool"
  an_cursor_plane :: "(layer_data \<Rightarrow> bool) option"
  an_cursor_needs_pipeline :: "hwc_layer \<Rightarrow> bool"
  an_planes :: nat
  an_direct_planes :: nat
  an_test :: "nat \<Rightarrow> composition \<Rightarrow> commit_status \<times> nat option"

record frame_display =
  fd_layers :: "(nat, hwc_layer) omap"
  fd_client :: hwc_layer
  fd_bits :: "32 word"
  fd_reusable :: "composition option"
  fd_validated :: "composition option"
  fd_short :: bool
  fd_ctm_by_gpu :: bool
  fd_headless :: bool
  fd_next_serial :: nat

definition fd_new :: frame_display where
  "fd_new = \<lparr>fd_layers = [], fd_client = hl_new 1, fd_bits = -1, fd_reusable = None, fd_validated = None,
     fd_short = False, fd_ctm_by_gpu = False, fd_headless = False, fd_next_serial = 2\<rparr>"

abbreviation layers_of :: "frame_display \<Rightarrow> hwc_layer list" where
  "layers_of s \<equiv> map snd (fd_layers s)"

definition each_layer :: "(hwc_layer \<Rightarrow> hwc_layer) \<Rightarrow> frame_display \<Rightarrow> frame_display" where
  "each_layer f s = s\<lparr>fd_layers := map (\<lambda>(i, l). (i, f l)) (fd_layers s)\<rparr>"

definition MarkPlanInvalid :: "32 word \<Rightarrow> frame_display \<Rightarrow> frame_display" where
  "MarkPlanInvalid b s = s\<lparr>fd_bits := fd_bits s OR b\<rparr>"

definition CreateLayer :: "nat \<Rightarrow> frame_display \<Rightarrow> bool \<times> frame_display" where
  "CreateLayer i s =
     (if om_get (fd_layers s) i \<noteq> None then (False, s)
      else (True, MarkPlanInvalid kLayerAdded (s\<lparr>fd_layers := om_put i (hl_new (fd_next_serial s)) (fd_layers s),
              fd_next_serial := fd_next_serial s + 1\<rparr>)))"

definition DestroyLayer :: "nat \<Rightarrow> frame_display \<Rightarrow> bool \<times> frame_display" where
  "DestroyLayer i s =
     (if om_get (fd_layers s) i = None then (False, s)
      else (True, (MarkPlanInvalid kLayerRemoved (s\<lparr>fd_layers := om_del i (fd_layers s)\<rparr>))\<lparr>fd_reusable := None\<rparr>))"

text \<open>HwcDisplay::TakePlanInvalidators: the display's bits, the client's layer and every layer.\<close>

definition take_bits :: "nat \<times> nat \<Rightarrow> int \<Rightarrow> hwc_layer \<Rightarrow> 32 word \<times> hwc_layer" where
  "take_bits sz now l = (case TakePlanInvalidators l of (b, l1) \<Rightarrow>
     case RefreshLiveness sz now l1 of (crossed, l2) \<Rightarrow> (b OR (if crossed then kLayerActivity else 0), l2))"

definition fd_TakePlanInvalidators :: "platform \<Rightarrow> int \<Rightarrow> frame_display \<Rightarrow> 32 word \<times> frame_display" where
  "fd_TakePlanInvalidators pf now s =
     (fold (\<lambda>l b. b OR fst (take_bits (pf_size pf) now l)) (layers_of s)
        (fd_bits s OR fst (take_bits (pf_size pf) now (fd_client s))),
      each_layer (\<lambda>l. snd (take_bits (pf_size pf) now l))
        (s\<lparr>fd_bits := 0, fd_client := snd (take_bits (pf_size pf) now (fd_client s))\<rparr>))"

text \<open>Where a layer stands for the planner: a cursor above everything, the rest by depth. The order is
  that of the comparison the code sorts with.\<close>

datatype standing = Standing (st_cursor: bool) (st_depth: nat)

instantiation standing :: linorder
begin

definition less_standing :: "standing \<Rightarrow> standing \<Rightarrow> bool" where
  "less_standing a b \<longleftrightarrow> (if st_cursor a \<noteq> st_cursor b then st_cursor b else st_depth a < st_depth b)"

definition less_eq_standing :: "standing \<Rightarrow> standing \<Rightarrow> bool" where
  "less_eq_standing a b \<longleftrightarrow> (if st_cursor a \<noteq> st_cursor b then st_cursor b else st_depth a \<le> st_depth b)"

instance
  by standard (auto simp: less_standing_def less_eq_standing_def standing.expand split: if_splits)

end

text \<open>Layers that stand alike keep the map's order, one of those \<open>std::sort\<close> may choose.\<close>

definition standing_of :: "hwc_layer \<Rightarrow> standing" where
  "standing_of l = Standing (hl_sf_type l = CCursor) (hl_z_order l)"

definition GetOrderLayersByZPos :: "frame_display \<Rightarrow> hwc_layer list" where
  "GetOrderLayersByZPos s = sort_key standing_of (filter (\<lambda>l. \<not> hl_hidden l) (layers_of s))"

text \<open>What the occlusion leaves of every layer, by identifier.\<close>

definition shown_of :: "platform \<Rightarrow> frame_display \<Rightarrow> (nat \<times> shown) list" where
  "shown_of pf s =
     (let order = sort_key (\<lambda>e. hl_z_order (snd e)) (fd_layers s);
          screen = mk_rect 0 0 (int (fst (pf_size pf))) (int (snd (pf_size pf)));
          input = map (\<lambda>e. OcclusionInput (pf_min_corner pf) screen (snd e)) order;
          shown = (if pf_occlusion pf then Resolve input
                   else map (\<lambda>i. \<lparr>sh_hidden = False, sh_bounds = ol_frame i\<rparr>) input)
      in zip (map fst order) shown)"

definition fd_ResolveOcclusion :: "platform \<Rightarrow> frame_display \<Rightarrow> frame_display" where
  "fd_ResolveOcclusion pf s = s\<lparr>fd_layers :=
     map (\<lambda>(i, l). (i, case map_of (shown_of pf s) i of None \<Rightarrow> l | Some sh \<Rightarrow> ApplyOcclusion sh l)) (fd_layers s)\<rparr>"

definition SeatGpuBuffer :: "int \<Rightarrow> layer_properties option \<Rightarrow> frame_display \<Rightarrow> frame_display" where
  "SeatGpuBuffer now seat s = (case seat of None \<Rightarrow> s
     | Some p \<Rightarrow> s\<lparr>fd_client := SetLayerProperties now p (fd_client s)\<rparr>)"

definition GpuCanDrawClient :: "(nat \<Rightarrow> bool) \<Rightarrow> hwc_layer list \<Rightarrow> composition \<Rightarrow> bool" where
  "GpuCanDrawClient readable layers c \<longleftrightarrow>
     co_reason c \<noteq> FrCtmWithOffset \<and> co_reason c \<noteq> FrNoPerPlaneColorspaceSupport \<and>
     (let mine = filter (\<lambda>l. co_types c (serial l) = Some CClient) layers
      in mine \<noteq> [] \<and> list_all (\<lambda>l. case ld_bi (hl_data l) of
           None \<Rightarrow> ld_solid_color (hl_data l) \<noteq> None | Some bi \<Rightarrow> readable (bf_handle bi)) mine)"

subsection \<open>Validate, accept, present\<close>

definition display_for :: "platform \<Rightarrow> answers \<Rightarrow> 32 word \<Rightarrow> frame_display \<Rightarrow> compositor_display" where
  "display_for pf an bits s = \<lparr>cd_layers = GetOrderLayersByZPos s, cd_size = pf_size pf,
     cd_min_corner = pf_min_corner pf, cd_ctm_by_gpu = fd_ctm_by_gpu s, cd_color_pipeline = pf_color_pipeline pf,
     cd_forced_scaling = pf_forced_scaling pf, cd_invalidators = bits, cd_reusable = fd_reusable s,
     cd_cursor_plane = an_cursor_plane an, cd_cursor_needs_pipeline = an_cursor_needs_pipeline an,
     cd_planes = an_planes an, cd_direct_planes = an_direct_planes an, cd_test = an_test an\<rparr>"

text \<open>The planner asks for the bits only once the scene is not to be flattened outright.\<close>

definition asks_bits :: "platform \<Rightarrow> frame_display \<Rightarrow> bool" where
  "asks_bits pf s \<longleftrightarrow> \<not> fd_ctm_by_gpu s \<and>
     \<not> (LayersUseDifferentColorspaces (GetOrderLayersByZPos s) \<and> \<not> pf_color_pipeline pf)"

definition plan_frame :: "platform \<Rightarrow> answers \<Rightarrow> frame_display \<Rightarrow> (composition \<times> bool) \<times> frame_display" where
  "plan_frame pf an s =
     (case (if asks_bits pf s then fd_TakePlanInvalidators pf (an_now an) s else (0, s)) of (bits, s1) \<Rightarrow>
        (ValidateDisplay (display_for pf an bits s1), s1))"

definition with_hidden :: "hwc_layer list \<Rightarrow> composition \<Rightarrow> composition" where
  "with_hidden layers c = c\<lparr>co_types :=
     fold (\<lambda>l m. if hl_hidden l then m(serial l \<mapsto> CDeviceOccluded) else m) layers (co_types c)\<rparr>"

definition device_or_colour :: "hwc_layer \<Rightarrow> comp_type" where
  "device_or_colour l = (if hl_sf_type l = CSolidColor then CSolidColor else CDevice)"

definition told_type :: "composition \<Rightarrow> hwc_layer \<Rightarrow> comp_type \<Rightarrow> comp_type" where
  "told_type c l t =
     (let t1 = (if co_gpu_draws_client c \<and> t = CClient then device_or_colour l else t)
      in if t1 = CDeviceOccluded then device_or_colour l else t1)"

definition tell_type :: "composition \<Rightarrow> hwc_layer \<Rightarrow> hwc_layer" where
  "tell_type c l = (case co_types c (serial l) of None \<Rightarrow> l | Some t \<Rightarrow> SetValidatedType (told_type c l t) l)"

definition before_plan :: "platform \<Rightarrow> answers \<Rightarrow> frame_display \<Rightarrow> frame_display" where
  "before_plan pf an s =
     (let s1 = (if an_profile_changed an then MarkPlanInvalid kColorTransform s else s);
          s2 = fd_ResolveOcclusion pf s1
      in if an_gpu an \<and> \<not> IsLayerUsableAsDevice (fd_client s2)
         then SeatGpuBuffer (an_now an) (an_seat an) s2 else s2)"

definition ValidateStagedComposition ::
  "platform \<Rightarrow> answers \<Rightarrow> frame_display \<Rightarrow> frame_display \<times> (nat \<times> comp_type) list \<times> nat list" where
  "ValidateStagedComposition pf an s0 =
     (let s = s0\<lparr>fd_validated := None\<rparr> in
      if fd_headless s \<or> fd_layers s = [] then (s, [], [])
      else case plan_frame pf an (before_plan pf an s) of ((c, reused), s4) \<Rightarrow>
             let c1 = with_hidden (layers_of s4) c;
                 c2 = (if an_gpu an \<and> GpuCanDrawClient (an_readable an) (layers_of s4) c1
                       then c1\<lparr>co_gpu_draws_client := True\<rparr> else c1);
                 s5 = each_layer (tell_type c2) (s4\<lparr>fd_validated := Some c2, fd_short := reused\<rparr>)
             in (s5, map (\<lambda>(i, l). (i, hl_validated_type l)) (filter (\<lambda>(i, l). IsTypeChanged l) (fd_layers s5)),
                 concat (map (\<lambda>k. map fst (take 1 (filter (\<lambda>(i, l). serial l = k) (fd_layers s5)))) (co_punch c2))))"

definition AcceptValidatedComposition :: "frame_display \<Rightarrow> frame_display" where
  "AcceptValidatedComposition s = each_layer AcceptTypeChange s"

definition ValidateForPresentWithoutValidation :: "platform \<Rightarrow> answers \<Rightarrow> frame_display \<Rightarrow> bool \<times> frame_display" where
  "ValidateForPresentWithoutValidation pf an s =
     (let changes = LivenessWouldChange (pf_size pf) (an_now an) in
      if fd_validated s \<noteq> None \<or> fd_headless s \<or> fd_layers s = [] \<or>
         (case fd_reusable s of None \<Rightarrow> True | Some c \<Rightarrow> co_reason c \<noteq> FrNone) then (False, s)
      else if fd_bits s \<noteq> 0 \<or> hl_invalidators (fd_client s) \<noteq> 0 \<or> changes (fd_client s) \<or>
         list_ex (\<lambda>l. hl_invalidators l \<noteq> 0 \<or> changes l) (layers_of s) then (False, s)
      else case ValidateStagedComposition pf an s of (s1, changed, _) \<Rightarrow>
        if \<not> fd_short s1 \<or> changed \<noteq> []
        then (False, MarkPlanInvalid kAllDirty (s1\<lparr>fd_validated := None\<rparr>))
        else (True, AcceptValidatedComposition s1))"

text \<open>How far a commit got: the frame's arguments could not be made, the kernel refused them, or it is
  on its way to the panel. The second argument is what DrawClientOnGpu seats.\<close>

datatype commit_outcome = NoArgs | Refused | Shown

definition CommitStagedComposition ::
  "commit_outcome \<Rightarrow> int \<Rightarrow> layer_properties option \<Rightarrow> frame_display \<Rightarrow> bool \<times> frame_display" where
  "CommitStagedComposition outcome now seat s =
     (if fd_headless s then (False, s)
      else case fd_validated s of None \<Rightarrow> (False, s)
      | Some c \<Rightarrow>
        let s1 = (if co_gpu_draws_client c then SeatGpuBuffer now seat s else s);
            s2 = (if outcome \<noteq> NoArgs \<and> \<not> fd_short s1 then s1\<lparr>fd_reusable := Some (c\<lparr>co_plan := None\<rparr>)\<rparr> else s1);
            s3 = s2\<lparr>fd_validated := None\<rparr>
        in if outcome = Shown then (True, s3)
           else (False, MarkPlanInvalid kAllDirty (s3\<lparr>fd_reusable := None\<rparr>)))"

text \<open>A frame presented without a validation shows each layer as it was last told.\<close>

definition unvalidated :: "frame_display \<Rightarrow> composition" where
  "unvalidated s = co_init\<lparr>co_types := fold (\<lambda>l m. if m (serial l) = None
     then m(serial l \<mapsto> if hl_hidden l then CDeviceOccluded else hl_validated_type l) else m) (layers_of s) (\<lambda>_. None)\<rparr>"

definition PresentStagedComposition ::
  "commit_outcome \<Rightarrow> int \<Rightarrow> layer_properties option \<Rightarrow> frame_display \<Rightarrow> bool \<times> frame_display" where
  "PresentStagedComposition outcome now seat s =
     (if fd_headless s \<or> fd_layers s = [] then (True, s)
      else let s1 = (if fd_validated s = None then s\<lparr>fd_validated := Some (unvalidated s)\<rparr> else s)
           in case CommitStagedComposition outcome now seat s1 of (ok, s2) \<Rightarrow>
             if ok then (True, each_layer (\<lambda>l. if hl_prior_scanout l then ClearPriorBufferScanOutFlag l else l) s2)
             else (False, s2))"

datatype present_result = PrNone | PrBadDisplay | PrNotValidated

definition PresentDisplay ::
  "platform \<Rightarrow> answers \<Rightarrow> commit_outcome \<Rightarrow> layer_properties option \<Rightarrow> frame_display \<Rightarrow> present_result \<times> frame_display" where
  "PresentDisplay pf an outcome seat s =
     (case (if fd_validated s = None then ValidateForPresentWithoutValidation pf an s else (True, s)) of (ok, s1) \<Rightarrow>
      if \<not> ok then (PrNotValidated, s1)
      else case PresentStagedComposition outcome (an_now an) seat s1 of (ok2, s2) \<Rightarrow>
        (if ok2 then PrNone else PrBadDisplay, s2))"

subsection \<open>What else marks the plan\<close>

text \<open>SetColorTransformMatrix, with what CtmByGpu answers of the new matrix.\<close>

definition SetColorTransformMatrix :: "bool \<Rightarrow> frame_display \<Rightarrow> frame_display" where
  "SetColorTransformMatrix by_gpu s =
     (if fd_headless s then s else (MarkPlanInvalid kColorTransform s)\<lparr>fd_ctm_by_gpu := by_gpu\<rparr>)"

text \<open>The part of SetPowerMode, SetConfig and QueueConfig, and SetColorMode that concerns the plan.\<close>

definition fd_SetPowerMode :: "frame_display \<Rightarrow> frame_display" where
  "fd_SetPowerMode s = MarkPlanInvalid kPowerMode s"

definition fd_SetConfig :: "frame_display \<Rightarrow> frame_display" where
  "fd_SetConfig s = MarkPlanInvalid kDisplayConfig s"

definition fd_SetColorMode :: "frame_display \<Rightarrow> frame_display" where
  "fd_SetColorMode s = MarkPlanInvalid kColorMode s"

text \<open>Deinit, of a display that has a pipeline.\<close>

definition fd_Deinit :: "frame_display \<Rightarrow> frame_display" where
  "fd_Deinit s = (if fd_headless s then s
     else MarkPlanInvalid kAllDirty (s\<lparr>fd_validated := None, fd_reusable := None\<rparr>))"

definition SetPipeline :: "bool \<Rightarrow> frame_display \<Rightarrow> frame_display" where
  "SetPipeline headless s = (fd_Deinit s)\<lparr>fd_headless := headless\<rparr>"


subsection \<open>What a plan depends on, layer by layer\<close>

text \<open>A layer only the client can draw, the display's colour transform apart.\<close>

definition only_client :: "f32 \<Rightarrow> hwc_layer \<Rightarrow> bool" where
  "only_client mcr l \<longleftrightarrow> fx_Any mcr (ld_effects (hl_data l)) \<or> \<not> HardwareSupportsLayerType (hl_sf_type l) \<or>
     \<not> IsLayerUsableAsDevice l"

definition facts :: "f32 \<Rightarrow> hwc_layer \<Rightarrow> comp_type \<times> bool \<times> bool \<times> bool" where
  "facts mcr l = (hl_sf_type l, IsLayerUsableAsDevice l, fx_Any mcr (ld_effects (hl_data l)), hl_hidden l)"

definition layer_wf :: "hwc_layer \<Rightarrow> bool" where
  "layer_wf l \<longleftrightarrow> hl_has_buffer_set l = (ld_bi (hl_data l) \<noteq> None)"

definition keeps :: "(hwc_layer \<Rightarrow> hwc_layer) \<Rightarrow> bool" where
  "keeps f \<longleftrightarrow> (\<forall>l. serial (f l) = serial l \<and> hl_validated_type (f l) = hl_validated_type l \<and>
     hl_hidden (f l) = hl_hidden l \<and> (layer_wf l \<longrightarrow> layer_wf (f l)))"

lemma keeps_comp: "keeps f \<Longrightarrow> keeps g \<Longrightarrow> keeps (f \<circ> g)"
  by (simp add: keeps_def)

lemma keeps_opt_set: "(\<And>v. keeps (f v)) \<Longrightarrow> keeps (opt_set p f)"
  by (cases p) (simp_all add: keeps_def opt_set_def)

lemma keeps_setters:
  "keeps (\<lambda>l. (raise_if (hl_blend_mode l \<noteq> v1) kBlendMode l)\<lparr>hl_blend_mode := v1\<rparr>)"
  "keeps (\<lambda>l. (raise_if (hl_colorspace l \<noteq> v2) kDataspace l)\<lparr>hl_colorspace := v2\<rparr>)"
  "keeps (\<lambda>l. (raise_if (hl_color_encoding l \<noteq> v3) kDataspace l)\<lparr>hl_color_encoding := v3\<rparr>)"
  "keeps (\<lambda>l. (raise_if (hl_sample_range l \<noteq> v4) kDataspace l)\<lparr>hl_sample_range := v4\<rparr>)"
  "keeps (\<lambda>l. (raise_if (hl_transfer_func l \<noteq> v5) kDataspace l)\<lparr>hl_transfer_func := v5\<rparr>)"
  "keeps (\<lambda>l. (raise_if (hl_sf_type l \<noteq> v6) kCompositionType l)\<lparr>hl_sf_type := v6\<rparr>)"
  "keeps (\<lambda>l. (raise_if (hl_z_order l \<noteq> v7) kZOrder l)\<lparr>hl_z_order := v7\<rparr>)"
  "keeps (\<lambda>l. l\<lparr>hl_brightness := v8\<rparr>)" "keeps (set_pi f)"
  "keeps (set_frame now vf)" "keeps (set_alpha now va)" "keeps (set_crop now vc)" "keeps (set_transform now vt)"
  by (simp_all add: keeps_def layer_wf_def set_pi_def set_frame_def set_alpha_def set_crop_def
      set_transform_def Let_def)

lemma keeps_set_buffer: "keeps (set_buffer now b)"
  by (simp add: keeps_def layer_wf_def set_buffer_def Let_def)

lemma keeps_populate: "keeps (\<lambda>l. if hl_has_buffer_set l then PopulateLayerData l else l)"
  by (simp add: keeps_def layer_wf_def PopulateLayerData_def Let_def split: option.split)

lemma keeps_SetLayerProperties: "keeps (SetLayerProperties now p)"
  unfolding SetLayerProperties_chain
  by (intro keeps_comp keeps_opt_set keeps_set_buffer keeps_setters keeps_populate)

text \<open>A step of a layer that leaves what a plan depends on alone unless it raises a bit.\<close>

definition steady :: "f32 \<Rightarrow> (hwc_layer \<Rightarrow> hwc_layer) \<Rightarrow> bool" where
  "steady mcr f \<longleftrightarrow> (\<forall>l. serial (f l) = serial l \<and> hl_validated_type (f l) = hl_validated_type l \<and>
     (layer_wf l \<longrightarrow> layer_wf (f l)) \<and>
     (hl_invalidators (f l) = 0 \<longrightarrow> hl_invalidators l = 0 \<and> (layer_wf l \<longrightarrow> facts mcr (f l) = facts mcr l)))"

lemma view_fields:
  "pv_shape (view_of mcr l) = None \<longleftrightarrow> ld_bi (hl_data l) = None" "pv_usable (view_of mcr l) = (ld_fb (hl_data l) \<noteq> None)"
  "pv_type (view_of mcr l) = hl_sf_type l" "pv_effects (view_of mcr l) = fx_Any mcr (ld_effects (hl_data l))"
  by (simp_all add: view_of_def)

lemma steady_honest:
  assumes "honest_step mcr f" "keeps f"
  shows "steady mcr f"
proof -
  have "facts mcr (f l) = facts mcr l" if "layer_wf l" "hl_invalidators (f l) = 0" for l
  proof -
    have v: "view_of mcr (f l) = view_of mcr l" and w: "layer_wf (f l)" and h: "hl_hidden (f l) = hl_hidden l"
      using assms that by (simp_all add: honest_step_def keeps_def)
    have "pv_shape (view_of mcr (f l)) = pv_shape (view_of mcr l)" "pv_usable (view_of mcr (f l)) = pv_usable (view_of mcr l)"
      "pv_type (view_of mcr (f l)) = pv_type (view_of mcr l)" "pv_effects (view_of mcr (f l)) = pv_effects (view_of mcr l)"
      by (simp_all only: v)
    then have bi: "(ld_bi (hl_data (f l)) = None) = (ld_bi (hl_data l) = None)"
      and fb: "(ld_fb (hl_data (f l)) = None) = (ld_fb (hl_data l) = None)"
      and rest: "hl_sf_type (f l) = hl_sf_type l"
        "fx_Any mcr (ld_effects (hl_data (f l))) = fx_Any mcr (ld_effects (hl_data l))"
      using view_fields by metis+
    from bi fb w that(1) have "IsLayerUsableAsDevice (f l) = IsLayerUsableAsDevice l"
      unfolding IsLayerUsableAsDevice_def layer_wf_def by simp
    with rest h show ?thesis by (simp add: facts_def)
  qed
  with assms show ?thesis by (simp add: steady_def honest_step_def keeps_def)
qed

text \<open>What the framework may do to a layer; no frame here has a cursor.\<close>

fun framework :: "layer_update \<Rightarrow> bool" where
  "framework (UpProperties now p) = (lp_composition_type p \<noteq> Some CCursor)"
| "framework (UpEffect k v) = True"
| "framework (UpColor r g b a) = True"
| "framework (UpVisible rs) = True"
| "framework (UpOcclusion s) = False"
| "framework (UpValidated t) = False"

lemma keeps_update: "framework u \<Longrightarrow> keeps (update mcr u)"
proof (cases u)
  case (UpProperties now p)
  have "update mcr u = SetLayerProperties now p" unfolding UpProperties by (rule ext) simp
  then show ?thesis using keeps_SetLayerProperties by simp
next
  case (UpEffect k v)
  then show ?thesis by (auto simp: keeps_def layer_wf_def hl_ApplyEffectMetadata_def Let_def raise_if_def split: prod.split)
next
  case (UpColor r g b a)
  then show ?thesis by (simp add: keeps_def layer_wf_def SetSolidColor_def Let_def)
next
  case (UpVisible rs)
  then show ?thesis by (simp add: keeps_def layer_wf_def SetVisibleRegion_def)
qed simp_all

lemma steady_update: "framework u \<Longrightarrow> steady mcr (update mcr u)"
  by (intro steady_honest honest_update keeps_update)

lemma steady_occlusion: "steady mcr (ApplyOcclusion sh)"
  by (auto simp: steady_def ApplyOcclusion_def Let_def set_pi_def bits_nonzero layer_wf_def facts_def
      IsLayerUsableAsDevice_def split: prod.splits)

lemma steady_id: "steady mcr (\<lambda>l. l)"
  by (simp add: steady_def)


subsection \<open>A plan handed back describes the frame\<close>

definition covers :: "f32 \<Rightarrow> composition \<Rightarrow> hwc_layer \<Rightarrow> bool" where
  "covers mcr c l \<longleftrightarrow> hl_hidden l \<or> co_types c (serial l) = Some CClient \<or>
     co_types c (serial l) = Some CDevice \<and> \<not> only_client mcr l \<and> hl_validated_type l = CDevice"

text \<open>The plans that may yet be shown: the one staged, and the one kept unless the one staged is to
  replace it.\<close>

definition plans :: "frame_display \<Rightarrow> composition set" where
  "plans s = {c. fd_validated s = Some c \<or> (fd_validated s = None \<or> fd_short s) \<and> fd_reusable s = Some c}"

definition quiet :: "frame_display \<Rightarrow> bool" where
  "quiet s \<longleftrightarrow> fd_bits s = 0 \<and> hl_invalidators (fd_client s) = 0 \<and> (\<forall>l\<in>set (layers_of s). hl_invalidators l = 0)"

definition layer_ok :: "nat \<Rightarrow> hwc_layer \<Rightarrow> bool" where
  "layer_ok n l \<longleftrightarrow> serial l < n \<and> layer_wf l \<and> hl_sf_type l \<noteq> CCursor \<and> hl_validated_type l \<noteq> CCursor"

definition frame_ok :: "f32 \<Rightarrow> frame_display \<Rightarrow> bool" where
  "frame_ok mcr s \<longleftrightarrow> distinct (map serial (layers_of s)) \<and> (\<forall>l\<in>set (layers_of s). layer_ok (fd_next_serial s) l) \<and>
     (fd_layers s = [] \<longrightarrow> fd_reusable s = None) \<and>
     (quiet s \<longrightarrow> (\<forall>c\<in>plans s. co_reason c = FrNone \<longrightarrow> (\<forall>l\<in>set (layers_of s). covers mcr c l)))"

lemma covers_cong:
  assumes "facts mcr l' = facts mcr l" "serial l' = serial l" "hl_validated_type l' = hl_validated_type l"
  shows "covers mcr c l' = covers mcr c l"
  using assms by (simp add: covers_def only_client_def facts_def)

lemma frame_ok_layer: "frame_ok mcr s \<Longrightarrow> l \<in> set (layers_of s) \<Longrightarrow> layer_ok (fd_next_serial s) l"
  unfolding frame_ok_def by blast

lemma frame_ok_covers:
  "frame_ok mcr s \<Longrightarrow> quiet s \<Longrightarrow> c \<in> plans s \<Longrightarrow> co_reason c = FrNone \<Longrightarrow> l \<in> set (layers_of s) \<Longrightarrow> covers mcr c l"
  unfolding frame_ok_def by blast

text \<open>A step that changes the layers one by one keeps the invariant if it is steady.\<close>

lemma frame_ok_map:
  assumes "frame_ok mcr s" "fd_layers s' = map (\<lambda>(i, l). (i, g i l)) (fd_layers s)" "\<And>i. steady mcr (g i)"
    "\<And>i l. (i, l) \<in> set (fd_layers s) \<Longrightarrow> hl_sf_type (g i l) \<noteq> CCursor"
    "fd_next_serial s' = fd_next_serial s" "fd_reusable s' = fd_reusable s" "plans s' \<subseteq> plans s"
    "quiet s' \<Longrightarrow> fd_bits s = 0 \<and> hl_invalidators (fd_client s) = 0"
  shows "frame_ok mcr s'"
proof -
  have ls: "layers_of s' = map (\<lambda>(i, l). g i l) (fd_layers s)" using assms(2) by auto
  have st: "serial (g i l) = serial l" "hl_validated_type (g i l) = hl_validated_type l"
    "layer_wf l \<Longrightarrow> layer_wf (g i l)" for i l
    using assms(3) by (simp_all add: steady_def)
  have "map serial (layers_of s') = map serial (layers_of s)" using st(1) by (auto simp: ls)
  then have d: "distinct (map serial (layers_of s'))" using assms(1) by (simp only: frame_ok_def)
  have ok: "layer_ok (fd_next_serial s) l" if "(i, l) \<in> set (fd_layers s)" for i l
    using assms(1) that by (force simp: frame_ok_def)
  have ok': "\<forall>l\<in>set (layers_of s'). layer_ok (fd_next_serial s') l"
    using ok st assms(4,5) by (fastforce simp: ls layer_ok_def)
  have cov: "covers mcr c l'" if q: "quiet s'" and c: "c \<in> plans s'" "co_reason c = FrNone" and l': "l' \<in> set (layers_of s')" for c l'
  proof -
    from l' obtain i l where l: "(i, l) \<in> set (fd_layers s)" "l' = g i l" by (auto simp: ls)
    have z: "hl_invalidators (g j k) = 0" if "(j, k) \<in> set (fd_layers s)" for j k
      using q that by (force simp: quiet_def ls)
    then have "quiet s" using assms(3,8) q by (force simp: quiet_def steady_def)
    then have "covers mcr c l" using assms(1,7) c l(1) by (force simp: frame_ok_def)
    moreover have "facts mcr (g i l) = facts mcr l"
      using assms(3) z [OF l(1)] ok [OF l(1)] by (simp add: steady_def layer_ok_def)
    ultimately show ?thesis unfolding l(2) using covers_cong st by metis
  qed
  show ?thesis unfolding frame_ok_def using d ok' cov assms(1,2,6) by (auto simp: frame_ok_def)
qed

lemma frame_ok_other:
  assumes "frame_ok mcr s" "fd_layers s' = fd_layers s" "fd_next_serial s' = fd_next_serial s"
    "fd_reusable s' = None \<or> fd_reusable s' = fd_reusable s" "plans s' \<subseteq> plans s"
    "quiet s' \<Longrightarrow> quiet s"
  shows "frame_ok mcr s'"
  using assms unfolding frame_ok_def by auto

lemma or_bits [simp]: "(a OR b = (0::32 word)) \<longleftrightarrow> a = 0 \<and> b = 0"
  by (rule or_eq_0_iff)

lemma display_bits_nonzero [simp]: "kLayerAdded \<noteq> 0" "kLayerRemoved \<noteq> 0" "kColorTransform \<noteq> 0" "kColorMode \<noteq> 0"
  "kDisplayConfig \<noteq> 0" "kPowerMode \<noteq> 0" "kAllDirty \<noteq> 0" "kLayerActivity \<noteq> 0"
  by (simp_all add: display_bits push_bit_eq_mult)

lemma frame_ok_Mark [inv_rules]: "frame_ok mcr s \<Longrightarrow> frame_ok mcr (MarkPlanInvalid b s)"
  by (erule frame_ok_other) (auto simp: MarkPlanInvalid_def plans_def quiet_def)

text \<open>With a bit of the display's own raised, the plans kept need not be good.\<close>

lemma frame_ok_marked:
  assumes "distinct (map serial (layers_of s))" "\<forall>l\<in>set (layers_of s). layer_ok (fd_next_serial s) l"
    "fd_layers s = [] \<Longrightarrow> fd_reusable s = None" "fd_bits s \<noteq> 0"
  shows "frame_ok mcr s"
  using assms by (simp add: frame_ok_def quiet_def)


lemma ApplyOcclusion_type [simp]:
  "hl_sf_type (ApplyOcclusion sh l) = hl_sf_type l" "hl_validated_type (ApplyOcclusion sh l) = hl_validated_type l"
  by (simp_all add: ApplyOcclusion_def Let_def set_pi_def split: prod.split)

lemma frame_ok_resolve [inv_rules]:
  assumes h: "frame_ok mcr s"
  shows "frame_ok mcr (fd_ResolveOcclusion pf s)"
proof (rule frame_ok_map [OF h])
  let ?g = "\<lambda>i l. case map_of (shown_of pf s) i of None \<Rightarrow> l | Some sh \<Rightarrow> ApplyOcclusion sh l"
  show "fd_layers (fd_ResolveOcclusion pf s) = map (\<lambda>(i, l). (i, ?g i l)) (fd_layers s)"
    by (simp add: fd_ResolveOcclusion_def)
  show "steady mcr (?g i)" for i
    by (cases "map_of (shown_of pf s) i") (simp_all add: steady_id steady_occlusion)
  show "hl_sf_type (?g i l) \<noteq> CCursor" if "(i, l) \<in> set (fd_layers s)" for i l
  proof -
    have "l \<in> set (layers_of s)" using that by force
    then have "hl_sf_type l \<noteq> CCursor" using frame_ok_layer [OF h] unfolding layer_ok_def by blast
    moreover have "hl_sf_type (?g i l) = hl_sf_type l" by (simp split: option.split)
    ultimately show ?thesis by simp
  qed
qed (auto simp: fd_ResolveOcclusion_def plans_def quiet_def)

lemma SetLayerProperties_quiet: "hl_invalidators (SetLayerProperties now p l) = 0 \<Longrightarrow> hl_invalidators l = 0"
  using honest_SetLayerProperties by (auto simp: honest_step_def)

lemma frame_ok_seat [inv_rules]: "frame_ok mcr s \<Longrightarrow> frame_ok mcr (SeatGpuBuffer now seat s)"
proof (cases seat)
  case (Some p)
  assume "frame_ok mcr s"
  then show ?thesis
    by (rule frame_ok_other) (auto simp: SeatGpuBuffer_def Some plans_def quiet_def dest: SetLayerProperties_quiet)
qed (simp add: SeatGpuBuffer_def)

lemma before_plan_fields [simp]:
  "fd_validated (before_plan pf an s) = fd_validated s" "fd_reusable (before_plan pf an s) = fd_reusable s"
  "fd_short (before_plan pf an s) = fd_short s" "fd_next_serial (before_plan pf an s) = fd_next_serial s"
  by (simp_all add: before_plan_def Let_def SeatGpuBuffer_def fd_ResolveOcclusion_def MarkPlanInvalid_def split: option.split)

lemma frame_ok_before [inv_rules]: "frame_ok mcr s \<Longrightarrow> frame_ok mcr (before_plan pf an s)"
  by (simp add: before_plan_def Let_def inv_rules)

lemma take_bits_same [simp]:
  "facts mcr (snd (take_bits sz now l)) = facts mcr l" "serial (snd (take_bits sz now l)) = serial l"
  "hl_validated_type (snd (take_bits sz now l)) = hl_validated_type l"
  "layer_ok n (snd (take_bits sz now l)) = layer_ok n l"
  by (simp_all add: take_bits_def TakePlanInvalidators_def RefreshLiveness_def facts_def layer_ok_def
      layer_wf_def IsLayerUsableAsDevice_def)

lemma take_bits_none: "fst (take_bits sz now l) = 0 \<Longrightarrow> hl_invalidators l = 0"
  by (simp add: take_bits_def TakePlanInvalidators_def split: prod.splits)

lemma fold_bits: "fold (\<lambda>l b. b OR f l) ls a = (0::32 word) \<longleftrightarrow> a = 0 \<and> (\<forall>l\<in>set ls. f l = 0)"
  by (induction ls arbitrary: a) auto

lemma take_none_quiet:
  "fst (fd_TakePlanInvalidators pf now s) = 0 \<Longrightarrow> quiet s"
  by (auto simp: fd_TakePlanInvalidators_def fold_bits quiet_def dest: take_bits_none)

lemma order_seen: "set (GetOrderLayersByZPos s) = {l \<in> set (layers_of s). \<not> hl_hidden l}"
  by (auto simp: GetOrderLayersByZPos_def)

text \<open>Every layer that is seen is given to the client, or to the hardware if that can show it.\<close>

definition typed_well :: "f32 \<Rightarrow> composition \<Rightarrow> hwc_layer \<Rightarrow> bool" where
  "typed_well mcr c l \<longleftrightarrow> hl_hidden l \<or> co_types c (serial l) = Some CClient \<or>
     co_types c (serial l) = Some CDevice \<and> \<not> only_client mcr l"

lemma typed_well_cong:
  assumes "facts mcr l' = facts mcr l" "serial l' = serial l"
  shows "typed_well mcr c l' = typed_well mcr c l"
  using assms by (simp add: typed_well_def only_client_def facts_def)

lemma covers_typed: "covers mcr c l \<Longrightarrow> typed_well mcr c l"
  by (auto simp: covers_def typed_well_def)

lemma fresh_plan_typed:
  assumes "plannable d" "ValidateDisplay d = (c, False)" "l \<in> set (cd_layers d)" "hl_sf_type l \<noteq> CCursor"
    "only_client (cd_min_corner d) l \<Longrightarrow> IsClientLayer d l"
  shows "typed_well (cd_min_corner d) c l"
proof -
  obtain z where z: "z < length (cd_layers d)" "l = cd_layers d ! z" using assms(3) by (metis in_set_conv_nth)
  show ?thesis using plan_types [OF assms(1,2) z(1)] assms(4,5) unfolding z(2) [symmetric] typed_well_def by auto
qed

lemma reuse_short:
  assumes "ValidateDisplay d = (c, True)"
  shows "cd_reusable d = Some c" "cd_invalidators d = 0" "co_reason c = FrNone"
  using assms by (auto simp: ValidateDisplay_def Let_def reuse_def split: if_splits option.splits)

lemma plannable_bits: "plannable (display_for pf an b s) = plannable (display_for pf an 0 s)"
  by (simp add: plannable_def countable_scene_def display_for_def)

definition ready :: "platform \<Rightarrow> answers \<Rightarrow> frame_display \<Rightarrow> bool" where
  "ready pf an s \<longleftrightarrow> \<not> pf_forced_scaling pf \<and>
     plannable (display_for pf an 0 (snd (plan_frame pf an (before_plan pf an (s\<lparr>fd_validated := None\<rparr>)))))"

lemma plan_frame_typed:
  assumes "frame_ok mcr s" "mcr = pf_min_corner pf" "\<not> pf_forced_scaling pf" "fd_validated s = None"
    "plannable (display_for pf an 0 s')" "plan_frame pf an s = ((c, reused), s')"
  shows "\<forall>l\<in>set (layers_of s'). typed_well mcr c l \<and> layer_ok (fd_next_serial s') l"
    "distinct (map serial (layers_of s'))" "fd_next_serial s' = fd_next_serial s"
    "fd_reusable s' = fd_reusable s" "fd_layers s' = [] \<longleftrightarrow> fd_layers s = []"
    "reused \<Longrightarrow> fd_reusable s = Some c"
proof -
  obtain bits where p: "(if asks_bits pf s then fd_TakePlanInvalidators pf (an_now an) s else (0, s)) = (bits, s')"
    and v: "ValidateDisplay (display_for pf an bits s') = (c, reused)"
    using assms(6) by (auto simp: plan_frame_def split: prod.splits)
  have s': "s' = s \<or> s' = snd (fd_TakePlanInvalidators pf (an_now an) s)" using p by (auto split: if_splits)
  let ?g = "\<lambda>l. snd (take_bits (pf_size pf) (an_now an) l)"
  have ls: "layers_of s' = layers_of s \<or> layers_of s' = map ?g (layers_of s)"
    using s' by (auto simp: fd_TakePlanInvalidators_def each_layer_def)
  have "map serial (layers_of s') = map serial (layers_of s)"
    using s' by (auto simp: fd_TakePlanInvalidators_def each_layer_def split_def)
  then show "distinct (map serial (layers_of s'))" using assms(1) by (simp only: frame_ok_def)
  show n: "fd_next_serial s' = fd_next_serial s" and r: "fd_reusable s' = fd_reusable s"
    and "fd_layers s' = [] \<longleftrightarrow> fd_layers s = []"
    using s' by (auto simp: fd_TakePlanInvalidators_def each_layer_def)
  have from_s: "\<exists>k\<in>set (layers_of s). l = k \<or> l = ?g k" if "l \<in> set (layers_of s')" for l
    using ls that by (metis (no_types, lifting) image_iff list.set_map)
  have ok: "\<forall>l\<in>set (layers_of s'). layer_ok (fd_next_serial s') l"
    using from_s frame_ok_layer [OF assms(1)] n take_bits_same(4) by metis
  show short: "fd_reusable s = Some c" if reused
  proof -
    have "cd_reusable (display_for pf an bits s') = Some c" using reuse_short(1) v that by simp
    then show ?thesis using r by (simp add: display_for_def)
  qed
  have "typed_well mcr c l" if l: "l \<in> set (layers_of s')" for l
  proof (cases reused)
    case True
    then have d: "ValidateDisplay (display_for pf an bits s') = (c, True)" using v by simp
    have z: "bits = 0" "co_reason c = FrNone" using reuse_short(2,3) [OF d] by (simp_all add: display_for_def)
    have "asks_bits pf s"
    proof (rule ccontr)
      assume "\<not> asks_bits pf s"
      then show False using p v True by (auto simp: asks_bits_def ValidateDisplay_def Let_def display_for_def split: if_splits)
    qed
    then have "quiet s" using p z(1) take_none_quiet [of pf "an_now an" s] by simp
    then have cov: "\<forall>k\<in>set (layers_of s). covers mcr c k"
      using frame_ok_covers [OF assms(1) _ _ z(2)] assms(4) short [OF True] by (simp add: plans_def)
    from from_s [OF l] obtain k where "k \<in> set (layers_of s)" "l = k \<or> l = ?g k" by blast
    then show ?thesis using cov covers_typed typed_well_cong [OF take_bits_same(1,2)] by blast
  next
    case False
    show ?thesis
    proof (cases "hl_hidden l")
      case True
      then show ?thesis by (simp add: typed_well_def)
    next
      case shown: False
      have "typed_well (cd_min_corner (display_for pf an bits s')) c l"
      proof (rule fresh_plan_typed)
        show "plannable (display_for pf an bits s')" using assms(5) plannable_bits by blast
        show "ValidateDisplay (display_for pf an bits s') = (c, False)" using v False by simp
        show "l \<in> set (cd_layers (display_for pf an bits s'))" using l shown order_seen by (simp add: display_for_def)
        show "hl_sf_type l \<noteq> CCursor" using ok l unfolding layer_ok_def by blast
      qed (auto simp: only_client_def IsClientLayer_def display_for_def)
      then show ?thesis using assms(2) by (simp add: display_for_def)
    qed
  qed
  with ok show "\<forall>l\<in>set (layers_of s'). typed_well mcr c l \<and> layer_ok (fd_next_serial s') l" by blast
qed


lemma hidden_types:
  "(\<forall>l\<in>set ls. hl_hidden l \<longrightarrow> serial l \<noteq> k) \<Longrightarrow>
   fold (\<lambda>l m. if hl_hidden l then m(serial l \<mapsto> CDeviceOccluded) else m) ls m k = m k"
  by (induction ls arbitrary: m) auto

lemma hidden_occluded:
  "m k = Some CDeviceOccluded \<or> (\<exists>l\<in>set ls. hl_hidden l \<and> serial l = k) \<Longrightarrow>
   fold (\<lambda>l m. if hl_hidden l then m(serial l \<mapsto> CDeviceOccluded) else m) ls m k = Some CDeviceOccluded"
  by (induction ls arbitrary: m) auto

lemma tell_type_fields [simp]:
  "serial (tell_type c l) = serial l" "hl_hidden (tell_type c l) = hl_hidden l" "facts mcr (tell_type c l) = facts mcr l"
  "only_client mcr (tell_type c l) = only_client mcr l" "hl_sf_type (tell_type c l) = hl_sf_type l"
  "layer_wf (tell_type c l) = layer_wf l" "hl_invalidators (tell_type c l) = hl_invalidators l"
  by (simp_all add: tell_type_def SetValidatedType_def facts_def only_client_def layer_wf_def
      IsLayerUsableAsDevice_def split: option.split)

lemma told:
  assumes "distinct (map serial ls)" "l \<in> set ls" "typed_well mcr c l" "layer_ok n l"
    "co_types c2 = co_types (with_hidden ls c)"
  shows "covers mcr c (tell_type c2 l)" "covers mcr c2 (tell_type c2 l)" "layer_ok n (tell_type c2 l)"
proof -
  have seen: "co_types c2 (serial l) = co_types c (serial l)" if "\<not> hl_hidden l"
  proof -
    have "\<forall>k\<in>set ls. hl_hidden k \<longrightarrow> serial k \<noteq> serial l"
      using assms(1,2) that by (auto simp: distinct_map dest: inj_onD)
    then show ?thesis using hidden_types by (simp add: assms(5) with_hidden_def)
  qed
  have hid: "co_types c2 (serial l) = Some CDeviceOccluded" if "hl_hidden l"
    using assms(2) that hidden_occluded [of "co_types c" "serial l" ls] by (auto simp: assms(5) with_hidden_def)
  have "covers mcr c (tell_type c2 l) \<and> covers mcr c2 (tell_type c2 l)"
  proof (cases "hl_hidden l")
    case False
    then show ?thesis using assms(3) seen
      by (auto simp: covers_def typed_well_def tell_type_def told_type_def SetValidatedType_def only_client_def
          IsLayerUsableAsDevice_def split: option.split)
  qed (simp add: covers_def)
  then show "covers mcr c (tell_type c2 l)" "covers mcr c2 (tell_type c2 l)" by blast+
  have "hl_validated_type (tell_type c2 l) \<noteq> CCursor"
    using assms(3) seen hid
    by (cases "hl_hidden l") (auto simp: typed_well_def tell_type_def told_type_def SetValidatedType_def device_or_colour_def Let_def split: if_splits)
  then show "layer_ok n (tell_type c2 l)" using assms(4) by (simp add: layer_ok_def)
qed


lemma each_layer_fields [simp]:
  "fd_validated (each_layer f s) = fd_validated s" "fd_reusable (each_layer f s) = fd_reusable s"
  "fd_short (each_layer f s) = fd_short s" "fd_next_serial (each_layer f s) = fd_next_serial s"
  "fd_bits (each_layer f s) = fd_bits s" "fd_client (each_layer f s) = fd_client s"
  "layers_of (each_layer f s) = map f (layers_of s)" "fd_layers (each_layer f s) = [] \<longleftrightarrow> fd_layers s = []"
  by (simp_all add: each_layer_def split_def)

lemma frame_ok_unvalidated:
  "frame_ok mcr s \<Longrightarrow> fd_validated s = None \<or> fd_short s \<or> fd_reusable s = None \<Longrightarrow>
   frame_ok mcr (s\<lparr>fd_validated := None\<rparr>)"
  by (erule frame_ok_other) (auto simp: plans_def quiet_def)

lemma validate_ok:
  assumes "frame_ok mcr s" "mcr = pf_min_corner pf" "ready pf an s"
    "fd_validated s = None \<or> fd_short s \<or> fd_reusable s = None"
    "ValidateStagedComposition pf an s = (s', changed, punch)"
  shows "frame_ok mcr s' \<and> (\<forall>c. fd_validated s' = Some c \<longrightarrow> (\<forall>l\<in>set (layers_of s'). covers mcr c l))"
proof -
  let ?s = "s\<lparr>fd_validated := None\<rparr>"
  have ok0: "frame_ok mcr ?s" by (rule frame_ok_unvalidated [OF assms(1,4)])
  show ?thesis
  proof (cases "fd_headless ?s \<or> fd_layers ?s = []")
    case True
    then have "s' = ?s" using assms(5) by (simp add: ValidateStagedComposition_def)
    then show ?thesis using ok0 by simp
  next
    case False
    obtain c reused s4 where p: "plan_frame pf an (before_plan pf an ?s) = ((c, reused), s4)"
      by (metis prod.collapse)
    define c1 where "c1 = with_hidden (layers_of s4) c"
    define c2 where "c2 = (if an_gpu an \<and> GpuCanDrawClient (an_readable an) (layers_of s4) c1
                       then c1\<lparr>co_gpu_draws_client := True\<rparr> else c1)"
    have s': "s' = each_layer (tell_type c2) (s4\<lparr>fd_validated := Some c2, fd_short := reused\<rparr>)"
      using assms(5) unfolding ValidateStagedComposition_def Let_def if_not_P [OF False] p prod.case
        c1_def [symmetric] c2_def [symmetric] by simp
    have ready: "\<not> pf_forced_scaling pf" "plannable (display_for pf an 0 s4)"
      using assms(3) by (simp_all add: ready_def p)
    note typed = plan_frame_typed [OF frame_ok_before [OF ok0] assms(2) ready(1) _ ready(2) p, simplified]
    have ty: "co_types c2 = co_types (with_hidden (layers_of s4) c)" by (simp add: c2_def c1_def)
    have d: "distinct (map serial (layers_of s4))" using typed(2) by simp
    have good: "covers mcr c (tell_type c2 l)" "covers mcr c2 (tell_type c2 l)"
      "layer_ok (fd_next_serial s4) (tell_type c2 l)" if "l \<in> set (layers_of s4)" for l
      using told [OF d that _ _ ty] typed(1) that by auto
    have ls: "layers_of s' = map (tell_type c2) (layers_of s4)" by (simp add: s')
    have fields: "fd_validated s' = Some c2" "fd_short s' = reused" "fd_reusable s' = fd_reusable s"
      "fd_next_serial s' = fd_next_serial s4"
      using typed(4) by (simp_all add: s')
    have cov: "\<forall>k\<in>set (layers_of s'). covers mcr c2 k \<and> covers mcr c k \<and> layer_ok (fd_next_serial s') k"
      using good unfolding ls fields(4) by simp
    have "map serial (layers_of s') = map serial (layers_of s4)" unfolding ls by simp
    then have d': "distinct (map serial (layers_of s'))" using d by (simp only:)
    have empty: "fd_layers s' \<noteq> []" using typed(5) False
      by (simp add: s' before_plan_def Let_def SeatGpuBuffer_def fd_ResolveOcclusion_def MarkPlanInvalid_def split: option.splits)
    have pl: "k = c2 \<or> k = c" if "k \<in> plans s'" for k
      using that typed(6) fields by (auto simp: plans_def)
    have "frame_ok mcr s'"
      unfolding frame_ok_def using d' cov empty pl by blast
    then show ?thesis using cov fields(1) by auto
  qed
qed


lemma covers_accept: "covers mcr c l \<Longrightarrow> covers mcr c (AcceptTypeChange l)"
  by (auto simp: covers_def AcceptTypeChange_def only_client_def IsLayerUsableAsDevice_def HardwareSupportsLayerType_def)

lemma frame_ok_accept [inv_rules]:
  assumes "frame_ok mcr s"
  shows "frame_ok mcr (AcceptValidatedComposition s)"
proof -
  have ls: "layers_of (AcceptValidatedComposition s) = map AcceptTypeChange (layers_of s)"
    unfolding AcceptValidatedComposition_def by (rule each_layer_fields)
  have "map serial (map AcceptTypeChange (layers_of s)) = map serial (layers_of s)" by (simp add: AcceptTypeChange_def)
  then have "distinct (map serial (layers_of (AcceptValidatedComposition s)))"
    using assms unfolding ls frame_ok_def by (simp only:)
  moreover have "layer_ok n (AcceptTypeChange l)" if "layer_ok n l" for n l
    using that by (simp add: layer_ok_def AcceptTypeChange_def layer_wf_def)
  moreover have "quiet (AcceptValidatedComposition s) = quiet s"
    unfolding quiet_def ls by (simp add: AcceptValidatedComposition_def AcceptTypeChange_def)
  moreover have "plans (AcceptValidatedComposition s) = plans s"
    by (simp add: plans_def AcceptValidatedComposition_def)
  ultimately show ?thesis
    using assms covers_accept unfolding frame_ok_def ls by (simp add: AcceptValidatedComposition_def)
qed

lemma frame_ok_commit:
  assumes "frame_ok mcr s" "fd_layers s \<noteq> []" "fd_validated s \<noteq> None" "\<not> fd_headless s"
    "CommitStagedComposition outcome now seat s = (ok, s')"
  shows "frame_ok mcr s' \<and> fd_validated s' = None"
proof -
  obtain c where c: "fd_validated s = Some c" using assms(3) by blast
  define s1 where "s1 = (if co_gpu_draws_client c then SeatGpuBuffer now seat s else s)"
  have ok1: "frame_ok mcr s1" using assms(1) by (simp add: s1_def frame_ok_seat)
  have same: "fd_layers s1 = fd_layers s" "fd_validated s1 = Some c"
    using c by (simp_all add: s1_def SeatGpuBuffer_def split: option.split)
  define s3 where "s3 = (if outcome \<noteq> NoArgs \<and> \<not> fd_short s1 then s1\<lparr>fd_reusable := Some (c\<lparr>co_plan := None\<rparr>)\<rparr>
      else s1)\<lparr>fd_validated := None\<rparr>"
  have s': "s' = (if outcome = Shown then s3 else MarkPlanInvalid kAllDirty (s3\<lparr>fd_reusable := None\<rparr>))"
    using assms(4,5) c by (auto simp: CommitStagedComposition_def s1_def s3_def Let_def split: if_splits)
  have keep: "fd_layers s3 = fd_layers s1" "fd_next_serial s3 = fd_next_serial s1" by (simp_all add: s3_def)
  have base: "distinct (map serial (layers_of s3))" "\<forall>l\<in>set (layers_of s3). layer_ok (fd_next_serial s3) l"
    using ok1 unfolding frame_ok_def keep by blast+
  have "frame_ok mcr s'"
  proof (cases "outcome = Shown")
    case True
    have pl: "\<exists>k'\<in>plans s1. co_types k' = co_types k \<and> co_reason k' = co_reason k" if "k \<in> plans s3" for k
      using that same(2) True by (auto simp: plans_def s3_def split: if_splits)
    have "covers mcr k l" if "quiet s3" "k \<in> plans s3" "co_reason k = FrNone" "l \<in> set (layers_of s3)" for k l
    proof -
      have "quiet s1" using that(1) by (auto simp: quiet_def s3_def split: if_splits)
      with pl [OF that(2)] that(3,4) frame_ok_covers [OF ok1] have
        "\<exists>k'. covers mcr k' l \<and> co_types k' = co_types k" unfolding keep by metis
      then show ?thesis by (auto simp: covers_def)
    qed
    with base assms(2) True show ?thesis unfolding s' frame_ok_def using keep same by auto
  next
    case False
    then show ?thesis unfolding s' using base
      by (simp add: MarkPlanInvalid_def) (rule frame_ok_marked, simp_all)
  qed
  then show ?thesis by (simp add: s' s3_def MarkPlanInvalid_def)
qed

lemma steady_clear: "steady mcr (\<lambda>l. if hl_prior_scanout l then ClearPriorBufferScanOutFlag l else l)"
  by (simp add: steady_def ClearPriorBufferScanOutFlag_def layer_wf_def facts_def IsLayerUsableAsDevice_def)

lemma frame_ok_present:
  assumes "frame_ok mcr s" "fd_validated s \<noteq> None" "PresentStagedComposition outcome now seat s = (ok, s')"
  shows "frame_ok mcr s'"
proof (cases "fd_headless s \<or> fd_layers s = []")
  case True
  then show ?thesis using assms by (simp add: PresentStagedComposition_def)
next
  case False
  obtain ok2 s2 where c: "CommitStagedComposition outcome now seat s = (ok2, s2)" by fastforce
  have ok2: "frame_ok mcr s2" using frame_ok_commit [OF assms(1) _ assms(2) _ c] False by blast
  let ?f = "\<lambda>l. if hl_prior_scanout l then ClearPriorBufferScanOutFlag l else l"
  have "frame_ok mcr (each_layer ?f s2)"
  proof (rule frame_ok_map [OF ok2])
    show "fd_layers (each_layer ?f s2) = map (\<lambda>(i, l). (i, ?f l)) (fd_layers s2)" by (simp add: each_layer_def)
    show "hl_sf_type (?f l) \<noteq> CCursor" if "(i, l) \<in> set (fd_layers s2)" for i l
    proof -
      have "l \<in> set (layers_of s2)" using that by force
      then show ?thesis using frame_ok_layer [OF ok2] unfolding layer_ok_def by (auto simp: ClearPriorBufferScanOutFlag_def)
    qed
  qed (auto simp: steady_clear plans_def quiet_def)
  then show ?thesis using assms(2,3) ok2 False by (auto simp: PresentStagedComposition_def c split: if_splits)
qed

lemma validated_staged:
  assumes "ValidateStagedComposition pf an s = (s', r)" "\<not> fd_headless s" "fd_layers s \<noteq> []"
  shows "fd_validated s' \<noteq> None"
  using assms by (auto simp: ValidateStagedComposition_def Let_def split: prod.splits)

lemma frame_ok_try:
  assumes "frame_ok mcr s" "mcr = pf_min_corner pf" "ready pf an s" "fd_validated s = None"
    "ValidateForPresentWithoutValidation pf an s = (ok, s')"
  shows "frame_ok mcr s'" "ok \<Longrightarrow> fd_validated s' \<noteq> None"
proof -
  consider "s' = s" "\<not> ok" | s1 changed punch where "ValidateStagedComposition pf an s = (s1, changed, punch)"
      "\<not> fd_headless s" "fd_layers s \<noteq> []"
      "(ok, s') = (if \<not> fd_short s1 \<or> changed \<noteq> [] then (False, MarkPlanInvalid kAllDirty (s1\<lparr>fd_validated := None\<rparr>))
        else (True, AcceptValidatedComposition s1))"
    using assms(5) unfolding ValidateForPresentWithoutValidation_def Let_def
    by (auto split: if_splits prod.splits)
  then have "frame_ok mcr s' \<and> (ok \<longrightarrow> fd_validated s' \<noteq> None)"
  proof cases
    case 1
    then show ?thesis using assms(1) by simp
  next
    case (2 s1 changed punch)
    have ok1: "frame_ok mcr s1"
      using validate_ok [OF assms(1-3) _ 2(1)] assms(4) by blast
    show ?thesis
    proof (cases "\<not> fd_short s1 \<or> changed \<noteq> []")
      case True
      have s': "s' = MarkPlanInvalid kAllDirty (s1\<lparr>fd_validated := None\<rparr>)" "\<not> ok" using 2(4) True by simp_all
      have "frame_ok mcr s'"
        by (rule frame_ok_marked) (use ok1 in \<open>auto simp: s'(1) MarkPlanInvalid_def frame_ok_def\<close>)
      then show ?thesis using s'(2) by simp
    next
      case False
      then show ?thesis using 2 frame_ok_accept [OF ok1] validated_staged [OF 2(1-3)]
        by (simp add: AcceptValidatedComposition_def)
    qed
  qed
  then show "frame_ok mcr s'" "ok \<Longrightarrow> fd_validated s' \<noteq> None" by blast+
qed


subsection \<open>The frames of a display\<close>

definition update_layer :: "platform \<Rightarrow> nat \<Rightarrow> layer_update \<Rightarrow> frame_display \<Rightarrow> frame_display" where
  "update_layer pf i u s = s\<lparr>fd_layers :=
     map (\<lambda>(j, l). (j, if j = i then update (pf_min_corner pf) u l else l)) (fd_layers s)\<rparr>"

definition update_client :: "platform \<Rightarrow> layer_update \<Rightarrow> frame_display \<Rightarrow> frame_display" where
  "update_client pf u s = s\<lparr>fd_client := update (pf_min_corner pf) u (fd_client s)\<rparr>"

text \<open>What the framework calls, in any order; it presents, or tries to, what it has had validated before
  it validates again.\<close>

inductive frame_step :: "platform \<Rightarrow> frame_display \<Rightarrow> frame_display \<Rightarrow> bool" for pf where
  fs_layer: "framework u \<Longrightarrow> frame_step pf s (update_layer pf i u s)"
| fs_client: "frame_step pf s (update_client pf u s)"
| fs_create: "frame_step pf s (snd (CreateLayer i s))"
| fs_destroy: "frame_step pf s (snd (DestroyLayer i s))"
| fs_transform: "frame_step pf s (SetColorTransformMatrix b s)"
| fs_power: "frame_step pf s (fd_SetPowerMode s)"
| fs_config: "frame_step pf s (fd_SetConfig s)"
| fs_mode: "frame_step pf s (fd_SetColorMode s)"
| fs_pipeline: "frame_step pf s (SetPipeline b s)"
| fs_validate: "ready pf an s \<Longrightarrow> fd_validated s = None \<or> fd_short s \<or> fd_reusable s = None \<Longrightarrow>
    frame_step pf s (fst (ValidateStagedComposition pf an s))"
| fs_accept: "frame_step pf s (AcceptValidatedComposition s)"
| fs_present: "ready pf an s \<Longrightarrow> frame_step pf s (snd (PresentDisplay pf an outcome seat s))"

inductive frame_reach :: "platform \<Rightarrow> frame_display \<Rightarrow> bool" for pf where
  fr_start: "frame_reach pf fd_new"
| fr_step: "frame_reach pf s \<Longrightarrow> frame_step pf s s' \<Longrightarrow> frame_reach pf s'"

text \<open>Only the setter of the type changes the type.\<close>

definition same_type :: "(hwc_layer \<Rightarrow> hwc_layer) \<Rightarrow> bool" where
  "same_type f \<longleftrightarrow> (\<forall>l. hl_sf_type l \<noteq> CCursor \<longrightarrow> hl_sf_type (f l) \<noteq> CCursor)"

lemma same_type_comp: "same_type f \<Longrightarrow> same_type g \<Longrightarrow> same_type (f \<circ> g)"
  by (simp add: same_type_def)

lemma same_type_opt_set: "(\<And>v. p = Some v \<Longrightarrow> same_type (f v)) \<Longrightarrow> same_type (opt_set p f)"
  by (cases p) (simp_all add: same_type_def opt_set_def)

lemma same_type_setters:
  "same_type (\<lambda>l. (raise_if (hl_blend_mode l \<noteq> v1) kBlendMode l)\<lparr>hl_blend_mode := v1\<rparr>)"
  "same_type (\<lambda>l. (raise_if (hl_colorspace l \<noteq> v2) kDataspace l)\<lparr>hl_colorspace := v2\<rparr>)"
  "same_type (\<lambda>l. (raise_if (hl_color_encoding l \<noteq> v3) kDataspace l)\<lparr>hl_color_encoding := v3\<rparr>)"
  "same_type (\<lambda>l. (raise_if (hl_sample_range l \<noteq> v4) kDataspace l)\<lparr>hl_sample_range := v4\<rparr>)"
  "same_type (\<lambda>l. (raise_if (hl_transfer_func l \<noteq> v5) kDataspace l)\<lparr>hl_transfer_func := v5\<rparr>)"
  "v6 \<noteq> CCursor \<Longrightarrow> same_type (\<lambda>l. (raise_if (hl_sf_type l \<noteq> v6) kCompositionType l)\<lparr>hl_sf_type := v6\<rparr>)"
  "same_type (\<lambda>l. (raise_if (hl_z_order l \<noteq> v7) kZOrder l)\<lparr>hl_z_order := v7\<rparr>)"
  "same_type (\<lambda>l. l\<lparr>hl_brightness := v8\<rparr>)" "same_type (set_pi f)" "same_type (set_buffer now vb)"
  "same_type (set_frame now vf)" "same_type (set_alpha now va)" "same_type (set_crop now vc)" "same_type (set_transform now vt)"
  "same_type (\<lambda>l. if hl_has_buffer_set l then PopulateLayerData l else l)"
  by (simp_all add: same_type_def set_pi_def set_frame_def set_alpha_def set_crop_def set_buffer_def
      set_transform_def PopulateLayerData_def Let_def split: option.split)

lemma framework_cursor: "framework u \<Longrightarrow> hl_sf_type l \<noteq> CCursor \<Longrightarrow> hl_sf_type (update mcr u l) \<noteq> CCursor"
proof (cases u)
  case (UpProperties now p)
  assume "framework u" "hl_sf_type l \<noteq> CCursor"
  moreover from this have "same_type (SetLayerProperties now p)"
    unfolding SetLayerProperties_chain UpProperties
    by (intro same_type_comp same_type_opt_set same_type_setters) auto
  ultimately show ?thesis by (simp add: UpProperties same_type_def)
next
  case (UpEffect k v)
  then show "hl_sf_type l \<noteq> CCursor \<Longrightarrow> ?thesis"
    by (simp add: hl_ApplyEffectMetadata_def Let_def split: prod.split)
qed (simp_all add: SetSolidColor_def SetVisibleRegion_def Let_def)

lemma om_put_new:
  "om_get m k = None \<Longrightarrow> mset (om_put k v m) = add_mset (k, v) (mset m)"
  by (induction k v m rule: om_put.induct) (auto simp: om_get_def split: if_splits)

lemma frame_ok_create [inv_rules]: "frame_ok mcr s \<Longrightarrow> frame_ok mcr (snd (CreateLayer i s))"
proof (cases "om_get (fd_layers s) i")
  case None
  assume h: "frame_ok mcr s"
  let ?n = "fd_next_serial s" and ?s = "snd (CreateLayer i s)"
  have ls: "mset (layers_of ?s) = add_mset (hl_new ?n) (mset (layers_of s))"
    using om_put_new [OF None] by (simp add: CreateLayer_def None MarkPlanInvalid_def)
  then have set: "set (layers_of ?s) = insert (hl_new ?n) (set (layers_of s))"
    by (metis set_mset_add_mset_insert set_mset_mset)
  have old: "\<forall>l\<in>set (layers_of s). layer_ok ?n l" using h frame_ok_layer by blast
  have sn: "serial (hl_new ?n) = ?n" by (simp add: hl_new_def)
  have "mset (map serial (layers_of ?s)) = image_mset serial (mset (layers_of ?s))" by (rule mset_map)
  also have "\<dots> = image_mset serial (add_mset (hl_new ?n) (mset (layers_of s)))" by (simp only: ls)
  also have "\<dots> = add_mset ?n (image_mset serial (mset (layers_of s)))" by (simp only: image_mset_add_mset sn)
  also have "\<dots> = mset (?n # map serial (layers_of s))" by (simp only: mset.simps mset_map)
  finally have "mset (map serial (layers_of ?s)) = mset (?n # map serial (layers_of s))" .
  then have "distinct (map serial (layers_of ?s)) = distinct (?n # map serial (layers_of s))"
    by (rule mset_eq_imp_distinct_iff)
  moreover have "?n \<notin> set (map serial (layers_of s))" using old by (force simp: layer_ok_def)
  moreover have "distinct (map serial (layers_of s))" using h by (simp only: frame_ok_def)
  ultimately have d: "distinct (map serial (layers_of ?s))" by simp
  have n: "fd_next_serial ?s = ?n + 1" by (simp add: CreateLayer_def None MarkPlanInvalid_def)
  have "layer_ok (fd_next_serial ?s) l" if "l \<in> set (layers_of ?s)" for l
    using that old unfolding set n by (auto simp: layer_ok_def hl_new_def layer_wf_def)
  moreover have "fd_layers ?s \<noteq> []" using ls by auto
  moreover have "fd_bits ?s \<noteq> 0" by (simp add: CreateLayer_def None MarkPlanInvalid_def)
  ultimately show ?thesis using d by (intro frame_ok_marked) auto
qed (simp add: CreateLayer_def)

lemma frame_ok_destroy [inv_rules]: "frame_ok mcr s \<Longrightarrow> frame_ok mcr (snd (DestroyLayer i s))"
proof (cases "om_get (fd_layers s) i = None")
  case False
  assume h: "frame_ok mcr s"
  define s' where "s' = (MarkPlanInvalid kLayerRemoved (s\<lparr>fd_layers := om_del i (fd_layers s)\<rparr>))\<lparr>fd_reusable := None\<rparr>"
  have d: "snd (DestroyLayer i s) = s'" using False by (simp only: DestroyLayer_def if_False snd_conv s'_def)
  have ls: "layers_of s' = map snd (filter (\<lambda>e. fst e \<noteq> i) (fd_layers s))"
    by (simp add: s'_def MarkPlanInvalid_def om_del_def)
  have "distinct (map serial (layers_of s'))"
    using h unfolding ls frame_ok_def by (auto simp: distinct_map_filter)
  moreover have "\<forall>l\<in>set (layers_of s'). layer_ok (fd_next_serial s) l"
    using frame_ok_layer [OF h] unfolding ls by auto
  ultimately show ?thesis unfolding d
    by (intro frame_ok_marked) (simp_all add: s'_def MarkPlanInvalid_def)
qed (simp add: DestroyLayer_def)

lemma frame_step_ok:
  assumes "frame_step pf s s'" "frame_ok (pf_min_corner pf) s"
  shows "frame_ok (pf_min_corner pf) s'"
  using assms
proof cases
  case (fs_layer u i)
  let ?g = "\<lambda>j l. if j = i then update (pf_min_corner pf) u l else l"
  show ?thesis
  proof (rule frame_ok_map [OF assms(2)])
    show "fd_layers s' = map (\<lambda>(j, l). (j, ?g j l)) (fd_layers s)" by (simp add: fs_layer update_layer_def)
    show "steady (pf_min_corner pf) (?g j)" for j
      by (cases "j = i") (simp_all add: steady_id steady_update [OF fs_layer(2)])
    show "hl_sf_type (?g j l) \<noteq> CCursor" if "(j, l) \<in> set (fd_layers s)" for j l
    proof -
      have "l \<in> set (layers_of s)" using that by force
      then have "hl_sf_type l \<noteq> CCursor" using frame_ok_layer [OF assms(2)] unfolding layer_ok_def by blast
      then show ?thesis using framework_cursor [OF fs_layer(2)] by simp
    qed
  qed (auto simp: fs_layer update_layer_def plans_def quiet_def)
next
  case (fs_client u)
  have "hl_invalidators (update (pf_min_corner pf) u l) = 0 \<Longrightarrow> hl_invalidators l = 0" for l
    using honest_update by (auto simp: honest_step_def)
  then show ?thesis unfolding fs_client
    by (intro frame_ok_other [OF assms(2)]) (auto simp: update_client_def plans_def quiet_def)
next
  case (fs_transform b)
  have "frame_ok (pf_min_corner pf) ((MarkPlanInvalid kColorTransform s)\<lparr>fd_ctm_by_gpu := b\<rparr>)"
    by (rule frame_ok_other [OF frame_ok_Mark [OF assms(2)]]) (auto simp: plans_def quiet_def)
  then show ?thesis unfolding fs_transform using assms(2) by (simp add: SetColorTransformMatrix_def)
next
  case (fs_pipeline b)
  have "frame_ok (pf_min_corner pf) (fd_Deinit s)"
  proof (cases "fd_headless s")
    case False
    then show ?thesis using assms(2)
      by (intro frame_ok_marked) (auto simp: fd_Deinit_def MarkPlanInvalid_def frame_ok_def)
  qed (simp add: fd_Deinit_def assms(2))
  then show ?thesis unfolding fs_pipeline SetPipeline_def
    by (rule frame_ok_other) (auto simp: plans_def quiet_def)
next
  case (fs_validate an)
  then show ?thesis using validate_ok [OF assms(2) refl fs_validate(2,3)] by (metis prod.collapse)
next
  case (fs_present an outcome seat)
  obtain ok s1 where t: "(if fd_validated s = None then ValidateForPresentWithoutValidation pf an s else (True, s)) = (ok, s1)"
    by fastforce
  have s1: "frame_ok (pf_min_corner pf) s1 \<and> (ok \<longrightarrow> fd_validated s1 \<noteq> None)"
    using t frame_ok_try [OF assms(2) refl fs_present(2)] assms(2) by (auto split: if_splits)
  then show ?thesis unfolding fs_present(1) PresentDisplay_def t
    by (auto split: prod.split dest: frame_ok_present)
qed (use assms(2) in \<open>simp_all add: inv_rules fd_SetPowerMode_def fd_SetConfig_def fd_SetColorMode_def\<close>)

lemma frame_reach_ok: "frame_reach pf s \<Longrightarrow> frame_ok (pf_min_corner pf) s"
  by (induction rule: frame_reach.induct)
    (auto simp: frame_step_ok, simp add: frame_ok_def fd_new_def quiet_def)



subsection \<open>A display of one layer\<close>

definition sample_platform :: platform where
  "sample_platform = \<lparr>pf_size = (9, 9), pf_min_corner = Fin 0, pf_color_pipeline = False,
     pf_forced_scaling = False, pf_occlusion = False\<rparr>"

definition sample_answers :: answers where
  "sample_answers = \<lparr>an_now = 100, an_profile_changed = False, an_gpu = False, an_seat = None,
     an_readable = (\<lambda>_. False), an_cursor_plane = None, an_cursor_needs_pipeline = (\<lambda>_. False),
     an_planes = 3, an_direct_planes = 3, an_test = (\<lambda>_ _. (\<lparr>cs_success = True, cs_error = 0\<rparr>, Some 7))\<rparr>"

definition sample_buffer :: buffer where
  "sample_buffer = \<lparr>bu_bi = \<lparr>bf_width = 9, bf_height = 9, bf_format = 1, bf_modifier = 0, bf_unique_id = 4,
     bf_color_encoding = CeUndefined, bf_sample_range = SrUndefined, bf_blend_mode = BmNone, bf_handle = 6, bf_offsets = [0, 0, 0, 0], bf_pitches = [256, 0, 0, 0]\<rparr>,
     bu_fb = Some 3, bu_fence = -1\<rparr>"

definition shown_layer :: layer_update where
  "shown_layer = UpProperties 100 (no_props\<lparr>lp_buffer := Some sample_buffer, lp_composition_type := Some CDevice,
     lp_display_frame := Some (Some (mk_rect 0 0 9 9))\<rparr>)"

text \<open>A layer is created and shown; then its type becomes one the hardware has not.\<close>

definition one_set :: frame_display where
  "one_set = update_layer sample_platform 5 shown_layer (snd (CreateLayer 5 fd_new))"

definition one_shown :: frame_display where
  "one_shown = snd (PresentDisplay sample_platform sample_answers Shown None
     (AcceptValidatedComposition (fst (ValidateStagedComposition sample_platform sample_answers one_set))))"

definition one_coloured :: frame_display where
  "one_coloured = update_layer sample_platform 5
     (UpProperties 200 (no_props\<lparr>lp_composition_type := Some CSolidColor\<rparr>)) one_shown"

definition validate_once :: "frame_display \<Rightarrow> frame_display" where
  "validate_once s = fst (ValidateStagedComposition sample_platform sample_answers s)"

lemma one_shown_runs:
  "map serial (layers_of one_shown) = [2]" "fd_bits one_shown = 0" "fd_reusable one_shown \<noteq> None"
  by code_simp+

text \<open>A client that has a changed frame validated twice without presenting it is handed, the second
  time, the plan of the frame before the change: the first validation took the bits, and the plan it
  made was dropped. A layer the hardware cannot show is then the hardware's.\<close>

theorem second_validation_hands_back_stale_plan:
  "let s = validate_once (validate_once one_coloured); l = hd (layers_of s); c = the (fd_validated s)
   in fd_short s \<and> length (layers_of s) = 1 \<and> \<not> hl_hidden l \<and> only_client (Fin 0) l \<and>
      co_types c (serial l) = Some CDevice"
  by code_simp

definition two_set :: frame_display where
  "two_set = update_layer sample_platform 6 shown_layer (snd (CreateLayer 6 one_set))"

text \<open>The kept plan is not always emptied when a layer it names goes away: a layer destroyed between
  the validation and the present of a frame is still named by the plan the present keeps.\<close>

theorem kept_plan_names_dead_layer:
  "let s = snd (PresentDisplay sample_platform sample_answers Shown None
         (snd (DestroyLayer 5 (AcceptValidatedComposition (validate_once two_set)))))
   in map serial (layers_of s) = [3] \<and> (case fd_reusable s of None \<Rightarrow> False | Some c \<Rightarrow> co_types c 2 \<noteq> None)"
  by code_simp


lemma one_set_reached: "frame_reach sample_platform one_set"
proof -
  have "frame_reach sample_platform (snd (CreateLayer 5 fd_new))" by (rule fr_step [OF fr_start fs_create])
  then show ?thesis unfolding one_set_def
    by (rule fr_step) (rule fs_layer, simp add: shown_layer_def no_props_def)
qed

lemma one_set_ready: "ready sample_platform sample_answers one_set"
proof -
  define ls where "ls = GetOrderLayersByZPos (snd (plan_frame sample_platform sample_answers
      (before_plan sample_platform sample_answers (one_set\<lparr>fd_validated := None\<rparr>))))"
  have "map serial ls = [2]" "map (GetPixOps (9, 9)) ls = [81]" unfolding ls_def by code_simp+
  moreover from this have "length ls = 1" by (metis length_map list.size(3,4) One_nat_def plus_1_eq_Suc add.commute)
  ultimately have "plannable (display_for sample_platform sample_answers 0 (snd (plan_frame sample_platform sample_answers
      (before_plan sample_platform sample_answers (one_set\<lparr>fd_validated := None\<rparr>)))))"
    unfolding plannable_def countable_scene_def display_for_def ls_def [symmetric]
    by (simp add: sample_platform_def sample_answers_def UINT32_TOP_def)
  then show ?thesis by (simp add: ready_def, simp add: sample_platform_def)
qed


end
