(* ===== verification/Windows.thy ===== *)
theory Windows
  imports HwcLayers OrderedMap
begin

text \<open>
  tegra/WindowFeatures, tegra/TegraFormat and tegra/TegraPlane: what each window of the display
  controller can do, read from the controller's own table, and whether a window takes a layer. The
  codes of the headers of the kernel and of libdrm are not part of the repository: they are the
  fields of the record \<open>headers\<close>, an argument.
\<close>

subsection \<open>The feature table\<close>

record window_caps =
  wc_formats :: "64 word"
  wc_min_width :: "32 word"
  wc_max_width :: "32 word"
  wc_min_height :: "32 word"
  wc_max_height :: "32 word"
  wc_pitch :: bool
  wc_tiled :: bool
  wc_blocklinear :: bool
  wc_invert_h :: bool
  wc_invert_v :: bool
  wc_scan_column :: bool
  wc_scaling :: bool
  wc_max_up_h :: "32 word"
  wc_max_up_v :: "32 word"
  wc_max_down_h :: "32 word"
  wc_max_down_v :: "32 word"

definition caps_init :: window_caps where
  "caps_init = \<lparr>wc_formats = 0, wc_min_width = 0, wc_max_width = 0, wc_min_height = 0,
     wc_max_height = 0, wc_pitch = False, wc_tiled = False, wc_blocklinear = False,
     wc_invert_h = False, wc_invert_v = False, wc_scan_column = False, wc_scaling = False,
     wc_max_up_h = 1, wc_max_up_v = 1, wc_max_down_h = 1, wc_max_down_v = 1\<rparr>"

text \<open>The four values of a row are a fixed array in the code.\<close>

record feature_entry =
  fe_window :: "32 word"
  fe_option :: "32 word"
  fe_arg0 :: "32 word"
  fe_arg1 :: "32 word"
  fe_arg2 :: "32 word"
  fe_arg3 :: "32 word"

definition kFeatureFormats :: "32 word" where "kFeatureFormats = 0"
definition kFeatureMaximumSize :: "32 word" where "kFeatureMaximumSize = 2"
definition kFeatureMaximumScale :: "32 word" where "kFeatureMaximumScale = 3"
definition kFeatureLayoutType :: "32 word" where "kFeatureLayoutType = 5"
definition kFeatureInvertType :: "32 word" where "kFeatureInvertType = 6"

lemmas feature_codes = kFeatureFormats_def kFeatureMaximumSize_def kFeatureMaximumScale_def
  kFeatureLayoutType_def kFeatureInvertType_def

definition apply_row :: "feature_entry \<Rightarrow> window_caps \<Rightarrow> window_caps" where
  "apply_row e c =
     (if fe_option e = kFeatureFormats
      then c\<lparr>wc_formats := ucast (fe_arg0 e) OR push_bit 32 (ucast (fe_arg1 e))\<rparr>
      else if fe_option e = kFeatureMaximumSize
      then c\<lparr>wc_max_width := fe_arg0 e, wc_min_width := fe_arg1 e, wc_max_height := fe_arg2 e,
             wc_min_height := fe_arg3 e\<rparr>
      else if fe_option e = kFeatureMaximumScale
      then c\<lparr>wc_max_up_h := fe_arg0 e, wc_max_up_v := fe_arg1 e, wc_max_down_h := fe_arg2 e,
             wc_max_down_v := fe_arg3 e,
             wc_scaling := (fe_arg0 e \<noteq> 1 \<or> fe_arg1 e \<noteq> 1 \<or> fe_arg2 e \<noteq> 1 \<or> fe_arg3 e \<noteq> 1)\<rparr>
      else if fe_option e = kFeatureLayoutType
      then c\<lparr>wc_pitch := (fe_arg0 e \<noteq> 0), wc_tiled := (fe_arg1 e \<noteq> 0),
             wc_blocklinear := (fe_arg2 e \<noteq> 0)\<rparr>
      else if fe_option e = kFeatureInvertType
      then c\<lparr>wc_invert_h := (fe_arg0 e \<noteq> 0), wc_invert_v := (fe_arg1 e \<noteq> 0),
             wc_scan_column := (fe_arg2 e \<noteq> 0)\<rparr>
      else c)"

definition describe_row :: "feature_entry \<Rightarrow> (32 word, window_caps) omap \<Rightarrow> (32 word, window_caps) omap" where
  "describe_row e m =
     om_put (fe_window e) (apply_row e (opt_ord (om_get m (fe_window e)) caps_init)) m"

definition describeWindows ::
  "feature_entry list \<Rightarrow> (32 word, window_caps) omap \<Rightarrow> (32 word, window_caps) omap" where
  "describeWindows table m = fold describe_row table m"

text \<open>What the table says of a window, read without the loop: the last row of each property.\<close>

definition last_row :: "feature_entry list \<Rightarrow> 32 word \<Rightarrow> 32 word \<Rightarrow> feature_entry option" where
  "last_row table w opt = find (\<lambda>e. fe_window e = w \<and> fe_option e = opt) (rev table)"

definition row_val :: "(32 word \<Rightarrow> feature_entry option) \<Rightarrow> 32 word \<Rightarrow> 'a \<Rightarrow> (feature_entry \<Rightarrow> 'a) \<Rightarrow> 'a" where
  "row_val r opt d f = (case r opt of None \<Rightarrow> d | Some e \<Rightarrow> f e)"

definition caps_of_rows :: "(32 word \<Rightarrow> feature_entry option) \<Rightarrow> window_caps" where
  "caps_of_rows r =
     \<lparr>wc_formats = row_val r 0 0 (\<lambda>e. ucast (fe_arg0 e) OR push_bit 32 (ucast (fe_arg1 e))),
      wc_min_width = row_val r 2 0 fe_arg1, wc_max_width = row_val r 2 0 fe_arg0,
      wc_min_height = row_val r 2 0 fe_arg3, wc_max_height = row_val r 2 0 fe_arg2,
      wc_pitch = row_val r 5 False (\<lambda>e. fe_arg0 e \<noteq> 0),
      wc_tiled = row_val r 5 False (\<lambda>e. fe_arg1 e \<noteq> 0),
      wc_blocklinear = row_val r 5 False (\<lambda>e. fe_arg2 e \<noteq> 0),
      wc_invert_h = row_val r 6 False (\<lambda>e. fe_arg0 e \<noteq> 0),
      wc_invert_v = row_val r 6 False (\<lambda>e. fe_arg1 e \<noteq> 0),
      wc_scan_column = row_val r 6 False (\<lambda>e. fe_arg2 e \<noteq> 0),
      wc_scaling = row_val r 3 False
        (\<lambda>e. \<not> (\<forall>a\<in>{fe_arg0 e, fe_arg1 e, fe_arg2 e, fe_arg3 e}. a = 1)),
      wc_max_up_h = row_val r 3 1 fe_arg0, wc_max_up_v = row_val r 3 1 fe_arg1,
      wc_max_down_h = row_val r 3 1 fe_arg2, wc_max_down_v = row_val r 3 1 fe_arg3\<rparr>"

lemma caps_of_rows_none: "caps_of_rows (\<lambda>_. None) = caps_init"
  by (simp add: caps_of_rows_def caps_init_def row_val_def)

lemma apply_row_caps: "apply_row e (caps_of_rows r) = caps_of_rows (r(fe_option e \<mapsto> e))"
proof -
  consider "fe_option e = 0" | "fe_option e = 2" | "fe_option e = 3" | "fe_option e = 5"
    | "fe_option e = 6"
    | "fe_option e \<noteq> 0" "fe_option e \<noteq> 2" "fe_option e \<noteq> 3" "fe_option e \<noteq> 5" "fe_option e \<noteq> 6"
    by blast
  then show ?thesis
    by cases (simp_all add: apply_row_def feature_codes caps_of_rows_def row_val_def)
qed

lemma last_row_snoc:
  "last_row (table @ [e]) w = (if fe_window e = w then (last_row table w)(fe_option e \<mapsto> e) else last_row table w)"
  by (auto simp: last_row_def fun_eq_iff)

lemma om_ok_describe: "om_ok m \<Longrightarrow> om_ok (describeWindows table m)"
  by (induction table arbitrary: m) (simp_all add: describeWindows_def describe_row_def om_ok_put)

lemma describeWindows_snoc: "describeWindows (table @ [e]) m = describe_row e (describeWindows table m)"
  by (simp add: describeWindows_def)

lemma describeWindows_get:
  "om_get (describeWindows table []) w =
     (if w \<in> fe_window ` set table then Some (caps_of_rows (last_row table w)) else None)"
proof (induction table arbitrary: w rule: rev_induct)
  case Nil
  then show ?case by (simp add: describeWindows_def om_get_def)
next
  case (snoc e table)
  have none: "last_row table w = (\<lambda>_. None)" if "w \<notin> fe_window ` set table" for w
    using that by (auto simp: last_row_def fun_eq_iff find_None_iff)
  have old: "opt_ord (om_get (describeWindows table []) w) caps_init = caps_of_rows (last_row table w)" for w
    using snoc none [of w] by (simp add: caps_of_rows_none)
  have ok: "om_ok (describeWindows table [])"
    by (rule om_ok_describe) (rule om.ok_empty)
  show ?case
  proof (cases "w = fe_window e")
    case True
    then show ?thesis
      by (simp add: describeWindows_snoc describe_row_def om_get_put [OF ok] old apply_row_caps last_row_snoc)
  next
    case False
    then show ?thesis
      using snoc [of w]
      by (simp add: describeWindows_snoc describe_row_def om_get_put [OF ok] last_row_snoc)
  qed
qed

subsection \<open>Formats and arrangements\<close>

text \<open>The four-character codes of drm_fourcc.h the code names.\<close>

datatype drm_format = ABGR8888 | XBGR8888 | ARGB8888 | XRGB8888 | BGR565 | NV12 | NV21
  | YUYV | YVYU | UYVY | VYUY | AYUV | NV16 | NV61 | NV24 | NV42
  | YUV410 | YVU410 | YUV411 | YVU411 | YUV420 | YVU420 | YUV422 | YVU422 | YUV444 | YVU444
  | OtherFormat

datatype tegra_format = TfR8G8B8A8 | TfB8G8R8A8 | TfB5G6R5 | TfYCbCr420SP | TfYCrCb420SP

text \<open>What the headers outside the repository say: which name a four-character code has, the
  controller's own number of a format, and the older spelling of plain rows.\<close>

record headers =
  hd_drm :: "nat \<Rightarrow> drm_format"
  hd_code :: "tegra_format \<Rightarrow> nat"
  hd_linear :: "64 word"

fun TegraFormatFromDrm :: "drm_format \<Rightarrow> tegra_format option" where
  "TegraFormatFromDrm ABGR8888 = Some TfR8G8B8A8"
| "TegraFormatFromDrm XBGR8888 = Some TfR8G8B8A8"
| "TegraFormatFromDrm ARGB8888 = Some TfB8G8R8A8"
| "TegraFormatFromDrm XRGB8888 = Some TfB8G8R8A8"
| "TegraFormatFromDrm BGR565 = Some TfB5G6R5"
| "TegraFormatFromDrm NV12 = Some TfYCbCr420SP"
| "TegraFormatFromDrm NV21 = Some TfYCrCb420SP"
| "TegraFormatFromDrm _ = None"

fun DrmFormatIsYuv :: "drm_format \<Rightarrow> bool" where
  "DrmFormatIsYuv ABGR8888 = False"
| "DrmFormatIsYuv XBGR8888 = False"
| "DrmFormatIsYuv ARGB8888 = False"
| "DrmFormatIsYuv XRGB8888 = False"
| "DrmFormatIsYuv BGR565 = False"
| "DrmFormatIsYuv OtherFormat = False"
| "DrmFormatIsYuv _ = True"

text \<open>The flags of the flip are exclusive: rows have none, blocks carry the height of one.\<close>

datatype arrangement = Rows | Tiled | BlockLinear nat

definition NvidiaModifier :: "64 word \<Rightarrow> 64 word" where
  "NvidiaModifier code = push_bit 56 3 OR (code AND 0x00ffffffffffffff)"

definition kTegraTiled :: "64 word" where "kTegraTiled = NvidiaModifier 1"

definition IsBlockLinear :: "64 word \<Rightarrow> bool" where
  "IsBlockLinear m \<longleftrightarrow> drop_bit 56 m = 3 \<and> m AND 0x10 \<noteq> 0"

definition TegraLayoutFromModifier :: "headers \<Rightarrow> 64 word \<Rightarrow> arrangement option" where
  "TegraLayoutFromModifier hs m =
     (if IsBlockLinear m
      then if drop_bit 12 m AND 0xff \<noteq> 0xfe then None
           else Some (BlockLinear (unat (m AND 0x0f)))
      else if m = kTegraTiled then Some Tiled
      else if m = hd_linear hs then Some Rows else None)"

subsection \<open>A window judges a layer\<close>

record tegra_plane =
  tp_index :: nat
  tp_caps :: window_caps
  tp_merging :: bool

definition IsCursorCandidate :: "tegra_plane \<Rightarrow> bool" where
  "IsCursorCandidate p \<longleftrightarrow> \<not> wc_blocklinear (tp_caps p) \<and> \<not> wc_scaling (tp_caps p)"

definition SetMerging :: "tegra_plane \<Rightarrow> tegra_plane" where
  "SetMerging p = p\<lparr>tp_merging := True\<rparr>"

definition kEngineScaleReach :: f32 where "kEngineScaleReach = Fin 16"

definition BeyondEngineReach :: "f32 \<Rightarrow> f32 \<Rightarrow> f32 \<Rightarrow> f32 \<Rightarrow> bool" where
  "BeyondEngineReach src_w src_h dst_w dst_h =
     (if f32_le src_w (Fin 0) \<or> f32_le src_h (Fin 0) \<or> f32_le dst_w (Fin 0) \<or> f32_le dst_h (Fin 0)
      then False
      else let ratio_w = (if f32_less dst_w src_w then f32_div src_w dst_w else f32_div dst_w src_w);
               ratio_h = (if f32_less dst_h src_h then f32_div src_h dst_h else f32_div dst_h src_h)
           in f32_less kEngineScaleReach ratio_w \<or> f32_less kEngineScaleReach ratio_h)"

definition is_turned :: "turn \<Rightarrow> bool" where
  "is_turned t \<longleftrightarrow> tn_hflip t \<or> tn_vflip t \<or> tn_rotate90 t"

definition engine_takes :: "headers \<Rightarrow> present_info \<Rightarrow> buffer_info \<Rightarrow> bool" where
  "engine_takes hs p bi =
     (let e = ExtentsInDestAxes p (f32_of_int (int (bf_width bi))) (f32_of_int (int (bf_height bi)))
      in if bf_handle bi = 0 then False
         else if is_turned (pi_transform p) \<and> (f32_le (ex_src_w e) (Fin 0) \<or> f32_le (ex_src_h e) (Fin 0))
         then False
         else if BeyondEngineReach (ex_src_w e) (ex_src_h e) (ex_dst_w e) (ex_dst_h e) then False
         else \<not> DrmFormatIsYuv (hd_drm hs (bf_format bi)))"

definition past_limit :: "f32 \<Rightarrow> f32 \<Rightarrow> 32 word \<Rightarrow> bool" where
  "past_limit a b n = f32_less (f32_mul b (f32_of_int (uint n))) a"

definition past_scaling :: "window_caps \<Rightarrow> extents \<Rightarrow> bool" where
  "past_scaling c e \<longleftrightarrow>
     f32_less (Fin 0) (ex_src_w e) \<and> f32_less (Fin 0) (ex_src_h e) \<and>
     f32_less (Fin 0) (ex_dst_w e) \<and> f32_less (Fin 0) (ex_dst_h e) \<and>
     (past_limit (ex_src_w e) (ex_dst_w e) (wc_max_down_h c) \<or>
      past_limit (ex_src_h e) (ex_dst_h e) (wc_max_down_v c) \<or>
      past_limit (ex_dst_w e) (ex_src_w e) (wc_max_up_h c) \<or>
      past_limit (ex_dst_h e) (ex_src_h e) (wc_max_up_v c))"

definition reads_arrangement :: "window_caps \<Rightarrow> arrangement \<Rightarrow> bool" where
  "reads_arrangement c a = (case a of BlockLinear _ \<Rightarrow> wc_blocklinear c | Tiled \<Rightarrow> wc_tiled c
     | Rows \<Rightarrow> wc_pitch c)"

definition within_size :: "window_caps \<Rightarrow> irect \<Rightarrow> bool" where
  "within_size c r =
     (let width = (word_of_int (rwidth r) :: 32 word); height = (word_of_int (rheight r) :: 32 word)
      in \<not> (width < wc_min_width c \<or> width > wc_max_width c \<or> height < wc_min_height c \<or>
            height > wc_max_height c))"

definition window_takes :: "headers \<Rightarrow> window_caps \<Rightarrow> present_info \<Rightarrow> buffer_info \<Rightarrow> bool" where
  "window_takes hs c p bi = (case TegraFormatFromDrm (hd_drm hs (bf_format bi)) of
     None \<Rightarrow> False
   | Some f \<Rightarrow>
       if \<not> bit (wc_formats c) (hd_code hs f) then False
       else case TegraLayoutFromModifier hs (word_of_nat (bf_modifier bi)) of
         None \<Rightarrow> False
       | Some a \<Rightarrow>
           if \<not> reads_arrangement c a then False
           else if RequireScalingOrPhasing p \<and> \<not> wc_scaling c then False
           else if pi_source_crop p \<noteq> None \<and> pi_display_frame p \<noteq> None \<and>
                   past_scaling c (ExtentsInDestAxes p (Fin 0) (Fin 0)) then False
           else if (tn_hflip (pi_transform p) \<and> \<not> wc_invert_h c) \<or>
                   (tn_vflip (pi_transform p) \<and> \<not> wc_invert_v c) \<or>
                   (tn_rotate90 (pi_transform p) \<and> \<not> wc_scan_column c) then False
           else if tn_rotate90 (pi_transform p) \<and> (case a of BlockLinear _ \<Rightarrow> False | _ \<Rightarrow> True) then False
           else if is_turned (pi_transform p) \<and> Resizes p then False
           else case pi_display_frame p of None \<Rightarrow> True | Some dst \<Rightarrow> within_size c dst)"

definition IsValidForLayer :: "headers \<Rightarrow> tegra_plane \<Rightarrow> layer_data \<Rightarrow> bool" where
  "IsValidForLayer hs p l = (case ld_bi l of
     None \<Rightarrow> False
   | Some bi \<Rightarrow> if tp_merging p then engine_takes hs (ld_pi l) bi
                else window_takes hs (tp_caps p) (ld_pi l) bi)"

text \<open>The counter of refusals for the reach (\<open>scale_refusals_\<close>) and the log are not kept.\<close>

subsection \<open>The judgement is exact where the numbers are whole\<close>

text \<open>The largest whole extent for which the division by it is told apart from the reach.\<close>

lemma rnd_past_16:
  assumes "16 + 1 / 2 ^ 19 \<le> x" shows "16 < rnd x"
proof -
  have "(16 + 1 / 2 ^ 19 :: rat) = of_int 8388609 * (1 / 2 ^ 19)" by simp
  also have "(1 / 2 ^ 19 :: rat) = 2 powi (- 19)"
    by (simp only: power_int_minus power_int_numeral inverse_eq_divide)
  finally have "16 + 1 / 2 ^ 19 = of_int 8388609 * (2 :: rat) powi (- 19) \<and> \<bar>8388609 :: int\<bar> \<le> 2 ^ 24 \<and> (- 19 :: int) \<ge> -149"
    by simp
  then have "representable (16 + 1 / 2 ^ 19)"
    unfolding representable_def by blast
  then have "rnd (16 + 1 / 2 ^ 19) = 16 + 1 / 2 ^ 19" by (rule rnd_representable)
  then show ?thesis using rnd_mono [OF assms] by simp
qed

lemma ratio_past_16:
  assumes "0 < d" "d \<le> 2 ^ 19" "0 < s" "s \<le> 2 ^ 24"
  shows "f32_less (Fin 16) (f32_div (Fin (of_int s)) (Fin (of_int d))) \<longleftrightarrow> 16 * d < s"
proof -
  let ?q = "of_int s / of_int d :: rat"
  have pos: "(0 :: rat) < of_int d" "(0 :: rat) < of_int s" using assms by simp_all
  have "(of_int s :: rat) \<le> of_int (2 ^ 24)" using assms(4) by (simp only: of_int_le_iff)
  moreover have "?q \<le> of_int s / 1" using assms(1,3) by (intro divide_left_mono) simp_all
  ultimately have small: "\<bar>?q\<bar> \<le> 2 ^ 24" using pos by simp
  have "f32_less (Fin 16) (f32_div (Fin (of_int s)) (Fin (of_int d))) \<longleftrightarrow> 16 < rnd ?q"
    using assms(1) f32_of_rat_Fin [OF small] by simp
  also have "\<dots> \<longleftrightarrow> 16 * d < s"
  proof
    assume "16 < rnd ?q"
    show "16 * d < s"
    proof (rule ccontr)
      assume "\<not> 16 * d < s"
      then have "(of_int s :: rat) \<le> 16 * of_int d" by linarith
      then have "?q \<le> 16" using pos by (simp add: field_simps)
      then have "rnd ?q \<le> rnd 16" by (rule rnd_mono)
      moreover have "rnd 16 = 16" using b32.exact_int [of 16] by simp
      ultimately show False using \<open>16 < rnd ?q\<close> by simp
    qed
  next
    assume "16 * d < s"
    then have "(16 * of_int d + 1 :: rat) \<le> of_int s" by linarith
    then have "(16 * of_int d + 1) / of_int d \<le> ?q" using pos by (intro divide_right_mono) simp_all
    then have "16 + 1 / of_int d \<le> ?q" using pos by (simp add: add_divide_distrib)
    moreover have "(1 / 2 ^ 19 :: rat) \<le> 1 / of_int d"
    proof -
      have "(of_int d :: rat) \<le> of_int (2 ^ 19)" using assms(2) by (simp only: of_int_le_iff)
      then show ?thesis using pos by (intro divide_left_mono) simp_all
    qed
    ultimately show "16 < rnd ?q" by (intro rnd_past_16) linarith
  qed
  finally show ?thesis .
qed

text \<open>A product of whole numbers below \<open>2 ^ 24\<close> is exact, and so is the comparison with it.\<close>

lemma past_limit_exact:
  assumes "\<bar>b * uint n\<bar> \<le> 2 ^ 24" "\<bar>uint n\<bar> \<le> 2 ^ 24"
  shows "past_limit (Fin (of_int a)) (Fin (of_int b)) n \<longleftrightarrow> b * uint n < a"
proof -
  have "f32_mul (Fin (of_int b)) (f32_of_int (uint n)) = f32_of_rat (of_int (b * uint n))"
    using assms(2) by (simp add: f32_of_int_Fin)
  also have "\<dots> = Fin (of_int (b * uint n))" by (rule f32_of_rat_int [OF assms(1)])
  finally show ?thesis
    unfolding past_limit_def by (simp only: f32_less.simps of_int_less_iff)
qed

definition whole_extents :: "extents \<Rightarrow> int \<Rightarrow> int \<Rightarrow> int \<Rightarrow> int \<Rightarrow> bool" where
  "whole_extents e sw sh dw dh \<longleftrightarrow>
     e = \<lparr>ex_src_w = Fin (of_int sw), ex_src_h = Fin (of_int sh), ex_dst_w = Fin (of_int dw),
          ex_dst_h = Fin (of_int dh)\<rparr>"

definition within_ratio :: "int \<Rightarrow> int \<Rightarrow> int \<Rightarrow> int \<Rightarrow> bool" where
  "within_ratio src dst down up \<longleftrightarrow> src \<le> dst * down \<and> dst \<le> src * up"

text \<open>the reach of the engine is judged exactly. For whole extents between 1 and \<open>2 ^ 19\<close> the
  binary32 division never blurs the boundary: a layer is beyond the reach exactly when, on some
  axis, one extent is more than sixteen times the other.\<close>

theorem BeyondEngineReach_exact:
  assumes "\<forall>x\<in>{sw, sh, dw, dh}. 0 < x \<and> x \<le> (2 ^ 19 :: int)"
  shows "BeyondEngineReach (Fin (of_int sw)) (Fin (of_int sh)) (Fin (of_int dw)) (Fin (of_int dh)) \<longleftrightarrow>
     \<not> (within_ratio sw dw 16 16 \<and> within_ratio sh dh 16 16)"
proof -
  have axis: "f32_less (Fin 16) (if f32_less (Fin (of_int d)) (Fin (of_int s))
        then f32_div (Fin (of_int s)) (Fin (of_int d)) else f32_div (Fin (of_int d)) (Fin (of_int s)))
      \<longleftrightarrow> \<not> within_ratio s d 16 16" if "0 < s" "s \<le> 2 ^ 19" "0 < d" "d \<le> 2 ^ 19" for s d :: int
  proof -
    have "s \<le> 2 ^ 24" "d \<le> 2 ^ 24" using that by simp_all
    then have "f32_less (Fin 16) (f32_div (Fin (of_int s)) (Fin (of_int d))) \<longleftrightarrow> 16 * d < s"
      "f32_less (Fin 16) (f32_div (Fin (of_int d)) (Fin (of_int s))) \<longleftrightarrow> 16 * s < d"
      using that by (intro ratio_past_16; simp)+
    then show ?thesis using that by (auto simp: within_ratio_def not_le mult.commute simp del: f32_div.simps)
  qed
  have pos: "\<not> f32_le (Fin (of_int x)) (Fin 0)" if "x \<in> {sw, sh, dw, dh}" for x
    using assms that by (simp add: f32_le_def) force
  show ?thesis
    using assms axis [of sw dw] axis [of sh dh]
    by (simp add: BeyondEngineReach_def kEngineScaleReach_def Let_def pos del: f32_div.simps f32_less.simps)
qed

theorem BeyondEngineReach_exact_witness:
  "BeyondEngineReach (Fin 1601) (Fin 100) (Fin 100) (Fin 100) \<and>
   \<not> BeyondEngineReach (Fin 1600) (Fin 100) (Fin 100) (Fin 100)"
  using BeyondEngineReach_exact [of 1601 100 100 100] BeyondEngineReach_exact [of 1600 100 100 100]
  by (simp add: within_ratio_def)

text \<open>what the feature table says of a window. A window is known exactly when a row names it, and
  its capabilities are read from the last row of each of the five properties, whatever stands
  between them in the table; every property without a row has its value of rest.\<close>

theorem describeWindows_rows:
  "om_get (describeWindows table []) w =
     (if w \<in> fe_window ` set table then Some (caps_of_rows (last_row table w)) else None)"
  by (rule describeWindows_get)

lemma window_takesD:
  assumes "window_takes hs c p bi"
  shows "\<exists>f a. TegraFormatFromDrm (hd_drm hs (bf_format bi)) = Some f \<and> bit (wc_formats c) (hd_code hs f) \<and>
     TegraLayoutFromModifier hs (word_of_nat (bf_modifier bi)) = Some a \<and> reads_arrangement c a \<and>
     (RequireScalingOrPhasing p \<longrightarrow> wc_scaling c) \<and>
     (pi_source_crop p \<noteq> None \<longrightarrow> pi_display_frame p \<noteq> None \<longrightarrow>
        \<not> past_scaling c (ExtentsInDestAxes p (Fin 0) (Fin 0))) \<and>
     (tn_hflip (pi_transform p) \<longrightarrow> wc_invert_h c) \<and> (tn_vflip (pi_transform p) \<longrightarrow> wc_invert_v c) \<and>
     (tn_rotate90 (pi_transform p) \<longrightarrow> wc_scan_column c \<and> (\<exists>h. a = BlockLinear h)) \<and>
     (is_turned (pi_transform p) \<longrightarrow> \<not> Resizes p) \<and>
     (case pi_display_frame p of None \<Rightarrow> True | Some dst \<Rightarrow> within_size c dst)"
  using assms by (simp add: window_takes_def split: option.splits arrangement.splits if_splits) auto

lemma IsValidForLayerD:
  "IsValidForLayer hs p l \<Longrightarrow> \<exists>bi. ld_bi l = Some bi \<and>
     (if tp_merging p then engine_takes hs (ld_pi l) bi else window_takes hs (tp_caps p) (ld_pi l) bi)"
  by (simp add: IsValidForLayer_def split: option.splits if_splits)

lemma Resizes_whole:
  assumes "whole_extents (ExtentsInDestAxes p (Fin 0) (Fin 0)) sw sh dw dh"
    "pi_source_crop p \<noteq> None" "pi_display_frame p \<noteq> None"
  shows "Resizes p \<longleftrightarrow> sw \<noteq> dw \<or> sh \<noteq> dh"
  using assms by (auto simp: Resizes_def whole_extents_def Let_def f32_eq_iff)

lemma past_scaling_whole:
  assumes e: "whole_extents e sw sh dw dh" and pos: "\<forall>x\<in>{sw, sh, dw, dh}. 0 < x \<and> x \<le> 2 ^ 12"
    and lim: "\<forall>n\<in>{wc_max_down_h c, wc_max_down_v c, wc_max_up_h c, wc_max_up_v c}. uint n \<le> 2 ^ 12"
    and ok: "\<not> past_scaling c e"
  shows "within_ratio sw dw (uint (wc_max_down_h c)) (uint (wc_max_up_h c)) \<and>
         within_ratio sh dh (uint (wc_max_down_v c)) (uint (wc_max_up_v c))"
proof -
  have ex: "past_limit (Fin (of_int a)) (Fin (of_int b)) n \<longleftrightarrow> b * uint n < a"
    if "b \<in> {sw, sh, dw, dh}" "n \<in> {wc_max_down_h c, wc_max_down_v c, wc_max_up_h c, wc_max_up_v c}" for a b n
  proof -
    have b: "0 < b" "b \<le> 2 ^ 12" and n: "0 \<le> uint n" "uint n \<le> 2 ^ 12" using pos lim that by auto
    have "b * uint n \<le> 2 ^ 12 * 2 ^ 12" using b n by (intro mult_mono) simp_all
    then have "\<bar>b * uint n\<bar> \<le> 2 ^ 24" using b(1) n(1) by simp
    moreover have "\<bar>uint n\<bar> \<le> 2 ^ 24" using n by simp
    ultimately show ?thesis by (rule past_limit_exact)
  qed
  have "f32_less (Fin 0) (Fin (of_int x))" if "x \<in> {sw, sh, dw, dh}" for x
    using pos that by auto
  then show ?thesis
    using ok e ex by (simp add: past_scaling_def whole_extents_def within_ratio_def not_less)
qed

lemma within_size_whole:
  assumes "within_size c r" "0 \<le> rwidth r" "rwidth r < 2 ^ 32" "0 \<le> rheight r" "rheight r < 2 ^ 32"
  shows "uint (wc_min_width c) \<le> rwidth r \<and> rwidth r \<le> uint (wc_max_width c) \<and>
         uint (wc_min_height c) \<le> rheight r \<and> rheight r \<le> uint (wc_max_height c)"
proof -
  have "uint (word_of_int k :: 32 word) = k" if "0 \<le> k" "k < 2 ^ 32" for k
    using that by (simp add: uint_word_of_int)
  then show ?thesis using assms by (simp add: within_size_def Let_def not_less word_le_def)
qed

text \<open>what an ordinary window takes, it can show. Of a layer with both rectangles, of whole extents
  no larger than the controller's sizes, the window reads the format, stays within its own ratios
  on both axes with no rounding in between, resizes only when it can and never while it turns, turns
  a quarter only what is arranged in blocks, and is as large as the panel's limits for it say.\<close>

theorem IsValidForLayer_window:
  assumes v: "IsValidForLayer hs p l" and nm: "\<not> tp_merging p"
    and bi: "ld_bi l = Some bi" and rects: "pi_source_crop (ld_pi l) \<noteq> None" "pi_display_frame (ld_pi l) = Some dst"
    and e: "whole_extents (ExtentsInDestAxes (ld_pi l) (Fin 0) (Fin 0)) sw sh dw dh"
    and pos: "\<forall>x\<in>{sw, sh, dw, dh}. 0 < x \<and> x \<le> 2 ^ 12"
    and lim: "\<forall>n\<in>{wc_max_down_h (tp_caps p), wc_max_down_v (tp_caps p), wc_max_up_h (tp_caps p),
        wc_max_up_v (tp_caps p)}. uint n \<le> 2 ^ 12"
    and size: "0 \<le> rwidth dst" "rwidth dst < 2 ^ 32" "0 \<le> rheight dst" "rheight dst < 2 ^ 32"
  shows "(\<exists>f. TegraFormatFromDrm (hd_drm hs (bf_format bi)) = Some f \<and> bit (wc_formats (tp_caps p)) (hd_code hs f)) \<and>
    within_ratio sw dw (uint (wc_max_down_h (tp_caps p))) (uint (wc_max_up_h (tp_caps p))) \<and>
    within_ratio sh dh (uint (wc_max_down_v (tp_caps p))) (uint (wc_max_up_v (tp_caps p))) \<and>
    (is_turned (pi_transform (ld_pi l)) \<or> \<not> wc_scaling (tp_caps p) \<longrightarrow> sw = dw \<and> sh = dh) \<and>
    (tn_rotate90 (pi_transform (ld_pi l)) \<longrightarrow> IsBlockLinear (word_of_nat (bf_modifier bi))) \<and>
    uint (wc_min_width (tp_caps p)) \<le> rwidth dst \<and> rwidth dst \<le> uint (wc_max_width (tp_caps p)) \<and>
    uint (wc_min_height (tp_caps p)) \<le> rheight dst \<and> rheight dst \<le> uint (wc_max_height (tp_caps p))"
proof -
  have frame: "pi_display_frame (ld_pi l) \<noteq> None" using rects(2) by simp
  have t: "window_takes hs (tp_caps p) (ld_pi l) bi" using IsValidForLayerD [OF v] nm bi by auto
  obtain f a where d: "TegraFormatFromDrm (hd_drm hs (bf_format bi)) = Some f" "bit (wc_formats (tp_caps p)) (hd_code hs f)"
    "TegraLayoutFromModifier hs (word_of_nat (bf_modifier bi)) = Some a"
    "RequireScalingOrPhasing (ld_pi l) \<longrightarrow> wc_scaling (tp_caps p)"
    "\<not> past_scaling (tp_caps p) (ExtentsInDestAxes (ld_pi l) (Fin 0) (Fin 0))"
    "tn_rotate90 (pi_transform (ld_pi l)) \<longrightarrow> (\<exists>h. a = BlockLinear h)"
    "is_turned (pi_transform (ld_pi l)) \<longrightarrow> \<not> Resizes (ld_pi l)" "within_size (tp_caps p) dst"
    using window_takesD [OF t] rects frame by auto
  have "IsBlockLinear (word_of_nat (bf_modifier bi))" if "\<exists>h. a = BlockLinear h"
    using d(3) that by (auto simp: TegraLayoutFromModifier_def split: if_splits)
  moreover have "Resizes (ld_pi l) \<Longrightarrow> RequireScalingOrPhasing (ld_pi l)"
    using rects by (auto simp: RequireScalingOrPhasing_def)
  ultimately show ?thesis
    using d past_scaling_whole [OF e pos lim d(5)] within_size_whole [OF d(8) size]
      Resizes_whole [OF e rects(1) frame] by blast
qed

text \<open>A layer of 200 by 200 pixels shown at half its size by a window that shrinks twofold.\<close>

definition win_headers :: headers where
  "win_headers = \<lparr>hd_drm = (\<lambda>n. if n = 7 then ABGR8888 else OtherFormat),
     hd_code = (\<lambda>f. case f of TfR8G8B8A8 \<Rightarrow> 13 | _ \<Rightarrow> 12), hd_linear = 0\<rparr>"

definition win_caps :: window_caps where
  "win_caps = caps_init\<lparr>wc_formats := 0x2000, wc_max_width := 4000, wc_max_height := 4000,
     wc_pitch := True, wc_scaling := True, wc_max_down_h := 2, wc_max_down_v := 2\<rparr>"

definition win_plane :: tegra_plane where
  "win_plane = \<lparr>tp_index = 0, tp_caps = win_caps, tp_merging = False\<rparr>"

definition win_info :: buffer_info where
  "win_info = \<lparr>bf_width = 200, bf_height = 200, bf_format = 7, bf_modifier = 0, bf_unique_id = 1,
     bf_color_encoding = CeUndefined, bf_sample_range = SrUndefined, bf_blend_mode = BmNone, bf_handle = 1, bf_offsets = [0, 0, 0, 0], bf_pitches = [256, 0, 0, 0]\<rparr>"

definition win_pi :: present_info where
  "win_pi = pi_init\<lparr>pi_source_crop := Some (mk_rect (Fin 0) (Fin 0) (Fin 200) (Fin 200)),
     pi_display_frame := Some (mk_rect 0 0 100 100)\<rparr>"

definition win_data :: layer_data where
  "win_data = (hl_data (hl_new 1))\<lparr>ld_bi := Some win_info, ld_pi := win_pi\<rparr>"

lemma win_extents: "whole_extents (ExtentsInDestAxes win_pi (Fin 0) (Fin 0)) 200 200 100 100"
  unfolding whole_extents_def by code_simp

lemma win_valid: "IsValidForLayer win_headers win_plane win_data"
  by code_simp

theorem IsValidForLayer_window_witness:
  "within_ratio 200 100 (uint (wc_max_down_h win_caps)) (uint (wc_max_up_h win_caps)) \<and>
   wc_scaling win_caps \<and> rwidth (mk_rect 0 0 100 (100 :: int)) \<le> uint (wc_max_width win_caps)"
proof -
  have s: "tp_caps win_plane = win_caps" "\<not> tp_merging win_plane" "ld_bi win_data = Some win_info"
    "ld_pi win_data = win_pi" "pi_source_crop win_pi \<noteq> None"
    "pi_display_frame win_pi = Some (mk_rect 0 0 100 100)"
    by (simp_all add: win_plane_def win_data_def win_pi_def)
  have n: "\<forall>n\<in>{wc_max_down_h win_caps, wc_max_down_v win_caps, wc_max_up_h win_caps, wc_max_up_v win_caps}.
      uint n \<le> 2 ^ 12" "\<forall>x\<in>{200, 200, 100, 100 :: int}. 0 < x \<and> x \<le> 2 ^ 12"
    "rwidth (mk_rect 0 0 100 (100 :: int)) = 100" "rheight (mk_rect 0 0 100 (100 :: int)) = 100" "wc_scaling win_caps"
    by (simp_all add: win_caps_def caps_init_def mk_rect_def rwidth_def rheight_def)
  show ?thesis
    using IsValidForLayer_window [OF win_valid, unfolded s, OF s(2) refl s(5) refl win_extents n(2,1)] n(3-5)
    by simp
qed

end
