(* ===== verification/Seating.thy ===== *)
theory Seating
  imports MergeGroup Windows "HOL-Library.Sublist"
begin

text \<open>
  compositor/LayerToPlaneJoiningPlan: which plane shows which layer. A layer goes to the first plane
  that takes it, and the merging planes, listed behind the ordinary ones, catch what these cannot
  hold; or the merge is steered onto the group of ChooseMergeGroup and every other layer gets a
  plane of its own. What the code moves out of the composition is modelled as a value; the plan it
  fills is a record.
\<close>

subsection \<open>Planes and plans\<close>

text \<open>The interface display/Plane.h.\<close>

record plane =
  pl_id :: nat
  pl_merging :: bool
  pl_valid :: "layer_data \<Rightarrow> bool"

datatype steering = kSteered | kFitsOrdinary | kMonotone | kRunTooLong | kLivesOverflow
  | kSeatRefused | kMixedTurn

record run =
  rn_begin :: nat
  rn_live :: nat
  rn_pixels :: int
  rn_scale_pct :: int
  rn_seatable :: bool
  rn_lowered :: nat

record joining =
  jn_layer :: layer_data
  jn_plane :: plane
  jn_z :: nat

record joining_plan =
  jp_plan :: "joining list"
  jp_client_index :: "nat option"
  jp_steering :: steering
  jp_runs :: "run list"
  jp_chosen_run :: nat
  jp_run_len :: nat
  jp_rank_of_input :: "nat list"

definition jp_init :: joining_plan where
  "jp_init = \<lparr>jp_plan = [], jp_client_index = None, jp_steering = kFitsOrdinary, jp_runs = [],
     jp_chosen_run = 0, jp_run_len = 0, jp_rank_of_input = []\<rparr>"

definition RankOf :: "joining_plan \<Rightarrow> int \<Rightarrow> int" where
  "RankOf jp input =
     (if 0 \<le> input \<and> input < int (length (jp_rank_of_input jp))
      then int (jp_rank_of_input jp ! nat input) else input)"

definition SharesTurn :: "turn \<Rightarrow> turn \<Rightarrow> bool" where
  "SharesTurn a b \<longleftrightarrow> tn_hflip a = tn_hflip b \<and> tn_vflip a = tn_vflip b \<and> tn_rotate90 a = tn_rotate90 b"

definition ld_turn :: "layer_data \<Rightarrow> turn" where
  "ld_turn l = pi_transform (ld_pi l)"

text \<open>\<open>std::find_if\<close> from an iterator on, and the iterator one past what it found.\<close>

fun next_fit :: "('p \<Rightarrow> bool) \<Rightarrow> 'p list \<Rightarrow> ('p \<times> 'p list) option" where
  "next_fit P [] = None"
| "next_fit P (p # ps) = (if P p then Some (p, ps) else next_fit P ps)"

definition emplace :: "layer_data \<Rightarrow> plane \<Rightarrow> joining list \<Rightarrow> joining list" where
  "emplace l p js = js @ [\<lparr>jn_layer = l, jn_plane = p, jn_z = length js\<rparr>]"

subsection \<open>The first fit\<close>

definition suits :: "joining list \<Rightarrow> layer_data \<Rightarrow> plane \<Rightarrow> bool" where
  "suits js l p \<longleftrightarrow> pl_valid p l \<and>
     (pl_merging p \<longrightarrow> list_all (\<lambda>j. \<not> (pl_merging (jn_plane j) \<and> \<not> SharesTurn (ld_turn l) (ld_turn (jn_layer j)))) js)"

fun first_fit :: "joining list \<Rightarrow> plane list \<Rightarrow> layer_data list \<Rightarrow> bool \<times> joining list" where
  "first_fit js avail [] = (True, js)"
| "first_fit js avail (l # ls) = (case next_fit (suits js l) avail of
     None \<Rightarrow> (False, js)
   | Some (p, rest) \<Rightarrow> first_fit (emplace l p js) rest ls)"

definition PlaceFirstFit :: "joining_plan \<Rightarrow> plane list \<Rightarrow> layer_data list \<Rightarrow> bool \<times> joining_plan" where
  "PlaceFirstFit jp avail stack =
     (let (ok, js) = first_fit (jp_plan jp) avail stack in (ok, jp\<lparr>jp_plan := js\<rparr>))"

subsection \<open>The steering\<close>

definition whole_of :: "layer_data \<Rightarrow> f32 \<times> f32" where
  "whole_of l = (case ld_bi l of None \<Rightarrow> (Fin 0, Fin 0)
     | Some bi \<Rightarrow> (f32_of_int (int (bf_width bi)), f32_of_int (int (bf_height bi))))"

text \<open>A float cast to an unsigned integer; the casts of the code are of numbers that are not
  negative, and past the type's range they are undefined: here they give its greatest value.\<close>

fun f32_to_unsigned :: "int \<Rightarrow> f32 \<Rightarrow> int" where
  "f32_to_unsigned m (Fin a) = max 0 (min m \<lfloor>a\<rfloor>)"
| "f32_to_unsigned m PInf = m"
| "f32_to_unsigned m _ = 0"

definition pixels_of :: "layer_data \<Rightarrow> int" where
  "pixels_of l =
     (let e = ExtentsInDestAxes (ld_pi l) (fst (whole_of l)) (snd (whole_of l));
          src = (if f32_less (Fin 0) (ex_src_w e) \<and> f32_less (Fin 0) (ex_src_h e)
                 then f32_mul (ex_src_w e) (ex_src_h e) else Fin 0);
          dst = (if f32_less (Fin 0) (ex_dst_w e) \<and> f32_less (Fin 0) (ex_dst_h e)
                 then f32_mul (ex_dst_w e) (ex_dst_h e) else Fin 0)
      in f32_to_unsigned 18446744073709551615 (if f32_less dst src then src else dst))"

definition scale_pct_of :: "layer_data \<Rightarrow> int" where
  "scale_pct_of l =
     (let e = ExtentsInDestAxes (ld_pi l) (fst (whole_of l)) (snd (whole_of l))
      in if f32_le (ex_src_w e) (Fin 0) \<or> f32_le (ex_src_h e) (Fin 0) then 100
         else let sx = f32_div (ex_dst_w e) (ex_src_w e); sy = f32_div (ex_dst_h e) (ex_src_h e)
              in f32_to_unsigned 4294967295
                   (f32_add (f32_mul (if f32_less sy sx then sx else sy) (Fin 100)) (Fin (1 / 2))))"

definition run_uniform :: "layer_data list \<Rightarrow> nat \<Rightarrow> nat \<Rightarrow> bool" where
  "run_uniform stack run_len begin_at =
     list_all (\<lambda>i. SharesTurn (ld_turn (stack ! (begin_at + i))) (ld_turn (stack ! begin_at))) [1..<run_len]"

text \<open>The walk that seats a stack: the members of the run in merging planes, everything else in
  ordinary ones, each class offered once and in order. The two iterators are the planes left.\<close>

definition seat_fits :: "bool \<Rightarrow> layer_data \<Rightarrow> plane \<Rightarrow> bool" where
  "seat_fits merged l p \<longleftrightarrow> pl_merging p = merged \<and> pl_valid p l"

definition in_run :: "nat \<Rightarrow> nat \<Rightarrow> nat \<Rightarrow> bool" where
  "in_run run_begin run_len i \<longleftrightarrow> run_begin \<le> i \<and> i < run_begin + run_len"

fun seat_walk :: "(nat \<Rightarrow> bool) \<Rightarrow> nat \<Rightarrow> plane list \<Rightarrow> plane list \<Rightarrow> layer_data list \<Rightarrow> plane list option" where
  "seat_walk M i ordinary merging [] = Some []"
| "seat_walk M i ordinary merging (l # ls) =
     (case next_fit (seat_fits (M i) l) (if M i then merging else ordinary) of
        None \<Rightarrow> None
      | Some (p, rest) \<Rightarrow>
          (case seat_walk M (Suc i) (if M i then ordinary else rest) (if M i then rest else merging) ls of
             None \<Rightarrow> None | Some ps \<Rightarrow> Some (p # ps)))"

definition seatable :: "plane list \<Rightarrow> layer_data list \<Rightarrow> nat \<Rightarrow> nat \<Rightarrow> bool" where
  "seatable avail stack run_len begin_at = (seat_walk (in_run begin_at run_len) 0 avail avail stack \<noteq> None)"

definition add_pixels :: "layer_data \<Rightarrow> int \<Rightarrow> int" where
  "add_pixels m acc = wrap64 (acc + pixels_of m)"

definition steepest :: "layer_data \<Rightarrow> int \<Rightarrow> int" where
  "steepest m acc = (if scale_pct_of m > acc then scale_pct_of m else acc)"

definition record_run :: "plane list \<Rightarrow> layer_data list \<Rightarrow> nat \<Rightarrow> nat \<Rightarrow> nat \<Rightarrow> joining_plan \<Rightarrow> joining_plan" where
  "record_run avail stack run_len begin_at live jp =
     (let members = map (\<lambda>i. stack ! (begin_at + i)) [0..<run_len];
          run = \<lparr>rn_begin = begin_at, rn_live = live,
                 rn_pixels = fold add_pixels members 0,
                 rn_scale_pct = fold steepest members 100,
                 rn_seatable = seatable avail stack run_len begin_at, rn_lowered = 0\<rparr>
      in jp\<lparr>jp_runs := jp_runs jp @ [run]\<rparr>)"

definition ld_live1 :: "layer_data \<Rightarrow> nat" where
  "ld_live1 l = (if ld_live l then 1 else 0)"

definition record_if :: "plane list \<Rightarrow> layer_data list \<Rightarrow> nat \<Rightarrow> nat \<Rightarrow> nat \<Rightarrow> joining_plan \<Rightarrow> joining_plan" where
  "record_if avail stack run_len begin_at live jp =
     (if run_uniform stack run_len begin_at then record_run avail stack run_len begin_at live jp else jp)"

text \<open>The count of drawing layers slides along the stack with the window of the run.\<close>

definition live_slide :: "layer_data list \<Rightarrow> nat \<Rightarrow> nat \<Rightarrow> nat \<Rightarrow> nat" where
  "live_slide stack run_len i live_here = live_here - ld_live1 (stack ! (i - run_len)) + ld_live1 (stack ! i)"

definition record_at :: "plane list \<Rightarrow> layer_data list \<Rightarrow> nat \<Rightarrow> nat \<Rightarrow> nat \<times> joining_plan \<Rightarrow> nat \<times> joining_plan" where
  "record_at avail stack run_len i s =
     (let lv = live_slide stack run_len i (fst s)
      in (lv, record_if avail stack run_len (i - run_len + 1) lv (snd s)))"

definition record_runs :: "plane list \<Rightarrow> layer_data list \<Rightarrow> nat \<Rightarrow> joining_plan \<Rightarrow> joining_plan" where
  "record_runs avail stack run_len jp =
     (let live0 = sum_list (map (\<lambda>i. ld_live1 (stack ! i)) [0..<run_len])
      in snd (fold (record_at avail stack run_len) [run_len..<length stack]
                (live0, record_if avail stack run_len 0 live0 jp)))"

definition turn_code :: "turn \<Rightarrow> nat" where
  "turn_code t = (if tn_hflip t then 1 else 0) + (if tn_vflip t then 2 else 0) + (if tn_rotate90 t then 4 else 0)"

definition member_of :: "layer_data \<Rightarrow> group_member" where
  "member_of l = \<lparr>gm_live = ld_live l, gm_frame = pi_display_frame (ld_pi l), gm_turn = turn_code (ld_turn l)\<rparr>"

text \<open>\<open>rank_of_input\<close> from the order: the rank of each input, an update per rank.\<close>

definition ranks_of :: "nat list \<Rightarrow> nat list" where
  "ranks_of order = fold (\<lambda>r ranks. ranks[order ! r := r]) [0..<length order] (replicate (length order) 0)"

definition adopt_group ::
  "plane list \<Rightarrow> nat \<Rightarrow> group_choice \<Rightarrow> joining_plan \<Rightarrow> layer_data list \<Rightarrow> joining_plan \<times> layer_data list" where
  "adopt_group avail run_len g jp stack =
     (if gc_lowered g \<noteq> 0
      then let stack2 = map ((!) stack) (gc_order g);
               jp1 = record_run avail stack2 run_len (gc_begin g) (gc_live g)
                       (jp\<lparr>jp_rank_of_input := ranks_of (gc_order g)\<rparr>);
               jp2 = jp1\<lparr>jp_runs := (jp_runs jp1)[length (jp_runs jp1) - 1 :=
                          (jp_runs jp1 ! (length (jp_runs jp1) - 1))\<lparr>rn_lowered := gc_lowered g\<rparr>]\<rparr>
           in (jp2\<lparr>jp_chosen_run := length (jp_runs jp2) - 1\<rparr>, stack2)
      else (fold (\<lambda>r jp. if rn_begin (jp_runs jp ! r) = gc_begin g then jp\<lparr>jp_chosen_run := r\<rparr> else jp)
              [0..<length (jp_runs jp)] jp, stack))"

definition seat_all :: "layer_data list \<Rightarrow> plane list \<Rightarrow> joining list \<Rightarrow> joining list" where
  "seat_all stack seats js = fold (\<lambda>(l, p). emplace l p) (zip stack seats) js"

definition refuse :: "steering \<Rightarrow> joining_plan \<Rightarrow> layer_data list \<Rightarrow> bool \<times> joining_plan \<times> layer_data list" where
  "refuse why jp stack = (False, jp\<lparr>jp_steering := why\<rparr>, stack)"

definition merging_count :: "plane list \<Rightarrow> nat" where
  "merging_count avail = length (filter pl_merging avail)"

definition ordinary_count :: "plane list \<Rightarrow> nat" where
  "ordinary_count avail = length (filter (Not \<circ> pl_merging) avail)"

definition steer_width :: "plane list \<Rightarrow> nat \<Rightarrow> bool \<Rightarrow> nat" where
  "steer_width avail n prefer_merge =
     (if prefer_merge then min n (merging_count avail) else n - ordinary_count avail)"

definition PlaceSteered ::
  "joining_plan \<Rightarrow> plane list \<Rightarrow> layer_data list \<Rightarrow> bool \<Rightarrow> bool \<times> joining_plan \<times> layer_data list" where
  "PlaceSteered jp avail stack prefer_merge =
     (if merging_count avail = 0 \<or> (\<not> prefer_merge \<and> length stack \<le> ordinary_count avail)
      then refuse kFitsOrdinary jp stack
      else if \<not> list_ex ld_live stack \<or> \<not> list_ex (Not \<circ> ld_live) stack then refuse kMonotone jp stack
      else let run_len = steer_width avail (length stack) prefer_merge
           in if run_len > merging_count avail then refuse kRunTooLong jp stack
      else let jp1 = record_runs avail stack run_len (jp\<lparr>jp_run_len := run_len\<rparr>)
           in case ChooseMergeGroup (map member_of stack) run_len of
                None \<Rightarrow> refuse kMixedTurn jp1 stack
              | Some g \<Rightarrow>
                  let (jp2, stack2) = adopt_group avail run_len g jp1 stack
                  in case seat_walk (in_run (gc_begin g) run_len) 0 avail avail stack2 of
                       None \<Rightarrow> refuse kSeatRefused jp2 stack2
                     | Some seats \<Rightarrow> (True, jp2\<lparr>jp_plan := seat_all stack2 seats (jp_plan jp2),
                                               jp_steering := kSteered\<rparr>, stack2))"

subsection \<open>The plan of a composition\<close>

definition stable_partition :: "('a \<Rightarrow> bool) \<Rightarrow> 'a list \<Rightarrow> 'a list" where
  "stable_partition P xs = filter P xs @ filter (Not \<circ> P) xs"

definition queue_of :: "bool \<Rightarrow> plane list \<Rightarrow> plane list" where
  "queue_of prefer_merge avail = (if prefer_merge then stable_partition pl_merging avail else avail)"

definition cursor_refused :: "plane option \<Rightarrow> layer_data option \<Rightarrow> bool" where
  "cursor_refused cursor_plane cursor = (case cursor of None \<Rightarrow> False
     | Some c \<Rightarrow> (case cursor_plane of None \<Rightarrow> True | Some p \<Rightarrow> \<not> pl_valid p c))"

definition add_cursor :: "plane option \<Rightarrow> layer_data option \<Rightarrow> joining_plan \<Rightarrow> joining_plan" where
  "add_cursor cursor_plane cursor jp = (case cursor of None \<Rightarrow> jp
     | Some c \<Rightarrow> jp\<lparr>jp_plan := emplace c (the cursor_plane) (jp_plan jp)\<rparr>)"

definition CreateLayerToPlaneJoiningPlan ::
  "plane list \<times> plane option \<Rightarrow> layer_data list \<Rightarrow> layer_data option \<Rightarrow> bool \<Rightarrow> joining_plan option" where
  "CreateLayerToPlaneJoiningPlan usable stack cursor prefer_merge =
     (let avail = queue_of prefer_merge (fst usable)
      in if cursor_refused (snd usable) cursor then None
         else let (steered, jp, stack2) = PlaceSteered jp_init avail stack prefer_merge;
                  (ok, jp2) = (if steered then (True, jp) else PlaceFirstFit jp avail stack2)
              in if ok then Some (add_cursor (snd usable) cursor jp2) else None)"

subsection \<open>Seats taken in the order of the planes\<close>

lemma emplace_simps [simp]:
  "map jn_layer (emplace l p js) = map jn_layer js @ [l]"
  "map jn_plane (emplace l p js) = map jn_plane js @ [p]"
  "map jn_z (emplace l p js) = map jn_z js @ [length js]"
  "length (emplace l p js) = Suc (length js)"
  "set (emplace l p js) = insert \<lparr>jn_layer = l, jn_plane = p, jn_z = length js\<rparr> (set js)"
  by (simp_all add: emplace_def)

lemma next_fit_Some:
  "next_fit P ps = Some (p, rest) \<Longrightarrow> P p \<and> (\<exists>passed. ps = passed @ p # rest)"
proof (induction ps)
  case (Cons a ps)
  show ?case
  proof (cases "P a")
    case True
    then show ?thesis using Cons.prems by (auto intro: exI [of _ "[]"])
  next
    case False
    then obtain passed where "ps = passed @ p # rest" "P p" using Cons by auto
    then show ?thesis by (auto intro: exI [of _ "a # passed"])
  qed
qed simp

lemma subseq_next_fit:
  "next_fit P ps = Some (p, rest) \<Longrightarrow> subseq qs rest \<Longrightarrow> subseq (p # qs) ps"
  using next_fit_Some [of P ps p rest] by (auto intro: list_emb_append2)

text \<open>The first that fits is never too late: what a later choice leaves, it leaves too.\<close>

lemma next_fit_greedy:
  "subseq (q # qs) ps \<Longrightarrow> P q \<Longrightarrow> \<exists>p rest. next_fit P ps = Some (p, rest) \<and> subseq qs rest"
proof (induction ps)
  case (Cons a ps)
  show ?case
  proof (cases "P a")
    case True
    have "subseq qs ps"
    proof (cases "q = a")
      case True
      then show ?thesis using Cons.prems(1) by simp
    next
      case False
      then have "subseq (q # qs) ps" using Cons.prems(1) by simp
      then show ?thesis by (rule subseq_Cons')
    qed
    then show ?thesis using True by simp
  next
    case False
    then have "q \<noteq> a" using Cons.prems(2) by blast
    then show ?thesis using Cons False by simp
  qed
qed simp

definition one_turn :: "joining list \<Rightarrow> bool" where
  "one_turn js \<longleftrightarrow> (\<forall>a\<in>set js. \<forall>b\<in>set js. pl_merging (jn_plane a) \<longrightarrow> pl_merging (jn_plane b) \<longrightarrow>
     SharesTurn (ld_turn (jn_layer a)) (ld_turn (jn_layer b)))"

definition joined :: "joining list \<Rightarrow> layer_data list \<Rightarrow> plane list \<Rightarrow> bool" where
  "joined js ls ps \<longleftrightarrow> map jn_layer js = ls \<and> map jn_plane js = ps \<and> map jn_z js = [0..<length js] \<and>
     list_all2 (\<lambda>l p. pl_valid p l) ls ps"

lemma joined_Nil [simp]: "joined [] [] []"
  by (simp add: joined_def)

lemma joined_emplace:
  "joined js ls ps \<Longrightarrow> pl_valid p l \<Longrightarrow> joined (emplace l p js) (ls @ [l]) (ps @ [p])"
  by (auto simp: joined_def intro: list_all2_appendI)

lemma joined_nth:
  assumes "joined js ls ps"
  shows "length ls = length js" "length ps = length js"
    "i < length js \<Longrightarrow> jn_layer (js ! i) = ls ! i \<and> jn_plane (js ! i) = ps ! i \<and> jn_z (js ! i) = i \<and>
       pl_valid (ps ! i) (ls ! i)"
proof -
  have m: "ls = map jn_layer js" "ps = map jn_plane js" "map jn_z js = [0..<length js]"
    and v: "list_all2 (\<lambda>l p. pl_valid p l) ls ps"
    using assms by (simp_all add: joined_def)
  show l: "length ls = length js" "length ps = length js" using m(1,2) by simp_all
  show "jn_layer (js ! i) = ls ! i \<and> jn_plane (js ! i) = ps ! i \<and> jn_z (js ! i) = i \<and> pl_valid (ps ! i) (ls ! i)"
    if "i < length js"
  proof -
    have "jn_z (js ! i) = map jn_z js ! i" using that by simp
    then have "jn_z (js ! i) = i" using m(3) that by simp
    then show ?thesis using m(1,2) that list_all2_nthD [OF v, of i] by simp
  qed
qed

lemma SharesTurn_sym: "SharesTurn a b \<Longrightarrow> SharesTurn b a"
  by (simp add: SharesTurn_def)

lemma one_turn_emplace:
  assumes "one_turn js" "suits js l p" shows "one_turn (emplace l p js)"
proof -
  have "SharesTurn (ld_turn l) (ld_turn (jn_layer j))" if "pl_merging p" "j \<in> set js" "pl_merging (jn_plane j)" for j
    using assms(2) that by (auto simp: suits_def list_all_iff)
  moreover have "SharesTurn (ld_turn l) (ld_turn l)" by (simp add: SharesTurn_def)
  ultimately show ?thesis
    using assms(1) by (auto simp: one_turn_def intro: SharesTurn_sym)
qed

lemma first_fit_joined:
  "first_fit js avail ls = (True, js') \<Longrightarrow> joined js ls0 ps0 \<Longrightarrow> one_turn js \<Longrightarrow>
   one_turn js' \<and> (\<exists>ps. joined js' (ls0 @ ls) (ps0 @ ps) \<and> subseq ps avail)"
proof (induction ls arbitrary: js avail ls0 ps0)
  case (Cons l ls)
  obtain p rest where nf: "next_fit (suits js l) avail = Some (p, rest)"
    and ff: "first_fit (emplace l p js) rest ls = (True, js')"
    using Cons.prems(1) by (auto split: option.splits)
  have sp: "suits js l p" using next_fit_Some [OF nf] by blast
  then have "joined (emplace l p js) (ls0 @ [l]) (ps0 @ [p])"
    using Cons.prems(2) by (simp add: joined_emplace suits_def)
  from Cons.IH [OF ff this one_turn_emplace [OF Cons.prems(3) sp]]
  obtain ps where "one_turn js'" "joined js' (ls0 @ l # ls) (ps0 @ p # ps)" "subseq ps rest" by auto
  then show ?case using subseq_next_fit [OF nf] by blast
qed (auto intro: exI [of _ "[]"])

definition seating :: "(nat \<Rightarrow> bool) \<Rightarrow> nat \<Rightarrow> plane list \<Rightarrow> plane list \<Rightarrow> layer_data list \<Rightarrow> plane list \<Rightarrow> bool" where
  "seating M i ordinary merging ls ps \<longleftrightarrow>
     list_all2 (\<lambda>l p. pl_valid p l) ls ps \<and> map pl_merging ps = map M [i..<i + length ls] \<and>
     subseq (filter pl_merging ps) merging \<and> subseq (filter (Not \<circ> pl_merging) ps) ordinary"

lemma seating_Nil [simp]: "seating M i ordinary merging [] ps \<longleftrightarrow> ps = []"
  by (auto simp: seating_def)

lemma upt_from: "map M [i..<i + length (l # ls)] = M i # map M [Suc i..<Suc i + length ls]"
  by (simp add: upt_conv_Cons del: upt_Suc)

lemma seating_Cons:
  "seating M i ordinary merging (l # ls) ps \<longleftrightarrow> (\<exists>p qs. ps = p # qs \<and> seat_fits (M i) l p \<and>
     list_all2 (\<lambda>l p. pl_valid p l) ls qs \<and> map pl_merging qs = map M [Suc i..<Suc i + length ls] \<and>
     (if M i then subseq (p # filter pl_merging qs) merging \<and> subseq (filter (Not \<circ> pl_merging) qs) ordinary
      else subseq (filter pl_merging qs) merging \<and> subseq (p # filter (Not \<circ> pl_merging) qs) ordinary))"
  unfolding seating_def list_all2_Cons1 upt_from by (auto simp: seat_fits_def)

lemma seat_walk_sound:
  "seat_walk M i ordinary merging ls = Some ps \<Longrightarrow> seating M i ordinary merging ls ps"
proof (induction ls arbitrary: i ordinary merging ps)
  case (Cons l ls)
  let ?from = "if M i then merging else ordinary"
  obtain p rest qs where nf: "next_fit (seat_fits (M i) l) ?from = Some (p, rest)"
    and qs: "seat_walk M (Suc i) (if M i then ordinary else rest) (if M i then rest else merging) ls = Some qs"
    and ps: "ps = p # qs"
    using Cons.prems by (auto split: option.splits)
  have "seat_fits (M i) l p" using next_fit_Some [OF nf] by blast
  moreover note Cons.IH [OF qs]
  ultimately show ?case
    unfolding seating_Cons using ps subseq_next_fit [OF nf] by (auto simp: seating_def split: if_splits)
qed simp

lemma seat_walk_complete:
  "seating M i ordinary merging ls ps \<Longrightarrow> seat_walk M i ordinary merging ls \<noteq> None"
proof (induction ls arbitrary: i ordinary merging ps)
  case (Cons l ls)
  let ?from = "if M i then merging else ordinary"
  obtain p qs where c: "seat_fits (M i) l p" "list_all2 (\<lambda>l p. pl_valid p l) ls qs"
      "map pl_merging qs = map M [Suc i..<Suc i + length ls]"
    and s: "if M i then subseq (p # filter pl_merging qs) merging \<and> subseq (filter (Not \<circ> pl_merging) qs) ordinary
      else subseq (filter pl_merging qs) merging \<and> subseq (p # filter (Not \<circ> pl_merging) qs) ordinary"
    using Cons.prems unfolding seating_Cons by blast
  let ?later = "if M i then filter pl_merging qs else filter (Not \<circ> pl_merging) qs"
  have "subseq (p # ?later) ?from" using s by (cases "M i") simp_all
  from next_fit_greedy [OF this, where P = "seat_fits (M i) l", OF c(1)]
  obtain p' rest where nf: "next_fit (seat_fits (M i) l) ?from = Some (p', rest)" and r: "subseq ?later rest"
    by blast
  have "seating M (Suc i) (if M i then ordinary else rest) (if M i then rest else merging) ls qs"
    unfolding seating_def using c(2,3) s r by (cases "M i") simp_all
  from Cons.IH [OF this] show ?case using nf by (cases "M i") (auto split: option.splits)
qed simp

lemma subseq_mset: "subseq xs ys \<Longrightarrow> mset xs \<subseteq># mset ys"
proof (induction rule: list_emb.induct)
  case (list_emb_Cons xs ys y)
  then show ?case using subset_mset.order_trans [of "mset xs" "mset ys" "mset (y # ys)"] by simp
qed simp_all

lemma seating_mset:
  assumes "seating M i avail avail ls ps" shows "mset ps \<subseteq># mset avail"
proof -
  have half: "filter_mset P (mset ps) \<subseteq># filter_mset P (mset avail)" if "subseq (filter P ps) avail" for P
  proof -
    have "mset (filter P ps) \<subseteq># mset avail" using that by (rule subseq_mset)
    then have "filter_mset P (mset (filter P ps)) \<subseteq># filter_mset P (mset avail)" by (rule multiset_filter_mono)
    then show ?thesis by (simp add: filter_filter_mset)
  qed
  have "filter_mset pl_merging (mset ps) + filter_mset (Not \<circ> pl_merging) (mset ps) \<subseteq>#
        filter_mset pl_merging (mset avail) + filter_mset (Not \<circ> pl_merging) (mset avail)"
    using assms by (intro subset_mset.add_mono half) (auto simp: seating_def)
  moreover have "filter_mset pl_merging m + filter_mset (Not \<circ> pl_merging) m = m" for m :: "plane multiset"
    by (simp add: o_def multiset_partition [symmetric])
  ultimately show ?thesis by metis
qed

lemma seat_all_joined:
  "joined js ls0 ps0 \<Longrightarrow> list_all2 (\<lambda>l p. pl_valid p l) ls ps \<Longrightarrow>
   joined (seat_all ls ps js) (ls0 @ ls) (ps0 @ ps)"
proof (induction ls arbitrary: ps js ls0 ps0)
  case (Cons l ls)
  then obtain p qs where ps: "ps = p # qs" "pl_valid p l" "list_all2 (\<lambda>l p. pl_valid p l) ls qs"
    by (auto simp: list_all2_Cons1)
  have "joined (emplace l p js) (ls0 @ [l]) (ps0 @ [p])"
    using Cons.prems(1) ps(2) by (rule joined_emplace)
  from Cons.IH [OF this ps(3)] show ?case using ps by (simp add: seat_all_def)
qed (simp add: seat_all_def)

subsection \<open>The reordered stack\<close>

lemma ranks_of_fold:
  assumes "distinct order" "set order \<subseteq> {..<n}" "m \<le> length order"
  shows "length (fold (\<lambda>r ranks. ranks[order ! r := r]) [0..<m] (replicate n 0)) = n \<and>
    (\<forall>r<m. fold (\<lambda>r ranks. ranks[order ! r := r]) [0..<m] (replicate n 0) ! (order ! r) = r)"
  using assms(3)
proof (induction m)
  case (Suc m)
  let ?f = "fold (\<lambda>r ranks. ranks[order ! r := r]) [0..<m] (replicate n 0)"
  have IH: "length ?f = n" "\<forall>r<m. ?f ! (order ! r) = r" using Suc by simp_all
  have "order ! m < n" using Suc.prems assms(2) by (auto simp: subset_eq)
  moreover have "order ! m \<noteq> order ! r" if "r < m" for r
    using that Suc.prems assms(1) by (simp add: nth_eq_iff_index_eq)
  ultimately show ?case using IH by (simp add: less_Suc_eq all_conj_distrib)
qed simp

lemma perm_upt:
  assumes "mset order = mset [0..<n]"
  shows "set order = {..<n}" "length order = n" "distinct order"
proof -
  show "set order = {..<n}" using mset_eq_setD [OF assms] by (simp add: lessThan_atLeast0)
  show "length order = n" using mset_eq_length [OF assms] by simp
  show "distinct order" using assms by (metis mset_eq_imp_distinct_iff distinct_upt)
qed

lemma ranks_of_nth:
  assumes "mset order = mset [0..<n]"
  shows "length (ranks_of order) = n \<and>
    (\<forall>i<n. ranks_of order ! i < n \<and> order ! (ranks_of order ! i) = i)"
proof -
  note set = perm_upt(1) [OF assms] and len = perm_upt(2) [OF assms] and d = perm_upt(3) [OF assms]
  have f: "length (ranks_of order) = n" "\<forall>r<n. ranks_of order ! (order ! r) = r"
    using ranks_of_fold [OF d, of n n] set len by (simp_all add: ranks_of_def)
  have "ranks_of order ! i < n \<and> order ! (ranks_of order ! i) = i" if "i < n" for i
  proof -
    have "i \<in> set order" using that set by simp
    then obtain r where "r < n" "order ! r = i" unfolding in_set_conv_nth len by blast
    moreover from this have "ranks_of order ! i = r" using f(2) by blast
    ultimately show ?thesis by simp
  qed
  then show ?thesis using f(1) by blast
qed

lemma record_run_same [simp]:
  "jp_plan (record_run avail stack w b lv jp) = jp_plan jp"
  "jp_rank_of_input (record_run avail stack w b lv jp) = jp_rank_of_input jp"
  "jp_run_len (record_run avail stack w b lv jp) = jp_run_len jp"
  by (simp_all add: record_run_def Let_def)

lemma record_if_same [simp]:
  "jp_plan (record_if avail stack w b lv jp) = jp_plan jp"
  "jp_rank_of_input (record_if avail stack w b lv jp) = jp_rank_of_input jp"
  "jp_run_len (record_if avail stack w b lv jp) = jp_run_len jp"
  by (simp_all add: record_if_def)

lemma record_at_same [simp]:
  "jp_plan (snd (record_at avail stack w i s)) = jp_plan (snd s)"
  "jp_rank_of_input (snd (record_at avail stack w i s)) = jp_rank_of_input (snd s)"
  "jp_run_len (snd (record_at avail stack w i s)) = jp_run_len (snd s)"
  by (simp_all add: record_at_def Let_def)

lemma fold_record_at_same [simp]:
  "jp_plan (snd (fold (record_at avail stack w) is s)) = jp_plan (snd s)"
  "jp_rank_of_input (snd (fold (record_at avail stack w) is s)) = jp_rank_of_input (snd s)"
  "jp_run_len (snd (fold (record_at avail stack w) is s)) = jp_run_len (snd s)"
  by (induction "is" arbitrary: s) simp_all

lemma record_runs_same [simp]:
  "jp_plan (record_runs avail stack w jp) = jp_plan jp"
  "jp_rank_of_input (record_runs avail stack w jp) = jp_rank_of_input jp"
  "jp_run_len (record_runs avail stack w jp) = jp_run_len jp"
  by (simp_all add: record_runs_def Let_def)

lemma choose_valid:
  assumes "ChooseMergeGroup stack width = Some c"
  shows "valid_choice stack width c"
proof -
  have w: "0 < width" "width \<le> length stack"
    and c: "se_best (fold (From stack width) [0..<length stack - width + 1]
              \<lparr>se_steps = kSteps, se_best = None\<rparr>) = Some c"
    using assms by (auto simp: ChooseMergeGroup_def split: if_splits)
  have "best_valid stack width (fold (From stack width) [0..<length stack - width + 1]
          \<lparr>se_steps = kSteps, se_best = None\<rparr>)"
    using w by (intro fold_From_valid) (auto simp: best_valid_def)
  then show ?thesis using c by (simp add: best_valid_def)
qed

definition reordered :: "layer_data list \<Rightarrow> nat list \<Rightarrow> joining_plan \<Rightarrow> layer_data list \<Rightarrow> bool" where
  "reordered stack order jp stack2 \<longleftrightarrow> mset order = mset [0..<length stack] \<and>
     keeps_overlaps (map member_of stack) order \<and> stack2 = map ((!) stack) order \<and>
     (jp_rank_of_input jp = ranks_of order \<or> (jp_rank_of_input jp = [] \<and> order = [0..<length stack]))"

lemma keeps_overlaps_upt: "keeps_overlaps ms [0..<n]"
  by (simp add: keeps_overlaps_def sorted_wrt_mono_rel [of _ "(<)"] sorted_wrt_upt)

lemma reordered_same: "jp_rank_of_input jp = [] \<Longrightarrow> reordered stack [0..<length stack] jp stack"
  by (simp add: reordered_def keeps_overlaps_upt map_nth)

lemma choose_run_fields [simp]:
  "jp_plan (fold (\<lambda>r jp. if P jp r then jp\<lparr>jp_chosen_run := r\<rparr> else jp) rs jp) = jp_plan jp"
  "jp_rank_of_input (fold (\<lambda>r jp. if P jp r then jp\<lparr>jp_chosen_run := r\<rparr> else jp) rs jp) = jp_rank_of_input jp"
  "jp_run_len (fold (\<lambda>r jp. if P jp r then jp\<lparr>jp_chosen_run := r\<rparr> else jp) rs jp) = jp_run_len jp"
  by (induction rs arbitrary: jp) simp_all

lemma adopt_group_reordered:
  assumes "valid_choice (map member_of stack) w g" "jp_rank_of_input jp = []"
    "adopt_group avail w g jp stack = (jp2, stack2)"
  shows "reordered stack (gc_order g) jp2 stack2 \<and> jp_plan jp2 = jp_plan jp \<and> jp_run_len jp2 = jp_run_len jp"
proof (cases "gc_lowered g = 0")
  case True
  then have "gc_order g = [0..<length stack]" using assms(1) by (simp add: valid_choice_def)
  then show ?thesis
    using assms(2,3) True by (auto simp: adopt_group_def choose_run_fields intro: reordered_same)
next
  case False
  have "mset (gc_order g) = mset [0..<length stack]" "keeps_overlaps (map member_of stack) (gc_order g)"
    using assms(1) by (simp_all add: valid_choice_def)
  then show ?thesis
    using False assms(3) by (auto simp: adopt_group_def Let_def reordered_def)
qed

text \<open>What the steering leaves behind: a plan that is empty, or one that is seated.\<close>

definition steered_as :: "plane list \<Rightarrow> layer_data list \<Rightarrow> nat \<Rightarrow> joining_plan \<Rightarrow> layer_data list \<Rightarrow> bool" where
  "steered_as avail stack w jp stack2 \<longleftrightarrow> (\<exists>g ps. ChooseMergeGroup (map member_of stack) w = Some g \<and>
     reordered stack (gc_order g) jp stack2 \<and> joined (jp_plan jp) stack2 ps \<and>
     seating (in_run (gc_begin g) w) 0 avail avail stack2 ps \<and> jp_steering jp = kSteered)"

lemma PlaceSteered_result:
  assumes "PlaceSteered jp_init avail stack prefer = (b, jp, stack2)"
  shows "if b then steered_as avail stack (steer_width avail (length stack) prefer) jp stack2
         else jp_plan jp = [] \<and> jp_steering jp \<noteq> kSteered \<and> (\<exists>order. reordered stack order jp stack2)"
proof -
  define w where "w = steer_width avail (length stack) prefer"
  define jp1 where "jp1 = record_runs avail stack w (jp_init\<lparr>jp_run_len := w\<rparr>)"
  have jp1: "jp_plan jp1 = []" "jp_rank_of_input jp1 = []" by (simp_all add: jp1_def jp_init_def)
  have refused: ?thesis if "refuse why j stack = (b, jp, stack2)" "jp_plan j = []" "jp_rank_of_input j = []"
    "why \<noteq> kSteered" for why j
  proof -
    have j: "b = False" "jp = j\<lparr>jp_steering := why\<rparr>" "stack2 = stack" using that(1) by (auto simp: refuse_def)
    moreover have "reordered stack [0..<length stack] jp stack" using j that(3) by (intro reordered_same) simp
    ultimately show ?thesis using that(2,4) by auto
  qed
  consider (early) why where "refuse why jp_init stack = (b, jp, stack2)" "why \<noteq> kSteered"
    | (mixed) "refuse kMixedTurn jp1 stack = (b, jp, stack2)"
    | (group) g where "ChooseMergeGroup (map member_of stack) w = Some g"
      "(let (jp2, stack2) = adopt_group avail w g jp1 stack
        in case seat_walk (in_run (gc_begin g) w) 0 avail avail stack2 of
             None \<Rightarrow> refuse kSeatRefused jp2 stack2
           | Some seats \<Rightarrow> (True, jp2\<lparr>jp_plan := seat_all stack2 seats (jp_plan jp2),
                                     jp_steering := kSteered\<rparr>, stack2)) = (b, jp, stack2)"
  proof -
    let ?early = "\<lambda>why. refuse why jp_init stack"
    have "PlaceSteered jp_init avail stack prefer =
      (if merging_count avail = 0 \<or> (\<not> prefer \<and> length stack \<le> ordinary_count avail) then ?early kFitsOrdinary
       else if \<not> list_ex ld_live stack \<or> \<not> list_ex (Not \<circ> ld_live) stack then ?early kMonotone
       else if w > merging_count avail then ?early kRunTooLong
       else case ChooseMergeGroup (map member_of stack) w of
          None \<Rightarrow> refuse kMixedTurn jp1 stack
        | Some g \<Rightarrow>
            (let (jp2, stack2) = adopt_group avail w g jp1 stack
             in case seat_walk (in_run (gc_begin g) w) 0 avail avail stack2 of
                  None \<Rightarrow> refuse kSeatRefused jp2 stack2
                | Some seats \<Rightarrow> (True, jp2\<lparr>jp_plan := seat_all stack2 seats (jp_plan jp2),
                                          jp_steering := kSteered\<rparr>, stack2)))"
      unfolding PlaceSteered_def Let_def jp1_def w_def by (rule refl)
    note eq = this [unfolded assms, symmetric]
    show thesis
      if "\<And>why. refuse why jp_init stack = (b, jp, stack2) \<Longrightarrow> why \<noteq> kSteered \<Longrightarrow> thesis"
        "refuse kMixedTurn jp1 stack = (b, jp, stack2) \<Longrightarrow> thesis"
        "\<And>g. ChooseMergeGroup (map member_of stack) w = Some g \<Longrightarrow>
          (let (jp2, stack2) = adopt_group avail w g jp1 stack
           in case seat_walk (in_run (gc_begin g) w) 0 avail avail stack2 of
                None \<Rightarrow> refuse kSeatRefused jp2 stack2
              | Some seats \<Rightarrow> (True, jp2\<lparr>jp_plan := seat_all stack2 seats (jp_plan jp2),
                                        jp_steering := kSteered\<rparr>, stack2)) = (b, jp, stack2) \<Longrightarrow> thesis"
      for thesis
      using eq that by (simp split: if_splits option.splits)
  qed
  then show ?thesis
  proof cases
    case early
    have "jp_plan jp_init = []" "jp_rank_of_input jp_init = []" by (simp_all add: jp_init_def)
    then show ?thesis using refused [OF early(1) _ _ early(2)] by blast
  next
    case mixed
    then show ?thesis using refused [OF mixed jp1] by blast
  next
    case group
    obtain jp2 st where ad: "adopt_group avail w g jp1 stack = (jp2, st)" by fastforce
    have v: "valid_choice (map member_of stack) w g" using group(1) by (rule choose_valid)
    have re: "reordered stack (gc_order g) jp2 st" "jp_plan jp2 = []"
      using adopt_group_reordered [OF v jp1(2) ad] jp1(1) by simp_all
    show ?thesis
    proof (cases "seat_walk (in_run (gc_begin g) w) 0 avail avail st")
      case None
      then have "b = False" "jp = jp2\<lparr>jp_steering := kSeatRefused\<rparr>" "stack2 = st"
        using group(2) ad by (auto simp: refuse_def)
      then show ?thesis using re by (auto simp: reordered_def)
    next
      case (Some seats)
      have s: "seating (in_run (gc_begin g) w) 0 avail avail st seats" using Some by (rule seat_walk_sound)
      then have "joined (seat_all st seats []) ([] @ st) ([] @ seats)"
        by (intro seat_all_joined joined_Nil) (simp add: seating_def)
      moreover have "b = True" "jp = jp2\<lparr>jp_plan := seat_all st seats (jp_plan jp2), jp_steering := kSteered\<rparr>"
          "stack2 = st"
        using group(2) ad Some by auto
      ultimately have "steered_as avail stack w jp stack2"
        unfolding steered_as_def using group(1) re s
        by (intro exI [of _ g] exI [of _ seats]) (simp add: reordered_def)
      then show ?thesis using \<open>b = True\<close> by (simp add: w_def)
    qed
  qed
qed

lemma turn_code_iff: "turn_code a = turn_code b \<longleftrightarrow> SharesTurn a b"
  by (cases "tn_hflip a"; cases "tn_vflip a"; cases "tn_rotate90 a";
      cases "tn_hflip b"; cases "tn_vflip b"; cases "tn_rotate90 b")
     (simp_all add: turn_code_def SharesTurn_def)

lemma steered_merged:
  assumes "seating M 0 avail avail ls ps" "joined js ls ps" "i < length ls"
  shows "pl_merging (jn_plane (js ! i)) = M i"
proof -
  have "pl_merging (jn_plane (js ! i)) = map pl_merging ps ! i"
    using joined_nth(1,2) [OF assms(2)] joined_nth(3) [OF assms(2), of i] assms(3) by simp
  also have "\<dots> = M i" using assms(1,3) by (simp add: seating_def)
  finally show ?thesis .
qed

lemma group_nth:
  assumes "valid_choice ms w g" "in_run (gc_begin g) w i" "i < length ms"
  shows "gc_order g ! i \<in> set (group_of g)"
proof -
  have "length (gc_order g) = length ms" using assms(1) perm_upt(2) by (auto simp: valid_choice_def simp del: mset_upt)
  moreover have "group_of g = take w (drop (gc_begin g) (gc_order g))" using assms(1) by (simp add: valid_choice_def group_of_def)
  ultimately have "group_of g ! (i - gc_begin g) = gc_order g ! i" "i - gc_begin g < length (group_of g)"
    using assms(2,3) by (auto simp: in_run_def)
  then show ?thesis by (metis nth_mem)
qed

lemma steered_one_turn:
  assumes "steered_as avail stack w jp stack2" shows "one_turn (jp_plan jp)"
proof -
  obtain g ps where g: "ChooseMergeGroup (map member_of stack) w = Some g"
    "reordered stack (gc_order g) jp stack2" "joined (jp_plan jp) stack2 ps"
    "seating (in_run (gc_begin g) w) 0 avail avail stack2 ps"
    using assms by (auto simp: steered_as_def)
  have v: "valid_choice (map member_of stack) w g" using g(1) by (rule choose_valid)
  then obtain t where t: "\<forall>i\<in>set (group_of g). gm_turn (map member_of stack ! i) = t" by (auto simp: valid_choice_def)
  have order: "set (gc_order g) = {..<length stack}" "length (gc_order g) = length stack"
    using g(2) perm_upt [of "gc_order g" "length stack"] by (simp_all add: reordered_def)
  have st2: "stack2 = map ((!) stack) (gc_order g)" using g(2) by (simp add: reordered_def)
  have len: "length stack2 = length stack" "length (jp_plan jp) = length stack2"
    using joined_nth(1) [OF g(3)] order(2) unfolding st2 by simp_all
  have code: "turn_code (ld_turn (jn_layer (jp_plan jp ! i))) = t"
    if "i < length (jp_plan jp)" "pl_merging (jn_plane (jp_plan jp ! i))" for i
  proof -
    have i: "i < length stack2" using that len by simp
    have "in_run (gc_begin g) w i" using steered_merged [OF g(4,3) i] that(2) by simp
    then have "gc_order g ! i \<in> set (group_of g)" using group_nth [OF v] i len by simp
    moreover have "gc_order g ! i < length stack" using order i len by (metis lessThan_iff nth_mem)
    ultimately have "gm_turn (member_of (stack ! (gc_order g ! i))) = t" using t [rule_format] by force
    moreover have "jn_layer (jp_plan jp ! i) = stack2 ! i" using joined_nth(3) [OF g(3) that(1)] by simp
    moreover have "stack2 ! i = stack ! (gc_order g ! i)" using i len order unfolding st2 by simp
    ultimately show ?thesis by (simp add: member_of_def)
  qed
  show ?thesis
    unfolding one_turn_def
  proof (intro ballI impI)
    fix a b assume ab: "a \<in> set (jp_plan jp)" "b \<in> set (jp_plan jp)" "pl_merging (jn_plane a)" "pl_merging (jn_plane b)"
    then have "turn_code (ld_turn (jn_layer a)) = t" "turn_code (ld_turn (jn_layer b)) = t"
      using code by (auto simp: in_set_conv_nth)
    then show "SharesTurn (ld_turn (jn_layer a)) (ld_turn (jn_layer b))" by (simp add: turn_code_iff [symmetric])
  qed
qed

subsection \<open>The plan of a composition\<close>

lemma mset_queue_of [simp]: "mset (queue_of prefer avail) = mset avail"
  by (simp add: queue_of_def stable_partition_def o_def)

definition seats_planned :: "plane list \<Rightarrow> layer_data list \<Rightarrow> bool \<Rightarrow> joining_plan \<Rightarrow> layer_data list \<Rightarrow> plane list \<Rightarrow> bool" where
  "seats_planned avail stack prefer jp stack2 ps \<longleftrightarrow> (\<exists>order. reordered stack order jp stack2) \<and>
     joined (jp_plan jp) stack2 ps \<and> mset ps \<subseteq># mset avail \<and> one_turn (jp_plan jp) \<and>
     (if jp_steering jp = kSteered then steered_as avail stack (steer_width avail (length stack) prefer) jp stack2
      else subseq ps avail)"

lemma Create_planned:
  assumes "CreateLayerToPlaneJoiningPlan usable stack cursor prefer = Some jp"
  shows "\<not> cursor_refused (snd usable) cursor \<and> (\<exists>jp0 stack2 ps. jp = add_cursor (snd usable) cursor jp0 \<and>
    seats_planned (queue_of prefer (fst usable)) stack prefer jp0 stack2 ps)"
proof -
  let ?avail = "queue_of prefer (fst usable)"
  obtain b jp1 stack2 where st: "PlaceSteered jp_init ?avail stack prefer = (b, jp1, stack2)"
    by (metis prod_cases3)
  note res = PlaceSteered_result [OF st]
  have c: "\<not> cursor_refused (snd usable) cursor"
    using assms by (auto simp: CreateLayerToPlaneJoiningPlan_def)
  show ?thesis
  proof (cases b)
    case True
    then have sa: "steered_as ?avail stack (steer_width ?avail (length stack) prefer) jp1 stack2" using res by simp
    then obtain g :: group_choice and ps where g: "reordered stack (gc_order g) jp1 stack2" "joined (jp_plan jp1) stack2 ps"
      "seating (in_run (gc_begin g) (steer_width ?avail (length stack) prefer)) 0 ?avail ?avail stack2 ps"
      "jp_steering jp1 = kSteered"
      by (auto simp: steered_as_def)
    have "seats_planned ?avail stack prefer jp1 stack2 ps"
      unfolding seats_planned_def using g sa seating_mset [OF g(3)] steered_one_turn [OF sa] by auto
    moreover have "jp = add_cursor (snd usable) cursor jp1"
      using assms st True c by (simp add: CreateLayerToPlaneJoiningPlan_def)
    ultimately show ?thesis using c by blast
  next
    case False
    then have r: "jp_plan jp1 = []" "jp_steering jp1 \<noteq> kSteered" "\<exists>order. reordered stack order jp1 stack2"
      using res by simp_all
    obtain js where ff: "first_fit [] ?avail stack2 = (True, js)"
      and jp: "jp = add_cursor (snd usable) cursor (jp1\<lparr>jp_plan := js\<rparr>)"
      using assms st False c r(1)
      by (cases "first_fit [] ?avail stack2") (auto simp: CreateLayerToPlaneJoiningPlan_def PlaceFirstFit_def split: if_splits)
    obtain ps where j: "one_turn js" "joined js stack2 ps" "subseq ps ?avail"
      using first_fit_joined [OF ff joined_Nil] by (auto simp: one_turn_def)
    have "seats_planned ?avail stack prefer (jp1\<lparr>jp_plan := js\<rparr>) stack2 ps"
      unfolding seats_planned_def using r(2,3) j subseq_mset [OF j(3)] by (simp add: reordered_def)
    then show ?thesis using c jp by blast
  qed
qed

lemma add_cursor_simps [simp]:
  "jp_rank_of_input (add_cursor cp c jp) = jp_rank_of_input jp"
  "jp_steering (add_cursor cp c jp) = jp_steering jp"
  by (simp_all add: add_cursor_def split: option.splits)

lemma add_cursor_joined:
  assumes "joined (jp_plan jp) ls ps" "\<not> cursor_refused cp cursor"
  shows "\<exists>cs. joined (jp_plan (add_cursor cp cursor jp)) (ls @ (case cursor of None \<Rightarrow> [] | Some c \<Rightarrow> [c])) (ps @ cs) \<and>
     set cs \<subseteq> set_option cp \<and> length cs = (if cursor = None then 0 else 1)"
proof (cases cursor)
  case (Some c)
  then obtain p where "cp = Some p" "pl_valid p c" using assms(2) by (auto simp: cursor_refused_def split: option.splits)
  then show ?thesis using Some joined_emplace [OF assms(1), of p c] by (auto simp: add_cursor_def intro!: exI [of _ "[p]"])
qed (use assms in \<open>simp add: add_cursor_def\<close>)

lemma reordered_ranks:
  assumes "reordered stack order jp stack2" "i < length stack"
  shows "\<exists>r<length stack. RankOf jp (int i) = int r \<and> order ! r = i"
proof -
  have m: "mset order = mset [0..<length stack]" using assms(1) by (simp add: reordered_def)
  from assms(1) consider "jp_rank_of_input jp = ranks_of order"
    | "jp_rank_of_input jp = []" "order = [0..<length stack]"
    by (auto simp: reordered_def)
  then show ?thesis
  proof cases
    case 1
    then show ?thesis using ranks_of_nth [OF m] assms(2) by (auto simp: RankOf_def)
  next
    case 2
    then show ?thesis using assms(2) by (auto simp: RankOf_def)
  qed
qed

text \<open>C10: a plan shows every layer exactly once, in an order that looks the same. Its layers are those
  of the composition in some order, in which any two that overlap keep theirs, with the cursor's
  layer above them all; the depth of each is its place; and \<open>RankOf\<close> tells where each layer went,
  whether or not a layer was lowered.\<close>

theorem Create_shows_each_once:
  assumes "CreateLayerToPlaneJoiningPlan usable stack cursor prefer = Some jp"
  shows "\<exists>order. mset order = mset [0..<length stack] \<and> keeps_overlaps (map member_of stack) order \<and>
    map jn_layer (jp_plan jp) = map ((!) stack) order @ (case cursor of None \<Rightarrow> [] | Some c \<Rightarrow> [c]) \<and>
    map jn_z (jp_plan jp) = [0..<length (jp_plan jp)] \<and>
    (\<forall>i<length stack. \<exists>r<length stack. RankOf jp (int i) = int r \<and> order ! r = i)"
proof -
  obtain jp0 stack2 ps where c: "\<not> cursor_refused (snd usable) cursor" "jp = add_cursor (snd usable) cursor jp0"
    and p: "seats_planned (queue_of prefer (fst usable)) stack prefer jp0 stack2 ps"
    using Create_planned [OF assms] by blast
  obtain order where r: "reordered stack order jp0 stack2" and j: "joined (jp_plan jp0) stack2 ps"
    using p by (auto simp: seats_planned_def)
  have "RankOf jp i = RankOf jp0 i" for i by (simp add: c(2) RankOf_def)
  then have "\<forall>i<length stack. \<exists>r<length stack. RankOf jp (int i) = int r \<and> order ! r = i"
    using reordered_ranks [OF r] by simp
  then show ?thesis
    using r add_cursor_joined [OF j c(1)] unfolding reordered_def c(2) joined_def by blast
qed

text \<open>C16: no plane is given what it cannot show, none is given twice, and the merge turns as one. Every
  layer of a plan is one its plane takes; the planes are taken from those offered, each at most
  once, the cursor's layer alone having the cursor's; and any two layers of the composition that
  land on merging planes have the same transformation, which is all the engine has for a pass.\<close>

theorem Create_planes_sound:
  assumes "CreateLayerToPlaneJoiningPlan usable stack cursor prefer = Some jp"
  shows "list_all (\<lambda>j. pl_valid (jn_plane j) (jn_layer j)) (jp_plan jp) \<and>
    (\<exists>ps cs. map jn_plane (jp_plan jp) = ps @ cs \<and> mset ps \<subseteq># mset (fst usable) \<and>
       set cs \<subseteq> set_option (snd usable) \<and> length cs = (if cursor = None then 0 else 1)) \<and>
    one_turn (take (length stack) (jp_plan jp))"
proof -
  obtain jp0 stack2 ps where c: "\<not> cursor_refused (snd usable) cursor" "jp = add_cursor (snd usable) cursor jp0"
    and p: "seats_planned (queue_of prefer (fst usable)) stack prefer jp0 stack2 ps"
    using Create_planned [OF assms] by blast
  obtain order where r: "reordered stack order jp0 stack2" and j: "joined (jp_plan jp0) stack2 ps"
    and s: "mset ps \<subseteq># mset (fst usable)" "one_turn (jp_plan jp0)"
    using p by (auto simp: seats_planned_def)
  obtain cs ls where cs: "joined (jp_plan jp) ls (ps @ cs)" "set cs \<subseteq> set_option (snd usable)"
      "length cs = (if cursor = None then 0 else 1)"
    using add_cursor_joined [OF j c(1)] unfolding c(2) by blast
  have "list_all (\<lambda>j. pl_valid (jn_plane j) (jn_layer j)) (jp_plan jp)"
    using joined_nth(3) [OF cs(1)] by (simp add: list_all_length)
  moreover have "length stack = length (jp_plan jp0)"
    using joined_nth(1) [OF j] r perm_upt(2) by (auto simp: reordered_def simp del: mset_upt)
  then have "take (length stack) (jp_plan jp) = jp_plan jp0"
    unfolding c(2) by (simp add: add_cursor_def emplace_def split: option.splits)
  moreover have "map jn_plane (jp_plan jp) = ps @ cs" using cs(1) by (simp add: joined_def)
  ultimately show ?thesis using s cs(2,3) by metis
qed

subsection \<open>One run of the stack\<close>

text \<open>The window that holds the merged picture has one place in the stack, so the merged layers must
  stand together.\<close>

definition block :: "bool list \<Rightarrow> bool" where
  "block bs \<longleftrightarrow> (\<exists>a b c. bs = replicate a False @ replicate b True @ replicate c False)"

lemma subseq_replicate: "subseq xs (replicate n x) \<Longrightarrow> \<exists>m. xs = replicate m x"
proof -
  assume "subseq xs (replicate n x)"
  then have "mset xs \<subseteq># mset (replicate n x)" by (rule subseq_mset)
  then have "set xs \<subseteq> set (replicate n x)" by (metis set_mset_mono set_mset_mset)
  then have "\<forall>y\<in>set xs. y = x" by auto
  then show ?thesis using replicate_length_same [of xs x] by metis
qed

lemma block_subseq:
  assumes "block bs" "subseq as bs" shows "block as"
proof -
  obtain a b c where "bs = replicate a False @ replicate b True @ replicate c False"
    using assms(1) by (auto simp: block_def)
  then have "subseq as (replicate a False @ replicate b True @ replicate c False)" using assms(2) by simp
  then obtain xs yzs where x: "as = xs @ yzs" "subseq xs (replicate a False)"
      "subseq yzs (replicate b True @ replicate c False)"
    unfolding subseq_append_iff by blast
  then obtain ys zs where "yzs = ys @ zs" "subseq ys (replicate b True)" "subseq zs (replicate c False)"
    unfolding subseq_append_iff by blast
  with x have s: "as = xs @ ys @ zs" "subseq xs (replicate a False)"
      "subseq ys (replicate b True)" "subseq zs (replicate c False)" by simp_all
  obtain x y z where "xs = replicate x False" "ys = replicate y True" "zs = replicate z False"
    using subseq_replicate [OF s(2)] subseq_replicate [OF s(3)] subseq_replicate [OF s(4)] by blast
  then show ?thesis using s(1) unfolding block_def by blast
qed

lemma block_stable_partition: "block (map P (stable_partition P xs))"
proof -
  have "map P (filter P xs) = replicate (length (filter P xs)) True"
    "map P (filter (Not \<circ> P) xs) = replicate (length (filter (Not \<circ> P) xs)) False"
    by (induction xs) simp_all
  then show ?thesis
    unfolding block_def stable_partition_def map_append by (metis append_Nil replicate_0)
qed

lemma map_in_run:
  assumes "b + w \<le> n"
  shows "map (in_run b w) [0..<n] = replicate b False @ replicate w True @ replicate (n - b - w) False"
proof -
  have "[0..<n] = [0..<b] @ [b..<b + w] @ [b + w..<n]"
    using assms upt_split [of 0 b n] upt_split [of b "b + w" n] by simp
  moreover have "map (in_run b w) [0..<b] = replicate b False" "map (in_run b w) [b..<b + w] = replicate w True"
    "map (in_run b w) [b + w..<n] = replicate (n - b - w) False"
    by (auto simp: map_replicate_const [symmetric] in_run_def intro!: nth_equalityI)
  ultimately show ?thesis by simp
qed

lemma valid_choice_begin:
  assumes "valid_choice ms w g" "0 < w" shows "gc_begin g + w \<le> length ms"
proof -
  have "length (gc_order g) = length ms" using assms(1) perm_upt(2) by (auto simp: valid_choice_def simp del: mset_upt)
  moreover have "length (group_of g) = w" "gc_width g = w" using assms(1) by (simp_all add: valid_choice_def)
  ultimately show ?thesis using assms(2) by (simp add: group_of_def min_def split: if_splits)
qed

lemma choose_width: "ChooseMergeGroup ms w = Some g \<Longrightarrow> 0 < w"
  by (auto simp: ChooseMergeGroup_def split: if_splits)

lemma steered_flags:
  assumes "steered_as avail stack w jp stack2"
  shows "\<exists>g. ChooseMergeGroup (map member_of stack) w = Some g \<and> gc_begin g + w \<le> length stack \<and>
    map jn_layer (jp_plan jp) = map ((!) stack) (gc_order g) \<and>
    map (pl_merging \<circ> jn_plane) (jp_plan jp) = map (in_run (gc_begin g) w) [0..<length stack]"
proof -
  obtain g :: group_choice and ps where g: "ChooseMergeGroup (map member_of stack) w = Some g"
    "reordered stack (gc_order g) jp stack2" "joined (jp_plan jp) stack2 ps"
    "seating (in_run (gc_begin g) w) 0 avail avail stack2 ps"
    using assms by (auto simp: steered_as_def)
  have v: "gc_begin g + w \<le> length (map member_of stack)"
    using valid_choice_begin [OF choose_valid [OF g(1)] choose_width [OF g(1)]] .
  have st2: "stack2 = map ((!) stack) (gc_order g)" using g(2) by (simp add: reordered_def)
  have "length stack2 = length stack"
    using g(2) perm_upt(2) by (auto simp: reordered_def simp del: mset_upt)
  moreover have "map pl_merging (map jn_plane (jp_plan jp)) = map (in_run (gc_begin g) w) [0..<0 + length stack2]"
    using g(3,4) unfolding joined_def seating_def by simp
  moreover have "map jn_layer (jp_plan jp) = stack2" using g(3) by (simp add: joined_def)
  ultimately show ?thesis using g(1) v st2 by auto
qed

lemma take_stack_plan:
  assumes "seats_planned avail stack prefer jp0 stack2 ps" "jp = add_cursor cp cursor jp0"
  shows "take (length stack) (jp_plan jp) = jp_plan jp0 \<and> length (jp_plan jp0) = length stack"
proof -
  obtain order where r: "reordered stack order jp0 stack2" "joined (jp_plan jp0) stack2 ps"
    using assms(1) by (auto simp: seats_planned_def)
  have "length stack = length (jp_plan jp0)"
    using joined_nth(1) [OF r(2)] r(1) perm_upt(2) by (auto simp: reordered_def simp del: mset_upt)
  then show ?thesis
    unfolding assms(2) by (simp add: add_cursor_def emplace_def split: option.splits)
qed

lemma plan_merge_is_run:
  assumes "CreateLayerToPlaneJoiningPlan usable stack cursor prefer = Some jp"
    and "block (map pl_merging (fst usable))"
  shows "block (map (pl_merging \<circ> jn_plane) (take (length stack) (jp_plan jp)))"
proof -
  let ?avail = "queue_of prefer (fst usable)"
  obtain jp0 stack2 ps where c: "jp = add_cursor (snd usable) cursor jp0"
    and p: "seats_planned ?avail stack prefer jp0 stack2 ps"
    using Create_planned [OF assms(1)] by blast
  note t = take_stack_plan [OF p c]
  show ?thesis
  proof (cases "jp_steering jp0 = kSteered")
    case True
    then have "steered_as ?avail stack (steer_width ?avail (length stack) prefer) jp0 stack2"
      using p by (simp add: seats_planned_def)
    from steered_flags [OF this] show ?thesis
      unfolding block_def using t map_in_run by fastforce
  next
    case False
    have "map (pl_merging \<circ> jn_plane) (jp_plan jp0) = map pl_merging ps"
      using p unfolding seats_planned_def joined_def by auto
    moreover have "subseq (map pl_merging ps) (map pl_merging ?avail)"
      using p False by (simp add: seats_planned_def subseq_map)
    moreover have "block (map pl_merging ?avail)"
      using assms(2) block_stable_partition [of pl_merging "fst usable"] by (simp add: queue_of_def)
    ultimately show ?thesis using t block_subseq by metis
  qed
qed

text \<open>the merged layers are one run of the stack. When the merging planes stand together among those
  offered, wherever they stand, the layers placed on them stand together in the plan, by either
  way of seating: the one buffer they are drawn into has one place in the stack.\<close>

theorem Create_merge_is_run:
  assumes "CreateLayerToPlaneJoiningPlan usable stack cursor prefer = Some jp"
    and "block (map pl_merging (fst usable))"
  shows "block (map (pl_merging \<circ> jn_plane) (take (length stack) (jp_plan jp)))"
  by (rule plan_merge_is_run [OF assms])

text \<open>the walk over the planes is a complete judge. A run is called seatable exactly when there is
  some way to give its members merging planes and every other layer an ordinary one, each plane at
  most once and each class in the order it is offered: taking always the first plane that fits
  never misses a seating.\<close>

theorem seatable_iff:
  "seatable avail stack run_len begin_at \<longleftrightarrow>
     (\<exists>ps. seating (in_run begin_at run_len) 0 avail avail stack ps)"
proof
  show "\<exists>ps. seating (in_run begin_at run_len) 0 avail avail stack ps" if "seatable avail stack run_len begin_at"
    using that by (auto simp: seatable_def dest: seat_walk_sound)
  show "seatable avail stack run_len begin_at" if "\<exists>ps. seating (in_run begin_at run_len) 0 avail avail stack ps"
    using that seat_walk_complete unfolding seatable_def by blast
qed

lemma counts_mset: "mset a = mset b \<Longrightarrow> merging_count a = merging_count b \<and> ordinary_count a = ordinary_count b"
  unfolding merging_count_def ordinary_count_def by (metis mset_filter size_mset)

lemma steer_width_queue [simp]: "steer_width (queue_of prefer avail) n prefer = steer_width avail n prefer"
  using counts_mset [of "queue_of prefer avail" avail] by (cases "prefer") (simp_all add: steer_width_def)

lemma filter_run:
  assumes "map P xs = map (in_run c w) [0..<length xs]" "c + w \<le> length xs"
  shows "filter P xs = take w (drop c xs)"
proof -
  have P: "P (xs ! i) = in_run c w i" if "i < length xs" for i
  proof -
    have "map P xs ! i = map (in_run c w) [0..<length xs] ! i" using assms(1) by simp
    then show ?thesis using that by simp
  qed
  have "xs = take c xs @ take w (drop c xs) @ drop (c + w) xs"
    by (metis append_take_drop_id drop_drop add.commute)
  moreover have "filter P (take c xs) = []" "filter P (drop (c + w) xs) = []"
    using P assms(2) by (auto simp: filter_empty_conv in_set_conv_nth in_run_def)
  moreover have "filter P (take w (drop c xs)) = take w (drop c xs)"
    using P assms(2) by (auto simp: filter_id_conv in_set_conv_nth in_run_def)
  ultimately show ?thesis by (metis append_Nil append_Nil2 filter_append)
qed

lemma choose_no_worse:
  assumes "ChooseMergeGroup ms w = Some g" "b + w \<le> length ms"
    "\<forall>j\<in>{b..<b + w}. gm_turn (ms ! j) = gm_turn (ms ! b)"
  shows "gc_live g \<le> count_live ms [b..<b + w]"
proof -
  have "b \<in> set [0..<length ms - w + 1]" using assms(2) by auto
  from fold_From_run [OF this choose_width [OF assms(1)] assms(2,3), of "\<lparr>se_steps = kSteps, se_best = None\<rparr>"]
  show ?thesis
    using assms(1) by (auto simp: ChooseMergeGroup_def reached_def no_worse_def split: if_splits)
qed

definition drawing :: "layer_data list \<Rightarrow> nat" where
  "drawing ls = sum_list (map ld_live1 ls)"

lemma count_live_drawing:
  "set is \<subseteq> {..<length stack} \<Longrightarrow> count_live (map member_of stack) is = drawing (map ((!) stack) is)"
  by (induction "is") (simp_all add: count_live_def drawing_def live1_def ld_live1_def member_of_def)

definition merged_of :: "joining list \<Rightarrow> joining list" where
  "merged_of js = filter (pl_merging \<circ> jn_plane) js"

text \<open>C34: the steering is as good as it says. In a steered plan exactly the asked number of layers is
  merged, and among them no more are drawing than in any contiguous run of that width the engine
  could have taken: lowering a layer never makes the merge busier.\<close>

theorem Create_steered_quiet:
  assumes "CreateLayerToPlaneJoiningPlan usable stack cursor prefer = Some jp" "jp_steering jp = kSteered"
    and w: "w = steer_width (fst usable) (length stack) prefer"
    and run: "b + w \<le> length stack" "\<forall>j\<in>{b..<b + w}. SharesTurn (ld_turn (stack ! j)) (ld_turn (stack ! b))"
  shows "length (merged_of (take (length stack) (jp_plan jp))) = w \<and>
    drawing (map jn_layer (merged_of (take (length stack) (jp_plan jp)))) \<le> drawing (take w (drop b stack))"
proof -
  obtain jp0 stack2 ps where c: "jp = add_cursor (snd usable) cursor jp0"
    and p: "seats_planned (queue_of prefer (fst usable)) stack prefer jp0 stack2 ps"
    using Create_planned [OF assms(1)] by blast
  have "jp_steering jp0 = kSteered" using assms(2) c by simp
  then have sa: "steered_as (queue_of prefer (fst usable)) stack w jp0 stack2"
    using p w by (simp add: seats_planned_def)
  obtain g where g: "ChooseMergeGroup (map member_of stack) w = Some g" "gc_begin g + w \<le> length stack"
    "map jn_layer (jp_plan jp0) = map ((!) stack) (gc_order g)"
    "map (pl_merging \<circ> jn_plane) (jp_plan jp0) = map (in_run (gc_begin g) w) [0..<length stack]"
    using steered_flags [OF sa] by blast
  have v: "valid_choice (map member_of stack) w g" using g(1) by (rule choose_valid)
  note t = take_stack_plan [OF p c]
  have m: "merged_of (take (length stack) (jp_plan jp)) = take w (drop (gc_begin g) (jp_plan jp0))"
    unfolding merged_of_def using t g(2,4) by (simp add: filter_run)
  have grp: "group_of g = take w (drop (gc_begin g) (gc_order g))" using v by (simp add: group_of_def valid_choice_def)
  have "map jn_layer (take w (drop (gc_begin g) (jp_plan jp0))) = map ((!) stack) (group_of g)"
    by (simp add: grp take_map [symmetric] drop_map [symmetric] g(3))
  moreover have "set (group_of g) \<subseteq> {..<length stack}"
    using v perm_upt(1) [of "gc_order g" "length (map member_of stack)"] set_take_subset set_drop_subset
    unfolding grp valid_choice_def by (metis length_map subset_trans)
  ultimately have "drawing (map jn_layer (take w (drop (gc_begin g) (jp_plan jp0)))) = gc_live g"
    using v count_live_drawing [of "group_of g" stack] by (simp add: valid_choice_def)
  moreover have "gc_live g \<le> count_live (map member_of stack) [b..<b + w]"
    using run choose_no_worse [OF g(1), of b]
    by (auto simp: member_of_def turn_code_iff)
  moreover have "count_live (map member_of stack) [b..<b + w] = drawing (map ((!) stack) [b..<b + w])"
    using run(1) by (intro count_live_drawing) auto
  moreover have "map ((!) stack) [b..<b + w] = take w (drop b stack)"
    using run(1) by (intro nth_equalityI) simp_all
  ultimately show ?thesis using t g(2) unfolding m by simp
qed

subsection \<open>A drawing bar between two quiet ones\<close>

text \<open>Three layers that touch nowhere, an ordinary window and two seats of the merge. With the window
  taking everything, the drawing layer is lowered and shown by it; with a window that refuses the
  drawing layer the seating is refused after the stack has been reordered.\<close>

definition bar :: "nat \<Rightarrow> bool \<Rightarrow> int \<Rightarrow> layer_data" where
  "bar serial live top_edge = (hl_data (hl_new serial))\<lparr>ld_live := live,
     ld_pi := pi_init\<lparr>pi_display_frame := Some (mk_rect 0 top_edge 100 (top_edge + 10))\<rparr>\<rparr>"

definition bars :: "layer_data list" where
  "bars = [bar 1 False 0, bar 2 True 50, bar 3 False 90]"

definition bar_planes :: "(layer_data \<Rightarrow> bool) \<Rightarrow> plane list" where
  "bar_planes takes = [\<lparr>pl_id = 0, pl_merging = False, pl_valid = takes\<rparr>,
     \<lparr>pl_id = 1, pl_merging = True, pl_valid = (\<lambda>_. True)\<rparr>,
     \<lparr>pl_id = 1, pl_merging = True, pl_valid = (\<lambda>_. True)\<rparr>]"

definition anything :: "layer_data \<Rightarrow> bool" where "anything l = True"
definition only_quiet :: "layer_data \<Rightarrow> bool" where "only_quiet l = (\<not> ld_live l)"

lemma bars_plan:
  "map_option (\<lambda>jp. (map (ld_serial \<circ> jn_layer) (jp_plan jp), map (pl_id \<circ> jn_plane) (jp_plan jp),
       jp_steering jp, jp_rank_of_input jp))
     (CreateLayerToPlaneJoiningPlan (bar_planes anything, None) bars None False) =
   Some ([2, 1, 3], [0, 1, 1], kSteered, [1, 0, 2])"
  by code_simp

text \<open>The seating is refused, the first fit takes over, and the stack it places is the reordered one.\<close>

lemma refused_after_reorder:
  "map_option (\<lambda>jp. (map (ld_serial \<circ> jn_layer) (jp_plan jp), map (pl_id \<circ> jn_plane) (jp_plan jp),
       jp_steering jp, jp_rank_of_input jp))
     (CreateLayerToPlaneJoiningPlan (bar_planes only_quiet @ [\<lparr>pl_id = 1, pl_merging = True, pl_valid = anything\<rparr>], None)
        bars None False) =
   Some ([2, 1, 3], [1, 1, 1], kSeatRefused, [1, 0, 2])"
  by code_simp

definition bars_jp :: joining_plan where
  "bars_jp = the (CreateLayerToPlaneJoiningPlan (bar_planes anything, None) bars None False)"

lemma bars_jp: "CreateLayerToPlaneJoiningPlan (bar_planes anything, None) bars None False = Some bars_jp"
  "jp_steering bars_jp = kSteered"
  using bars_plan by (auto simp: bars_jp_def)

lemma bars_facts: "length bars = 3" "2 = steer_width (fst (bar_planes anything, None :: plane option)) (length bars) False"
  "block (map pl_merging (fst (bar_planes anything, None :: plane option)))"
  "\<forall>j\<in>{0..<0 + 2}. SharesTurn (ld_turn (bars ! j)) (ld_turn (bars ! 0))"
proof -
  show "length bars = 3" "2 = steer_width (fst (bar_planes anything, None :: plane option)) (length bars) False"
    by (simp_all add: bars_def steer_width_def ordinary_count_def bar_planes_def)
  have "map pl_merging (bar_planes anything) = replicate 1 False @ replicate 2 True @ replicate 0 False"
    by (simp add: bar_planes_def numeral_2_eq_2)
  then show "block (map pl_merging (fst (bar_planes anything, None :: plane option)))"
    unfolding block_def fst_conv by blast
  have "SharesTurn (ld_turn (bar a x y)) (ld_turn (bar c z u))" for a x y c z u
    by (simp add: bar_def ld_turn_def SharesTurn_def)
  then show "\<forall>j\<in>{0..<0 + 2}. SharesTurn (ld_turn (bars ! j)) (ld_turn (bars ! 0))"
    by (auto simp: bars_def less_2_cases_iff numeral_2_eq_2 less_Suc_eq)
qed

theorem Create_shows_each_once_witness:
  "\<exists>order. mset order = mset [0..<3] \<and> map jn_layer (jp_plan bars_jp) = map ((!) bars) order \<and>
     (\<forall>i<3. \<exists>r<3. RankOf bars_jp (int i) = int r \<and> order ! r = i)"
  using Create_shows_each_once [OF bars_jp(1)] unfolding bars_facts(1) by auto

theorem Create_planes_sound_witness:
  "list_all (\<lambda>j. pl_valid (jn_plane j) (jn_layer j)) (jp_plan bars_jp) \<and> one_turn (take 3 (jp_plan bars_jp))"
  using Create_planes_sound [OF bars_jp(1)] unfolding bars_facts(1) by blast

theorem Create_merge_is_run_witness:
  "block (map (pl_merging \<circ> jn_plane) (take 3 (jp_plan bars_jp)))"
  using Create_merge_is_run [OF bars_jp(1) bars_facts(3)] unfolding bars_facts(1) .

theorem Create_steered_quiet_witness:
  "length (merged_of (take 3 (jp_plan bars_jp))) = 2 \<and>
   drawing (map jn_layer (merged_of (take 3 (jp_plan bars_jp)))) \<le> 1"
proof -
  have "drawing (take 2 (drop 0 bars)) = 1" by (simp add: bars_def drawing_def bar_def ld_live1_def numeral_2_eq_2)
  moreover have "0 + 2 \<le> length bars" by (simp add: bars_facts(1))
  ultimately show ?thesis
    using Create_steered_quiet [OF bars_jp bars_facts(2) _ bars_facts(4)] unfolding bars_facts(1) by simp
qed

end
