(* ===== verification/Planes.thy ===== *)
theory Planes
  imports Seating
begin

text \<open>
  tegra/CursorPlane and TegraDisplayPipeline::GetUsablePlanes: which planes a display offers, in
  which order and how often, and what the cursor's unit takes. With the seating of the plan this says
  which windows of the controller a plan uses.
\<close>

subsection \<open>The cursor unit\<close>

definition kPlaneId :: nat where "kPlaneId = 4294967295"
definition kMaxSide :: int where "kMaxSide = 256"

text \<open>\<open>lroundf\<close>: to the nearest whole number, halves away from zero. Of a number that is not finite the
  result is unspecified in C; it is nought here.\<close>

fun f32_lround :: "f32 \<Rightarrow> int" where
  "f32_lround (Fin a) = (if 0 \<le> a then \<lfloor>a + 1 / 2\<rfloor> else - \<lfloor>1 / 2 - a\<rfloor>)"
| "f32_lround _ = 0"

definition sprite_fits :: "present_info \<Rightarrow> buffer_info \<Rightarrow> irect \<Rightarrow> bool" where
  "sprite_fits p bi frame =
     (let width = rwidth frame; height = rheight frame;
          src_w = (case pi_source_crop p of Some r \<Rightarrow> fwidth r | None \<Rightarrow> f32_of_int (int (bf_width bi)));
          src_h = (case pi_source_crop p of Some r \<Rightarrow> fheight r | None \<Rightarrow> f32_of_int (int (bf_height bi)))
      in if width \<le> 0 \<or> height \<le> 0 \<or> width > kMaxSide \<or> height > kMaxSide then False
         else \<not> (\<bar>f32_lround src_w - width\<bar> > 1 \<or> \<bar>f32_lround src_h - height\<bar> > 1))"

definition cursor_takes :: "headers \<Rightarrow> layer_data \<Rightarrow> bool" where
  "cursor_takes hs l = (case ld_bi l of
     None \<Rightarrow> False
   | Some bi \<Rightarrow>
       if bf_handle bi = 0 then False
       else if hd_drm hs (bf_format bi) \<noteq> ABGR8888 then False
       else if bf_blend_mode bi = BmCoverage \<or> f32_less (pi_alpha (ld_pi l)) (Fin 1) then False
       else if is_turned (pi_transform (ld_pi l)) then False
       else case pi_display_frame (ld_pi l) of
         None \<Rightarrow> False
       | Some frame \<Rightarrow> sprite_fits (ld_pi l) bi frame)"

definition cursor_seat :: "headers \<Rightarrow> plane" where
  "cursor_seat hs = \<lparr>pl_id = kPlaneId, pl_merging = False, pl_valid = cursor_takes hs\<rparr>"

subsection \<open>The planes of a display\<close>

text \<open>What the pipeline has besides its windows: the engine with somewhere to write
  (\<open>mVic && mScratch\<close>), the property \<open>persist.vendor.hwc.merge\<close> read once, the cursor unit, and whether
  the unit's plane binds.\<close>

record pipeline =
  pp_windows :: "nat list"
  pp_caps :: "nat \<Rightarrow> window_caps option"
  pp_engine :: bool
  pp_merge_offered :: bool
  pp_cursor_unit :: bool
  pp_cursor_binds :: bool
  pp_planes :: "tegra_plane list"

definition kMaxLayers :: nat where "kMaxLayers = 5"

definition new_plane :: "nat \<Rightarrow> window_caps \<Rightarrow> tegra_plane" where
  "new_plane i c = \<lparr>tp_index = i, tp_caps = c, tp_merging = False\<rparr>"

definition planes_of_window :: "bool \<Rightarrow> nat \<Rightarrow> window_caps \<Rightarrow> tegra_plane list" where
  "planes_of_window engine i c =
     new_plane i c # (if engine \<and> wc_pitch c \<and> \<not> wc_scaling c
                      then replicate (kMaxLayers - 1) (new_plane i c) else [])"

definition planes_at :: "pipeline \<Rightarrow> nat \<Rightarrow> tegra_plane list" where
  "planes_at pp i = (case pp_caps pp i of None \<Rightarrow> [] | Some c \<Rightarrow> planes_of_window (pp_engine pp) i c)"

definition make_planes :: "pipeline \<Rightarrow> tegra_plane list" where
  "make_planes pp = concat (map (planes_at pp) (pp_windows pp))"

text \<open>One turn of the loop: a plane that does not bind is passed over.\<close>

definition marked :: "pipeline \<Rightarrow> tegra_plane \<Rightarrow> tegra_plane" where
  "marked pp p = (if pp_merge_offered pp \<and> IsCursorCandidate p \<and> pp_engine pp then SetMerging p else p)"

definition offer :: "pipeline \<Rightarrow> tegra_plane \<Rightarrow> tegra_plane list \<times> tegra_plane option \<Rightarrow>
    tegra_plane list \<times> tegra_plane option" where
  "offer pp p u =
     (if \<not> IsCursorCandidate p \<or> tp_merging p \<or> pp_cursor_unit pp then (fst u @ [p], snd u)
      else if snd u = None then (fst u, Some p) else u)"

fun offer_all :: "pipeline \<Rightarrow> (nat \<Rightarrow> bool) \<Rightarrow> nat \<Rightarrow> tegra_plane list \<Rightarrow>
    tegra_plane list \<times> tegra_plane option \<Rightarrow> tegra_plane list \<times> tegra_plane list \<times> tegra_plane option" where
  "offer_all pp binds k [] u = ([], u)"
| "offer_all pp binds k (p # ps) u =
     (if \<not> binds k then (case offer_all pp binds (Suc k) ps u of (qs, v) \<Rightarrow> (p # qs, v))
      else (case offer_all pp binds (Suc k) ps (offer pp (marked pp p) u) of (qs, v) \<Rightarrow> (marked pp p # qs, v)))"

definition as_plane :: "headers \<Rightarrow> tegra_plane \<Rightarrow> plane" where
  "as_plane hs p = \<lparr>pl_id = tp_index p, pl_merging = tp_merging p, pl_valid = IsValidForLayer hs p\<rparr>"

definition GetUsablePlanes :: "headers \<Rightarrow> (nat \<Rightarrow> bool) \<Rightarrow> pipeline \<Rightarrow> (plane list \<times> plane option) \<times> pipeline" where
  "GetUsablePlanes hs binds pp =
     (let planes = (if pp_planes pp = [] then make_planes pp else pp_planes pp);
          (planes2, usable, second) = offer_all pp binds 0 planes ([], None);
          seat = map_option (as_plane hs) second;
          seat2 = (if pp_cursor_unit pp \<and> seat = None \<and> pp_cursor_binds pp then Some (cursor_seat hs) else seat)
      in ((map (as_plane hs) usable, seat2), pp\<lparr>pp_planes := planes2\<rparr>))"

subsection \<open>What is offered\<close>

lemma marked_simps [simp]:
  "tp_index (marked pp p) = tp_index p" "tp_caps (marked pp p) = tp_caps p"
  "marked pp (marked pp p) = marked pp p"
  "IsCursorCandidate (marked pp p) = IsCursorCandidate p"
  by (simp_all add: marked_def SetMerging_def IsCursorCandidate_def)

lemma as_plane_simps [simp]:
  "pl_id (as_plane hs p) = tp_index p" "pl_merging (as_plane hs p) = tp_merging p"
  by (simp_all add: as_plane_def)

text \<open>The planes kept between askings are those first made, some of them marked.\<close>

definition planes_kept :: "pipeline \<Rightarrow> bool" where
  "planes_kept pp \<longleftrightarrow> pp_planes pp = [] \<or> map (marked pp) (pp_planes pp) = map (marked pp) (make_planes pp)"

lemma offer_all_marked: "map (marked pp) (fst (offer_all pp binds k ps u)) = map (marked pp) ps"
  by (induction ps arbitrary: k u) (simp_all add: case_prod_beta)

lemma offer_all_usable:
  "\<exists>us. fst (snd (offer_all pp binds k ps u)) = fst u @ us \<and> subseq us (map (marked pp) ps)"
proof (induction ps arbitrary: k u)
  case (Cons p ps)
  show ?case
  proof (cases "binds k")
    case True
    obtain us where us: "fst (snd (offer_all pp binds (Suc k) ps (offer pp (marked pp p) u))) = fst (offer pp (marked pp p) u) @ us"
      "subseq us (map (marked pp) ps)" using Cons.IH by blast
    consider "fst (offer pp (marked pp p) u) = fst u @ [marked pp p]" | "fst (offer pp (marked pp p) u) = fst u"
    proof -
      have "fst (offer pp (marked pp p) u) = fst u @ [marked pp p] \<or> fst (offer pp (marked pp p) u) = fst u"
        by (simp add: offer_def)
      then show thesis
        if "fst (offer pp (marked pp p) u) = fst u @ [marked pp p] \<Longrightarrow> thesis"
          "fst (offer pp (marked pp p) u) = fst u \<Longrightarrow> thesis" for thesis
        using that by blast
    qed
    then show ?thesis
    proof cases
      case 1
      then show ?thesis using us True by (intro exI [of _ "marked pp p # us"]) (simp add: case_prod_beta)
    next
      case 2
      then show ?thesis using us True by (intro exI [of _ us]) (simp add: case_prod_beta list_emb_Cons)
    qed
  next
    case False
    then show ?thesis using Cons.IH [of "Suc k" u] by (auto simp: case_prod_beta intro: list_emb_Cons)
  qed
qed simp

lemma GetUsablePlanes_offered:
  assumes "GetUsablePlanes hs binds pp = (usable, pp2)" "planes_kept pp"
  shows "planes_kept pp2 \<and> pp_windows pp2 = pp_windows pp \<and> pp_caps pp2 = pp_caps pp \<and>
    (\<exists>us. fst usable = map (as_plane hs) us \<and> subseq us (map (marked pp) (make_planes pp)))"
proof -
  define planes where "planes = (if pp_planes pp = [] then make_planes pp else pp_planes pp)"
  let ?r = "offer_all pp binds 0 planes ([], None)"
  have m: "map (marked pp) planes = map (marked pp) (make_planes pp)"
    using assms(2) by (auto simp: planes_def planes_kept_def)
  have "fst usable = map (as_plane hs) (fst (snd ?r))" and pp2: "pp2 = pp\<lparr>pp_planes := fst ?r\<rparr>"
    using assms(1) by (auto simp: GetUsablePlanes_def Let_def planes_def case_prod_beta)
  moreover obtain us where "fst (snd ?r) = us" "subseq us (map (marked pp) planes)"
    using offer_all_usable [of pp binds 0 planes "([], None)"] by auto
  moreover have "make_planes pp2 = make_planes pp" "marked pp2 = marked pp"
    by (simp_all add: pp2 make_planes_def planes_at_def [abs_def] marked_def fun_eq_iff cong: option.case_cong)
  then have "planes_kept pp2"
    using offer_all_marked [of pp binds 0 planes "([], None)"] m by (simp add: planes_kept_def pp2)
  ultimately show ?thesis using m by (auto simp: pp2)
qed

subsection \<open>One window merges, the others show one layer each\<close>

definition narrow :: "window_caps \<Rightarrow> bool" where
  "narrow c \<longleftrightarrow> \<not> wc_blocklinear c \<and> \<not> wc_scaling c"

text \<open>What is assumed of a head: its windows are listed once, no more than one of them is narrow, and
  only the narrow one is offered over and over.\<close>

definition head_ok :: "pipeline \<Rightarrow> bool" where
  "head_ok pp \<longleftrightarrow> distinct (pp_windows pp) \<and>
     (\<forall>i j c d. i \<in> set (pp_windows pp) \<longrightarrow> j \<in> set (pp_windows pp) \<longrightarrow> pp_caps pp i = Some c \<longrightarrow>
        pp_caps pp j = Some d \<longrightarrow> narrow c \<longrightarrow> narrow d \<longrightarrow> i = j) \<and>
     (\<forall>i c. pp_caps pp i = Some c \<longrightarrow> wc_pitch c \<longrightarrow> \<not> wc_scaling c \<longrightarrow> \<not> wc_blocklinear c) \<and>
     (pp_engine pp \<longrightarrow> pp_merge_offered pp)"

definition window_planes :: "pipeline \<Rightarrow> nat \<Rightarrow> tegra_plane list" where
  "window_planes pp i = (case pp_caps pp i of None \<Rightarrow> [] | Some c \<Rightarrow>
     map (marked pp) (planes_of_window (pp_engine pp) i c))"

lemma made: "map (marked pp) (make_planes pp) = concat (map (window_planes pp) (pp_windows pp))"
proof -
  have "map (marked pp) (concat (map f is)) = concat (map (\<lambda>i. map (marked pp) (f i)) is)" for f and "is" :: "nat list"
    by (induction "is") simp_all
  then show ?thesis
    unfolding make_planes_def planes_at_def window_planes_def by (auto intro!: arg_cong [of _ _ concat] split: option.splits)
qed

definition merges :: "pipeline \<Rightarrow> nat \<Rightarrow> bool" where
  "merges pp i \<longleftrightarrow> pp_merge_offered pp \<and> pp_engine pp \<and> (\<exists>c. pp_caps pp i = Some c \<and> narrow c)"

lemma window_planes_one:
  assumes "head_ok pp" "i \<in> set (pp_windows pp)"
  shows "list_all (\<lambda>p. tp_index p = i \<and> tp_merging p = merges pp i) (window_planes pp i) \<and>
    length (window_planes pp i) \<le> (if merges pp i then kMaxLayers else 1)"
proof (cases "pp_caps pp i")
  case (Some c)
  have "wc_pitch c \<Longrightarrow> \<not> wc_scaling c \<Longrightarrow> narrow c" "pp_engine pp \<Longrightarrow> pp_merge_offered pp"
    using assms Some by (auto simp: head_ok_def narrow_def)
  then show ?thesis
    using Some by (auto simp: window_planes_def planes_of_window_def merges_def marked_def SetMerging_def
        IsCursorCandidate_def new_plane_def narrow_def kMaxLayers_def list_all_iff)
qed (simp add: window_planes_def)

lemma merges_unique:
  "head_ok pp \<Longrightarrow> i \<in> set (pp_windows pp) \<Longrightarrow> j \<in> set (pp_windows pp) \<Longrightarrow> merges pp i \<Longrightarrow> merges pp j \<Longrightarrow> i = j"
  unfolding head_ok_def merges_def by blast

text \<open>Over the windows of the head: the ordinary planes are of different windows, the merging ones of one,
  they stand together, and there are no more of them than the engine draws in a pass.\<close>

definition sound_offer :: "nat list \<Rightarrow> tegra_plane list \<Rightarrow> bool" where
  "sound_offer ws ps \<longleftrightarrow> set (map tp_index ps) \<subseteq> set ws \<and>
     distinct (map tp_index (filter (Not \<circ> tp_merging) ps)) \<and>
     block (map tp_merging ps) \<and> length (filter tp_merging ps) \<le> kMaxLayers"

lemma block_all_False: "\<forall>b\<in>set bs. \<not> b \<Longrightarrow> \<exists>n. bs = replicate n False"
  using replicate_length_same [of bs False] by metis

lemma ordinary_windows:
  assumes "head_ok pp" "set ws \<subseteq> set (pp_windows pp)" "distinct ws" "\<forall>i\<in>set ws. \<not> merges pp i"
  shows "(\<forall>p\<in>set (concat (map (window_planes pp) ws)). \<not> tp_merging p \<and> tp_index p \<in> set ws) \<and>
    distinct (map tp_index (concat (map (window_planes pp) ws)))"
  using assms(2-4)
proof (induction ws)
  case (Cons i ws)
  have i: "list_all (\<lambda>p. tp_index p = i \<and> \<not> tp_merging p) (window_planes pp i)" "length (window_planes pp i) \<le> 1"
    using window_planes_one [OF assms(1), of i] Cons.prems by auto
  then have "distinct (map tp_index (window_planes pp i))"
    by (cases "window_planes pp i") simp_all
  moreover have "tp_index p \<in> set ws \<and> \<not> tp_merging p" if "p \<in> set (concat (map (window_planes pp) ws))" for p
    using Cons that by auto
  ultimately show ?case using Cons i by (fastforce simp: list_all_iff)
qed simp

lemma offered_windows:
  assumes h: "head_ok pp"
  shows "sound_offer (pp_windows pp) (concat (map (window_planes pp) (pp_windows pp)))"
proof (cases "\<exists>i\<in>set (pp_windows pp). merges pp i")
  case False
  have d: "distinct (pp_windows pp)" using h by (simp add: head_ok_def)
  let ?ps = "concat (map (window_planes pp) (pp_windows pp))"
  have o: "\<forall>p\<in>set ?ps. \<not> tp_merging p \<and> tp_index p \<in> set (pp_windows pp)" "distinct (map tp_index ?ps)"
    using ordinary_windows [OF h subset_refl d] False by blast+
  have "filter (Not \<circ> tp_merging) ?ps = ?ps" "filter tp_merging ?ps = []"
    using o(1) by (simp_all add: filter_id_conv filter_empty_conv del: set_concat)
  moreover obtain n where "map tp_merging ?ps = replicate n False"
    using block_all_False [of "map tp_merging ?ps"] o(1) by auto
  then have "block (map tp_merging ?ps)" unfolding block_def by (metis append_Nil replicate_0)
  ultimately show ?thesis using o by (auto simp: sound_offer_def simp del: set_concat)
next
  case True
  then obtain i where i: "i \<in> set (pp_windows pp)" "merges pp i" by blast
  then obtain as bs where w: "pp_windows pp = as @ i # bs" by (meson split_list)
  have d: "distinct (as @ i # bs)" using h w by (simp add: head_ok_def)
  have no: "\<not> merges pp j" if "j \<in> set as \<union> set bs" for j
    using merges_unique [OF h, of i j] i that d w by auto
  let ?f = "\<lambda>ws. concat (map (window_planes pp) ws)"
  have as: "\<forall>p\<in>set (?f as). \<not> tp_merging p \<and> tp_index p \<in> set as" "distinct (map tp_index (?f as))"
    using ordinary_windows [OF h, of as] d w no by auto
  have bs: "\<forall>p\<in>set (?f bs). \<not> tp_merging p \<and> tp_index p \<in> set bs" "distinct (map tp_index (?f bs))"
    using ordinary_windows [OF h, of bs] d w no by auto
  have m: "\<forall>p\<in>set (window_planes pp i). tp_merging p \<and> tp_index p = i" "length (window_planes pp i) \<le> kMaxLayers"
    using window_planes_one [OF h i(1)] i(2) by (simp_all add: list_all_iff)
  have f: "filter (Not \<circ> tp_merging) (?f as) = ?f as" "filter (Not \<circ> tp_merging) (?f bs) = ?f bs"
    "filter tp_merging (?f as) = []" "filter tp_merging (?f bs) = []"
    "filter (Not \<circ> tp_merging) (window_planes pp i) = []" "filter tp_merging (window_planes pp i) = window_planes pp i"
    using as(1) bs(1) m(1) by (simp_all add: filter_id_conv filter_empty_conv del: set_concat)
  have split: "?f (pp_windows pp) = ?f as @ window_planes pp i @ ?f bs" by (simp add: w)
  obtain a c where ac: "map tp_merging (?f as) = replicate a False" "map tp_merging (?f bs) = replicate c False"
    using block_all_False [of "map tp_merging (?f as)"] block_all_False [of "map tp_merging (?f bs)"] as(1) bs(1) by auto
  have mi: "map tp_merging (window_planes pp i) = replicate (length (window_planes pp i)) True"
    using m(1) by (simp add: map_replicate_const [symmetric])
  have "block (map tp_merging (?f (pp_windows pp)))"
    unfolding split map_append block_def ac mi by blast
  moreover have "distinct (map tp_index (filter (Not \<circ> tp_merging) (?f (pp_windows pp))))"
    unfolding split filter_append f using as bs d by (auto simp del: set_concat)
  moreover have "filter tp_merging (?f (pp_windows pp)) = window_planes pp i"
    unfolding split filter_append f by simp
  moreover have "set (map tp_index (?f (pp_windows pp))) \<subseteq> set (pp_windows pp)"
    unfolding split w using as(1) bs(1) m(1) by (auto simp del: set_concat)
  ultimately show ?thesis using m(2) by (simp add: sound_offer_def del: set_concat)
qed

lemma mset_sub_distinct:
  assumes "mset as \<subseteq># mset bs" "distinct (map f (filter P bs))" shows "distinct (map f (filter P as))"
proof -
  have "mset (map f (filter P as)) \<subseteq># mset (map f (filter P bs))"
    using assms(1) by (simp add: image_mset_subseteq_mono multiset_filter_mono)
  then have "count (mset (map f (filter P as))) x \<le> count (mset (map f (filter P bs))) x" for x
    by (rule mset_subset_eq_count)
  moreover have "count (mset (map f (filter P bs))) x \<le> 1" for x
    using assms(2) by (metis distinct_count_atmost_1 le_refl zero_le)
  ultimately have le: "count (mset (map f (filter P as))) x \<le> 1" for x by (metis le_trans)
  then have "count (mset (map f (filter P as))) x = (if x \<in> set (map f (filter P as)) then 1 else 0)" for x
    using le [of x] by (metis One_nat_def Suc_leI count_mset_0_iff le_antisym neq0_conv)
  then show ?thesis unfolding distinct_count_atmost_1 by blast
qed

lemma sound_offer_subseq:
  assumes "sound_offer ws ps" "subseq qs ps" shows "sound_offer ws qs"
proof -
  have "set (map tp_index qs) \<subseteq> set (map tp_index ps)"
    using set_mset_mono [OF subseq_mset [OF subseq_map [OF assms(2)]]] by simp
  moreover have "distinct (map tp_index (filter (Not \<circ> tp_merging) ps))"
    using assms(1) by (simp add: sound_offer_def)
  then have "distinct (map tp_index (filter (Not \<circ> tp_merging) qs))"
    by (rule mset_sub_distinct [OF subseq_mset [OF assms(2)]])
  moreover have "length (filter tp_merging qs) \<le> length (filter tp_merging ps)"
    by (rule list_emb_length [OF subseq_filter [OF assms(2)]])
  moreover have "block (map tp_merging qs)"
    using block_subseq [OF _ subseq_map [OF assms(2)]] assms(1) by (simp add: sound_offer_def)
  ultimately show ?thesis using assms(1) by (auto simp: sound_offer_def)
qed


subsection \<open>A head of two windows\<close>

definition slim_caps :: window_caps where
  "slim_caps = caps_init\<lparr>wc_formats := 0x2000, wc_max_width := 4000, wc_max_height := 4000, wc_pitch := True\<rparr>"

definition two_caps :: "nat \<Rightarrow> window_caps option" where
  "two_caps i = (if i = 0 then Some win_caps else if i = 2 then Some slim_caps else None)"

definition two_windows :: "bool \<Rightarrow> pipeline" where
  "two_windows merge_offered = \<lparr>pp_windows = [0, 2],
     pp_caps = two_caps,
     pp_engine = True, pp_merge_offered = merge_offered, pp_cursor_unit = True, pp_cursor_binds = True,
     pp_planes = []\<rparr>"

definition always :: "nat \<Rightarrow> bool" where "always k = True"

definition two_usable :: "bool \<Rightarrow> plane list \<times> plane option" where
  "two_usable merge_offered = fst (GetUsablePlanes win_headers always (two_windows merge_offered))"

definition even_data :: layer_data where
  "even_data = win_data\<lparr>ld_pi := win_pi\<lparr>pi_display_frame := Some (mk_rect 0 0 200 200)\<rparr>\<rparr>"

lemma two_planes:
  "two_usable True = (map (as_plane win_headers)
     (new_plane 0 win_caps # replicate 5 (SetMerging (new_plane 2 slim_caps))), Some (cursor_seat win_headers))"
  "two_usable False = (map (as_plane win_headers)
     (new_plane 0 win_caps # replicate 5 (new_plane 2 slim_caps)), Some (cursor_seat win_headers))"
  by (simp_all add: two_usable_def GetUsablePlanes_def Let_def two_windows_def make_planes_def planes_at_def two_caps_def
      planes_of_window_def always_def offer_def marked_def SetMerging_def IsCursorCandidate_def new_plane_def
      win_caps_def slim_caps_def caps_init_def kMaxLayers_def eval_nat_numeral)

lemma two_judged:
  "IsValidForLayer win_headers (new_plane 0 win_caps) win_data"
  "IsValidForLayer win_headers (SetMerging (new_plane 2 slim_caps)) win_data"
  "IsValidForLayer win_headers (new_plane 0 win_caps) even_data"
  "IsValidForLayer win_headers (new_plane 2 slim_caps) even_data"
proof -
  show "IsValidForLayer win_headers (new_plane 0 win_caps) win_data" by code_simp
  show "IsValidForLayer win_headers (SetMerging (new_plane 2 slim_caps)) win_data" by code_simp
  show "IsValidForLayer win_headers (new_plane 0 win_caps) even_data" by code_simp
  show "IsValidForLayer win_headers (new_plane 2 slim_caps) even_data" by code_simp
qed

lemma two_quiet: "\<not> ld_live win_data" "\<not> ld_live even_data" "ld_turn win_data = no_turn"
  by (simp_all add: win_data_def even_data_def hl_new_def ld_turn_def win_pi_def pi_init_def)

lemmas two_eval = CreateLayerToPlaneJoiningPlan_def queue_of_def PlaceSteered_def PlaceFirstFit_def refuse_def
  merging_count_def ordinary_count_def cursor_refused_def add_cursor_def emplace_def suits_def jp_init_def
  SharesTurn_def two_quiet two_judged SetMerging_def as_plane_def new_plane_def eval_nat_numeral

lemma two_plan:
  "map_option (\<lambda>jp. map (pl_id \<circ> jn_plane) (jp_plan jp))
     (CreateLayerToPlaneJoiningPlan (two_usable True) [win_data, win_data, win_data] None False) = Some [0, 2, 2]"
  unfolding two_planes using two_judged by (simp add: two_eval)

text \<open>With the merge switched off by its property while there is an engine and a cursor unit, the copies
  of the narrow window are offered as ordinary planes, and a plan gives that window two layers.\<close>

lemma copies_without_merge:
  "map_option (\<lambda>jp. map (\<lambda>j. (pl_id (jn_plane j), pl_merging (jn_plane j))) (jp_plan jp))
     (CreateLayerToPlaneJoiningPlan (two_usable False) [even_data, even_data, even_data] None False) =
   Some [(0, False), (2, False), (2, False)]"
  unfolding two_planes using two_judged by (simp add: two_eval)

definition two_jp :: joining_plan where
  "two_jp = the (CreateLayerToPlaneJoiningPlan (two_usable True) [win_data, win_data, win_data] None False)"


end
