(* ===== verification/ImageCache.thy ===== *)
theory ImageCache
  imports OrderedMap "HOL-Library.Product_Lexorder"
begin

text \<open>
  vk/CacheBudget.h and vk/ImageCache: buffers of other processes kept as images of the GPU, within a
  budget, and destroyed only when no frame in flight can read them. What the driver and the system
  answer is an argument of the operation; the calls made on them are a trace, the field \<open>ic_calls\<close>.
\<close>

unbundle bit_operations_syntax

subsection \<open>The budget\<close>

record cache_budget =
  bg_most_entries :: nat
  bg_most_bytes :: nat

definition cache_budget_init :: cache_budget where
  "cache_budget_init = \<lparr>bg_most_entries = 64, bg_most_bytes = 128 * 1048576\<rparr>"

definition Over :: "cache_budget \<Rightarrow> nat \<Rightarrow> nat \<Rightarrow> nat \<Rightarrow> bool" where
  "Over b entries byts adding \<longleftrightarrow>
     wrap_size (int entries + 1) > bg_most_entries b \<or> wrap_size (int byts + int adding) > bg_most_bytes b"

definition better :: "nat list \<Rightarrow> nat \<Rightarrow> nat \<Rightarrow> nat option \<Rightarrow> nat option" where
  "better uses protect_from i victim =
     (if uses ! i \<ge> protect_from then victim
      else case victim of None \<Rightarrow> Some i | Some v \<Rightarrow> if uses ! i < uses ! v then Some i else Some v)"

definition PickVictim :: "nat list \<Rightarrow> nat \<Rightarrow> nat option" where
  "PickVictim uses protect_from = fold (better uses protect_from) [0..<length uses] None"

subsection \<open>The entries\<close>

text \<open>A handle is its descriptors and integers; the pointer it arrives under is the key. Images, views,
  framebuffers and copied handles are known by numbers.\<close>

record native_handle =
  nh_num_fds :: int
  nh_num_ints :: int
  nh_data :: "32 word list"

record image_entry =
  ie_image :: "nat option"
  ie_view :: "nat option"
  ie_framebuffer :: "nat option"
  ie_hash :: "32 word"
  ie_inode :: nat
  ie_last_frame :: nat
  ie_last_use :: nat
  ie_owner :: nat
  ie_bytes :: nat
  ie_copy :: "nat option"
  ie_hold :: "nat option"
  ie_drawn :: bool

datatype call = MadeImage nat | MadeView nat | MadeFramebuffer nat | MadeHandle nat
  | GoneImage nat | GoneView nat | GoneFramebuffer nat | GoneHandle nat

type_synonym key = "nat \<times> bool"

record image_cache =
  ic_budget :: cache_budget
  ic_entries :: "(key, image_entry) omap"
  ic_set_aside :: "image_entry list"
  ic_bytes :: nat
  ic_tick :: nat
  ic_frame_start :: nat
  ic_calls :: "call list"

definition ic_init :: image_cache where
  "ic_init = \<lparr>ic_budget = cache_budget_init, ic_entries = [], ic_set_aside = [], ic_bytes = 0, ic_tick = 0,
     ic_frame_start = 0, ic_calls = []\<rparr>"

definition hash_step :: "32 word \<Rightarrow> 32 word \<Rightarrow> 32 word" where
  "hash_step d h = (h XOR d) * 16777619"

definition HashHandle :: "native_handle \<Rightarrow> 32 word" where
  "HashHandle h = fold hash_step (take (nat (nh_num_fds h + nh_num_ints h)) (nh_data h)) 2166136261"

text \<open>The inode of the first descriptor; \<open>fstat\<close> answers None when it fails.\<close>

definition InodeOf :: "native_handle \<Rightarrow> nat option \<Rightarrow> nat" where
  "InodeOf h stat = (if nh_num_fds h \<le> 0 then 0 else case stat of None \<Rightarrow> 0 | Some i \<Rightarrow> i)"

definition BytesOf :: "nat \<Rightarrow> nat \<Rightarrow> bool \<Rightarrow> nat" where
  "BytesOf stride height is_565 = wrap_size (int stride * int height * (if is_565 then 2 else 4))"

definition of_opt :: "('a \<Rightarrow> call) \<Rightarrow> 'a option \<Rightarrow> call list" where
  "of_opt f x = (case x of None \<Rightarrow> [] | Some a \<Rightarrow> [f a])"

definition destroy_calls :: "image_entry \<Rightarrow> call list" where
  "destroy_calls e = of_opt GoneFramebuffer (ie_framebuffer e) @ of_opt GoneView (ie_view e) @
     of_opt GoneImage (ie_image e) @ of_opt GoneHandle (ie_copy e) @ of_opt GoneHandle (ie_hold e)"

definition made_calls :: "image_entry \<Rightarrow> call list" where
  "made_calls e = of_opt MadeFramebuffer (ie_framebuffer e) @ of_opt MadeView (ie_view e) @
     of_opt MadeImage (ie_image e) @ of_opt MadeHandle (ie_copy e) @ of_opt MadeHandle (ie_hold e)"

definition call_log :: "call list \<Rightarrow> image_cache \<Rightarrow> image_cache" where
  "call_log cs s = s\<lparr>ic_calls := ic_calls s @ cs\<rparr>"

definition Destroy :: "image_entry \<Rightarrow> image_cache \<Rightarrow> image_cache" where
  "Destroy e s = call_log (destroy_calls e) s"

definition SetAside :: "image_entry \<Rightarrow> image_cache \<Rightarrow> image_cache" where
  "SetAside e s = s\<lparr>ic_set_aside := ic_set_aside s @ [e]\<rparr>"

definition Drop :: "key \<Rightarrow> image_cache \<Rightarrow> image_cache" where
  "Drop k s = (case om_get (ic_entries s) k of None \<Rightarrow> s
     | Some e \<Rightarrow> SetAside e (s\<lparr>ic_bytes := usub (ic_bytes s) (ie_bytes e), ic_entries := om_del k (ic_entries s)\<rparr>))"

definition uses_of :: "image_cache \<Rightarrow> nat list" where
  "uses_of s = map (ie_last_use \<circ> snd) (ic_entries s)"

lemma fold_better:
  assumes "m \<le> length uses"
  shows "case fold (better uses p) [0..<m] None of
     None \<Rightarrow> \<forall>i<m. p \<le> uses ! i
   | Some v \<Rightarrow> v < m \<and> uses ! v < p \<and> (\<forall>i<m. uses ! i < p \<longrightarrow> uses ! v \<le> uses ! i)"
  using assms
proof (induction m)
  case (Suc m)
  then have IH: "case fold (better uses p) [0..<m] None of
     None \<Rightarrow> \<forall>i<m. p \<le> uses ! i
   | Some v \<Rightarrow> v < m \<and> uses ! v < p \<and> (\<forall>i<m. uses ! i < p \<longrightarrow> uses ! v \<le> uses ! i)" by simp
  have step: "fold (better uses p) [0..<Suc m] None = better uses p m (fold (better uses p) [0..<m] None)"
    by simp
  show ?case
  proof (cases "fold (better uses p) [0..<m] None")
    case None
    then show ?thesis using IH unfolding step by (simp add: better_def less_Suc_eq) (metis not_le)
  next
    case (Some v)
    then show ?thesis using IH unfolding step by (auto simp: better_def less_Suc_eq)
  qed
qed simp

lemma PickVictim_spec:
  "case PickVictim uses p of
     None \<Rightarrow> \<forall>i<length uses. p \<le> uses ! i
   | Some v \<Rightarrow> v < length uses \<and> uses ! v < p \<and> (\<forall>i<length uses. uses ! i < p \<longrightarrow> uses ! v \<le> uses ! i)"
  unfolding PickVictim_def by (rule fold_better) simp

lemma PickVictim_less: "PickVictim uses p = Some v \<Longrightarrow> v < length uses"
  using PickVictim_spec [of uses p] by simp

lemma Drop_shrinks:
  assumes "v < length (ic_entries s)"
  shows "length (ic_entries (Drop (fst (ic_entries s ! v)) s)) < length (ic_entries s)"
proof -
  have "ic_entries s ! v \<in> set (ic_entries s)" using assms by simp
  moreover from this have "om_get (ic_entries s) (fst (ic_entries s ! v)) \<noteq> None"
    unfolding om_get_None om_keys_def by blast
  ultimately show ?thesis
    by (auto simp: Drop_def SetAside_def om_del_def intro!: length_filter_less)
qed

function MakeRoom :: "nat \<Rightarrow> image_cache \<Rightarrow> image_cache" where
  "MakeRoom adding s =
     (if Over (ic_budget s) (length (ic_entries s)) (ic_bytes s) adding
      then case PickVictim (uses_of s) (ic_frame_start s) of
             None \<Rightarrow> s
           | Some v \<Rightarrow> MakeRoom adding (Drop (fst (ic_entries s ! v)) s)
      else s)"
  by pat_completeness auto
termination
proof (relation "measure (\<lambda>(_, s). length (ic_entries s))")
  fix adding s v
  assume "PickVictim (uses_of s) (ic_frame_start s) = Some v"
  then have "v < length (ic_entries s)" using PickVictim_less by (fastforce simp: uses_of_def)
  then show "((adding, Drop (fst (ic_entries s ! v)) s), (adding, s)) \<in> measure (\<lambda>(_, s). length (ic_entries s))"
    using Drop_shrinks by simp
qed simp

declare MakeRoom.simps [simp del]

definition forget_one :: "nat \<Rightarrow> key \<times> image_entry \<Rightarrow> image_cache \<Rightarrow> image_cache" where
  "forget_one owner ke s = (if \<not> snd (fst ke) \<and> ie_owner (snd ke) = owner then Drop (fst ke) s else s)"

definition ic_Forget :: "nat \<Rightarrow> image_cache \<Rightarrow> image_cache" where
  "ic_Forget owner s = fold (forget_one owner) (ic_entries s) s"

definition Retire :: "nat \<Rightarrow> image_cache \<Rightarrow> image_cache" where
  "Retire frame s =
     (let s1 = fold Destroy (filter (\<lambda>e. \<not> ie_last_frame e > frame) (ic_set_aside s)) s
      in s1\<lparr>ic_set_aside := filter (\<lambda>e. ie_last_frame e > frame) (ic_set_aside s)\<rparr>)"

definition BeginFrame :: "image_cache \<Rightarrow> image_cache" where
  "BeginFrame s = s\<lparr>ic_frame_start := ic_tick s + 1\<rparr>"

text \<open>The destructor, the device idle.\<close>

definition ic_delete :: "image_cache \<Rightarrow> image_cache" where
  "ic_delete s = fold Destroy (ic_set_aside s) (fold (Destroy \<circ> snd) (ic_entries s) s)"

subsection \<open>Asking for an image\<close>

text \<open>What a caller asks for, and what the system and the driver answer it.\<close>

record image_request =
  rq_pointer :: nat
  rq_handle :: native_handle
  rq_width :: nat
  rq_height :: nat
  rq_stride :: nat
  rq_is_565 :: bool
  rq_target :: bool
  rq_frame :: nat
  rq_height_word :: int
  rq_owner :: nat

record driver_answers =
  an_stat :: "nat option"
  an_copy :: "nat option"
  an_hold :: "nat option"
  an_image :: "nat option"
  an_view :: "nat option"
  an_framebuffer :: "nat option"

definition wants_copy :: "image_request \<Rightarrow> bool" where
  "wants_copy r =
     (let h = rq_handle r; words = nh_num_fds h + nh_num_ints h
      in rq_height_word r \<ge> nh_num_fds h \<and> rq_height_word r < words \<and>
         nh_data h ! nat (rq_height_word r) \<noteq> word_of_nat (rq_height r))"

definition hit :: "image_request \<Rightarrow> image_entry \<Rightarrow> image_cache \<Rightarrow> image_entry" where
  "hit r e s = e\<lparr>ie_last_frame := max (ie_last_frame e) (rq_frame r), ie_last_use := ic_tick s + 1,
     ie_owner := (if rq_owner r \<noteq> 0 then rq_owner r else ie_owner e)\<rparr>"

definition fresh_entry :: "image_request \<Rightarrow> driver_answers \<Rightarrow> nat \<Rightarrow> nat \<Rightarrow> image_entry" where
  "fresh_entry r a byts tick =
     \<lparr>ie_image = None, ie_view = None, ie_framebuffer = None, ie_hash = HashHandle (rq_handle r),
      ie_inode = InodeOf (rq_handle r) (an_stat a), ie_last_frame = rq_frame r, ie_last_use = tick,
      ie_owner = rq_owner r, ie_bytes = byts, ie_copy = (if wants_copy r then an_copy a else None),
      ie_hold = (if rq_target r then None else an_hold a), ie_drawn = False\<rparr>"

text \<open>Making the image: each refusal of the driver destroys what was made before it.\<close>

definition import_image :: "image_request \<Rightarrow> driver_answers \<Rightarrow> nat \<Rightarrow> image_cache \<Rightarrow> image_entry option \<times> image_cache" where
  "import_image r a byts s =
     (if wants_copy r \<and> an_copy a = None then (None, s)
      else let tick = ic_tick s + 1;
               e = fresh_entry r a byts tick;
               s1 = call_log (made_calls e) (s\<lparr>ic_tick := tick\<rparr>)
           in case an_image a of None \<Rightarrow> (None, Destroy e s1)
            | Some i \<Rightarrow>
                let e1 = e\<lparr>ie_image := Some i\<rparr>; s2 = call_log [MadeImage i] s1
                in case an_view a of None \<Rightarrow> (None, Destroy e1 s2)
                 | Some v \<Rightarrow>
                     let e2 = e1\<lparr>ie_view := Some v\<rparr>; s3 = call_log [MadeView v] s2
                     in if \<not> rq_target r then (Some e2, s3)
                        else case an_framebuffer a of None \<Rightarrow> (None, Destroy e2 s3)
                          | Some f \<Rightarrow> (Some (e2\<lparr>ie_framebuffer := Some f\<rparr>), call_log [MadeFramebuffer f] s3))"

definition store :: "key \<Rightarrow> nat \<Rightarrow> image_entry option \<times> image_cache \<Rightarrow> image_entry option \<times> image_cache" where
  "store k byts res = (case res of (None, s) \<Rightarrow> (None, s)
     | (Some e, s) \<Rightarrow> (Some e, s\<lparr>ic_bytes := wrap_size (int (ic_bytes s) + int byts),
                                ic_entries := om_put k e (ic_entries s)\<rparr>))"

definition miss :: "image_request \<Rightarrow> driver_answers \<Rightarrow> image_cache \<Rightarrow> image_entry option \<times> image_cache" where
  "miss r a s =
     (let byts = BytesOf (rq_stride r) (rq_height r) (rq_is_565 r)
      in store (rq_pointer r, rq_target r) byts (import_image r a byts (MakeRoom byts s)))"

definition Get :: "image_request \<Rightarrow> driver_answers \<Rightarrow> image_cache \<Rightarrow> image_entry option \<times> image_cache" where
  "Get r a s =
     (let k = (rq_pointer r, rq_target r); hash = HashHandle (rq_handle r);
          inode = InodeOf (rq_handle r) (an_stat a)
      in case om_get (ic_entries s) k of
           Some e \<Rightarrow>
             if ie_hash e = hash \<and> ie_inode e = inode
             then let e2 = hit r e s
                  in (Some e2, s\<lparr>ic_tick := ic_tick s + 1, ic_entries := om_put k e2 (ic_entries s)\<rparr>)
             else miss r a (Drop k s)
         | None \<Rightarrow> miss r a s)"

subsection \<open>What the cache holds\<close>

definition ic_held :: "image_cache \<Rightarrow> image_entry multiset" where
  "ic_held s = om_values (ic_entries s) + mset (ic_set_aside s)"

definition total_bytes :: "image_cache \<Rightarrow> int" where
  "total_bytes s = (\<Sum>e\<in>#om_values (ic_entries s). int (ie_bytes e))"

definition same_but_moved :: "image_cache \<Rightarrow> image_cache \<Rightarrow> bool" where
  "same_but_moved s t \<longleftrightarrow> ic_held t = ic_held s \<and> ic_calls t = ic_calls s \<and> ic_tick t = ic_tick s \<and>
     ic_frame_start t = ic_frame_start s \<and> ic_budget t = ic_budget s"

definition accounts :: "image_cache \<Rightarrow> bool" where
  "accounts s \<longleftrightarrow> om_ok (ic_entries s) \<and> ic_bytes s = wrap_size (total_bytes s)"

lemma same_but_moved_refl [simp]: "same_but_moved s s"
  by (simp add: same_but_moved_def)

lemma same_but_moved_trans: "same_but_moved s t \<Longrightarrow> same_but_moved t u \<Longrightarrow> same_but_moved s u"
  by (simp add: same_but_moved_def)

lemma usub_wrap: "usub (wrap_size (a + int n)) n = wrap_size a"
  by (simp add: usub_def wrap_size_def mod_simps)

lemma wrap_size_add: "wrap_size (int (wrap_size a) + b) = wrap_size (a + b)"
  by (simp add: wrap_size_def mod_simps)

lemma Drop_moves: "om_ok (ic_entries s) \<Longrightarrow> same_but_moved s (Drop k s)"
  by (auto simp: same_but_moved_def Drop_def SetAside_def ic_held_def om_values_del split: option.splits)

lemma Drop_accounts: "accounts s \<Longrightarrow> accounts (Drop k s)"
proof (cases "om_get (ic_entries s) k")
  case (Some e)
  assume a: "accounts s"
  then have "total_bytes s = total_bytes (Drop k s) + int (ie_bytes e)"
    using Some by (simp add: total_bytes_def Drop_def SetAside_def om_values_del accounts_def)
  then have "ic_bytes s = wrap_size (total_bytes (Drop k s) + int (ie_bytes e))" using a by (simp add: accounts_def)
  moreover have "ic_bytes (Drop k s) = usub (ic_bytes s) (ie_bytes e)"
    using Some by (simp add: Drop_def SetAside_def)
  moreover have "om_ok (ic_entries (Drop k s))" using a Some by (simp add: accounts_def Drop_def SetAside_def om_ok_del)
  ultimately show ?thesis by (simp add: accounts_def usub_wrap)
qed (simp add: Drop_def)

definition make_room_step :: "image_cache \<Rightarrow> image_cache" where
  "make_room_step s = (case PickVictim (uses_of s) (ic_frame_start s) of None \<Rightarrow> s
     | Some v \<Rightarrow> Drop (fst (ic_entries s ! v)) s)"

definition room_done :: "nat \<Rightarrow> image_cache \<Rightarrow> bool" where
  "room_done adding s \<longleftrightarrow> \<not> Over (ic_budget s) (length (ic_entries s)) (ic_bytes s) adding \<or>
     (\<forall>ke\<in>set (ic_entries s). ic_frame_start s \<le> ie_last_use (snd ke))"

text \<open>C39: making room ends. The loop runs at most once for each image of the cache, and it ends with room
  for what is to be added or with nothing left but what the frame being put together asked for.\<close>

theorem MakeRoom_ends:
  "\<exists>n \<le> length (ic_entries s). MakeRoom adding s = (make_room_step ^^ n) s \<and> room_done adding (MakeRoom adding s)"
proof (induction adding s rule: MakeRoom.induct)
  case (1 adding s)
  show ?case
  proof (cases "Over (ic_budget s) (length (ic_entries s)) (ic_bytes s) adding")
    case False
    then have "MakeRoom adding s = s" by (subst MakeRoom.simps) simp
    then show ?thesis using False by (intro exI [of _ 0]) (simp add: room_done_def)
  next
    case True
    show ?thesis
    proof (cases "PickVictim (uses_of s) (ic_frame_start s)")
      case None
      then have "MakeRoom adding s = s" by (subst MakeRoom.simps) simp
      moreover have "\<forall>x\<in>set (uses_of s). ic_frame_start s \<le> x"
        using PickVictim_spec [of "uses_of s" "ic_frame_start s"] None by (simp add: all_set_conv_all_nth)
      then have "\<forall>ke\<in>set (ic_entries s). ic_frame_start s \<le> ie_last_use (snd ke)"
        by (auto simp: uses_of_def)
      ultimately show ?thesis by (intro exI [of _ 0]) (simp add: room_done_def)
    next
      case (Some v)
      let ?d = "Drop (fst (ic_entries s ! v)) s"
      have v: "v < length (ic_entries s)" using PickVictim_less [OF Some] by (simp add: uses_of_def)
      have m: "MakeRoom adding s = MakeRoom adding ?d" using True Some by (subst MakeRoom.simps) simp
      obtain n where n: "n \<le> length (ic_entries ?d)" "MakeRoom adding ?d = (make_room_step ^^ n) ?d"
        "room_done adding (MakeRoom adding ?d)"
        using 1 [OF True Some] by blast
      have "make_room_step s = ?d" using Some by (simp add: make_room_step_def)
      then have "MakeRoom adding s = (make_room_step ^^ Suc n) s" using m n(2) by (simp add: funpow_swap1)
      moreover have "Suc n \<le> length (ic_entries s)" using n(1) Drop_shrinks [OF v] by simp
      ultimately show ?thesis using n(3) m by metis
    qed
  qed
qed

lemma MakeRoom_moves:
  "om_ok (ic_entries s) \<Longrightarrow> om_ok (ic_entries (MakeRoom adding s)) \<and> same_but_moved s (MakeRoom adding s)"
proof (induction adding s rule: MakeRoom.induct)
  case (1 adding s)
  have d: "om_ok (ic_entries (Drop k s))" for k
    using 1(2) by (simp add: Drop_def SetAside_def om_ok_del split: option.splits)
  show ?case
  proof (cases "Over (ic_budget s) (length (ic_entries s)) (ic_bytes s) adding \<and>
      PickVictim (uses_of s) (ic_frame_start s) \<noteq> None")
    case False
    then have "MakeRoom adding s = s" by (subst MakeRoom.simps) auto
    then show ?thesis using 1(2) by simp
  next
    case True
    then obtain v where p: "PickVictim (uses_of s) (ic_frame_start s) = Some v"
      and ov: "Over (ic_budget s) (length (ic_entries s)) (ic_bytes s) adding" by blast
    let ?d = "Drop (fst (ic_entries s ! v)) s"
    have m: "MakeRoom adding s = MakeRoom adding ?d"
      using ov p by (subst MakeRoom.simps) simp
    have "same_but_moved s ?d" by (rule Drop_moves [OF 1(2)])
    moreover have "om_ok (ic_entries (MakeRoom adding ?d))" "same_but_moved ?d (MakeRoom adding ?d)"
      using 1(1) [OF ov p d] by blast+
    ultimately show ?thesis unfolding m using same_but_moved_trans by blast
  qed
qed

lemma MakeRoom_accounts: "accounts s \<Longrightarrow> accounts (MakeRoom adding s)"
proof (induction adding s rule: MakeRoom.induct)
  case (1 adding s)
  then show ?case
    using Drop_accounts [OF 1(2)] by (subst MakeRoom.simps) (auto split: option.splits)
qed

definition let_go :: "image_cache \<Rightarrow> image_cache \<Rightarrow> image_entry list \<Rightarrow> bool" where
  "let_go s t ds \<longleftrightarrow> ic_set_aside t = ic_set_aside s @ ds \<and>
     om_values (ic_entries s) = om_values (ic_entries t) + mset ds \<and>
     (\<forall>d\<in>set ds. ie_last_use d < ic_frame_start s \<and>
        (\<forall>e\<in>#om_values (ic_entries t). ie_last_use e < ic_frame_start s \<longrightarrow> ie_last_use d \<le> ie_last_use e))"

lemma MakeRoom_let_go:
  "om_ok (ic_entries s) \<Longrightarrow> \<exists>ds. let_go s (MakeRoom adding s) ds"
proof (induction adding s rule: MakeRoom.induct)
  case (1 adding s)
  have stay: ?case if "MakeRoom adding s = s" unfolding that by (intro exI [of _ "[]"]) (simp add: let_go_def)
  show ?case
  proof (cases "Over (ic_budget s) (length (ic_entries s)) (ic_bytes s) adding \<and>
      PickVictim (uses_of s) (ic_frame_start s) \<noteq> None")
    case False
    then have "MakeRoom adding s = s" by (subst MakeRoom.simps) auto
    then show ?thesis by (rule stay)
  next
    case True
    then obtain v where p: "PickVictim (uses_of s) (ic_frame_start s) = Some v"
      and ov: "Over (ic_budget s) (length (ic_entries s)) (ic_bytes s) adding" by blast
    let ?k = "fst (ic_entries s ! v)" and ?e = "snd (ic_entries s ! v)"
    let ?d = "Drop ?k s"
    have v: "v < length (ic_entries s)" using PickVictim_less [OF p] by (simp add: uses_of_def)
    have e: "om_get (ic_entries s) ?k = Some ?e" using v by (intro om_in_get [OF 1(2)]) simp
    have d: "ic_entries ?d = om_del ?k (ic_entries s)" "ic_set_aside ?d = ic_set_aside s @ [?e]"
      "ic_frame_start ?d = ic_frame_start s"
      using e by (simp_all add: Drop_def SetAside_def)
    have val: "om_values (ic_entries s) = add_mset ?e (om_values (ic_entries ?d))"
      using om_values_del [OF 1(2) e] d(1) by simp
    have pick: "uses_of s ! v < ic_frame_start s"
      "\<forall>i<length (uses_of s). uses_of s ! i < ic_frame_start s \<longrightarrow> uses_of s ! v \<le> uses_of s ! i"
      using PickVictim_spec [of "uses_of s" "ic_frame_start s"] p by simp_all
    then have "\<forall>x\<in>set (uses_of s). x < ic_frame_start s \<longrightarrow> uses_of s ! v \<le> x"
      by (simp add: all_set_conv_all_nth)
    moreover have "set (uses_of s) = ie_last_use ` set_mset (om_values (ic_entries s))"
      by (simp add: uses_of_def om_values_def image_image)
    moreover have use: "uses_of s ! v = ie_last_use ?e" using v by (simp add: uses_of_def)
    ultimately have least: "\<forall>x\<in>#om_values (ic_entries s). ie_last_use x < ic_frame_start s \<longrightarrow> ie_last_use ?e \<le> ie_last_use x"
      by simp
    have "om_ok (ic_entries ?d)" using d(1) om_ok_del [OF 1(2)] by simp
    then obtain ds where ds: "let_go ?d (MakeRoom adding ?d) ds" using 1(1) [OF ov p] by blast
    have m: "MakeRoom adding s = MakeRoom adding ?d" using ov p by (subst MakeRoom.simps) simp
    have sub: "om_values (ic_entries (MakeRoom adding ?d)) \<subseteq># om_values (ic_entries s)"
      using ds val by (simp add: let_go_def subset_mset.le_supI2)
    have "let_go s (MakeRoom adding ?d) (?e # ds)"
      using ds d val pick(1) use least sub by (auto simp: let_go_def dest: mset_subset_eqD)
    then show ?thesis using m by auto
  qed
qed

text \<open>what is let go to make room. Images go in the order they were last asked for, none that the
  frame being put together has asked for is among them, and none is destroyed: each is set aside.\<close>

theorem MakeRoom_least_recent:
  assumes "om_ok (ic_entries s)"
  shows "\<exists>ds. let_go s (MakeRoom adding s) ds \<and> ic_calls (MakeRoom adding s) = ic_calls s"
  using MakeRoom_let_go [OF assms] MakeRoom_moves [OF assms] by (auto simp: same_but_moved_def)

subsection \<open>What is made is destroyed once\<close>

fun partner :: "call \<Rightarrow> call option" where
  "partner (GoneImage i) = Some (MadeImage i)"
| "partner (GoneView i) = Some (MadeView i)"
| "partner (GoneFramebuffer i) = Some (MadeFramebuffer i)"
| "partner (GoneHandle i) = Some (MadeHandle i)"
| "partner _ = None"

fun mades :: "call list \<Rightarrow> call multiset" where
  "mades [] = {#}"
| "mades (c # cs) = (case partner c of None \<Rightarrow> add_mset c (mades cs) | Some d \<Rightarrow> mades cs)"

fun gones :: "call list \<Rightarrow> call multiset" where
  "gones [] = {#}"
| "gones (c # cs) = (case partner c of None \<Rightarrow> gones cs | Some d \<Rightarrow> add_mset d (gones cs))"

lemma mades_append [simp]: "mades (as @ bs) = mades as + mades bs"
  by (induction as) (auto split: option.splits)

lemma gones_append [simp]: "gones (as @ bs) = gones as + gones bs"
  by (induction as) (auto split: option.splits)

definition held_calls :: "image_entry multiset \<Rightarrow> call multiset" where
  "held_calls es = (\<Sum>e\<in>#es. mset (made_calls e))"

lemma held_calls_simps [simp]:
  "held_calls {#} = {#}" "held_calls (add_mset e es) = mset (made_calls e) + held_calls es"
  "held_calls (es + fs) = held_calls es + held_calls fs"
  by (simp_all add: held_calls_def)

lemma destroy_calls_count [simp]:
  "mades (destroy_calls e) = {#}" "gones (destroy_calls e) = mset (made_calls e)"
  by (auto simp: destroy_calls_def made_calls_def of_opt_def split: option.splits)

lemma made_calls_count [simp]: "mades (made_calls e) = mset (made_calls e)" "gones (made_calls e) = {#}"
  by (auto simp: made_calls_def of_opt_def split: option.splits)

definition balanced :: "image_cache \<Rightarrow> bool" where
  "balanced s \<longleftrightarrow> mades (ic_calls s) = gones (ic_calls s) + held_calls (ic_held s)"

lemma fold_Destroy:
  "ic_calls (fold Destroy es s) = ic_calls s @ concat (map destroy_calls es) \<and>
   ic_entries (fold Destroy es s) = ic_entries s \<and> ic_set_aside (fold Destroy es s) = ic_set_aside s \<and>
   ic_bytes (fold Destroy es s) = ic_bytes s \<and> ic_tick (fold Destroy es s) = ic_tick s \<and>
   ic_frame_start (fold Destroy es s) = ic_frame_start s \<and> ic_budget (fold Destroy es s) = ic_budget s"
  by (induction es arbitrary: s) (simp_all add: Destroy_def call_log_def)

lemma concat_destroy [simp]:
  "mades (concat (map destroy_calls es)) = {#}" "gones (concat (map destroy_calls es)) = held_calls (mset es)"
  by (induction es) simp_all

lemma Retire_fields:
  "ic_calls (Retire f s) = ic_calls s @ concat (map destroy_calls (filter (\<lambda>e. \<not> ie_last_frame e > f) (ic_set_aside s)))"
  "ic_entries (Retire f s) = ic_entries s"
  "ic_set_aside (Retire f s) = filter (\<lambda>e. ie_last_frame e > f) (ic_set_aside s)"
  "ic_bytes (Retire f s) = ic_bytes s"
  using fold_Destroy [of "filter (\<lambda>e. \<not> ie_last_frame e > f) (ic_set_aside s)" s]
  by (simp_all add: Retire_def Let_def)

lemma Retire_balanced: "balanced s \<Longrightarrow> balanced (Retire f s)"
proof -
  have "mset (ic_set_aside s) = mset (filter (\<lambda>e. \<not> ie_last_frame e > f) (ic_set_aside s)) +
      mset (filter (\<lambda>e. ie_last_frame e > f) (ic_set_aside s))"
    by (simp add: multiset_partition [symmetric] add.commute)
  then have "held_calls (mset (ic_set_aside s)) = held_calls (mset (filter (\<lambda>e. \<not> ie_last_frame e > f) (ic_set_aside s))) +
      held_calls (mset (filter (\<lambda>e. ie_last_frame e > f) (ic_set_aside s)))"
    by (simp only: held_calls_simps)
  then show "balanced s \<Longrightarrow> balanced (Retire f s)"
    by (simp add: balanced_def Retire_fields ic_held_def)
qed

lemma forget_one_kept:
  assumes "accounts s" shows "accounts (forget_one owner ke s) \<and> same_but_moved s (forget_one owner ke s)"
  using assms Drop_accounts Drop_moves by (simp add: forget_one_def accounts_def)

lemma Forget_kept:
  assumes "accounts s" shows "accounts (ic_Forget owner s) \<and> same_but_moved s (ic_Forget owner s)"
proof -
  have "accounts t \<Longrightarrow> accounts (fold (forget_one owner) es t) \<and> same_but_moved t (fold (forget_one owner) es t)" for es t
  proof (induction es arbitrary: t)
    case (Cons ke es)
    have "accounts (forget_one owner ke t)" "same_but_moved t (forget_one owner ke t)"
      using forget_one_kept [OF Cons.prems] by blast+
    then show ?case using Cons.IH same_but_moved_trans by fastforce
  qed simp
  then show ?thesis using assms unfolding ic_Forget_def by blast
qed

lemma moved_balanced: "same_but_moved s t \<Longrightarrow> balanced t = balanced s"
  by (simp add: same_but_moved_def balanced_def)

text \<open>What an import leaves: the calls it made, balanced but for the entry it hands over.\<close>

definition import_leaves :: "image_request \<Rightarrow> driver_answers \<Rightarrow> nat \<Rightarrow> image_cache \<Rightarrow> image_entry option \<Rightarrow> image_cache \<Rightarrow> bool" where
  "import_leaves r a byts s res t \<longleftrightarrow> (\<exists>cs tick. t = s\<lparr>ic_tick := tick, ic_calls := ic_calls s @ cs\<rparr> \<and>
    ic_tick s \<le> tick \<and>
    mades cs = gones cs + (case res of None \<Rightarrow> {#} | Some e \<Rightarrow> mset (made_calls e)) \<and>
    (\<forall>i. count (mades cs) (MadeImage i) \<le> (if an_image a = Some i then 1 else 0)) \<and>
    (\<forall>e. res = Some e \<longrightarrow> ie_image e = an_image a \<and> an_image a \<noteq> None \<and> ie_bytes e = byts \<and>
       ie_last_frame e = rq_frame r \<and> ie_last_use e = tick))"

lemma import_leavesI:
  assumes "t = call_log cs (s\<lparr>ic_tick := tick\<rparr>)" "ic_tick s \<le> tick"
    "mades cs = gones cs + (case res of None \<Rightarrow> {#} | Some e \<Rightarrow> mset (made_calls e))"
    "\<And>i. count (mades cs) (MadeImage i) \<le> (if an_image a = Some i then 1 else 0)"
    "\<And>e. res = Some e \<Longrightarrow> ie_image e = an_image a \<and> an_image a \<noteq> None \<and> ie_bytes e = byts \<and>
       ie_last_frame e = rq_frame r \<and> ie_last_use e = tick"
  shows "import_leaves r a byts s res t"
  unfolding import_leaves_def
proof (intro exI conjI)
  show "t = s\<lparr>ic_tick := tick, ic_calls := ic_calls s @ cs\<rparr>" using assms(1) by (simp add: call_log_def)
qed (use assms(2-) in blast)+

lemma import_image_leaves:
  assumes "import_image r a byts s = (res, t)" shows "import_leaves r a byts s res t"
proof (cases "wants_copy r \<and> an_copy a = None")
  case True
  then have "res = None" "t = s" using assms by (simp_all add: import_image_def)
  then show ?thesis by (intro import_leavesI [where cs = "[]" and tick = "ic_tick s"]) (simp_all add: call_log_def)
next
  case no_copy: False
  define e where "e = fresh_entry r a byts (ic_tick s + 1)"
  define hs where "hs = of_opt MadeHandle (ie_copy e) @ of_opt MadeHandle (ie_hold e)"
  define gs where "gs = of_opt GoneHandle (ie_copy e) @ of_opt GoneHandle (ie_hold e)"
  have f: "ie_image e = None" "ie_view e = None" "ie_framebuffer e = None" "ie_bytes e = byts"
    "ie_last_frame e = rq_frame r" "ie_last_use e = ic_tick s + 1"
    by (simp_all add: e_def fresh_entry_def)
  have h: "mades hs = mset hs" "gones hs = {#}" "mades gs = {#}" "gones gs = mset hs" "count (mset hs) (MadeImage i) = 0" for i
    by (auto simp: hs_def gs_def of_opt_def split: option.splits)
  have m: "made_calls (e\<lparr>ie_image := i, ie_view := v, ie_framebuffer := fb\<rparr>) =
      of_opt MadeFramebuffer fb @ of_opt MadeView v @ of_opt MadeImage i @ hs" for i v fb
    by (simp add: made_calls_def hs_def)
  have d: "destroy_calls (e\<lparr>ie_image := i, ie_view := v, ie_framebuffer := fb\<rparr>) =
      of_opt GoneFramebuffer fb @ of_opt GoneView v @ of_opt GoneImage i @ gs" for i v fb
    by (simp add: destroy_calls_def gs_def)
  have log: "call_log as (call_log bs u) = call_log (bs @ as) u" for as bs u by (simp add: call_log_def)
  define E where "E i v fb = e\<lparr>ie_image := i, ie_view := v, ie_framebuffer := fb\<rparr>" for i v fb
  let ?u = "s\<lparr>ic_tick := ic_tick s + 1\<rparr>"
  have eq: "import_image r a byts s = (case an_image a of
      None \<Rightarrow> (None, call_log (hs @ gs) ?u)
    | Some i \<Rightarrow> (case an_view a of
        None \<Rightarrow> (None, call_log (hs @ [MadeImage i] @ [GoneImage i] @ gs) ?u)
      | Some v \<Rightarrow> if \<not> rq_target r then (Some (E (Some i) (Some v) None), call_log (hs @ [MadeImage i] @ [MadeView v]) ?u)
         else (case an_framebuffer a of
             None \<Rightarrow> (None, call_log (hs @ [MadeImage i] @ [MadeView v] @ [GoneView v] @ [GoneImage i] @ gs) ?u)
           | Some fb \<Rightarrow> (Some (E (Some i) (Some v) (Some fb)),
               call_log (hs @ [MadeImage i] @ [MadeView v] @ [MadeFramebuffer fb]) ?u))))"
    using no_copy unfolding import_image_def Let_def e_def [symmetric]
    by (auto simp: f E_def log Destroy_def made_calls_def destroy_calls_def hs_def gs_def of_opt_def
        split: option.splits)
  have fin: "made_calls (E (Some i) (Some v) fb) = of_opt MadeFramebuffer fb @ [MadeView v, MadeImage i] @ hs"
    "ie_image (E (Some i) v' fb) = Some i" "ie_bytes (E i' v' fb) = byts" "ie_last_frame (E i' v' fb) = rq_frame r"
    "ie_last_use (E i' v' fb) = ic_tick s + 1" for i v i' v' fb
    unfolding E_def m by (simp_all add: f of_opt_def)
  show ?thesis
    using assms unfolding eq
    by (auto split: option.splits if_splits intro!: import_leavesI simp: h fin of_opt_def)
qed

subsection \<open>Every operation\<close>

lemma MakeRoom_keys: "om_keys (ic_entries (MakeRoom adding s)) \<subseteq> om_keys (ic_entries s)"
proof (induction adding s rule: MakeRoom.induct)
  case (1 adding s)
  have d: "om_keys (ic_entries (Drop k s)) \<subseteq> om_keys (ic_entries s)" for k
    by (auto simp: Drop_def SetAside_def om_keys_def om_del_def split: option.splits)
  show ?case
  proof (cases "Over (ic_budget s) (length (ic_entries s)) (ic_bytes s) adding \<and>
      PickVictim (uses_of s) (ic_frame_start s) \<noteq> None")
    case False
    then have "MakeRoom adding s = s" by (subst MakeRoom.simps) auto
    then show ?thesis by simp
  next
    case True
    then obtain v where p: "PickVictim (uses_of s) (ic_frame_start s) = Some v"
      and ov: "Over (ic_budget s) (length (ic_entries s)) (ic_bytes s) adding" by blast
    have "MakeRoom adding s = MakeRoom adding (Drop (fst (ic_entries s ! v)) s)"
      using ov p by (subst MakeRoom.simps) simp
    then show ?thesis using 1 [OF ov p] d [of "fst (ic_entries s ! v)"] by (metis subset_trans)
  qed
qed

lemma Drop_gone: "om_ok (ic_entries s) \<Longrightarrow> om_get (ic_entries (Drop k s)) k = None"
  by (auto simp: Drop_def SetAside_def om_get_del split: option.splits)

text \<open>What a later state keeps of an earlier one: every image still held is held with a last frame
  no earlier.\<close>

definition carries :: "image_cache \<Rightarrow> image_cache \<Rightarrow> bool" where
  "carries s t \<longleftrightarrow> (\<forall>e\<in>#ic_held s. \<exists>f\<in>#ic_held t. ie_image f = ie_image e \<and> ie_last_frame e \<le> ie_last_frame f)"

lemma carries_same: "ic_held t = ic_held s \<Longrightarrow> carries s t"
  by (auto simp: carries_def)

lemma carries_trans: "carries s t \<Longrightarrow> carries t u \<Longrightarrow> carries s u"
  unfolding carries_def by (fastforce intro: le_trans)

definition sound :: "image_cache \<Rightarrow> bool" where
  "sound s \<longleftrightarrow> accounts s \<and> balanced s \<and> (\<forall>e\<in>#ic_held s. ie_image e \<noteq> None)"

lemma moved_sound: "same_but_moved s t \<Longrightarrow> accounts t \<Longrightarrow> sound s \<Longrightarrow> sound t"
  using moved_balanced [of s t] by (simp add: sound_def same_but_moved_def)

lemma made_calls_hit [simp]: "made_calls (hit r e s) = made_calls e"
  by (simp add: hit_def made_calls_def)

lemma hit_sound:
  assumes s: "sound s" and e: "om_get (ic_entries s) k = Some e"
    and t: "t = s\<lparr>ic_tick := ic_tick s + 1, ic_entries := om_put k (hit r e s) (ic_entries s)\<rparr>"
  shows "sound t \<and> carries s t \<and> hit r e s \<in># ic_held t \<and> ic_calls t = ic_calls s"
proof -
  have ok: "om_ok (ic_entries s)" using s by (simp add: sound_def accounts_def)
  let ?rest = "om_values (om_del k (ic_entries s))"
  have v: "om_values (ic_entries s) = add_mset e ?rest" "om_values (ic_entries t) = add_mset (hit r e s) ?rest"
    using om_values_del [OF ok e] om_values_put [OF ok, of k "hit r e s"] by (simp_all add: t)
  have "total_bytes t = total_bytes s" by (simp add: total_bytes_def v hit_def)
  then have "accounts t" using s ok by (simp add: sound_def accounts_def t om_ok_put)
  moreover have h: "ic_held t = add_mset (hit r e s) (?rest + mset (ic_set_aside s))"
    "ic_held s = add_mset e (?rest + mset (ic_set_aside s))" by (simp_all add: ic_held_def v) (simp add: t)
  then have "balanced t" using s by (simp add: sound_def balanced_def t)
  moreover have "\<forall>f\<in>#ic_held t. ie_image f \<noteq> None" using s h by (auto simp: sound_def hit_def)
  moreover have "carries s t" unfolding carries_def h by (auto simp: hit_def)
  moreover have "hit r e s \<in># ic_held t" unfolding h by simp
  moreover have "ic_calls t = ic_calls s" by (simp add: t)
  ultimately show ?thesis unfolding sound_def by blast
qed

lemma miss_sound:
  assumes s: "sound s" and absent: "om_get (ic_entries s) (rq_pointer r, rq_target r) = None"
    and m: "miss r a s = (res, t)"
  shows "sound t \<and> carries s t \<and> (\<forall>e. res = Some e \<longrightarrow> e \<in># ic_held t \<and> ie_last_frame e = rq_frame r) \<and>
    (\<exists>cs. ic_calls t = ic_calls s @ cs \<and> (\<forall>i. count (mades cs) (MadeImage i) \<le> (if an_image a = Some i then 1 else 0)))"
proof -
  define byts where "byts = BytesOf (rq_stride r) (rq_height r) (rq_is_565 r)"
  define s1 where "s1 = MakeRoom byts s"
  let ?k = "(rq_pointer r, rq_target r)"
  have ok: "om_ok (ic_entries s)" and acc: "accounts s" using s by (simp_all add: sound_def accounts_def)
  have mv: "same_but_moved s s1" "om_ok (ic_entries s1)" "accounts s1"
    using MakeRoom_moves [OF ok] MakeRoom_accounts [OF acc] by (auto simp: s1_def)
  have s1: "sound s1" using moved_sound [OF mv(1,3) s] .
  have "?k \<notin> om_keys (ic_entries s1)"
    using absent MakeRoom_keys [of byts s] unfolding om_get_None s1_def by blast
  then have del: "om_del ?k (ic_entries s1) = ic_entries s1" by (rule om_del_absent)
  obtain res' t' where imp: "import_image r a byts s1 = (res', t')" by fastforce
  obtain cs tick where t': "t' = s1\<lparr>ic_tick := tick, ic_calls := ic_calls s1 @ cs\<rparr>"
    and c: "mades cs = gones cs + (case res' of None \<Rightarrow> {#} | Some e \<Rightarrow> mset (made_calls e))"
      "\<forall>i. count (mades cs) (MadeImage i) \<le> (if an_image a = Some i then 1 else 0)"
    and e: "\<forall>e. res' = Some e \<longrightarrow> ie_image e = an_image a \<and> an_image a \<noteq> None \<and> ie_bytes e = byts \<and>
       ie_last_frame e = rq_frame r \<and> ie_last_use e = tick"
    using import_image_leaves [OF imp] unfolding import_leaves_def by blast
  have st: "store ?k byts (res', t') = (res, t)"
    using m imp by (simp add: miss_def Let_def byts_def [symmetric] s1_def [symmetric])
  have calls: "ic_calls s1 = ic_calls s" "ic_held s1 = ic_held s" using mv(1) by (simp_all add: same_but_moved_def)
  show ?thesis
  proof (cases res')
    case None
    then have "res = None" "t = t'" using st by (simp_all add: store_def)
    moreover have "ic_held t' = ic_held s1" "total_bytes t' = total_bytes s1"
      by (simp_all add: t' ic_held_def total_bytes_def)
    moreover have "sound t'"
      using s1 c(1) None calculation(3,4) by (simp add: sound_def accounts_def balanced_def t')
    ultimately show ?thesis using c(2) calls carries_same by (auto simp: t')
  next
    case (Some n)
    then have res: "res = Some n" and t: "t = t'\<lparr>ic_bytes := wrap_size (int (ic_bytes t') + int byts),
        ic_entries := om_put ?k n (ic_entries t')\<rparr>" using st by (simp_all add: store_def)
    have v: "om_values (ic_entries t) = add_mset n (om_values (ic_entries s1))"
      using om_values_put [OF mv(2), of ?k n] del by (simp add: t t')
    have n: "ie_image n \<noteq> None" "ie_bytes n = byts" "ie_last_frame n = rq_frame r" using e Some by auto
    have h: "ic_held t = add_mset n (ic_held s)" using v calls(2) by (simp add: ic_held_def t t')
    have tb: "total_bytes t = total_bytes s1 + int byts" by (simp add: total_bytes_def v n(2))
    have "ic_bytes t = wrap_size (total_bytes s1 + int byts)"
      using mv(3) by (simp add: t t' accounts_def wrap_size_add)
    then have "accounts t" using mv(2) by (simp add: accounts_def tb) (simp add: t t' om_ok_put)
    moreover have "balanced t"
      using s1 c(1) Some calls by (simp add: sound_def balanced_def h) (simp add: t t')
    moreover have "\<forall>f\<in>#ic_held t. ie_image f \<noteq> None" using s n(1) h by (auto simp: sound_def)
    moreover have "carries s t" unfolding carries_def h by auto
    ultimately show ?thesis using c(2) calls(1) h res n(3) by (auto simp: sound_def t t')
  qed
qed

lemma Get_sound:
  assumes s: "sound s" and g: "Get r a s = (res, t)"
  shows "sound t \<and> carries s t \<and> (\<forall>e. res = Some e \<longrightarrow> e \<in># ic_held t \<and> rq_frame r \<le> ie_last_frame e) \<and>
    (\<exists>cs. ic_calls t = ic_calls s @ cs \<and> (\<forall>i. count (mades cs) (MadeImage i) \<le> (if an_image a = Some i then 1 else 0)))"
proof (cases "om_get (ic_entries s) (rq_pointer r, rq_target r)")
  case None
  then have "miss r a s = (res, t)" using g by (simp add: Get_def Let_def)
  from miss_sound [OF s None this] show ?thesis by auto
next
  case (Some e)
  let ?k = "(rq_pointer r, rq_target r)"
  show ?thesis
  proof (cases "ie_hash e = HashHandle (rq_handle r) \<and> ie_inode e = InodeOf (rq_handle r) (an_stat a)")
    case True
    then have r: "res = Some (hit r e s)"
      and t: "t = s\<lparr>ic_tick := ic_tick s + 1, ic_entries := om_put ?k (hit r e s) (ic_entries s)\<rparr>"
      using g Some by (simp_all add: Get_def Let_def)
    have "rq_frame r \<le> ie_last_frame (hit r e s)" by (simp add: hit_def)
    then show ?thesis using hit_sound [OF s Some t] r by auto
  next
    case False
    then have m: "miss r a (Drop ?k s) = (res, t)" using g Some by (auto simp: Get_def Let_def)
    have ok: "om_ok (ic_entries s)" using s by (simp add: sound_def accounts_def)
    have mv: "same_but_moved s (Drop ?k s)" by (rule Drop_moves [OF ok])
    have "sound (Drop ?k s)" using moved_sound [OF mv Drop_accounts s] s by (simp add: sound_def)
    from miss_sound [OF this Drop_gone [OF ok] m] show ?thesis
      using mv carries_trans [OF carries_same] by (auto simp: same_but_moved_def)
  qed
qed

subsection \<open>The cache and the frames in flight\<close>

text \<open>The cache beside what the drawing has taken from it: which image was handed out for which frame, and
  the last frame that is done. An image the driver makes is one it has not made before.\<close>

record ic_world =
  iw_cache :: image_cache
  iw_uses :: "(nat \<times> nat) list"
  iw_done :: nat

definition new_image :: "driver_answers \<Rightarrow> image_cache \<Rightarrow> bool" where
  "new_image a s \<longleftrightarrow> (\<forall>i. an_image a = Some i \<longrightarrow> MadeImage i \<notin># mades (ic_calls s))"

definition used_for :: "nat \<Rightarrow> image_entry option \<Rightarrow> (nat \<times> nat) list" where
  "used_for frame res = (case res of None \<Rightarrow> [] | Some e \<Rightarrow> [(the (ie_image e), frame)])"

inductive ic_reach :: "ic_world \<Rightarrow> bool" where
  start: "ic_reach \<lparr>iw_cache = ic_init, iw_uses = [], iw_done = 0\<rparr>"
| get: "ic_reach w \<Longrightarrow> new_image a (iw_cache w) \<Longrightarrow> Get r a (iw_cache w) = (res, c) \<Longrightarrow>
    ic_reach (w\<lparr>iw_cache := c, iw_uses := iw_uses w @ used_for (rq_frame r) res\<rparr>)"
| forget: "ic_reach w \<Longrightarrow> ic_reach (w\<lparr>iw_cache := ic_Forget owner (iw_cache w)\<rparr>)"
| retire: "ic_reach w \<Longrightarrow> ic_reach (w\<lparr>iw_cache := Retire f (iw_cache w), iw_done := max (iw_done w) f\<rparr>)"
| begin_frame: "ic_reach w \<Longrightarrow> ic_reach (w\<lparr>iw_cache := BeginFrame (iw_cache w)\<rparr>)"

definition ic_world_ok :: "ic_world \<Rightarrow> bool" where
  "ic_world_ok w \<longleftrightarrow> sound (iw_cache w) \<and>
     (\<forall>i. count (mades (ic_calls (iw_cache w))) (MadeImage i) \<le> 1) \<and>
     (\<forall>(i, f)\<in>set (iw_uses w). iw_done w < f \<longrightarrow>
        (\<exists>e\<in>#ic_held (iw_cache w). ie_image e = Some i \<and> f \<le> ie_last_frame e))"

lemma world_use:
  "ic_world_ok w \<Longrightarrow> (i, f) \<in> set (iw_uses w) \<Longrightarrow> iw_done w < f \<Longrightarrow>
   \<exists>e\<in>#ic_held (iw_cache w). ie_image e = Some i \<and> f \<le> ie_last_frame e"
  by (auto simp: ic_world_ok_def)

lemma sound_init: "sound ic_init"
  by (simp add: sound_def accounts_def balanced_def ic_init_def ic_held_def om_values_def om_ok_def total_bytes_def wrap_size_def)

lemma world_replace:
  "ic_world_ok w \<Longrightarrow> sound c \<Longrightarrow> ic_held c = ic_held (iw_cache w) \<Longrightarrow> ic_calls c = ic_calls (iw_cache w) \<Longrightarrow>
   ic_world_ok (w\<lparr>iw_cache := c\<rparr>)"
  by (simp add: ic_world_ok_def)

lemma moved_world:
  assumes "ic_world_ok w" "same_but_moved (iw_cache w) c" "accounts c"
  shows "ic_world_ok (w\<lparr>iw_cache := c\<rparr>)"
  using assms moved_sound [OF assms(2,3)] by (simp add: ic_world_ok_def same_but_moved_def)

lemma BeginFrame_moves: "ic_held (BeginFrame s) = ic_held s" "ic_calls (BeginFrame s) = ic_calls s"
  "accounts (BeginFrame s) = accounts s"
  by (simp_all add: BeginFrame_def ic_held_def accounts_def total_bytes_def)

lemma Retire_sound: "sound s \<Longrightarrow> sound (Retire f s)"
  using Retire_balanced [of s f]
  by (auto simp: sound_def accounts_def total_bytes_def Retire_fields ic_held_def)

lemma Retire_keeps: "e \<in># ic_held s \<Longrightarrow> f < ie_last_frame e \<Longrightarrow> e \<in># ic_held (Retire f s)"
  by (auto simp: ic_held_def Retire_fields)

lemma Retire_mades: "mades (ic_calls (Retire f s)) = mades (ic_calls s)"
  by (simp add: Retire_fields)

lemma get_world:
  assumes w: "ic_world_ok w" and new: "new_image a (iw_cache w)" and g: "Get r a (iw_cache w) = (res, c)"
  shows "ic_world_ok (w\<lparr>iw_cache := c, iw_uses := iw_uses w @ used_for (rq_frame r) res\<rparr>)"
proof -
  have s: "sound (iw_cache w)" using w by (simp add: ic_world_ok_def)
  obtain cs where c: "sound c" "carries (iw_cache w) c" "ic_calls c = ic_calls (iw_cache w) @ cs"
    and cnt: "\<forall>i. count (mades cs) (MadeImage i) \<le> (if an_image a = Some i then 1 else 0)"
    and e: "\<forall>e. res = Some e \<longrightarrow> e \<in># ic_held c \<and> rq_frame r \<le> ie_last_frame e"
    using Get_sound [OF s g] by blast
  have "count (mades (ic_calls c)) (MadeImage i) \<le> 1" for i
  proof (cases "an_image a = Some i")
    case True
    then have "count (mades (ic_calls (iw_cache w))) (MadeImage i) = 0"
      using new by (simp add: new_image_def not_in_iff)
    then show ?thesis using cnt [rule_format, of i] True by (simp add: c(3))
  next
    case False
    then show ?thesis using cnt [rule_format, of i] w by (simp add: c(3) ic_world_ok_def)
  qed
  moreover have "\<exists>e\<in>#ic_held c. ie_image e = Some i \<and> f \<le> ie_last_frame e"
    if u: "(i, f) \<in> set (iw_uses w @ used_for (rq_frame r) res)" "iw_done w < f" for i f
  proof (cases "(i, f) \<in> set (iw_uses w)")
    case True
    then obtain e where "e \<in># ic_held (iw_cache w)" "ie_image e = Some i" "f \<le> ie_last_frame e"
      using world_use [OF w _ u(2)] by blast
    then show ?thesis using c(2) unfolding carries_def by fastforce
  next
    case False
    then obtain x where x: "res = Some x" "i = the (ie_image x)" "f = rq_frame r"
      using u(1) by (auto simp: used_for_def split: option.splits)
    then have "x \<in># ic_held c" "f \<le> ie_last_frame x" using e by auto
    moreover have "ie_image x = Some i" using c(1) x(2) \<open>x \<in># ic_held c\<close> by (auto simp: sound_def)
    ultimately show ?thesis by blast
  qed
  ultimately show ?thesis using c(1) by (auto simp: ic_world_ok_def)
qed

lemma reach_world: "ic_reach w \<Longrightarrow> ic_world_ok w"
proof (induction rule: ic_reach.induct)
  case start
  show ?case using sound_init by (simp add: ic_world_ok_def) (simp add: ic_init_def)
next
  case (get w a r res c)
  then show ?case using get_world by blast
next
  case (forget w owner)
  then have "accounts (iw_cache w)" by (simp add: ic_world_ok_def sound_def)
  then show ?case using forget(2) Forget_kept by (intro moved_world) blast+
next
  case (retire w f)
  have "\<exists>e\<in>#ic_held (Retire f (iw_cache w)). ie_image e = Some i \<and> g \<le> ie_last_frame e"
    if u: "(i, g) \<in> set (iw_uses w)" "max (iw_done w) f < g" for i g
  proof -
    have "iw_done w < g" using u(2) by simp
    then obtain e where "e \<in># ic_held (iw_cache w)" "ie_image e = Some i" "g \<le> ie_last_frame e"
      using world_use [OF retire(2) u(1)] by blast
    then show ?thesis using Retire_keeps [of e "iw_cache w" f] u(2) by fastforce
  qed
  then show ?case using retire(2) Retire_sound [of "iw_cache w" f] by (auto simp: ic_world_ok_def Retire_mades)
next
  case (begin_frame w)
  then have "sound (BeginFrame (iw_cache w))"
    by (simp add: ic_world_ok_def sound_def balanced_def BeginFrame_moves)
  then show ?case using begin_frame(2) by (intro world_replace BeginFrame_moves)
qed

lemma held_not_gone:
  assumes "balanced s" "count (mades (ic_calls s)) (MadeImage i) \<le> 1" "e \<in># ic_held s" "ie_image e = Some i"
  shows "MadeImage i \<notin># gones (ic_calls s)"
proof -
  have "MadeImage i \<in># mset (made_calls e)" using assms(4) by (simp add: made_calls_def of_opt_def)
  then have "MadeImage i \<in># held_calls (ic_held s)"
    using assms(3) by (auto simp: held_calls_def)
  then have "1 \<le> count (held_calls (ic_held s)) (MadeImage i)" unfolding One_nat_def Suc_le_eq by simp
  moreover have "count (gones (ic_calls s)) (MadeImage i) + count (held_calls (ic_held s)) (MadeImage i) \<le> 1"
    using assms(1,2) by (simp add: balanced_def)
  ultimately have "count (gones (ic_calls s)) (MadeImage i) = 0" by linarith
  then show ?thesis by (simp add: not_in_iff)
qed

lemma gone_in_gones: "GoneImage i \<in> set cs \<Longrightarrow> MadeImage i \<in># gones cs"
  by (induction cs) (auto split: option.splits)

text \<open>C11: no image is destroyed under a frame that reads it. Over any course of imports, hits, forgettings
  and retirings, an image that was handed out for a frame is not destroyed before that frame, or one
  after it, is said to be done; be it pushed out by the budget, found stale or forgotten meanwhile.\<close>

theorem image_in_flight_lives:
  assumes "ic_reach w" "(i, f) \<in> set (iw_uses w)" "iw_done w < f"
  shows "GoneImage i \<notin> set (ic_calls (iw_cache w))"
proof -
  have w: "ic_world_ok w" using assms(1) by (rule reach_world)
  then obtain e where "e \<in># ic_held (iw_cache w)" "ie_image e = Some i"
    using world_use [OF w assms(2,3)] by blast
  then show ?thesis
    using held_not_gone [of "iw_cache w" i e] w gone_in_gones by (auto simp: ic_world_ok_def sound_def)
qed

text \<open>C23: nothing leaks and nothing is destroyed twice. Whatever the driver refuses on the way, once the
  cache is deleted every image, view, framebuffer and copied handle it made has been let go exactly as
  often as it was made; and at every moment the bytes the budget counts are those of its images.\<close>

theorem cache_lets_go_all:
  assumes "ic_reach w"
  shows "mades (ic_calls (ic_delete (iw_cache w))) = gones (ic_calls (ic_delete (iw_cache w))) \<and>
    ic_bytes (iw_cache w) = wrap_size (total_bytes (iw_cache w))"
proof -
  let ?s = "iw_cache w"
  have s: "sound ?s" using reach_world [OF assms] by (simp add: ic_world_ok_def)
  have "fold (Destroy \<circ> snd) (ic_entries ?s) ?s = fold Destroy (map snd (ic_entries ?s)) ?s"
    by (simp add: fold_map)
  then have "ic_calls (ic_delete ?s) = ic_calls ?s @ concat (map destroy_calls (map snd (ic_entries ?s))) @
      concat (map destroy_calls (ic_set_aside ?s))"
    unfolding ic_delete_def by (simp only: fold_Destroy append_assoc)
  then show ?thesis
    using s unfolding sound_def balanced_def accounts_def ic_held_def om_values_def
    by (simp del: map_map add: ac_simps)
qed

subsection \<open>One image, drawn by the first frame\<close>

definition one_request :: image_request where
  "one_request = \<lparr>rq_pointer = 9, rq_handle = \<lparr>nh_num_fds = 1, nh_num_ints = 1, nh_data = [3, 4]\<rparr>, rq_width = 8,
     rq_height = 8, rq_stride = 8, rq_is_565 = False, rq_target = False, rq_frame = 1, rq_height_word = -1, rq_owner = 5\<rparr>"

definition one_answer :: driver_answers where
  "one_answer = \<lparr>an_stat = Some 77, an_copy = None, an_hold = Some 1, an_image = Some 7, an_view = Some 8,
     an_framebuffer = None\<rparr>"

definition one_world :: ic_world where
  "one_world = \<lparr>iw_cache = ic_Forget 5 (snd (Get one_request one_answer ic_init)), iw_uses = [(7, 1)], iw_done = 0\<rparr>"

lemma one_image: "map_option ie_image (fst (Get one_request one_answer ic_init)) = Some (Some 7)"
  by (simp add: Get_def one_request_def one_answer_def ic_init_def om_get_def miss_def MakeRoom.simps Over_def
      cache_budget_init_def BytesOf_def wrap_size_def import_image_def wants_copy_def Let_def fresh_entry_def store_def
      call_log_def)

lemma one_reach: "ic_reach one_world"
proof -
  obtain res c where g: "Get one_request one_answer ic_init = (res, c)" by fastforce
  let ?w0 = "\<lparr>iw_cache = ic_init, iw_uses = [], iw_done = 0\<rparr>"
  have "new_image one_answer (iw_cache ?w0)" by (simp add: new_image_def ic_init_def)
  then have "ic_reach (?w0\<lparr>iw_cache := c, iw_uses := iw_uses ?w0 @ used_for (rq_frame one_request) res\<rparr>)"
    using g by (intro ic_reach.get ic_reach.start) simp_all
  moreover have "used_for (rq_frame one_request) res = [(7, 1)]"
    using one_image g by (auto simp: used_for_def one_request_def)
  ultimately have "ic_reach \<lparr>iw_cache = c, iw_uses = [(7, 1)], iw_done = 0\<rparr>" by simp
  from ic_reach.forget [OF this, of 5] show ?thesis by (simp add: one_world_def g)
qed

theorem image_in_flight_lives_witness: "GoneImage 7 \<notin> set (ic_calls (iw_cache one_world))"
  by (rule image_in_flight_lives [OF one_reach, of 7 1]) (simp_all add: one_world_def)

theorem cache_lets_go_all_witness:
  "mades (ic_calls (ic_delete (iw_cache one_world))) = gones (ic_calls (ic_delete (iw_cache one_world)))"
  using cache_lets_go_all [OF one_reach] by blast

theorem MakeRoom_least_recent_witness:
  "\<exists>ds. let_go (iw_cache one_world) (MakeRoom 4 (iw_cache one_world)) ds"
proof -
  have "om_ok (ic_entries (iw_cache one_world))"
    using reach_world [OF one_reach] by (simp add: ic_world_ok_def sound_def accounts_def)
  from MakeRoom_least_recent [OF this] show ?thesis by blast
qed

end
