(* ===== verification/Geometry.thy ===== *)
theory Geometry
  imports Rects "HOL-Library.Product_Lexorder"
begin

text \<open>
  vk/Geometry: where a layer lands in the clip space of the GPU and which part of its buffer each
  corner shows, and whether a list of boxes covers an area. The areas are rectangles of pixels, as
  in the theory of rectangles; the corners keep binary32.
\<close>

subsection \<open>A layer's place\<close>

record quad =
  q_pos_tl :: "f32 \<times> f32"
  q_pos_tr :: "f32 \<times> f32"
  q_pos_bl :: "f32 \<times> f32"
  q_uv_tl :: "f32 \<times> f32"
  q_uv_tr :: "f32 \<times> f32"
  q_uv_bl :: "f32 \<times> f32"

definition Ndc :: "f32 \<Rightarrow> f32 \<Rightarrow> nat \<Rightarrow> nat \<Rightarrow> f32 \<times> f32" where
  "Ndc x y target_width target_height =
     (f32_sub (f32_div (f32_mul (Fin 2) x) (f32_of_int (int target_width))) (Fin 1),
      f32_sub (f32_div (f32_mul (Fin 2) y) (f32_of_int (int target_height))) (Fin 1))"

text \<open>The source corners on the destination's, clockwise from the top-left.\<close>

type_synonym 'a corners = "'a \<times> 'a \<times> 'a \<times> 'a"

fun mirror_lr :: "'a corners \<Rightarrow> 'a corners" where "mirror_lr (nw, ne, se, sw) = (ne, nw, sw, se)"
fun mirror_tb :: "'a corners \<Rightarrow> 'a corners" where "mirror_tb (nw, ne, se, sw) = (sw, se, ne, nw)"
fun quarter :: "'a corners \<Rightarrow> 'a corners" where "quarter (nw, ne, se, sw) = (sw, nw, ne, se)"

definition turn_corners :: "8 word \<Rightarrow> 'a corners \<Rightarrow> 'a corners" where
  "turn_corners transform c =
     (let c1 = (if bit transform 0 then mirror_lr c else c);
          c2 = (if bit transform 1 then mirror_tb c1 else c1)
      in if bit transform 2 then quarter c2 else c2)"

definition PlaceLayer :: "frect \<Rightarrow> nat \<Rightarrow> nat \<Rightarrow> irect \<Rightarrow> 8 word \<Rightarrow> nat \<Rightarrow> nat \<Rightarrow> quad" where
  "PlaceLayer src buffer_width buffer_height dst transform target_width target_height =
     (let l = f32_of_int (rleft dst); t = f32_of_int (rtop dst);
          r = f32_of_int (rright dst); b = f32_of_int (rbottom dst);
          bw = f32_of_int (int buffer_width); bh = f32_of_int (int buffer_height);
          u0 = f32_div (rleft src) bw; u1 = f32_div (rright src) bw;
          v0 = f32_div (rtop src) bh; v1 = f32_div (rbottom src) bh;
          (nw, ne, se, sw) = turn_corners transform ((u0, v0), (u1, v0), (u1, v1), (u0, v1))
      in \<lparr>q_pos_tl = Ndc l t target_width target_height, q_pos_tr = Ndc r t target_width target_height,
          q_pos_bl = Ndc l b target_width target_height, q_uv_tl = nw, q_uv_tr = ne, q_uv_bl = sw\<rparr>)"

definition PlaceTurnedLayer ::
  "frect \<Rightarrow> nat \<Rightarrow> nat \<Rightarrow> (f32 \<times> f32) \<times> (f32 \<times> f32) \<times> (f32 \<times> f32) \<Rightarrow> nat \<Rightarrow> nat \<Rightarrow> quad" where
  "PlaceTurnedLayer src buffer_width buffer_height corners target_width target_height =
     (let bw = f32_of_int (int buffer_width); bh = f32_of_int (int buffer_height);
          (nw, ne, sw) = corners
      in \<lparr>q_pos_tl = Ndc (fst nw) (snd nw) target_width target_height,
          q_pos_tr = Ndc (fst ne) (snd ne) target_width target_height,
          q_pos_bl = Ndc (fst sw) (snd sw) target_width target_height,
          q_uv_tl = (f32_div (rleft src) bw, f32_div (rtop src) bh),
          q_uv_tr = (f32_div (rright src) bw, f32_div (rtop src) bh),
          q_uv_bl = (f32_div (rleft src) bw, f32_div (rbottom src) bh)\<rparr>)"

subsection \<open>Covering an area\<close>

definition clamp :: "int \<Rightarrow> int \<Rightarrow> int \<Rightarrow> int" where
  "clamp v lo hi = (if v < lo then lo else if hi < v then hi else v)"

definition edges_of :: "irect \<Rightarrow> irect list \<Rightarrow> int list" where
  "edges_of area boxes = remdups_adj (sort (rleft area # rright area #
     concat (map (\<lambda>b. [clamp (rleft b) (rleft area) (rright area), clamp (rright b) (rleft area) (rright area)]) boxes)))"

definition spans_of :: "irect list \<Rightarrow> int \<Rightarrow> int \<Rightarrow> (int \<times> int) list" where
  "spans_of boxes x0 x1 = sort (map (\<lambda>b. (rtop b, rbottom b))
     (filter (\<lambda>b. rleft b \<le> x0 \<and> x1 \<le> rright b \<and> rtop b < rbottom b) boxes))"

fun reach_of :: "int \<Rightarrow> (int \<times> int) list \<Rightarrow> int" where
  "reach_of reach [] = reach"
| "reach_of reach ((a, b) # sps) = (if a > reach then reach else reach_of (max reach b) sps)"

definition slab_covered :: "irect \<Rightarrow> irect list \<Rightarrow> int \<Rightarrow> int \<Rightarrow> bool" where
  "slab_covered area boxes x0 x1 \<longleftrightarrow> \<not> reach_of (rtop area) (spans_of boxes x0 x1) < rbottom area"

definition Covers :: "irect \<Rightarrow> irect list \<Rightarrow> bool" where
  "Covers area boxes =
     (if rright area \<le> rleft area \<or> rbottom area \<le> rtop area then True
      else let xs = edges_of area boxes
           in list_all (\<lambda>k. slab_covered area boxes (xs ! k) (xs ! (k + 1))) [0..<length xs - 1])"

subsection \<open>The sweep of one slab\<close>

lemma reach_of_ge: "r \<le> reach_of r sps"
  by (induction r sps rule: reach_of.induct) (auto intro: order_trans)

lemma reach_of_covered:
  "r \<le> y \<Longrightarrow> y < reach_of r sps \<Longrightarrow> \<exists>(a, b)\<in>set sps. a \<le> y \<and> y < b"
proof (induction r sps rule: reach_of.induct)
  case (2 reach a b sps)
  show ?case
  proof (cases "a > reach")
    case False
    then show ?thesis using 2 by (cases "y < max reach b") auto
  qed (use 2 in simp)
qed simp

lemma reach_of_end:
  "sorted (map fst sps) \<Longrightarrow> (a, b) \<in> set sps \<Longrightarrow> a \<le> reach_of r sps \<Longrightarrow> b \<le> reach_of r sps"
proof (induction r sps rule: reach_of.induct)
  case (2 reach c d sps)
  show ?case
  proof (cases "c > reach")
    case True
    then have "c \<le> a" using 2(2,3) by auto
    then show ?thesis using True 2(4) by simp
  next
    case False
    then have "d \<le> reach_of (max reach d) sps" using reach_of_ge [of "max reach d" sps] by simp
    then show ?thesis using False 2 by auto
  qed
qed simp

lemma sorted_fst: "sorted (xs :: (int \<times> int) list) \<Longrightarrow> sorted (map fst xs)"
  by (induction xs) (auto simp: less_eq_prod_def)

lemma slab_covered_iff:
  assumes "rtop area < rbottom area"
  shows "slab_covered area boxes x0 x1 \<longleftrightarrow>
    (\<forall>y. rtop area \<le> y \<and> y < rbottom area \<longrightarrow>
       (\<exists>b\<in>set boxes. rleft b \<le> x0 \<and> x1 \<le> rright b \<and> rtop b \<le> y \<and> y < rbottom b))"
proof -
  let ?sps = "spans_of boxes x0 x1" and ?r = "reach_of (rtop area) (spans_of boxes x0 x1)"
  have mem: "(a, c) \<in> set ?sps \<longleftrightarrow> (\<exists>b\<in>set boxes. rleft b \<le> x0 \<and> x1 \<le> rright b \<and> rtop b < rbottom b \<and>
      a = rtop b \<and> c = rbottom b)" for a c
    by (auto simp: spans_of_def)
  have sorted: "sorted (map fst ?sps)" unfolding spans_of_def by (intro sorted_fst sorted_sort)
  show ?thesis
  proof
    assume "slab_covered area boxes x0 x1"
    then have r: "rbottom area \<le> ?r" by (simp add: slab_covered_def)
    show "\<forall>y. rtop area \<le> y \<and> y < rbottom area \<longrightarrow>
       (\<exists>b\<in>set boxes. rleft b \<le> x0 \<and> x1 \<le> rright b \<and> rtop b \<le> y \<and> y < rbottom b)"
    proof (intro allI impI)
      fix y assume "rtop area \<le> y \<and> y < rbottom area"
      then obtain a c where "(a, c) \<in> set ?sps" "a \<le> y" "y < c"
        using reach_of_covered [of "rtop area" y ?sps] r by auto
      then show "\<exists>b\<in>set boxes. rleft b \<le> x0 \<and> x1 \<le> rright b \<and> rtop b \<le> y \<and> y < rbottom b"
        using mem [of a c] by auto
    qed
  next
    assume cov: "\<forall>y. rtop area \<le> y \<and> y < rbottom area \<longrightarrow>
       (\<exists>b\<in>set boxes. rleft b \<le> x0 \<and> x1 \<le> rright b \<and> rtop b \<le> y \<and> y < rbottom b)"
    show "slab_covered area boxes x0 x1"
    proof (rule ccontr)
      assume "\<not> slab_covered area boxes x0 x1"
      then have "?r < rbottom area" by (simp add: slab_covered_def)
      moreover have "rtop area \<le> ?r" by (rule reach_of_ge)
      ultimately obtain b where b: "b \<in> set boxes" "rleft b \<le> x0" "x1 \<le> rright b" "rtop b \<le> ?r" "?r < rbottom b"
        using cov by blast
      then have "(rtop b, rbottom b) \<in> set ?sps" using mem by (metis order.strict_trans1)
      from reach_of_end [OF sorted this b(4)] show False using b(5) by simp
    qed
  qed
qed

subsection \<open>The slabs\<close>

lemma strict_remdups_adj: "sorted (xs :: int list) \<Longrightarrow> sorted_wrt (<) (remdups_adj xs)"
  by (induction xs rule: remdups_adj.induct) (auto simp: less_le)

lemma edges_of_props:
  assumes "rleft area < rright area"
  shows "sorted_wrt (<) (edges_of area boxes)" "rleft area \<in> set (edges_of area boxes)"
    "rright area \<in> set (edges_of area boxes)" "\<forall>x\<in>set (edges_of area boxes). rleft area \<le> x \<and> x \<le> rright area"
    "b \<in> set boxes \<Longrightarrow> clamp (rleft b) (rleft area) (rright area) \<in> set (edges_of area boxes) \<and>
       clamp (rright b) (rleft area) (rright area) \<in> set (edges_of area boxes)"
proof -
  show "sorted_wrt (<) (edges_of area boxes)" unfolding edges_of_def by (intro strict_remdups_adj sorted_sort)
  have set: "set (edges_of area boxes) = set (rleft area # rright area #
     concat (map (\<lambda>b. [clamp (rleft b) (rleft area) (rright area), clamp (rright b) (rleft area) (rright area)]) boxes))"
    unfolding edges_of_def by (simp only: remdups_adj_set set_sort)
  show "rleft area \<in> set (edges_of area boxes)" "rright area \<in> set (edges_of area boxes)"
    unfolding set by simp_all
  show "\<forall>x\<in>set (edges_of area boxes). rleft area \<le> x \<and> x \<le> rright area"
    unfolding set using assms by (auto simp: clamp_def)
  show "b \<in> set boxes \<Longrightarrow> clamp (rleft b) (rleft area) (rright area) \<in> set (edges_of area boxes) \<and>
       clamp (rright b) (rleft area) (rright area) \<in> set (edges_of area boxes)"
    unfolding set by auto
qed

lemma edges_in_area:
  assumes "rleft area < rright area" "k < length (edges_of area boxes)"
  shows "rleft area \<le> edges_of area boxes ! k" "edges_of area boxes ! k \<le> rright area"
  using edges_of_props(4) [OF assms(1)] nth_mem [OF assms(2)] by blast+

text \<open>Every column of the area lies in one slab, and none of the edges lies inside a slab.\<close>

lemma in_slab:
  assumes "sorted_wrt (<) (xs :: int list)" "l \<in> set xs" "l \<le> x" "r \<in> set xs" "x < r"
  shows "\<exists>k<length xs - 1. xs ! k \<le> x \<and> x < xs ! (k + 1)"
proof -
  let ?K = "{k. k < length xs \<and> xs ! k \<le> x}"
  obtain i where i: "i < length xs" "xs ! i = l" using assms(2) by (auto simp: in_set_conv_nth)
  obtain j where j: "j < length xs" "xs ! j = r" using assms(4) by (auto simp: in_set_conv_nth)
  have fin: "finite ?K" "?K \<noteq> {}" using i assms(3) by auto
  define k where "k = Max ?K"
  have "k \<in> ?K" unfolding k_def by (rule Max_in [OF fin])
  then have k: "k < length xs" "xs ! k \<le> x" by simp_all
  have "k < j"
  proof (rule ccontr)
    assume "\<not> k < j"
    then have "xs ! j \<le> xs ! k" using assms(1) k(1) by (metis linorder_neqE_nat order.refl order.strict_implies_order sorted_wrt_nth_less)
    then show False using j k assms(5) by simp
  qed
  then have k1: "k + 1 < length xs" using j(1) by simp
  have "k + 1 \<notin> ?K" using Max_ge [OF fin(1), of "k + 1"] by (auto simp: k_def [symmetric])
  then have "x < xs ! (k + 1)" using k1 by simp
  then show ?thesis using k k1 by (intro exI [of _ k]) simp
qed

lemma no_edge_inside:
  assumes "sorted_wrt (<) (xs :: int list)" "k + 1 < length xs" "e \<in> set xs"
  shows "e \<le> xs ! k \<or> xs ! (k + 1) \<le> e"
proof -
  obtain i where i: "i < length xs" "xs ! i = e" using assms(3) by (auto simp: in_set_conv_nth)
  show ?thesis
  proof (cases "i \<le> k")
    case True
    then have "i = k \<or> xs ! i < xs ! k" using sorted_wrt_nth_less [OF assms(1), of i k] assms(2) by force
    then show ?thesis using i by auto
  next
    case False
    then have "i = k + 1 \<or> xs ! (k + 1) < xs ! i" using sorted_wrt_nth_less [OF assms(1), of "k + 1" i] i(1) by force
    then show ?thesis using i by auto
  qed
qed

lemma spans_slab:
  assumes "rleft area < rright area" "b \<in> set boxes" "k < length (edges_of area boxes) - 1"
    "edges_of area boxes ! k \<le> x" "x < edges_of area boxes ! (k + 1)"
  shows "rleft b \<le> x \<and> x < rright b \<longleftrightarrow>
    rleft b \<le> edges_of area boxes ! k \<and> edges_of area boxes ! (k + 1) \<le> rright b"
proof -
  let ?xs = "edges_of area boxes"
  note p = edges_of_props [OF assms(1)]
  have k: "k + 1 < length ?xs" using assms(3) by simp
  have in_area: "rleft area \<le> ?xs ! k" "?xs ! (k + 1) \<le> rright area"
    using edges_in_area(1) [OF assms(1), of k] edges_in_area(2) [OF assms(1) k] k by simp_all
  have c: "clamp v (rleft area) (rright area) \<le> ?xs ! k \<or> ?xs ! (k + 1) \<le> clamp v (rleft area) (rright area)"
    if "v = rleft b \<or> v = rright b" for v
    using no_edge_inside [OF p(1) k] p(5) [OF assms(2)] that by blast
  have "v \<le> ?xs ! k \<or> ?xs ! (k + 1) \<le> v" if "v = rleft b \<or> v = rright b" for v
    using c [OF that] in_area assms(1,4,5) by (auto simp: clamp_def split: if_splits)
  then show ?thesis using assms(4,5) by force
qed

text \<open>C20: the sweep decides coverage. The function says yes exactly when every pixel of the area lies in
  one of the boxes; boxes that are empty, that reach past the area or that overlap are no trouble.\<close>

theorem Covers_iff: "Covers area boxes \<longleftrightarrow> pts area \<subseteq> (\<Union>b\<in>set boxes. pts b)"
proof (cases "rright area \<le> rleft area \<or> rbottom area \<le> rtop area")
  case True
  then have "pts area = {}" by (auto simp: pts_def)
  then show ?thesis using True by (simp add: Covers_def)
next
  case False
  then have a: "rleft area < rright area" "rtop area < rbottom area" by simp_all
  let ?xs = "edges_of area boxes"
  note p = edges_of_props [OF a(1)]
  have cov: "Covers area boxes \<longleftrightarrow> (\<forall>k<length ?xs - 1. \<forall>y. rtop area \<le> y \<and> y < rbottom area \<longrightarrow>
      (\<exists>b\<in>set boxes. rleft b \<le> ?xs ! k \<and> ?xs ! (k + 1) \<le> rright b \<and> rtop b \<le> y \<and> y < rbottom b))"
    using False by (simp add: Covers_def Let_def list_all_iff slab_covered_iff [OF a(2)] atLeast0LessThan Ball_def)
  show ?thesis
  proof
    assume c: "Covers area boxes"
    show "pts area \<subseteq> (\<Union>b\<in>set boxes. pts b)"
    proof (clarify)
      fix x y assume "(x, y) \<in> pts area"
      then have xy: "rleft area \<le> x" "x < rright area" "rtop area \<le> y" "y < rbottom area" by (simp_all add: in_pts)
      obtain k where k: "k < length ?xs - 1" "?xs ! k \<le> x" "x < ?xs ! (k + 1)"
        using in_slab [OF p(1,2) xy(1) p(3) xy(2)] by blast
      obtain b where b: "b \<in> set boxes" "rleft b \<le> ?xs ! k" "?xs ! (k + 1) \<le> rright b" "rtop b \<le> y" "y < rbottom b"
        using c k(1) xy(3,4) unfolding cov by blast
      then have "(x, y) \<in> pts b" using k by (simp add: in_pts)
      then show "(x, y) \<in> (\<Union>b\<in>set boxes. pts b)" using b(1) by blast
    qed
  next
    assume sub: "pts area \<subseteq> (\<Union>b\<in>set boxes. pts b)"
    show "Covers area boxes"
      unfolding cov
    proof (intro allI impI)
      fix k y assume k: "k < length ?xs - 1" and y: "rtop area \<le> y \<and> y < rbottom area"
      have k1: "?xs ! k < ?xs ! (k + 1)" using sorted_wrt_nth_less [OF p(1), of k "k + 1"] k by simp
      have "rleft area \<le> ?xs ! k" "?xs ! (k + 1) \<le> rright area"
        using edges_in_area(1) [OF a(1), of k] edges_in_area(2) [OF a(1), of "k + 1"] k by simp_all
      then have "(?xs ! k, y) \<in> pts area" using y k1 by (simp add: in_pts)
      then obtain b where "b \<in> set boxes" "(?xs ! k, y) \<in> pts b" using sub by blast
      then show "\<exists>b\<in>set boxes. rleft b \<le> ?xs ! k \<and> ?xs ! (k + 1) \<le> rright b \<and> rtop b \<le> y \<and> y < rbottom b"
        using spans_slab [OF a(1) _ k order_refl k1] by (auto simp: in_pts)
    qed
  qed
qed

text \<open>The corners under a turn: what HWC2 means by it. A corner of the destination, one in the direction of
  \<open>x\<close> and of \<open>y\<close>, shows the corner of the source it came from: the quarter turn taken back, then the
  mirrors.\<close>

definition source_corner :: "8 word \<Rightarrow> bool \<times> bool \<Rightarrow> bool \<times> bool" where
  "source_corner transform d =
     (let s = (if bit transform 2 then (snd d, \<not> fst d) else d)
      in (fst s \<noteq> bit transform 0, snd s \<noteq> bit transform 1))"

definition texture_at :: "frect \<Rightarrow> nat \<Rightarrow> nat \<Rightarrow> bool \<times> bool \<Rightarrow> f32 \<times> f32" where
  "texture_at src bw bh s =
     (f32_div (if fst s then rright src else rleft src) (f32_of_int (int bw)),
      f32_div (if snd s then rbottom src else rtop src) (f32_of_int (int bh)))"

text \<open>a layer's corners show the right corners of its buffer, for each of the eight transformations:
  mirrored first, then turned clockwise.\<close>

theorem PlaceLayer_corners:
  "q_uv_tl (PlaceLayer src bw bh dst tf tw th) = texture_at src bw bh (source_corner tf (False, False)) \<and>
   q_uv_tr (PlaceLayer src bw bh dst tf tw th) = texture_at src bw bh (source_corner tf (True, False)) \<and>
   q_uv_bl (PlaceLayer src bw bh dst tf tw th) = texture_at src bw bh (source_corner tf (False, True))"
  by (cases "bit tf 0"; cases "bit tf 1"; cases "bit tf 2")
     (simp_all add: PlaceLayer_def Let_def turn_corners_def source_corner_def texture_at_def)

end
