(* ===== verification/VSync.thy ===== *)
theory VSync
  imports Prelude
begin

text \<open>
  display/VSyncWorker: the thread that tells the framework of every blank, and its predictions. The
  fields the mutex guards are the record \<open>vsync_worker\<close>; every critical section is one step, and the
  notification that follows it, outside the lock, is another. Times are nanoseconds.
\<close>

subsection \<open>The state\<close>

record vsync_worker =
  vw_enabled :: bool
  vw_exit :: bool
  vw_last :: "int option"
  vw_period :: int
  vw_expected :: int
  vw_tracking :: bool
  vw_display_on :: bool
  vw_fresh :: bool
  vw_callback :: bool
  vw_fence :: "nat option"

definition kDefaultVSPeriodNs :: int where "kDefaultVSPeriodNs = 16666666"

definition vw_init :: vsync_worker where
  "vw_init = \<lparr>vw_enabled = False, vw_exit = False, vw_last = None, vw_period = kDefaultVSPeriodNs,
     vw_expected = 0, vw_tracking = False, vw_display_on = True, vw_fresh = False, vw_callback = False,
     vw_fence = None\<rparr>"

text \<open>What the kernel says of a fence: its status and the times of its parts. The fence is known by its
  descriptor.\<close>

record sync_info =
  sy_status :: int
  sy_times :: "int list"

definition later :: "int \<Rightarrow> int \<Rightarrow> int" where
  "later fence_timestamp timestamp = (if max fence_timestamp timestamp = fence_timestamp then fence_timestamp else timestamp)"

definition GetPresentTime :: "(nat \<Rightarrow> sync_info option) \<Rightarrow> nat option \<Rightarrow> int option" where
  "GetPresentTime info fence = (case fence of None \<Rightarrow> None
     | Some fd \<Rightarrow> (case info fd of None \<Rightarrow> None
        | Some i \<Rightarrow> if sy_status i \<noteq> 1 then None else Some (fold later (sy_times i) 0)))"

subsection \<open>Under the lock\<close>

definition ShouldEnable :: "vsync_worker \<Rightarrow> bool" where
  "ShouldEnable w \<longleftrightarrow> vw_display_on w \<and> (vw_tracking w \<or> vw_callback w)"

definition UpdateVSyncControl :: "vsync_worker \<Rightarrow> vsync_worker" where
  "UpdateVSyncControl w = w\<lparr>vw_enabled := ShouldEnable w\<rparr>"

definition SetVsyncPeriodNs :: "int \<Rightarrow> vsync_worker \<Rightarrow> vsync_worker" where
  "SetVsyncPeriodNs p w = w\<lparr>vw_period := p, vw_expected := 0, vw_last := None, vw_fence := None\<rparr>"

definition ExpectVsyncPeriodNs :: "int \<Rightarrow> vsync_worker \<Rightarrow> vsync_worker" where
  "ExpectVsyncPeriodNs p w = (if p = vw_period w then w\<lparr>vw_expected := 0\<rparr> else w\<lparr>vw_expected := p\<rparr>)"

definition RanAtExpectedPeriod :: "int \<Rightarrow> vsync_worker \<Rightarrow> bool" where
  "RanAtExpectedPeriod took w \<longleftrightarrow> \<bar>took - vw_expected w\<bar> \<le> cdiv (vw_expected w) 100"

definition LandsOnExpectedPeriod :: "int \<Rightarrow> int \<Rightarrow> vsync_worker \<Rightarrow> bool" where
  "LandsOnExpectedPeriod previous timestamp w \<longleftrightarrow>
     \<bar>(timestamp - previous) - vw_expected w\<bar> \<le> cdiv (vw_expected w) 5"

definition set_tracking :: "bool \<Rightarrow> vsync_worker \<Rightarrow> vsync_worker" where
  "set_tracking b w = (let w1 = w\<lparr>vw_tracking := b\<rparr> in if b then w1\<lparr>vw_fresh := False\<rparr> else w1)"

definition GetLastVsyncTimestamp :: "vsync_worker \<Rightarrow> int" where
  "GetLastVsyncTimestamp w = (if vw_fresh w then opt_ord (vw_last w) 0 else 0)"

definition UpdateLastVsyncTimeWithPresentTime :: "(nat \<Rightarrow> sync_info option) \<Rightarrow> vsync_worker \<Rightarrow> vsync_worker" where
  "UpdateLastVsyncTimeWithPresentTime info w =
     (if vw_enabled w then w\<lparr>vw_fence := None\<rparr>
      else let fence_time = GetPresentTime info (vw_fence w); w1 = w\<lparr>vw_fence := None\<rparr>
           in if opt_ord (vw_last w1) 0 < opt_ord fence_time 0 then w1\<lparr>vw_last := fence_time\<rparr> else w1)"

definition set_display_on :: "bool \<Rightarrow> vsync_worker \<Rightarrow> vsync_worker" where
  "set_display_on b w = w\<lparr>vw_display_on := b\<rparr>"

definition AddLastPresentFence :: "nat option \<Rightarrow> vsync_worker \<Rightarrow> vsync_worker" where
  "AddLastPresentFence f w = w\<lparr>vw_fence := f\<rparr>"

definition set_callback :: "bool \<Rightarrow> vsync_worker \<Rightarrow> vsync_worker" where
  "set_callback b w = w\<lparr>vw_callback := b\<rparr>"

definition stop_thread :: "vsync_worker \<Rightarrow> vsync_worker" where
  "stop_thread w = w\<lparr>vw_exit := True, vw_enabled := False\<rparr>"

definition phased :: "int option \<Rightarrow> int \<Rightarrow> int \<Rightarrow> int" where
  "phased l frame_ns current = (case l of None \<Rightarrow> current + frame_ns
     | Some t \<Rightarrow> (frame_ns * (cdiv (current - t) frame_ns + 1)) + t)"

definition GetPhasedVSync :: "(nat \<Rightarrow> sync_info option) \<Rightarrow> int \<Rightarrow> int \<Rightarrow> vsync_worker \<Rightarrow> int \<times> vsync_worker" where
  "GetPhasedVSync info frame_ns current w =
     (let w1 = UpdateLastVsyncTimeWithPresentTime info w in (phased (vw_last w1) frame_ns current, w1))"

definition GetNextVsyncTimestamp :: "(nat \<Rightarrow> sync_info option) \<Rightarrow> int \<Rightarrow> vsync_worker \<Rightarrow> int \<times> vsync_worker" where
  "GetNextVsyncTimestamp info time w = GetPhasedVSync info (vw_period w) time w"

subsection \<open>The thread\<close>

text \<open>Where the thread is: at the head of its loop, telling the source to stop, asleep on the condition,
  awake from it, waiting for a blank, with a blank to account for, about to call back, or gone.\<close>

datatype place = Top | Stopping | Asleep | Awake | Waiting | Blank int int | Calling int int | Gone

text \<open>\<open>vt_source\<close>: whether the display has a source of blanks; \<open>vt_controls\<close> and \<open>vt_notifies\<close>: the calls of
  UpdateVSyncControl, and of the condition's notification, that have not come to it yet; \<open>vt_told\<close>: what
  the callback was told.\<close>

record vsync_thread =
  vt_worker :: vsync_worker
  vt_source :: bool
  vt_place :: place
  vt_controls :: nat
  vt_notifies :: nat
  vt_told :: "(int \<times> int) list"

definition vt_init :: "bool \<Rightarrow> vsync_thread" where
  "vt_init source = \<lparr>vt_worker = vw_init, vt_source = source, vt_place = Top, vt_controls = 0,
     vt_notifies = 0, vt_told = []\<rparr>"

definition took_hold :: "int \<Rightarrow> int \<Rightarrow> vsync_worker \<Rightarrow> bool" where
  "took_hold timestamp took w \<longleftrightarrow>
     (if took \<noteq> 0 then RanAtExpectedPeriod took w
      else case vw_last w of None \<Rightarrow> False | Some l \<Rightarrow> LandsOnExpectedPeriod l timestamp w)"

definition account :: "int \<Rightarrow> int \<Rightarrow> vsync_worker \<Rightarrow> vsync_worker" where
  "account timestamp took w =
     (let w1 = (if vw_tracking w then w\<lparr>vw_fresh := True\<rparr> else w);
          w2 = (if vw_expected w1 \<noteq> 0 \<and> took_hold timestamp took w1
                then w1\<lparr>vw_period := vw_expected w1, vw_expected := 0\<rparr> else w1)
      in w2\<lparr>vw_last := Some timestamp\<rparr>)"

text \<open>The head of the loop and what follows the source's \<open>stop\<close>.\<close>

definition from_top :: "vsync_thread \<Rightarrow> place" where
  "from_top t = (let w = vt_worker t in
     if vw_exit w then Gone else if \<not> vw_enabled w then (if vt_source t then Stopping else Asleep) else Waiting)"

definition from_stopping :: "vsync_thread \<Rightarrow> place" where
  "from_stopping t = (let w = vt_worker t in
     if vw_exit w then Gone else if \<not> vw_enabled w then Asleep else Waiting)"

definition from_awake :: "vsync_thread \<Rightarrow> place" where
  "from_awake t = (if \<not> vw_enabled (vt_worker t) then Top else Waiting)"

definition after_blank :: "int \<Rightarrow> int \<Rightarrow> vsync_thread \<Rightarrow> vsync_thread" where
  "after_blank timestamp took t =
     (if \<not> vw_enabled (vt_worker t) then t\<lparr>vt_place := Top\<rparr>
      else let w = account timestamp took (vt_worker t)
           in t\<lparr>vt_worker := w, vt_place := (if vw_callback w then Calling timestamp (vw_period w) else Top)\<rparr>)"

definition on_worker :: "(vsync_worker \<Rightarrow> vsync_worker) \<Rightarrow> vsync_thread \<Rightarrow> vsync_thread" where
  "on_worker f t = t\<lparr>vt_worker := f (vt_worker t)\<rparr>"

definition with_control :: "(vsync_worker \<Rightarrow> vsync_worker) \<Rightarrow> vsync_thread \<Rightarrow> vsync_thread" where
  "with_control f t = (on_worker f t)\<lparr>vt_controls := vt_controls t + 1\<rparr>"

text \<open>What a wait for a blank can come to: a blank, an interrupted wait, or none, when the timer stands in
  for it; and the timer's own sleep can fail.\<close>

inductive vstep :: "(nat \<Rightarrow> sync_info option) \<Rightarrow> vsync_thread \<Rightarrow> vsync_thread \<Rightarrow> bool" for info where
  set_period: "vstep info t (on_worker (SetVsyncPeriodNs p) t)"
| expect: "vstep info t (on_worker (ExpectVsyncPeriodNs p) t)"
| add_fence: "vstep info t (on_worker (AddLastPresentFence f) t)"
| next_time: "vstep info t (on_worker (\<lambda>w. snd (GetNextVsyncTimestamp info time w)) t)"
| tracking: "vstep info t (with_control (set_tracking b) t)"
| display: "vstep info t (with_control (set_display_on b) t)"
| callback: "vstep info t (with_control (set_callback b) t)"
| control: "0 < vt_controls t \<Longrightarrow> vstep info t
    ((on_worker UpdateVSyncControl t)\<lparr>vt_controls := vt_controls t - 1, vt_notifies := vt_notifies t + 1\<rparr>)"
| stop: "vstep info t ((on_worker stop_thread t)\<lparr>vt_notifies := vt_notifies t + 1\<rparr>)"
| notify: "0 < vt_notifies t \<Longrightarrow> vstep info t (t\<lparr>vt_notifies := vt_notifies t - 1,
    vt_place := (if vt_place t = Asleep then Awake else vt_place t)\<rparr>)"
| spurious: "vt_place t = Asleep \<Longrightarrow> vstep info t (t\<lparr>vt_place := Awake\<rparr>)"
| at_top: "vt_place t = Top \<Longrightarrow> vstep info t (t\<lparr>vt_place := from_top t\<rparr>)"
| stopped: "vt_place t = Stopping \<Longrightarrow> vstep info t (t\<lparr>vt_place := from_stopping t\<rparr>)"
| woken: "vt_place t = Awake \<Longrightarrow> vstep info t (t\<lparr>vt_place := from_awake t\<rparr>)"
| blank: "vt_place t = Waiting \<Longrightarrow> vt_source t \<Longrightarrow> vstep info t (t\<lparr>vt_place := Blank timestamp took\<rparr>)"
| interrupted: "vt_place t = Waiting \<Longrightarrow> vt_source t \<Longrightarrow> vstep info t (t\<lparr>vt_place := Top\<rparr>)"
| timer: "vt_place t = Waiting \<Longrightarrow> GetPhasedVSync info (vw_period (vt_worker t)) now (vt_worker t) = (timestamp, w) \<Longrightarrow>
    vstep info t (t\<lparr>vt_worker := w, vt_place := (if slept then Blank timestamp 0 else Top)\<rparr>)"
| accounted: "vt_place t = Blank timestamp took \<Longrightarrow> vstep info t (after_blank timestamp took t)"
| called: "vt_place t = Calling timestamp period \<Longrightarrow>
    vstep info t (t\<lparr>vt_told := vt_told t @ [(timestamp, period)], vt_place := Top\<rparr>)"

inductive vreach :: "(nat \<Rightarrow> sync_info option) \<Rightarrow> bool \<Rightarrow> vsync_thread \<Rightarrow> bool" for info source where
  start: "vreach info source (vt_init source)"
| step: "vreach info source t \<Longrightarrow> vstep info t u \<Longrightarrow> vreach info source u"

subsection \<open>The prediction\<close>

lemma phased_arith:
  fixes d f :: int
  assumes "0 < f"
  shows "f * (cdiv d f + 1) = (if 0 \<le> d then d - d mod f + f else d + (- d) mod f + f)"
proof (cases "0 \<le> d")
  case True
  have "d = f * (d div f) + d mod f" by simp
  then show ?thesis using True assms by (simp add: cdiv_nonneg algebra_simps)
next
  case False
  have "- d = f * ((- d) div f) + (- d) mod f" by simp
  then show ?thesis using False assms by (simp add: cdiv_neg algebra_simps)
qed

text \<open>the prediction is in phase and ahead. With a blank on record the answer is a whole number of
  periods from it and later than the time asked about, by no more than one period for a time after
  the record: it is the very next blank. For a time before the record it can be the one after.\<close>

theorem GetNextVsyncTimestamp_phase:
  assumes "0 < vw_period w" "GetNextVsyncTimestamp info time w = (r, w2)" "vw_last w2 = Some t"
  shows "vw_period w dvd (r - t) \<and> time < r \<and>
    r \<le> time + (if t \<le> time then vw_period w else 2 * vw_period w - 1)"
proof -
  let ?f = "vw_period w"
  have r: "r = ?f * (cdiv (time - t) ?f + 1) + t"
    using assms(2,3) by (auto simp: GetNextVsyncTimestamp_def GetPhasedVSync_def Let_def phased_def)
  have m: "0 \<le> (time - t) mod ?f" "(time - t) mod ?f < ?f" "0 \<le> (- (time - t)) mod ?f" "(- (time - t)) mod ?f < ?f"
    using assms(1) by simp_all
  have "?f dvd (r - t)" by (simp add: r)
  moreover have "time < r \<and> r \<le> time + (if t \<le> time then ?f else 2 * ?f - 1)"
  proof (cases "t \<le> time")
    case True
    then show ?thesis using r phased_arith [OF assms(1), of "time - t"] m(1,2) by simp
  next
    case False
    then show ?thesis using r phased_arith [OF assms(1), of "time - t"] m(3,4) by simp
  qed
  ultimately show ?thesis by blast
qed

definition demo_vw :: vsync_worker where
  "demo_vw = vw_init\<lparr>vw_enabled := True, vw_last := Some 137, vw_period := 50\<rparr>"

text \<open>The example of the comment, and a time before the record: 37 is in phase and comes first.\<close>

lemma phase_examples:
  "fst (GetNextVsyncTimestamp (\<lambda>_. None) 683 demo_vw) = 687"
  "fst (GetNextVsyncTimestamp (\<lambda>_. None) 0 demo_vw) = 87"
  by (simp_all add: GetNextVsyncTimestamp_def GetPhasedVSync_def UpdateLastVsyncTimeWithPresentTime_def demo_vw_def
      vw_init_def phased_def cdiv_def)

theorem GetNextVsyncTimestamp_phase_witness:
  "(50 :: int) dvd (687 - 137) \<and> (683 :: int) < 687 \<and> (687 :: int) \<le> 683 + 50"
proof -
  have d: "GetNextVsyncTimestamp (\<lambda>_. None) 683 demo_vw = (687, demo_vw)" "vw_last demo_vw = Some 137"
    "vw_period demo_vw = 50"
    by (simp_all add: GetNextVsyncTimestamp_def GetPhasedVSync_def UpdateLastVsyncTimeWithPresentTime_def demo_vw_def
        vw_init_def phased_def cdiv_def)
  from GetNextVsyncTimestamp_phase [OF _ d(1,2)] show ?thesis by (simp add: d(3))
qed

subsection \<open>The switch and the sleep\<close>

definition vsync_inv :: "vsync_thread \<Rightarrow> bool" where
  "vsync_inv t \<longleftrightarrow>
     (vt_controls t = 0 \<longrightarrow> \<not> vw_exit (vt_worker t) \<longrightarrow> vw_enabled (vt_worker t) = ShouldEnable (vt_worker t)) \<and>
     (vt_place t = Asleep \<longrightarrow> vw_enabled (vt_worker t) \<or> vw_exit (vt_worker t) \<longrightarrow> 0 < vt_notifies t)"

text \<open>What the switch is worked out from.\<close>

definition switch_of :: "vsync_worker \<Rightarrow> bool \<times> bool \<times> bool" where
  "switch_of w = (vw_enabled w, vw_exit w, ShouldEnable w)"

lemma switch_same [simp]:
  "switch_of (SetVsyncPeriodNs p w) = switch_of w" "switch_of (ExpectVsyncPeriodNs p w) = switch_of w"
  "switch_of (AddLastPresentFence f w) = switch_of w"
  "switch_of (UpdateLastVsyncTimeWithPresentTime info w) = switch_of w"
  "switch_of (snd (GetPhasedVSync info n c w)) = switch_of w"
  "switch_of (snd (GetNextVsyncTimestamp info c w)) = switch_of w"
  "switch_of (account timestamp took w) = switch_of w"
  by (simp_all add: switch_of_def ShouldEnable_def SetVsyncPeriodNs_def ExpectVsyncPeriodNs_def AddLastPresentFence_def
      UpdateLastVsyncTimeWithPresentTime_def GetPhasedVSync_def GetNextVsyncTimestamp_def account_def Let_def)

lemma vsync_inv_switch:
  assumes "vsync_inv t" "switch_of (vt_worker u) = switch_of (vt_worker t)" "vt_controls u = vt_controls t"
    "vt_notifies u = vt_notifies t" "vt_place u = vt_place t \<or> vt_place u \<noteq> Asleep"
  shows "vsync_inv u"
  using assms by (auto simp: vsync_inv_def switch_of_def)

lemma vstep_inv:
  assumes "vstep info t u" "vsync_inv t" shows "vsync_inv u"
  using assms
proof (cases rule: vstep.cases)
  case (timer now timestamp w slept)
  then have "switch_of w = switch_of (vt_worker t)"
    using switch_same(5) [of info "vw_period (vt_worker t)" now "vt_worker t"] by simp
  then show ?thesis using assms(2) timer by (intro vsync_inv_switch [of t u]) auto
next
  case (accounted timestamp took)
  then show ?thesis using assms(2) by (intro vsync_inv_switch [of t u]) (auto simp: after_blank_def Let_def)
qed (auto simp: vsync_inv_def on_worker_def with_control_def UpdateVSyncControl_def ShouldEnable_def stop_thread_def
    from_top_def from_stopping_def from_awake_def Let_def set_tracking_def set_display_on_def set_callback_def
    SetVsyncPeriodNs_def ExpectVsyncPeriodNs_def AddLastPresentFence_def GetNextVsyncTimestamp_def GetPhasedVSync_def
    UpdateLastVsyncTimeWithPresentTime_def split: if_splits)

lemma vreach_inv: "vreach info source t \<Longrightarrow> vsync_inv t"
proof (induction rule: vreach.induct)
  case start
  show ?case by (simp add: vsync_inv_def vt_init_def vw_init_def ShouldEnable_def)
qed (rule vstep_inv)

text \<open>C32: the switch follows its reasons, and the thread never sleeps through it. Whenever no call is still
  on its way to work the switch out, and the thread is not being stopped, the thread is enabled exactly
  when the display is lit and somebody wants the blanks; and a thread asleep while it is enabled or told to
  end has a notification coming, however the calls interleave.\<close>

theorem vsync_never_sleeps_through:
  assumes "vreach info source t"
  shows "(vt_controls t = 0 \<longrightarrow> \<not> vw_exit (vt_worker t) \<longrightarrow>
      vw_enabled (vt_worker t) = (vw_display_on (vt_worker t) \<and> (vw_tracking (vt_worker t) \<or> vw_callback (vt_worker t)))) \<and>
    (vt_place t = Asleep \<longrightarrow> vw_enabled (vt_worker t) \<or> vw_exit (vt_worker t) \<longrightarrow> 0 < vt_notifies t)"
  using vreach_inv [OF assms] by (simp add: vsync_inv_def ShouldEnable_def)

text \<open>a new period is told when the display has taken it up. The period reported changes only where it
  is set outright, or on a blank the thread accounts for, while a period is expected, when the frame
  that ended ran at it, by the display's own account or by the spacing of the blanks; the phase is taken
  from that blank and nothing is expected any more.\<close>

theorem period_changes_on_blank:
  assumes "vstep info t u" "vw_period (vt_worker u) \<noteq> vw_period (vt_worker t)"
  shows "(\<exists>p. u = on_worker (SetVsyncPeriodNs p) t) \<or>
    (\<exists>timestamp took. vt_place t = Blank timestamp took \<and> vw_enabled (vt_worker t) \<and>
       vw_period (vt_worker u) = vw_expected (vt_worker t) \<and> vw_expected (vt_worker t) \<noteq> 0 \<and>
       took_hold timestamp took (vt_worker t) \<and> vw_expected (vt_worker u) = 0 \<and>
       vw_last (vt_worker u) = Some timestamp)"
  using assms(1)
proof (cases rule: vstep.cases)
  case (timer now timestamp w slept)
  then have "vw_period w = vw_period (vt_worker t)"
    by (auto simp: GetPhasedVSync_def UpdateLastVsyncTimeWithPresentTime_def Let_def split: if_splits)
  then show ?thesis using assms(2) timer by simp
next
  case (accounted timestamp took)
  have same: "took_hold timestamp took (w\<lparr>vw_fresh := b\<rparr>) = took_hold timestamp took w" for w b
    by (simp add: took_hold_def RanAtExpectedPeriod_def LandsOnExpectedPeriod_def split: option.splits)
  show ?thesis
    using assms(2) accounted by (auto simp: after_blank_def account_def Let_def same split: if_splits)
qed (use assms(2) in \<open>auto simp: on_worker_def with_control_def UpdateVSyncControl_def stop_thread_def Let_def
    set_tracking_def set_display_on_def set_callback_def ExpectVsyncPeriodNs_def AddLastPresentFence_def
    GetNextVsyncTimestamp_def GetPhasedVSync_def UpdateLastVsyncTimeWithPresentTime_def split: if_splits\<close>)

theorem vsync_never_sleeps_through_witness:
  "vw_enabled (vt_worker (vt_init True)) = False"
  using vsync_never_sleeps_through [OF vreach.start [of "\<lambda>_. None" True]] by (simp add: vt_init_def vw_init_def)

text \<open>A thread that expects 20 ms on a display at 16, and a blank 20 ms after the one before.\<close>

definition demo_vt :: vsync_thread where
  "demo_vt = (vt_init False)\<lparr>vt_worker := vw_init\<lparr>vw_enabled := True, vw_last := Some 100, vw_expected := 20000000\<rparr>,
     vt_place := Blank 20000100 0\<rparr>"

theorem period_changes_on_blank_witness:
  "\<exists>u. vstep (\<lambda>_. None) demo_vt u \<and> vw_period (vt_worker u) = 20000000 \<and> vw_expected (vt_worker u) = 0"
proof -
  obtain u where u: "u = after_blank 20000100 0 demo_vt" by blast
  have s: "vstep (\<lambda>_. None) demo_vt u" unfolding u by (rule vstep.accounted) (simp add: demo_vt_def)
  have p: "vw_period (vt_worker u) = 20000000" "vw_period (vt_worker demo_vt) = 16666666"
    by (simp_all add: u after_blank_def account_def demo_vt_def vw_init_def took_hold_def LandsOnExpectedPeriod_def
        kDefaultVSPeriodNs_def cdiv_def Let_def vt_init_def)
  then have "vw_period (vt_worker u) \<noteq> vw_period (vt_worker demo_vt)" by simp
  from period_changes_on_blank [OF s this] have "vw_expected (vt_worker u) = 0"
    by (auto simp: on_worker_def SetVsyncPeriodNs_def)
  then show ?thesis using s p by blast
qed

text \<open>Freshness is cleared when tracking is turned on, not when it is turned off: a blank seen while it was on
  is still reported afterwards.\<close>

lemma last_timestamp_outlives_tracking:
  assumes "vw_tracking w"
  shows "GetLastVsyncTimestamp (set_tracking False (account timestamp took w)) = timestamp"
  using assms by (simp add: GetLastVsyncTimestamp_def set_tracking_def account_def Let_def)

end
