(* ===== verification/Configs.thy ===== *)
theory Configs
  imports Float32 OrderedMap
begin

text \<open>
  hwc/HwcDisplayConfigs, display/DrmMode and HwcDisplay::SetConfigGroupsForActiveConfig: the
  configurations a display offers, which of them is preferred, and which may follow one another
  without a blank. The refresh rate keeps binary32.
\<close>

unbundle bit_operations_syntax

subsection \<open>Modes\<close>

record raw_mode =
  rm_clock :: nat
  rm_hdisplay :: nat
  rm_hsync_start :: nat
  rm_hsync_end :: nat
  rm_htotal :: nat
  rm_vdisplay :: nat
  rm_vsync_start :: nat
  rm_vsync_end :: nat
  rm_vtotal :: nat
  rm_vrefresh :: nat
  rm_flags :: "32 word"
  rm_type :: "32 word"
  rm_name :: string

definition GetVRefresh :: "raw_mode \<Rightarrow> f32" where
  "GetVRefresh m = (if rm_clock m = 0 then f32_of_int (int (rm_vrefresh m))
     else f32_mul (f32_div (f32_of_int (int (rm_clock m))) (f32_of_int (int (rm_vtotal m) * int (rm_htotal m)))) (Fin 1000))"

datatype output_type = OtInvalid | OtSystem | OtSdr | OtHdr10

record hwc_config =
  cf_id :: int
  cf_group_id :: nat
  cf_mode :: raw_mode
  cf_output_type :: output_type

record hwc_configs =
  hc_configs :: "(int, hwc_config) omap"
  hc_preferred :: int
  hc_mm_width :: nat
  hc_mm_height :: nat

subsection \<open>The mode of a display without a panel\<close>

definition kHeadlessModeDisplayWidthMm :: nat where "kHeadlessModeDisplayWidthMm = 163"
definition kHeadlessModeDisplayHeightMm :: nat where "kHeadlessModeDisplayHeightMm = 122"
definition kHeadlessModeDisplayWidthPx :: nat where "kHeadlessModeDisplayWidthPx = 1024"
definition kHeadlessModeDisplayHeightPx :: nat where "kHeadlessModeDisplayHeightPx = 768"
definition kHeadlessModeDisplayVRefresh :: nat where "kHeadlessModeDisplayVRefresh = 60"
definition kSyncLen :: nat where "kSyncLen = 10"
definition kBackPorch :: nat where "kBackPorch = 10"
definition kFrontPorch :: nat where "kFrontPorch = 10"
definition kHzInKHz :: nat where "kHzInKHz = 1000"

text \<open>The timings are 16 bits wide, and the clock is worked out in 32 unsigned ones.\<close>

definition wrap16 :: "nat \<Rightarrow> nat" where "wrap16 n = n mod 65536"

definition fake_mode :: "nat \<Rightarrow> nat \<Rightarrow> raw_mode" where
  "fake_mode width height =
     (let headless = (width = 0 \<or> height = 0);
          wd = (if headless then kHeadlessModeDisplayWidthPx else width);
          vd = (if headless then kHeadlessModeDisplayHeightPx else height);
          hs = wrap16 (wd + kFrontPorch); he = wrap16 (hs + kSyncLen); ht = wrap16 (he + kBackPorch);
          vs = wrap16 (vd + kFrontPorch); ve = wrap16 (vs + kSyncLen); vt = wrap16 (ve + kBackPorch)
      in \<lparr>rm_clock = wrap_size (int (ht * vt) * int kHeadlessModeDisplayVRefresh) div kHzInKHz,
          rm_hdisplay = wd, rm_hsync_start = hs, rm_hsync_end = he, rm_htotal = ht,
          rm_vdisplay = vd, rm_vsync_start = vs, rm_vsync_end = ve, rm_vtotal = vt,
          rm_vrefresh = kHeadlessModeDisplayVRefresh, rm_flags = 0, rm_type = 0,
          rm_name = (if headless then ''HEADLESS-MODE'' else ''VIRTUAL-MODE'')\<rparr>)"

text \<open>The generator is its next identifier.\<close>

definition GetFakeMode :: "nat \<Rightarrow> nat \<Rightarrow> int \<Rightarrow> hwc_configs \<times> int" where
  "GetFakeMode width height next_id =
     (\<lparr>hc_configs = om_put next_id \<lparr>cf_id = next_id, cf_group_id = 1, cf_mode = fake_mode width height,
         cf_output_type = OtSystem\<rparr> [], hc_preferred = next_id,
       hc_mm_width = kHeadlessModeDisplayWidthMm, hc_mm_height = kHeadlessModeDisplayHeightMm\<rparr>, next_id + 1)"

subsection \<open>The configurations of a connector\<close>

text \<open>What the connector and the backend say, and the two bits of drm_mode.h, arguments all.\<close>

record connector =
  cn_modes :: "raw_mode list"
  cn_mm_width :: nat
  cn_mm_height :: nat
  cn_external :: bool

record backend_caps =
  bc_hdr_override :: "nat list option"
  bc_filter :: "raw_mode list \<Rightarrow> raw_mode list"

record config_params =
  pr_use_color_pipeline :: bool
  pr_persistent_hdr :: bool
  pr_external_hdr :: bool
  pr_caps :: "backend_caps option"
  pr_3d_mask :: "32 word"
  pr_preferred_bit :: "32 word"

definition enable_hdr :: "connector \<Rightarrow> config_params \<Rightarrow> bool" where
  "enable_hdr c p =
     (let e = pr_use_color_pipeline p \<and> (if cn_external c then pr_external_hdr p else pr_persistent_hdr p)
      in case pr_caps p of None \<Rightarrow> e
         | Some b \<Rightarrow> (case bc_hdr_override b of None \<Rightarrow> e | Some types \<Rightarrow> types \<noteq> []))"

definition usable_modes :: "connector \<Rightarrow> config_params \<Rightarrow> raw_mode list" where
  "usable_modes c p =
     (let flat = filter (\<lambda>m. rm_flags m AND pr_3d_mask p = 0) (cn_modes c)
      in case pr_caps p of None \<Rightarrow> flat | Some b \<Rightarrow> bc_filter b flat)"

record generator_state =
  gs_next_id :: int
  gs_next_group :: nat
  gs_map :: "(int, hwc_config) omap"
  gs_preferred :: int

definition add_config :: "config_params \<Rightarrow> output_type \<times> raw_mode \<Rightarrow> generator_state \<Rightarrow> generator_state" where
  "add_config p om s =
     (let new_id = gs_next_id s; new_group = gs_next_group s; mode = snd om
      in s\<lparr>gs_next_id := new_id + 1, gs_next_group := new_group + 1,
           gs_map := om_put new_id \<lparr>cf_id = new_id, cf_group_id = new_group, cf_mode = mode,
                       cf_output_type = fst om\<rparr> (gs_map s),
           gs_preferred := (if rm_type mode AND pr_preferred_bit p \<noteq> 0 \<and> gs_preferred s = 0
                            then new_id else gs_preferred s)\<rparr>)"

definition output_types :: "bool \<Rightarrow> output_type list" where
  "output_types hdr = (if hdr then [OtSystem, OtSdr] else [OtSdr])"

definition pairs_of :: "connector \<Rightarrow> config_params \<Rightarrow> (output_type \<times> raw_mode) list" where
  "pairs_of c p = concat (map (\<lambda>t. map (Pair t) (usable_modes c p)) (output_types (enable_hdr c p)))"

definition GenerateDisplayConfigs :: "connector \<Rightarrow> config_params \<Rightarrow> int \<Rightarrow> hwc_configs option \<times> int" where
  "GenerateDisplayConfigs c p next_id =
     (if cn_modes c = [] then (None, next_id)
      else let s = fold (add_config p) (pairs_of c p)
                     \<lparr>gs_next_id = next_id, gs_next_group = 1, gs_map = [], gs_preferred = 0\<rparr>
           in if gs_map s = [] then (None, gs_next_id s)
              else (Some \<lparr>hc_configs = gs_map s,
                     hc_preferred = (if gs_preferred s = 0 then fst (hd (gs_map s)) else gs_preferred s),
                     hc_mm_width = cn_mm_width c, hc_mm_height = cn_mm_height c\<rparr>, gs_next_id s))"

subsection \<open>Groups\<close>

definition kMinFpsDelta :: f32 where "kMinFpsDelta = Fin 1"

definition too_close :: "hwc_config \<Rightarrow> hwc_config \<Rightarrow> bool" where
  "too_close c1 c2 \<longleftrightarrow> cf_group_id c1 = cf_group_id c2 \<and> cf_output_type c1 = cf_output_type c2 \<and>
     \<not> f32_le kMinFpsDelta (f32_abs (f32_sub (GetVRefresh (cf_mode c1)) (GetVRefresh (cf_mode c2))))"

text \<open>The inner loop for one configuration, and the outer loop; the set of what is to be erased is a list.\<close>

definition mark_close :: "(int \<times> hwc_config) \<Rightarrow> (int \<times> hwc_config) \<Rightarrow> int list \<Rightarrow> int list" where
  "mark_close e1 e2 erase =
     (if fst e1 = fst e2 \<or> \<not> too_close (snd e1) (snd e2) \<or> fst e2 \<in> set erase then erase else fst e2 # erase)"

definition mark_from :: "(int, hwc_config) omap \<Rightarrow> (int \<times> hwc_config) \<Rightarrow> int list \<Rightarrow> int list" where
  "mark_from m e1 erase = (if fst e1 \<in> set erase then erase else fold (mark_close e1) m erase)"

definition configs_to_erase :: "(int, hwc_config) omap \<Rightarrow> int list" where
  "configs_to_erase m = fold (mark_from m) m []"

definition SanitizeGroups :: "hwc_configs \<Rightarrow> hwc_configs" where
  "SanitizeGroups h = h\<lparr>hc_configs := fold om_del (configs_to_erase (hc_configs h)) (hc_configs h)\<rparr>"

text \<open>The active configuration's group, for every configuration a test commit reaches without a blank;
  the loop visits the map in the order of its identifiers.\<close>

definition regroup :: "(hwc_config \<Rightarrow> bool) \<Rightarrow> nat \<Rightarrow> hwc_config \<Rightarrow> hwc_config" where
  "regroup seamless grp c = (if seamless c then c\<lparr>cf_group_id := grp\<rparr> else c)"

definition SetConfigGroupsForActiveConfig :: "(hwc_config \<Rightarrow> bool) \<Rightarrow> int \<Rightarrow> hwc_configs \<Rightarrow> hwc_configs" where
  "SetConfigGroupsForActiveConfig seamless active h = (case om_get (hc_configs h) active of None \<Rightarrow> h
     | Some a \<Rightarrow> SanitizeGroups (h\<lparr>hc_configs :=
          map (\<lambda>e. (fst e, regroup seamless (cf_group_id a) (snd e))) (hc_configs h)\<rparr>))"

subsection \<open>What is generated\<close>

definition config_at :: "int \<Rightarrow> (output_type \<times> raw_mode) list \<Rightarrow> nat \<Rightarrow> int \<times> hwc_config" where
  "config_at next_id ps i = (next_id + int i, \<lparr>cf_id = next_id + int i, cf_group_id = Suc i,
     cf_mode = snd (ps ! i), cf_output_type = fst (ps ! i)\<rparr>)"

definition preferred_at :: "config_params \<Rightarrow> (output_type \<times> raw_mode) list \<Rightarrow> nat" where
  "preferred_at p ps = find_pos (\<lambda>om. rm_type (snd om) AND pr_preferred_bit p \<noteq> 0) ps"

lemma om_put_last: "\<forall>x\<in>set m. fst x < k \<Longrightarrow> om_put k v m = m @ [(k, v)]"
  by (induction m) auto

lemma find_pos_append:
  "find_pos P (xs @ ys) = (if find_pos P xs < length xs then find_pos P xs else length xs + find_pos P ys)"
  by (induction xs) auto

lemma fold_add_config:
  assumes "0 < n"
  shows "fold (add_config p) ps \<lparr>gs_next_id = n, gs_next_group = 1, gs_map = [], gs_preferred = 0\<rparr> =
    \<lparr>gs_next_id = n + int (length ps), gs_next_group = Suc (length ps),
     gs_map = map (config_at n ps) [0..<length ps],
     gs_preferred = (if preferred_at p ps < length ps then n + int (preferred_at p ps) else 0)\<rparr>"
proof (induction ps rule: rev_induct)
  case Nil
  show ?case by (simp add: preferred_at_def)
next
  case (snoc om ps)
  have m: "map (config_at n (ps @ [om])) [0..<length ps] = map (config_at n ps) [0..<length ps]"
    by (simp add: config_at_def nth_append)
  have last: "om_put (n + int (length ps)) v (map (config_at n ps) [0..<length ps]) =
      map (config_at n ps) [0..<length ps] @ [(n + int (length ps), v)]" for v
    by (rule om_put_last) (auto simp: config_at_def)
  have at: "config_at n (ps @ [om]) (length ps) = (n + int (length ps), \<lparr>cf_id = n + int (length ps),
      cf_group_id = Suc (length ps), cf_mode = snd om, cf_output_type = fst om\<rparr>)"
    by (simp add: config_at_def)
  have pref: "preferred_at p (ps @ [om]) = (if preferred_at p ps < length ps then preferred_at p ps
      else length ps + (if rm_type (snd om) AND pr_preferred_bit p \<noteq> 0 then 0 else 1))"
    by (simp add: preferred_at_def find_pos_append)
  have pos: "n + int k \<noteq> 0" for k using assms by simp
  have e: "fold (add_config p) (ps @ [om]) s = add_config p om (fold (add_config p) ps s)" for s by simp
  show ?case
    unfolding e snoc by (simp add: add_config_def Let_def m last at pref pos)
qed

text \<open>the configurations of a connector. Their identifiers are consecutive and new, one for each usable
  mode in each output type, in order, each in a group of its own; the preferred one exists, and is the
  first whose mode the panel prefers, or the first of all. The generator's next identifier is past
  them, so no identifier is ever given twice.\<close>

theorem GenerateDisplayConfigs_spec:
  assumes "0 < n" "GenerateDisplayConfigs c p n = (res, n2)"
  shows "n2 = (if cn_modes c = [] then n else n + int (length (pairs_of c p))) \<and>
    (case res of
       None \<Rightarrow> cn_modes c = [] \<or> pairs_of c p = []
     | Some h \<Rightarrow> hc_configs h = map (config_at n (pairs_of c p)) [0..<length (pairs_of c p)] \<and>
         om_get (hc_configs h) (hc_preferred h) =
           Some (snd (config_at n (pairs_of c p)
             (if preferred_at p (pairs_of c p) < length (pairs_of c p) then preferred_at p (pairs_of c p) else 0))))"
proof -
  let ?ps = "pairs_of c p"
  have get: "om_get (map (config_at n ?ps) [0..<length ?ps]) (n + int i) = Some (snd (config_at n ?ps i))"
    if "i < length ?ps" for i
  proof (rule om_in_get)
    show "om_ok (map (config_at n ?ps) [0..<length ?ps])"
      by (simp add: om_ok_def config_at_def sorted_wrt_map sorted_wrt_mono_rel [of _ "(<)"] sorted_wrt_upt o_def)
    show "(n + int i, snd (config_at n ?ps i)) \<in> set (map (config_at n ?ps) [0..<length ?ps])"
      using that by (force simp: config_at_def)
  qed
  have hd: "fst (List.hd (map (config_at n ?ps) [0..<length ?ps])) = n" if "?ps \<noteq> []"
    using that by (simp add: hd_map config_at_def)
  have pos: "n + int k \<noteq> 0" for k using assms(1) by simp
  have g: "GenerateDisplayConfigs c p n = (if cn_modes c = [] then (None, n)
      else if ?ps = [] then (None, n + int (length ?ps))
      else (Some \<lparr>hc_configs = map (config_at n ?ps) [0..<length ?ps],
          hc_preferred = n + int (if preferred_at p ?ps < length ?ps then preferred_at p ?ps else 0),
          hc_mm_width = cn_mm_width c, hc_mm_height = cn_mm_height c\<rparr>, n + int (length ?ps)))"
    unfolding GenerateDisplayConfigs_def Let_def fold_add_config [OF assms(1)] using hd pos by simp
  have first: "om_get (map (config_at n ?ps) [0..<length ?ps]) n = Some (snd (config_at n ?ps 0))" if "?ps \<noteq> []"
    using get [of 0] that by simp
  show ?thesis
    using assms(2) get first unfolding g by (auto split: if_splits)
qed

subsection \<open>What the sanitizing leaves\<close>

lemma f32_abs_sub: "f32_abs (f32_sub a b) = f32_abs (f32_sub b a)"
proof -
  have "f32_of_rat (- x) = f32_neg (f32_of_rat x)" for x
    by (auto simp: f32_of_rat_def Let_def rnd_uminus)
  then have "f32_abs (f32_of_rat (- x)) = f32_abs (f32_of_rat x)" for x
    by (cases "f32_of_rat x") simp_all
  from this [of "y - x" for x y] show ?thesis by (cases a; cases b) (simp_all add: f32_sub_def)
qed

lemma too_close_sym: "too_close a b \<Longrightarrow> too_close b a"
  using f32_abs_sub [of "GetVRefresh (cf_mode a)" "GetVRefresh (cf_mode b)"] by (simp add: too_close_def)

lemma set_mark_close:
  "set (fold (mark_close e1) m E) = set E \<union> {k. \<exists>e2\<in>set m. k = fst e2 \<and> fst e1 \<noteq> fst e2 \<and> too_close (snd e1) (snd e2)}"
  by (induction m arbitrary: E) (auto simp: mark_close_def)

definition mark_inv :: "(int, hwc_config) omap \<Rightarrow> nat \<Rightarrow> int list \<Rightarrow> bool" where
  "mark_inv m k E \<longleftrightarrow>
     (\<forall>i<k. fst (m ! i) \<notin> set E \<longrightarrow> (\<forall>e\<in>set m. fst e \<noteq> fst (m ! i) \<longrightarrow> too_close (snd (m ! i)) (snd e) \<longrightarrow> fst e \<in> set E)) \<and>
     (\<forall>e\<in>set m. fst e \<in> set E \<longrightarrow> (\<exists>i<k. fst (m ! i) \<notin> set E \<and> fst (m ! i) \<noteq> fst e \<and> too_close (snd (m ! i)) (snd e)))"

lemma mark_from_inv:
  assumes ok: "om_ok m" and k: "k < length m" and inv: "mark_inv m k E"
  shows "mark_inv m (Suc k) (mark_from m (m ! k) E)"
proof (cases "fst (m ! k) \<in> set E")
  case True
  then show ?thesis using inv by (auto simp: mark_from_def mark_inv_def less_Suc_eq)
next
  case False
  define E2 where "E2 = mark_from m (m ! k) E"
  have E2: "x \<in> set E2 \<longleftrightarrow> x \<in> set E \<or> (\<exists>e\<in>set m. x = fst e \<and> fst (m ! k) \<noteq> fst e \<and> too_close (snd (m ! k)) (snd e))" for x
    using False by (auto simp: E2_def mark_from_def set_mark_close)
  have same: "e = f" if "e \<in> set m" "f \<in> set m" "fst e = fst f" for e f
    using that ok by (metis eq_key_imp_eq_value om_ok_def prod.collapse strict_sorted_iff)
  have mk: "m ! k \<in> set m" using k by simp
  have own: "fst (m ! k) \<notin> set E2" using False E2 by auto
  have stays: "fst (m ! i) \<notin> set E2" if i: "i < k" "fst (m ! i) \<notin> set E" for i
  proof
    assume "fst (m ! i) \<in> set E2"
    then obtain e where "e \<in> set m" "fst (m ! i) = fst e" "fst (m ! k) \<noteq> fst e" "too_close (snd (m ! k)) (snd e)"
      using E2 i(2) by blast
    then have "fst (m ! k) \<noteq> fst (m ! i)" "too_close (snd (m ! i)) (snd (m ! k))"
      using same [of e "m ! i"] i(1) k too_close_sym by auto
    then have "fst (m ! k) \<in> set E" using inv i mk unfolding mark_inv_def by blast
    then show False using False by simp
  qed
  have one: "\<forall>e\<in>set m. fst e \<noteq> fst (m ! i) \<longrightarrow> too_close (snd (m ! i)) (snd e) \<longrightarrow> fst e \<in> set E2"
    if i: "i < Suc k" "fst (m ! i) \<notin> set E2" for i
  proof (cases "i = k")
    case True
    then show ?thesis using E2 by metis
  next
    case False
    then have "i < k" "fst (m ! i) \<notin> set E" using i E2 by auto
    then show ?thesis using inv E2 unfolding mark_inv_def by blast
  qed
  have two: "\<exists>i<Suc k. fst (m ! i) \<notin> set E2 \<and> fst (m ! i) \<noteq> fst e \<and> too_close (snd (m ! i)) (snd e)"
    if e: "e \<in> set m" "fst e \<in> set E2" for e
  proof (cases "fst e \<in> set E")
    case True
    then obtain i where "i < k" "fst (m ! i) \<notin> set E" "fst (m ! i) \<noteq> fst e" "too_close (snd (m ! i)) (snd e)"
      using inv e(1) unfolding mark_inv_def by blast
    then show ?thesis using stays less_SucI by blast
  next
    case False
    then obtain f where "f \<in> set m" "fst e = fst f" "fst (m ! k) \<noteq> fst f" "too_close (snd (m ! k)) (snd f)"
      using E2 e(2) by blast
    then show ?thesis using own same [of f e] e(1) by (intro exI [of _ k]) auto
  qed
  show ?thesis using one two unfolding mark_inv_def E2_def [symmetric] by blast
qed

lemma configs_to_erase_inv: "om_ok m \<Longrightarrow> mark_inv m (length m) (configs_to_erase m)"
proof -
  assume ok: "om_ok m"
  have "k \<le> length m \<Longrightarrow> mark_inv m k (fold (mark_from m) (take k m) [])" for k
  proof (induction k)
    case (Suc k)
    then have "fold (mark_from m) (take (Suc k) m) [] = mark_from m (m ! k) (fold (mark_from m) (take k m) [])"
      by (simp add: take_Suc_conv_app_nth)
    then show ?case using Suc mark_from_inv [OF ok] by simp
  qed (simp add: mark_inv_def)
  from this [of "length m"] show ?thesis by (simp add: configs_to_erase_def)
qed

lemma fold_om_del: "fold om_del ks m = filter (\<lambda>e. fst e \<notin> set ks) m"
  by (induction ks arbitrary: m) (auto simp: om_del_def intro!: filter_cong)

definition left_by :: "hwc_configs \<Rightarrow> (int \<times> hwc_config) set" where
  "left_by h = set (hc_configs (SanitizeGroups h))"

text \<open>C40: what the sanitizing of the groups leaves. No two configurations that are left in one group, of one
  output type, are within a hertz of each other, and each that was taken out is within a hertz of one
  that is left: nothing goes that did not have to.\<close>

theorem SanitizeGroups_spec:
  assumes "om_ok (hc_configs h)"
  shows "left_by h \<subseteq> set (hc_configs h) \<and>
    (\<forall>a\<in>left_by h. \<forall>b\<in>left_by h. fst a \<noteq> fst b \<longrightarrow> \<not> too_close (snd a) (snd b)) \<and>
    (\<forall>b\<in>set (hc_configs h) - left_by h. \<exists>a\<in>left_by h. fst a \<noteq> fst b \<and> too_close (snd a) (snd b))"
proof -
  let ?m = "hc_configs h" and ?E = "configs_to_erase (hc_configs h)"
  have l: "left_by h = {e \<in> set ?m. fst e \<notin> set ?E}" by (simp add: left_by_def SanitizeGroups_def fold_om_del)
  have inv: "mark_inv ?m (length ?m) ?E" by (rule configs_to_erase_inv [OF assms])
  have apart: "\<not> too_close (snd a) (snd b)" if ab: "a \<in> left_by h" "b \<in> left_by h" "fst a \<noteq> fst b" for a b
  proof -
    obtain i where i: "i < length ?m" "?m ! i = a" using ab(1) l by (auto simp: in_set_conv_nth)
    have "fst (?m ! i) \<notin> set ?E" "b \<in> set ?m" "fst b \<notin> set ?E" "fst b \<noteq> fst (?m ! i)" using ab l i(2) by auto
    then have "\<not> too_close (snd (?m ! i)) (snd b)" using inv i(1) unfolding mark_inv_def by blast
    then show ?thesis by (simp add: i(2))
  qed
  have near: "\<exists>a\<in>left_by h. fst a \<noteq> fst b \<and> too_close (snd a) (snd b)" if b: "b \<in> set ?m - left_by h" for b
  proof -
    have "b \<in> set ?m" "fst b \<in> set ?E" using b l by auto
    then obtain i where "i < length ?m" "fst (?m ! i) \<notin> set ?E" "fst (?m ! i) \<noteq> fst b" "too_close (snd (?m ! i)) (snd b)"
      using inv unfolding mark_inv_def by blast
    then show ?thesis using l by (intro bexI [of _ "?m ! i"]) auto
  qed
  show ?thesis using apart near l by blast
qed

subsection \<open>Two modes of one rate\<close>

definition sixty :: "32 word \<Rightarrow> raw_mode" where
  "sixty type_bits = (fake_mode 0 0)\<lparr>rm_clock := 0, rm_type := type_bits\<rparr>"

definition two_modes :: connector where
  "two_modes = \<lparr>cn_modes = [sixty 0, sixty 8], cn_mm_width = 100, cn_mm_height = 100, cn_external = False\<rparr>"

definition plain_params :: config_params where
  "plain_params = \<lparr>pr_use_color_pipeline = False, pr_persistent_hdr = False, pr_external_hdr = False,
     pr_caps = None, pr_3d_mask = 0x1F, pr_preferred_bit = 8\<rparr>"

definition two_configs :: hwc_configs where
  "two_configs = \<lparr>hc_configs = [(1, \<lparr>cf_id = 1, cf_group_id = 1, cf_mode = sixty 0, cf_output_type = OtSdr\<rparr>),
     (2, \<lparr>cf_id = 2, cf_group_id = 2, cf_mode = sixty 8, cf_output_type = OtSdr\<rparr>)], hc_preferred = 2,
     hc_mm_width = 100, hc_mm_height = 100\<rparr>"

lemma two_pairs: "pairs_of two_modes plain_params = [(OtSdr, sixty 0), (OtSdr, sixty 8)]"
  by (simp add: pairs_of_def usable_modes_def two_modes_def plain_params_def enable_hdr_def output_types_def sixty_def
      fake_mode_def Let_def)

lemma two_configs: "GenerateDisplayConfigs two_modes plain_params 1 = (Some two_configs, 3)"
  unfolding GenerateDisplayConfigs_def two_pairs
  by (simp add: add_config_def Let_def two_modes_def two_configs_def sixty_def plain_params_def)

theorem GenerateDisplayConfigs_spec_witness:
  "om_get (hc_configs two_configs) (hc_preferred two_configs) =
     Some (snd (config_at 1 (pairs_of two_modes plain_params) (preferred_at plain_params (pairs_of two_modes plain_params))))"
proof -
  have "preferred_at plain_params (pairs_of two_modes plain_params) < length (pairs_of two_modes plain_params)"
    unfolding two_pairs by (simp add: preferred_at_def sixty_def plain_params_def)
  from GenerateDisplayConfigs_spec [OF zero_less_one two_configs, unfolded if_P [OF this] option.case] show ?thesis
    by (elim conjE) assumption
qed

lemma two_configs_ok: "om_ok (hc_configs two_configs)"
  by (simp add: two_configs_def om_ok_def)

theorem SanitizeGroups_spec_witness: "left_by two_configs \<subseteq> set (hc_configs two_configs)"
  using SanitizeGroups_spec [OF two_configs_ok] by blast

text \<open>The configuration the display runs is the second of two of the same rate, and both can follow one
  another without a blank: the sanitizing takes the active one out.\<close>

lemma sixty_rate: "GetVRefresh (sixty t) = Fin 60"
  using f32_of_int_Fin [of 60] by (simp add: GetVRefresh_def sixty_def fake_mode_def Let_def kHeadlessModeDisplayVRefresh_def)

lemma active_config_taken_out:
  "hc_preferred two_configs = 2 \<and>
   om_get (hc_configs (SetConfigGroupsForActiveConfig (\<lambda>_. True) 2 two_configs)) 2 = None"
proof -
  have "f32_sub (Fin 60) (Fin 60) = Fin 0" by code_simp
  then show ?thesis
    by (simp add: two_configs_def SetConfigGroupsForActiveConfig_def om_get_def SanitizeGroups_def regroup_def
        configs_to_erase_def mark_from_def mark_close_def too_close_def sixty_rate kMinFpsDelta_def om_del_def f32_le_def)
qed

end
