(* ===== verification/ScratchPool.thy ===== *)
theory ScratchPool
  imports Prelude
begin

text \<open>
  tegra/ScratchPool: the buffers the image engine merges into, taken strictly in turn. Beside a buffer goes
  the fence of the flip after which the panel no longer reads it. A flip's fence is named by the number
  of the flip; what the vendor's allocator gives (or refuses) is an argument of \<open>Create\<close>. The pool is
  judged against the panel: which frames showed which buffer, and until when each was read.
\<close>

subsection \<open>The buffers\<close>

record zone_buffer =
  zb_fd :: int
  zb_pitch :: nat
  zb_height :: nat
  zb_size :: nat
  zb_rows :: "nat list list"

definition kSlotColours :: "nat list" where "kSlotColours = [0xff0000ff, 0xff00ff00, 0xffff0000]"
definition kStripeStep :: nat where "kStripeStep = 64"
definition kStripeDark :: nat where "kStripeDark = 0xff000000"

definition PaintSlot :: "zone_buffer \<Rightarrow> nat \<Rightarrow> zone_buffer" where
  "PaintSlot b index =
     (let colour = kSlotColours ! (index mod length kSlotColours);
          row = map (\<lambda>x. if (x div kStripeStep) mod 2 = 0 then colour else kStripeDark) [0..<zb_pitch b div 4]
      in b\<lparr>zb_rows := replicate (zb_height b) row\<rparr>)"

record pool =
  po_width :: nat
  po_height :: nat
  po_buffers :: "zone_buffer list"
  po_freed :: "nat option list"
  po_showing :: nat
  po_anything_showing :: bool
  po_at :: nat

fun cut_slots :: "(nat \<Rightarrow> zone_buffer option) \<Rightarrow> nat list \<Rightarrow> zone_buffer list option" where
  "cut_slots alloc [] = Some []"
| "cut_slots alloc (i # is) = (case alloc i of
     None \<Rightarrow> None
   | Some b \<Rightarrow> map_option (\<lambda>bs. PaintSlot b i # bs) (cut_slots alloc is))"

definition Create :: "nat \<Rightarrow> nat \<Rightarrow> nat \<Rightarrow> bool \<Rightarrow> (nat \<Rightarrow> zone_buffer option) \<Rightarrow> pool option" where
  "Create width height n_slots offers alloc =
     (if width = 0 \<or> height = 0 \<or> n_slots = 0 then None
      else if \<not> offers then None
      else map_option (\<lambda>bs. \<lparr>po_width = width, po_height = height, po_buffers = bs, po_freed = replicate n_slots None,
             po_showing = 0, po_anything_showing = False, po_at = 0\<rparr>) (cut_slots alloc [0..<n_slots]))"

text \<open>The slot in turn with the fence beside it.\<close>

definition Next :: "pool \<Rightarrow> (nat \<times> nat option) option \<times> pool" where
  "Next p = (if po_freed p = [] then (None, p)
     else let k = (po_at p + 1) mod length (po_freed p)
          in (Some (k, po_freed p ! k), p\<lparr>po_at := k\<rparr>))"

definition Rewind :: "pool \<Rightarrow> pool" where
  "Rewind p = (if po_freed p = [] then p
     else p\<lparr>po_at := (po_at p + length (po_freed p) - 1) mod length (po_freed p)\<rparr>)"

definition Presented :: "nat option \<Rightarrow> pool \<Rightarrow> pool" where
  "Presented fence p =
     (let freed = (if po_anything_showing p \<and> po_showing p < length (po_freed p)
                   then (po_freed p)[po_showing p := fence] else po_freed p)
      in p\<lparr>po_freed := freed[po_at p := None], po_showing := po_at p, po_anything_showing := True\<rparr>)"

definition held_bytes :: "pool \<Rightarrow> nat" where "held_bytes p = sum_list (map zb_size (po_buffers p))"

subsection \<open>The pool against the panel\<close>

text \<open>
  \<open>S\<close> lists, for each flip that went up, the slot it showed, if any. Frame \<open>i\<close> is read from the moment of
  its own fence to that of flip \<open>i + 1\<close>; the fence of a later flip comes due later. So a writer that
  waits for \<open>ready\<close> meets no frame that shows slot \<open>k\<close> if each of them is before the flip of \<open>ready\<close>.
\<close>

definition replaced_by :: "nat option list \<Rightarrow> nat \<Rightarrow> nat option \<Rightarrow> bool" where
  "replaced_by S k ready \<longleftrightarrow> (\<forall>i<length S. S ! i = Some k \<longrightarrow> (\<exists>x. ready = Some x \<and> i < x))"

definition pool_ok :: "nat option list \<Rightarrow> pool \<Rightarrow> bool" where
  "pool_ok S p \<longleftrightarrow> 2 \<le> length (po_freed p) \<and> length (po_buffers p) = length (po_freed p) \<and>
     po_at p < length (po_freed p) \<and> po_showing p < length (po_freed p) \<and>
     (\<forall>k<length (po_freed p). po_anything_showing p \<and> k = po_showing p \<or> replaced_by S k (po_freed p ! k)) \<and>
     (\<not> po_anything_showing p \<longrightarrow> (\<forall>i<length S. S ! i = None))"

text \<open>The turn stands at the slot on the panel, or one further while a drawing is under way.\<close>

definition in_turn :: "pool \<Rightarrow> bool" where "in_turn p \<longleftrightarrow> po_at p = po_showing p"

definition one_ahead :: "pool \<Rightarrow> bool" where
  "one_ahead p \<longleftrightarrow> po_at p = (po_showing p + 1) mod length (po_freed p)"

lemma replaced_by_append: "replaced_by S k r \<Longrightarrow> s \<noteq> Some k \<Longrightarrow> replaced_by (S @ [s]) k r"
  by (auto simp: replaced_by_def nth_append less_Suc_eq)

lemma replaced_by_last: "replaced_by (S @ [s]) k (Some (length S + 1))"
  by (auto simp: replaced_by_def)

lemma turn_differs: "2 \<le> n \<Longrightarrow> a < n \<Longrightarrow> (a + 1) mod n \<noteq> (a :: nat)"
  by (cases "a + 1 = n") (auto simp: mod_if)

lemma turn_back: "a < n \<Longrightarrow> ((a + 1) mod n + n - 1) mod n = (a :: nat)"
  by (cases "a + 1 = n") (auto simp: mod_if)

lemma Create_ok:
  assumes "Create w h n offers alloc = Some p" "2 \<le> n"
  shows "pool_ok [] p \<and> in_turn p \<and> \<not> po_anything_showing p"
proof -
  have "length bs = length is" if "cut_slots alloc is = Some bs" for bs "is"
    using that by (induction "is" arbitrary: bs) (auto split: option.splits)
  then show ?thesis
    using assms by (auto simp: Create_def pool_ok_def in_turn_def replaced_by_def split: if_splits)
qed

lemma Next_ok:
  assumes "pool_ok S p" "in_turn p" "Next p = (t, p2)"
  shows "\<exists>k r. t = Some (k, r) \<and> k = po_at p2 \<and> k < length (po_freed p) \<and> k \<noteq> po_showing p \<and> replaced_by S k r \<and>
    pool_ok S p2 \<and> one_ahead p2 \<and> po_showing p2 = po_showing p \<and> po_anything_showing p2 = po_anything_showing p \<and>
    po_buffers p2 = po_buffers p \<and> Rewind p2 = p"
proof -
  let ?n = "length (po_freed p)" and ?k = "(po_showing p + 1) mod length (po_freed p)"
  have p: "2 \<le> ?n" "po_showing p < ?n" "po_at p = po_showing p" using assms(1,2) by (auto simp: pool_ok_def in_turn_def)
  have ne: "po_freed p \<noteq> []" using p(1) by auto
  have "0 < ?n" using p(1) by linarith
  then have k: "?k < ?n" "?k \<noteq> po_showing p" using turn_differs [OF p(1,2)] by simp_all
  have t: "t = Some (?k, po_freed p ! ?k)" "p2 = p\<lparr>po_at := ?k\<rparr>"
    using assms(3) ne p(3) by (auto simp: Next_def Let_def)
  have "replaced_by S ?k (po_freed p ! ?k)" using assms(1) k by (auto simp: pool_ok_def)
  moreover have "Rewind p2 = p" using ne turn_back [OF p(2)] p(3) by (simp add: t(2) Rewind_def)
  ultimately show ?thesis using k assms(1) by (simp add: t pool_ok_def one_ahead_def)
qed

lemma Rewind_ok:
  assumes "pool_ok S p" "one_ahead p"
  shows "pool_ok S (Rewind p) \<and> in_turn (Rewind p) \<and> po_showing (Rewind p) = po_showing p \<and>
    po_anything_showing (Rewind p) = po_anything_showing p \<and> po_buffers (Rewind p) = po_buffers p \<and>
    po_freed (Rewind p) = po_freed p \<and> po_width (Rewind p) = po_width p \<and> po_height (Rewind p) = po_height p"
proof -
  have p: "po_freed p \<noteq> []" "po_showing p < length (po_freed p)" using assms(1) by (auto simp: pool_ok_def)
  have "(po_at p + length (po_freed p) - 1) mod length (po_freed p) = po_showing p"
    using turn_back [OF p(2)] assms(2) by (simp add: one_ahead_def)
  then show ?thesis using assms p by (simp add: Rewind_def pool_ok_def in_turn_def)
qed

text \<open>A frame that shows the slot in turn, told with the fence of its flip.\<close>

lemma Presented_ok:
  assumes "pool_ok S p" "one_ahead p"
  shows "pool_ok (S @ [Some (po_at p)]) (Presented (Some (length S)) p) \<and> in_turn (Presented (Some (length S)) p) \<and>
    po_anything_showing (Presented (Some (length S)) p) \<and> po_showing (Presented (Some (length S)) p) = po_at p \<and>
    po_buffers (Presented (Some (length S)) p) = po_buffers p"
proof -
  let ?q = "Presented (Some (length S)) p" and ?S = "S @ [Some (po_at p)]" and ?n = "length (po_freed p)"
  have p: "2 \<le> ?n" "po_showing p < ?n" "po_at p < ?n" "length (po_buffers p) = ?n" using assms(1) by (auto simp: pool_ok_def)
  have ne: "po_at p \<noteq> po_showing p" using turn_differs [OF p(1,2)] assms(2) by (simp add: one_ahead_def)
  have len: "length (po_freed ?q) = ?n" by (simp add: Presented_def Let_def)
  have "replaced_by ?S k (po_freed ?q ! k)" if k: "k < ?n" "k \<noteq> po_at p" for k
  proof (cases "po_anything_showing p \<and> k = po_showing p")
    case True
    then have "po_freed ?q ! k = Some (length S)" using k p(2) by (simp add: Presented_def Let_def)
    moreover have "?S ! i = Some k \<longrightarrow> i < length S" if "i < length ?S" for i
      using that k(2) by (auto simp: nth_append less_Suc_eq)
    ultimately show ?thesis by (simp add: replaced_by_def)
  next
    case False
    then have "replaced_by S k (po_freed p ! k)" using assms(1) k(1) unfolding pool_ok_def by blast
    moreover have "po_freed ?q ! k = po_freed p ! k" using False k(2) by (auto simp: Presented_def Let_def)
    ultimately show ?thesis using replaced_by_append [of S k _ "Some (po_at p)"] k(2) by simp
  qed
  moreover have "po_showing ?q = po_at p" "po_at ?q = po_at p" "po_anything_showing ?q" "po_buffers ?q = po_buffers p"
    by (simp_all add: Presented_def Let_def)
  ultimately show ?thesis using p len unfolding pool_ok_def in_turn_def by auto
qed

text \<open>A frame without a group, and one that shows again what the panel shows.\<close>

lemma pool_ok_None: "pool_ok S p \<Longrightarrow> pool_ok (S @ [None]) p"
  by (auto simp: pool_ok_def nth_append less_Suc_eq intro!: replaced_by_append)

lemma pool_ok_again:
  assumes "pool_ok S p" "po_anything_showing p"
  shows "pool_ok (S @ [Some (po_showing p)]) p"
proof -
  have "replaced_by (S @ [Some (po_showing p)]) k (po_freed p ! k)" if "k < length (po_freed p)" "k \<noteq> po_showing p" for k
    using that assms(1) by (auto simp: pool_ok_def intro!: replaced_by_append)
  then show ?thesis using assms by (auto simp: pool_ok_def)
qed

end
