(* ===== verification/Request.thy ===== *)
theory Request
  imports Planes Configs
begin

text \<open>
  tegra/TegraAtomicStateManager.cpp, the half that describes: a plan of layers on planes becomes the
  windows of one flip of the controller, the group of layers the image engine draws, and what the
  cursor unit shows. Flags of the controller are a set of names; which bit each is belongs to the
  controller's header. The record of the frame kept for dumps and captures is left out.
\<close>

subsection \<open>Turns, for the engine and for the controller\<close>

definition TransformBits :: "turn \<Rightarrow> nat" where
  "TransformBits t = (if tn_hflip t then 1 else 0) + (if tn_vflip t then 2 else 0) + (if tn_rotate90 t then 4 else 0)"

definition VicTransformFor :: "nat \<Rightarrow> nat" where
  "VicTransformFor bits = [0, 1, 2, 3, 6, 7, 4, 5] ! (bits mod 8)"

text \<open>The group's one turn: nought for no members, nothing when they disagree.\<close>

definition UniformTurn :: "nat list \<Rightarrow> nat option" where
  "UniformTurn transforms = (case transforms of
     [] \<Rightarrow> Some 0
   | first # _ \<Rightarrow> if list_all (\<lambda>bits. bits = first) transforms then Some first else None)"

datatype flip_flag = FlTiled | FlBlockLinear | FlInvertH | FlInvertV | FlScanColumn | FlGlobalAlpha

definition WindowTransformFor :: "nat \<Rightarrow> flip_flag set" where
  "WindowTransformFor bits =
     [{}, {FlInvertH}, {FlInvertV}, {FlInvertH, FlInvertV}, {FlScanColumn, FlInvertV},
      {FlInvertH, FlScanColumn, FlInvertV}, {FlScanColumn}, {FlScanColumn, FlInvertH}] ! (bits mod 8)"

datatype flip_blend = FbNone | FbPremult | FbCoverage

definition BlendFor :: "blend \<Rightarrow> flip_blend" where
  "BlendFor b = (case b of BmPreMult \<Rightarrow> FbPremult | BmCoverage \<Rightarrow> FbCoverage | _ \<Rightarrow> FbNone)"

definition DepthForZPos :: "nat \<Rightarrow> nat" where
  "DepthForZPos z = (if z \<ge> 0xff then 0 else 0xff - z)"

subsection \<open>The matrices of the window's converter\<close>

record csc =
  cs_yof :: nat
  cs_kyrgb :: nat
  cs_kur :: nat
  cs_kvr :: nat
  cs_kug :: nat
  cs_kvg :: nat
  cs_kub :: nat
  cs_kvb :: nat

definition csc_none :: csc where
  "csc_none = \<lparr>cs_yof = 0, cs_kyrgb = 0, cs_kur = 0, cs_kvr = 0, cs_kug = 0, cs_kvg = 0, cs_kub = 0, cs_kvb = 0\<rparr>"

definition k601Limited :: csc where
  "k601Limited = \<lparr>cs_yof = 0x00F0, cs_kyrgb = 0x012A, cs_kur = 0, cs_kvr = 0x0198,
     cs_kug = 0x039B, cs_kvg = 0x032F, cs_kub = 0x0204, cs_kvb = 0\<rparr>"

definition k601Full :: csc where
  "k601Full = \<lparr>cs_yof = 0, cs_kyrgb = 0x0100, cs_kur = 0, cs_kvr = 0x0167,
     cs_kug = 0x03A8, cs_kvg = 0x0349, cs_kub = 0x01C6, cs_kvb = 0\<rparr>"

definition k709Limited :: csc where
  "k709Limited = \<lparr>cs_yof = 0x00F0, cs_kyrgb = 0x012A, cs_kur = 0, cs_kvr = 0x01CB,
     cs_kug = 0x03C9, cs_kvg = 0x0378, cs_kub = 0x021D, cs_kvb = 0\<rparr>"

definition k709Full :: csc where
  "k709Full = \<lparr>cs_yof = 0, cs_kyrgb = 0x0100, cs_kur = 0, cs_kvr = 0x0193,
     cs_kug = 0x03D0, cs_kvg = 0x0388, cs_kub = 0x01DB, cs_kvb = 0\<rparr>"

definition CscFor :: "color_enc \<Rightarrow> sample_rng \<Rightarrow> nat \<Rightarrow> csc" where
  "CscFor encoding rng height =
     (let full = (rng = SrFullRange);
          hd = (encoding = CeItuRec709 \<or> encoding = CeItuRec2020 \<or> (encoding = CeUndefined \<and> height \<ge> 720))
      in if hd then (if full then k709Full else k709Limited) else (if full then k601Full else k601Limited))"

subsection \<open>One window from one layer\<close>

record dc_window =
  dw_index :: int
  dw_fd :: int
  dw_offset :: nat
  dw_stride :: nat
  dw_offset_u :: nat
  dw_stride_uv :: nat
  dw_format :: "tegra_format option"
  dw_csc :: "csc option"
  dw_source_x :: f32
  dw_source_y :: f32
  dw_source_width :: f32
  dw_source_height :: f32
  dw_out_x :: int
  dw_out_y :: int
  dw_out_width :: int
  dw_out_height :: int
  dw_z :: nat
  dw_blend :: flip_blend
  dw_flags :: "flip_flag set"
  dw_global_alpha :: int
  dw_block_height :: nat
  dw_pre_fence :: int

text \<open>A window as it is built: no buffer, which is how it is switched off.\<close>

definition off_window :: "int \<Rightarrow> dc_window" where
  "off_window i = \<lparr>dw_index = i, dw_fd = 0, dw_offset = 0, dw_stride = 0, dw_offset_u = 0, dw_stride_uv = 0,
     dw_format = None, dw_csc = None, dw_source_x = Fin 0, dw_source_y = Fin 0, dw_source_width = Fin 0,
     dw_source_height = Fin 0, dw_out_x = 0, dw_out_y = 0, dw_out_width = 0, dw_out_height = 0, dw_z = 0,
     dw_blend = FbNone, dw_flags = {}, dw_global_alpha = 255, dw_block_height = 0, dw_pre_fence = -1\<rparr>"

definition layout_flags :: "arrangement \<Rightarrow> flip_flag set" where
  "layout_flags a = (case a of Rows \<Rightarrow> {} | Tiled \<Rightarrow> {FlTiled} | BlockLinear _ \<Rightarrow> {FlBlockLinear})"

definition block_height :: "arrangement \<Rightarrow> nat" where
  "block_height a = (case a of BlockLinear h \<Rightarrow> h | _ \<Rightarrow> 0)"

text \<open>The door \<open>vendor.hwc.test.wintransform\<close> (\<open>forced\<close>, -1 when it is shut) replaces the turn of a layer
  that has one.\<close>

definition window_turn :: "int \<Rightarrow> turn \<Rightarrow> nat" where
  "window_turn forced t =
     (let transform = TransformBits t
      in if transform \<noteq> 0 \<and> 0 \<le> forced \<and> forced \<le> 7 then nat forced else transform)"

definition clamped_alpha :: "f32 \<Rightarrow> f32" where
  "clamped_alpha a = (let low = (if f32_less a (Fin 0) then Fin 0 else a) in if f32_less (Fin 1) low then Fin 1 else low)"

definition show_alpha :: "f32 \<Rightarrow> dc_window \<Rightarrow> dc_window" where
  "show_alpha alpha w =
     (if f32_less alpha (Fin 1)
      then w\<lparr>dw_flags := insert FlGlobalAlpha (dw_flags w),
             dw_global_alpha := f32_lround (f32_mul (clamped_alpha alpha) (Fin 255)) mod 256\<rparr>
      else w)"

definition show_source :: "frect option \<Rightarrow> buffer_info \<Rightarrow> dc_window \<Rightarrow> dc_window" where
  "show_source crop bi w = (case crop of
     Some r \<Rightarrow> w\<lparr>dw_source_x := rleft r, dw_source_y := rtop r, dw_source_width := fwidth r, dw_source_height := fheight r\<rparr>
   | None \<Rightarrow> w\<lparr>dw_source_width := f32_of_int (int (bf_width bi)), dw_source_height := f32_of_int (int (bf_height bi))\<rparr>)"

definition show_frame :: "irect option \<Rightarrow> buffer_info \<Rightarrow> dc_window \<Rightarrow> dc_window" where
  "show_frame frame bi w = (case frame of
     Some r \<Rightarrow> w\<lparr>dw_out_x := rleft r, dw_out_y := rtop r, dw_out_width := rwidth r, dw_out_height := rheight r\<rparr>
   | None \<Rightarrow> w\<lparr>dw_out_width := int (bf_width bi), dw_out_height := int (bf_height bi)\<rparr>)"

definition show_chroma :: "headers \<Rightarrow> buffer_info \<Rightarrow> dc_window \<Rightarrow> dc_window option" where
  "show_chroma hs bi w =
     (if \<not> DrmFormatIsYuv (hd_drm hs (bf_format bi)) then Some w
      else if bf_pitches bi ! 1 = 0 then None
      else Some (w\<lparr>dw_offset_u := bf_offsets bi ! 1, dw_stride_uv := bf_pitches bi ! 1,
        dw_csc := Some (CscFor (bf_color_encoding bi) (bf_sample_range bi) (bf_height bi))\<rparr>))"

definition DescribeWindow :: "headers \<Rightarrow> int \<Rightarrow> layer_data \<Rightarrow> nat \<Rightarrow> nat \<Rightarrow> dc_window option" where
  "DescribeWindow hs forced l plane_id depth = (case (ld_bi l, ld_fb l) of
     (Some bi, Some fb) \<Rightarrow>
       (case (TegraFormatFromDrm (hd_drm hs (bf_format bi)), TegraLayoutFromModifier hs (word_of_nat (bf_modifier bi))) of
          (Some f, Some a) \<Rightarrow>
            (case show_chroma hs bi ((off_window (int plane_id))\<lparr>dw_fd := int fb, dw_offset := bf_offsets bi ! 0,
                dw_stride := bf_pitches bi ! 0, dw_format := Some f, dw_flags := layout_flags a,
                dw_block_height := block_height a, dw_z := depth, dw_blend := BlendFor (bf_blend_mode bi)\<rparr>) of
               None \<Rightarrow> None
             | Some w \<Rightarrow>
                 let w2 = show_alpha (pi_alpha (ld_pi l)) w;
                     w3 = w2\<lparr>dw_flags := dw_flags w2 \<union> WindowTransformFor (window_turn forced (pi_transform (ld_pi l)))\<rparr>;
                     w4 = show_frame (pi_display_frame (ld_pi l)) bi (show_source (pi_source_crop (ld_pi l)) bi w3)
                 in Some (w4\<lparr>dw_pre_fence := ld_acquire_fence l\<rparr>))
        | _ \<Rightarrow> None)
   | _ \<Rightarrow> None)"

subsection \<open>The group the engine draws\<close>

record merge_layer =
  ml_handle :: nat
  ml_src :: frect
  ml_dst :: irect
  ml_premultiplied :: bool
  ml_alpha :: f32
  ml_acquire_fence :: int

definition whole_src :: "buffer_info \<Rightarrow> frect" where
  "whole_src bi = mk_rect (Fin 0) (Fin 0) (f32_of_int (int (bf_width bi))) (f32_of_int (int (bf_height bi)))"

definition whole_dst :: "buffer_info \<Rightarrow> irect" where
  "whole_dst bi = mk_rect 0 0 (int (bf_width bi)) (int (bf_height bi))"

definition MergeLayerFrom :: "layer_data \<Rightarrow> buffer_info \<Rightarrow> merge_layer" where
  "MergeLayerFrom l bi = \<lparr>ml_handle = bf_handle bi,
     ml_src = (case pi_source_crop (ld_pi l) of Some r \<Rightarrow> r | None \<Rightarrow> whole_src bi),
     ml_dst = (case pi_display_frame (ld_pi l) of Some r \<Rightarrow> r | None \<Rightarrow> whole_dst bi),
     ml_premultiplied = (bf_blend_mode bi \<noteq> BmCoverage), ml_alpha = pi_alpha (ld_pi l),
     ml_acquire_fence = ld_acquire_fence l\<rparr>"

text \<open>The lists of the group in step with its layers; position, size, and where it is shown.\<close>

record merge_group =
  mg_layers :: "merge_layer list"
  mg_source_ids :: "nat list"
  mg_generations :: "nat list"
  mg_damages :: "irect list list"
  mg_serials :: "nat list"
  mg_transforms :: "nat list"
  mg_formats :: "nat list"
  mg_origin_x :: int
  mg_origin_y :: int
  mg_width :: nat
  mg_height :: nat
  mg_slot :: nat
  mg_window :: int
  mg_depth :: nat

definition mg_init :: merge_group where
  "mg_init = \<lparr>mg_layers = [], mg_source_ids = [], mg_generations = [], mg_damages = [], mg_serials = [],
     mg_transforms = [], mg_formats = [], mg_origin_x = 0, mg_origin_y = 0, mg_width = 0, mg_height = 0,
     mg_slot = 0, mg_window = 0, mg_depth = 0\<rparr>"

text \<open>The first member gives the group its window and its place in the stack; each member is
  appended. A member without a buffer would be read through a null pointer: a merging plane takes
  none, and here it refuses the request.\<close>

definition start_group :: "nat \<Rightarrow> nat \<Rightarrow> nat \<Rightarrow> merge_group \<Rightarrow> merge_group" where
  "start_group slot plane_id z m =
     (if mg_layers m = [] then m\<lparr>mg_slot := slot, mg_window := int plane_id, mg_depth := DepthForZPos z\<rparr> else m)"

definition add_member :: "layer_data \<Rightarrow> buffer_info \<Rightarrow> merge_group \<Rightarrow> merge_group" where
  "add_member l bi m = m\<lparr>mg_layers := mg_layers m @ [MergeLayerFrom l bi],
     mg_source_ids := mg_source_ids m @ [bf_unique_id bi],
     mg_generations := mg_generations m @ [ld_generation l],
     mg_damages := mg_damages m @ [pi_damage (ld_pi l)],
     mg_serials := mg_serials m @ [ld_serial l],
     mg_transforms := mg_transforms m @ [TransformBits (pi_transform (ld_pi l))],
     mg_formats := mg_formats m @ [bf_format bi]\<rparr>"

definition off_panel :: "int \<Rightarrow> int \<Rightarrow> merge_layer \<Rightarrow> bool" where
  "off_panel panel_w panel_h l \<longleftrightarrow> rleft (ml_dst l) < 0 \<or> rtop (ml_dst l) < 0 \<or>
     rright (ml_dst l) > panel_w \<or> rbottom (ml_dst l) > panel_h"

text \<open>The loop over the members starts from \<open>INT32_MAX\<close> and \<open>INT32_MIN\<close>.\<close>

definition group_bounds :: "merge_layer list \<Rightarrow> irect" where
  "group_bounds ls = fold (\<lambda>l b. rJoin b (ml_dst l)) ls (mk_rect (2 ^ 31 - 1) (2 ^ 31 - 1) (- (2 ^ 31)) (- (2 ^ 31)))"

definition rebase :: "int \<Rightarrow> int \<Rightarrow> merge_layer \<Rightarrow> merge_layer" where
  "rebase x0 y0 l = l\<lparr>ml_dst := mk_rect (rleft (ml_dst l) - x0) (rtop (ml_dst l) - y0)
     (rright (ml_dst l) - x0) (rbottom (ml_dst l) - y0)\<rparr>"

definition own_frame :: "merge_group \<Rightarrow> merge_group" where
  "own_frame m = (if mg_layers m = [] then m
     else let b = group_bounds (mg_layers m)
          in m\<lparr>mg_origin_x := rleft b, mg_origin_y := rtop b,
               mg_width := (if rright b > rleft b then nat (rwidth b) else 1),
               mg_height := (if rbottom b > rtop b then nat (rheight b) else 1),
               mg_layers := map (rebase (rleft b) (rtop b)) (mg_layers m)\<rparr>)"

definition SeatMergeInEmptyWindow :: "dc_window list \<Rightarrow> merge_group \<Rightarrow> merge_group" where
  "SeatMergeInEmptyWindow ws m =
     (case find (\<lambda>i. i \<noteq> mg_slot m \<and> dw_fd (ws ! i) = 0) [0..<length ws] of
        None \<Rightarrow> m
      | Some i \<Rightarrow> m\<lparr>mg_slot := i, mg_window := dw_index (ws ! i)\<rparr>)"

definition kZonePitchGrain :: nat where "kZonePitchGrain = 256"

definition ZonePitchBytes :: "nat \<Rightarrow> nat" where
  "ZonePitchBytes width = nat (wrap_size (int (width * 4 + kZonePitchGrain - 1))) div kZonePitchGrain * kZonePitchGrain"

definition proposed_window :: "nat \<Rightarrow> merge_group \<Rightarrow> dc_window" where
  "proposed_window panel_w m = (off_window (mg_window m))\<lparr>dw_fd := 1, dw_stride := ZonePitchBytes panel_w,
     dw_format := Some TfR8G8B8A8, dw_source_width := f32_of_int (int (mg_width m)),
     dw_source_height := f32_of_int (int (mg_height m)), dw_out_x := mg_origin_x m, dw_out_y := mg_origin_y m,
     dw_out_width := int (mg_width m), dw_out_height := int (mg_height m), dw_z := mg_depth m,
     dw_blend := FbPremult\<rparr>"

subsection \<open>What the cursor unit shows\<close>

record cursor_ask =
  ck_handle :: nat
  ck_id :: nat
  ck_width :: int
  ck_height :: int
  ck_stride_px :: nat
  ck_premultiplied :: bool
  ck_x :: int
  ck_y :: int
  ck_seq :: nat
  ck_acquire :: int

definition cursor_from :: "nat \<Rightarrow> layer_data \<Rightarrow> cursor_ask option" where
  "cursor_from seq l = (case (ld_bi l, pi_display_frame (ld_pi l)) of
     (Some bi, Some frame) \<Rightarrow> Some \<lparr>ck_handle = bf_handle bi, ck_id = bf_unique_id bi,
       ck_width = f32_lround (case pi_source_crop (ld_pi l) of Some r \<Rightarrow> fwidth r | None \<Rightarrow> f32_of_int (int (bf_width bi))) mod 2 ^ 32,
       ck_height = f32_lround (case pi_source_crop (ld_pi l) of Some r \<Rightarrow> fheight r | None \<Rightarrow> f32_of_int (int (bf_height bi))) mod 2 ^ 32,
       ck_stride_px = bf_pitches bi ! 0 div 4, ck_premultiplied = (bf_blend_mode bi = BmPreMult),
       ck_x = rleft frame, ck_y = rtop frame, ck_seq = seq, ck_acquire = ld_acquire_fence l\<rparr>
   | _ \<Rightarrow> None)"

subsection \<open>The request\<close>

text \<open>What the manager knows besides the plan: the head's windows, the panel's modes, the test door, and
  how often the pointer has moved.\<close>

record head_view =
  hv_headers :: headers
  hv_available :: "nat list"
  hv_modes :: "raw_mode list"
  hv_forced :: int
  hv_move_seq :: nat

record request_build =
  rb_windows :: "dc_window list"
  rb_merge :: merge_group
  rb_cursor :: "cursor_ask option"

fun index_in :: "nat \<Rightarrow> nat list \<Rightarrow> nat option" where
  "index_in x [] = None"
| "index_in x (y # ys) = (if x = y then Some 0 else map_option Suc (index_in x ys))"

definition place_cursor :: "nat \<Rightarrow> layer_data \<Rightarrow> request_build \<Rightarrow> request_build" where
  "place_cursor seq l b = (case cursor_from seq l of None \<Rightarrow> b | Some c \<Rightarrow> b\<lparr>rb_cursor := Some c\<rparr>)"

definition place_member :: "nat \<Rightarrow> joining \<Rightarrow> request_build \<Rightarrow> request_build option" where
  "place_member slot j b = (case ld_bi (jn_layer j) of
     None \<Rightarrow> None
   | Some bi \<Rightarrow> Some (b\<lparr>rb_merge := add_member (jn_layer j) bi (start_group slot (pl_id (jn_plane j)) (jn_z j) (rb_merge b))\<rparr>))"

definition place_window :: "head_view \<Rightarrow> nat \<Rightarrow> joining \<Rightarrow> request_build \<Rightarrow> request_build option" where
  "place_window v slot j b =
     map_option (\<lambda>w. b\<lparr>rb_windows := (rb_windows b)[slot := w]\<rparr>)
       (DescribeWindow (hv_headers v) (hv_forced v) (jn_layer j) (pl_id (jn_plane j)) (DepthForZPos (jn_z j)))"

definition place_joining :: "head_view \<Rightarrow> joining \<Rightarrow> request_build \<Rightarrow> request_build option" where
  "place_joining v j b =
     (if pl_id (jn_plane j) = kPlaneId then Some (place_cursor (hv_move_seq v) (jn_layer j) b)
      else case index_in (pl_id (jn_plane j)) (hv_available v) of
        None \<Rightarrow> None
      | Some slot \<Rightarrow> if pl_merging (jn_plane j) then place_member slot j b else place_window v slot j b)"

fun place_all :: "head_view \<Rightarrow> joining list \<Rightarrow> request_build \<Rightarrow> request_build option" where
  "place_all v [] b = Some b"
| "place_all v (j # js) b = (case place_joining v j b of None \<Rightarrow> None | Some b2 \<Rightarrow> place_all v js b2)"

definition empty_build :: "head_view \<Rightarrow> request_build" where
  "empty_build v = \<lparr>rb_windows = map (off_window \<circ> int) (hv_available v), rb_merge = mg_init, rb_cursor = None\<rparr>"

text \<open>\<open>DrmMode::operator==\<close> compares everything before the name; \<open>TegraConnector::porchFor\<close>.\<close>

definition same_timing :: "raw_mode \<Rightarrow> raw_mode \<Rightarrow> bool" where
  "same_timing a b \<longleftrightarrow> a\<lparr>rm_name := []\<rparr> = b\<lparr>rm_name := []\<rparr>"

definition porchFor :: "raw_mode \<Rightarrow> raw_mode \<Rightarrow> int" where
  "porchFor mode native =
     (let vfp = wrap_size (int (rm_vsync_start mode) - int (rm_vdisplay mode))
      in if vfp = wrap_size (int (rm_vsync_start native) - int (rm_vdisplay native)) then 0 else vfp)"

record rate =
  rt_porch :: int
  rt_mode :: raw_mode

record commit_args =
  ca_display_mode :: "raw_mode option"
  ca_composition :: "joining_plan option"

record atomic_request =
  rq_windows :: "dc_window list"
  rq_has_composition :: bool
  rq_merge :: merge_group
  rq_cursor :: "cursor_ask option"
  rq_rate :: "rate option"

definition rate_of :: "head_view \<Rightarrow> raw_mode option \<Rightarrow> rate option option" where
  "rate_of v wanted = (case wanted of
     None \<Rightarrow> Some None
   | Some m \<Rightarrow> if list_ex (same_timing m) (hv_modes v)
               then Some (Some \<lparr>rt_porch = porchFor m (hd (hv_modes v)), rt_mode = m\<rparr>) else None)"

definition finish_merge :: "head_view \<Rightarrow> request_build \<Rightarrow> (dc_window list \<times> merge_group) option" where
  "finish_merge v b =
     (let m = rb_merge b; ws = rb_windows b;
          panel_w = (case hv_modes v of [] \<Rightarrow> 0 | n # _ \<Rightarrow> rm_hdisplay n);
          panel_h = (case hv_modes v of [] \<Rightarrow> 0 | n # _ \<Rightarrow> rm_vdisplay n)
      in if mg_layers m \<noteq> [] \<and> panel_w > 0 \<and> panel_h > 0 \<and> list_ex (off_panel (int panel_w) (int panel_h)) (mg_layers m)
         then None
         else if UniformTurn (mg_transforms m) = None then None
         else let m2 = own_frame m;
                  m3 = (if mg_layers m = [] then m2 else SeatMergeInEmptyWindow ws m2)
              in Some (if mg_layers m \<noteq> [] \<and> hv_modes v \<noteq> [] then ws[mg_slot m3 := proposed_window panel_w m3] else ws, m3))"

definition GetAtomicModeReqForArgs :: "head_view \<Rightarrow> commit_args \<Rightarrow> atomic_request option" where
  "GetAtomicModeReqForArgs v args =
     (if hv_available v = [] then None
      else case rate_of v (ca_display_mode args) of
        None \<Rightarrow> None
      | Some rate \<Rightarrow>
          (case (case ca_composition args of
                   None \<Rightarrow> Some (empty_build v) | Some jp \<Rightarrow> place_all v (jp_plan jp) (empty_build v)) of
             None \<Rightarrow> None
           | Some b \<Rightarrow>
               (case finish_merge v b of
                  None \<Rightarrow> None
                | Some (ws, m) \<Rightarrow> Some \<lparr>rq_windows = ws, rq_has_composition = (ca_composition args \<noteq> None),
                    rq_merge = m, rq_cursor = rb_cursor b, rq_rate = rate\<rparr>)))"

subsection \<open>The two tables of turns\<close>

text \<open>Where the framework's turn puts a pixel of a buffer of \<open>w\<close> by \<open>h\<close>: mirrored first, then turned a
  quarter clockwise. A window mirrors in the buffer's axes and then reads by columns. The engine's
  code is read from the target back to the source: the axes are exchanged, then mirrored.\<close>

definition mirrored :: "bool \<Rightarrow> int \<Rightarrow> int \<Rightarrow> int" where
  "mirrored m n x = (if m then n - 1 - x else x)"

definition turned_at :: "turn \<Rightarrow> int \<Rightarrow> int \<Rightarrow> int \<times> int \<Rightarrow> int \<times> int" where
  "turned_at t w h p =
     (let x = mirrored (tn_hflip t) w (fst p); y = mirrored (tn_vflip t) h (snd p)
      in if tn_rotate90 t then (h - 1 - y, x) else (x, y))"

definition window_at :: "flip_flag set \<Rightarrow> int \<Rightarrow> int \<Rightarrow> int \<times> int \<Rightarrow> int \<times> int" where
  "window_at fl w h p =
     (let x = mirrored (FlInvertH \<in> fl) w (fst p); y = mirrored (FlInvertV \<in> fl) h (snd p)
      in if FlScanColumn \<in> fl then (y, x) else (x, y))"

definition engine_from :: "nat \<Rightarrow> int \<Rightarrow> int \<Rightarrow> int \<times> int \<Rightarrow> int \<times> int" where
  "engine_from code w h q =
     (let a = (if bit code 2 then snd q else fst q); b = (if bit code 2 then fst q else snd q)
      in (mirrored (bit code 0) w a, mirrored (bit code 1) h b))"


text \<open>Applied to the source instead -- the axes exchanged and then mirrored in the target's axes -- the codes
  of the two quarter turns would each give the other one.\<close>

definition engine_to :: "nat \<Rightarrow> int \<Rightarrow> int \<Rightarrow> int \<times> int \<Rightarrow> int \<times> int" where
  "engine_to code w h p =
     (let a = (if bit code 2 then snd p else fst p); b = (if bit code 2 then fst p else snd p)
      in (mirrored (bit code 0) (if bit code 2 then h else w) a, mirrored (bit code 1) (if bit code 2 then w else h) b))"

lemma quarter_turns_swapped:
  "engine_to (VicTransformFor 4) w h p = turned_at \<lparr>tn_hflip = True, tn_vflip = True, tn_rotate90 = True\<rparr> w h p"
  "engine_to (VicTransformFor 7) w h p = turned_at \<lparr>tn_hflip = False, tn_vflip = False, tn_rotate90 = True\<rparr> w h p"
  by (simp_all add: VicTransformFor_def engine_to_def turned_at_def mirrored_def Let_def bit_Suc_0_iff bit_numeral_rec)

subsection \<open>The matrices against the standard\<close>

text \<open>A field of \<open>n\<close> bits in two's complement, and the coefficients of the two standards in units of
  \<open>1 / 256\<close>, from the weights of red and blue in the luma; a limited range stretches luma by
  255/219 and chroma by 255/224.\<close>

definition field :: "nat \<Rightarrow> nat \<Rightarrow> int" where
  "field n v = (if v \<ge> 2 ^ (n - 1) then int v - 2 ^ n else int v)"

definition standard_row :: "rat \<Rightarrow> rat \<Rightarrow> bool \<Rightarrow> rat list" where
  "standard_row kr kb full =
     (let kg = 1 - kr - kb; luma = (if full then 1 else 255 / 219); chroma = (if full then 1 else 255 / 224)
      in map (\<lambda>c. c * 256) [luma, chroma * 2 * (1 - kr), - chroma * 2 * kb * (1 - kb) / kg,
           - chroma * 2 * kr * (1 - kr) / kg, chroma * 2 * (1 - kb)])"

definition row_values :: "csc \<Rightarrow> rat list" where
  "row_values c = map of_int [field 10 (cs_kyrgb c), field 11 (cs_kvr c), field 10 (cs_kug c),
     field 10 (cs_kvg c), field 11 (cs_kub c)]"

definition steps_off :: "rat list \<Rightarrow> rat list \<Rightarrow> rat" where
  "steps_off as bs = Max (set (map2 (\<lambda>a b. \<bar>a - b\<bar>) as bs))"

text \<open>the matrices are those of the standards. Each coefficient of the two full-range rows and of the
  709 limited row is the standard's rounded to the nearest step; those of the 601 limited row are
  within a step of it. The luma offset of a limited row is sixteen below.\<close>

theorem csc_rows_standard:
  "steps_off (row_values k601Full) (standard_row (299 / 1000) (114 / 1000) True) \<le> 1 / 2 \<and>
   steps_off (row_values k709Full) (standard_row (2126 / 10000) (722 / 10000) True) \<le> 1 / 2 \<and>
   steps_off (row_values k709Limited) (standard_row (2126 / 10000) (722 / 10000) False) \<le> 1 / 2 \<and>
   steps_off (row_values k601Limited) (standard_row (299 / 1000) (114 / 1000) False) < 1 \<and>
   field 8 (cs_yof k601Limited) = -16 \<and> field 8 (cs_yof k709Limited) = -16 \<and>
   cs_yof k601Full = 0 \<and> cs_yof k709Full = 0"
  by (simp add: steps_off_def row_values_def standard_row_def field_def Let_def
      k601Limited_def k601Full_def k709Limited_def k709Full_def)

text \<open>Of the 601 limited row the red gain, a positive one, is more than half a step off.\<close>

lemma k601Limited_red_off: "of_int (field 11 (cs_kvr k601Limited)) < standard_row (299 / 1000) (114 / 1000) False ! 1 - 1 / 2"
  by (simp add: standard_row_def field_def Let_def k601Limited_def)

subsection \<open>Describing a window\<close>

lemma describe_helpers [simp]:
  "dw_index (show_alpha a w) = dw_index w" "dw_fd (show_alpha a w) = dw_fd w" "dw_z (show_alpha a w) = dw_z w"
  "dw_index (show_source c bi w) = dw_index w" "dw_fd (show_source c bi w) = dw_fd w" "dw_z (show_source c bi w) = dw_z w"
  "dw_index (show_frame f bi w) = dw_index w" "dw_fd (show_frame f bi w) = dw_fd w" "dw_z (show_frame f bi w) = dw_z w"
  "dw_index (off_window i) = i" "dw_fd (off_window i) = 0"
  by (simp_all add: show_alpha_def show_source_def show_frame_def off_window_def split: option.splits)

lemma show_chroma_keeps:
  "show_chroma hs bi w = Some w2 \<Longrightarrow> dw_index w2 = dw_index w \<and> dw_fd w2 = dw_fd w \<and> dw_z w2 = dw_z w"
  by (auto simp: show_chroma_def split: if_splits)

lemma DescribeWindow_Some:
  assumes "DescribeWindow hs forced l plane_id depth = Some w"
  shows "dw_index w = int plane_id \<and> dw_z w = depth \<and> (\<exists>fb. ld_fb l = Some fb \<and> dw_fd w = int fb)"
  using assms show_chroma_keeps by (fastforce simp: DescribeWindow_def Let_def off_window_def split: option.splits)

text \<open>What the description needs besides the plane's acceptance: an imported buffer, and the chroma rows of
  a video.\<close>

definition showable :: "headers \<Rightarrow> layer_data \<Rightarrow> bool" where
  "showable hs l \<longleftrightarrow> ld_fb l \<noteq> None \<and>
     (\<forall>bi. ld_bi l = Some bi \<longrightarrow> DrmFormatIsYuv (hd_drm hs (bf_format bi)) \<longrightarrow> bf_pitches bi ! 1 \<noteq> 0)"

lemma DescribeWindow_None_iff:
  "DescribeWindow hs forced l plane_id depth = None \<longleftrightarrow>
     ld_fb l = None \<or> (case ld_bi l of None \<Rightarrow> True | Some bi \<Rightarrow>
       TegraFormatFromDrm (hd_drm hs (bf_format bi)) = None \<or>
       TegraLayoutFromModifier hs (word_of_nat (bf_modifier bi)) = None \<or>
       (DrmFormatIsYuv (hd_drm hs (bf_format bi)) \<and> bf_pitches bi ! 1 = 0))"
  by (auto simp: DescribeWindow_def show_chroma_def Let_def split: option.splits)

lemma accepted_described:
  assumes "IsValidForLayer hs p l" "\<not> tp_merging p" "showable hs l"
  shows "DescribeWindow hs forced l plane_id depth \<noteq> None"
proof -
  obtain bi where bi: "ld_bi l = Some bi" and t: "window_takes hs (tp_caps p) (ld_pi l) bi"
    using assms(1,2) by (auto simp: IsValidForLayer_def split: option.splits)
  show ?thesis
    using window_takesD [OF t] bi assms(3) by (auto simp: DescribeWindow_None_iff showable_def)
qed

subsection \<open>Building the request\<close>

lemma index_in_Some: "index_in x xs = Some i \<Longrightarrow> i < length xs \<and> xs ! i = x"
  by (induction xs arbitrary: i) (auto split: if_splits)

lemma index_in_None [simp]: "index_in x xs = None \<longleftrightarrow> x \<notin> set xs"
  by (induction xs) auto

lemma index_in_mem: "index_in x xs = Some i \<Longrightarrow> x \<in> set xs"
  using index_in_Some [of x xs i] by force

definition is_cursor :: "joining \<Rightarrow> bool" where "is_cursor j \<longleftrightarrow> pl_id (jn_plane j) = kPlaneId"

definition is_member :: "joining \<Rightarrow> bool" where "is_member j \<longleftrightarrow> \<not> is_cursor j \<and> pl_merging (jn_plane j)"

definition is_direct :: "joining \<Rightarrow> bool" where "is_direct j \<longleftrightarrow> \<not> is_cursor j \<and> \<not> pl_merging (jn_plane j)"

definition describe_joining :: "head_view \<Rightarrow> joining \<Rightarrow> dc_window option" where
  "describe_joining v j =
     DescribeWindow (hv_headers v) (hv_forced v) (jn_layer j) (pl_id (jn_plane j)) (DepthForZPos (jn_z j))"

definition member_layer :: "joining \<Rightarrow> merge_layer" where
  "member_layer j = MergeLayerFrom (jn_layer j) (the (ld_bi (jn_layer j)))"

definition member_turn :: "joining \<Rightarrow> nat" where
  "member_turn j = TransformBits (pi_transform (ld_pi (jn_layer j)))"

definition placeable :: "head_view \<Rightarrow> joining \<Rightarrow> bool" where
  "placeable v j \<longleftrightarrow> is_cursor j \<or> pl_id (jn_plane j) \<in> set (hv_available v) \<and>
     (if pl_merging (jn_plane j) then ld_bi (jn_layer j) \<noteq> None else describe_joining v j \<noteq> None)"

text \<open>The state of the build after the joinings \<open>js\<close>: which windows are described, and the members so far.\<close>

definition built :: "head_view \<Rightarrow> joining list \<Rightarrow> request_build \<Rightarrow> bool" where
  "built v js b \<longleftrightarrow>
     map dw_index (rb_windows b) = map int (hv_available v) \<and>
     (\<forall>i<length (hv_available v).
        (rb_windows b ! i = off_window (int (hv_available v ! i)) \<or>
         (\<exists>j\<in>set js. is_direct j \<and> pl_id (jn_plane j) = hv_available v ! i \<and> describe_joining v j = Some (rb_windows b ! i))) \<and>
        ((\<exists>j\<in>set js. is_direct j \<and> index_in (pl_id (jn_plane j)) (hv_available v) = Some i) \<longrightarrow>
         (\<exists>j\<in>set js. is_direct j \<and> index_in (pl_id (jn_plane j)) (hv_available v) = Some i \<and>
            describe_joining v j = Some (rb_windows b ! i)))) \<and>
     mg_layers (rb_merge b) = map member_layer (filter is_member js) \<and>
     mg_transforms (rb_merge b) = map member_turn (filter is_member js) \<and>
     (\<forall>j js2. filter is_member js = j # js2 \<longrightarrow>
        index_in (pl_id (jn_plane j)) (hv_available v) = Some (mg_slot (rb_merge b)) \<and>
        mg_window (rb_merge b) = int (pl_id (jn_plane j)) \<and> mg_depth (rb_merge b) = DepthForZPos (jn_z j))"

lemma built_first:
  "built v js b \<Longrightarrow> filter is_member js = j # js2 \<Longrightarrow>
   index_in (pl_id (jn_plane j)) (hv_available v) = Some (mg_slot (rb_merge b)) \<and>
   mg_window (rb_merge b) = int (pl_id (jn_plane j)) \<and> mg_depth (rb_merge b) = DepthForZPos (jn_z j)"
  by (simp add: built_def)

lemma built_start: "built v [] (empty_build v)"
  by (simp add: built_def empty_build_def mg_init_def)

lemma place_joining_iff: "place_joining v j b \<noteq> None \<longleftrightarrow> placeable v j"
  by (auto simp: place_joining_def placeable_def is_cursor_def place_member_def place_window_def describe_joining_def
      split: option.splits dest: index_in_mem)

lemma built_window:
  assumes b: "built v js b" and d: "is_direct j" "index_in (pl_id (jn_plane j)) (hv_available v) = Some slot"
    "describe_joining v j = Some w"
  shows "built v (js @ [j]) (b\<lparr>rb_windows := (rb_windows b)[slot := w]\<rparr>)"
proof -
  let ?ws = "(rb_windows b)[slot := w]"
  have slot: "slot < length (hv_available v)" "hv_available v ! slot = pl_id (jn_plane j)"
    using index_in_Some [OF d(2)] by auto
  have ix: "map dw_index (rb_windows b) = map int (hv_available v)" using b by (simp add: built_def)
  then have len: "length (rb_windows b) = length (hv_available v)" by (metis length_map)
  have w: "dw_index w = int (pl_id (jn_plane j))" using DescribeWindow_Some d(3) by (auto simp: describe_joining_def)
  have "map dw_index ?ws = map int (hv_available v)"
    by (rule nth_equalityI) (use ix len w slot in \<open>auto simp: nth_list_update list_eq_iff_nth_eq\<close>)
  moreover have nm: "filter is_member (js @ [j]) = filter is_member js"
    using d(1) by (simp add: is_direct_def is_member_def)
  moreover have "(?ws ! i = off_window (int (hv_available v ! i)) \<or>
         (\<exists>j\<in>set (js @ [j]). is_direct j \<and> pl_id (jn_plane j) = hv_available v ! i \<and> describe_joining v j = Some (?ws ! i))) \<and>
        ((\<exists>j\<in>set (js @ [j]). is_direct j \<and> index_in (pl_id (jn_plane j)) (hv_available v) = Some i) \<longrightarrow>
         (\<exists>j\<in>set (js @ [j]). is_direct j \<and> index_in (pl_id (jn_plane j)) (hv_available v) = Some i \<and>
            describe_joining v j = Some (?ws ! i)))" if i: "i < length (hv_available v)" for i
  proof (cases "i = slot")
    case True
    then show ?thesis using d slot len by auto
  next
    case False
    then show ?thesis using b i d(2) unfolding built_def by auto
  qed
  ultimately show ?thesis using b unfolding built_def by simp
qed

lemma built_member:
  assumes b: "built v js b" and d: "is_member j" "index_in (pl_id (jn_plane j)) (hv_available v) = Some slot"
    "ld_bi (jn_layer j) = Some bi"
  shows "built v (js @ [j])
    (b\<lparr>rb_merge := add_member (jn_layer j) bi (start_group slot (pl_id (jn_plane j)) (jn_z j) (rb_merge b))\<rparr>)"
proof -
  have nd: "\<not> is_direct j" using d(1) by (simp add: is_direct_def is_member_def)
  have e: "mg_layers (rb_merge b) = [] \<longleftrightarrow> filter is_member js = []"
    using b by (simp add: built_def)
  show ?thesis
    using b d nd e unfolding built_def
    by (cases "filter is_member js") (auto simp: add_member_def start_group_def member_layer_def member_turn_def)
qed

lemma built_cursor:
  assumes "built v js b" "is_cursor j"
  shows "built v (js @ [j]) (place_cursor (hv_move_seq v) (jn_layer j) b)"
  using assms unfolding built_def
  by (auto simp: place_cursor_def is_direct_def is_member_def split: option.splits)

lemma place_joining_built:
  assumes "built v js b" "place_joining v j b = Some b2"
  shows "built v (js @ [j]) b2"
  using assms built_window [OF assms(1)] built_member [OF assms(1)] built_cursor [OF assms(1)]
  by (auto simp: place_joining_def place_member_def place_window_def is_cursor_def is_direct_def is_member_def
      describe_joining_def split: if_splits option.splits)

lemma place_all_built:
  "built v js b \<Longrightarrow> place_all v ks b = Some b2 \<Longrightarrow> built v (js @ ks) b2"
  by (induction v ks b arbitrary: js rule: place_all.induct)
     (force split: option.splits dest: place_joining_built)+

lemma place_all_iff: "place_all v ks b \<noteq> None \<longleftrightarrow> list_all (placeable v) ks"
proof (induction v ks b rule: place_all.induct)
  case (2 v j js b)
  then show ?case using place_joining_iff [of v j b] by (auto split: option.splits)
qed simp

subsection \<open>The group's own frame\<close>

lemma fold_join_bounds:
  "inside b0 (fold (\<lambda>l b. rJoin b (ml_dst l)) ls b0) \<and>
   (\<forall>l\<in>set ls. inside (ml_dst l) (fold (\<lambda>l b. rJoin b (ml_dst l)) ls b0))"
proof (induction ls arbitrary: b0)
  case (Cons l ls)
  have "inside b0 (rJoin b0 (ml_dst l))" "inside (ml_dst l) (rJoin b0 (ml_dst l))"
    by (auto simp: inside_def rJoin_def)
  then show ?case using Cons [of "rJoin b0 (ml_dst l)"] by (auto simp: inside_def)
qed (simp add: inside_def)

text \<open>A limit every member keeps on an edge is kept by the group, once there is a member.\<close>

lemma fold_join_limits:
  assumes "\<forall>l\<in>set ls. lo_x \<le> rleft (ml_dst l) \<and> lo_y \<le> rtop (ml_dst l) \<and> rright (ml_dst l) \<le> hi_x \<and> rbottom (ml_dst l) \<le> hi_y"
    and "lo_x \<le> rleft b0" "lo_y \<le> rtop b0" "rright b0 \<le> hi_x" "rbottom b0 \<le> hi_y"
  shows "lo_x \<le> rleft (fold (\<lambda>l b. rJoin b (ml_dst l)) ls b0) \<and> lo_y \<le> rtop (fold (\<lambda>l b. rJoin b (ml_dst l)) ls b0) \<and>
    rright (fold (\<lambda>l b. rJoin b (ml_dst l)) ls b0) \<le> hi_x \<and> rbottom (fold (\<lambda>l b. rJoin b (ml_dst l)) ls b0) \<le> hi_y"
  using assms by (induction ls arbitrary: b0) (auto simp: rJoin_def)

lemma group_bounds_panel:
  assumes "ls \<noteq> []" "\<forall>l\<in>set ls. \<not> off_panel pw ph l \<and> \<not> rEmpty (ml_dst l)" "pw < 2 ^ 31" "ph < 2 ^ 31"
  shows "inside (group_bounds ls) (mk_rect 0 0 pw ph)" "\<forall>l\<in>set ls. inside (ml_dst l) (group_bounds ls)"
    "\<not> rEmpty (group_bounds ls)"
proof -
  let ?b = "group_bounds ls"
  obtain l where l: "l \<in> set ls" using assms(1) by (cases ls) auto
  have p: "0 \<le> rleft (ml_dst l)" "0 \<le> rtop (ml_dst l)" "rright (ml_dst l) \<le> pw" "rbottom (ml_dst l) \<le> ph"
    "rleft (ml_dst l) < rright (ml_dst l)" "rtop (ml_dst l) < rbottom (ml_dst l)" if "l \<in> set ls" for l
    using assms(2) that by (force simp: off_panel_def rEmpty_def)+
  have lim: "0 \<le> rleft ?b \<and> 0 \<le> rtop ?b \<and> rright ?b \<le> pw \<and> rbottom ?b \<le> ph"
    unfolding group_bounds_def by (rule fold_join_limits) (use p p [OF l] in force)+
  then show "inside ?b (mk_rect 0 0 pw ph)" by (simp add: inside_def)
  show m: "\<forall>l\<in>set ls. inside (ml_dst l) ?b" unfolding group_bounds_def using fold_join_bounds by blast
  then have "inside (ml_dst l) ?b" using l by blast
  then show "\<not> rEmpty ?b" using p [OF l] by (auto simp: inside_def rEmpty_def)
qed

lemma own_frame_simps [simp]:
  "mg_transforms (own_frame m) = mg_transforms m" "mg_slot (own_frame m) = mg_slot m"
  "mg_window (own_frame m) = mg_window m" "mg_depth (own_frame m) = mg_depth m"
  "mg_layers (own_frame m) = [] \<longleftrightarrow> mg_layers m = []"
  by (auto simp: own_frame_def Let_def)

lemma SeatMerge_simps [simp]:
  "mg_layers (SeatMergeInEmptyWindow ws m) = mg_layers m" "mg_transforms (SeatMergeInEmptyWindow ws m) = mg_transforms m"
  "mg_depth (SeatMergeInEmptyWindow ws m) = mg_depth m" "mg_width (SeatMergeInEmptyWindow ws m) = mg_width m"
  "mg_height (SeatMergeInEmptyWindow ws m) = mg_height m" "mg_origin_x (SeatMergeInEmptyWindow ws m) = mg_origin_x m"
  "mg_origin_y (SeatMergeInEmptyWindow ws m) = mg_origin_y m"
  by (simp_all add: SeatMergeInEmptyWindow_def split: option.splits)

text \<open>The window the group is shown in: its own, or the first empty one.\<close>

lemma SeatMerge_slot:
  assumes "mg_slot m < length ws" "mg_window m = dw_index (ws ! mg_slot m)"
  shows "mg_slot (SeatMergeInEmptyWindow ws m) < length ws \<and>
    mg_window (SeatMergeInEmptyWindow ws m) = dw_index (ws ! mg_slot (SeatMergeInEmptyWindow ws m)) \<and>
    (mg_slot (SeatMergeInEmptyWindow ws m) = mg_slot m \<or> dw_fd (ws ! mg_slot (SeatMergeInEmptyWindow ws m)) = 0)"
proof (cases "find (\<lambda>i. i \<noteq> mg_slot m \<and> dw_fd (ws ! i) = 0) [0..<length ws]")
  case (Some i)
  then have "i < length ws \<and> dw_fd (ws ! i) = 0" by (auto simp: find_Some_iff)
  then show ?thesis using Some by (simp add: SeatMergeInEmptyWindow_def)
qed (use assms in \<open>simp add: SeatMergeInEmptyWindow_def\<close>)

text \<open>What the request of a plan comes to.\<close>

lemma request_of_plan:
  assumes "GetAtomicModeReqForArgs v args = Some r" "ca_composition args = Some jp"
  obtains b where "place_all v (jp_plan jp) (empty_build v) = Some b" "built v (jp_plan jp) b"
    "finish_merge v b = Some (rq_windows r, rq_merge r)" "rq_has_composition r"
proof -
  obtain b where b: "place_all v (jp_plan jp) (empty_build v) = Some b" "finish_merge v b = Some (rq_windows r, rq_merge r)"
    "rq_has_composition r"
    using assms by (auto simp: GetAtomicModeReqForArgs_def split: if_splits option.splits)
  from that [OF b(1) _ b(2,3)] place_all_built [OF built_start b(1)] show thesis by simp
qed

definition group_rect :: "merge_group \<Rightarrow> irect" where
  "group_rect m = mk_rect (mg_origin_x m) (mg_origin_y m) (mg_origin_x m + int (mg_width m)) (mg_origin_y m + int (mg_height m))"

definition shifted :: "int \<Rightarrow> int \<Rightarrow> irect \<Rightarrow> irect" where
  "shifted x y r = mk_rect (rleft r + x) (rtop r + y) (rright r + x) (rbottom r + y)"

text \<open>the group keeps its members where they are. The rectangle the merged buffer is shown in lies on
  the panel and covers every member; within the buffer each member is where it was, moved by the
  corner of the group; and the members are those of the plan, bottom first.\<close>

theorem group_frame:
  assumes r: "GetAtomicModeReqForArgs v args = Some r" and jp: "ca_composition args = Some jp"
    and modes: "hv_modes v = native # slower" "0 < rm_hdisplay native" "rm_hdisplay native < 2 ^ 16"
      "0 < rm_vdisplay native" "rm_vdisplay native < 2 ^ 16"
    and ms: "ms = filter is_member (jp_plan jp)" "ms \<noteq> []" "\<forall>j\<in>set ms. \<not> rEmpty (ml_dst (member_layer j))"
  shows "length (mg_layers (rq_merge r)) = length ms \<and>
    inside (group_rect (rq_merge r)) (mk_rect 0 0 (int (rm_hdisplay native)) (int (rm_vdisplay native))) \<and>
    (\<forall>i<length ms. shifted (mg_origin_x (rq_merge r)) (mg_origin_y (rq_merge r)) (ml_dst (mg_layers (rq_merge r) ! i)) =
         ml_dst (member_layer (ms ! i)) \<and>
       inside (ml_dst (mg_layers (rq_merge r) ! i)) (mk_rect 0 0 (int (mg_width (rq_merge r))) (int (mg_height (rq_merge r)))))"
proof -
  obtain b where bl: "built v (jp_plan jp) b" and f: "finish_merge v b = Some (rq_windows r, rq_merge r)"
    using request_of_plan [OF r jp] by blast
  let ?m = "rb_merge b" and ?ls = "map member_layer ms"
  have ls: "mg_layers ?m = ?ls" "?ls \<noteq> []" using bl ms by (simp_all add: built_def)
  have on: "\<forall>l\<in>set ?ls. \<not> off_panel (int (rm_hdisplay native)) (int (rm_vdisplay native)) l \<and> \<not> rEmpty (ml_dst l)"
    using f ms(3) modes ls by (auto simp: finish_merge_def Let_def list_ex_iff split: if_splits)
  note gb = group_bounds_panel [OF ls(2) on]
  have m: "rq_merge r = SeatMergeInEmptyWindow (rb_windows b) (own_frame ?m)"
    using f ls by (simp add: finish_merge_def Let_def split: if_splits)
  let ?b = "group_bounds ?ls"
  have ne: "\<not> rEmpty ?b" using gb modes by simp
  have o: "mg_origin_x (rq_merge r) = rleft ?b" "mg_origin_y (rq_merge r) = rtop ?b"
    "int (mg_width (rq_merge r)) = rwidth ?b" "int (mg_height (rq_merge r)) = rheight ?b"
    "mg_layers (rq_merge r) = map (rebase (rleft ?b) (rtop ?b)) ?ls"
    using ls ne by (simp_all add: m own_frame_def Let_def rEmpty_def rwidth_def rheight_def)
  have "group_rect (rq_merge r) = ?b"
    by (rule rect_eqI) (simp_all add: group_rect_def o rwidth_def rheight_def)
  moreover have "inside ?b (mk_rect 0 0 (int (rm_hdisplay native)) (int (rm_vdisplay native)))" using gb(1) modes by simp
  moreover have "shifted (rleft ?b) (rtop ?b) (ml_dst (rebase (rleft ?b) (rtop ?b) l)) = ml_dst l \<and>
      inside (ml_dst (rebase (rleft ?b) (rtop ?b) l)) (mk_rect 0 0 (rwidth ?b) (rheight ?b))" if "l \<in> set ?ls" for l
  proof -
    have "int (rm_hdisplay native) < 2 ^ 31" "int (rm_vdisplay native) < 2 ^ 31" using modes by simp_all
    then have "inside (ml_dst l) ?b" using gb(2) that by blast
    then show ?thesis by (auto simp: shifted_def rebase_def inside_def rwidth_def rheight_def intro!: rect_eqI)
  qed
  ultimately show ?thesis using o by simp
qed

text \<open>The windows of a flip are the plan. Every window of the head is named once, in order. When no two
  ordinary planes of the plan are one window, each shows its own layer, described at the depth of the
  layer's place; the group is shown in a window no ordinary plane of the plan has, at the depth of its
  lowest member; and every other window is switched off.\<close>

definition shows_plan :: "head_view \<Rightarrow> joining list \<Rightarrow> atomic_request \<Rightarrow> bool" where
  "shows_plan v js r \<longleftrightarrow>
    (let ds = filter is_direct js; ms = filter is_member js; av = hv_available v; slot = mg_slot (rq_merge r) in
    map dw_index (rq_windows r) = map int av \<and>
    (\<forall>j\<in>set ds. \<exists>i<length av. av ! i = pl_id (jn_plane j) \<and>
       describe_joining v j = Some (rq_windows r ! i) \<and> (ms \<noteq> [] \<longrightarrow> i \<noteq> slot)) \<and>
    (ms \<noteq> [] \<longrightarrow> slot < length av \<and>
       rq_windows r ! slot = proposed_window (rm_hdisplay (hd (hv_modes v))) (rq_merge r) \<and>
       dw_z (rq_windows r ! slot) = DepthForZPos (jn_z (hd ms))) \<and>
    (\<forall>i<length av. (ms = [] \<or> i \<noteq> slot) \<longrightarrow>
       av ! i \<notin> (pl_id \<circ> jn_plane) ` set ds \<longrightarrow> rq_windows r ! i = off_window (int (av ! i))))"

lemma request_shows_plan:
  assumes r: "GetAtomicModeReqForArgs v args = Some r" and jp: "ca_composition args = Some jp"
    and ds: "ds = filter is_direct (jp_plan jp)" "distinct (map (pl_id \<circ> jn_plane) ds)"
    and ms: "ms = filter is_member (jp_plan jp)" "\<forall>j\<in>set ms. \<forall>k\<in>set ds. pl_id (jn_plane j) \<noteq> pl_id (jn_plane k)"
    and av: "distinct (hv_available v)" and fb: "\<forall>j\<in>set ds. ld_fb (jn_layer j) \<noteq> Some 0"
    and modes: "hv_modes v \<noteq> []"
  shows "shows_plan v (jp_plan jp) r"
proof -
  obtain b where bl: "built v (jp_plan jp) b" and f: "finish_merge v b = Some (rq_windows r, rq_merge r)"
    and pa: "place_all v (jp_plan jp) (empty_build v) = Some b"
    using request_of_plan [OF r jp] by blast
  let ?ws = "rb_windows b" and ?m = "rb_merge b" and ?av = "hv_available v"
  have ix: "map dw_index ?ws = map int ?av" using bl by (simp add: built_def)
  then have len: "length ?ws = length ?av" by (metis length_map)
  have ixi: "dw_index (?ws ! i) = int (?av ! i)" if "i < length ?av" for i
    using that len ix by (metis nth_map)
  have pl: "list_all (placeable v) (jp_plan jp)" using pa place_all_iff [of v "jp_plan jp" "empty_build v"] by simp
  have mem: "mg_layers ?m = map member_layer ms" using bl ms by (simp add: built_def)
  have one: "j = k" if "j \<in> set ds" "k \<in> set ds" "pl_id (jn_plane j) = pl_id (jn_plane k)" for j k
    using ds(2) that by (auto simp: distinct_map inj_on_def)
  have direct: "\<exists>i<length ?av. ?av ! i = pl_id (jn_plane j) \<and> describe_joining v j = Some (?ws ! i) \<and> dw_fd (?ws ! i) \<noteq> 0"
    if j: "j \<in> set ds" for j
  proof -
    have jd: "j \<in> set (jp_plan jp)" "is_direct j" using j ds(1) by auto
    then have "pl_id (jn_plane j) \<in> set ?av" using pl by (auto simp: list_all_iff placeable_def is_direct_def)
    then obtain i where i: "index_in (pl_id (jn_plane j)) ?av = Some i" using index_in_None by blast
    note ii = index_in_Some [OF i]
    obtain k where k: "k \<in> set (jp_plan jp)" "is_direct k" "index_in (pl_id (jn_plane k)) ?av = Some i"
        "describe_joining v k = Some (?ws ! i)"
      using bl ii jd i unfolding built_def by blast
    have "k = j" using one [of k j] k j ds(1) index_in_Some [OF k(3)] ii by simp
    moreover have "dw_fd (?ws ! i) \<noteq> 0"
      using DescribeWindow_Some [of "hv_headers v" "hv_forced v" "jn_layer k" "pl_id (jn_plane k)" "DepthForZPos (jn_z k)"]
        k(4) fb j \<open>k = j\<close> by (auto simp: describe_joining_def)
    ultimately show ?thesis using ii k(4) by auto
  qed
  have off: "?ws ! i = off_window (int (?av ! i))" if "i < length ?av" "?av ! i \<notin> (pl_id \<circ> jn_plane) ` set ds" for i
  proof -
    have "\<not> (\<exists>j\<in>set (jp_plan jp). is_direct j \<and> pl_id (jn_plane j) = ?av ! i)"
      using that(2) ds(1) by (metis (mono_tags, lifting) comp_apply filter_set image_eqI mem_Collect_eq set_filter)
    then show ?thesis using bl that(1) unfolding built_def by blast
  qed
  show ?thesis
  proof (cases "ms = []")
    case True
    then have "rq_windows r = ?ws" using f mem by (auto simp: finish_merge_def Let_def split: if_splits)
    then show ?thesis using True ix direct off unfolding shows_plan_def Let_def ds(1) [symmetric] ms(1) [symmetric] by auto
  next
    case False
    then obtain j0 js0 where m0: "ms = j0 # js0" by (cases ms) auto
    let ?m3 = "SeatMergeInEmptyWindow ?ws (own_frame ?m)"
    have w: "rq_windows r = ?ws[mg_slot ?m3 := proposed_window (rm_hdisplay (hd (hv_modes v))) ?m3]" "rq_merge r = ?m3"
      using f mem False modes by (auto simp: finish_merge_def Let_def split: if_splits list.splits)
    have s0: "index_in (pl_id (jn_plane j0)) ?av = Some (mg_slot ?m)" "mg_window ?m = int (pl_id (jn_plane j0))"
      "mg_depth ?m = DepthForZPos (jn_z j0)" using built_first [OF bl] m0 ms(1) by auto
    note s0i = index_in_Some [OF s0(1)]
    have seat: "mg_slot ?m3 < length ?ws \<and> mg_window ?m3 = dw_index (?ws ! mg_slot ?m3) \<and>
        (mg_slot ?m3 = mg_slot ?m \<or> dw_fd (?ws ! mg_slot ?m3) = 0)"
      using SeatMerge_slot [of "own_frame ?m" ?ws] s0i s0(2) ixi len by simp
    have free: "i \<noteq> mg_slot ?m3" if i: "i < length ?av" "?av ! i = pl_id (jn_plane j)" "dw_fd (?ws ! i) \<noteq> 0" "j \<in> set ds" for i j
      using seat i s0i ms(2) m0 by auto
    have "map dw_index (rq_windows r) = map int ?av"
      using ix seat by (simp add: w map_update proposed_window_def) (metis list_update_id len nth_map)
    moreover have "\<exists>i<length ?av. ?av ! i = pl_id (jn_plane j) \<and> describe_joining v j = Some (rq_windows r ! i) \<and>
        i \<noteq> mg_slot (rq_merge r)" if j: "j \<in> set ds" for j
    proof -
      obtain i where i: "i < length ?av" "?av ! i = pl_id (jn_plane j)" "describe_joining v j = Some (?ws ! i)" "dw_fd (?ws ! i) \<noteq> 0"
        using direct [OF j] by blast
      then show ?thesis using free [OF i(1,2,4) j] by (auto simp: w)
    qed
    moreover have "mg_slot (rq_merge r) < length ?av" "rq_windows r ! mg_slot (rq_merge r) =
        proposed_window (rm_hdisplay (hd (hv_modes v))) (rq_merge r)"
      using seat len by (simp_all add: w)
    moreover have "dw_z (proposed_window n ?m3) = DepthForZPos (jn_z (hd ms))" for n
      using s0(3) m0 by (simp add: proposed_window_def)
    moreover have "rq_windows r ! i = off_window (int (?av ! i))"
      if "i < length ?av" "i \<noteq> mg_slot (rq_merge r)" "?av ! i \<notin> (pl_id \<circ> jn_plane) ` set ds" for i
      using off that by (simp add: w)
    ultimately show ?thesis using False unfolding shows_plan_def Let_def ds(1) [symmetric] ms(1) [symmetric]
      by (simp add: w(2))
  qed
qed

subsection \<open>A plan the planes accept is a request\<close>

lemma TransformBits_eq: "SharesTurn a b \<Longrightarrow> TransformBits a = TransformBits b"
  by (simp add: SharesTurn_def TransformBits_def)

lemma offer_all_seat:
  "pp_cursor_unit pp \<Longrightarrow> snd u = None \<Longrightarrow> snd (snd (offer_all pp binds k ps u)) = None"
  by (induction ps arbitrary: k u) (simp_all add: case_prod_beta offer_def)

lemma cursor_seat_only:
  assumes "GetUsablePlanes hs binds pp = (usable, pp2)" "pp_cursor_unit pp" "snd usable = Some p"
  shows "p = cursor_seat hs"
  using assms offer_all_seat [of pp "([], None)" binds 0 "if pp_planes pp = [] then make_planes pp else pp_planes pp"]
  by (auto simp: GetUsablePlanes_def Let_def case_prod_beta split: if_splits)

text \<open>Of the layers a plan is made of: each can be described, and lies on the panel.\<close>

definition presentable :: "head_view \<Rightarrow> raw_mode \<Rightarrow> layer_data \<Rightarrow> bool" where
  "presentable v native l \<longleftrightarrow> showable (hv_headers v) l \<and> ld_fb l \<noteq> Some 0 \<and>
     (\<forall>bi. ld_bi l = Some bi \<longrightarrow> \<not> off_panel (int (rm_hdisplay native)) (int (rm_vdisplay native)) (MergeLayerFrom l bi))"

definition on_head :: "head_view \<Rightarrow> joining \<Rightarrow> bool" where
  "on_head v j \<longleftrightarrow> (\<exists>p. jn_plane j = as_plane (hv_headers v) p \<and> tp_index p \<in> set (hv_available v) \<and>
     IsValidForLayer (hv_headers v) p (jn_layer j))"

lemma is_cursor_placeable: "is_cursor j \<Longrightarrow> placeable v j"
  by (simp add: placeable_def is_cursor_def)

lemma on_head_placeable:
  assumes "on_head v j" "presentable v native (jn_layer j)" "kPlaneId \<notin> set (hv_available v)"
  shows "placeable v j \<and> \<not> is_cursor j"
proof -
  obtain p where p: "jn_plane j = as_plane (hv_headers v) p" "tp_index p \<in> set (hv_available v)"
    "IsValidForLayer (hv_headers v) p (jn_layer j)" using assms(1) by (auto simp: on_head_def)
  have "ld_bi (jn_layer j) \<noteq> None" using p(3) by (auto simp: IsValidForLayer_def split: option.splits)
  then show ?thesis
    using p assms accepted_described [OF p(3)]
    by (auto simp: placeable_def is_cursor_def presentable_def describe_joining_def)
qed

text \<open>What a plan made for a head is, in the terms of the request.\<close>

lemma plan_on_head:
  assumes "planes_kept pp" "head_ok pp" "GetUsablePlanes hs binds pp = (usable, pp2)" "pp_cursor_unit pp"
    and c: "CreateLayerToPlaneJoiningPlan usable stack cursor prefer = Some jp"
    and v: "hv_headers v = hs" "hv_available v = pp_windows pp" "kPlaneId \<notin> set (pp_windows pp)"
  shows "\<exists>js cs. jp_plan jp = js @ cs \<and> (\<forall>j\<in>set js. on_head v j \<and> jn_layer j \<in> set stack) \<and> (\<forall>j\<in>set cs. is_cursor j) \<and>
    one_turn js \<and> distinct (map (pl_id \<circ> jn_plane) (filter is_direct js)) \<and>
    (\<forall>j\<in>set (filter is_member js). \<forall>k\<in>set (filter is_direct js). pl_id (jn_plane j) \<noteq> pl_id (jn_plane k))"
proof -
  obtain us where us: "fst usable = map (as_plane hs) us" "subseq us (map (marked pp) (make_planes pp))"
    using GetUsablePlanes_offered [OF assms(3,1)] by blast
  have so: "sound_offer (pp_windows pp) us"
    using sound_offer_subseq [OF offered_windows [OF assms(2)]] us(2) by (simp add: made)
  obtain jp0 stack2 ps where cr: "\<not> cursor_refused (snd usable) cursor" "jp = add_cursor (snd usable) cursor jp0"
    and p: "seats_planned (queue_of prefer (fst usable)) stack prefer jp0 stack2 ps"
    using Create_planned [OF c] by blast
  let ?js = "jp_plan jp0"
  obtain order where r: "reordered stack order jp0 stack2" and j: "joined ?js stack2 ps"
    and ms: "mset ps \<subseteq># mset (fst usable)" and ot: "one_turn ?js" using p by (auto simp: seats_planned_def)
  have ps: "ps = map jn_plane ?js" "map jn_layer ?js = stack2" "list_all2 (\<lambda>l p. pl_valid p l) stack2 ps"
    using j by (auto simp: joined_def)
  have st: "set stack2 \<subseteq> set stack" using r perm_upt by (fastforce simp: reordered_def dest!: mset_eq_setD)
  have pl: "\<exists>q\<in>set us. jn_plane k = as_plane hs q" if "k \<in> set ?js" for k
  proof -
    have "jn_plane k \<in> set (fst usable)" using that ps(1) set_mset_mono [OF ms] by auto
    then show ?thesis by (auto simp: us(1))
  qed
  have val: "pl_valid (jn_plane k) (jn_layer k)" if "k \<in> set ?js" for k
    using ps that by (force simp: list_all2_conv_all_nth in_set_conv_nth)
  have head: "on_head v k \<and> jn_layer k \<in> set stack" if k: "k \<in> set ?js" for k
  proof -
    obtain q where q: "q \<in> set us" "jn_plane k = as_plane hs q" using pl [OF k] by blast
    have "tp_index q \<in> set (pp_windows pp)" using so q(1) by (auto simp: sound_offer_def)
    moreover have "jn_layer k \<in> set stack" using ps(2) st k by auto
    ultimately show ?thesis using q(2) val [OF k] v(1,2) by (auto simp: on_head_def as_plane_def)
  qed
  have nc: "\<not> is_cursor k" if k: "k \<in> set ?js" for k
    using head [OF k] v(2,3) by (auto simp: on_head_def is_cursor_def)
  have dir: "filter is_direct ?js = filter (Not \<circ> (pl_merging \<circ> jn_plane)) ?js"
    using nc by (intro filter_cong) (auto simp: is_direct_def)
  have "map pl_id (filter (Not \<circ> pl_merging) (fst usable)) = map tp_index (filter (Not \<circ> tp_merging) us)"
    by (simp add: us(1) filter_map o_def)
  then have "distinct (map pl_id (filter (Not \<circ> pl_merging) (fst usable)))" using so by (simp add: sound_offer_def)
  then have "distinct (map pl_id (filter (Not \<circ> pl_merging) ps))" by (rule mset_sub_distinct [OF ms])
  then have d: "distinct (map (pl_id \<circ> jn_plane) (filter is_direct ?js))"
    by (simp add: dir ps(1) filter_map o_def)
  have mg: "tp_merging q = merges pp (tp_index q)" if q: "q \<in> set us" for q
  proof -
    have "q \<in> set (concat (map (window_planes pp) (pp_windows pp)))"
      using q set_mset_mono [OF subseq_mset [OF us(2)]] by (auto simp: made)
    then obtain i where "i \<in> set (pp_windows pp)" "q \<in> set (window_planes pp i)" by auto
    then show ?thesis using window_planes_one [OF assms(2)] by (fastforce simp: list_all_iff)
  qed
  have dj: "pl_id (jn_plane k) \<noteq> pl_id (jn_plane l)" if "k \<in> set (filter is_member ?js)" "l \<in> set (filter is_direct ?js)" for k l
  proof -
    have k: "k \<in> set ?js" "is_member k" "l \<in> set ?js" "is_direct l" using that by simp_all
    obtain q1 where "q1 \<in> set us" "jn_plane k = as_plane hs q1" using pl [OF k(1)] by blast
    moreover obtain q2 where "q2 \<in> set us" "jn_plane l = as_plane hs q2" using pl [OF k(3)] by blast
    ultimately show ?thesis using k mg [of q1] mg [of q2] by (auto simp: is_member_def is_direct_def)
  qed
  have "\<exists>cs. jp_plan jp = ?js @ cs \<and> (\<forall>j\<in>set cs. is_cursor j)"
  proof (cases cursor)
    case (Some cl)
    then obtain cp where cp: "snd usable = Some cp" using cr(1) by (auto simp: cursor_refused_def split: option.splits)
    show ?thesis using Some cr(2) cp cursor_seat_only [OF assms(3,4) cp]
      by (auto simp: add_cursor_def emplace_def is_cursor_def cursor_seat_def)
  qed (use cr(2) in \<open>simp add: add_cursor_def\<close>)
  then show ?thesis using head ot d dj by blast
qed

lemma UniformTurn_None_iff: "UniformTurn ts = None \<longleftrightarrow> (\<exists>a\<in>set ts. \<exists>b\<in>set ts. a \<noteq> b)"
  by (cases ts) (auto simp: UniformTurn_def list_all_iff)

text \<open>C25: the reasons a plan is turned away, and no others. With no timing asked for and a panel of some
  size, a plan gets no request exactly if the head has no window, or a layer cannot be described or has no
  place, or the members of the group are not all turned one way, or one of them reaches off the panel.\<close>

theorem request_refused:
  assumes modes: "hv_modes v = native # slower" "0 < rm_hdisplay native" "0 < rm_vdisplay native"
    and ms: "ms = filter is_member (jp_plan jp)"
  shows "GetAtomicModeReqForArgs v \<lparr>ca_display_mode = None, ca_composition = Some jp\<rparr> = None \<longleftrightarrow>
    hv_available v = [] \<or> \<not> list_all (placeable v) (jp_plan jp) \<or>
    (\<exists>a\<in>set ms. \<exists>b\<in>set ms. member_turn a \<noteq> member_turn b) \<or>
    (\<exists>a\<in>set ms. off_panel (int (rm_hdisplay native)) (int (rm_vdisplay native)) (member_layer a))"
proof (cases "hv_available v = [] \<or> \<not> list_all (placeable v) (jp_plan jp)")
  case True
  then show ?thesis
    using place_all_iff [of v "jp_plan jp" "empty_build v"] by (auto simp: GetAtomicModeReqForArgs_def rate_of_def)
next
  case False
  then obtain b where b: "place_all v (jp_plan jp) (empty_build v) = Some b"
    using place_all_iff [of v "jp_plan jp" "empty_build v"] by auto
  have bl: "built v (jp_plan jp) b" using place_all_built [OF built_start b] by simp
  have tr: "mg_layers (rb_merge b) = map member_layer ms" "mg_transforms (rb_merge b) = map member_turn ms"
    using bl by (simp_all add: built_def ms)
  have "GetAtomicModeReqForArgs v \<lparr>ca_display_mode = None, ca_composition = Some jp\<rparr> = None \<longleftrightarrow> finish_merge v b = None"
    using False b by (simp add: GetAtomicModeReqForArgs_def rate_of_def split: option.splits)
  also have "\<dots> \<longleftrightarrow> list_ex (off_panel (int (rm_hdisplay native)) (int (rm_vdisplay native))) (mg_layers (rb_merge b)) \<or>
      UniformTurn (mg_transforms (rb_merge b)) = None"
    using modes by (cases "mg_layers (rb_merge b) = []") (simp_all add: finish_merge_def Let_def)
  also have "\<dots> \<longleftrightarrow> (\<exists>a\<in>set ms. off_panel (int (rm_hdisplay native)) (int (rm_vdisplay native)) (member_layer a)) \<or>
      (\<exists>a\<in>set ms. \<exists>b\<in>set ms. member_turn a \<noteq> member_turn b)"
    by (simp add: tr UniformTurn_None_iff list_ex_iff)
  finally show ?thesis using False by blast
qed

text \<open>What a plan needs to be a request: a place for each joining, one turn for the group, all of it on the panel.\<close>

lemma request_made:
  assumes "list_all (placeable v) (jp_plan jp)" "hv_available v \<noteq> []" and modes: "hv_modes v = native # slower"
    and turn: "\<forall>a b. a \<in> set (filter is_member (jp_plan jp)) \<longrightarrow> b \<in> set (filter is_member (jp_plan jp)) \<longrightarrow>
      member_turn a = member_turn b"
    and on: "\<And>j. j \<in> set (filter is_member (jp_plan jp)) \<Longrightarrow>
      \<not> off_panel (int (rm_hdisplay native)) (int (rm_vdisplay native)) (member_layer j)"
  shows "\<exists>r. GetAtomicModeReqForArgs v \<lparr>ca_display_mode = None, ca_composition = Some jp\<rparr> = Some r"
proof -
  obtain b where b: "place_all v (jp_plan jp) (empty_build v) = Some b"
    using assms(1) place_all_iff [of v "jp_plan jp" "empty_build v"] by auto
  have bl: "built v (jp_plan jp) b" using place_all_built [OF built_start b] by simp
  have tr: "mg_layers (rb_merge b) = map member_layer (filter is_member (jp_plan jp))"
    "mg_transforms (rb_merge b) = map member_turn (filter is_member (jp_plan jp))" using bl by (simp_all add: built_def)
  have "UniformTurn (mg_transforms (rb_merge b)) \<noteq> None"
    using turn by (simp only: tr(2) UniformTurn_None_iff set_map) blast
  moreover have "\<not> list_ex (off_panel (int (rm_hdisplay native)) (int (rm_vdisplay native))) (mg_layers (rb_merge b))"
    using on by (auto simp: tr(1) list_ex_iff)
  ultimately obtain ws m where "finish_merge v b = Some (ws, m)"
    using modes by (auto simp: finish_merge_def Let_def)
  then show ?thesis using assms(2) b by (simp add: GetAtomicModeReqForArgs_def rate_of_def)
qed

lemma filter_no_cursor: "\<forall>j\<in>set cs. is_cursor j \<Longrightarrow> filter is_direct cs = [] \<and> filter is_member cs = []"
  by (simp add: filter_empty_conv is_direct_def is_member_def)


text \<open>A panel with two windows, one of them slim and merged, and three imported layers.\<close>

definition req_data :: layer_data where "req_data = win_data\<lparr>ld_fb := Some 5\<rparr>"

definition req_view :: head_view where
  "req_view = \<lparr>hv_headers = win_headers, hv_available = [0, 2], hv_modes = [fake_mode 1600 900], hv_forced = 0,
     hv_move_seq = 0\<rparr>"

definition req_member :: "nat \<Rightarrow> joining" where
  "req_member z = \<lparr>jn_layer = req_data, jn_plane = as_plane win_headers (SetMerging (new_plane 2 slim_caps)), jn_z = z\<rparr>"

definition req_args :: commit_args where
  "req_args = \<lparr>ca_display_mode = None, ca_composition = Some (jp_init\<lparr>jp_plan := [req_member 1, req_member 2]\<rparr>)\<rparr>"

lemma req_judged: "IsValidForLayer win_headers (new_plane 0 win_caps) req_data"
  "IsValidForLayer win_headers (SetMerging (new_plane 2 slim_caps)) req_data"
proof -
  show "IsValidForLayer win_headers (new_plane 0 win_caps) req_data" by code_simp
  show "IsValidForLayer win_headers (SetMerging (new_plane 2 slim_caps)) req_data" by code_simp
qed

lemma req_quiet: "\<not> ld_live req_data" "ld_turn req_data = no_turn"
  by (simp_all add: req_data_def win_data_def hl_new_def ld_turn_def win_pi_def pi_init_def)

lemma req_plan: "\<exists>jp. CreateLayerToPlaneJoiningPlan (two_usable True) [req_data, req_data, req_data] None False = Some jp"
  unfolding two_planes using req_judged by (simp add: two_eval req_quiet)

lemma req_presentable: "presentable req_view (fake_mode 1600 900) req_data"
proof -
  have d: "ld_bi req_data = Some win_info" "ld_fb req_data = Some 5" by (simp_all add: req_data_def win_data_def)
  have "\<not> DrmFormatIsYuv (hd_drm win_headers (bf_format win_info))" by code_simp
  moreover have "\<not> off_panel 1600 900 (MergeLayerFrom req_data win_info)" by code_simp
  ultimately show ?thesis
    using d by (simp add: presentable_def showable_def req_view_def fake_mode_def Let_def)
qed


text \<open>The panel of the second head is narrower than the group, and the plan gets no request.\<close>

theorem request_refused_witness:
  "GetAtomicModeReqForArgs (req_view\<lparr>hv_modes := [fake_mode 80 900]\<rparr>) req_args = None"
proof -
  let ?v = "req_view\<lparr>hv_modes := [fake_mode 80 900]\<rparr>"
  let ?ms = "[req_member 1, req_member 2]"
  have f: "?ms = filter is_member (jp_plan (jp_init\<lparr>jp_plan := ?ms\<rparr>))"
    by (simp add: req_member_def is_member_def is_cursor_def as_plane_def SetMerging_def new_plane_def kPlaneId_def)
  have m: "hv_modes ?v = fake_mode 80 900 # []" "rm_hdisplay (fake_mode 80 900) = 80" "rm_vdisplay (fake_mode 80 900) = 900"
    "0 < (80 :: nat)" "0 < (900 :: nat)"
    by (simp_all add: fake_mode_def Let_def)
  have "off_panel 80 900 (member_layer (req_member 1))"
    by (simp add: member_layer_def req_member_def req_data_def win_data_def MergeLayerFrom_def win_pi_def off_panel_def mk_rect_def)
  then show ?thesis using request_refused [OF m(1), unfolded m(2,3), OF m(4,5) f] by (simp add: req_args_def)
qed

theorem group_frame_witness:
  "\<exists>r. GetAtomicModeReqForArgs req_view req_args = Some r \<and> length (mg_layers (rq_merge r)) = 2 \<and>
     inside (group_rect (rq_merge r)) (mk_rect 0 0 1600 900)"
proof -
  have a: "ca_composition req_args = Some (jp_init\<lparr>jp_plan := [req_member 1, req_member 2]\<rparr>)"
    "hv_modes req_view = fake_mode 1600 900 # []" "filter is_member [req_member 1, req_member 2] = [req_member 1, req_member 2]"
    by (simp_all add: req_args_def req_view_def req_member_def is_member_def is_cursor_def as_plane_def SetMerging_def
        new_plane_def kPlaneId_def)
  have m: "rm_hdisplay (fake_mode 1600 900) = 1600" "rm_vdisplay (fake_mode 1600 900) = 900"
    by (simp_all add: fake_mode_def Let_def)
  have e: "\<not> rEmpty (ml_dst (member_layer (req_member n)))" for n
    by (simp add: member_layer_def req_member_def req_data_def win_data_def MergeLayerFrom_def win_pi_def rEmpty_def mk_rect_def)
  let ?ms = "[req_member 1, req_member 2]"
  have n: "0 < (1600 :: nat)" "(1600 :: nat) < 2 ^ 16" "0 < (900 :: nat)" "(900 :: nat) < 2 ^ 16" "?ms \<noteq> []" by simp_all
  have i: "?ms = filter is_member (jp_plan (jp_init\<lparr>jp_plan := ?ms\<rparr>))" using a(3) by simp
  have f: "\<forall>j\<in>set ?ms. \<not> rEmpty (ml_dst (member_layer j))" using e by simp
  have o: "\<not> off_panel 1600 900 (member_layer (req_member n))" for n
    by (simp add: member_layer_def req_member_def req_data_def win_data_def MergeLayerFrom_def win_pi_def off_panel_def mk_rect_def)
  have t: "member_turn (req_member x) = member_turn (req_member y)" for x y
    by (simp add: member_turn_def req_member_def)
  have "placeable req_view (req_member n)" for n
    by (simp add: placeable_def req_member_def req_view_def as_plane_def SetMerging_def new_plane_def req_data_def win_data_def)
  then obtain r where r: "GetAtomicModeReqForArgs req_view req_args = Some r"
    using request_made [of req_view "jp_init\<lparr>jp_plan := ?ms\<rparr>", OF _ _ a(2)] o t m a(3)
    by (auto simp: req_args_def req_view_def)
  note g = group_frame [OF r a(1,2), unfolded m, OF n(1-4) i n(5) f]
  have "length (mg_layers (rq_merge r)) = length ?ms" "inside (group_rect (rq_merge r)) (mk_rect 0 0 (int 1600) (int 900))"
    by (rule g [THEN conjunct1], rule g [THEN conjunct2, THEN conjunct1])
  then have "length (mg_layers (rq_merge r)) = 2 \<and> inside (group_rect (rq_merge r)) (mk_rect 0 0 1600 900)" by simp
  then show ?thesis using r by blast
qed

end
