(* ===== verification/EngineSession.thy ===== *)
theory EngineSession
  imports ScratchPool Request PartialRedraw
begin

text \<open>
  tegra/VicSession: a pass of the image engine described to the vendor's library, and the buffers cut for it.
  What the library and the kernel answer is an argument. A source of the composer's own, which only the
  picture taken of the panel passes, is not kept, nor is the probe of the target.
\<close>

subsection \<open>A pass described\<close>

text \<open>A descriptor to wait on names the fence of a flip or one of a client. What the library answers during
  one call: can the allocator be had, is the target taken, how many points does it count behind a descriptor
  and which are they, how many surfaces has a buffer, is the source of a seat taken, is the configuration,
  is the job, and is there a descriptor for its end.\<close>

datatype waited = FlipFence nat | ClientFence int

record library =
  lb_gralloc :: bool
  lb_target :: bool
  lb_count :: "waited \<Rightarrow> nat option"
  lb_points :: "waited \<Rightarrow> (nat \<times> nat) list option"
  lb_surfaces :: "nat \<Rightarrow> nat option"
  lb_source :: "nat \<Rightarrow> bool"
  lb_configure :: bool
  lb_execute :: bool
  lb_fence :: bool

definition kSaneWaits :: nat where "kSaneWaits = 64"

definition AppendWaits :: "library \<Rightarrow> waited \<Rightarrow> (nat \<times> nat) list \<Rightarrow> (nat \<times> nat) list option" where
  "AppendWaits lb f waits = (case lb_count lb f of
     None \<Rightarrow> None
   | Some n \<Rightarrow> if n > kSaneWaits then None
       else if n = 0 then Some waits
       else map_option (\<lambda>ps. waits @ ps) (lb_points lb f))"

record engine_seat =
  es_handle :: nat
  es_source :: frect
  es_display :: irect
  es_premultiplied :: bool
  es_alpha :: f32

definition pass_bound :: "nat \<Rightarrow> nat \<Rightarrow> nat \<Rightarrow> irect option \<Rightarrow> irect option" where
  "pass_bound width height turn dirty =
     (let bound = mk_rect 0 0 (int width) (int height) in
      case dirty of
        Some d \<Rightarrow> if turn \<noteq> 0 then Some bound
          else (let b = Intersect d bound in if rright b \<le> rleft b \<or> rbottom b \<le> rtop b then None else Some b)
      | None \<Rightarrow> Some bound)"

definition bounded_to :: "nat \<Rightarrow> nat \<Rightarrow> nat" where
  "bounded_to asked whole = (if asked = 0 \<or> asked > whole then whole else asked)"

definition seat_scaled :: "frect \<Rightarrow> irect \<Rightarrow> bool" where
  "seat_scaled read lands \<longleftrightarrow>
     f32_le (f32_of_rat (1/100)) (f32_abs (f32_sub (f32_sub (rright read) (rleft read)) (f32_of_int (rwidth lands)))) \<or>
     f32_le (f32_of_rat (1/100)) (f32_abs (f32_sub (f32_sub (rbottom read) (rtop read)) (f32_of_int (rheight lands))))"

text \<open>Where a member is read and lands; nothing for one a bounded pass does not meet.\<close>

definition place_in_pass :: "nat \<Rightarrow> nat \<Rightarrow> nat \<Rightarrow> irect option \<Rightarrow> merge_layer \<Rightarrow> (frect \<times> irect) option" where
  "place_in_pass width height turn limits l =
     (let lands = MirrorRectWithin (ml_dst l) (odd (turn div 2)) (odd turn) (int width) (int height) in
      case limits of
        None \<Rightarrow> Some (ml_src l, lands)
      | Some bound \<Rightarrow> if \<not> rMeet lands bound then None
          else if seat_scaled (ml_src l) lands then Some (ml_src l, lands)
          else ClipTo bound (ml_src l) lands)"

text \<open>The seats in order, and everything they wait for.\<close>

fun seat_members :: "library \<Rightarrow> (merge_layer \<Rightarrow> (frect \<times> irect) option) \<Rightarrow> merge_layer list \<Rightarrow> engine_seat list \<Rightarrow>
    (nat \<times> nat) list \<Rightarrow> (engine_seat list \<times> (nat \<times> nat) list) option" where
  "seat_members lb place [] seats waits = Some (seats, waits)"
| "seat_members lb place (l # ls) seats waits =
     (if lb_surfaces lb (ml_handle l) \<noteq> Some 1 then None
      else case place l of
        None \<Rightarrow> seat_members lb place ls seats waits
      | Some (read, lands) \<Rightarrow>
          if \<not> lb_source lb (length seats) then None
          else (let seats2 = seats @ [\<lparr>es_handle = ml_handle l, es_source = read, es_display = lands,
                               es_premultiplied = ml_premultiplied l, es_alpha = ml_alpha l\<rparr>]
                in if ml_acquire_fence l < 0 then seat_members lb place ls seats2 waits
                   else case AppendWaits lb (ClientFence (ml_acquire_fence l)) waits of
                     None \<Rightarrow> None
                   | Some waits2 \<Rightarrow> seat_members lb place ls seats2 waits2))"

record engine_pass =
  ep_rect :: irect
  ep_seats :: "engine_seat list"
  ep_waits :: "(nat \<times> nat) list"

text \<open>The pass the engine took, if it took one.\<close>

definition ComposeInto :: "library \<Rightarrow> nat \<Rightarrow> nat \<Rightarrow> merge_layer list \<Rightarrow> nat \<Rightarrow> nat \<Rightarrow> nat option \<Rightarrow> nat \<Rightarrow>
    irect option \<Rightarrow> engine_pass option" where
  "ComposeInto lb buffer_width buffer_height layers width height ready turn dirty =
     (if layers = [] \<or> length layers > kMaxLayers then None
      else let w = bounded_to width buffer_width; h = bounded_to height buffer_height in
      case pass_bound w h turn dirty of
        None \<Rightarrow> None
      | Some bound \<Rightarrow>
          if \<not> lb_target lb then None
          else case (case ready of None \<Rightarrow> Some [] | Some f \<Rightarrow> AppendWaits lb (FlipFence f) []) of
            None \<Rightarrow> None
          | Some waits \<Rightarrow>
              (case seat_members lb (place_in_pass w h turn (if dirty \<noteq> None \<and> turn = 0 then Some bound else None))
                      layers [] waits of
                 None \<Rightarrow> None
               | Some (seats, waits2) \<Rightarrow>
                   if seats = [] \<or> \<not> lb_configure lb \<or> \<not> lb_execute lb then None
                   else Some \<lparr>ep_rect = bound, ep_seats = seats, ep_waits = waits2\<rparr>))"

subsection \<open>The session\<close>

text \<open>One drawing the library took: where, the fence of the flip it waits for before it writes, and the pass.\<close>

record engine_write =
  ew_slot :: nat
  ew_ready :: "nat option"
  ew_turn :: nat
  ew_pass :: engine_pass

text \<open>The session: the size of the buffers it writes, and what the library answers to its calls in turn.\<close>

record vic_session =
  vs_buffer_width :: nat
  vs_buffer_height :: nat
  vs_library :: "nat \<Rightarrow> library"
  vs_calls :: nat
  vs_writes :: "engine_write list"
  vs_composed :: nat
  vs_refused :: nat

text \<open>A fence handed back is named by the number of the drawing. Of a job with no descriptor for its end
  the caller hears that it was refused, though it runs.\<close>

definition Compose :: "nat \<Rightarrow> merge_layer list \<Rightarrow> nat \<Rightarrow> nat \<Rightarrow> nat option \<Rightarrow> nat \<Rightarrow> irect option \<Rightarrow> vic_session \<Rightarrow>
    nat option \<times> vic_session" where
  "Compose target layers width height ready turn dirty s =
     (let lb = vs_library s (vs_calls s); s1 = s\<lparr>vs_calls := vs_calls s + 1\<rparr> in
      case (if lb_gralloc lb
            then ComposeInto lb (vs_buffer_width s) (vs_buffer_height s) layers width height ready turn dirty else None) of
        None \<Rightarrow> (None, s1\<lparr>vs_refused := vs_refused s + 1\<rparr>)
      | Some pass \<Rightarrow>
          let s2 = s1\<lparr>vs_writes := vs_writes s @ [\<lparr>ew_slot = target, ew_ready = ready, ew_turn = turn, ew_pass = pass\<rparr>]\<rparr>
          in if lb_fence lb then (Some (length (vs_writes s2)), s2\<lparr>vs_composed := vs_composed s + 1\<rparr>)
             else (None, s2\<lparr>vs_refused := vs_refused s + 1\<rparr>))"

text \<open>The copy of a sprite into a buffer of its own: the pass the engine took, and is there a fence for it.\<close>

definition CopyLayer :: "nat \<Rightarrow> nat \<Rightarrow> merge_layer \<Rightarrow> nat \<Rightarrow> nat \<Rightarrow> nat option \<Rightarrow> vic_session \<Rightarrow>
    (engine_pass option \<times> bool) \<times> vic_session" where
  "CopyLayer buffer_width buffer_height l width height ready s =
     (let lb = vs_library s (vs_calls s); s1 = s\<lparr>vs_calls := vs_calls s + 1\<rparr>;
          rect = mk_rect 0 0 (int width) (int height);
          waits = (case ready of None \<Rightarrow> Some [] | Some f \<Rightarrow> AppendWaits lb (FlipFence f) []);
          waits2 = (if ml_acquire_fence l < 0 then waits
                    else Option.bind waits (AppendWaits lb (ClientFence (ml_acquire_fence l))));
          refused = s1\<lparr>vs_refused := vs_refused s + 1\<rparr>
      in if \<not> lb_gralloc lb \<or> width = 0 \<or> height = 0 \<or> width > buffer_width \<or> height > buffer_height \<or> \<not> lb_target lb \<or>
            lb_surfaces lb (ml_handle l) \<noteq> Some 1 \<or> \<not> lb_source lb 0 \<or> \<not> lb_configure lb then ((None, False), refused)
         else case waits2 of
           None \<Rightarrow> ((None, False), refused)
         | Some ws \<Rightarrow>
             if \<not> lb_execute lb then ((None, False), refused)
             else ((Some \<lparr>ep_rect = rect, ep_seats = [\<lparr>es_handle = ml_handle l, es_source = ml_src l, es_display = rect,
                       es_premultiplied = False, es_alpha = Fin 1\<rparr>], ep_waits = ws\<rparr>, lb_fence lb),
                   if lb_fence lb then s1\<lparr>vs_composed := vs_composed s + 1\<rparr> else refused))"

subsection \<open>The buffers cut from the zone\<close>

text \<open>What this process holds at the kernel's memory driver: handles, descriptors and mappings, and what the
  driver answers during one call.\<close>

record zone_state =
  zs_device :: bool
  zs_handles :: "nat list"
  zs_fds :: "int list"
  zs_maps :: "int list"
  zs_refusals :: nat

record zone_answers =
  za_open :: bool
  za_create :: "nat option"
  za_alloc :: bool
  za_get_fd :: "int option"
  za_map :: bool

definition zone_refused :: "zone_state \<Rightarrow> zone_buffer option \<times> zone_state" where
  "zone_refused s = (None, s\<lparr>zs_refusals := zs_refusals s + 1\<rparr>)"

definition zone_free :: "nat \<Rightarrow> zone_state \<Rightarrow> zone_state" where
  "zone_free i s = s\<lparr>zs_handles := remove1 i (zs_handles s)\<rparr>"

definition zone_pitch :: "nat \<Rightarrow> nat \<Rightarrow> nat" where
  "zone_pitch width grain = (if grain = kZonePitchGrain then ZonePitchBytes width
     else wrap_size (int (width * 4 + grain - 1)) div grain * grain)"

definition zone_size :: "nat \<Rightarrow> nat \<Rightarrow> nat" where
  "zone_size pitch height =
     (let raw = pitch * (wrap_size (int (height + 3)) div 4 * 4)
      in wrap_size (int ((raw + 131071) div 131072 * 131072)))"

text \<open>From the descriptor on: the handle is given back, and the buffer mapped for its whole life.\<close>

definition zone_map :: "zone_answers \<Rightarrow> nat \<Rightarrow> nat \<Rightarrow> nat \<Rightarrow> int \<Rightarrow> zone_state \<Rightarrow> zone_buffer option \<times> zone_state" where
  "zone_map a pitch height bytes fd s =
     (if za_map a
      then (Some \<lparr>zb_fd = fd, zb_pitch = pitch, zb_height = height, zb_size = bytes, zb_rows = []\<rparr>,
            s\<lparr>zs_maps := fd # zs_maps s\<rparr>)
      else zone_refused (s\<lparr>zs_fds := remove1 fd (zs_fds s)\<rparr>))"

definition AllocateZoneTarget :: "bool \<Rightarrow> zone_answers \<Rightarrow> nat \<Rightarrow> nat \<Rightarrow> nat \<Rightarrow> zone_state \<Rightarrow> zone_buffer option \<times> zone_state" where
  "AllocateZoneTarget offers a width height grain s0 =
     (if \<not> offers \<or> width = 0 \<or> height = 0 \<or> grain = 0 then zone_refused s0
      else if \<not> zs_device s0 \<and> \<not> za_open a then zone_refused s0
      else let s = s0\<lparr>zs_device := True\<rparr>; pitch = zone_pitch width grain; bytes = zone_size pitch height in
      case za_create a of
        None \<Rightarrow> zone_refused s
      | Some i \<Rightarrow>
          let s1 = s\<lparr>zs_handles := i # zs_handles s\<rparr> in
          if \<not> za_alloc a then zone_refused (zone_free i s1)
          else case za_get_fd a of
            None \<Rightarrow> zone_refused (zone_free i s1)
          | Some fd \<Rightarrow> zone_map a pitch height bytes fd (zone_free i (s1\<lparr>zs_fds := fd # zs_fds s1\<rparr>)))"

text \<open>The end of a buffer.\<close>

definition zone_release :: "zone_buffer \<Rightarrow> zone_state \<Rightarrow> zone_state" where
  "zone_release b s = s\<lparr>zs_maps := remove1 (zb_fd b) (zs_maps s), zs_fds := remove1 (zb_fd b) (zs_fds s)\<rparr>"

text \<open>Whatever the driver answers, the handle made for a buffer is given back before the call returns, and a
  descriptor and a mapping are kept exactly for the buffer handed out.\<close>

lemma zone_target_leaks_nothing:
  "let (b, s2) = AllocateZoneTarget offers a width height grain s in
     zs_handles s2 = zs_handles s \<and>
     zs_fds s2 = (case b of Some z \<Rightarrow> zb_fd z # zs_fds s | None \<Rightarrow> zs_fds s) \<and>
     zs_maps s2 = (case b of Some z \<Rightarrow> zb_fd z # zs_maps s | None \<Rightarrow> zs_maps s) \<and>
     zs_refusals s2 = zs_refusals s + (if b = None then 1 else 0)"
  by (simp add: AllocateZoneTarget_def zone_refused_def zone_free_def zone_map_def Let_def split: option.splits)

lemma zone_release_undoes:
  "AllocateZoneTarget offers a width height grain s = (Some b, s2) \<Longrightarrow> zone_release b s2 = s\<lparr>zs_device := True\<rparr>"
  by (auto simp: AllocateZoneTarget_def zone_refused_def zone_free_def zone_map_def zone_release_def Let_def
      split: option.splits if_splits)

text \<open>A buffer holds the picture it was asked for, in whole rows of the grain.\<close>

lemma up_to_grain: "0 < g \<Longrightarrow> (n :: nat) \<le> (n + g - 1) div g * g \<and> (n + g - 1) div g * g \<le> n + g - 1"
proof
  assume g: "0 < g"
  have "(n + g - 1) mod g < g" using g by simp
  moreover have "(n + g - 1) div g * g + (n + g - 1) mod g = n + g - 1" by simp
  ultimately show "n \<le> (n + g - 1) div g * g" using g by linarith
  show "(n + g - 1) div g * g \<le> n + g - 1" by simp
qed

lemma zone_buffer_holds_picture:
  assumes "0 < width" "width \<le> 16384" "0 < height" "height \<le> 16384" "0 < grain" "grain \<le> 65536"
  shows "4 * width \<le> zone_pitch width grain \<and> grain dvd zone_pitch width grain \<and>
    zone_pitch width grain * height \<le> zone_size (zone_pitch width grain) height \<and>
    131072 dvd zone_size (zone_pitch width grain) height"
proof -
  have n: "width * 4 + grain - 1 < 4294967296" using assms by linarith
  have "zone_pitch width grain = wrap_size (int (width * 4 + grain - 1)) div grain * grain"
    by (cases "grain = kZonePitchGrain") (simp_all only: zone_pitch_def ZonePitchBytes_def if_True if_False nat_int simp_thms)
  then have p: "zone_pitch width grain = (width * 4 + grain - 1) div grain * grain"
    by (simp only: wrap_size_id [OF n])
  then have pitch: "4 * width \<le> zone_pitch width grain" "grain dvd zone_pitch width grain"
    using up_to_grain [OF assms(5), of "width * 4"] by (simp_all add: p)
  have "zone_pitch width grain \<le> width * 4 + grain - 1" using up_to_grain [OF assms(5), of "width * 4"] p by metis
  then have small: "zone_pitch width grain \<le> 131072" using assms(2,6) by linarith
  have "(height + 3) div 4 \<le> (16384 + 3) div 4" using assms(4) by (intro div_le_mono) simp
  then have "(height + 3) div 4 \<le> 4096" by simp
  then have h: "height \<le> (height + 3) div 4 * 4" "(height + 3) div 4 * 4 \<le> 16384" by linarith+
  define raw where "raw = zone_pitch width grain * ((height + 3) div 4 * 4)"
  have raw: "zone_pitch width grain * height \<le> raw" "raw \<le> 131072 * 16384"
    unfolding raw_def using mult_le_mono [OF small h(2)] h(1) by simp_all
  have up: "raw \<le> (raw + 131071) div 131072 * 131072" "(raw + 131071) div 131072 * 131072 \<le> raw + 131071"
    using up_to_grain [of 131072 raw] by simp_all
  have w: "wrap_size (int (height + 3)) = height + 3"
    "wrap_size (int ((raw + 131071) div 131072 * 131072)) = (raw + 131071) div 131072 * 131072"
    by (rule wrap_size_id, use assms(4) raw(2) up(2) in linarith)+
  have "zone_size (zone_pitch width grain) height = (raw + 131071) div 131072 * 131072"
    by (simp only: zone_size_def Let_def w raw_def [symmetric])
  then show ?thesis using pitch raw up by simp
qed

subsection \<open>A part against the whole\<close>

text \<open>Which members draw a pixel, bottom first, and how; and where in its buffer each is read for it.\<close>

definition fin_of :: "f32 \<Rightarrow> rat" where "fin_of f = (case f of Fin q \<Rightarrow> q | _ \<Rightarrow> 0)"

definition read_along :: "f32 \<Rightarrow> f32 \<Rightarrow> int \<Rightarrow> int \<Rightarrow> int \<Rightarrow> rat" where
  "read_along s0 s1 d0 d1 x = fin_of s0 + (of_int x + 1/2 - of_int d0) * ((fin_of s1 - fin_of s0) / of_int (d1 - d0))"

definition read_at :: "engine_seat \<Rightarrow> int \<times> int \<Rightarrow> rat \<times> rat" where
  "read_at s p = (let (r, d) = (es_source s, es_display s) in
     (read_along (rleft r) (rright r) (rleft d) (rright d) (fst p), read_along (rtop r) (rbottom r) (rtop d) (rbottom d) (snd p)))"

definition drawn_at :: "engine_pass \<Rightarrow> int \<times> int \<Rightarrow> engine_seat list" where
  "drawn_at e p = filter (\<lambda>s. p \<in> pts (es_display s)) (ep_seats e)"

definition seat_look :: "engine_seat \<Rightarrow> nat \<times> bool \<times> f32" where
  "seat_look s = (es_handle s, es_premultiplied s, es_alpha s)"

text \<open>A member read at its own size, from whole places.\<close>

definition whole_place :: "f32 \<Rightarrow> bool" where
  "whole_place f = (case f of Fin q \<Rightarrow> q = of_int \<lfloor>q\<rfloor> \<and> \<bar>q\<bar> \<le> 2 ^ 20 | _ \<Rightarrow> False)"

definition own_size :: "merge_layer \<Rightarrow> bool" where
  "own_size l \<longleftrightarrow> (let s = ml_src l; d = ml_dst l in
     whole_place (rleft s) \<and> whole_place (rtop s) \<and> whole_place (rright s) \<and> whole_place (rbottom s) \<and>
     fin_of (rright s) - fin_of (rleft s) = of_int (rwidth d) \<and> fin_of (rbottom s) - fin_of (rtop s) = of_int (rheight d))"

definition seat_of :: "merge_layer \<Rightarrow> frect \<times> irect \<Rightarrow> engine_seat" where
  "seat_of l rd = \<lparr>es_handle = ml_handle l, es_source = fst rd, es_display = snd rd,
     es_premultiplied = ml_premultiplied l, es_alpha = ml_alpha l\<rparr>"

definition seats_of :: "(merge_layer \<Rightarrow> (frect \<times> irect) option) \<Rightarrow> merge_layer list \<Rightarrow> engine_seat list" where
  "seats_of place ls = concat (map (\<lambda>l. case place l of None \<Rightarrow> [] | Some rd \<Rightarrow> [seat_of l rd]) ls)"

lemma seat_members_seats:
  "seat_members lb place ls seats waits = Some (seats2, waits2) \<Longrightarrow> seats2 = seats @ seats_of place ls"
proof (induction ls arbitrary: seats waits)
  case (Cons l ls)
  then have c: "lb_surfaces lb (ml_handle l) = Some 1" by (auto split: if_splits)
  show ?case
  proof (cases "place l")
    case None
    then show ?thesis using Cons.prems c Cons.IH by (auto simp: seats_of_def)
  next
    case (Some rd)
    then obtain w where "seat_members lb place ls (seats @ [seat_of l rd]) w = Some (seats2, waits2)"
      using Cons.prems c by (cases rd) (auto simp: seat_of_def Let_def split: if_splits option.splits)
    from Cons.IH [OF this] show ?thesis using Some by (simp add: seats_of_def)
  qed
qed (simp add: seats_of_def)

lemma AppendWaits_grows: "AppendWaits lb f ws = Some ws2 \<Longrightarrow> \<exists>ps. ws2 = ws @ ps"
  by (auto simp: AppendWaits_def split: option.splits if_splits)

lemma seat_members_waits_grow:
  "seat_members lb place ls seats waits = Some (seats2, waits2) \<Longrightarrow> set waits \<subseteq> set waits2"
proof (induction ls arbitrary: seats waits)
  case (Cons l ls)
  then show ?case
    using AppendWaits_grows [of lb "ClientFence (ml_acquire_fence l)" waits]
    by (fastforce simp: Let_def split: if_splits option.splits prod.splits)
qed simp

lemma unturned [simp]: "MirrorRectWithin d False False w h = d"
  by (simp add: MirrorRectWithin_def mk_rect_def)

lemma place_whole: "place_in_pass w h 0 None l = Some (ml_src l, ml_dst l)"
  by (simp add: place_in_pass_def)

lemma meets_at: "p \<in> pts d \<Longrightarrow> p \<in> pts b \<Longrightarrow> rMeet d b \<and> \<not> rEmpty (Intersect d b)"
  by (cases p) (auto simp: rMeet_def rEmpty_def Intersect_def)

lemma place_part:
  "p \<in> pts b \<Longrightarrow> p \<in> pts (ml_dst l) \<Longrightarrow>
   place_in_pass w h 0 (Some b) l = (if seat_scaled (ml_src l) (ml_dst l) then Some (ml_src l, ml_dst l)
     else ClipTo b (ml_src l) (ml_dst l)) \<and>
   (\<exists>s. ClipTo b (ml_src l) (ml_dst l) = Some (s, Intersect (ml_dst l) b))"
  using meets_at [of p "ml_dst l" b] by (auto simp: place_in_pass_def ClipTo_def Let_def)

lemma place_part_off:
  "place_in_pass w h 0 (Some b) l = Some (s, d) \<Longrightarrow> p \<notin> pts (ml_dst l) \<Longrightarrow> p \<notin> pts d"
  by (auto simp: place_in_pass_def ClipTo_def Let_def split: if_splits)

text \<open>Of a member read at its own size from whole places, the part cut out of it is so too.\<close>

lemma whole_placeD: "whole_place f \<Longrightarrow> \<exists>n. f = Fin (of_int n) \<and> \<bar>n\<bar> \<le> 2 ^ 20"
proof -
  assume "whole_place f"
  then obtain q where q: "f = Fin q" "q = of_int \<lfloor>q\<rfloor>" "\<bar>q\<bar> \<le> 2 ^ 20" by (auto simp: whole_place_def split: f32.splits)
  then have "\<bar>of_int \<lfloor>q\<rfloor> :: rat\<bar> \<le> of_int (2 ^ 20)" by simp
  then have "\<bar>\<lfloor>q\<rfloor>\<bar> \<le> 2 ^ 20" by (simp only: of_int_abs [symmetric] of_int_le_iff)
  then show ?thesis using q by blast
qed

lemma cut_axis:
  assumes "\<bar>a\<bar> \<le> 2 ^ 20" "\<bar>b\<bar> \<le> 2 ^ 20" "b - a = d1 - d0" "0 < d1 - d0" "0 \<le> k" "k \<le> d1 - d0"
  shows "f32_div (f32_sub (Fin (of_int b)) (Fin (of_int a))) (f32_of_int (d1 - d0)) = Fin 1"
    "f32_add (Fin (of_int a)) (f32_mul (f32_of_int k) (Fin 1)) = Fin (of_int (a + k))"
    "f32_sub (Fin (of_int b)) (f32_mul (f32_of_int k) (Fin 1)) = Fin (of_int (b - k))"
proof -
  have n: "\<bar>d1 - d0\<bar> \<le> 2 ^ 24" "\<bar>k\<bar> \<le> 2 ^ 24" "\<bar>a + k\<bar> \<le> 2 ^ 24" "\<bar>b - k\<bar> \<le> 2 ^ 24" "\<bar>b - a\<bar> \<le> 2 ^ 24"
    using assms by auto
  have f: "f32_of_int (d1 - d0) = Fin (of_int (d1 - d0))" "f32_of_int k = Fin (of_int k)"
    using f32_of_int_Fin n by blast+
  have "f32_sub (Fin (of_int b)) (Fin (of_int a)) = f32_of_rat (of_int (b - a))" by (simp add: f32_sub_def)
  then have s: "f32_sub (Fin (of_int b)) (Fin (of_int a)) = Fin (of_int (d1 - d0))"
    using f32_of_rat_int [OF n(5)] assms(3) by simp
  have one: "f32_of_rat 1 = Fin 1" using f32_of_rat_int [of 1] by simp
  have "(of_int (d1 - d0) :: rat) \<noteq> 0" using assms(4) by (simp only: of_int_eq_0_iff)
  then show "f32_div (f32_sub (Fin (of_int b)) (Fin (of_int a))) (f32_of_int (d1 - d0)) = Fin 1"
    by (simp only: s f f32_div.simps if_False divide_self one simp_thms)
  have m: "f32_mul (f32_of_int k) (Fin 1) = Fin (of_int k)" using f32_of_rat_int [OF n(2)] by (simp add: f)
  show "f32_add (Fin (of_int a)) (f32_mul (f32_of_int k) (Fin 1)) = Fin (of_int (a + k))"
    using f32_of_rat_int [OF n(3)] by (simp add: m)
  show "f32_sub (Fin (of_int b)) (f32_mul (f32_of_int k) (Fin 1)) = Fin (of_int (b - k))"
    using f32_of_rat_int [OF n(4)] by (simp add: m f32_sub_def)
qed

text \<open>Such a cut reads each pixel where the whole member reads it.\<close>

lemma cut_reads_along:
  assumes "whole_place s0" "whole_place s1" "fin_of s1 - fin_of s0 = of_int (d1 - d0)"
    and "d0 \<le> c0" "c0 < c1" "c1 \<le> d1"
    and "t = f32_div (f32_sub s1 s0) (f32_of_int (d1 - d0))"
  shows "read_along (f32_add s0 (f32_mul (f32_of_int (c0 - d0)) t)) (f32_sub s1 (f32_mul (f32_of_int (d1 - c1)) t)) c0 c1 x =
    read_along s0 s1 d0 d1 x"
proof -
  obtain a b where a: "s0 = Fin (of_int a)" "\<bar>a\<bar> \<le> 2 ^ 20" and b: "s1 = Fin (of_int b)" "\<bar>b\<bar> \<le> 2 ^ 20"
    using whole_placeD assms(1,2) by metis
  have "(of_int (b - a) :: rat) = of_int (d1 - d0)" using assms(3) a b by (simp add: fin_of_def)
  then have ba: "b - a = d1 - d0" by (simp only: of_int_eq_iff)
  have pos: "0 < d1 - d0" using assms by linarith
  note cut = cut_axis [OF a(2) b(2) ba pos]
  have t: "t = Fin 1" using assms(7) cut(1) [of 0] pos a b by simp
  have l: "f32_add s0 (f32_mul (f32_of_int (c0 - d0)) t) = Fin (of_int (a + (c0 - d0)))"
    using cut(2) [of "c0 - d0"] assms a t by simp
  have r: "f32_sub s1 (f32_mul (f32_of_int (d1 - c1)) t) = Fin (of_int (b - (d1 - c1)))"
    using cut(3) [of "d1 - c1"] assms b t by simp
  have one: "(of_int (b - (d1 - c1)) - of_int (a + (c0 - d0))) / of_int (c1 - c0) = (1 :: rat)"
    "(of_int b - of_int a) / of_int (d1 - d0) = (1 :: rat)"
  proof -
    have "b - (d1 - c1) - (a + (c0 - d0)) = c1 - c0" using ba by linarith
    then have "(of_int (b - (d1 - c1)) - of_int (a + (c0 - d0)) :: rat) = of_int (c1 - c0)" by (metis of_int_diff)
    moreover have "(of_int (c1 - c0) :: rat) \<noteq> 0" using assms(5) by simp
    ultimately show "(of_int (b - (d1 - c1)) - of_int (a + (c0 - d0))) / of_int (c1 - c0) = (1 :: rat)" by (simp only: divide_self simp_thms)
    have "(of_int b - of_int a :: rat) = of_int (d1 - d0)" using ba by (metis of_int_diff)
    moreover have "(of_int (d1 - d0) :: rat) \<noteq> 0" using pos by (simp only: of_int_eq_0_iff)
    ultimately show "(of_int b - of_int a) / of_int (d1 - d0) = (1 :: rat)" by (simp only: divide_self simp_thms)
  qed
  have f: "fin_of (f32_add s0 (f32_mul (f32_of_int (c0 - d0)) t)) = of_int (a + (c0 - d0))"
    "fin_of (f32_sub s1 (f32_mul (f32_of_int (d1 - c1)) t)) = of_int (b - (d1 - c1))"
    by (simp_all only: l r fin_of_def f32.case)
  have g: "fin_of s0 = of_int a" "fin_of s1 = of_int b" by (simp_all only: a(1) b(1) fin_of_def f32.case)
  show ?thesis by (simp only: read_along_def f g one) simp
qed

lemma cut_reads_alike:
  assumes "own_size l" "p \<in> pts b" "p \<in> pts (ml_dst l)" "ClipTo b (ml_src l) (ml_dst l) = Some (s, d)"
  shows "read_at (seat_of l (s, d)) p = read_at (seat_of l (ml_src l, ml_dst l)) p"
proof -
  let ?s = "ml_src l" and ?d = "ml_dst l"
  define tx where "tx = f32_div (fwidth ?s) (f32_of_int (rwidth ?d))"
  define ty where "ty = f32_div (fheight ?s) (f32_of_int (rheight ?d))"
  have d: "d = Intersect ?d b" "s = mk_rect (f32_add (rleft ?s) (f32_mul (f32_of_int (rleft d - rleft ?d)) tx))
      (f32_add (rtop ?s) (f32_mul (f32_of_int (rtop d - rtop ?d)) ty))
      (f32_sub (rright ?s) (f32_mul (f32_of_int (rright ?d - rright d)) tx))
      (f32_sub (rbottom ?s) (f32_mul (f32_of_int (rbottom ?d - rbottom d)) ty))"
    using assms(4) by (auto simp: ClipTo_def Let_def tx_def ty_def split: if_splits)
  have "\<not> rEmpty (Intersect ?d b)" using meets_at [OF assms(3,2)] by blast
  then have e: "rleft ?d \<le> rleft d" "rleft d < rright d" "rright d \<le> rright ?d"
    "rtop ?d \<le> rtop d" "rtop d < rbottom d" "rbottom d \<le> rbottom ?d"
    by (auto simp: d(1) rEmpty_def Intersect_def)
  have o: "whole_place (rleft ?s)" "whole_place (rright ?s)" "fin_of (rright ?s) - fin_of (rleft ?s) = of_int (rright ?d - rleft ?d)"
    "whole_place (rtop ?s)" "whole_place (rbottom ?s)" "fin_of (rbottom ?s) - fin_of (rtop ?s) = of_int (rbottom ?d - rtop ?d)"
    using assms(1) by (simp_all add: own_size_def Let_def rwidth_def rheight_def)
  show ?thesis
    using cut_reads_along [OF o(1-3) e(1-3) tx_def [unfolded fwidth_def rwidth_def], of "fst p"]
      cut_reads_along [OF o(4-6) e(4-6) ty_def [unfolded fheight_def rheight_def], of "snd p"]
    by (simp add: read_at_def seat_of_def d(2))
qed

text \<open>Of one member: the seats of it at a pixel of the part, in the part and in the whole.\<close>

definition seats_at :: "(merge_layer \<Rightarrow> (frect \<times> irect) option) \<Rightarrow> int \<times> int \<Rightarrow> merge_layer \<Rightarrow> engine_seat list" where
  "seats_at place p l = (case place l of None \<Rightarrow> [] | Some rd \<Rightarrow> if p \<in> pts (snd rd) then [seat_of l rd] else [])"

lemma drawn_at_seats: "ep_seats e = seats_of place ls \<Longrightarrow> drawn_at e p = concat (map (seats_at place p) ls)"
  by (auto simp: drawn_at_def seats_of_def seats_at_def seat_of_def filter_concat comp_def
      intro!: arg_cong [of _ _ concat] split: option.splits)

lemma member_alike:
  assumes "p \<in> pts b"
  shows "map seat_look (seats_at (place_in_pass w h 0 (Some b)) p l) = map seat_look (seats_at (place_in_pass w h 0 None) p l)"
    and "seat_scaled (ml_src l) (ml_dst l) \<or> own_size l \<Longrightarrow>
      map (\<lambda>s. read_at s p) (seats_at (place_in_pass w h 0 (Some b)) p l) =
      map (\<lambda>s. read_at s p) (seats_at (place_in_pass w h 0 None) p l)"
proof -
  let ?part = "place_in_pass w h 0 (Some b)" and ?whole = "place_in_pass w h 0 None"
  have whole: "seats_at ?whole p l = (if p \<in> pts (ml_dst l) then [seat_of l (ml_src l, ml_dst l)] else [])"
    by (simp add: seats_at_def place_whole)
  have off: "seats_at ?part p l = []" if "p \<notin> pts (ml_dst l)"
    using place_part_off [of w h b l _ _ p] that by (auto simp: seats_at_def split: option.splits)
  have on: "\<exists>s d. seats_at ?part p l = [seat_of l (s, d)] \<and>
      (seat_scaled (ml_src l) (ml_dst l) \<and> s = ml_src l \<and> d = ml_dst l \<or>
       \<not> seat_scaled (ml_src l) (ml_dst l) \<and> ClipTo b (ml_src l) (ml_dst l) = Some (s, d))"
    if "p \<in> pts (ml_dst l)"
    using place_part [OF assms that, of w h] that assms by (auto simp: seats_at_def)
  show "map seat_look (seats_at ?part p l) = map seat_look (seats_at ?whole p l)"
    using on off by (cases "p \<in> pts (ml_dst l)") (auto simp: whole seat_look_def seat_of_def)
  show "map (\<lambda>s. read_at s p) (seats_at ?part p l) = map (\<lambda>s. read_at s p) (seats_at ?whole p l)"
    if "seat_scaled (ml_src l) (ml_dst l) \<or> own_size l"
    using on off that cut_reads_alike [OF _ assms] by (cases "p \<in> pts (ml_dst l)") (auto simp: whole)
qed

text \<open>The pass the engine took.\<close>

lemma ComposeInto_pass:
  assumes "ComposeInto lb bw bh layers width height ready turn dirty = Some e"
  shows "pass_bound (bounded_to width bw) (bounded_to height bh) turn dirty = Some (ep_rect e) \<and>
    ep_seats e = seats_of (place_in_pass (bounded_to width bw) (bounded_to height bh) turn
      (if dirty \<noteq> None \<and> turn = 0 then Some (ep_rect e) else None)) layers"
proof -
  let ?w = "bounded_to width bw" and ?h = "bounded_to height bh"
  obtain bound where b: "pass_bound ?w ?h turn dirty = Some bound"
    using assms by (auto simp: ComposeInto_def Let_def split: if_splits option.splits)
  let ?place = "place_in_pass ?w ?h turn (if dirty \<noteq> None \<and> turn = 0 then Some bound else None)"
  obtain waits seats waits2 where m: "seat_members lb ?place layers [] waits = Some (seats, waits2)"
    "e = \<lparr>ep_rect = bound, ep_seats = seats, ep_waits = waits2\<rparr>"
    using assms b by (simp add: ComposeInto_def Let_def del: not_None_eq split: if_splits option.splits prod.splits)
  show ?thesis using seat_members_seats [OF m(1)] m(2) b by simp
qed

text \<open>C4: drawing a part of a group draws what drawing it whole would. Every pixel of the part is drawn by the same
  members in the same order, blended alike; and where each is scaled, or read at its own size from whole
  places, each is read for that pixel at the very same place. The library may answer otherwise in between.\<close>

theorem part_draws_like_whole:
  assumes "ComposeInto lb bw bh layers width height ready 0 None = Some whole"
    and "ComposeInto lb2 bw bh layers width height ready2 0 (Some dirty) = Some part"
    and "p \<in> pts (ep_rect part)"
  shows "p \<in> pts (ep_rect whole) \<and> map seat_look (drawn_at part p) = map seat_look (drawn_at whole p) \<and>
    ((\<forall>l\<in>set layers. seat_scaled (ml_src l) (ml_dst l) \<or> own_size l) \<longrightarrow>
     map (\<lambda>s. read_at s p) (drawn_at part p) = map (\<lambda>s. read_at s p) (drawn_at whole p))"
proof -
  let ?place = "place_in_pass (bounded_to width bw) (bounded_to height bh) 0"
  note w = ComposeInto_pass [OF assms(1)] and t = ComposeInto_pass [OF assms(2)]
  have "ep_rect part = Intersect dirty (ep_rect whole)"
    using w t by (auto simp: pass_bound_def Let_def split: if_splits)
  then have r: "p \<in> pts (ep_rect whole)" using assms(3) by simp
  have d: "drawn_at part p = concat (map (seats_at (?place (Some (ep_rect part))) p) layers)"
    "drawn_at whole p = concat (map (seats_at (?place None) p) layers)"
    using drawn_at_seats [of part] drawn_at_seats [of whole] w t by simp_all
  note m = member_alike [OF assms(3), where w = "bounded_to width bw" and h = "bounded_to height bh"]
  show ?thesis
  proof (intro conjI impI r)
    show "map seat_look (drawn_at part p) = map seat_look (drawn_at whole p)"
      unfolding d map_concat map_map comp_def m(1) ..
    assume s: "\<forall>l\<in>set layers. seat_scaled (ml_src l) (ml_dst l) \<or> own_size l"
    show "map (\<lambda>s. read_at s p) (drawn_at part p) = map (\<lambda>s. read_at s p) (drawn_at whole p)"
      unfolding d map_concat map_map comp_def by (rule arg_cong [of _ _ concat], rule map_cong [OF refl], rule m(2)) (use s in blast)
  qed
qed

text \<open>The waits: of the target's fence, and of the fence of each member that is read, every point.\<close>

definition points_of :: "library \<Rightarrow> waited \<Rightarrow> (nat \<times> nat) list" where
  "points_of lb f = (case lb_count lb f of Some n \<Rightarrow> if n = 0 then [] else (case lb_points lb f of Some ps \<Rightarrow> ps | None \<Rightarrow> [])
     | None \<Rightarrow> [])"

lemma AppendWaits_points: "AppendWaits lb f ws = Some ws2 \<Longrightarrow> ws2 = ws @ points_of lb f"
  by (auto simp: AppendWaits_def points_of_def split: option.splits if_splits)

lemma seat_members_tail:
  "seat_members lb place (k # ls) seats waits = Some r \<Longrightarrow> \<exists>seats1 waits1. seat_members lb place ls seats1 waits1 = Some r"
  by (simp add: Let_def split: if_splits option.splits prod.splits; blast)

lemma seat_members_wait:
  "seat_members lb place ls seats waits = Some (seats2, waits2) \<Longrightarrow> l \<in> set ls \<Longrightarrow> place l \<noteq> None \<Longrightarrow>
   0 \<le> ml_acquire_fence l \<Longrightarrow> set (points_of lb (ClientFence (ml_acquire_fence l))) \<subseteq> set waits2"
proof (induction ls arbitrary: seats waits)
  case (Cons k ls)
  show ?case
  proof (cases "k = l")
    case True
    then obtain rd seats1 waits1 where "AppendWaits lb (ClientFence (ml_acquire_fence l)) waits = Some waits1"
      "seat_members lb place ls seats1 waits1 = Some (seats2, waits2)"
      using Cons.prems by (auto simp: Let_def split: if_splits option.splits)
    then show ?thesis using AppendWaits_points seat_members_waits_grow by fastforce
  next
    case False
    obtain seats1 waits1 where "seat_members lb place ls seats1 waits1 = Some (seats2, waits2)"
      using seat_members_tail [OF Cons.prems(1)] by blast
    from Cons.IH [OF this] show ?thesis using Cons.prems False by simp
  qed
qed simp

text \<open>C30: a pass the engine took waits for everything it may not run ahead of: each point of the fence of the
  flip that frees its target, and each point of the fence of every member it reads.\<close>

theorem pass_waits_for_its_inputs:
  assumes "ComposeInto lb bw bh layers width height ready turn dirty = Some e"
  shows "(\<forall>f. ready = Some f \<longrightarrow> set (points_of lb (FlipFence f)) \<subseteq> set (ep_waits e)) \<and>
    (\<forall>l\<in>set layers. place_in_pass (bounded_to width bw) (bounded_to height bh) turn
         (if dirty \<noteq> None \<and> turn = 0 then Some (ep_rect e) else None) l \<noteq> None \<and> 0 \<le> ml_acquire_fence l \<longrightarrow>
       set (points_of lb (ClientFence (ml_acquire_fence l))) \<subseteq> set (ep_waits e))"
proof -
  let ?w = "bounded_to width bw" and ?h = "bounded_to height bh"
  obtain bound where b: "pass_bound ?w ?h turn dirty = Some bound"
    using assms by (auto simp: ComposeInto_def Let_def split: if_splits option.splits)
  let ?place = "place_in_pass ?w ?h turn (if dirty \<noteq> None \<and> turn = 0 then Some bound else None)"
  obtain waits seats waits2 where m: "seat_members lb ?place layers [] waits = Some (seats, waits2)"
    "e = \<lparr>ep_rect = bound, ep_seats = seats, ep_waits = waits2\<rparr>"
    "(case ready of None \<Rightarrow> Some [] | Some f \<Rightarrow> AppendWaits lb (FlipFence f) []) = Some waits"
    using assms b by (simp add: ComposeInto_def Let_def del: not_None_eq split: if_splits option.splits prod.splits)
  have "set (points_of lb (FlipFence f)) \<subseteq> set waits" if "ready = Some f" for f
    using m(3) that AppendWaits_points [of lb "FlipFence f" "[]"] by simp
  then show ?thesis using seat_members_waits_grow [OF m(1)] seat_members_wait [OF m(1)] m(2) by auto
qed

subsection \<open>On a group of two\<close>

text \<open>A member of the size it is read at, waiting for its client, and one stretched.\<close>

definition willing :: library where
  "willing = \<lparr>lb_gralloc = True, lb_target = True, lb_count = (\<lambda>_. Some 1),
     lb_points = (\<lambda>f. case f of FlipFence n \<Rightarrow> Some [(n, 0)] | ClientFence n \<Rightarrow> Some [(nat n, 1)]), lb_surfaces = (\<lambda>_. Some 1),
     lb_source = (\<lambda>_. True), lb_configure = True, lb_execute = True, lb_fence = True\<rparr>"

definition two_members :: "merge_layer list" where
  "two_members =
     [\<lparr>ml_handle = 1, ml_src = mk_rect (Fin 0) (Fin 0) (Fin 4) (Fin 4), ml_dst = mk_rect 0 0 4 4, ml_premultiplied = True,
        ml_alpha = Fin 1, ml_acquire_fence = 3\<rparr>,
      \<lparr>ml_handle = 2, ml_src = mk_rect (Fin 0) (Fin 0) (Fin 2) (Fin 2), ml_dst = mk_rect 2 2 6 6, ml_premultiplied = False,
        ml_alpha = Fin 1, ml_acquire_fence = -1\<rparr>]"

definition whole_pass :: engine_pass where
  "whole_pass = the (ComposeInto willing 8 8 two_members 6 6 (Some 5) 0 None)"

definition part_pass :: engine_pass where
  "part_pass = the (ComposeInto willing 8 8 two_members 6 6 None 0 (Some (mk_rect 1 1 4 4)))"

lemma two_passes:
  "ComposeInto willing 8 8 two_members 6 6 (Some 5) 0 None = Some whole_pass"
  "ComposeInto willing 8 8 two_members 6 6 None 0 (Some (mk_rect 1 1 4 4)) = Some part_pass"
proof -
  have "ComposeInto willing 8 8 two_members 6 6 (Some 5) 0 None \<noteq> None"
    "ComposeInto willing 8 8 two_members 6 6 None 0 (Some (mk_rect 1 1 4 4)) \<noteq> None"
    by code_simp+
  then show "ComposeInto willing 8 8 two_members 6 6 (Some 5) 0 None = Some whole_pass"
    "ComposeInto willing 8 8 two_members 6 6 None 0 (Some (mk_rect 1 1 4 4)) = Some part_pass"
    by (auto simp: whole_pass_def part_pass_def)
qed

theorem part_draws_like_whole_witness:
  "map seat_look (drawn_at part_pass (2, 3)) = map seat_look (drawn_at whole_pass (2, 3)) \<and>
   length (drawn_at part_pass (2, 3)) = 2"
proof -
  have "(2, 3) \<in> pts (ep_rect part_pass)" by code_simp
  moreover have "length (drawn_at part_pass (2, 3)) = 2" by code_simp
  ultimately show ?thesis using part_draws_like_whole [OF two_passes] by blast
qed

theorem pass_waits_for_its_inputs_witness: "(5, 0) \<in> set (ep_waits whole_pass) \<and> (3, 1) \<in> set (ep_waits whole_pass)"
proof -
  have "points_of willing (FlipFence 5) = [(5, 0)]" "points_of willing (ClientFence 3) = [(3, 1)]" by code_simp+
  then show ?thesis using pass_waits_for_its_inputs [OF two_passes(1)] by (simp add: two_members_def place_whole)
qed

text \<open>A job that runs with no descriptor for its end is refused to the caller; the target has been written.\<close>

lemma fenceless_pass_writes:
  "\<exists>s s2. Compose 1 two_members 6 6 None 0 None s = (None, s2) \<and> length (vs_writes s2) = length (vs_writes s) + 1"
proof -
  let ?s = "\<lparr>vs_buffer_width = 8, vs_buffer_height = 8, vs_library = (\<lambda>_. willing\<lparr>lb_fence := False\<rparr>), vs_calls = 0,
    vs_writes = [], vs_composed = 0, vs_refused = 0\<rparr>"
  have "fst (Compose 1 two_members 6 6 None 0 None ?s) = None"
    "length (vs_writes (snd (Compose 1 two_members 6 6 None 0 None ?s))) = 1"
    by code_simp+
  then show ?thesis by (intro exI [of _ ?s] exI [of _ "snd (Compose 1 two_members 6 6 None 0 None ?s)"]) (simp add: prod_eq_iff)
qed

end
