(* ===== verification/MergeCommit.thy ===== *)
theory MergeCommit
  imports EngineSession SlotWorld JobQueue Governor
begin

text \<open>
  tegra/TegraAtomicStateManager.cpp, the half that commits: a group is queued for the engine when its frame
  is validated (\<open>Test\<close>, \<open>QueueMerge\<close>), drawn by the engine's worker, and shown when the frame is executed
  (\<open>Execute\<close>), drawn there and then if need be, or shown again as it was. What the kernel and the vendor's
  library answer is an argument. A drawing's fence is named by its number among the engine's drawings, the
  fence of a flip by the number of flips before it. The record kept of a frame for its readers, the
  pictures taken of it, the counters of the dump and the log are not kept.
\<close>

subsection \<open>The engine\<close>

record vic_job =
  vj_target :: nat
  vj_layers :: "merge_layer list"
  vj_width :: nat
  vj_height :: nat
  vj_ready :: "nat option"
  vj_code :: nat
  vj_parts :: "irect list"

record vic_drawn =
  vd_fence :: "nat option"
  vd_passes :: nat
  vd_whole :: bool

definition no_drawing :: vic_drawn where "no_drawing = \<lparr>vd_fence = None, vd_passes = 0, vd_whole = False\<rparr>"

definition compose_job :: "vic_job \<Rightarrow> irect option \<Rightarrow> vic_session \<Rightarrow> nat option \<times> vic_session" where
  "compose_job j dirty s =
     Compose (vj_target j) (vj_layers j) (vj_width j) (vj_height j) (vj_ready j) (vj_code j) dirty s"

fun draw_parts :: "vic_job \<Rightarrow> irect list \<Rightarrow> vic_drawn \<Rightarrow> vic_session \<Rightarrow> vic_drawn \<times> vic_session" where
  "draw_parts j [] d s = (d, s)"
| "draw_parts j (part # ps) d s = (case compose_job j (Some part) s of
     (None, s2) \<Rightarrow> (d\<lparr>vd_fence := None\<rparr>, s2)
   | (Some f, s2) \<Rightarrow> draw_parts j ps (d\<lparr>vd_fence := Some f, vd_passes := vd_passes d + 1\<rparr>) s2)"

definition DrawMergeJob :: "vic_job \<Rightarrow> vic_session \<Rightarrow> vic_drawn \<times> vic_session" where
  "DrawMergeJob j s =
     (if vj_parts j = []
      then (let (f, s2) = compose_job j None s in (no_drawing\<lparr>vd_fence := f\<rparr>, s2))
      else let (d, s2) = draw_parts j (vj_parts j) no_drawing s
           in if vd_fence d = None
              then (let (f, s3) = compose_job j None s2 in (d\<lparr>vd_fence := f, vd_whole := True\<rparr>, s3))
              else (d, s2))"

subsection \<open>The state manager\<close>

record tegra_config =
  tc_engine :: bool
  tc_governor :: bool
  tc_cursor :: bool
  tc_merge_cache :: bool
  tc_partial :: bool
  tc_worker_wanted :: bool
  tc_cmu :: bool
  tc_engine_reads :: bool
  tc_forced_vic :: int

datatype fence_state = kNone | kSignaled | kPending | kUnknown

text \<open>What is answered during one call.\<close>

record answered =
  an_acquire :: "int \<Rightarrow> fence_state"
  an_post :: "nat option \<Rightarrow> fence_state"
  an_signal_ns :: "nat \<Rightarrow> int option"
  an_now :: int
  an_last_use :: int
  an_dup :: "int \<Rightarrow> int option"
  an_power :: "bool \<Rightarrow> int"
  an_test :: bool
  an_show :: "cursor_ask \<Rightarrow> bool"
  an_flip :: int
  an_fence :: bool
  an_fence_dup :: bool

text \<open>What is told to the panel, the cursor unit and the governor, in the order it is told.\<close>

datatype told =
    PanelPowered bool
  | ActiveVfp int
  | ColorMatrix "f32 list"
  | CursorShow cursor_ask bool
  | CursorHide
  | CursorRearm
  | GovPowerMode power
  | GovPlanned gov_frame "gov_member list"
  | GovSubmitted nat nat
  | GovPresented nat
  | GovGpuPlanned nat nat
  | GovGpuSubmitted nat nat
  | CursorMove int int

record pending_merge =
  pg_id :: nat
  pg_target :: nat
  pg_plan :: plan
  pg_members :: "member list"
  pg_key :: picture_memory
  pg_code :: nat
  pg_untouched :: bool
  pg_held_fence :: "nat option"
  pg_droppable :: bool

record manager =
  tm_power_seen :: power
  tm_active :: bool
  tm_cursor_shown :: bool
  tm_move_seq :: nat
  tm_porch :: int
  tm_period_ns :: int
  tm_planned_seq :: nat
  tm_last_latch_ns :: int
  tm_previous_fence :: "nat option"
  tm_frames :: nat
  tm_lagged_last :: bool
  tm_memory :: picture_memory
  tm_described :: dc_window
  tm_last_fence :: "nat option"
  tm_slots :: slot_pictures
  tm_pool :: "pool option"
  tm_vic :: vic_session
  tm_jobs :: "(vic_job, vic_drawn) job_queue"
  tm_pending :: "pending_merge option"
  tm_told :: "told list"

text \<open>The request of the frame, with the power mode and the colour transform that ride on it.\<close>

record tegra_request =
  tr_frame :: atomic_request
  tr_power :: "power option"
  tr_matrix :: "f32 list option"

abbreviation tr_merge :: "tegra_request \<Rightarrow> merge_group" where "tr_merge tr \<equiv> rq_merge (tr_frame tr)"

definition tell :: "told \<Rightarrow> manager \<Rightarrow> manager" where "tell t m = m\<lparr>tm_told := tm_told m @ [t]\<rparr>"

text \<open>\<open>DrmMode::GetVSyncPeriodNs\<close>; of a rate that is nought or not a number the cast is undefined.\<close>

definition GetVSyncPeriodNs :: "raw_mode \<Rightarrow> int" where
  "GetVSyncPeriodNs mode = (case f32_div (Fin 1) (GetVRefresh mode) of
     Fin x \<Rightarrow> if x = 0 then 0 else (let y = rnd64 (1000000000 * x) in if y < 0 then \<lceil>y\<rceil> else \<lfloor>y\<rfloor>)
   | _ \<Rightarrow> 0)"

subsection \<open>What is said to the governor\<close>

definition span_f :: "f32 \<Rightarrow> f32 \<Rightarrow> nat" where
  "span_f a b = (let span = f32_sub b a in if f32_less (Fin 0) span then nat (f32_lround span mod 2 ^ 32) else 0)"

definition span_i :: "int \<Rightarrow> int \<Rightarrow> nat" where "span_i a b = (if b > a then nat (b - a) else 0)"

text \<open>Of a member the governor's estimate takes its four sizes.\<close>

definition DescribeMembers :: "merge_group \<Rightarrow> gov_member list" where
  "DescribeMembers m = map (\<lambda>l. \<lparr>ge_src_w = span_f (rleft (ml_src l)) (rright (ml_src l)),
     ge_src_h = span_f (rtop (ml_src l)) (rbottom (ml_src l)),
     ge_dst_w = span_i (rleft (ml_dst l)) (rright (ml_dst l)),
     ge_dst_h = span_i (rtop (ml_dst l)) (rbottom (ml_dst l))\<rparr>) (mg_layers m)"

definition MergeMembers :: "merge_group \<Rightarrow> member list" where
  "MergeMembers m = map (\<lambda>i. let l = mg_layers m ! i in
     \<lparr>mb_source = (if i < length (mg_source_ids m) then mg_source_ids m ! i else 0),
      mb_generation = (if i < length (mg_generations m) then mg_generations m ! i else 0),
      mb_serial = (if i < length (mg_serials m) then mg_serials m ! i else 0),
      mb_solid = False, mb_color = replicate 4 (Fin 0), mb_src = ml_src l, mb_dst = ml_dst l,
      mb_alpha = ml_alpha l, mb_premultiplied = ml_premultiplied l, mb_opaque = False,
      mb_transform = (if i < length (mg_transforms m) then mg_transforms m ! i else 0),
      mb_corners = replicate 5 (Fin 0), mb_turned = replicate 6 (Fin 0)\<rparr>) [0..<length (mg_layers m)]"

definition JudgeMerge :: "merge_group \<Rightarrow> manager \<Rightarrow> verdict" where
  "JudgeMerge g m = Judge (tm_memory m) (mg_width g) (mg_height g) (MergeMembers g)"

definition ForgetMerge :: "manager \<Rightarrow> manager" where "ForgetMerge m = m\<lparr>tm_memory := Forget (tm_memory m)\<rparr>"

definition NoteLatch :: "answered \<Rightarrow> manager \<Rightarrow> bool \<times> manager" where
  "NoteLatch a m =
     (if an_post a (tm_previous_fence m) \<noteq> kSignaled then (False, m)
      else (True, case Option.bind (tm_previous_fence m) (an_signal_ns a) of
                    Some t \<Rightarrow> if t > tm_last_latch_ns m then m\<lparr>tm_last_latch_ns := t\<rparr> else m
                  | None \<Rightarrow> m))"

definition power_number :: "power \<Rightarrow> nat" where
  "power_number p = (case p of Power_off \<Rightarrow> 0 | Power_doze \<Rightarrow> 1 | Power_dozeSuspend \<Rightarrow> 2 | Power_suspend \<Rightarrow> 3 | Power_on \<Rightarrow> 4)"

definition TellGovernor :: "tegra_config \<Rightarrow> answered \<Rightarrow> merge_group \<Rightarrow> manager \<Rightarrow> manager" where
  "TellGovernor c a g m0 =
     (let (landed, m1) = NoteLatch a m0;
          m = m1\<lparr>tm_planned_seq := tm_planned_seq m1 + 1\<rparr>;
          planned = (mg_layers g \<noteq> [])
      in tell (GovPlanned \<lparr>fr_seq = tm_planned_seq m, fr_now_ns = an_now a, fr_last_latch_ns = tm_last_latch_ns m,
           fr_vsync_period_ns = tm_period_ns m, fr_last_engine_use_ns = (if tc_engine c then an_last_use a else 0),
           fr_merge_planned = planned,
           fr_merge_reuse_predicted = (planned \<and> tc_merge_cache c \<and> JudgeMerge g m = kSame),
           fr_previous_flip_landed = landed, fr_power_mode = power_number (tm_power_seen m),
           fr_target_w = mg_width g, fr_target_h = mg_height g\<rparr> (DescribeMembers g)) m)"

subsection \<open>Queueing a group at validate\<close>

definition on_pool :: "(pool \<Rightarrow> pool) \<Rightarrow> manager \<Rightarrow> manager" where
  "on_pool f m = m\<lparr>tm_pool := map_option f (tm_pool m)\<rparr>"

definition lose_slot :: "nat \<Rightarrow> manager \<Rightarrow> manager" where
  "lose_slot k m = m\<lparr>tm_slots := sp_Lost (tm_slots m) k\<rparr>"

definition DropPendingMerge :: "manager \<Rightarrow> manager" where
  "DropPendingMerge m = (case tm_pending m of
     None \<Rightarrow> m
   | Some p \<Rightarrow> (on_pool Rewind (lose_slot (pg_target p) (m\<lparr>tm_jobs := jq_Cancel (tm_jobs m) (pg_id p)\<rparr>)))\<lparr>tm_pending := None\<rparr>)"

text \<open>The code of the group's one turn; the door \<open>vendor.hwc.test.victransform\<close> is -1 when shut.\<close>

definition group_code :: "tegra_config \<Rightarrow> nat \<Rightarrow> nat" where
  "group_code c turn = (if turn \<noteq> 0 \<and> 0 \<le> tc_forced_vic c \<and> tc_forced_vic c \<le> 7 then nat (tc_forced_vic c)
     else VicTransformFor turn)"

definition record_damage :: "merge_group \<Rightarrow> slot_pictures \<Rightarrow> slot_pictures" where
  "record_damage g s = fold (\<lambda>(m, d) s. sp_Record s m d) (zip (MergeMembers g) (mg_damages g)) s"

text \<open>What of a slot to draw again, decided of a slot then let go as known: the plan, whether the slot
  already holds the picture, and the fence of that picture.\<close>

definition decide_slot :: "tegra_config \<Rightarrow> nat \<Rightarrow> nat \<Rightarrow> merge_group \<Rightarrow> plan \<Rightarrow> manager \<Rightarrow> (plan \<times> bool \<times> nat option) \<times> manager" where
  "decide_slot c code k g undecided m =
     (let s = record_damage g (tm_slots m);
          plan = (if tc_partial c \<and> code = 0 then sp_Decide s k (mg_width g) (mg_height g) (MergeMembers g) else undecided);
          untouched = (pl_kind plan = kUnchanged)
      in ((plan, untouched, if untouched then sp_Fence s k else None), m\<lparr>tm_slots := sp_Lost s k\<rparr>))"

definition merge_job :: "merge_group \<Rightarrow> nat \<Rightarrow> nat option \<Rightarrow> nat \<Rightarrow> plan \<Rightarrow> vic_job" where
  "merge_job g k ready code plan = \<lparr>vj_target = k, vj_layers = mg_layers g, vj_width = mg_width g, vj_height = mg_height g,
     vj_ready = ready, vj_code = code, vj_parts = pl_parts plan\<rparr>"

definition own_fence :: "(int \<Rightarrow> int option) \<Rightarrow> merge_layer \<Rightarrow> merge_layer" where
  "own_fence dup l = (if ml_acquire_fence l < 0 then l
     else l\<lparr>ml_acquire_fence := (case dup (ml_acquire_fence l) of Some f \<Rightarrow> f | None \<Rightarrow> -1)\<rparr>)"

text \<open>A group may be dropped for the one before if it is that group, with newer frames or moved.\<close>

definition may_drop :: "tegra_config \<Rightarrow> merge_group \<Rightarrow> manager \<Rightarrow> bool" where
  "may_drop c g m \<longleftrightarrow> tc_merge_cache c \<and> tm_last_fence m \<noteq> None \<and>
     JudgeMerge g m \<in> {kChangedFrame, kChangedGeometry, kChangedBlend}"

definition queue_group :: "tegra_config \<Rightarrow> answered \<Rightarrow> merge_group \<Rightarrow> nat \<Rightarrow> nat \<Rightarrow> nat option \<Rightarrow> manager \<Rightarrow> manager" where
  "queue_group c a g code k ready m0 =
     (let ((plan, untouched, held), m) = decide_slot c code k g new_plan m0;
          p = \<lparr>pg_id = 0, pg_target = k, pg_plan = plan, pg_members = MergeMembers g,
               pg_key = Remember pm_init (mg_width g) (mg_height g) (MergeMembers g), pg_code = code,
               pg_untouched = untouched, pg_held_fence = held, pg_droppable = may_drop c g m\<rparr>
      in if untouched then m\<lparr>tm_pending := Some p\<rparr>
         else let j = merge_job g k ready code plan;
                  (i, q) = jq_Queue (tm_jobs m) (j\<lparr>vj_layers := map (own_fence (an_dup a)) (vj_layers j)\<rparr>) (pg_droppable p)
              in m\<lparr>tm_jobs := q, tm_pending := Some (p\<lparr>pg_id := i\<rparr>)\<rparr>)"

definition QueueMerge :: "tegra_config \<Rightarrow> answered \<Rightarrow> merge_group \<Rightarrow> manager \<Rightarrow> manager" where
  "QueueMerge c a g m0 =
     (let m = DropPendingMerge m0 in
      case tm_pool m of
        None \<Rightarrow> m
      | Some pool \<Rightarrow>
          if \<not> tc_worker_wanted c \<or> \<not> tc_engine c \<or> mg_layers g = [] then m
          else if tc_merge_cache c \<and> JudgeMerge g m = kSame then m
          else case UniformTurn (mg_transforms g) of
            None \<Rightarrow> m
          | Some turn \<Rightarrow>
              (case Next pool of
                 (None, _) \<Rightarrow> m
               | (Some (k, ready), pool2) \<Rightarrow>
                   queue_group c a g (group_code c turn) k ready (m\<lparr>tm_pool := Some pool2\<rparr>)))"

definition Test :: "tegra_config \<Rightarrow> answered \<Rightarrow> tegra_request \<Rightarrow> manager \<Rightarrow> bool \<times> manager" where
  "Test c a tr m =
     (if \<not> an_test a then (False, m)
      else (True, QueueMerge c a (tr_merge tr) (if tc_governor c then TellGovernor c a (tr_merge tr) m else m)))"

subsection \<open>Executing a frame\<close>

definition EINVAL :: int where "EINVAL = 22"
definition EBUSY :: int where "EBUSY = 16"

definition SetPowered :: "answered \<Rightarrow> bool \<Rightarrow> manager \<Rightarrow> int \<times> manager" where
  "SetPowered a powered m0 =
     (if tm_active m0 = powered \<and> \<not> powered then (0, m0)
      else let m = tell (PanelPowered powered) m0; err = an_power a powered
           in if err \<noteq> 0 then (err, m)
              else let m1 = m\<lparr>tm_active := powered\<rparr>;
                       m2 = (if powered \<and> tm_cursor_shown m1 then tell CursorRearm m1 else m1)
                   in (0, if powered \<and> tm_porch m2 \<noteq> 0 then tell (ActiveVfp (tm_porch m2)) m2 else m2))"

definition see_power :: "tegra_config \<Rightarrow> power option \<Rightarrow> manager \<Rightarrow> manager" where
  "see_power c p m = (case p of
     Some mode \<Rightarrow> if mode = tm_power_seen m then m
       else let m1 = m\<lparr>tm_power_seen := mode\<rparr> in if tc_governor c then tell (GovPowerMode mode) m1 else m1
   | None \<Rightarrow> m)"

text \<open>A group shown as it was last drawn: the remembered window, this frame's window of the panel, place
  and depth.\<close>

definition again_window :: "merge_group \<Rightarrow> manager \<Rightarrow> dc_window" where
  "again_window g m = (tm_described m)\<lparr>dw_index := mg_window g,
     dw_pre_fence := (case tm_last_fence m of Some f \<Rightarrow> int f | None \<Rightarrow> -1),
     dw_out_x := mg_origin_x g, dw_out_y := mg_origin_y g, dw_z := mg_depth g\<rparr>"

definition drawn_window :: "merge_group \<Rightarrow> zone_buffer \<Rightarrow> nat \<Rightarrow> dc_window" where
  "drawn_window g b f = (off_window (mg_window g))\<lparr>dw_fd := zb_fd b, dw_offset := 0, dw_stride := zb_pitch b,
     dw_format := Some TfR8G8B8A8, dw_flags := {}, dw_block_height := 0,
     dw_source_width := f32_of_int (int (mg_width g)), dw_source_height := f32_of_int (int (mg_height g)),
     dw_out_x := mg_origin_x g, dw_out_y := mg_origin_y g, dw_out_width := int (mg_width g),
     dw_out_height := int (mg_height g), dw_z := mg_depth g, dw_blend := FbPremult, dw_pre_fence := int f\<rparr>"

definition RememberMerge :: "merge_group \<Rightarrow> dc_window \<Rightarrow> nat option \<Rightarrow> manager \<Rightarrow> manager" where
  "RememberMerge g w f m = m\<lparr>tm_memory := Remember (tm_memory m) (mg_width g) (mg_height g) (MergeMembers g),
     tm_described := w, tm_last_fence := f\<rparr>"

text \<open>Is the queued group this one, and what became of its job. Nothing where the frame still waits.\<close>

definition queued_here :: "merge_group \<Rightarrow> manager \<Rightarrow> bool" where
  "queued_here g m = (case tm_pending m of
     None \<Rightarrow> False | Some p \<Rightarrow> Judge (pg_key p) (mg_width g) (mg_height g) (MergeMembers g) = kSame)"

datatype collected = NotAsked | WasDropped | Collected vic_drawn

definition collect_queued :: "bool \<Rightarrow> manager \<Rightarrow> (collected \<times> manager) option" where
  "collect_queued queued m = (case tm_pending m of
     Some p \<Rightarrow>
       if queued \<and> \<not> pg_untouched p
       then map_option (\<lambda>(out, q). (if oc_state out = JDropped then WasDropped
                else Collected (case oc_result out of Some d \<Rightarrow> d | None \<Rightarrow> no_drawing), m\<lparr>tm_jobs := q\<rparr>))
              (jq_Resolve (tm_jobs m) (pg_id p) (\<not> pg_droppable p))
       else Some (NotAsked, m)
   | None \<Rightarrow> Some (NotAsked, m))"

definition lags :: "tegra_config \<Rightarrow> answered \<Rightarrow> merge_group \<Rightarrow> bool \<Rightarrow> manager \<Rightarrow> bool" where
  "lags c a g same m \<longleftrightarrow> \<not> same \<and> tc_merge_cache c \<and> \<not> tm_lagged_last m \<and> tm_last_fence m \<noteq> None \<and>
     SameButFrames (tm_memory m) (mg_width g) (mg_height g) (MergeMembers g) \<and>
     list_ex (\<lambda>l. an_acquire a (ml_acquire_fence l) = kPending) (mg_layers g)"

text \<open>What came of the group: the frame refused, or the window it is shown in with the fence and the
  slot of a drawing made for it.\<close>

datatype group_outcome = Refused int | Again dc_window | Fresh dc_window nat nat

definition give_back :: "manager \<Rightarrow> manager" where "give_back m = ForgetMerge (on_pool Rewind m)"

definition show_again :: "merge_group \<Rightarrow> manager \<Rightarrow> group_outcome \<times> manager" where
  "show_again g m = (let m1 = DropPendingMerge m in (Again (again_window g m1), m1))"

text \<open>The drawing of a group not shown again: its slot, plan and fence, those queued or found now.\<close>

definition take_turn :: "bool \<Rightarrow> manager \<Rightarrow> (nat \<times> nat option) option \<times> manager" where
  "take_turn queued m =
     (if queued then (case tm_pending m of Some p \<Rightarrow> (Some (pg_target p, None), m) | None \<Rightarrow> (None, m))
      else case tm_pool m of
        None \<Rightarrow> (None, m)
      | Some pool \<Rightarrow> (let (t, pool2) = Next pool in (t, m\<lparr>tm_pool := Some pool2\<rparr>)))"

definition old_plan :: plan where "old_plan = new_plan\<lparr>pl_why := CHR ''o''\<rparr>"
definition refused_plan :: plan where "refused_plan = new_plan\<lparr>pl_why := CHR ''x''\<rparr>"

definition plan_now :: "tegra_config \<Rightarrow> bool \<Rightarrow> nat \<Rightarrow> nat \<Rightarrow> merge_group \<Rightarrow> manager \<Rightarrow>
    (plan \<times> bool \<times> nat option) \<times> manager" where
  "plan_now c queued code k g m =
     (if queued then (case tm_pending m of
          Some p \<Rightarrow> ((pg_plan p, pg_untouched p, pg_held_fence p), m) | None \<Rightarrow> ((new_plan, False, None), m))
      else decide_slot c code k g old_plan m)"

definition draw_now :: "bool \<Rightarrow> collected \<Rightarrow> vic_job \<Rightarrow> manager \<Rightarrow> vic_drawn \<times> manager" where
  "draw_now queued got j m =
     (if queued then (case got of Collected d \<Rightarrow> (d, m) | _ \<Rightarrow> (no_drawing, m))
      else let (d, s) = DrawMergeJob j (tm_vic m) in (d, m\<lparr>tm_vic := s\<rparr>))"

text \<open>From the drawing to the window.\<close>

definition show_drawn :: "tegra_config \<Rightarrow> merge_group \<Rightarrow> nat \<Rightarrow> plan \<Rightarrow> bool \<Rightarrow> member list \<Rightarrow> nat option \<Rightarrow> manager \<Rightarrow>
    group_outcome \<times> manager" where
  "show_drawn c g k plan untouched members merged m0 =
     (let m = m0\<lparr>tm_pending := None\<rparr> in
      case merged of
        None \<Rightarrow> (Refused (- EINVAL), give_back m)
      | Some f \<Rightarrow>
          let m1 = m\<lparr>tm_slots := sp_Drawn (tm_slots m) k (mg_width g) (mg_height g) members plan (Some f)\<rparr>
          in case tm_pool m1 of
               None \<Rightarrow> (Refused (- EINVAL), give_back m1)
             | Some pool \<Rightarrow>
                 let b = po_buffers pool ! k in
                 if zb_fd b < 0 then (Refused (- EINVAL), give_back m1)
                 else let w = drawn_window g b f; m2 = RememberMerge g w (Some f) m1
                      in (Fresh w f k, if tc_governor c \<and> \<not> untouched then tell (GovSubmitted (tm_planned_seq m2) f) m2 else m2))"

definition draw_group :: "tegra_config \<Rightarrow> bool \<Rightarrow> collected \<Rightarrow> merge_group \<Rightarrow> manager \<Rightarrow> group_outcome \<times> manager" where
  "draw_group c queued got g m0 =
     (let m = (if queued then m0 else DropPendingMerge m0) in
      case take_turn queued m of
        (None, m1) \<Rightarrow> (Refused (- EBUSY), ForgetMerge m1)
      | (Some (k, ready), m1) \<Rightarrow>
          (case UniformTurn (mg_transforms g) of
             None \<Rightarrow> (Refused (- EINVAL), give_back (m1\<lparr>tm_pending := None\<rparr>))
           | Some turn \<Rightarrow>
               let code = group_code c turn;
                   members = (case (queued, tm_pending m1) of (True, Some p) \<Rightarrow> pg_members p | _ \<Rightarrow> MergeMembers g);
                   ((plan, untouched, held), m2) = plan_now c queued code k g m1
               in if untouched then show_drawn c g k plan True members held m2
                  else let (d, m3) = draw_now queued got (merge_job g k ready code plan) m2
                       in show_drawn c g k (if vd_whole d then refused_plan else plan) False members (vd_fence d) m3))"

definition merge_group_now :: "tegra_config \<Rightarrow> answered \<Rightarrow> merge_group \<Rightarrow> manager \<Rightarrow> (group_outcome \<times> manager) option" where
  "merge_group_now c a g m =
     (if \<not> tc_engine c \<or> tm_pool m = None then Some (Refused (- EINVAL), m)
      else let same = (tc_merge_cache c \<and> JudgeMerge g m = kSame);
               queued = (\<not> same \<and> queued_here g m)
           in case collect_queued queued m of
                None \<Rightarrow> None
              | Some (got, m1) \<Rightarrow>
                  let lag = lags c a g same m1;
                      m2 = m1\<lparr>tm_lagged_last := lag\<rparr>;
                      m3 = (if got = WasDropped then on_pool Rewind (m2\<lparr>tm_pending := None\<rparr>) else m2)
                  in Some (if same \<or> lag \<or> got = WasDropped then show_again g m3 else draw_group c queued got g m3))"

text \<open>The pointer: shown while the frame has one, and hidden once when it has gone.\<close>

definition point_cursor :: "tegra_config \<Rightarrow> answered \<Rightarrow> cursor_ask option \<Rightarrow> manager \<Rightarrow> manager" where
  "point_cursor c a point m =
     (if \<not> tc_cursor c then m
      else case point of
        Some p \<Rightarrow> (tell (CursorShow p (ck_seq p = tm_move_seq m)) m)\<lparr>tm_cursor_shown := an_show a p\<rparr>
      | None \<Rightarrow> if tm_cursor_shown m then (tell CursorHide m)\<lparr>tm_cursor_shown := False\<rparr> else m)"

record commit_result =
  cr_err :: int
  cr_shown :: "dc_window list option"
  cr_present :: "nat option"
  cr_release :: "nat option"
  cr_engine :: "nat option"
  cr_engine_read :: "nat list"

definition failed_commit :: "int \<Rightarrow> commit_result" where
  "failed_commit err = \<lparr>cr_err = err, cr_shown = None, cr_present = None, cr_release = None, cr_engine = None,
     cr_engine_read = []\<rparr>"

text \<open>The flip the controller took, and what is told of it: to the pool, the framework and the governor.
  A reused group was not drawn, and the pool is told nothing.\<close>

definition flip_refused :: "int \<Rightarrow> (nat \<times> nat) option \<Rightarrow> manager \<Rightarrow> commit_result \<times> manager" where
  "flip_refused err fresh m = (failed_commit err,
     case fresh of Some (f, k) \<Rightarrow> lose_slot k (give_back m) | None \<Rightarrow> m)"

definition flip_took :: "tegra_config \<Rightarrow> answered \<Rightarrow> tegra_request \<Rightarrow> dc_window list \<Rightarrow> (nat \<times> nat) option \<Rightarrow> manager \<Rightarrow>
    commit_result \<times> manager" where
  "flip_took c a tr ws fresh m0 =
     (let n = tm_frames m0;
          post = (if an_fence a then Some n else None);
          m1 = m0\<lparr>tm_frames := n + 1\<rparr>;
          m2 = (if fresh \<noteq> None \<and> an_fence a then on_pool (Presented (if an_fence_dup a then Some n else None)) m1 else m1);
          reads = (tc_engine_reads c \<and> fresh \<noteq> None \<and> mg_layers (tr_merge tr) \<noteq> []);
          m3 = m2\<lparr>tm_previous_fence := post\<rparr>;
          m4 = (case rq_rate (tr_frame tr) of
                  Some r \<Rightarrow> tell (ActiveVfp (rt_porch r)) (m3\<lparr>tm_porch := rt_porch r, tm_period_ns := GetVSyncPeriodNs (rt_mode r)\<rparr>)
                | None \<Rightarrow> m3);
          m5 = (if tc_governor c then tell (GovPresented (tm_planned_seq m4)) m4 else m4)
      in (\<lparr>cr_err = 0, cr_shown = Some ws, cr_present = post, cr_release = post,
            cr_engine = (if reads then map_option fst fresh else None),
            cr_engine_read = (if reads then filter (\<lambda>h. h \<noteq> 0) (map ml_handle (mg_layers (tr_merge tr))) else [])\<rparr>, m5))"

definition flip_windows :: "tegra_config \<Rightarrow> answered \<Rightarrow> tegra_request \<Rightarrow> dc_window list \<Rightarrow> (nat \<times> nat) option \<Rightarrow> manager \<Rightarrow>
    commit_result \<times> manager" where
  "flip_windows c a tr ws fresh m0 =
     (let m = point_cursor c a (rq_cursor (tr_frame tr)) m0 in
      if an_flip a \<noteq> 0 then flip_refused (an_flip a) fresh m else flip_took c a tr ws fresh m)"

definition show_frame_now :: "tegra_config \<Rightarrow> answered \<Rightarrow> tegra_request \<Rightarrow> manager \<Rightarrow> (commit_result \<times> manager) option" where
  "show_frame_now c a tr m =
     (let g = tr_merge tr; ws = rq_windows (tr_frame tr) in
      if mg_layers g = [] then Some (flip_windows c a tr ws None (ForgetMerge (DropPendingMerge m)))
      else case merge_group_now c a g m of
        None \<Rightarrow> None
      | Some (Refused err, m1) \<Rightarrow> Some (failed_commit err, m1)
      | Some (Again w, m1) \<Rightarrow> Some (flip_windows c a tr (ws[mg_slot g := w]) None m1)
      | Some (Fresh w f k, m1) \<Rightarrow> Some (flip_windows c a tr (ws[mg_slot g := w]) (Some (f, k)) m1))"

definition Execute :: "tegra_config \<Rightarrow> answered \<Rightarrow> tegra_request \<Rightarrow> manager \<Rightarrow> (commit_result \<times> manager) option" where
  "Execute c a tr m0 =
     (let m = see_power c (tr_power tr) m0;
          (err, m1) = (if tr_power tr = Some Power_on then SetPowered a True m else (0, m))
      in if err \<noteq> 0 then Some (failed_commit err, ForgetMerge m1)
         else if \<not> rq_has_composition (tr_frame tr)
         then (let m2 = ForgetMerge m1 in
               if tr_power tr \<noteq> None \<and> tr_power tr \<noteq> Some Power_on
               then (let (err2, m3) = SetPowered a False m2 in Some (failed_commit err2, m3))
               else Some (failed_commit 0, m2))
         else show_frame_now c a tr (case (tc_cmu c, tr_matrix tr) of
                (True, Some x) \<Rightarrow> tell (ColorMatrix x) m1 | _ \<Rightarrow> m1))"

text \<open>What the GPU's executor and the pointer say in between.\<close>

definition tm_GpuPlanned :: "tegra_config \<Rightarrow> nat \<Rightarrow> manager \<Rightarrow> manager" where
  "tm_GpuPlanned c pixels m = (if tc_governor c then tell (GovGpuPlanned (tm_planned_seq m) pixels) m else m)"

definition tm_GpuSubmitted :: "tegra_config \<Rightarrow> nat \<Rightarrow> manager \<Rightarrow> manager" where
  "tm_GpuSubmitted c fence m = (if tc_governor c then tell (GovGpuSubmitted (tm_planned_seq m) fence) m else m)"

definition MoveCursor :: "tegra_config \<Rightarrow> int \<Rightarrow> int \<Rightarrow> manager \<Rightarrow> manager" where
  "MoveCursor c x y m = (if tc_cursor c then tell (CursorMove x y) (m\<lparr>tm_move_seq := tm_move_seq m + 1\<rparr>) else m)"

text \<open>\<open>WaitLastFrame\<close> waits for the flip before this one, if the door is open; it changes nothing.\<close>

definition waits_for :: "bool \<Rightarrow> manager \<Rightarrow> nat option" where
  "waits_for throttled m = (if throttled then tm_previous_fence m else None)"

subsection \<open>The frames and the engine's thread\<close>

text \<open>
  \<open>wd_hand\<close> is the job the worker has taken and not yet handed to the engine; the wait between two jobs is
  a matter of when it takes the next. \<open>wd_shown\<close> has for each flip the slot its group's window read,
  found by the window's descriptor, and the fence the window was given. \<open>prompt\<close> says that the worker
  hands on what it has taken before a frame is drawn on the other thread. A flip the controller took has
  a fence, as its driver promises, and there is a descriptor to be had for a copy.
\<close>

record commit_world =
  wd_manager :: manager
  wd_hand :: "(nat \<times> vic_job) option"
  wd_shown :: "(nat \<times> int) option list"

definition slot_shown :: "pool option \<Rightarrow> merge_group \<Rightarrow> dc_window list \<Rightarrow> (nat \<times> int) option" where
  "slot_shown pool g ws = (case pool of
     None \<Rightarrow> None
   | Some p \<Rightarrow> if mg_layers g = [] then None
       else let w = ws ! mg_slot g
            in map_option (\<lambda>k. (k, dw_pre_fence w)) (find (\<lambda>k. zb_fd (po_buffers p ! k) = dw_fd w) [0..<length (po_buffers p)]))"

definition kernel_ok :: "answered \<Rightarrow> bool" where
  "kernel_ok a \<longleftrightarrow> (an_flip a = 0 \<longrightarrow> an_fence a \<and> an_fence_dup a)"

text \<open>Is the group of this frame drawn on the thread that executes it.\<close>

definition draws_here :: "tegra_config \<Rightarrow> answered \<Rightarrow> tegra_request \<Rightarrow> manager \<Rightarrow> bool" where
  "draws_here c a tr m \<longleftrightarrow> (let g = tr_merge tr; same = (tc_merge_cache c \<and> JudgeMerge g m = kSame) in
     mg_layers g \<noteq> [] \<and> \<not> same \<and> \<not> queued_here g m \<and> \<not> lags c a g same m)"

inductive commit_step :: "bool \<Rightarrow> tegra_config \<Rightarrow> commit_world \<Rightarrow> commit_world \<Rightarrow> bool" where
  cs_take: "wd_hand w = None \<Longrightarrow> jq_Take (tm_jobs (wd_manager w)) = Some (Some t, q) \<Longrightarrow>
    commit_step prompt c w (w\<lparr>wd_manager := (wd_manager w)\<lparr>tm_jobs := q\<rparr>, wd_hand := Some t\<rparr>)"
| cs_submit: "wd_hand w = Some (i, j) \<Longrightarrow> DrawMergeJob j (tm_vic (wd_manager w)) = (d, s) \<Longrightarrow>
    commit_step prompt c w (w\<lparr>wd_manager := (wd_manager w)\<lparr>tm_vic := s,
      tm_jobs := jq_Done (tm_jobs (wd_manager w)) i (vd_fence d \<noteq> None) (Some d)\<rparr>, wd_hand := None\<rparr>)"
| cs_test: "Test c a tr (wd_manager w) = (ok, m) \<Longrightarrow> commit_step prompt c w (w\<lparr>wd_manager := m\<rparr>)"
| cs_unjudged: "commit_step prompt c w (w\<lparr>wd_manager := ForgetMerge (wd_manager w)\<rparr>)"
| cs_gpu_planned: "commit_step prompt c w (w\<lparr>wd_manager := tm_GpuPlanned c pixels (wd_manager w)\<rparr>)"
| cs_gpu_submitted: "commit_step prompt c w (w\<lparr>wd_manager := tm_GpuSubmitted c fence (wd_manager w)\<rparr>)"
| cs_move: "commit_step prompt c w (w\<lparr>wd_manager := MoveCursor c x y (wd_manager w)\<rparr>)"
| cs_execute: "Execute c a tr (wd_manager w) = Some (r, m) \<Longrightarrow> kernel_ok a \<Longrightarrow>
    (mg_layers (tr_merge tr) \<noteq> [] \<Longrightarrow> mg_slot (tr_merge tr) < length (rq_windows (tr_frame tr))) \<Longrightarrow>
    (prompt \<Longrightarrow> draws_here c a tr (wd_manager w) \<Longrightarrow> wd_hand w = None) \<Longrightarrow>
    commit_step prompt c w (w\<lparr>wd_manager := m, wd_shown := wd_shown w @ (case cr_shown r of
      None \<Rightarrow> [] | Some ws \<Rightarrow> [slot_shown (tm_pool m) (tr_merge tr) ws])\<rparr>)"

inductive commit_reach :: "bool \<Rightarrow> tegra_config \<Rightarrow> commit_world \<Rightarrow> commit_world \<Rightarrow> bool" for prompt c w where
  cr_here: "commit_reach prompt c w w"
| cr_step: "commit_reach prompt c w v \<Longrightarrow> commit_step prompt c v u \<Longrightarrow> commit_reach prompt c w u"

text \<open>A new manager, over a pool just cut.\<close>

definition new_manager :: "raw_mode list \<Rightarrow> engine \<Rightarrow> pool option \<Rightarrow> (nat \<Rightarrow> library) \<Rightarrow> manager" where
  "new_manager modes e pool takes = \<lparr>tm_power_seen = Power_on, tm_active = True, tm_cursor_shown = False, tm_move_seq = 0,
     tm_porch = 0, tm_period_ns = (case modes of [] \<Rightarrow> 0 | m # _ \<Rightarrow> GetVSyncPeriodNs m), tm_planned_seq = 0,
     tm_last_latch_ns = 0, tm_previous_fence = None, tm_frames = 0, tm_lagged_last = False, tm_memory = pm_init,
     tm_described = off_window 0, tm_last_fence = None, tm_slots = sp_init e, tm_pool = pool,
     tm_vic = \<lparr>vs_buffer_width = (case pool of Some p \<Rightarrow> po_width p | None \<Rightarrow> 0),
       vs_buffer_height = (case pool of Some p \<Rightarrow> po_height p | None \<Rightarrow> 0), vs_library = takes, vs_calls = 0, vs_writes = [], vs_composed = 0, vs_refused = 0\<rparr>,
     tm_jobs = jq_init, tm_pending = None, tm_told = []\<rparr>"

end
