(* ===== verification/MergeSafety.thy ===== *)
theory MergeSafety
  imports MergeCommit
begin

text \<open>
  What \<open>MergeCommit\<close> keeps: the engine never writes a buffer while the panel reads it. The queue of the
  engine's jobs, the pool's rotation, the memory of drawn pictures and the memory of what each slot holds
  are kept in step over any course of calls and of the worker. Where the worker is late with a job given
  up, it is not so; the run is shown at the end.
\<close>

subsection \<open>What holds between the calls\<close>

text \<open>Every drawing into slot \<open>k\<close> is among the first \<open>f\<close>: the fence of drawing \<open>f\<close> says they are all done,
  the engine's channel running its drawings in order.\<close>

definition settled :: "vic_session \<Rightarrow> nat \<Rightarrow> nat \<Rightarrow> bool" where
  "settled vic k f \<longleftrightarrow> (\<forall>i<length (vs_writes vic). ew_slot (vs_writes vic ! i) = k \<longrightarrow> i < f)"

definition known :: "slot_pictures \<Rightarrow> nat \<Rightarrow> bool" where
  "known s k \<longleftrightarrow> (\<exists>h. sp_slots s k = Some h \<and> sn_valid (hd_snapshot h))"

definition slots_settled :: "slot_pictures \<Rightarrow> vic_session \<Rightarrow> bool" where
  "slots_settled s vic \<longleftrightarrow> (\<forall>k h f. sp_slots s k = Some h \<longrightarrow> sn_valid (hd_snapshot h) \<longrightarrow> hd_fence h = Some f \<longrightarrow> settled vic k f)"

text \<open>An entry of the queue is a cancelled job in the worker's hand, or the pending group's.\<close>

definition abandoned :: "(nat \<times> vic_job) option \<Rightarrow> (vic_job, vic_drawn) entry \<Rightarrow> bool" where
  "abandoned hand e \<longleftrightarrow> en_state e = JSubmitting \<and> en_cancelled e \<and> (\<exists>j. hand = Some (en_id e, j))"

definition entry_fine :: "(nat \<times> vic_job) option \<Rightarrow> pending_merge option \<Rightarrow> vic_session \<Rightarrow> nat option list \<Rightarrow>
    (vic_job, vic_drawn) entry \<Rightarrow> bool" where
  "entry_fine hand pend vic S e \<longleftrightarrow> abandoned hand e \<or>
     (\<exists>p. pend = Some p \<and> \<not> pg_untouched p \<and> en_id e = pg_id p \<and> \<not> en_cancelled e \<and>
        (en_state e = JQueued \<and> (\<exists>j. en_job e = Some j \<and> vj_target j = pg_target p \<and> replaced_by S (pg_target p) (vj_ready j)) \<or>
         en_state e = JSubmitting \<and> (\<exists>j. hand = Some (en_id e, j) \<and> vj_target j = pg_target p) \<or>
         en_state e \<in> {JSubmitted, JRefused} \<and> hand = None \<and>
           (\<forall>d f. en_result e = Some d \<longrightarrow> vd_fence d = Some f \<longrightarrow> settled vic (pg_target p) f)))"

definition jobs_fine :: "(nat \<times> vic_job) option \<Rightarrow> pending_merge option \<Rightarrow> vic_session \<Rightarrow> nat option list \<Rightarrow>
    (vic_job, vic_drawn) job_queue \<Rightarrow> bool" where
  "jobs_fine hand pend vic S q \<longleftrightarrow> sorted_wrt (<) (map en_id (jq_entries q)) \<and>
     (\<forall>e\<in>set (jq_entries q). en_id e \<le> jq_last_id q \<and> entry_fine hand pend vic S e)"

definition hand_fine :: "(nat \<times> vic_job) option \<Rightarrow> pending_merge option \<Rightarrow> pool \<Rightarrow> slot_pictures \<Rightarrow> nat option list \<Rightarrow> bool" where
  "hand_fine hand pend P s S \<longleftrightarrow> (\<forall>i j. hand = Some (i, j) \<longrightarrow>
     vj_target j \<noteq> po_showing P \<and> replaced_by S (vj_target j) (vj_ready j) \<and> \<not> known s (vj_target j) \<and>
     (\<forall>p. pend = Some p \<longrightarrow> pg_untouched p \<longrightarrow> pg_target p \<noteq> vj_target j))"

definition pend_fine :: "pending_merge option \<Rightarrow> vic_session \<Rightarrow> slot_pictures \<Rightarrow> pool \<Rightarrow> bool" where
  "pend_fine pend vic s P = (case pend of
     None \<Rightarrow> in_turn P
   | Some p \<Rightarrow> one_ahead P \<and> pg_target p = po_at P \<and> \<not> known s (pg_target p) \<and>
       (pg_untouched p \<longrightarrow> (\<forall>f. pg_held_fence p = Some f \<longrightarrow> settled vic (pg_target p) f)))"

text \<open>The remembered window shows the slot on the panel, whose drawings are all done at its fence.\<close>

definition seen :: "manager \<Rightarrow> pool \<Rightarrow> bool" where
  "seen m P \<longleftrightarrow> po_anything_showing P \<and> dw_fd (tm_described m) = zb_fd (po_buffers P ! po_showing P) \<and>
     (\<exists>f. tm_last_fence m = Some f \<and> settled (tm_vic m) (po_showing P) f)"

text \<open>A drawing into a slot some frame shows is done before the frame reads it or starts after the flip
  that replaced the frame.\<close>

definition undisturbed :: "(nat \<times> int) option list \<Rightarrow> vic_session \<Rightarrow> bool" where
  "undisturbed F vic \<longleftrightarrow> (\<forall>i<length F. \<forall>k pf. F ! i = Some (k, pf) \<longrightarrow>
     (\<forall>n<length (vs_writes vic). ew_slot (vs_writes vic ! n) = k \<longrightarrow>
        int n < pf \<or> (\<exists>x. ew_ready (vs_writes vic ! n) = Some x \<and> i < x)))"

abbreviation slots_of :: "(nat \<times> int) option list \<Rightarrow> nat option list" where
  "slots_of F \<equiv> map (map_option fst) F"

definition commit_base :: "(nat \<times> vic_job) option \<Rightarrow> (nat \<times> int) option list \<Rightarrow> manager \<Rightarrow> pool \<Rightarrow> bool" where
  "commit_base hand F m P \<longleftrightarrow> tm_pool m = Some P \<and> pool_ok (slots_of F) P \<and> distinct (map zb_fd (po_buffers P)) \<and>
     tm_frames m = length F \<and> jobs_fine hand (tm_pending m) (tm_vic m) (slots_of F) (tm_jobs m) \<and>
     hand_fine hand (tm_pending m) P (tm_slots m) (slots_of F) \<and> slots_settled (tm_slots m) (tm_vic m) \<and>
     undisturbed F (tm_vic m)"

definition commit_ok :: "(nat \<times> vic_job) option \<Rightarrow> (nat \<times> int) option list \<Rightarrow> manager \<Rightarrow> pool \<Rightarrow> bool" where
  "commit_ok hand F m P \<longleftrightarrow> commit_base hand F m P \<and> pend_fine (tm_pending m) (tm_vic m) (tm_slots m) P \<and>
     (pm_remembered (tm_memory m) \<or> (\<exists>p. tm_pending m = Some p \<and> pg_droppable p) \<longrightarrow> seen m P)"

text \<open>The slots' memory.\<close>

lemma known_Lost: "known (sp_Lost s k) x \<longleftrightarrow> known s x \<and> x \<noteq> k"
  by (auto simp: known_def sp_Lost_def split: option.splits)

lemma settled_Lost: "slots_settled s vic \<Longrightarrow> slots_settled (sp_Lost s k) vic"
  by (auto simp: slots_settled_def sp_Lost_def split: option.splits if_splits)

lemma settled_Drawn: "slots_settled s vic \<Longrightarrow> settled vic k f \<Longrightarrow> slots_settled (sp_Drawn s k w h ms plan (Some f)) vic"
  by (auto simp: slots_settled_def sp_Drawn_def Let_def)

lemma known_Drawn: "known (sp_Drawn s k w h ms plan f) x \<longleftrightarrow> known s x \<or> x = k"
  by (auto simp: known_def sp_Drawn_def Let_def)

lemma record_damage_slots: "sp_slots (record_damage g s) = sp_slots s"
proof -
  have "sp_slots (fold (\<lambda>(m, d) s. sp_Record s m d) xs s) = sp_slots s" for xs s
    by (induction xs arbitrary: s) (auto simp: sp_Record_def)
  then show ?thesis by (simp add: record_damage_def)
qed

lemma Decide_known: "pl_kind (Decide n w h ms hist e) = kUnchanged \<Longrightarrow> sn_valid n"
  by (rule ccontr) (simp add: Decide_def)

lemma sp_Decide_unchanged:
  "pl_kind (sp_Decide s k w h ms) = kUnchanged \<Longrightarrow>
   \<exists>hd. sp_slots s k = Some hd \<and> sn_valid (hd_snapshot hd) \<and> sp_Fence s k = hd_fence hd"
  by (auto simp: sp_Decide_def sp_Fence_def Let_def new_plan_def dest: Decide_known
      split: option.splits if_splits)

text \<open>The queue's list.\<close>

lemma in_change_sorted:
  assumes "sorted_wrt (<) (map en_id es)" "\<And>e. en_id (f e) = en_id e" "e' \<in> set (change_first i f es)"
  shows "e' \<in> set es \<and> en_id e' \<noteq> i \<or> (\<exists>e\<in>set es. en_id e = i \<and> e' = f e)"
  using assms(1,3)
proof (induction es)
  case (Cons e es)
  show ?case
  proof (cases "en_id e = i")
    case True
    then show ?thesis using Cons.prems by (auto simp: assms(2))
  next
    case False
    then show ?thesis using Cons by auto
  qed
qed simp

lemma in_Forget: "e \<in> set (jq_entries (jq_Forget q i)) \<Longrightarrow> e \<in> set (jq_entries q)"
  using set_forget_first by (fastforce simp: jq_Forget_def)

lemma Forget_not_i: "sorted_wrt (<) (map en_id (jq_entries q)) \<Longrightarrow> e \<in> set (jq_entries (jq_Forget q i)) \<Longrightarrow> en_id e \<noteq> i"
  using forget_first_gone [of "jq_entries q" i] by (force simp: jq_Forget_def)

lemma sorted_Forget:
  "sorted_wrt (<) (map en_id (jq_entries q)) \<Longrightarrow> sorted_wrt (<) (map en_id (jq_entries (jq_Forget q i)))"
  by (simp add: jq_Forget_def sorted_forget_first)

lemma jobs_fineI:
  "sorted_wrt (<) (map en_id (jq_entries q)) \<Longrightarrow>
   (\<And>e. e \<in> set (jq_entries q) \<Longrightarrow> en_id e \<le> jq_last_id q \<and> entry_fine hand pend vic S e) \<Longrightarrow>
   jobs_fine hand pend vic S q"
  by (simp add: jobs_fine_def)

lemma jobs_fineD:
  "jobs_fine hand pend vic S q \<Longrightarrow> sorted_wrt (<) (map en_id (jq_entries q))"
  "jobs_fine hand pend vic S q \<Longrightarrow> e \<in> set (jq_entries q) \<Longrightarrow> en_id e \<le> jq_last_id q \<and> entry_fine hand pend vic S e"
  by (simp_all add: jobs_fine_def)

lemma fine_pending:
  "entry_fine hand pend vic S e \<Longrightarrow> \<not> abandoned hand e \<Longrightarrow>
   \<exists>p. pend = Some p \<and> \<not> pg_untouched p \<and> en_id e = pg_id p \<and> \<not> en_cancelled e"
  by (auto simp: entry_fine_def)

text \<open>A queue of abandoned entries goes with anything pending.\<close>

definition all_abandoned :: "(nat \<times> vic_job) option \<Rightarrow> (vic_job, vic_drawn) job_queue \<Rightarrow> bool" where
  "all_abandoned hand q \<longleftrightarrow> sorted_wrt (<) (map en_id (jq_entries q)) \<and>
     (\<forall>e\<in>set (jq_entries q). en_id e \<le> jq_last_id q \<and> abandoned hand e)"

lemma abandoned_fine: "all_abandoned hand q \<Longrightarrow> jobs_fine hand pend vic S q"
  by (simp add: all_abandoned_def jobs_fine_def entry_fine_def)

lemma fine_without: "jobs_fine hand pend vic S q \<Longrightarrow> \<forall>p. pend = Some p \<longrightarrow> pg_untouched p \<Longrightarrow> all_abandoned hand q"
  using fine_pending by (fastforce simp: all_abandoned_def jobs_fine_def)

lemma Cancel_abandons:
  assumes j: "jobs_fine hand (Some p) vic S q"
  shows "all_abandoned hand (jq_Cancel q (pg_id p)) \<and> jq_last_id (jq_Cancel q (pg_id p)) = jq_last_id q"
proof -
  note so = jobs_fineD(1) [OF j]
  have other: "abandoned hand e" if "e \<in> set (jq_entries q)" "en_id e \<noteq> pg_id p" for e
    using fine_pending [of hand "Some p" vic S e] jobs_fineD(2) [OF j that(1)] that(2) by auto
  consider (none) "jq_Find q (pg_id p) = None"
    | (mark) e where "jq_Find q (pg_id p) = Some e" "en_state e = JSubmitting"
    | (forget) e where "jq_Find q (pg_id p) = Some e" "en_state e \<noteq> JSubmitting" by fastforce
  then show ?thesis
  proof cases
    case none
    then have "en_id e \<noteq> pg_id p" if "e \<in> set (jq_entries q)" for e
      using that by (auto simp: jq_Find_def find_None_iff)
    then show ?thesis using none other so j by (auto simp: jq_Cancel_def all_abandoned_def jobs_fine_def)
  next
    case mark
    have q: "jq_Cancel q (pg_id p) = jq_change q (pg_id p) (\<lambda>e. e\<lparr>en_cancelled := True\<rparr>)"
      using mark by (simp add: jq_Cancel_def)
    have e: "e \<in> set (jq_entries q)" "en_id e = pg_id p" using jq_Find_in [OF mark(1)] by simp_all
    have h: "\<exists>j. hand = Some (pg_id p, j)"
      using jobs_fineD(2) [OF j e(1)] mark(2) e(2) by (auto simp: entry_fine_def abandoned_def)
    have "en_id d \<le> jq_last_id q \<and> abandoned hand d"
      if "d \<in> set (change_first (pg_id p) (\<lambda>e. e\<lparr>en_cancelled := True\<rparr>) (jq_entries q))" for d
      using in_change_sorted [OF so _ that]
    proof (rule disjE)
      assume "d \<in> set (jq_entries q) \<and> en_id d \<noteq> pg_id p"
      then show ?thesis using other jobs_fineD(2) [OF j, of d] by blast
    next
      assume "\<exists>e\<in>set (jq_entries q). en_id e = pg_id p \<and> d = e\<lparr>en_cancelled := True\<rparr>"
      then obtain e0 where e0: "e0 \<in> set (jq_entries q)" "en_id e0 = pg_id p" "d = e0\<lparr>en_cancelled := True\<rparr>" by blast
      then have "e0 = e" using sorted_ids_eq [OF so e0(1) e(1)] e(2) by simp
      then show ?thesis using e0 h mark(2) jobs_fineD(2) [OF j e(1)] by (auto simp: abandoned_def)
    qed simp
    moreover have "sorted_wrt (<) (map en_id (change_first (pg_id p) (\<lambda>e. e\<lparr>en_cancelled := True\<rparr>) (jq_entries q)))"
      using so by (subst change_first_ids) simp_all
    ultimately show ?thesis by (simp add: q jq_change_def all_abandoned_def)
  next
    case forget
    then have q: "jq_Cancel q (pg_id p) = jq_Forget q (pg_id p)" by (simp add: jq_Cancel_def)
    have "abandoned hand d" "en_id d \<le> jq_last_id q" if "d \<in> set (jq_entries (jq_Forget q (pg_id p)))" for d
      using other [OF in_Forget [OF that] Forget_not_i [OF so that]] jobs_fineD(2) [OF j in_Forget [OF that]] by simp_all
    moreover have "jq_last_id (jq_Forget q (pg_id p)) = jq_last_id q" by (simp add: jq_Forget_def)
    ultimately show ?thesis using sorted_Forget [OF so] by (simp add: q all_abandoned_def)
  qed
qed

text \<open>A job put in a queue of abandoned ones.\<close>

lemma Queue_fine:
  assumes "all_abandoned hand q" "jq_Queue q job d = (i, q2)" "\<not> pg_untouched p" "pg_id p = i"
    "vj_target job = pg_target p" "replaced_by S (pg_target p) (vj_ready job)"
  shows "jobs_fine hand (Some p) vic S q2"
proof -
  have no: "\<forall>e\<in>set (jq_entries q). en_state e \<noteq> JQueued" using assms(1) by (auto simp: all_abandoned_def abandoned_def)
  have "drop_superseded n es = (n, es)" if "\<forall>e\<in>set es. en_state e \<noteq> JQueued" for n and es :: "(vic_job, vic_drawn) entry list"
    using that by (induction es) auto
  then have q2: "i = jq_last_id q + 1" "jq_last_id q2 = i" "jq_entries q2 = jq_entries q @
      [\<lparr>en_id = i, en_state = JQueued, en_droppable = d, en_job = Some job, en_result = None, en_cancelled = False\<rparr>]"
    using assms(2) no by (auto simp: jq_Queue_def Let_def)
  have "en_id e < i" "entry_fine hand (Some p) vic S e" if "e \<in> set (jq_entries q)" for e
    using assms(1) that q2(1) by (auto simp: all_abandoned_def entry_fine_def)
  moreover have "entry_fine hand (Some p) vic S
      \<lparr>en_id = i, en_state = JQueued, en_droppable = d, en_job = Some job, en_result = None, en_cancelled = False\<rparr>"
    using assms(3-6) by (simp add: entry_fine_def)
  ultimately show ?thesis
    using assms(1) q2 by (intro jobs_fineI) (auto simp: all_abandoned_def sorted_wrt_append intro: less_imp_le)
qed

text \<open>The job the worker takes is the pending group's.\<close>

lemma Take_fine:
  assumes j: "jobs_fine None pend vic S q" and t: "jq_Take q = Some (Some (i, job), q2)"
  shows "jobs_fine (Some (i, job)) pend vic S q2 \<and>
    (\<exists>p. pend = Some p \<and> \<not> pg_untouched p \<and> vj_target job = pg_target p \<and> replaced_by S (pg_target p) (vj_ready job)) \<and>
    (\<forall>e\<in>set (jq_entries q2). en_state e \<noteq> JQueued)"
proof -
  obtain es where es: "take_first (jq_entries q) = Some ((i, job), es)" "q2 = q\<lparr>jq_entries := es\<rparr>"
    using jq_Take_Some [OF t] TakeLocked_Some by blast
  obtain xs e ys where e: "jq_entries q = xs @ e # ys" "en_state e = JQueued" "(i, job) = (en_id e, the (en_job e))"
    "es = xs @ e\<lparr>en_state := JSubmitting, en_job := None\<rparr> # ys" using take_first_spec [OF es(1)] by blast
  note so = jobs_fineD(1) [OF j]
  have fe: "entry_fine None pend vic S e" using jobs_fineD(2) [OF j, of e] e(1) by simp
  then obtain p jb where p: "pend = Some p" "\<not> pg_untouched p" "en_id e = pg_id p" "\<not> en_cancelled e" "en_job e = Some jb"
    "vj_target jb = pg_target p" "replaced_by S (pg_target p) (vj_ready jb)"
    using e(2) by (auto simp: entry_fine_def abandoned_def)
  have jb: "job = jb" "i = pg_id p" using e(3) p by simp_all
  have "xs = [] \<and> ys = []"
  proof -
    have "en_id d = en_id e" if d: "d \<in> set xs \<union> set ys" for d
    proof -
      have "d \<in> set (jq_entries q)" using d by (auto simp: e(1))
      then have "entry_fine None pend vic S d" using jobs_fineD(2) [OF j] by blast
      moreover have "\<not> abandoned None d" by (simp add: abandoned_def)
      ultimately show ?thesis using fine_pending [of None pend vic S d] p(1,3) by simp
    qed
    moreover have "\<forall>d\<in>set xs \<union> set ys. en_id d \<noteq> en_id e" using so by (auto simp: e(1) sorted_wrt_append)
    ultimately have n: "d \<notin> set xs \<union> set ys" for d by blast
    have "set xs = {}" "set ys = {}" by (rule equals0I, use n in force)+
    then show ?thesis by simp
  qed
  then have q2: "jq_entries q2 = [e\<lparr>en_state := JSubmitting, en_job := None\<rparr>]" "jq_last_id q2 = jq_last_id q"
    using e(4) es(2) by simp_all
  have "en_id e \<le> jq_last_id q" using jobs_fineD(2) [OF j, of e] e(1) by simp
  then have "jobs_fine (Some (i, job)) pend vic S q2"
    using p jb by (intro jobs_fineI) (auto simp: q2 entry_fine_def)
  then show ?thesis using p jb by (simp add: q2)
qed

text \<open>What a drawing leaves: more drawings into its target, all waiting for its \<open>ready\<close>, and its fence the last.\<close>

definition draws :: "vic_job \<Rightarrow> vic_session \<Rightarrow> vic_session \<Rightarrow> bool" where
  "draws j s s2 \<longleftrightarrow> (\<exists>ws. vs_writes s2 = vs_writes s @ ws \<and> (\<forall>w\<in>set ws. ew_slot w = vj_target j \<and> ew_ready w = vj_ready j))"

lemma draws_refl: "draws j s s" by (simp add: draws_def)

lemma draws_trans: "draws j s t \<Longrightarrow> draws j t u \<Longrightarrow> draws j s u"
  by (fastforce simp: draws_def)

lemma Compose_spec: "compose_job j dirty s = (f, s2) \<Longrightarrow> draws j s s2 \<and> (\<forall>n. f = Some n \<longrightarrow> n = length (vs_writes s2))"
  by (auto simp: compose_job_def Compose_def draws_def Let_def split: if_splits option.splits)

lemma draw_parts_spec:
  "draw_parts j ps d s = (d2, s2) \<Longrightarrow> (\<forall>n. vd_fence d = Some n \<longrightarrow> n = length (vs_writes s)) \<Longrightarrow>
   draws j s s2 \<and> (\<forall>n. vd_fence d2 = Some n \<longrightarrow> n = length (vs_writes s2))"
proof (induction j ps d s rule: draw_parts.induct)
  case (2 j part ps d s)
  obtain f s1 where c: "compose_job j (Some part) s = (f, s1)" by (cases "compose_job j (Some part) s")
  note sp = Compose_spec [OF c]
  show ?case
  proof (cases f)
    case None
    then have "d2 = d\<lparr>vd_fence := None\<rparr>" "s2 = s1" using "2.prems"(1) c by simp_all
    then show ?thesis using sp by simp
  next
    case (Some n)
    then have "draw_parts j ps (d\<lparr>vd_fence := Some n, vd_passes := vd_passes d + 1\<rparr>) s1 = (d2, s2)"
      using 2 c by simp
    then show ?thesis using "2.IH" [OF c [symmetric] Some] sp Some draws_trans by simp blast
  qed
qed (auto simp: draws_refl)

lemma DrawMergeJob_spec:
  assumes "DrawMergeJob j s = (d, s2)"
  shows "draws j s s2 \<and> (\<forall>n. vd_fence d = Some n \<longrightarrow> n = length (vs_writes s2))"
proof (cases "vj_parts j = []")
  case True
  then show ?thesis using assms Compose_spec [of j None s] by (auto simp: DrawMergeJob_def split: prod.splits)
next
  case False
  obtain d1 s1 where d: "draw_parts j (vj_parts j) no_drawing s = (d1, s1)" by fastforce
  note sp = draw_parts_spec [OF d] 
  have n: "vd_fence no_drawing = None" by (simp add: no_drawing_def)
  obtain f s3 where c: "compose_job j None s1 = (f, s3)" by fastforce
  show ?thesis using assms False d sp n c Compose_spec [OF c] draws_trans [of j s s1 s3]
    by (auto simp: DrawMergeJob_def Let_def split: if_splits)
qed

lemma draws_settled_other: "draws j s s2 \<Longrightarrow> k \<noteq> vj_target j \<Longrightarrow> settled s k f \<Longrightarrow> settled s2 k f"
  by (auto simp: draws_def settled_def nth_append split: if_splits)

lemma settled_all: "settled s k (length (vs_writes s))" by (simp add: settled_def)

lemma draws_undisturbed:
  assumes "draws j s s2" "undisturbed F s" "replaced_by (slots_of F) (vj_target j) (vj_ready j)"
  shows "undisturbed F s2"
proof -
  obtain ws where ws: "vs_writes s2 = vs_writes s @ ws" "\<forall>w\<in>set ws. ew_slot w = vj_target j \<and> ew_ready w = vj_ready j"
    using assms(1) by (auto simp: draws_def)
  have "int n < pf \<or> (\<exists>x. ew_ready (vs_writes s2 ! n) = Some x \<and> i < x)"
    if i: "i < length F" "F ! i = Some (k, pf)" "n < length (vs_writes s2)" "ew_slot (vs_writes s2 ! n) = k" for i k pf n
  proof (cases "n < length (vs_writes s)")
    case True
    then show ?thesis using assms(2) i by (auto simp: undisturbed_def ws(1) nth_append)
  next
    case False
    then have "vs_writes s2 ! n \<in> set ws" using i(3) by (simp add: ws(1) nth_append)
    then have "ew_ready (vs_writes s2 ! n) = vj_ready j" "k = vj_target j" using ws(2) i(4) by auto
    then show ?thesis using assms(3) i(1,2) by (auto simp: replaced_by_def)
  qed
  then show ?thesis by (auto simp: undisturbed_def)
qed

text \<open>The worker hands on its job: the queue afterwards.\<close>

lemma Done_fine:
  assumes j: "jobs_fine (Some (i, job)) pend vic S q" and d: "draws job vic vic2"
    and f: "\<forall>n. vd_fence dr = Some n \<longrightarrow> n = length (vs_writes vic2)"
  shows "jobs_fine None pend vic2 S (jq_Done q i ok (Some dr))"
proof -
  note so = jobs_fineD(1) [OF j]
  have keep: "entry_fine None pend vic2 S e" if e: "e \<in> set (jq_entries q)" "en_id e \<noteq> i" for e
    using jobs_fineD(2) [OF j e(1)] e(2) by (auto simp: entry_fine_def abandoned_def)
  let ?q1 = "if ok then q\<lparr>jq_dropped_in_a_row := 0\<rparr> else q"
  have q1: "jq_entries ?q1 = jq_entries q" "jq_last_id ?q1 = jq_last_id q" by simp_all
  consider (none) "jq_Find q i = None" | (cancelled) e where "jq_Find q i = Some e" "en_cancelled e"
    | (kept) e where "jq_Find q i = Some e" "\<not> en_cancelled e" by fastforce
  then show ?thesis
  proof cases
    case none
    then have "en_id e \<noteq> i" if "e \<in> set (jq_entries q)" for e using that by (auto simp: jq_Find_def find_None_iff)
    then show ?thesis using none keep j so by (intro jobs_fineI) (auto simp: jq_Done_def jobs_fine_def)
  next
    case cancelled
    then have q: "jq_Done q i ok (Some dr) = jq_Forget ?q1 i" by (simp add: jq_Done_def Let_def)
    have m: "e \<in> set (jq_entries q) \<and> en_id e \<noteq> i" if "e \<in> set (jq_entries (jq_Forget ?q1 i))" for e
      using in_Forget [OF that] Forget_not_i [OF _ that] so q1 by auto
    have l: "jq_last_id (jq_Forget ?q1 i) = jq_last_id q" by (simp add: jq_Forget_def)
    show ?thesis unfolding q
    proof (rule jobs_fineI)
      show "sorted_wrt (<) (map en_id (jq_entries (jq_Forget ?q1 i)))" using sorted_Forget [of ?q1 i] so q1 by simp
      show "en_id e \<le> jq_last_id (jq_Forget ?q1 i) \<and> entry_fine None pend vic2 S e"
        if "e \<in> set (jq_entries (jq_Forget ?q1 i))" for e
        using m [OF that] keep jobs_fineD(2) [OF j, of e] by (auto simp only: l)
    qed
  next
    case kept
    let ?f = "\<lambda>e. e\<lparr>en_state := (if ok then JSubmitted else JRefused), en_result := Some dr\<rparr>"
    have q: "jq_entries (jq_Done q i ok (Some dr)) = change_first i ?f (jq_entries q)"
      "jq_last_id (jq_Done q i ok (Some dr)) = jq_last_id q"
      using kept by (simp_all add: jq_Done_def Let_def jq_change_def)
    have e: "e \<in> set (jq_entries q)" "en_id e = i" using jq_Find_in [OF kept(1)] by simp_all
    have fe: "entry_fine (Some (i, job)) pend vic S e" "en_id e \<le> jq_last_id q" using jobs_fineD(2) [OF j e(1)] by auto
    then obtain p where p: "pend = Some p" "\<not> pg_untouched p" "en_id e = pg_id p" 
      using fine_pending [OF fe(1)] kept(2) by (auto simp: abandoned_def)
    have st: "en_state e = JQueued \<or> en_state e = JSubmitting \<and> vj_target job = pg_target p"
      using fe(1) p kept(2) e(2) by (auto simp: entry_fine_def abandoned_def)
    show ?thesis
    proof (rule jobs_fineI; (unfold q)?)
      show "sorted_wrt (<) (map en_id (change_first i ?f (jq_entries q)))" using so by (subst change_first_ids) simp_all
      fix d assume "d \<in> set (change_first i ?f (jq_entries q))"
      then consider "d \<in> set (jq_entries q)" "en_id d \<noteq> i" | e0 where "e0 \<in> set (jq_entries q)" "en_id e0 = i" "d = ?f e0"
        using in_change_sorted [OF so, of ?f] by auto
      then show "en_id d \<le> jq_last_id q \<and> entry_fine None pend vic2 S d"
      proof cases
        case 1
        then show ?thesis using keep jobs_fineD(2) [OF j] by blast
      next
        case 2
        then have "e0 = e" using sorted_ids_eq [OF so 2(1) e(1)] e(2) by simp
        have "settled vic2 (pg_target p) n" if "vd_fence dr = Some n" for n
          using f that settled_all by blast
        then show ?thesis using fe p kept(2) 2(3) \<open>e0 = e\<close> by (auto simp: entry_fine_def)
      qed
    qed
  qed
qed

text \<open>The pending group's job collected: afterwards the queue holds nothing of it.\<close>

lemma Resolve_cases_plain:
  assumes "jq_Resolve q i wait = Some (out, q2)"
  shows "oc_result out = None \<and> (q2 = q \<and> jq_Find q i = None \<or> q2 = jq_Forget q i) \<or>
    (\<exists>e. jq_Find q i = Some e \<and> oc_result out = en_result e \<and> q2 = jq_Forget q i \<and>
      en_state e \<noteq> JQueued \<and> en_state e \<noteq> JSubmitting) \<or>
    (oc_state out = JDropped \<and> (\<exists>n d. q2 = jq_Forget ((jq_change q i dropped_entry)\<lparr>jq_dropped_in_a_row := n, jq_dropped := d\<rparr>) i))"
  using assms by (auto simp: jq_Resolve_def Let_def split: option.splits if_splits)

lemma Forget_change:
  "(\<And>e. en_id (f e) = en_id e) \<Longrightarrow> jq_last_id (jq_Forget ((jq_change q i f)\<lparr>jq_dropped_in_a_row := n, jq_dropped := d\<rparr>) i) = jq_last_id q \<and>
   jq_entries (jq_Forget ((jq_change q i f)\<lparr>jq_dropped_in_a_row := n, jq_dropped := d\<rparr>) i) =
   jq_entries (jq_Forget q i)"
proof -
  assume f: "\<And>e. en_id (f e) = en_id e"
  have "forget_first i (change_first i f es) = forget_first i es" for es by (induction es) (simp_all add: f)
  then show ?thesis by (simp add: jq_Forget_def jq_change_def)
qed

lemma Resolve_fine:
  assumes j: "jobs_fine hand (Some p) vic S q" and r: "jq_Resolve q (pg_id p) wait = Some (out, q2)"
  shows "all_abandoned hand q2 \<and>
    (\<forall>d f. oc_state out \<noteq> JDropped \<longrightarrow> oc_result out = Some d \<longrightarrow> vd_fence d = Some f \<longrightarrow>
       hand = None \<and> settled vic (pg_target p) f)"
proof -
  note so = jobs_fineD(1) [OF j]
  have rest: "abandoned hand e \<and> en_id e \<le> jq_last_id q" if "e \<in> set (jq_entries q)" "en_id e \<noteq> pg_id p" for e
    using fine_pending [of hand "Some p" vic S e] jobs_fineD(2) [OF j that(1)] that(2) by auto
  have gone: "all_abandoned hand q3"
    if "jq_entries q3 = jq_entries (jq_Forget q (pg_id p))" "jq_last_id q3 = jq_last_id q" for q3
    unfolding all_abandoned_def that
    using rest [OF in_Forget Forget_not_i [OF so]] sorted_Forget [OF so] by blast
  have l: "jq_last_id (jq_Forget q x) = jq_last_id q" "jq_last_id (jq_change q x f) = jq_last_id q" for q :: "(vic_job, vic_drawn) job_queue" and x f
    by (simp_all add: jq_Forget_def jq_change_def)
  from Resolve_cases_plain [OF r] show ?thesis
  proof (elim disjE exE conjE)
    assume c: "oc_result out = None" "q2 = q" "jq_Find q (pg_id p) = None"
    then have "en_id e \<noteq> pg_id p" if "e \<in> set (jq_entries q)" for e using that by (auto simp: jq_Find_def find_None_iff)
    then have "all_abandoned hand q" using rest so by (simp add: all_abandoned_def)
    then show ?thesis using c by simp
  next
    assume "oc_result out = None" "q2 = jq_Forget q (pg_id p)"
    then show ?thesis using gone [of q2] l by simp
  next
    fix e assume e: "jq_Find q (pg_id p) = Some e" "oc_result out = en_result e" "q2 = jq_Forget q (pg_id p)"
      "en_state e \<noteq> JQueued" "en_state e \<noteq> JSubmitting"
    have "e \<in> set (jq_entries q)" using jq_Find_in [OF e(1)] by simp
    then have "entry_fine hand (Some p) vic S e" using jobs_fineD(2) [OF j] by blast
    then have "hand = None \<and> (\<forall>d f. en_result e = Some d \<longrightarrow> vd_fence d = Some f \<longrightarrow> settled vic (pg_target p) f)"
      using e(4,5) by (auto simp: entry_fine_def abandoned_def)
    then show ?thesis using gone [of q2] l e(2,3) by auto
  next
    fix n d assume "oc_state out = JDropped"
      "q2 = jq_Forget ((jq_change q (pg_id p) dropped_entry)\<lparr>jq_dropped_in_a_row := n, jq_dropped := d\<rparr>) (pg_id p)"
    then show ?thesis using gone [of q2] Forget_change [where f = dropped_entry and q = q and i = "pg_id p" and n = n and d = d] by auto
  qed
qed

subsection \<open>The calls keep it\<close>

lemma baseD:
  "commit_base hand F m P \<Longrightarrow> tm_pool m = Some P" "commit_base hand F m P \<Longrightarrow> pool_ok (slots_of F) P"
  "commit_base hand F m P \<Longrightarrow> jobs_fine hand (tm_pending m) (tm_vic m) (slots_of F) (tm_jobs m)"
  "commit_base hand F m P \<Longrightarrow> hand_fine hand (tm_pending m) P (tm_slots m) (slots_of F)"
  "commit_base hand F m P \<Longrightarrow> slots_settled (tm_slots m) (tm_vic m)"
  "commit_base hand F m P \<Longrightarrow> undisturbed F (tm_vic m)"
  by (simp_all add: commit_base_def)

text \<open>What the invariant looks at.\<close>

definition same_core :: "manager \<Rightarrow> manager \<Rightarrow> bool" where
  "same_core m m2 \<longleftrightarrow> tm_frames m2 = tm_frames m \<and> tm_memory m2 = tm_memory m \<and> tm_described m2 = tm_described m \<and>
     tm_last_fence m2 = tm_last_fence m \<and> tm_slots m2 = tm_slots m \<and> tm_pool m2 = tm_pool m \<and>
     tm_vic m2 = tm_vic m \<and> tm_jobs m2 = tm_jobs m \<and> tm_pending m2 = tm_pending m"

lemma same_core_ok: "same_core m m2 \<Longrightarrow> commit_ok hand F m P \<Longrightarrow> commit_ok hand F m2 P"
  by (simp add: same_core_def commit_ok_def commit_base_def seen_def)

lemma same_core_refl: "same_core m m" by (simp add: same_core_def)

lemma same_core_trans: "same_core m m2 \<Longrightarrow> same_core m2 m3 \<Longrightarrow> same_core m m3" by (simp add: same_core_def)

lemma same_core_tell: "same_core m (tell t m)" by (simp add: same_core_def tell_def)

lemma same_core_power: "same_core m (snd (SetPowered a p m))" "same_core m (see_power c q m)"
  "same_core m (point_cursor c a k m)" "same_core m (tm_GpuPlanned c n m)" "same_core m (tm_GpuSubmitted c n m)"
  "same_core m (MoveCursor c x y m)" "same_core m (TellGovernor c a g m)"
  by (auto simp: same_core_def tell_def SetPowered_def see_power_def point_cursor_def tm_GpuPlanned_def tm_GpuSubmitted_def
      MoveCursor_def TellGovernor_def NoteLatch_def Let_def split: option.splits prod.splits if_splits)

lemma kept_lagged: "tm_lagged_last (snd (SetPowered a p m)) = tm_lagged_last m"
  "tm_lagged_last (see_power c q m) = tm_lagged_last m"
  by (auto simp: tell_def SetPowered_def see_power_def Let_def split: option.splits)

lemma draws_core: "same_core m m2 \<Longrightarrow> tm_lagged_last m2 = tm_lagged_last m \<Longrightarrow> draws_here c a tr m2 = draws_here c a tr m"
  by (simp add: draws_here_def same_core_def JudgeMerge_def lags_def queued_here_def)

lemma Forget_base: "commit_base hand F (ForgetMerge m) P \<longleftrightarrow> commit_base hand F m P"
  by (simp add: commit_base_def ForgetMerge_def)

lemma ForgetMerge_ok: "commit_ok hand F m P \<Longrightarrow> commit_ok hand F (ForgetMerge m) P"
  by (auto simp: commit_ok_def Forget_base) (auto simp: ForgetMerge_def Forget_def seen_def)

text \<open>A pending group let go, with its slot's turn.\<close>

lemma give_turn_back:
  assumes "commit_base hand F m P" "one_ahead P" "tm_pending m2 = None" "all_abandoned hand (tm_jobs m2)"
    "tm_pool m2 = Some (Rewind P)" "tm_frames m2 = tm_frames m" "tm_vic m2 = tm_vic m"
    "slots_settled (tm_slots m2) (tm_vic m2)"
    "\<And>i j. hand = Some (i, j) \<Longrightarrow> \<not> known (tm_slots m2) (vj_target j)"
  shows "commit_base hand F m2 (Rewind P) \<and> pend_fine (tm_pending m2) (tm_vic m2) (tm_slots m2) (Rewind P)"
proof -
  note P = baseD [OF assms(1)]
  note R = Rewind_ok [OF P(2) assms(2)]
  have "hand_fine hand None (Rewind P) (tm_slots m2) (slots_of F)"
    using P(4) R assms(9) by (auto simp: hand_fine_def)
  then show ?thesis using assms R P abandoned_fine [OF assms(4)] by (simp add: commit_base_def pend_fine_def)
qed

lemma seen_Rewind: "pool_ok S P \<Longrightarrow> one_ahead P \<Longrightarrow> seen m P \<Longrightarrow> seen m (Rewind P)"
  using Rewind_ok [of S P] by (simp add: seen_def)

lemma DropPendingMerge_ok:
  assumes ok: "commit_ok hand F m P"
  shows "\<exists>P2. commit_ok hand F (DropPendingMerge m) P2 \<and> tm_pending (DropPendingMerge m) = None \<and> in_turn P2 \<and>
    (seen m P \<longrightarrow> seen (DropPendingMerge m) P2) \<and> tm_memory (DropPendingMerge m) = tm_memory m \<and>
    po_buffers P2 = po_buffers P \<and> po_showing P2 = po_showing P"
proof (cases "tm_pending m")
  case None
  then show ?thesis using ok by (auto simp: DropPendingMerge_def commit_ok_def pend_fine_def)
next
  case (Some p)
  let ?m = "DropPendingMerge m"
  have base: "commit_base hand F m P" and turn: "one_ahead P" using ok Some by (auto simp: commit_ok_def pend_fine_def)
  note P = baseD [OF base]
  have m: "tm_pending ?m = None" "tm_jobs ?m = jq_Cancel (tm_jobs m) (pg_id p)" "tm_pool ?m = Some (Rewind P)"
    "tm_frames ?m = tm_frames m" "tm_vic ?m = tm_vic m" "tm_slots ?m = sp_Lost (tm_slots m) (pg_target p)"
    "tm_memory ?m = tm_memory m" "tm_described ?m = tm_described m" "tm_last_fence ?m = tm_last_fence m"
    using Some P(1) by (simp_all add: DropPendingMerge_def on_pool_def lose_slot_def)
  have ab: "all_abandoned hand (tm_jobs ?m)" using Cancel_abandons [of hand p] P(3) Some by (simp add: m(2))
  have b: "commit_base hand F ?m (Rewind P) \<and> pend_fine (tm_pending ?m) (tm_vic ?m) (tm_slots ?m) (Rewind P)"
    by (rule give_turn_back [OF base turn m(1) ab m(3-5)])
      (use P(4) in \<open>auto simp: m settled_Lost [OF P(5)] known_Lost hand_fine_def\<close>)
  have sn: "seen m P \<longrightarrow> seen ?m (Rewind P)" using seen_Rewind [OF P(2) turn] by (auto simp: seen_def m)
  note R = Rewind_ok [OF P(2) turn]
  show ?thesis
    by (rule exI [of _ "Rewind P"]) (use b sn ok R m(1,7) in \<open>auto simp: commit_ok_def\<close>)
qed

text \<open>What is decided of a slot, once the slot is let go.\<close>

lemma decide_slot_spec:
  assumes "decide_slot c code k g und m = ((plan, untouched, held), m2)" "slots_settled (tm_slots m) vic" "pl_kind und \<noteq> kUnchanged"
  shows "m2 = m\<lparr>tm_slots := tm_slots m2\<rparr> \<and> slots_settled (tm_slots m2) vic \<and> \<not> known (tm_slots m2) k \<and>
    (\<forall>x. known (tm_slots m2) x \<longrightarrow> known (tm_slots m) x) \<and>
    (untouched \<longrightarrow> known (tm_slots m) k \<and> (\<forall>f. held = Some f \<longrightarrow> settled vic k f))"
proof -
  let ?s = "record_damage g (tm_slots m)"
  have r: "sp_slots ?s = sp_slots (tm_slots m)" by (rule record_damage_slots)
  have s: "slots_settled ?s vic" using assms(2) by (simp add: slots_settled_def r)
  have k: "known ?s x = known (tm_slots m) x" for x by (simp add: known_def r)
  have m2: "m2 = m\<lparr>tm_slots := sp_Lost ?s k\<rparr>" using assms(1) by (auto simp: decide_slot_def Let_def)
  have "known (tm_slots m) k \<and> (\<forall>f. held = Some f \<longrightarrow> settled vic k f)" if u: untouched
  proof -
    have d: "pl_kind (sp_Decide ?s k (mg_width g) (mg_height g) (MergeMembers g)) = kUnchanged" "held = sp_Fence ?s k"
      using assms(1,3) u by (auto simp: decide_slot_def Let_def split: if_splits)
    obtain x where "sp_slots ?s k = Some x" "sn_valid (hd_snapshot x)" "held = hd_fence x"
      using sp_Decide_unchanged [OF d(1)] d(2) by auto
    then show ?thesis using assms(2) r by (auto simp: known_def slots_settled_def)
  qed
  then show ?thesis using settled_Lost [OF s, of k] by (auto simp: m2 known_Lost k)
qed

lemma undecided_kinds: "pl_kind new_plan \<noteq> kUnchanged" "pl_kind old_plan \<noteq> kUnchanged"
  by (simp_all add: new_plan_def old_plan_def)

text \<open>Going one slot ahead.\<close>

lemma Next_base:
  assumes base: "commit_base hand F m P" and t: "in_turn P" and none: "tm_pending m = None"
    and n: "Next P = (r, P2)"
  shows "\<exists>ready. r = Some (po_at P2, ready) \<and> commit_base hand F (m\<lparr>tm_pool := Some P2\<rparr>) P2 \<and> one_ahead P2 \<and>
    po_at P2 \<noteq> po_showing P2 \<and> replaced_by (slots_of F) (po_at P2) ready \<and> Rewind P2 = P \<and>
    po_buffers P2 = po_buffers P \<and> po_showing P2 = po_showing P \<and> po_anything_showing P2 = po_anything_showing P"
proof -
  note P = baseD [OF base]
  obtain k ready where x: "r = Some (k, ready)" "k = po_at P2" "k \<noteq> po_showing P" "replaced_by (slots_of F) k ready"
    "pool_ok (slots_of F) P2" "one_ahead P2" "po_showing P2 = po_showing P" "po_anything_showing P2 = po_anything_showing P"
    "po_buffers P2 = po_buffers P" "Rewind P2 = P"
    using Next_ok [OF P(2) t n] by blast
  have "commit_base hand F (m\<lparr>tm_pool := Some P2\<rparr>) P2"
    using base x by (simp add: commit_base_def hand_fine_def none)
  then show ?thesis using x by auto
qed

lemma queue_group_ok:
  assumes base: "commit_base hand F m P" and a: "one_ahead P" and none: "tm_pending m = None"
    and r: "replaced_by (slots_of F) (po_at P) ready" and sn: "pm_remembered (tm_memory m) \<Longrightarrow> seen m P"
  shows "commit_ok hand F (queue_group c an g code (po_at P) ready m) P"
proof -
  let ?m = "queue_group c an g code (po_at P) ready m"
  note P = baseD [OF base]
  obtain plan unt held m1 where d: "decide_slot c code (po_at P) g new_plan m = ((plan, unt, held), m1)"
    by (metis prod_cases3 surj_pair)
  obtain s where s: "m1 = m\<lparr>tm_slots := s\<rparr>" "slots_settled s (tm_vic m)" "\<not> known s (po_at P)"
    "\<forall>x. known s x \<longrightarrow> known (tm_slots m) x" "unt \<Longrightarrow> known (tm_slots m) (po_at P)"
    "\<And>f. unt \<Longrightarrow> held = Some f \<Longrightarrow> settled (tm_vic m) (po_at P) f"
    using decide_slot_spec [OF d P(5) undecided_kinds(1)] by blast
  have md: "may_drop c g m1 = may_drop c g m" by (simp add: s(1) may_drop_def JudgeMerge_def)
  have drop: "may_drop c g m \<Longrightarrow> pm_remembered (tm_memory m)"
    by (auto simp: may_drop_def JudgeMerge_def Judge_def Compare_def split: if_splits)
  let ?p = "\<lparr>pg_id = 0, pg_target = po_at P, pg_plan = plan, pg_members = MergeMembers g,
    pg_key = Remember pm_init (mg_width g) (mg_height g) (MergeMembers g), pg_code = code,
    pg_untouched = unt, pg_held_fence = held, pg_droppable = may_drop c g m\<rparr>"
  have ab: "all_abandoned hand (tm_jobs m)" using fine_without [OF P(3)] none by simp
  have h0: "hand_fine hand (Some p) P s (slots_of F)" if "pg_target p = po_at P" "pg_untouched p = unt" for p
    using P(4) s(4,5) that by (auto simp: hand_fine_def none)
  show ?thesis
  proof (cases unt)
    case True
    then have m: "?m = m\<lparr>tm_slots := s, tm_pending := Some ?p\<rparr>" using d s(1) md by (simp add: queue_group_def)
    have "commit_base hand F ?m P"
      using base h0 [of ?p] s(2) abandoned_fine [OF ab] by (simp add: m commit_base_def)
    moreover have "pend_fine (tm_pending ?m) (tm_vic ?m) (tm_slots ?m) P"
      using a s(3,6) True by (simp add: m pend_fine_def)
    moreover have "seen ?m P = seen m P" by (simp add: m seen_def)
    ultimately show ?thesis using sn drop by (simp add: commit_ok_def m)
  next
    case False
    let ?j = "(merge_job g (po_at P) ready code plan)\<lparr>vj_layers := map (own_fence (an_dup an)) (mg_layers g)\<rparr>"
    obtain i q where q: "jq_Queue (tm_jobs m) ?j (may_drop c g m) = (i, q)" by fastforce
    then have m: "?m = m\<lparr>tm_slots := s, tm_jobs := q, tm_pending := Some (?p\<lparr>pg_id := i\<rparr>)\<rparr>"
      using d s(1) md False by (simp add: queue_group_def merge_job_def Let_def)
    have "jobs_fine hand (Some (?p\<lparr>pg_id := i\<rparr>)) (tm_vic m) (slots_of F) q"
      by (rule Queue_fine [OF ab q]) (use False r in \<open>simp_all add: merge_job_def\<close>)
    then have "commit_base hand F ?m P"
      using base h0 [of "?p\<lparr>pg_id := i\<rparr>"] s(2) by (simp add: m commit_base_def)
    moreover have "pend_fine (tm_pending ?m) (tm_vic ?m) (tm_slots ?m) P"
      using a s(3) False by (simp add: m pend_fine_def)
    moreover have "seen ?m P = seen m P" by (simp add: m seen_def)
    ultimately show ?thesis using sn drop by (simp add: commit_ok_def m)
  qed
qed

lemma QueueMerge_ok:
  assumes "commit_ok hand F m P"
  shows "\<exists>P2. commit_ok hand F (QueueMerge c a g m) P2"
proof -
  let ?m = "DropPendingMerge m"
  obtain P1 where p: "commit_ok hand F ?m P1" "tm_pending ?m = None" "in_turn P1"
    using DropPendingMerge_ok [OF assms] by blast
  have base: "commit_base hand F ?m P1" and sn: "pm_remembered (tm_memory ?m) \<Longrightarrow> seen ?m P1"
    using p(1) by (auto simp: commit_ok_def)
  have pool: "tm_pool ?m = Some P1" using baseD(1) [OF base] .
  obtain r P2 where n: "Next P1 = (r, P2)" by fastforce
  obtain ready where x: "r = Some (po_at P2, ready)" "commit_base hand F (?m\<lparr>tm_pool := Some P2\<rparr>) P2" "one_ahead P2"
    "replaced_by (slots_of F) (po_at P2) ready" "po_buffers P2 = po_buffers P1" "po_showing P2 = po_showing P1"
    "po_anything_showing P2 = po_anything_showing P1"
    using Next_base [OF base p(3,2) n] by blast
  have "commit_ok hand F (queue_group c a g code (po_at P2) ready (?m\<lparr>tm_pool := Some P2\<rparr>)) P2" for code
    by (rule queue_group_ok [OF x(2,3) _ x(4)]) (use p(2) sn x(5-7) in \<open>auto simp: seen_def\<close>)
  then show ?thesis using p(1) by (auto simp: QueueMerge_def Let_def pool n x(1) split: option.splits)
qed

lemma Test_ok: "commit_ok hand F m P \<Longrightarrow> Test c a tr m = (ok, m2) \<Longrightarrow> \<exists>P2. commit_ok hand F m2 P2"
  using QueueMerge_ok [OF same_core_ok [OF same_core_power(7)]] QueueMerge_ok
  by (auto simp: Test_def split: if_splits)

text \<open>The worker.\<close>

lemma worker_takes:
  assumes ok: "commit_ok None F m P" and t: "jq_Take (tm_jobs m) = Some (Some t, q)"
  shows "commit_ok (Some t) F (m\<lparr>tm_jobs := q\<rparr>) P"
proof -
  have base: "commit_base None F m P" and pf: "pend_fine (tm_pending m) (tm_vic m) (tm_slots m) P"
    using ok by (auto simp: commit_ok_def)
  note P = baseD [OF base]
  obtain i j where ij: "t = (i, j)" by (cases t)
  obtain p where p: "jobs_fine (Some (i, j)) (tm_pending m) (tm_vic m) (slots_of F) q" "tm_pending m = Some p"
    "\<not> pg_untouched p" "vj_target j = pg_target p" "replaced_by (slots_of F) (pg_target p) (vj_ready j)"
    using Take_fine [OF P(3) t [unfolded ij]] by blast
  have t: "one_ahead P" "pg_target p = po_at P" "\<not> known (tm_slots m) (po_at P)" using pf p(2) by (auto simp: pend_fine_def)
  have "po_at P \<noteq> po_showing P" using P(2) t(1) turn_differs [of "length (po_freed P)" "po_showing P"]
    by (simp add: pool_ok_def one_ahead_def)
  then have "hand_fine (Some (i, j)) (tm_pending m) P (tm_slots m) (slots_of F)"
    using p t by (auto simp: hand_fine_def)
  then show ?thesis using ok p(1) by (simp add: commit_ok_def commit_base_def seen_def ij)
qed

lemma worker_submits:
  assumes ok: "commit_ok (Some (i, j)) F m P" and d: "DrawMergeJob j (tm_vic m) = (d, s)"
  shows "commit_ok None F (m\<lparr>tm_vic := s, tm_jobs := jq_Done (tm_jobs m) i (vd_fence d \<noteq> None) (Some d)\<rparr>) P"
proof -
  let ?m = "m\<lparr>tm_vic := s, tm_jobs := jq_Done (tm_jobs m) i (vd_fence d \<noteq> None) (Some d)\<rparr>"
  have base: "commit_base (Some (i, j)) F m P" and pf: "pend_fine (tm_pending m) (tm_vic m) (tm_slots m) P"
    using ok by (auto simp: commit_ok_def)
  note P = baseD [OF base]
  note D = DrawMergeJob_spec [OF d]
  have h: "vj_target j \<noteq> po_showing P" "replaced_by (slots_of F) (vj_target j) (vj_ready j)" "\<not> known (tm_slots m) (vj_target j)"
    "\<And>p. tm_pending m = Some p \<Longrightarrow> pg_untouched p \<Longrightarrow> pg_target p \<noteq> vj_target j"
    using P(4) by (auto simp: hand_fine_def)
  have "slots_settled (tm_slots m) s"
    unfolding slots_settled_def
  proof (intro allI impI)
    fix k e f assume e: "sp_slots (tm_slots m) k = Some e" "sn_valid (hd_snapshot e)" "hd_fence e = Some f"
    then have "k \<noteq> vj_target j" "settled (tm_vic m) k f" using h(3) P(5) by (auto simp: slots_settled_def known_def)
    then show "settled s k f" using draws_settled_other [OF D [THEN conjunct1]] by blast
  qed
  moreover have "undisturbed F s" using draws_undisturbed [OF _ P(6) h(2)] D by blast
  moreover have "jobs_fine None (tm_pending m) s (slots_of F) (jq_Done (tm_jobs m) i (vd_fence d \<noteq> None) (Some d))"
    using Done_fine [OF P(3)] D by blast
  ultimately have "commit_base None F ?m P" using base by (simp add: commit_base_def hand_fine_def)
  moreover have "pend_fine (tm_pending m) s (tm_slots m) P"
    using pf h(4) draws_settled_other [OF D [THEN conjunct1]] by (auto simp: pend_fine_def split: option.splits)
  moreover have "seen m P \<Longrightarrow> seen ?m P"
    using draws_settled_other [OF D [THEN conjunct1] h(1) [symmetric]] by (auto simp: seen_def)
  ultimately show ?thesis using ok by (auto simp: commit_ok_def)
qed


subsection \<open>A frame's group\<close>

definition fresh_ok :: "(nat \<times> vic_job) option \<Rightarrow> (nat \<times> int) option list \<Rightarrow> manager \<Rightarrow> pool \<Rightarrow> dc_window \<Rightarrow> nat \<Rightarrow> nat \<Rightarrow> bool" where
  "fresh_ok hand F m P w f k \<longleftrightarrow> commit_base hand F m P \<and> one_ahead P \<and> po_at P = k \<and> tm_pending m = None \<and>
     settled (tm_vic m) k f \<and> dw_fd w = zb_fd (po_buffers P ! k) \<and> dw_pre_fence w = int f \<and> tm_described m = w \<and>
     tm_last_fence m = Some f \<and> (\<forall>i j. hand = Some (i, j) \<longrightarrow> vj_target j \<noteq> k)"

definition again_ok :: "(nat \<times> vic_job) option \<Rightarrow> (nat \<times> int) option list \<Rightarrow> manager \<Rightarrow> pool \<Rightarrow> dc_window \<Rightarrow> bool" where
  "again_ok hand F m P w \<longleftrightarrow> commit_ok hand F m P \<and> po_anything_showing P \<and> dw_fd w = zb_fd (po_buffers P ! po_showing P) \<and>
     (\<exists>f. dw_pre_fence w = int f \<and> settled (tm_vic m) (po_showing P) f)"

definition outcome_ok :: "(nat \<times> vic_job) option \<Rightarrow> (nat \<times> int) option list \<Rightarrow> group_outcome \<times> manager \<Rightarrow> bool" where
  "outcome_ok hand F om \<longleftrightarrow> (\<exists>P. case fst om of
     Refused err \<Rightarrow> commit_ok hand F (snd om) P
   | Again w \<Rightarrow> again_ok hand F (snd om) P w
   | Fresh w f k \<Rightarrow> fresh_ok hand F (snd om) P w f k)"

lemma give_back_ok:
  assumes "commit_base hand F m P" "one_ahead P" "all_abandoned hand (tm_jobs m)" "slots_settled (tm_slots m2) (tm_vic m)"
    "m2 = m\<lparr>tm_pending := None, tm_slots := tm_slots m2\<rparr>"
    "\<And>i j. hand = Some (i, j) \<Longrightarrow> \<not> known (tm_slots m2) (vj_target j)"
  shows "commit_ok hand F (give_back m2) (Rewind P)"
proof -
  obtain s where s: "m2 = m\<lparr>tm_pending := None, tm_slots := s\<rparr>" using assms(5) by blast
  have "commit_base hand F (give_back m2) (Rewind P) \<and>
      pend_fine (tm_pending (give_back m2)) (tm_vic (give_back m2)) (tm_slots (give_back m2)) (Rewind P)"
    by (rule give_turn_back [OF assms(1,2)])
      (use assms(3,4,6) baseD(1) [OF assms(1)] in \<open>auto simp: give_back_def ForgetMerge_def on_pool_def s\<close>)
  then show ?thesis by (simp add: commit_ok_def) (simp add: give_back_def ForgetMerge_def on_pool_def Forget_def s)
qed

lemma show_drawn_ok:
  assumes base: "commit_base hand F m P" and a: "one_ahead P" "po_at P = k" and ab: "all_abandoned hand (tm_jobs m)"
    and f: "\<And>f. merged = Some f \<Longrightarrow> settled (tm_vic m) k f \<and> (\<forall>i j. hand = Some (i, j) \<longrightarrow> vj_target j \<noteq> k)"
  shows "outcome_ok hand F (show_drawn c g k plan unt members merged m)"
proof -
  note P = baseD [OF base]
  have nk: "\<not> known (tm_slots m) (vj_target j)" if "hand = Some (i, j)" for i j using P(4) that by (auto simp: hand_fine_def)
  show ?thesis
  proof (cases merged)
    case None
    have "commit_ok hand F (give_back (m\<lparr>tm_pending := None\<rparr>)) (Rewind P)"
      by (rule give_back_ok [OF base a(1) ab]) (use P(5) nk in auto)
    then show ?thesis using None by (auto simp: show_drawn_def outcome_ok_def)
  next
    case (Some n)
    let ?s = "sp_Drawn (tm_slots m) k (mg_width g) (mg_height g) members plan (Some n)"
    let ?m1 = "m\<lparr>tm_pending := None, tm_slots := ?s\<rparr>"
    note fn = f [OF Some]
    have ss: "slots_settled ?s (tm_vic m)" using settled_Drawn [OF P(5)] fn by blast
    have nk2: "\<not> known ?s (vj_target j)" if "hand = Some (i, j)" for i j using nk [OF that] fn that by (auto simp: known_Drawn)
    show ?thesis
    proof (cases "zb_fd (po_buffers P ! k) < 0")
      case True
      have "commit_ok hand F (give_back ?m1) (Rewind P)"
        by (rule give_back_ok [OF base a(1) ab]) (use ss nk2 in auto)
      then show ?thesis using True Some P(1) by (auto simp: show_drawn_def outcome_ok_def Let_def)
    next
      case False
      let ?w = "drawn_window g (po_buffers P ! k) n" and ?m2 = "snd (show_drawn c g k plan unt members merged m)"
      have o: "fst (show_drawn c g k plan unt members merged m) = Fresh ?w n k"
        "same_core (RememberMerge g ?w (Some n) ?m1) ?m2"
        using False Some P(1) by (auto simp: show_drawn_def Let_def same_core_def tell_def RememberMerge_def)
      have "hand_fine hand None P ?s (slots_of F)" using P(4) nk2 by (auto simp: hand_fine_def)
      then have "commit_base hand F ?m2 P"
        using base o(2) ss abandoned_fine [OF ab] by (simp add: commit_base_def same_core_def RememberMerge_def)
      then have "fresh_ok hand F ?m2 P ?w n k"
        using o(2) a fn by (simp add: fresh_ok_def same_core_def RememberMerge_def drawn_window_def off_window_def)
      then show ?thesis using o(1) by (auto simp: outcome_ok_def)
    qed
  qed
qed

lemma draw_here_ok:
  assumes ok: "commit_ok None F m P" and none: "tm_pending m = None"
  shows "outcome_ok None F (draw_group c False got g m)"
proof -
  have base: "commit_base None F m P" and t: "in_turn P" using ok none by (auto simp: commit_ok_def pend_fine_def)
  note P = baseD [OF base]
  have drop: "DropPendingMerge m = m" by (simp add: DropPendingMerge_def none)
  obtain r P2 where n: "Next P = (r, P2)" by fastforce
  obtain ready where x: "r = Some (po_at P2, ready)" "commit_base None F (m\<lparr>tm_pool := Some P2\<rparr>) P2" "one_ahead P2"
    "replaced_by (slots_of F) (po_at P2) ready"
    using Next_base [OF base t none n] by blast
  let ?m1 = "m\<lparr>tm_pool := Some P2\<rparr>" and ?k = "po_at P2"
  have tt: "take_turn False m = (Some (?k, ready), ?m1)" using P(1) n x(1) by (simp add: take_turn_def)
  have ab: "all_abandoned None (tm_jobs m)" using fine_without [OF P(3)] none by simp
  show ?thesis
  proof (cases "UniformTurn (mg_transforms g)")
    case None
    have "commit_ok None F (give_back (?m1\<lparr>tm_pending := None\<rparr>)) (Rewind P2)"
      by (rule give_back_ok [OF x(2,3)]) (use ab P(5) in auto)
    then show ?thesis using None by (auto simp: draw_group_def Let_def drop tt outcome_ok_def)
  next
    case (Some turn)
    let ?code = "group_code c turn"
    obtain plan unt held m2 where d: "decide_slot c ?code ?k g old_plan ?m1 = ((plan, unt, held), m2)"
      by (metis prod_cases3 surj_pair)
    have "slots_settled (tm_slots ?m1) (tm_vic m)" using P(5) by simp
    then obtain s where s: "m2 = ?m1\<lparr>tm_slots := s\<rparr>" "slots_settled s (tm_vic m)" "\<not> known s ?k"
      "\<forall>x. known s x \<longrightarrow> known (tm_slots m) x" "\<And>f. unt \<Longrightarrow> held = Some f \<Longrightarrow> settled (tm_vic m) ?k f"
      using decide_slot_spec [OF d _ undecided_kinds(2)] by fastforce
    have b2: "commit_base None F m2 P2" using x(2) s(2) by (simp add: s(1) commit_base_def hand_fine_def)
    have ab2: "all_abandoned None (tm_jobs m2)" using ab by (simp add: s(1))
    have v2: "tm_vic m2 = tm_vic m" "tm_pending m2 = None" by (simp_all add: s(1) none)
    show ?thesis
    proof (cases unt)
      case True
      have "outcome_ok None F (show_drawn c g ?k plan True (MergeMembers g) held m2)"
        by (rule show_drawn_ok [OF b2 x(3) refl ab2]) (use s(5) True v2 in auto)
      then show ?thesis using True Some d by (simp add: draw_group_def Let_def drop tt plan_now_def none)
    next
      case False
      let ?j = "merge_job g ?k ready ?code plan"
      obtain dr vic where dj: "DrawMergeJob ?j (tm_vic m2) = (dr, vic)" by fastforce
      note D = DrawMergeJob_spec [OF dj]
      let ?m3 = "m2\<lparr>tm_vic := vic\<rparr>"
      have ss: "slots_settled s vic" unfolding slots_settled_def
      proof (intro allI impI)
        fix k e f assume e: "sp_slots s k = Some e" "sn_valid (hd_snapshot e)" "hd_fence e = Some f"
        then have "k \<noteq> ?k" "settled (tm_vic m) k f" using s(2,3) by (auto simp: slots_settled_def known_def)
        then show "settled vic k f" using D draws_settled_other [of ?j "tm_vic m" vic] v2 by (simp add: merge_job_def)
      qed
      have "undisturbed F vic"
        using draws_undisturbed [of ?j "tm_vic m" vic F] D P(6) x(4) v2 by (simp add: merge_job_def)
      then have b3: "commit_base None F ?m3 P2"
        using b2 ss abandoned_fine [OF ab2] by (simp add: commit_base_def s(1))
      have "outcome_ok None F (show_drawn c g ?k (if vd_whole dr then refused_plan else plan) False (MergeMembers g) (vd_fence dr) ?m3)"
        by (rule show_drawn_ok [OF b3 x(3) refl]) (use ab2 D settled_all in auto)
      then show ?thesis using False Some d dj by (simp add: draw_group_def Let_def drop tt plan_now_def draw_now_def none)
    qed
  qed
qed

lemma show_queued_ok:
  assumes ok: "commit_ok hand F m P" and pd: "tm_pending m = Some p" and ab: "all_abandoned hand (tm_jobs m)"
    and got: "\<And>d f. \<not> pg_untouched p \<Longrightarrow> got = Collected d \<Longrightarrow> vd_fence d = Some f \<Longrightarrow>
      hand = None \<and> settled (tm_vic m) (pg_target p) f"
  shows "outcome_ok hand F (draw_group c True got g m)"
proof -
  have base: "commit_base hand F m P" and pf: "pend_fine (tm_pending m) (tm_vic m) (tm_slots m) P"
    using ok by (auto simp: commit_ok_def)
  note P = baseD [OF base]
  have t: "one_ahead P" "po_at P = pg_target p"
    "\<And>f. pg_untouched p \<Longrightarrow> pg_held_fence p = Some f \<Longrightarrow> settled (tm_vic m) (pg_target p) f" using pf pd by (auto simp: pend_fine_def)
  have h: "\<not> known (tm_slots m) (vj_target j)" "pg_untouched p \<Longrightarrow> vj_target j \<noteq> pg_target p" if "hand = Some (i, j)" for i j
    using P(4) pd that by (auto simp: hand_fine_def)
  show ?thesis
  proof (cases "UniformTurn (mg_transforms g)")
    case None
    have "commit_ok hand F (give_back (m\<lparr>tm_pending := None\<rparr>)) (Rewind P)"
      by (rule give_back_ok [OF base t(1) ab]) (use P(5) h in auto)
    then show ?thesis using None pd by (auto simp: draw_group_def Let_def take_turn_def outcome_ok_def)
  next
    case (Some turn)
    show ?thesis
    proof (cases "pg_untouched p")
      case True
      have "outcome_ok hand F (show_drawn c g (pg_target p) (pg_plan p) True (pg_members p) (pg_held_fence p) m)"
        by (rule show_drawn_ok [OF base t(1,2) ab]) (use t(3) h True in auto)
      then show ?thesis using True Some pd by (simp add: draw_group_def Let_def take_turn_def plan_now_def)
    next
      case False
      let ?d = "case got of Collected d \<Rightarrow> d | _ \<Rightarrow> no_drawing"
      have "hand = None \<and> settled (tm_vic m) (pg_target p) f" if "vd_fence ?d = Some f" for f
        using that got [OF False] by (cases got) (auto simp: no_drawing_def)
      then have "outcome_ok hand F (show_drawn c g (pg_target p) (if vd_whole ?d then refused_plan else pg_plan p) False
          (pg_members p) (vd_fence ?d) m)"
        by (intro show_drawn_ok [OF base t(1,2) ab]) auto
      then show ?thesis using False Some pd
        by (cases got) (simp_all add: draw_group_def Let_def take_turn_def plan_now_def draw_now_def)
    qed
  qed
qed

lemma show_again_ok:
  assumes "commit_ok hand F m P" "seen m P"
  shows "outcome_ok hand F (show_again g m)"
proof -
  obtain P2 where p: "commit_ok hand F (DropPendingMerge m) P2" "seen (DropPendingMerge m) P2"
    using DropPendingMerge_ok [OF assms(1)] assms(2) by blast
  then have "again_ok hand F (DropPendingMerge m) P2 (again_window g (DropPendingMerge m))"
    by (auto simp: again_ok_def seen_def again_window_def)
  then show ?thesis by (auto simp: show_again_def Let_def outcome_ok_def)
qed

lemma collect_ok:
  assumes ok: "commit_ok hand F m P" and c: "collect_queued queued m = Some (got, m1)"
  shows "commit_ok hand F m1 P \<and> (\<exists>q. m1 = m\<lparr>tm_jobs := q\<rparr>) \<and>
    (\<forall>p. queued \<longrightarrow> tm_pending m = Some p \<longrightarrow> all_abandoned hand (tm_jobs m1)) \<and>
    (got = WasDropped \<longrightarrow> queued \<and> (\<exists>p. tm_pending m = Some p \<and> pg_droppable p)) \<and>
    (\<forall>p d f. tm_pending m = Some p \<longrightarrow> got = Collected d \<longrightarrow> vd_fence d = Some f \<longrightarrow>
       hand = None \<and> settled (tm_vic m) (pg_target p) f)"
proof -
  have base: "commit_base hand F m P" using ok by (simp add: commit_ok_def)
  note P = baseD [OF base]
  show ?thesis
  proof (cases "tm_pending m")
    case None
    then show ?thesis using ok c by (auto simp: collect_queued_def intro: exI [of _ "tm_jobs m"])
  next
    case (Some p)
    show ?thesis
    proof (cases "queued \<and> \<not> pg_untouched p")
      case False
      then have m1: "m1 = m" "got = NotAsked" using c Some by (auto simp: collect_queued_def split: if_splits)
      have "queued \<Longrightarrow> all_abandoned hand (tm_jobs m)" using fine_without [OF P(3)] Some False by auto
      then show ?thesis using ok m1 by (auto intro: exI [of _ "tm_jobs m"])
    next
      case True
      obtain out q where r: "jq_Resolve (tm_jobs m) (pg_id p) (\<not> pg_droppable p) = Some (out, q)"
        "got = (if oc_state out = JDropped then WasDropped else Collected (case oc_result out of Some d \<Rightarrow> d | None \<Rightarrow> no_drawing))"
        "m1 = m\<lparr>tm_jobs := q\<rparr>"
        using c Some True by (auto simp: collect_queued_def)
      have j: "jobs_fine hand (Some p) (tm_vic m) (slots_of F) (tm_jobs m)" using P(3) Some by simp
      note R = Resolve_fine [OF j r(1)]
      have w: "got = WasDropped \<Longrightarrow> oc_state out = JDropped" using r(2) by (simp split: if_splits)
      have 1: "commit_ok hand F m1 P"
        using ok abandoned_fine [of hand q "tm_pending m" "tm_vic m" "slots_of F"] R
        by (simp add: r(3) commit_ok_def commit_base_def seen_def)
      have 2: "pg_droppable p" if dr: "oc_state out = JDropped"
      proof (rule ccontr)
        assume "\<not> pg_droppable p"
        then obtain e where "jq_Find (tm_jobs m) (pg_id p) = Some e" "en_state e = JDropped"
          using r(1) dr by (auto simp: jq_Resolve_def Let_def split: option.splits if_splits)
        then show False using jobs_fineD(2) [OF j, of e] jq_Find_in by (fastforce simp: entry_fine_def abandoned_def)
      qed
      have 3: "hand = None \<and> settled (tm_vic m) (pg_target p) f" if "got = Collected d" "vd_fence d = Some f" for d f
      proof -
        have "oc_state out \<noteq> JDropped" "d = (case oc_result out of Some d \<Rightarrow> d | None \<Rightarrow> no_drawing)"
          using that(1) r(2) by (auto split: if_splits)
        then have "oc_result out = Some d" using that(2) by (cases "oc_result out") (auto simp: no_drawing_def)
        then show ?thesis using R that(2) \<open>oc_state out \<noteq> JDropped\<close> by blast
      qed
      have 4: "\<exists>q. m1 = m\<lparr>tm_jobs := q\<rparr>" "all_abandoned hand (tm_jobs m1)" using r(3) R by auto
      show ?thesis using 1 2 3 4 w True Some by (metis option.inject)
    qed
  qed
qed

lemma merge_group_ok:
  assumes ok: "commit_ok hand F m P" and r: "merge_group_now c a g m = Some (o2, m2)"
    and pr: "\<not> (tc_merge_cache c \<and> JudgeMerge g m = kSame) \<Longrightarrow> \<not> queued_here g m \<Longrightarrow>
      \<not> lags c a g False m \<Longrightarrow> hand = None"
  shows "outcome_ok hand F (o2, m2)"
proof -
  have base: "commit_base hand F m P" and pf: "pend_fine (tm_pending m) (tm_vic m) (tm_slots m) P"
    and sn: "pm_remembered (tm_memory m) \<or> (\<exists>p. tm_pending m = Some p \<and> pg_droppable p) \<Longrightarrow> seen m P"
    using ok by (auto simp: commit_ok_def)
  note P = baseD [OF base]
  let ?same = "tc_merge_cache c \<and> JudgeMerge g m = kSame" and ?queued = "\<not> (tc_merge_cache c \<and> JudgeMerge g m = kSame) \<and> queued_here g m"
  show ?thesis
  proof (cases "tc_engine c")
    case False
    then show ?thesis using r ok by (auto simp: merge_group_now_def outcome_ok_def)
  next
    case True
    then obtain got m1 where c: "collect_queued ?queued m = Some (got, m1)"
      using r P(1) by (auto simp: merge_group_now_def Let_def split: option.splits)
    obtain q where q: "m1 = m\<lparr>tm_jobs := q\<rparr>" using collect_ok [OF ok c] by blast
    note C = collect_ok [OF ok c, THEN conjunct1] collect_ok [OF ok c, THEN conjunct2, THEN conjunct2]
    let ?lag = "lags c a g ?same m1"
    have lag: "?lag = lags c a g ?same m" by (simp add: q lags_def)
    let ?m2 = "m1\<lparr>tm_lagged_last := ?lag\<rparr>"
    have core: "same_core m1 ?m2" by (simp add: same_core_def)
    have ok2: "commit_ok hand F ?m2 P" using same_core_ok [OF core C(1)] .
    have seen2: "seen ?m2 P = seen m P" by (simp add: q seen_def)
    have o: "(o2, m2) = (if ?same \<or> ?lag \<or> got = WasDropped
        then show_again g (if got = WasDropped then on_pool Rewind (?m2\<lparr>tm_pending := None\<rparr>) else ?m2)
        else draw_group c ?queued got g (if got = WasDropped then on_pool Rewind (?m2\<lparr>tm_pending := None\<rparr>) else ?m2))"
      using r P(1) True c by (simp add: merge_group_now_def Let_def)
    show ?thesis
    proof (cases "got = WasDropped")
      case dropped: True
      obtain p where p: "tm_pending m = Some p" "pg_droppable p" "?queued" using C(2) dropped by blast
      have a: "one_ahead P" using pf p(1) by (simp add: pend_fine_def)
      have ab: "all_abandoned hand (tm_jobs m1)" using C(2) p by blast
      let ?m3 = "on_pool Rewind (?m2\<lparr>tm_pending := None\<rparr>)"
      have s: "seen m P" using sn p by blast
      have s3: "seen ?m3 (Rewind P)" using seen_Rewind [OF P(2) a s] by (simp add: q seen_def on_pool_def)
      have "commit_base hand F ?m3 (Rewind P) \<and> pend_fine (tm_pending ?m3) (tm_vic ?m3) (tm_slots ?m3) (Rewind P)"
        by (rule give_turn_back [OF base a]) (use P ab in \<open>auto simp: q on_pool_def hand_fine_def\<close>)
      then have "commit_ok hand F ?m3 (Rewind P)" using s3 by (simp add: commit_ok_def)
      from show_again_ok [OF this s3] show ?thesis using o dropped by simp
    next
      case kept: False
      show ?thesis
      proof (cases "?same \<or> ?lag")
        case True
        then have "pm_remembered (tm_memory m)"
          unfolding lag by (auto simp: lags_def JudgeMerge_def Judge_def SameButFrames_def Compare_def split: if_splits)
        then have "seen ?m2 P" using sn seen2 by blast
        from show_again_ok [OF ok2 this] show ?thesis using o kept True by simp
      next
        case draw: False
        then have nd: "\<not> (?same \<or> ?lag \<or> got = WasDropped)" using kept by blast
        have o3: "(o2, m2) = draw_group c ?queued got g ?m2"
          using o by (simp only: if_not_P [OF nd] if_not_P [OF kept])
        show ?thesis
        proof (cases ?queued)
          case True
          then obtain p where p: "tm_pending m = Some p" by (auto simp: queued_here_def split: option.splits)
          have "outcome_ok hand F (draw_group c True got g ?m2)"
            by (rule show_queued_ok [OF ok2, of p]) (use C(2) True p in \<open>auto simp: q\<close>)
          then show ?thesis using o3 True by simp
        next
          case False
          have ns: "\<not> ?same" using draw by blast
          then have e: "?same = False" by blast
          have "\<not> lags c a g ?same m" using draw lag by blast
          then have "\<not> lags c a g False m" unfolding e .
          then have hand: "hand = None" using pr [OF ns] ns False by blast
          have dg: "draw_group c False got g ?m2 = draw_group c False got g (DropPendingMerge ?m2)"
            by (simp add: draw_group_def DropPendingMerge_def split: option.splits)
          obtain P2 where "commit_ok hand F (DropPendingMerge ?m2) P2" "tm_pending (DropPendingMerge ?m2) = None"
            using DropPendingMerge_ok [OF ok2] by blast
          then have "outcome_ok hand F (draw_group c False got g ?m2)"
            using draw_here_ok [of F "DropPendingMerge ?m2"] hand dg by simp
          moreover have qf: "?queued = False" using False by blast
          ultimately show ?thesis using o3 unfolding qf by simp
        qed
      qed
    qed
  qed
qed

subsection \<open>The flip\<close>

lemma slot_shown_fd:
  assumes "pool_ok S P" "distinct (map zb_fd (po_buffers P))" "k < length (po_buffers P)" "mg_layers g \<noteq> []"
    "dw_fd (ws ! mg_slot g) = zb_fd (po_buffers P ! k)"
  shows "slot_shown (Some P) g ws = Some (k, dw_pre_fence (ws ! mg_slot g))"
proof -
  have u: "j = k" if "j < length (po_buffers P)" "zb_fd (po_buffers P ! j) = zb_fd (po_buffers P ! k)" for j
    using assms(2,3) that by (auto simp: distinct_conv_nth)
  have "find (\<lambda>j. zb_fd (po_buffers P ! j) = dw_fd (ws ! mg_slot g)) [0..<length (po_buffers P)] = Some k"
  proof (cases "find (\<lambda>j. zb_fd (po_buffers P ! j) = dw_fd (ws ! mg_slot g)) [0..<length (po_buffers P)]")
    case None
    then show ?thesis using assms(3,5) by (auto simp: find_None_iff)
  next
    case (Some j)
    then have "j < length (po_buffers P)" "zb_fd (po_buffers P ! j) = zb_fd (po_buffers P ! k)"
      using assms(5) by (auto simp: find_Some_iff)
    then show ?thesis using Some u by simp
  qed
  then show ?thesis using assms(4) by (simp add: slot_shown_def Let_def)
qed

text \<open>A frame that shows nothing of the pool, or again what the panel shows, told to nobody.\<close>

lemma undisturbed_append:
  "undisturbed F vic \<Longrightarrow> (\<And>k pf. x = Some (k, pf) \<Longrightarrow> \<exists>f. pf = int f \<and> settled vic k f) \<Longrightarrow> undisturbed (F @ [x]) vic"
proof -
  assume u: "undisturbed F vic" and x: "\<And>k pf. x = Some (k, pf) \<Longrightarrow> \<exists>f. pf = int f \<and> settled vic k f"
  have "int n < pf \<or> (\<exists>y. ew_ready (vs_writes vic ! n) = Some y \<and> i < y)"
    if i: "i < length (F @ [x])" "(F @ [x]) ! i = Some (k, pf)" "n < length (vs_writes vic)" "ew_slot (vs_writes vic ! n) = k" for i k pf n
  proof (cases "i < length F")
    case True
    then show ?thesis using u i by (auto simp: undisturbed_def nth_append)
  next
    case False
    then have "x = Some (k, pf)" using i(1,2) by (simp add: nth_append split: if_splits)
    then show ?thesis using x i(3,4) by (fastforce simp: settled_def)
  qed
  then show ?thesis by (auto simp: undisturbed_def)
qed

lemma jobs_fine_more:
  assumes "jobs_fine hand pend vic S q" "\<And>p. pend = Some p \<Longrightarrow> s \<noteq> Some (pg_target p)"
  shows "jobs_fine hand pend vic (S @ [s]) q"
proof -
  have "entry_fine hand pend vic (S @ [s]) e" if "entry_fine hand pend vic S e" for e
    using that assms(2) by (auto simp: entry_fine_def intro: replaced_by_append)
  then show ?thesis using assms(1) by (auto simp: jobs_fine_def)
qed

lemma frame_told_nobody:
  assumes ok: "commit_ok hand F m P" and x: "x = None \<or> (\<exists>f. x = Some (po_showing P, int f) \<and> settled (tm_vic m) (po_showing P) f \<and> po_anything_showing P)"
  shows "commit_ok hand (F @ [x]) (m\<lparr>tm_frames := tm_frames m + 1\<rparr>) P"
proof -
  have base: "commit_base hand F m P" and pf: "pend_fine (tm_pending m) (tm_vic m) (tm_slots m) P"
    using ok by (auto simp: commit_ok_def)
  note P = baseD [OF base]
  let ?s = "map_option fst x"
  have s: "?s = None \<or> ?s = Some (po_showing P) \<and> po_anything_showing P" using x by auto
  have "pool_ok (slots_of F @ [?s]) P" using s pool_ok_None [OF P(2)] pool_ok_again [OF P(2)] by auto
  moreover have "jobs_fine hand (tm_pending m) (tm_vic m) (slots_of F @ [?s]) (tm_jobs m)"
  proof (rule jobs_fine_more [OF P(3)])
    fix p assume "tm_pending m = Some p"
    then have "pg_target p = po_at P" "one_ahead P" using pf by (auto simp: pend_fine_def)
    then have "pg_target p \<noteq> po_showing P"
      using P(2) turn_differs [of "length (po_freed P)" "po_showing P"] by (simp add: pool_ok_def one_ahead_def)
    then show "?s \<noteq> Some (pg_target p)" using s by auto
  qed
  moreover have "hand_fine hand (tm_pending m) P (tm_slots m) (slots_of F @ [?s])"
    using P(4) s by (auto simp: hand_fine_def intro: replaced_by_append)
  moreover have "undisturbed (F @ [x]) (tm_vic m)" by (rule undisturbed_append [OF P(6)]) (use x in auto)
  ultimately have "commit_base hand (F @ [x]) (m\<lparr>tm_frames := tm_frames m + 1\<rparr>) P"
    using base by (simp add: commit_base_def)
  then show ?thesis using ok by (simp add: commit_ok_def seen_def)
qed

text \<open>A frame that shows a fresh drawing, told to the pool.\<close>

lemma frame_told_pool:
  assumes fr: "fresh_ok hand F m P w f k" 
  shows "commit_ok hand (F @ [Some (k, int f)]) (on_pool (Presented (Some (tm_frames m))) (m\<lparr>tm_frames := tm_frames m + 1\<rparr>))
    (Presented (Some (length F)) P)"
proof -
  have base: "commit_base hand F m P" and f: "one_ahead P" "po_at P = k" "tm_pending m = None" "settled (tm_vic m) k f"
    "dw_fd w = zb_fd (po_buffers P ! k)" "tm_described m = w" "tm_last_fence m = Some f"
    "\<And>i j. hand = Some (i, j) \<Longrightarrow> vj_target j \<noteq> k"
    using fr by (auto simp: fresh_ok_def)
  note P = baseD [OF base]
  let ?P = "Presented (Some (length F)) P" and ?m = "on_pool (Presented (Some (tm_frames m))) (m\<lparr>tm_frames := tm_frames m + 1\<rparr>)"
  have n: "tm_frames m = length F" "distinct (map zb_fd (po_buffers P))" using base by (simp_all add: commit_base_def)
  have pr: "pool_ok (slots_of F @ [Some k]) ?P" "in_turn ?P" "po_anything_showing ?P" "po_showing ?P = k" "po_buffers ?P = po_buffers P"
    using Presented_ok [OF P(2) f(1)] f(2) by simp_all
  have "hand_fine hand None ?P (tm_slots m) (slots_of F @ [Some k])"
    using P(4) f(8) pr(4) by (auto simp: hand_fine_def intro!: replaced_by_append) 
  moreover have "jobs_fine hand None (tm_vic m) (slots_of F @ [Some k]) (tm_jobs m)"
    using jobs_fine_more [OF P(3), of "Some k"] f(3) by simp
  moreover have "undisturbed (F @ [Some (k, int f)]) (tm_vic m)"
    by (rule undisturbed_append [OF P(6)]) (use f(4) in auto)
  ultimately have "commit_base hand (F @ [Some (k, int f)]) ?m ?P"
    using base pr n f(3) P(1) by (simp add: commit_base_def on_pool_def)
  moreover have "seen ?m ?P" using pr f by (simp add: seen_def on_pool_def)
  ultimately show ?thesis using pr(2) f(3) by (simp add: commit_ok_def pend_fine_def on_pool_def)
qed

text \<open>What a commit leaves, whether or not its flip went up.\<close>

definition after_commit :: "(nat \<times> vic_job) option \<Rightarrow> (nat \<times> int) option list \<Rightarrow> merge_group \<Rightarrow> commit_result \<times> manager \<Rightarrow> bool" where
  "after_commit hand F g rm \<longleftrightarrow> (\<exists>P. commit_ok hand (F @ (case cr_shown (fst rm) of
     None \<Rightarrow> [] | Some ws \<Rightarrow> [slot_shown (tm_pool (snd rm)) g ws])) (snd rm) P)"

lemma took_core:
  assumes "kernel_ok a" "an_flip a = 0"
  shows "same_core ((case fresh of Some _ \<Rightarrow> on_pool (Presented (Some (tm_frames m))) | None \<Rightarrow> id) (m\<lparr>tm_frames := tm_frames m + 1\<rparr>))
      (snd (flip_took c a tr ws fresh m)) \<and> cr_shown (fst (flip_took c a tr ws fresh m)) = Some ws"
  using assms by (auto simp: flip_took_def Let_def kernel_ok_def same_core_def tell_def on_pool_def split: option.splits)

lemma flip_again_ok:
  assumes ok: "commit_ok hand F m P" and k: "kernel_ok a"
    and x: "slot_shown (Some P) (tr_merge tr) ws = None \<or>
      (\<exists>f. slot_shown (Some P) (tr_merge tr) ws = Some (po_showing P, int f) \<and> settled (tm_vic m) (po_showing P) f \<and> po_anything_showing P)"
  shows "after_commit hand F (tr_merge tr) (flip_windows c a tr ws None m)"
proof -
  let ?m = "point_cursor c a (rq_cursor (tr_frame tr)) m"
  have ok2: "commit_ok hand F ?m P" using same_core_ok [OF same_core_power(3) ok] .
  show ?thesis
  proof (cases "an_flip a = 0")
    case True
    let ?r = "flip_took c a tr ws None ?m"
    note T = took_core [OF k True, where fresh = None and m = ?m and c = c and tr = tr and ws = ws]
    have v: "tm_vic ?m = tm_vic m" using same_core_power(3) [of m c a] by (simp add: same_core_def)
    have "commit_ok hand (F @ [slot_shown (Some P) (tr_merge tr) ws]) (?m\<lparr>tm_frames := tm_frames ?m + 1\<rparr>) P"
      using frame_told_nobody [OF ok2] x v by simp
    then have o: "commit_ok hand (F @ [slot_shown (Some P) (tr_merge tr) ws]) (snd ?r) P" using T same_core_ok by auto
    then have "tm_pool (snd ?r) = Some P" by (simp add: commit_ok_def commit_base_def)
    then show ?thesis using o T True by (auto simp: after_commit_def flip_windows_def)
  next
    case False
    then show ?thesis using ok2 by (auto simp: after_commit_def flip_windows_def flip_refused_def failed_commit_def)
  qed
qed

lemma flip_fresh_ok:
  assumes fr: "fresh_ok hand F m P w f k" and k: "kernel_ok a" and s: "mg_layers (tr_merge tr) \<noteq> []"
    "ws ! mg_slot (tr_merge tr) = w"
  shows "after_commit hand F (tr_merge tr) (flip_windows c a tr ws (Some (f, k)) m)"
proof -
  let ?m = "point_cursor c a (rq_cursor (tr_frame tr)) m"
  have core: "same_core m ?m" by (rule same_core_power(3))
  then have fr2: "fresh_ok hand F ?m P w f k" using fr by (auto simp: fresh_ok_def same_core_def commit_base_def)
  then have base: "commit_base hand F ?m P" and f: "one_ahead P" "po_at P = k" "tm_pending ?m = None" "dw_fd w = zb_fd (po_buffers P ! k)"
    "dw_pre_fence w = int f" by (auto simp: fresh_ok_def)
  note P = baseD [OF base]
  have d: "distinct (map zb_fd (po_buffers P))" "tm_frames ?m = length F" using base by (simp_all add: commit_base_def)
  show ?thesis
  proof (cases "an_flip a = 0")
    case True
    let ?r = "flip_took c a tr ws (Some (f, k)) ?m" and ?P = "Presented (Some (length F)) P"
    note T = took_core [OF k True, where fresh = "Some (f, k)" and m = ?m and c = c and tr = tr and ws = ws]
    have o: "commit_ok hand (F @ [Some (k, int f)]) (snd ?r) ?P"
      using frame_told_pool [OF fr2] T same_core_ok by auto
    then have p: "tm_pool (snd ?r) = Some ?P" "pool_ok (slots_of (F @ [Some (k, int f)])) ?P"
      by (auto simp: commit_ok_def commit_base_def)
    have b: "po_buffers ?P = po_buffers P" "k < length (po_buffers P)"
      using f(2) P(2) by (simp_all add: Presented_def Let_def pool_ok_def)
    have "slot_shown (Some ?P) (tr_merge tr) ws = Some (k, int f)"
      using slot_shown_fd [OF p(2), of k] b d s f(4,5) by simp
    then show ?thesis using o T True p by (auto simp: after_commit_def flip_windows_def)
  next
    case False
    let ?m2 = "lose_slot k (give_back ?m)"
    have ab: "all_abandoned hand (tm_jobs ?m)" using fine_without [OF P(3)] f(3) by simp
    have "commit_base hand F ?m2 (Rewind P) \<and> pend_fine (tm_pending ?m2) (tm_vic ?m2) (tm_slots ?m2) (Rewind P)"
      by (rule give_turn_back [OF base f(1)])
        (use f(3) ab P settled_Lost [OF P(5)] in \<open>auto simp: lose_slot_def give_back_def ForgetMerge_def on_pool_def known_Lost hand_fine_def\<close>)
    then have "commit_ok hand F ?m2 (Rewind P)"
      using f(3) by (simp add: commit_ok_def) (simp add: lose_slot_def give_back_def ForgetMerge_def on_pool_def Forget_def)
    then show ?thesis using False by (auto simp: after_commit_def flip_windows_def flip_refused_def failed_commit_def)
  qed
qed

lemma show_frame_ok:
  assumes ok: "commit_ok hand F m P" and k: "kernel_ok a" and e: "show_frame_now c a tr m = Some (r, m2)"
    and slot: "mg_layers (tr_merge tr) \<noteq> [] \<Longrightarrow> mg_slot (tr_merge tr) < length (rq_windows (tr_frame tr))"
    and pr: "draws_here c a tr m \<Longrightarrow> hand = None"
  shows "after_commit hand F (tr_merge tr) (r, m2)"
proof (cases "mg_layers (tr_merge tr) = []")
  case True
  let ?m = "ForgetMerge (DropPendingMerge m)"
  obtain P2 where "commit_ok hand F ?m P2" using DropPendingMerge_ok [OF ok] ForgetMerge_ok by blast
  then show ?thesis
    using flip_again_ok [of hand F ?m P2 a tr "rq_windows (tr_frame tr)" c] k e True
    by (simp add: show_frame_now_def slot_shown_def)
next
  case False
  let ?g = "tr_merge tr" and ?ws = "rq_windows (tr_frame tr)"
  obtain o2 m1 where g: "merge_group_now c a ?g m = Some (o2, m1)"
    using e False by (cases "merge_group_now c a ?g m") (auto simp: show_frame_now_def)
  have "outcome_ok hand F (o2, m1)"
  proof (rule merge_group_ok [OF ok g])
    assume n: "\<not> (tc_merge_cache c \<and> JudgeMerge ?g m = kSame)" "\<not> queued_here ?g m" "\<not> lags c a ?g False m"
    then have e: "(tc_merge_cache c \<and> JudgeMerge ?g m = kSame) = False" by blast
    have "\<not> lags c a ?g (tc_merge_cache c \<and> JudgeMerge ?g m = kSame) m" unfolding e using n(3) .
    then have "draws_here c a tr m" using n(1,2) False unfolding draws_here_def Let_def by blast
    then show "hand = None" by (rule pr)
  qed
  then obtain P1 where o: "case o2 of Refused err \<Rightarrow> commit_ok hand F m1 P1 | Again w \<Rightarrow> again_ok hand F m1 P1 w
      | Fresh w f k \<Rightarrow> fresh_ok hand F m1 P1 w f k" unfolding outcome_ok_def fst_conv snd_conv by blast
  show ?thesis
  proof (cases o2)
    case (Refused err)
    then show ?thesis using o e g False by (auto simp: show_frame_now_def after_commit_def failed_commit_def)
  next
    case (Again w)
    then obtain f where a: "commit_ok hand F m1 P1" "po_anything_showing P1" "dw_fd w = zb_fd (po_buffers P1 ! po_showing P1)"
      "dw_pre_fence w = int f" "settled (tm_vic m1) (po_showing P1) f" using o by (auto simp: again_ok_def)
    then have p: "pool_ok (slots_of F) P1" "distinct (map zb_fd (po_buffers P1))" by (auto simp: commit_ok_def commit_base_def)
    have "slot_shown (Some P1) ?g (?ws[mg_slot ?g := w]) = Some (po_showing P1, int f)"
      using slot_shown_fd [OF p, of "po_showing P1" ?g "?ws[mg_slot ?g := w]"] p(1) slot False a by (simp add: pool_ok_def)
    then show ?thesis using flip_again_ok [OF a(1) k, of tr "?ws[mg_slot ?g := w]" c] a(2,5) e g Again False
      by (simp add: show_frame_now_def)
  next
    case (Fresh w f k2)
    then show ?thesis using o flip_fresh_ok [of hand F m1 P1 w f k2 a tr "?ws[mg_slot ?g := w]" c] k False slot e g
      by (simp add: show_frame_now_def)
  qed
qed

lemma Execute_unfold:
  assumes "p = (if tr_power tr = Some Power_on then SetPowered a True (see_power c (tr_power tr) m)
      else (0, see_power c (tr_power tr) m))"
  shows "Execute c a tr m = (if fst p \<noteq> 0 then Some (failed_commit (fst p), ForgetMerge (snd p))
    else if \<not> rq_has_composition (tr_frame tr)
    then Some (if tr_power tr \<noteq> None \<and> tr_power tr \<noteq> Some Power_on
      then (failed_commit (fst (SetPowered a False (ForgetMerge (snd p)))), snd (SetPowered a False (ForgetMerge (snd p))))
      else (failed_commit 0, ForgetMerge (snd p)))
    else show_frame_now c a tr (case (tc_cmu c, tr_matrix tr) of (True, Some x) \<Rightarrow> tell (ColorMatrix x) (snd p) | _ \<Rightarrow> snd p))"
  unfolding Execute_def Let_def assms [symmetric] case_prod_beta by simp

lemma Execute_ok:
  assumes ok: "commit_ok hand F m P" and k: "kernel_ok a" and e: "Execute c a tr m = Some (r, m2)"
    and slot: "mg_layers (tr_merge tr) \<noteq> [] \<Longrightarrow> mg_slot (tr_merge tr) < length (rq_windows (tr_frame tr))"
    and pr: "draws_here c a tr m \<Longrightarrow> hand = None"
  shows "after_commit hand F (tr_merge tr) (r, m2)"
proof -
  let ?m = "see_power c (tr_power tr) m"
  define p where "p = (if tr_power tr = Some Power_on then SetPowered a True ?m else (0, ?m))"
  note U = Execute_unfold [OF p_def]
  have c1: "same_core m (snd p)" unfolding p_def
    using same_core_trans [OF same_core_power(2) same_core_power(1)] same_core_power(2) by simp
  then have ok1: "commit_ok hand F (snd p) P" using same_core_ok ok by blast
  have failed: "after_commit hand F (tr_merge tr) (failed_commit err, m3)" if "commit_ok hand F m3 P" for err m3
    using that by (auto simp: after_commit_def failed_commit_def)
  consider (power) "fst p \<noteq> 0" | (idle) "fst p = 0" "\<not> rq_has_composition (tr_frame tr)"
    | (frame) "fst p = 0" "rq_has_composition (tr_frame tr)" by blast
  then show ?thesis
  proof cases
    case power
    then have "(r, m2) = (failed_commit (fst p), ForgetMerge (snd p))"
      using e U by (simp split: if_splits)
    then show ?thesis using failed ForgetMerge_ok [OF ok1] by simp
  next
    case idle
    have fo: "commit_ok hand F (ForgetMerge (snd p)) P" by (rule ForgetMerge_ok [OF ok1])
    have "(if tr_power tr \<noteq> None \<and> tr_power tr \<noteq> Some Power_on
        then (failed_commit (fst (SetPowered a False (ForgetMerge (snd p)))), snd (SetPowered a False (ForgetMerge (snd p))))
        else (failed_commit 0, ForgetMerge (snd p))) = (r, m2)"
      using e unfolding U by (simp only: idle(1) idle(2) not_not if_False if_True simp_thms option.inject)
    then show ?thesis using failed fo same_core_ok [OF same_core_power(1) fo] by (auto split: if_splits)
  next
    case frame
    let ?m3 = "case (tc_cmu c, tr_matrix tr) of (True, Some x) \<Rightarrow> tell (ColorMatrix x) (snd p) | _ \<Rightarrow> snd p"
    have c3: "same_core m ?m3" using c1 same_core_trans [OF c1 same_core_tell] by (auto split: option.splits bool.splits)
    have s: "show_frame_now c a tr ?m3 = Some (r, m2)"
      using e frame U by (simp split: if_splits)
    have "tm_lagged_last ?m3 = tm_lagged_last m" unfolding p_def
      using kept_lagged(1) [of a True ?m] kept_lagged(2) by (auto simp: tell_def split: option.splits bool.splits)
    then have d: "draws_here c a tr ?m3 = draws_here c a tr m" using c3 draws_core by blast
    show ?thesis by (rule show_frame_ok [OF same_core_ok [OF c3 ok] k s slot]) (use pr d in blast)+
  qed
qed

subsection \<open>Any course of calls\<close>

definition world_safe :: "commit_world \<Rightarrow> bool" where
  "world_safe w \<longleftrightarrow> (\<exists>P. commit_ok (wd_hand w) (wd_shown w) (wd_manager w) P)"

lemma commit_step_safe: "commit_step prompt c w v \<Longrightarrow> prompt \<Longrightarrow> world_safe w \<Longrightarrow> world_safe v"
proof (induction rule: commit_step.induct)
  case (cs_take w t q prompt c)
  then obtain P where "commit_ok None (wd_shown w) (wd_manager w) P" by (auto simp: world_safe_def)
  from worker_takes [OF this cs_take(2)] show ?case by (auto simp: world_safe_def)
next
  case (cs_submit w i j d s prompt c)
  then obtain P where "commit_ok (Some (i, j)) (wd_shown w) (wd_manager w) P" by (auto simp: world_safe_def)
  from worker_submits [OF this cs_submit(2)] show ?case by (auto simp: world_safe_def)
next
  case (cs_test c a tr w ok m prompt)
  then obtain P where "commit_ok (wd_hand w) (wd_shown w) (wd_manager w) P" by (auto simp: world_safe_def)
  from Test_ok [OF this cs_test(1)] show ?case by (auto simp: world_safe_def)
next
  case (cs_unjudged prompt c w)
  then show ?case using ForgetMerge_ok by (fastforce simp: world_safe_def)
next
  case (cs_gpu_planned prompt c w pixels)
  then show ?case using same_core_ok [OF same_core_power(4)] by (fastforce simp: world_safe_def)
next
  case (cs_gpu_submitted prompt c w fence)
  then show ?case using same_core_ok [OF same_core_power(5)] by (fastforce simp: world_safe_def)
next
  case (cs_move prompt c w x y)
  then show ?case using same_core_ok [OF same_core_power(6)] by (fastforce simp: world_safe_def)
next
  case (cs_execute c a tr w r m prompt)
  then obtain P where "commit_ok (wd_hand w) (wd_shown w) (wd_manager w) P" by (auto simp: world_safe_def)
  from Execute_ok [OF this cs_execute(2,1,3)] cs_execute(4) [OF cs_execute(5)]
  have "after_commit (wd_hand w) (wd_shown w) (tr_merge tr) (r, m)" by blast
  then show ?case unfolding world_safe_def after_commit_def fst_conv snd_conv by simp
qed

definition new_world :: "manager \<Rightarrow> commit_world" where
  "new_world m = \<lparr>wd_manager = m, wd_hand = None, wd_shown = []\<rparr>"

lemma new_world_safe:
  assumes "Create w h n offers alloc = Some P" "2 \<le> n" "distinct (map zb_fd (po_buffers P))"
  shows "world_safe (new_world (new_manager modes e (Some P) takes))"
proof -
  have "commit_ok None [] (new_manager modes e (Some P) takes) P"
    using Create_ok [OF assms(1,2)] assms(3)
    by (simp add: commit_ok_def commit_base_def new_manager_def jobs_fine_def jq_init_def hand_fine_def slots_settled_def
        sp_init_def undisturbed_def pend_fine_def pm_init_def)
  then show ?thesis by (auto simp: world_safe_def new_world_def)
qed

lemma commit_reach_safe: "commit_reach True c w v \<Longrightarrow> world_safe w \<Longrightarrow> world_safe v"
  by (induction rule: commit_reach.induct) (auto intro: commit_step_safe)


subsection \<open>A frame does not wait for a job nobody draws\<close>

lemma Resolve_None: "jq_Resolve q i wait = None \<Longrightarrow>
   \<not> jq_stopped q \<and> (\<exists>e. jq_Find q i = Some e \<and> (en_state e = JQueued \<or> en_state e = JSubmitting))"
  by (auto simp: jq_Resolve_def Let_def split: option.splits if_splits)

lemma merge_group_waits:
  assumes "merge_group_now c a g m = None"
  shows "\<exists>p. tm_pending m = Some p \<and> jq_Resolve (tm_jobs m) (pg_id p) (\<not> pg_droppable p) = None"
proof -
  have "collect_queued (\<not> (tc_merge_cache c \<and> JudgeMerge g m = kSame) \<and> queued_here g m) m = None"
    using assms by (auto simp: merge_group_now_def Let_def split: if_splits option.splits prod.splits)
  then show ?thesis by (auto simp: collect_queued_def split: option.splits if_splits)
qed

lemma Execute_waits:
  assumes "Execute c a tr m = None"
  shows "\<exists>p. tm_pending m = Some p \<and> jq_Resolve (tm_jobs m) (pg_id p) (\<not> pg_droppable p) = None"
proof -
  define p where "p = (if tr_power tr = Some Power_on then SetPowered a True (see_power c (tr_power tr) m)
      else (0, see_power c (tr_power tr) m))"
  note U = Execute_unfold [OF p_def]
  let ?m3 = "case (tc_cmu c, tr_matrix tr) of (True, Some x) \<Rightarrow> tell (ColorMatrix x) (snd p) | _ \<Rightarrow> snd p"
  have "same_core m (snd p)" unfolding p_def
    using same_core_trans [OF same_core_power(2) same_core_power(1)] same_core_power(2) by simp
  then have c3: "same_core m ?m3" using same_core_trans [OF _ same_core_tell] by (auto split: option.splits bool.splits)
  have "show_frame_now c a tr ?m3 = None" using assms U by (simp split: if_splits)
  then have "merge_group_now c a (tr_merge tr) ?m3 = None"
    by (cases "merge_group_now c a (tr_merge tr) ?m3") (auto simp: show_frame_now_def Let_def split: if_splits group_outcome.splits)
  then show ?thesis using merge_group_waits [of c a "tr_merge tr" ?m3] c3 by (simp add: same_core_def)
qed

text \<open>The worker left to itself comes to rest, with no job queued and none in its hand.\<close>

definition only_worker :: "commit_world \<Rightarrow> commit_world \<Rightarrow> bool" where
  "only_worker w v \<longleftrightarrow> wd_shown v = wd_shown w \<and>
     tm_pending (wd_manager v) = tm_pending (wd_manager w) \<and>
     jq_stopped (tm_jobs (wd_manager v)) = jq_stopped (tm_jobs (wd_manager w))"

lemma only_worker_refl: "only_worker w w"
  by (simp add: only_worker_def)

lemma only_worker_trans: "only_worker w v \<Longrightarrow> only_worker v u \<Longrightarrow> only_worker w u"
  by (simp add: only_worker_def)

definition queued_jobs :: "commit_world \<Rightarrow> (vic_job, vic_drawn) entry set" where
  "queued_jobs w = {e \<in> set (jq_entries (tm_jobs (wd_manager w))). en_state e = JQueued}"

lemma Done_states:
  "e \<in> set (jq_entries (jq_Done q i ok r)) \<Longrightarrow> en_state e = JQueued \<Longrightarrow> e \<in> set (jq_entries q)"
  using in_Forget [of e "if ok then q\<lparr>jq_dropped_in_a_row := 0\<rparr> else q" i]
  by (auto simp: jq_Done_def Let_def jq_change_def split: option.splits if_splits dest!: in_change_first)

lemma Done_stopped: "jq_stopped (jq_Done q i ok r) = jq_stopped q"
  by (auto simp: jq_Done_def Let_def jq_change_def jq_Forget_def split: option.splits)

lemma hand_emptied:
  assumes "world_safe w"
  shows "\<exists>v. commit_reach True c w v \<and> only_worker w v \<and> wd_hand v = None \<and> queued_jobs v \<subseteq> queued_jobs w \<and> world_safe v"
proof (cases "wd_hand w")
  case None
  then show ?thesis using assms only_worker_refl cr_here by blast
next
  case (Some h)
  obtain i j where h: "wd_hand w = Some (i, j)" using Some by (cases h) auto
  obtain d s where dj: "DrawMergeJob j (tm_vic (wd_manager w)) = (d, s)" by fastforce
  let ?q = "jq_Done (tm_jobs (wd_manager w)) i (vd_fence d \<noteq> None) (Some d)"
  let ?v = "w\<lparr>wd_manager := (wd_manager w)\<lparr>tm_vic := s, tm_jobs := ?q\<rparr>, wd_hand := None\<rparr>"
  have st: "commit_step True c w ?v" by (rule commit_step.cs_submit [OF h dj])
  have "only_worker w ?v" by (simp add: only_worker_def Done_stopped)
  moreover have "queued_jobs ?v \<subseteq> queued_jobs w" using Done_states by (fastforce simp: queued_jobs_def)
  ultimately show ?thesis using cr_step [OF cr_here st] commit_step_safe [OF st] assms by fastforce
qed

lemma worker_rests:
  assumes safe: "world_safe w" and go: "\<not> jq_stopped (tm_jobs (wd_manager w))"
  shows "\<exists>v. commit_reach True c w v \<and> only_worker w v \<and> wd_hand v = None \<and> queued_jobs v = {} \<and> world_safe v"
proof -
  have chain: "commit_reach True c u v \<Longrightarrow> commit_reach True c w u \<Longrightarrow> commit_reach True c w v" for u v
    by (induction rule: commit_reach.induct) (auto intro: cr_step)
  obtain u where u: "commit_reach True c w u" "only_worker w u" "wd_hand u = None" "world_safe u"
    using hand_emptied [OF safe] by blast
  show ?thesis
  proof (cases "queued_jobs u = {}")
    case True
    then show ?thesis using u by blast
  next
    case False
    have ns: "\<not> jq_stopped (tm_jobs (wd_manager u))" using u(2) go by (auto simp: only_worker_def)
    have "take_first (jq_entries (tm_jobs (wd_manager u))) \<noteq> None"
      using False by (auto simp: take_first_None queued_jobs_def)
    then obtain t q where t: "jq_Take (tm_jobs (wd_manager u)) = Some (Some t, q)"
      using ns by (auto simp: jq_Take_def TakeLocked_def)
    let ?x = "u\<lparr>wd_manager := (wd_manager u)\<lparr>tm_jobs := q\<rparr>, wd_hand := Some t\<rparr>"
    have st: "commit_step True c u ?x" by (rule commit_step.cs_take [OF u(3) t])
    obtain P where P: "commit_ok None (wd_shown u) (wd_manager u) P" using u(3,4) by (auto simp: world_safe_def)
    obtain es where es: "take_first (jq_entries (tm_jobs (wd_manager u))) = Some (t, es)" "q = (tm_jobs (wd_manager u))\<lparr>jq_entries := es\<rparr>"
      using jq_Take_Some [OF t] TakeLocked_Some by blast
    have ow: "only_worker u ?x" by (simp add: only_worker_def es(2))
    have "jobs_fine None (tm_pending (wd_manager u)) (tm_vic (wd_manager u)) (slots_of (wd_shown u)) (tm_jobs (wd_manager u))"
      using P by (simp add: commit_ok_def commit_base_def)
    then have "\<forall>e\<in>set (jq_entries q). en_state e \<noteq> JQueued" using Take_fine [of _ _ _ _ "fst t" "snd t" q] t by simp
    then have qx: "queued_jobs ?x = {}" by (simp add: queued_jobs_def)
    obtain v where "commit_reach True c ?x v" "only_worker ?x v" "wd_hand v = None" "queued_jobs v \<subseteq> {}" "world_safe v"
      using hand_emptied [OF commit_step_safe [OF st TrueI u(4)]] qx by metis
    then show ?thesis using chain [of ?x v] cr_step [OF u(1) st] only_worker_trans u(2) ow by blast
  qed
qed


end
