(* ===== verification/MergeRuns.thy ===== *)
theory MergeRuns
  imports MergeSafety
begin

text \<open>
  Runs of the commit, step by step: the witnesses of \<open>MergeSafety\<close>, and two courses the code's comments say
  cannot be. A job given up while the worker has it is drawn over the frame on the panel; and a client always
  behind keeps its group still for as long as it stays behind.
\<close>

subsection \<open>Steps as functions\<close>

definition do_take :: "commit_world \<Rightarrow> commit_world" where
  "do_take w = (case jq_Take (tm_jobs (wd_manager w)) of
     Some (Some t, q) \<Rightarrow> w\<lparr>wd_manager := (wd_manager w)\<lparr>tm_jobs := q\<rparr>, wd_hand := Some t\<rparr> | _ \<Rightarrow> w)"

definition do_submit :: "commit_world \<Rightarrow> commit_world" where
  "do_submit w = (case wd_hand w of
     None \<Rightarrow> w
   | Some (i, j) \<Rightarrow> (let (d, s) = DrawMergeJob j (tm_vic (wd_manager w))
       in w\<lparr>wd_manager := (wd_manager w)\<lparr>tm_vic := s, tm_jobs := jq_Done (tm_jobs (wd_manager w)) i (vd_fence d \<noteq> None) (Some d)\<rparr>,
            wd_hand := None\<rparr>))"

definition do_test :: "tegra_config \<Rightarrow> answered \<Rightarrow> tegra_request \<Rightarrow> commit_world \<Rightarrow> commit_world" where
  "do_test c a tr w = w\<lparr>wd_manager := snd (Test c a tr (wd_manager w))\<rparr>"

definition do_execute :: "tegra_config \<Rightarrow> answered \<Rightarrow> tegra_request \<Rightarrow> commit_world \<Rightarrow> commit_world" where
  "do_execute c a tr w = (case Execute c a tr (wd_manager w) of
     None \<Rightarrow> w
   | Some (r, m) \<Rightarrow> w\<lparr>wd_manager := m, wd_shown := wd_shown w @ (case cr_shown r of
       None \<Rightarrow> [] | Some ws \<Rightarrow> [slot_shown (tm_pool m) (tr_merge tr) ws])\<rparr>)"

lemma reach_take: "commit_reach prompt c w v \<Longrightarrow> wd_hand v = None \<Longrightarrow> commit_reach prompt c w (do_take v)"
  by (auto simp: do_take_def split: option.splits intro: cr_step cs_take)

lemma reach_submit: "commit_reach prompt c w v \<Longrightarrow> commit_reach prompt c w (do_submit v)"
proof (cases "wd_hand v")
  case (Some h)
  obtain i j where h: "wd_hand v = Some (i, j)" using Some by (cases h) auto
  obtain d s where d: "DrawMergeJob j (tm_vic (wd_manager v)) = (d, s)" by fastforce
  assume "commit_reach prompt c w v"
  from cr_step [OF this cs_submit [OF h d]] show ?thesis by (simp add: do_submit_def h d)
qed (simp add: do_submit_def)

lemma reach_test: "commit_reach prompt c w v \<Longrightarrow> commit_reach prompt c w (do_test c a tr v)"
  unfolding do_test_def by (rule cr_step, assumption, rule cs_test [of c a tr v "fst (Test c a tr (wd_manager v))"]) simp

lemma reach_execute:
  assumes "commit_reach prompt c w v" "kernel_ok a" "mg_slot (tr_merge tr) < length (rq_windows (tr_frame tr))"
    "prompt \<Longrightarrow> draws_here c a tr (wd_manager v) \<Longrightarrow> wd_hand v = None"
  shows "commit_reach prompt c w (do_execute c a tr v)"
proof (cases "Execute c a tr (wd_manager v)")
  case None
  then show ?thesis using assms(1) by (simp add: do_execute_def)
next
  case (Some x)
  obtain r m where "Execute c a tr (wd_manager v) = Some (r, m)" using Some by (cases x) auto
  from cr_step [OF assms(1) cs_execute [OF this assms(2,3,4)]] show ?thesis
    using \<open>Execute c a tr (wd_manager v) = Some (r, m)\<close> by (simp add: do_execute_def)
qed

subsection \<open>A display with two slots\<close>

definition demo_alloc :: "nat \<Rightarrow> zone_buffer option" where
  "demo_alloc i = Some \<lparr>zb_fd = int (10 + i), zb_pitch = 0, zb_height = 0, zb_size = 0, zb_rows = []\<rparr>"

definition demo_pool :: pool where "demo_pool = the (Create 8 8 2 True demo_alloc)"

definition demo_buffer :: "nat \<Rightarrow> zone_buffer" where "demo_buffer i = the (demo_alloc i)"

lemma demo_pool_state [code]: "demo_pool = \<lparr>po_width = 8, po_height = 8, po_buffers = map demo_buffer [0, 1],
    po_freed = [None, None], po_showing = 0, po_anything_showing = False, po_at = 0\<rparr>"
proof -
  have "[0..<2] = [0, 1 :: nat]" by (simp add: upt_rec)
  then show ?thesis
    by (simp add: demo_pool_def Create_def demo_alloc_def demo_buffer_def PaintSlot_def numeral_2_eq_2)
qed

definition demo_config :: tegra_config where
  "demo_config = \<lparr>tc_engine = True, tc_governor = False, tc_cursor = False, tc_merge_cache = True, tc_partial = False,
     tc_worker_wanted = True, tc_cmu = False, tc_engine_reads = True, tc_forced_vic = -1\<rparr>"

definition demo_answers :: "fence_state \<Rightarrow> answered" where
  "demo_answers acquire = \<lparr>an_acquire = (\<lambda>_. acquire), an_post = (\<lambda>_. kSignaled), an_signal_ns = (\<lambda>_. None), an_now = 0,
     an_last_use = 0, an_dup = Some, an_power = (\<lambda>_. 0), an_test = True, an_show = (\<lambda>_. True), an_flip = 0,
     an_fence = True, an_fence_dup = True\<rparr>"

definition demo_world :: commit_world where
  "demo_world = new_world (new_manager [] \<lparr>draws_scaled_in_part = True, draws_many_parts = True, draws_empty_part = False\<rparr>
     (Some demo_pool) (\<lambda>_. willing))"

text \<open>A group of one member: the buffer \<open>source\<close> in its frame \<open>generation\<close>, of the layer \<open>7\<close>.\<close>

definition demo_group :: "nat \<Rightarrow> nat \<Rightarrow> merge_group" where
  "demo_group source generation = mg_init\<lparr>mg_layers := [\<lparr>ml_handle = source, ml_src = mk_rect (Fin 0) (Fin 0) (Fin 4) (Fin 4),
       ml_dst = mk_rect 0 0 4 4, ml_premultiplied = True, ml_alpha = Fin 1, ml_acquire_fence = 3\<rparr>],
     mg_source_ids := [source], mg_generations := [generation], mg_damages := [[]], mg_serials := [7],
     mg_transforms := [0], mg_formats := [0], mg_width := 4, mg_height := 4, mg_slot := 0, mg_window := 3\<rparr>"

definition demo_request :: "nat \<Rightarrow> nat \<Rightarrow> tegra_request" where
  "demo_request source generation = \<lparr>tr_frame = \<lparr>rq_windows = [off_window 3], rq_has_composition = True,
     rq_merge = demo_group source generation, rq_cursor = None, rq_rate = None\<rparr>, tr_power = None, tr_matrix = None\<rparr>"

text \<open>A frame validated, drawn by the worker in good time, and shown.\<close>

definition served :: "nat \<Rightarrow> nat \<Rightarrow> commit_world \<Rightarrow> commit_world" where
  "served source generation w = do_execute demo_config (demo_answers kSignaled) (demo_request source generation)
     (do_submit (do_take (do_test demo_config (demo_answers kSignaled) (demo_request source generation) w)))"

definition first_shown :: commit_world where "first_shown = served 1 1 demo_world"

lemma first_shown_runs: "wd_shown first_shown = [Some (1, 1)] \<and> map ew_slot (vs_writes (tm_vic (wd_manager first_shown))) = [1]"
  unfolding first_shown_def served_def by code_simp

definition other_here :: "commit_world \<Rightarrow> commit_world" where
  "other_here w = do_execute demo_config (demo_answers kSignaled) (demo_request 2 1)
     (do_take (do_test demo_config (demo_answers kSignaled) (demo_request 1 1) w))"

text \<open>The worker has taken the first group's job when another group is executed: it is given up, its slot is
  given to the other group, drawn and shown; and then the worker hands it on.\<close>

definition late_world :: commit_world where "late_world = do_submit (other_here demo_world)"

lemma late_world_facts:
  "wd_shown late_world = [Some (1, 1)] \<and> map ew_slot (vs_writes (tm_vic (wd_manager late_world))) = [1, 1] \<and>
   map ew_ready (vs_writes (tm_vic (wd_manager late_world))) = [None, None] \<and>
   map (map es_handle \<circ> ep_seats \<circ> ew_pass) (vs_writes (tm_vic (wd_manager late_world))) = [[2], [1]]"
  unfolding late_world_def other_here_def by code_simp

text \<open>Frame after frame of a member whose client is always behind: one frame is shown as it was for the
  member, the next for the engine, which waits for the member's frame before.\<close>

definition behind :: "nat \<Rightarrow> commit_world \<Rightarrow> commit_world" where
  "behind generation w = do_execute demo_config (demo_answers kPending) (demo_request 1 (generation + 1))
     (do_test demo_config (demo_answers kPending) (demo_request 1 (generation + 1))
       (do_execute demo_config (demo_answers kPending) (demo_request 1 generation)
         (do_submit (do_take (do_test demo_config (demo_answers kPending) (demo_request 1 generation) w)))))"

lemma behind_facts:
  "wd_shown (behind 4 (behind 2 first_shown)) = replicate 5 (Some (1, 1)) \<and>
   map (\<lambda>w. (ew_slot w)) (vs_writes (tm_vic (wd_manager (behind 4 (behind 2 first_shown))))) = [1, 0, 0]"
  unfolding behind_def first_shown_def served_def by code_simp

subsection \<open>They are runs\<close>

lemma hands: "wd_hand (do_submit w) = None" "wd_hand (do_test c a tr w) = wd_hand w" "wd_hand (do_execute c a tr w) = wd_hand w"
  "wd_hand demo_world = None"
  by (auto simp: do_submit_def do_test_def do_execute_def demo_world_def new_world_def split: option.splits prod.splits)

lemma demo_request_ok: "kernel_ok (demo_answers f)"
  "mg_slot (tr_merge (demo_request s n)) < length (rq_windows (tr_frame (demo_request s n)))"
  by (simp_all add: kernel_ok_def demo_answers_def demo_request_def demo_group_def)

lemma served_reach:
  "commit_reach prompt demo_config w v \<Longrightarrow> wd_hand v = None \<Longrightarrow>
   commit_reach prompt demo_config w (served s n v) \<and> wd_hand (served s n v) = None"
  unfolding served_def
  by (intro conjI reach_execute reach_submit reach_take reach_test demo_request_ok) (simp_all add: hands)

lemma behind_reach:
  "commit_reach prompt demo_config w v \<Longrightarrow> wd_hand v = None \<Longrightarrow>
   commit_reach prompt demo_config w (behind n v) \<and> wd_hand (behind n v) = None"
  unfolding behind_def
  by (intro conjI reach_execute reach_submit reach_take reach_test demo_request_ok) (simp_all add: hands)

lemma first_shown_reach: "commit_reach prompt demo_config demo_world first_shown \<and> wd_hand first_shown = None"
  unfolding first_shown_def using served_reach [OF cr_here hands(4)] .

text \<open>The worker late with a job given up. Frame 0 reads slot 1 from the fence of drawing 1 on; the second
  drawing into the slot, of the group given up, is not done by then and waits for no flip.\<close>

lemma late_job_draws_over_the_panel:
  "\<exists>w. commit_reach False demo_config demo_world w \<and> wd_shown w = [Some (1, 1)] \<and>
     ew_slot (vs_writes (tm_vic (wd_manager w)) ! 1) = 1 \<and> ew_ready (vs_writes (tm_vic (wd_manager w)) ! 1) = None \<and>
     length (vs_writes (tm_vic (wd_manager w))) = 2"
proof (intro exI conjI)
  show "commit_reach False demo_config demo_world late_world"
    unfolding late_world_def other_here_def
    by (intro reach_submit reach_execute reach_take reach_test cr_here demo_request_ok) (simp_all add: hands)
  have l: "map ew_slot (vs_writes (tm_vic (wd_manager late_world))) = [1, 1]"
    "map ew_ready (vs_writes (tm_vic (wd_manager late_world))) = [None, None]" using late_world_facts by blast+
  show n: "length (vs_writes (tm_vic (wd_manager late_world))) = 2"
    using arg_cong [OF l(1), of length] by simp
  show "wd_shown late_world = [Some (1, 1)]" using late_world_facts by blast
  show "ew_slot (vs_writes (tm_vic (wd_manager late_world)) ! 1) = 1"
    using l(1) n nth_map [of 1 "vs_writes (tm_vic (wd_manager late_world))" ew_slot] by simp
  show "ew_ready (vs_writes (tm_vic (wd_manager late_world)) ! 1) = None"
    using l(2) n nth_map [of 1 "vs_writes (tm_vic (wd_manager late_world))" ew_ready] by simp
qed

text \<open>A client always behind. Five frames running show drawing 1, though the group has had a newer frame for
  each of the last four and the worker has kept up.\<close>

lemma client_behind_stands_still:
  "\<exists>w. commit_reach True demo_config demo_world w \<and> wd_shown w = replicate 5 (Some (1, 1))"
  using behind_facts behind_reach [OF conjunct1 conjunct2] behind_reach first_shown_reach by meson

subsection \<open>Witnesses\<close>

definition three_shown :: commit_world where "three_shown = served 1 3 (served 1 2 first_shown)"

lemma three_shown_facts:
  "wd_shown three_shown = [Some (1, 1), Some (0, 2), Some (1, 3)] \<and>
   map ew_slot (vs_writes (tm_vic (wd_manager three_shown))) = [1, 0, 1]"
  unfolding three_shown_def first_shown_def served_def by code_simp

lemma three_shown_reach: "commit_reach True demo_config demo_world three_shown"
proof -
  note two = served_reach [OF conjunct1 [OF first_shown_reach] conjunct2 [OF first_shown_reach], where s = 1 and n = 2]
  show ?thesis unfolding three_shown_def using served_reach [OF conjunct1 [OF two] conjunct2 [OF two], where s = 1 and n = 3] by (rule conjunct1)
qed

lemma demo_pool_ok: "Create 8 8 2 True demo_alloc = Some demo_pool" "distinct (map zb_fd (po_buffers demo_pool))"
proof -
  show "distinct (map zb_fd (po_buffers demo_pool))" by (simp add: demo_pool_state demo_buffer_def demo_alloc_def)
  have "[0..<2] = [0, 1 :: nat]" by (simp add: upt_rec)
  then show "Create 8 8 2 True demo_alloc = Some demo_pool" by (simp add: demo_pool_def Create_def demo_alloc_def)
qed


definition queued_only :: commit_world where
  "queued_only = do_test demo_config (demo_answers kSignaled) (demo_request 1 1) demo_world"

lemma queued_only_waits: "Execute demo_config (demo_answers kSignaled) (demo_request 1 1) (wd_manager queued_only) = None"
proof -
  have "(case Execute demo_config (demo_answers kSignaled) (demo_request 1 1) (wd_manager queued_only) of None \<Rightarrow> True | Some _ \<Rightarrow> False)"
    unfolding queued_only_def by code_simp
  then show ?thesis by (simp split: option.splits)
qed


end
