(* ===== verification/CursorUnit.thy ===== *)
theory CursorUnit
  imports ScratchPool
begin

text \<open>
  tegra/CursorUnit: the controller's own cursor. Its sprite is copied into one of two slots in turn, shown,
  moved and hidden between frames. What the zone, the allocator, the engine and the controller answer is an
  argument of each call; the controller is what it was last told. A call through the engine's pointer where
  there is no engine has no outcome.
\<close>

subsection \<open>The unit and the controller\<close>

record sprite_slot =
  ss_buffer :: "zone_buffer option"
  ss_side :: nat

definition no_slot :: sprite_slot where "no_slot = \<lparr>ss_buffer = None, ss_side = 0\<rparr>"

text \<open>What the controller scans: the memory it was given with its size and its kind of alpha, and where.\<close>

record cursor_hw =
  hw_lit :: bool
  hw_image :: "(int \<times> nat \<times> bool) option"
  hw_x :: int
  hw_y :: int
  hw_visible :: bool

record cursor_unit =
  cu_engine :: bool
  cu_staging :: "zone_buffer option"
  cu_staging_side :: nat
  cu_staging_stride_px :: nat
  cu_slots :: "sprite_slot list"
  cu_at :: nat
  cu_image_id :: nat
  cu_image_flags :: "nat \<times> bool"
  cu_visible :: bool
  cu_x :: int
  cu_y :: int
  cu_moves :: nat
  cu_uploads :: nat
  cu_refused :: nat
  cu_hw :: cursor_hw

text \<open>Answered during one call: a zone buffer of a side and a row grain; is the sprite laid out in rows, and
  how far apart; the words the engine laid flat; the words read through a lock; and does the controller
  take an image and a place.\<close>

record cursor_answers =
  ca_zone :: "nat \<Rightarrow> nat \<Rightarrow> zone_buffer option"
  ca_described :: "(bool \<times> nat) option"
  ca_copied :: "(nat \<Rightarrow> nat) option"
  ca_locked :: "(nat \<Rightarrow> nat) option"
  ca_image :: bool
  ca_point :: bool

definition SideFor :: "nat \<Rightarrow> nat \<Rightarrow> nat option" where
  "SideFor width height = find (\<lambda>side. max width height \<le> side) [32, 64, 128, 256]"

definition bswap32 :: "nat \<Rightarrow> nat" where
  "bswap32 n = n mod 256 * 16777216 + n div 256 mod 256 * 65536 + n div 65536 mod 256 * 256 + n div 16777216 mod 256"

definition SetCursorImage :: "cursor_answers \<Rightarrow> int \<Rightarrow> nat \<times> bool \<Rightarrow> cursor_unit \<Rightarrow> bool \<times> cursor_unit" where
  "SetCursorImage a fd flags u =
     (if ca_image a \<and> hw_lit (cu_hw u)
      then (True, u\<lparr>cu_hw := (cu_hw u)\<lparr>hw_image := Some (fd, fst flags, snd flags)\<rparr>\<rparr>) else (False, u))"

definition clamp16 :: "int \<Rightarrow> int" where
  "clamp16 x = (if x < -32768 then -32768 else if x > 32767 then 32767 else x)"

definition PointLocked :: "cursor_answers \<Rightarrow> int \<Rightarrow> int \<Rightarrow> bool \<Rightarrow> cursor_unit \<Rightarrow> bool \<times> cursor_unit" where
  "PointLocked a x y visible u =
     (if ca_point a \<and> hw_lit (cu_hw u)
      then (True, u\<lparr>cu_hw := (cu_hw u)\<lparr>hw_x := clamp16 x, hw_y := clamp16 y, hw_visible := visible\<rparr>\<rparr>) else (False, u))"

subsection \<open>Loading a sprite\<close>

definition stage :: "cursor_answers \<Rightarrow> nat \<Rightarrow> cursor_unit \<Rightarrow> bool \<times> cursor_unit" where
  "stage a side u0 =
     (let u = (if cu_staging u0 \<noteq> None \<and> cu_staging_side u0 < side then u0\<lparr>cu_staging := None\<rparr> else u0) in
      if cu_staging u \<noteq> None then (True, u)
      else case ca_zone a side 256 of
        None \<Rightarrow> (False, u)
      | Some b \<Rightarrow> (True, u\<lparr>cu_staging := Some b, cu_staging_side := side, cu_staging_stride_px := zb_pitch b div 4\<rparr>))"

definition LinearizeLocked :: "cursor_answers \<Rightarrow> nat \<Rightarrow> nat \<Rightarrow> cursor_unit \<Rightarrow> ((nat \<Rightarrow> nat) \<times> nat) option \<times> cursor_unit" where
  "LinearizeLocked a width height u =
     (if \<not> cu_engine u then (None, u)
      else case SideFor width height of
        None \<Rightarrow> (None, u)
      | Some side \<Rightarrow>
          let (staged, u2) = stage a side u in
          if \<not> staged then (None, u2)
          else (map_option (\<lambda>words. (words, cu_staging_stride_px u2)) (ca_copied a), u2))"

text \<open>The words to read and the length of their row: the flat copy, or the sprite itself.\<close>

definition sprite_words :: "cursor_answers \<Rightarrow> nat \<Rightarrow> nat \<Rightarrow> nat \<Rightarrow> cursor_unit \<Rightarrow> ((nat \<Rightarrow> nat) \<times> nat) option \<times> cursor_unit" where
  "sprite_words a width height stride_px u = (case ca_described a of
     Some (in_rows, pitch) \<Rightarrow>
       if \<not> in_rows then LinearizeLocked a width height u
       else (map_option (\<lambda>words. (words, if 4 \<le> pitch then pitch div 4 else stride_px)) (ca_locked a), u)
   | None \<Rightarrow> (map_option (\<lambda>words. (words, stride_px)) (ca_locked a), u))"

definition sprite_rows :: "nat \<Rightarrow> nat \<Rightarrow> nat \<Rightarrow> (nat \<Rightarrow> nat) \<Rightarrow> nat \<Rightarrow> nat list list" where
  "sprite_rows side width height words stride_px =
     map (\<lambda>row. map (\<lambda>col. bswap32 (if row < height \<and> col < width then words (row * stride_px + col) else 0)) [0..<side]) [0..<side]"

definition set_slot :: "nat \<Rightarrow> sprite_slot \<Rightarrow> cursor_unit \<Rightarrow> cursor_unit" where
  "set_slot k s u = u\<lparr>cu_slots := (cu_slots u)[k := s]\<rparr>"

text \<open>The copy into the slot not shown, and the turn of the two.\<close>

definition upload_into :: "cursor_answers \<Rightarrow> nat \<Rightarrow> zone_buffer \<Rightarrow> nat \<Rightarrow> nat \<Rightarrow> nat \<Rightarrow> nat \<Rightarrow> bool \<Rightarrow> cursor_unit \<Rightarrow> bool \<times> cursor_unit" where
  "upload_into a k b side width height stride_px premultiplied u0 =
     (case sprite_words a width height stride_px (set_slot k \<lparr>ss_buffer = Some b, ss_side = side\<rparr> u0) of
        (None, u) \<Rightarrow> (False, u)
      | (Some (words, stride), u) \<Rightarrow>
          let b2 = b\<lparr>zb_rows := sprite_rows side width height words stride\<rparr>;
              u1 = set_slot k \<lparr>ss_buffer = Some b2, ss_side = side\<rparr> u
          in (case SetCursorImage a (zb_fd b) (side, premultiplied) u1 of
                (False, u2) \<Rightarrow> (False, u2)
              | (True, u2) \<Rightarrow> (True, u2\<lparr>cu_at := k, cu_image_flags := (side, premultiplied), cu_uploads := cu_uploads u2 + 1\<rparr>)))"

definition UploadLocked :: "cursor_answers \<Rightarrow> nat \<Rightarrow> nat \<Rightarrow> nat \<Rightarrow> bool \<Rightarrow> cursor_unit \<Rightarrow> (bool \<times> cursor_unit) option" where
  "UploadLocked a width height stride_px premultiplied u =
     (if stride_px < width then Some (False, u)
      else case SideFor width height of
        None \<Rightarrow> Some (False, u)
      | Some side \<Rightarrow>
          let k = 1 - cu_at u;
              held = (if ss_side (cu_slots u ! k) \<noteq> side then None else ss_buffer (cu_slots u ! k))
          in (case held of
                Some b \<Rightarrow> Some (upload_into a k b side width height stride_px premultiplied u)
              | None \<Rightarrow>
                  if \<not> cu_engine u then None
                  else (case ca_zone a side 4 of
                    None \<Rightarrow> Some (False, set_slot k no_slot u)
                  | Some b \<Rightarrow>
                      if zb_pitch b \<noteq> side * 4 \<or> zb_fd b < 0 then Some (False, set_slot k no_slot u)
                      else Some (upload_into a k b side width height stride_px premultiplied u))))"

subsection \<open>The calls\<close>

definition Show :: "cursor_answers \<Rightarrow> nat \<Rightarrow> nat \<Rightarrow> nat \<Rightarrow> nat \<Rightarrow> bool \<Rightarrow> int \<Rightarrow> int \<Rightarrow> bool \<Rightarrow> cursor_unit \<Rightarrow> (bool \<times> cursor_unit) option" where
  "Show a identity width height stride_px premultiplied x0 y0 position_fresh u =
     (let stale = (\<not> position_fresh \<and> cu_visible u);
          x = (if stale then cu_x u else x0);
          y = (if stale then cu_y u else y0)
      in if cu_visible u \<and> identity = cu_image_id u \<and> x = cu_x u \<and> y = cu_y u then Some (True, u)
         else case (if identity \<noteq> cu_image_id u \<or> cu_image_id u = 0
                    then map_option (\<lambda>(ok, u1). (ok, if ok then u1\<lparr>cu_image_id := identity\<rparr> else u1))
                           (UploadLocked a width height stride_px premultiplied u)
                    else Some (True, u)) of
           None \<Rightarrow> None
         | Some (False, u1) \<Rightarrow> Some (False, u1\<lparr>cu_refused := cu_refused u1 + 1\<rparr>)
         | Some (True, u1) \<Rightarrow>
             (case PointLocked a x y True u1 of
                (False, u2) \<Rightarrow> Some (False, u2\<lparr>cu_refused := cu_refused u2 + 1\<rparr>)
              | (True, u2) \<Rightarrow> Some (True, u2\<lparr>cu_visible := True, cu_x := x, cu_y := y\<rparr>)))"

definition Move :: "cursor_answers \<Rightarrow> int \<Rightarrow> int \<Rightarrow> cursor_unit \<Rightarrow> cursor_unit" where
  "Move a x y u =
     (if \<not> cu_visible u then u
      else case PointLocked a x y True u of
        (True, u1) \<Rightarrow> u1\<lparr>cu_x := x, cu_y := y, cu_moves := cu_moves u1 + 1\<rparr>
      | (False, u1) \<Rightarrow> u1)"

definition Hide :: "cursor_answers \<Rightarrow> cursor_unit \<Rightarrow> cursor_unit" where
  "Hide a u = (if \<not> cu_visible u then u else (snd (PointLocked a 0 0 False u))\<lparr>cu_visible := False\<rparr>)"

definition Rearm :: "cursor_answers \<Rightarrow> cursor_unit \<Rightarrow> cursor_unit" where
  "Rearm a u =
     (if \<not> cu_visible u \<or> cu_image_id u = 0 then u
      else case ss_buffer (cu_slots u ! cu_at u) of
        None \<Rightarrow> u
      | Some b \<Rightarrow> snd (PointLocked a (cu_x u) (cu_y u) True (snd (SetCursorImage a (zb_fd b) (cu_image_flags u) u))))"

definition new_cursor :: "bool \<Rightarrow> cursor_hw \<Rightarrow> cursor_unit" where
  "new_cursor engine hw = \<lparr>cu_engine = engine, cu_staging = None, cu_staging_side = 0, cu_staging_stride_px = 0,
     cu_slots = [no_slot, no_slot], cu_at = 0, cu_image_id = 0, cu_image_flags = (0, False), cu_visible = False,
     cu_x = 0, cu_y = 0, cu_moves = 0, cu_uploads = 0, cu_refused = 0, cu_hw = hw\<rparr>"

text \<open>The unit is handed back: hidden first, and its buffers let go.\<close>

definition release_cursor :: "cursor_answers \<Rightarrow> cursor_unit \<Rightarrow> cursor_unit" where
  "release_cursor a u = (snd (PointLocked a 0 0 False u))\<lparr>cu_slots := map (\<lambda>_. no_slot) (cu_slots u),
     cu_staging := None, cu_staging_side := 0, cu_staging_stride_px := 0\<rparr>"

subsection \<open>What is scanned is not written\<close>

text \<open>The controller scans, if anything, the slot the unit stands at.\<close>

definition cursor_ok :: "cursor_unit \<Rightarrow> bool" where
  "cursor_ok u \<longleftrightarrow> length (cu_slots u) = 2 \<and> cu_at u < 2 \<and>
     (\<forall>fd side kind. hw_image (cu_hw u) = Some (fd, side, kind) \<longrightarrow>
        cu_image_flags u = (side, kind) \<and>
        (\<exists>b. cu_slots u ! cu_at u = \<lparr>ss_buffer = Some b, ss_side = side\<rparr> \<and> zb_fd b = fd))"

text \<open>Another state of the unit with the same sprite shown from the same memory; and one with nothing but the
  place changed.\<close>

definition same_sprite :: "cursor_unit \<Rightarrow> cursor_unit \<Rightarrow> bool" where
  "same_sprite u v \<longleftrightarrow> cu_at v = cu_at u \<and> cu_slots v ! cu_at u = cu_slots u ! cu_at u \<and>
     cu_image_flags v = cu_image_flags u \<and> hw_image (cu_hw v) = hw_image (cu_hw u)"

definition shown_alike :: "cursor_unit \<Rightarrow> cursor_unit \<Rightarrow> bool" where
  "shown_alike u v \<longleftrightarrow> cu_visible v = cu_visible u \<and> cu_x v = cu_x u \<and> cu_y v = cu_y u \<and>
     cu_image_id v = cu_image_id u \<and> hw_lit (cu_hw v) = hw_lit (cu_hw u) \<and> hw_visible (cu_hw v) = hw_visible (cu_hw u) \<and>
     hw_x (cu_hw v) = hw_x (cu_hw u) \<and> hw_y (cu_hw v) = hw_y (cu_hw u)"

text \<open>A sprite just loaded: into the slot that was not scanned, which is whole, and is scanned from now on.\<close>

definition turned_to :: "cursor_answers \<Rightarrow> nat \<Rightarrow> nat \<Rightarrow> bool \<Rightarrow> cursor_unit \<Rightarrow> cursor_unit \<Rightarrow> bool" where
  "turned_to a width height kind u v \<longleftrightarrow> cu_at v = 1 - cu_at u \<and> cu_slots v ! cu_at u = cu_slots u ! cu_at u \<and>
     (\<exists>b side words stride. SideFor width height = Some side \<and> (ca_copied a = Some words \<or> ca_locked a = Some words) \<and>
        cu_slots v ! cu_at v = \<lparr>ss_buffer = Some b, ss_side = side\<rparr> \<and> zb_rows b = sprite_rows side width height words stride \<and>
        hw_image (cu_hw v) = Some (zb_fd b, side, kind))"

lemmas cursor_defs = cursor_ok_def same_sprite_def shown_alike_def

lemma other_slot: "k < (2 :: nat) \<Longrightarrow> 1 - k \<noteq> k \<and> 1 - k < 2"
  by arith

lemma set_slot_simps [simp]:
  "cu_slots (set_slot k s u) = (cu_slots u)[k := s]" "cu_at (set_slot k s u) = cu_at u" "cu_hw (set_slot k s u) = cu_hw u"
  "cu_visible (set_slot k s u) = cu_visible u" "cu_x (set_slot k s u) = cu_x u" "cu_y (set_slot k s u) = cu_y u"
  "cu_image_flags (set_slot k s u) = cu_image_flags u" "cu_image_id (set_slot k s u) = cu_image_id u"
  by (simp_all add: set_slot_def)

lemma set_other_slot:
  assumes "cursor_ok u"
  shows "cursor_ok (set_slot (1 - cu_at u) s u) \<and> same_sprite u (set_slot (1 - cu_at u) s u) \<and>
    shown_alike u (set_slot (1 - cu_at u) s u)"
proof -
  have "1 - cu_at u \<noteq> cu_at u" using assms other_slot by (simp add: cursor_ok_def)
  then have "(cu_slots u)[1 - cu_at u := s] ! cu_at u = cu_slots u ! cu_at u" by simp
  then show ?thesis using assms unfolding cursor_defs by simp
qed

lemma same_sprite_trans: "same_sprite u v \<Longrightarrow> same_sprite v w \<Longrightarrow> same_sprite u w"
  unfolding same_sprite_def by metis

lemma shown_alike_trans: "shown_alike u v \<Longrightarrow> shown_alike v w \<Longrightarrow> shown_alike u w"
  by (simp add: shown_alike_def)

text \<open>Staging touches neither the slots nor the controller.\<close>

lemma stage_only: "stage a side u = (ok, v) \<Longrightarrow>
  cu_slots v = cu_slots u \<and> cu_at v = cu_at u \<and> cu_hw v = cu_hw u \<and> cu_visible v = cu_visible u \<and> cu_x v = cu_x u \<and>
  cu_y v = cu_y u \<and> cu_image_flags v = cu_image_flags u \<and> cu_image_id v = cu_image_id u"
  by (auto simp: stage_def Let_def split: if_splits option.splits)

lemma sprite_words_only:
  assumes "sprite_words a width height stride_px u = (got, v)"
  shows "cu_slots v = cu_slots u \<and> cu_at v = cu_at u \<and> cu_hw v = cu_hw u \<and> cu_visible v = cu_visible u \<and> cu_x v = cu_x u \<and>
    cu_y v = cu_y u \<and> cu_image_flags v = cu_image_flags u \<and> cu_image_id v = cu_image_id u \<and>
    (\<forall>words stride. got = Some (words, stride) \<longrightarrow> ca_copied a = Some words \<or> ca_locked a = Some words)"
proof -
  have "LinearizeLocked a width height u = (got, v) \<Longrightarrow> ?thesis"
    by (auto simp: LinearizeLocked_def Let_def dest: stage_only split: if_splits option.splits prod.splits)
  then show ?thesis using assms by (auto simp: sprite_words_def split: if_splits option.splits prod.splits)
qed

lemma upload_into_spec:
  assumes u: "cursor_ok u" and side: "SideFor width height = Some side"
    and up: "upload_into a (1 - cu_at u) b side width height stride_px kind u = (ok, v)"
  shows "cursor_ok v \<and> shown_alike u v \<and> (if ok then turned_to a width height kind u v else same_sprite u v)"
proof -
  let ?k = "1 - cu_at u"
  let ?u0 = "set_slot ?k \<lparr>ss_buffer = Some b, ss_side = side\<rparr> u"
  have k: "?k \<noteq> cu_at u" "?k < 2" "length (cu_slots u) = 2" using u other_slot by (simp_all add: cursor_ok_def)
  obtain got w where sw: "sprite_words a width height stride_px ?u0 = (got, w)" by fastforce
  note only = sprite_words_only [OF sw]
  have w: "cursor_ok w \<and> same_sprite u w \<and> shown_alike u w"
    using set_other_slot [OF u, of "\<lparr>ss_buffer = Some b, ss_side = side\<rparr>"] only k(1) unfolding cursor_defs by simp
  show ?thesis
  proof (cases got)
    case None
    then show ?thesis using up sw w by (simp add: upload_into_def)
  next
    case (Some g)
    obtain words stride where g: "got = Some (words, stride)" using Some by (cases g) auto
    let ?b = "b\<lparr>zb_rows := sprite_rows side width height words stride\<rparr>"
    let ?s = "\<lparr>ss_buffer = Some ?b, ss_side = side\<rparr>"
    let ?w = "set_slot ?k ?s w"
    have at: "cu_at w = cu_at u" "length (cu_slots w) = 2" "cu_slots w ! cu_at u = cu_slots u ! cu_at u"
      using w by (simp_all add: cursor_defs)
    have w2: "cursor_ok ?w \<and> same_sprite u ?w \<and> shown_alike u ?w"
      using set_other_slot [of w ?s] w at(1) same_sprite_trans [of u w ?w] shown_alike_trans [of u w ?w] by simp
    show ?thesis
    proof (cases "ca_image a \<and> hw_lit (cu_hw ?w)")
      case False
      then have "SetCursorImage a (zb_fd b) (side, kind) ?w = (False, ?w)" by (simp only: SetCursorImage_def if_False)
      then have "\<not> ok \<and> v = ?w" using up sw g by (simp add: upload_into_def Let_def)
      then show ?thesis using w2 by simp
    next
      case True
      then have v: "ok" "v = ?w\<lparr>cu_hw := (cu_hw ?w)\<lparr>hw_image := Some (zb_fd b, side, kind)\<rparr>, cu_at := ?k,
          cu_image_flags := (side, kind), cu_uploads := cu_uploads ?w + 1\<rparr>"
        using up sw g by (auto simp: upload_into_def Let_def SetCursorImage_def)
      have sl: "cu_slots ?w ! ?k = ?s" "cu_slots ?w ! cu_at u = cu_slots u ! cu_at u" "length (cu_slots ?w) = 2"
        using k at by simp_all
      have "cursor_ok v" using v(2) sl k(2) by (simp add: cursor_ok_def)
      moreover have "shown_alike u v" using v(2) w2 by (simp add: shown_alike_def)
      moreover have "turned_to a width height kind u v"
        using v(2) sl side only g by (auto simp: turned_to_def)
      ultimately show ?thesis using v(1) by simp
    qed
  qed
qed

lemma UploadLocked_spec:
  assumes u: "cursor_ok u" and up: "UploadLocked a width height stride_px kind u = Some (ok, v)"
  shows "cursor_ok v \<and> shown_alike u v \<and> (if ok then turned_to a width height kind u v else same_sprite u v)"
proof -
  have here: "cursor_ok u \<and> shown_alike u u \<and> same_sprite u u" using u by (simp add: cursor_defs)
  note off = set_other_slot [OF u, of no_slot]
  show ?thesis
  proof (cases "SideFor width height")
    case None
    then show ?thesis using up here by (auto simp: UploadLocked_def split: if_splits)
  next
    case (Some side)
    note into = upload_into_spec [OF u Some]
    have "\<not> ok \<and> v = u \<or> \<not> ok \<and> v = set_slot (1 - cu_at u) no_slot u \<or>
        (\<exists>b. upload_into a (1 - cu_at u) b side width height stride_px kind u = (ok, v))"
      using up Some by (auto simp: UploadLocked_def Let_def split: if_splits option.splits)
    then show ?thesis using here off into by fastforce
  qed
qed

lemma PointLocked_spec:
  assumes "PointLocked a x y visible u = (ok, v)"
  shows "(cursor_ok u \<longrightarrow> cursor_ok v) \<and> same_sprite u v \<and> cu_visible v = cu_visible u \<and> cu_x v = cu_x u \<and> cu_y v = cu_y u \<and>
    cu_slots v = cu_slots u \<and> cu_image_id v = cu_image_id u \<and> hw_lit (cu_hw v) = hw_lit (cu_hw u) \<and>
    hw_visible (cu_hw v) = (if ok then visible else hw_visible (cu_hw u)) \<and>
    hw_x (cu_hw v) = (if ok then clamp16 x else hw_x (cu_hw u)) \<and> hw_y (cu_hw v) = (if ok then clamp16 y else hw_y (cu_hw u)) \<and> ok = (ca_point a \<and> hw_lit (cu_hw u))"
  using assms by (auto simp: PointLocked_def cursor_defs split: if_splits)

lemma refused_alike [simp]:
  "cursor_ok (u\<lparr>cu_refused := n\<rparr>) = cursor_ok u" "same_sprite u (v\<lparr>cu_refused := n\<rparr>) = same_sprite u v"
  "turned_to a width height kind u (v\<lparr>cu_refused := n\<rparr>) = turned_to a width height kind u v"
  "shown_alike u (v\<lparr>cu_refused := n\<rparr>) = shown_alike u v"
  "cursor_ok (u\<lparr>cu_image_id := n\<rparr>) = cursor_ok u"
  "turned_to a width height kind u (v\<lparr>cu_image_id := n\<rparr>) = turned_to a width height kind u v"
  "cursor_ok (u\<lparr>cu_visible := t, cu_x := i, cu_y := j\<rparr>) = cursor_ok u"
  "same_sprite u (v\<lparr>cu_visible := t, cu_x := i, cu_y := j\<rparr>) = same_sprite u v"
  "turned_to a width height kind u (v\<lparr>cu_visible := t, cu_x := i, cu_y := j\<rparr>) = turned_to a width height kind u v"
  by (simp_all add: cursor_defs turned_to_def)

text \<open>The place a frame states: its own, or the unit's where the pointer has moved past it.\<close>

definition stated :: "bool \<Rightarrow> cursor_unit \<Rightarrow> int \<Rightarrow> int \<Rightarrow> int" where
  "stated fresh u held asked = (if \<not> fresh \<and> cu_visible u then held else asked)"

lemma Show_cases:
  assumes "Show a identity width height stride_px kind x y fresh u = Some (ok, v)"
  obtains (again) "ok" "v = u" "cu_visible u" "stated fresh u (cu_x u) x = cu_x u" "stated fresh u (cu_y u) y = cu_y u"
  | (refused) w where "UploadLocked a width height stride_px kind u = Some (False, w)" "\<not> ok"
      "v = w\<lparr>cu_refused := cu_refused w + 1\<rparr>"
  | (placed) w z where "w = u \<and> identity = cu_image_id u \<or>
        (\<exists>w0. UploadLocked a width height stride_px kind u = Some (True, w0) \<and> w = w0\<lparr>cu_image_id := identity\<rparr>)"
      "PointLocked a (stated fresh u (cu_x u) x) (stated fresh u (cu_y u) y) True w = (ok, z)"
      "v = (if ok then z\<lparr>cu_visible := True, cu_x := stated fresh u (cu_x u) x, cu_y := stated fresh u (cu_y u) y\<rparr>
            else z\<lparr>cu_refused := cu_refused z + 1\<rparr>)"
proof -
  define x2 where "x2 = stated fresh u (cu_x u) x"
  define y2 where "y2 = stated fresh u (cu_y u) y"
  define after where "after = (\<lambda>u1. case PointLocked a x2 y2 True u1 of
      (False, u2) \<Rightarrow> Some (False, u2\<lparr>cu_refused := cu_refused u2 + 1\<rparr>)
    | (True, u2) \<Rightarrow> Some (True, u2\<lparr>cu_visible := True, cu_x := x2, cu_y := y2\<rparr>))"
  have step: thesis if "w = u \<and> identity = cu_image_id u \<or>
      (\<exists>w0. UploadLocked a width height stride_px kind u = Some (True, w0) \<and> w = w0\<lparr>cu_image_id := identity\<rparr>)"
    "after w = Some (ok, v)" for w
  proof -
    obtain o2 z where p: "PointLocked a x2 y2 True w = (o2, z)" by fastforce
    then have "ok = o2 \<and> v = (if ok then z\<lparr>cu_visible := True, cu_x := x2, cu_y := y2\<rparr> else z\<lparr>cu_refused := cu_refused z + 1\<rparr>)"
      using that(2) by (cases o2) (auto simp: after_def)
    then show thesis using placed [OF that(1), of z] p by (simp add: x2_def y2_def)
  qed
  consider "cu_visible u \<and> identity = cu_image_id u \<and> x2 = cu_x u \<and> y2 = cu_y u"
    | "\<not> (cu_visible u \<and> identity = cu_image_id u \<and> x2 = cu_x u \<and> y2 = cu_y u)" "identity \<noteq> cu_image_id u \<or> cu_image_id u = 0"
    | "\<not> (cu_visible u \<and> identity = cu_image_id u \<and> x2 = cu_x u \<and> y2 = cu_y u)" "\<not> (identity \<noteq> cu_image_id u \<or> cu_image_id u = 0)"
    by blast
  then show thesis
  proof cases
    case 1
    then show thesis using assms again by (auto simp: Show_def Let_def x2_def y2_def stated_def split: if_splits)
  next
    case 2
    then have sh: "(case map_option (\<lambda>(ok, u1). (ok, if ok then u1\<lparr>cu_image_id := identity\<rparr> else u1))
        (UploadLocked a width height stride_px kind u) of None \<Rightarrow> None
      | Some (False, u1) \<Rightarrow> Some (False, u1\<lparr>cu_refused := cu_refused u1 + 1\<rparr>) | Some (True, u1) \<Rightarrow> after u1) = Some (ok, v)"
      using assms by (simp only: Show_def Let_def stated_def [symmetric] x2_def [symmetric] y2_def [symmetric] after_def if_True if_False)
    show thesis
    proof (cases "UploadLocked a width height stride_px kind u")
      case (Some r)
      obtain l w where r: "r = (l, w)" by (cases r)
      show thesis
      proof (cases l)
        case True
        then show thesis using sh Some r step [of "w\<lparr>cu_image_id := identity\<rparr>"] by simp
      next
        case False
        then show thesis using sh Some r refused [of w] by simp
      qed
    qed (use sh in simp)
  next
    case 3
    then have "after u = Some (ok, v)"
      using assms by (simp only: Show_def Let_def stated_def [symmetric] x2_def [symmetric] y2_def [symmetric] after_def if_True if_False) simp
    then show thesis using step [of u] 3 by simp
  qed
qed


subsection \<open>The unit and the panel agree\<close>

text \<open>A panel put out forgets the cursor, and one lit again does not recall it.\<close>

definition panel_power :: "bool \<Rightarrow> cursor_unit \<Rightarrow> cursor_unit" where
  "panel_power powered u =
     (if powered then u\<lparr>cu_hw := (cu_hw u)\<lparr>hw_lit := True\<rparr>\<rparr>
      else u\<lparr>cu_hw := (cu_hw u)\<lparr>hw_lit := False, hw_image := None, hw_visible := False\<rparr>\<rparr>)"

text \<open>Of a pointer shown the unit has a sprite to state again, and on a lit panel it is where the unit thinks.\<close>

definition restatable :: "cursor_unit \<Rightarrow> bool" where
  "restatable u \<longleftrightarrow> (\<exists>b. cu_slots u ! cu_at u = \<lparr>ss_buffer = Some b, ss_side = fst (cu_image_flags u)\<rparr>)"

definition unit_held :: "cursor_unit \<Rightarrow> bool" where
  "unit_held u \<longleftrightarrow> cursor_ok u \<and>
     (cu_visible u \<longrightarrow> cu_image_id u \<noteq> 0) \<and> (cu_image_id u \<noteq> 0 \<longrightarrow> restatable u) \<and> (hw_visible (cu_hw u) \<longrightarrow> cu_visible u)"

definition unit_shown :: "cursor_unit \<Rightarrow> bool" where
  "unit_shown u \<longleftrightarrow> (hw_lit (cu_hw u) \<and> cu_visible u \<longrightarrow>
     hw_visible (cu_hw u) \<and> hw_x (cu_hw u) = clamp16 (cu_x u) \<and> hw_y (cu_hw u) = clamp16 (cu_y u))"

definition unit_ok :: "cursor_unit \<Rightarrow> bool" where "unit_ok u \<longleftrightarrow> unit_held u \<and> unit_shown u"

lemmas unit_defs = unit_ok_def unit_held_def unit_shown_def

lemma same_sprite_restatable: "same_sprite u v \<Longrightarrow> restatable v = restatable u"
  by (simp add: same_sprite_def restatable_def)

lemma turned_to_restatable: "cursor_ok v \<Longrightarrow> turned_to a width height kind u v \<Longrightarrow> restatable v"
  by (auto simp: turned_to_def cursor_ok_def restatable_def)

lemma restatable_alike [simp]:
  "restatable (u\<lparr>cu_image_id := n\<rparr>) = restatable u" "restatable (u\<lparr>cu_refused := n\<rparr>) = restatable u" "restatable (u\<lparr>cu_moves := n\<rparr>) = restatable u"
  "restatable (u\<lparr>cu_visible := t\<rparr>) = restatable u" "restatable (u\<lparr>cu_visible := t, cu_x := i, cu_y := j\<rparr>) = restatable u"
  "cursor_ok (u\<lparr>cu_visible := t\<rparr>) = cursor_ok u" "restatable (u\<lparr>cu_hw := h\<rparr>) = restatable u"
  by (simp_all add: restatable_def cursor_ok_def)

lemma UploadLocked_unit:
  assumes u: "unit_ok u" and up: "UploadLocked a width height stride_px kind u = Some (ok, v)"
  shows "unit_ok v \<and> (ok \<longrightarrow> restatable v) \<and> shown_alike u v"
proof -
  have "cursor_ok u" using u by (simp add: unit_defs)
  note s = UploadLocked_spec [OF this up]
  have b: "ok \<Longrightarrow> restatable v" "\<not> ok \<Longrightarrow> restatable v = restatable u"
    using s turned_to_restatable same_sprite_restatable by (meson, meson)
  have "unit_held v" using s b u by (cases ok) (auto simp: unit_defs shown_alike_def)
  moreover have "unit_shown v" using s u by (simp add: unit_defs shown_alike_def)
  ultimately show ?thesis using s b by (simp add: unit_ok_def)
qed

lemma unit_refused [simp]: "unit_ok (u\<lparr>cu_refused := n\<rparr>) = unit_ok u" "unit_ok (u\<lparr>cu_moves := n\<rparr>) = unit_ok u"
  by (simp_all add: unit_defs cursor_ok_def)

lemma unit_named: "unit_ok u \<Longrightarrow> n \<noteq> 0 \<Longrightarrow> restatable u \<Longrightarrow> unit_ok (u\<lparr>cu_image_id := n\<rparr>)"
  by (simp add: unit_defs)

text \<open>A place stated to the controller, and then held by the unit if it was taken.\<close>

lemma unit_placed:
  assumes "unit_ok w" "cu_image_id w \<noteq> 0" "PointLocked a x y True w = (ok, z)"
  shows "unit_ok (if ok then z\<lparr>cu_visible := True, cu_x := x, cu_y := y\<rparr> else z)"
proof -
  note p = PointLocked_spec [OF assms(3)]
  have z: "restatable z" using assms(1,2) p same_sprite_restatable [of w z] by (simp add: unit_defs)
  show ?thesis
  proof (cases ok)
    case True
    then show ?thesis using assms(1,2) p z by (simp add: unit_defs)
  next
    case False
    then show ?thesis using assms(1) p z by (simp add: unit_defs)
  qed
qed

lemma Show_unit:
  assumes u: "unit_ok u" and s: "Show a identity width height stride_px kind x y fresh u = Some (ok, v)" and i: "identity \<noteq> 0"
  shows "unit_ok v \<and> cu_visible v = (ok \<or> cu_visible u) \<and> hw_lit (cu_hw v) = hw_lit (cu_hw u) \<and>
    (ok \<longrightarrow> cu_x v = stated fresh u (cu_x u) x \<and> cu_y v = stated fresh u (cu_y u) y)"
  using s
proof (cases rule: Show_cases)
  case again
  then show ?thesis using u by simp
next
  case (refused w)
  have "unit_ok w \<and> shown_alike u w" using UploadLocked_unit [OF u refused(1)] by simp
  then show ?thesis using refused(2,3) by (simp add: shown_alike_def)
next
  case (placed w z)
  have w: "unit_ok w \<and> cu_image_id w \<noteq> 0 \<and> cu_visible w = cu_visible u \<and> hw_lit (cu_hw w) = hw_lit (cu_hw u)"
    using placed(1)
  proof
    assume "w = u \<and> identity = cu_image_id u"
    then show ?thesis using u i by simp
  next
    assume "\<exists>w0. UploadLocked a width height stride_px kind u = Some (True, w0) \<and> w = w0\<lparr>cu_image_id := identity\<rparr>"
    then obtain w0 where w0: "UploadLocked a width height stride_px kind u = Some (True, w0)" "w = w0\<lparr>cu_image_id := identity\<rparr>"
      by blast
    have "unit_ok w0 \<and> restatable w0 \<and> shown_alike u w0"
      using UploadLocked_unit [OF u w0(1)] by simp
    then show ?thesis using unit_named [of w0 identity] i unfolding w0(2) by (simp add: shown_alike_def)
  qed
  have "unit_ok (if ok then z\<lparr>cu_visible := True, cu_x := stated fresh u (cu_x u) x, cu_y := stated fresh u (cu_y u) y\<rparr> else z)"
    using unit_placed [OF _ _ placed(2)] w by blast
  then have "unit_ok v" unfolding placed(3) by (cases ok) simp_all
  moreover have "cu_visible v = (ok \<or> cu_visible u) \<and> hw_lit (cu_hw v) = hw_lit (cu_hw u) \<and>
      (ok \<longrightarrow> cu_x v = stated fresh u (cu_x u) x \<and> cu_y v = stated fresh u (cu_y u) y)"
    using PointLocked_spec [OF placed(2)] w unfolding placed(3) by (cases ok) simp_all
  ultimately show ?thesis by blast
qed

lemma Move_unit: "unit_ok u \<Longrightarrow> unit_ok (Move a x y u) \<and> cu_visible (Move a x y u) = cu_visible u"
proof (cases "cu_visible u")
  case True
  assume u: "unit_ok u"
  obtain ok z where p: "PointLocked a x y True u = (ok, z)" by fastforce
  have "cu_image_id u \<noteq> 0" using u True by (simp add: unit_defs)
  from unit_placed [OF u this p] have z: "unit_ok (if ok then z\<lparr>cu_visible := True, cu_x := x, cu_y := y\<rparr> else z)" .
  have v: "cu_visible z" using PointLocked_spec [OF p] True by simp
  then have "z\<lparr>cu_visible := True, cu_x := x, cu_y := y\<rparr> = z\<lparr>cu_x := x, cu_y := y\<rparr>" by (cases z) simp
  then have "unit_ok (if ok then z\<lparr>cu_x := x, cu_y := y\<rparr> else z)" using z by metis
  then show ?thesis using v True by (cases ok) (simp_all add: Move_def p)
qed (simp add: Move_def)

lemma Hide_unit: "unit_ok u \<Longrightarrow> ca_point a \<Longrightarrow> hw_lit (cu_hw u) \<Longrightarrow> unit_ok (Hide a u) \<and> \<not> cu_visible (Hide a u)"
proof (cases "cu_visible u")
  case True
  assume u: "unit_ok u" "ca_point a" "hw_lit (cu_hw u)"
  obtain ok z where p: "PointLocked a 0 0 False u = (ok, z)" by fastforce
  note s = PointLocked_spec [OF p]
  have "restatable z = restatable u" using s same_sprite_restatable by blast
  then show ?thesis using u s True by (simp add: Hide_def p unit_defs)
qed (simp add: Hide_def)

lemma panel_power_unit: "unit_ok u \<Longrightarrow> unit_ok (panel_power False u) \<and> cu_visible (panel_power False u) = cu_visible u"
  by (simp add: unit_defs panel_power_def cursor_ok_def)

text \<open>A panel lit, and the pointer stated again if there is one.\<close>

lemma lit_unit: "unit_ok u \<Longrightarrow> \<not> cu_visible u \<Longrightarrow> unit_ok (panel_power True u)"
  by (simp add: unit_defs panel_power_def cursor_ok_def restatable_def)

lemma Rearm_unit:
  assumes "unit_ok u" "ca_image a" "ca_point a" "cu_visible u"
  shows "unit_ok (Rearm a (panel_power True u)) \<and> cu_visible (Rearm a (panel_power True u))"
proof -
  have i: "cu_image_id u \<noteq> 0" "cursor_ok u" using assms(1,4) by (simp_all add: unit_defs)
  obtain b where b: "cu_slots u ! cu_at u = \<lparr>ss_buffer = Some b, ss_side = fst (cu_image_flags u)\<rparr>"
    using assms(1) i by (auto simp: unit_defs restatable_def)
  have r: "Rearm a (panel_power True u) = u\<lparr>cu_hw := (cu_hw u)\<lparr>hw_lit := True,
      hw_image := Some (zb_fd b, fst (cu_image_flags u), snd (cu_image_flags u)), hw_x := clamp16 (cu_x u),
      hw_y := clamp16 (cu_y u), hw_visible := True\<rparr>\<rparr>"
    using assms(2-4) i b by (simp add: Rearm_def panel_power_def SetCursorImage_def PointLocked_def)
  show ?thesis using i b assms(4) unfolding r by (simp add: unit_defs cursor_ok_def restatable_def)
qed

subsection \<open>A first sprite\<close>

definition agreeing :: cursor_answers where
  "agreeing = \<lparr>ca_zone = (\<lambda>side grain. Some \<lparr>zb_fd = 9, zb_pitch = side * 4, zb_height = side, zb_size = 4096, zb_rows = []\<rparr>),
     ca_described = None, ca_copied = None, ca_locked = Some (\<lambda>_. 1), ca_image = True, ca_point = True\<rparr>"

definition lit_panel :: cursor_hw where
  "lit_panel = \<lparr>hw_lit = True, hw_image = None, hw_x = 0, hw_y = 0, hw_visible = False\<rparr>"

lemma new_cursor_ok: "hw_image hw = None \<Longrightarrow> cursor_ok (new_cursor engine hw)"
  by (simp add: cursor_ok_def new_cursor_def)

lemma first_sprite:
  "\<exists>v. Show agreeing 7 1 1 1 kind x y fresh (new_cursor True lit_panel) = Some (True, v) \<and>
     cu_visible v \<and> hw_visible (cu_hw v) \<and> hw_lit (cu_hw v) \<and> hw_image (cu_hw v) \<noteq> None \<and> cu_image_id v = 7 \<and> cu_engine v"
proof -
  have "SideFor 1 1 = Some 32" by (simp add: SideFor_def)
  then show ?thesis
    by (simp add: Show_def UploadLocked_def upload_into_def sprite_words_def SetCursorImage_def PointLocked_def set_slot_def
        new_cursor_def agreeing_def lit_panel_def no_slot_def Let_def)
qed


text \<open>A sprite that cannot be read, or has nowhere to go, is refused; what was shown stays shown.\<close>

definition refusing :: cursor_answers where
  "refusing = agreeing\<lparr>ca_zone := \<lambda>_ _. None, ca_locked := None\<rparr>"

lemma refused_sprite_stays:
  assumes "unit_ok u" "cu_engine u" "cu_image_id u = 7"
  shows "\<exists>v. Show refusing 8 1 1 1 kind x y True u = Some (False, v) \<and> cu_visible v = cu_visible u \<and>
    hw_visible (cu_hw v) = hw_visible (cu_hw u) \<and> hw_lit (cu_hw v) = hw_lit (cu_hw u)"
proof -
  have "SideFor 1 1 = Some 32" by (simp add: SideFor_def)
  then have "\<exists>w. UploadLocked refusing 1 1 1 kind u = Some (False, w)"
    using assms(2) by (simp add: UploadLocked_def upload_into_def sprite_words_def refusing_def agreeing_def Let_def split: option.split)
  then obtain w where w: "UploadLocked refusing 1 1 1 kind u = Some (False, w)" by blast
  then have "shown_alike u w" using UploadLocked_unit [OF assms(1)] by blast
  then show ?thesis using w assms(3) by (simp add: Show_def Let_def shown_alike_def)
qed

text \<open>On a device with no engine the first sprite is asked of an engine that is not there.\<close>

lemma no_engine_no_sprite:
  assumes "SideFor width height = Some side" "width \<le> stride_px"
  shows "Show a identity width height stride_px kind x y fresh (new_cursor False hw) = None"
proof -
  have "side \<noteq> 0" using assms(1) by (auto simp: SideFor_def split: if_splits)
  then have "UploadLocked a width height stride_px kind (new_cursor False hw) = None"
    using assms by (simp add: UploadLocked_def new_cursor_def no_slot_def Let_def)
  then show ?thesis by (simp add: Show_def new_cursor_def Let_def)
qed

end
