(* ===== verification/CursorWorld.thy ===== *)
theory CursorWorld
  imports MergeCommit CursorUnit
begin

text \<open>
  The pointer of a display: what the state manager keeps of it (\<open>cursor_shown_\<close>, the count of moves) against the
  unit and the controller, over any course of frames, moves and changes of power. In a calm course the
  controller takes what is hidden and what is stated again, and a pointer on the panel is not refused its
  next sprite; then the panel shows the pointer exactly with the frames that have one.
\<close>

subsection \<open>The steps\<close>

record pointer_world =
  pw_manager :: manager
  pw_cursor :: cursor_unit

definition show_ask :: "cursor_answers \<Rightarrow> cursor_ask \<Rightarrow> bool \<Rightarrow> cursor_unit \<Rightarrow> (bool \<times> cursor_unit) option" where
  "show_ask ca p fresh u = Show ca (ck_id p) (nat (ck_width p)) (nat (ck_height p)) (ck_stride_px p) (ck_premultiplied p)
     (ck_x p) (ck_y p) fresh u"

text \<open>The pointer's part of \<open>Execute\<close>, with the unit that hears of it.\<close>

definition frame_pointer :: "tegra_config \<Rightarrow> answered \<Rightarrow> cursor_answers \<Rightarrow> cursor_ask option \<Rightarrow> pointer_world \<Rightarrow> pointer_world option" where
  "frame_pointer c a ca ask w = (let m = pw_manager w; u = pw_cursor w in
     case ask of
       Some p \<Rightarrow> map_option (\<lambda>(ok, u2). \<lparr>pw_manager = point_cursor c (a\<lparr>an_show := \<lambda>_. ok\<rparr>) ask m, pw_cursor = u2\<rparr>)
                   (show_ask ca p (ck_seq p = tm_move_seq m) u)
     | None \<Rightarrow> Some \<lparr>pw_manager = point_cursor c a None m, pw_cursor = (if tm_cursor_shown m then Hide ca u else u)\<rparr>)"

definition power_pointer :: "answered \<Rightarrow> cursor_answers \<Rightarrow> bool \<Rightarrow> pointer_world \<Rightarrow> pointer_world" where
  "power_pointer a ca powered w =
     (let m = pw_manager w; u = pw_cursor w; (err, m2) = SetPowered a powered m;
          u1 = (if err \<noteq> 0 \<or> \<not> tm_active m \<and> \<not> powered then u else panel_power powered u)
      in \<lparr>pw_manager = m2, pw_cursor = (if err = 0 \<and> powered \<and> tm_cursor_shown m then Rearm ca u1 else u1)\<rparr>)"

definition calm_frame :: "cursor_answers \<Rightarrow> cursor_ask option \<Rightarrow> pointer_world \<Rightarrow> pointer_world \<Rightarrow> bool" where
  "calm_frame ca ask w v \<longleftrightarrow> (case ask of
     None \<Rightarrow> ca_point ca
   | Some p \<Rightarrow> ck_id p \<noteq> 0 \<and> (cu_visible (pw_cursor w) \<longrightarrow> tm_cursor_shown (pw_manager v)))"

inductive pointer_step :: "bool \<Rightarrow> tegra_config \<Rightarrow> pointer_world \<Rightarrow> pointer_world \<Rightarrow> bool" where
  ps_frame: "frame_pointer c a ca ask w = Some v \<Longrightarrow> hw_lit (cu_hw (pw_cursor w)) \<Longrightarrow> (calm \<Longrightarrow> calm_frame ca ask w v) \<Longrightarrow>
    pointer_step calm c w v"
| ps_move: "pointer_step calm c w \<lparr>pw_manager = MoveCursor c x y (pw_manager w), pw_cursor = Move ca x y (pw_cursor w)\<rparr>"
| ps_power: "(calm \<Longrightarrow> ca_image ca \<and> ca_point ca) \<Longrightarrow> pointer_step calm c w (power_pointer a ca powered w)"

inductive pointer_reach :: "bool \<Rightarrow> tegra_config \<Rightarrow> pointer_world \<Rightarrow> pointer_world \<Rightarrow> bool" for calm c w where
  pr_here: "pointer_reach calm c w w"
| pr_step: "pointer_reach calm c w v \<Longrightarrow> pointer_step calm c v u \<Longrightarrow> pointer_reach calm c w u"

definition pointer_start :: "manager \<Rightarrow> bool \<Rightarrow> pointer_world" where
  "pointer_start m engine = \<lparr>pw_manager = m, pw_cursor = new_cursor engine lit_panel\<rparr>"

subsection \<open>The panel, the unit and the manager agree\<close>

definition pointer_ok :: "pointer_world \<Rightarrow> bool" where
  "pointer_ok w \<longleftrightarrow> unit_ok (pw_cursor w) \<and> cu_visible (pw_cursor w) = tm_cursor_shown (pw_manager w)"

lemma pointer_ok_start: "\<not> tm_cursor_shown m \<Longrightarrow> pointer_ok (pointer_start m engine)"
  by (simp add: pointer_ok_def unit_defs pointer_start_def new_cursor_ok lit_panel_def)
    (simp add: new_cursor_def lit_panel_def)

lemma point_cursor_shown:
  "tc_cursor c \<Longrightarrow> tm_cursor_shown (point_cursor c a ask m) = (case ask of Some p \<Rightarrow> an_show a p | None \<Rightarrow> False)"
  by (auto simp: point_cursor_def tell_def split: option.splits)

lemma SetPowered_shown: "SetPowered a powered m = (err, m2) \<Longrightarrow> tm_cursor_shown m2 = tm_cursor_shown m"
  by (auto simp: SetPowered_def tell_def Let_def split: if_splits)

lemma frame_pointer_ok:
  assumes "tc_cursor c" "pointer_ok w" "frame_pointer c a ca ask w = Some v" "hw_lit (cu_hw (pw_cursor w))" "calm_frame ca ask w v"
  shows "pointer_ok v \<and> hw_lit (cu_hw (pw_cursor v)) \<and> (case ask of
     None \<Rightarrow> \<not> cu_visible (pw_cursor v)
   | Some p \<Rightarrow> tm_cursor_shown (pw_manager v) \<longrightarrow>
       cu_x (pw_cursor v) = stated (ck_seq p = tm_move_seq (pw_manager w)) (pw_cursor w) (cu_x (pw_cursor w)) (ck_x p) \<and>
       cu_y (pw_cursor v) = stated (ck_seq p = tm_move_seq (pw_manager w)) (pw_cursor w) (cu_y (pw_cursor w)) (ck_y p))"
proof (cases ask)
  case None
  have u: "unit_ok (pw_cursor w)" "cu_visible (pw_cursor w) = tm_cursor_shown (pw_manager w)"
    using assms(2) by (simp_all add: pointer_ok_def)
  have v: "v = \<lparr>pw_manager = point_cursor c a None (pw_manager w),
      pw_cursor = (if tm_cursor_shown (pw_manager w) then Hide ca (pw_cursor w) else pw_cursor w)\<rparr>"
    using assms(3) None by (simp add: frame_pointer_def Let_def)
  have "ca_point ca" using assms(5) None by (simp add: calm_frame_def)
  from Hide_unit [OF u(1) this assms(4)] show ?thesis
    using u assms(4) point_cursor_shown [OF assms(1), of a None] None
    by (auto simp: v pointer_ok_def Hide_def PointLocked_def)
next
  case (Some p)
  let ?fresh = "ck_seq p = tm_move_seq (pw_manager w)"
  obtain ok u2 where s: "show_ask ca p ?fresh (pw_cursor w) = Some (ok, u2)"
    "v = \<lparr>pw_manager = point_cursor c (a\<lparr>an_show := \<lambda>_. ok\<rparr>) ask (pw_manager w), pw_cursor = u2\<rparr>"
    using assms(3) Some by (auto simp: frame_pointer_def Let_def)
  have sh: "tm_cursor_shown (pw_manager v) = ok" using point_cursor_shown [OF assms(1)] Some by (simp add: s(2))
  have calm: "ck_id p \<noteq> 0" "cu_visible (pw_cursor w) \<longrightarrow> ok" using assms(5) Some sh by (simp_all add: calm_frame_def)
  have "unit_ok (pw_cursor w)" using assms(2) by (simp add: pointer_ok_def)
  from Show_unit [OF this s(1) [unfolded show_ask_def] calm(1)] show ?thesis
    using sh calm(2) assms(4) Some by (auto simp: pointer_ok_def s(2))
qed

lemma power_pointer_ok:
  assumes "pointer_ok w" "ca_image ca" "ca_point ca"
  shows "pointer_ok (power_pointer a ca powered w)"
proof -
  obtain err m2 where p: "SetPowered a powered (pw_manager w) = (err, m2)" by fastforce
  have u: "unit_ok (pw_cursor w)" "cu_visible (pw_cursor w) = tm_cursor_shown (pw_manager w)"
    using assms(1) by (simp_all add: pointer_ok_def)
  have m2: "tm_cursor_shown m2 = tm_cursor_shown (pw_manager w)" using SetPowered_shown [OF p] .
  have dark: "unit_ok (panel_power False (pw_cursor w)) \<and> cu_visible (panel_power False (pw_cursor w)) = cu_visible (pw_cursor w)"
    using panel_power_unit [OF u(1)] .
  have lit: "\<not> cu_visible (pw_cursor w) \<Longrightarrow> unit_ok (panel_power True (pw_cursor w))" using lit_unit [OF u(1)] .
  have "cu_visible (panel_power True (pw_cursor w)) = cu_visible (pw_cursor w)" by (simp add: panel_power_def)
  moreover have v: "power_pointer a ca powered w =
      (let u1 = (if err \<noteq> 0 \<or> \<not> tm_active (pw_manager w) \<and> \<not> powered then pw_cursor w else panel_power powered (pw_cursor w))
       in \<lparr>pw_manager = m2, pw_cursor = (if err = 0 \<and> powered \<and> tm_cursor_shown (pw_manager w) then Rearm ca u1 else u1)\<rparr>)"
    by (simp add: power_pointer_def Let_def p)
  ultimately show ?thesis
    using u m2 dark lit Rearm_unit [OF u(1) assms(2,3)] unfolding v by (cases powered) (simp_all add: Let_def pointer_ok_def)
qed

lemma pointer_step_ok:
  assumes "pointer_step True c w v" "tc_cursor c" "pointer_ok w"
  shows "pointer_ok v"
  using assms(1,3)
proof cases
  case (ps_frame a ca ask)
  then show ?thesis using frame_pointer_ok [OF assms(2,3) ps_frame(1,2)] by simp
next
  case (ps_move x y ca)
  then show ?thesis using assms(3) Move_unit [of "pw_cursor w" ca x y]
    by (auto simp: pointer_ok_def MoveCursor_def tell_def)
next
  case (ps_power ca a powered)
  then show ?thesis using power_pointer_ok [OF assms(3)] by simp
qed

lemma pointer_reach_ok: "pointer_reach True c w v \<Longrightarrow> tc_cursor c \<Longrightarrow> pointer_ok w \<Longrightarrow> pointer_ok v"
  by (induction rule: pointer_reach.induct) (auto intro: pointer_step_ok)


subsection \<open>A sprite refused\<close>

definition pointing :: "nat \<Rightarrow> nat \<Rightarrow> cursor_ask" where
  "pointing identity seq = \<lparr>ck_handle = 1, ck_id = identity, ck_width = 1, ck_height = 1, ck_stride_px = 1,
     ck_premultiplied = True, ck_x = 5, ck_y = 6, ck_seq = seq, ck_acquire = -1\<rparr>"

definition cursor_config :: tegra_config where
  "cursor_config = \<lparr>tc_engine = True, tc_governor = False, tc_cursor = True, tc_merge_cache = True, tc_partial = True,
     tc_worker_wanted = True, tc_cmu = False, tc_engine_reads = True, tc_forced_vic = -1\<rparr>"

lemma start_unit_ok: "unit_ok (new_cursor engine lit_panel)"
  by (simp add: unit_defs new_cursor_ok lit_panel_def) (simp add: new_cursor_def)

text \<open>The manager believes of a sprite refused that nothing is shown, and hides nothing when the pointer leaves;
  the sprite before it stays on the panel.\<close>

lemma refused_sprite_outlives_its_scene:
  assumes "\<not> tm_cursor_shown m"
  shows "\<exists>w v. pointer_reach False cursor_config (pointer_start m True) w \<and>
    frame_pointer cursor_config a agreeing None w = Some v \<and> hw_visible (cu_hw (pw_cursor v))"
proof -
  have c: "tc_cursor cursor_config" by (simp add: cursor_config_def)
  let ?p = "pointing 7 (tm_move_seq m)"
  obtain u1 where u1: "Show agreeing 7 1 1 1 True 5 6 True (new_cursor True lit_panel) = Some (True, u1)" "cu_visible u1"
    "hw_visible (cu_hw u1)" "hw_lit (cu_hw u1)" "cu_image_id u1 = 7" "cu_engine u1" using first_sprite by blast
  have ok1: "unit_ok u1" using Show_unit [OF start_unit_ok u1(1)] by simp
  let ?m1 = "point_cursor cursor_config (a\<lparr>an_show := \<lambda>_. True\<rparr>) (Some ?p) m"
  let ?w1 = "\<lparr>pw_manager = ?m1, pw_cursor = u1\<rparr>"
  have f1: "frame_pointer cursor_config a agreeing (Some ?p) (pointer_start m True) = Some ?w1"
    using u1(1) by (simp add: frame_pointer_def pointer_start_def show_ask_def pointing_def Let_def)
  let ?q = "pointing 8 (tm_move_seq ?m1)"
  obtain u2 where u2: "Show refusing 8 1 1 1 True 5 6 True u1 = Some (False, u2)" "hw_visible (cu_hw u2)" "hw_lit (cu_hw u2)"
    using refused_sprite_stays [OF ok1 u1(6,5), of True 5 6] u1(3,4) by auto
  let ?w2 = "\<lparr>pw_manager = point_cursor cursor_config (a\<lparr>an_show := \<lambda>_. False\<rparr>) (Some ?q) ?m1, pw_cursor = u2\<rparr>"
  have f2: "frame_pointer cursor_config a refusing (Some ?q) ?w1 = Some ?w2"
    using u2(1) by (simp add: frame_pointer_def show_ask_def pointing_def Let_def)
  have "hw_lit (cu_hw (pw_cursor (pointer_start m True)))" by (simp add: pointer_start_def new_cursor_def lit_panel_def)
  then have "pointer_step False cursor_config (pointer_start m True) ?w1" using f1 by (blast intro: ps_frame)
  moreover have "pointer_step False cursor_config ?w1 ?w2" using f2 u1(4) by (auto intro: ps_frame)
  ultimately have r: "pointer_reach False cursor_config (pointer_start m True) ?w2" by (blast intro: pr_here pr_step)
  have "\<not> tm_cursor_shown (pw_manager ?w2)" using point_cursor_shown [OF c] by simp
  then have "\<exists>v. frame_pointer cursor_config a agreeing None ?w2 = Some v \<and> pw_cursor v = u2"
    by (simp add: frame_pointer_def Let_def)
  then show ?thesis using r u2(2) by metis
qed


end
