(* ===== verification/Hotplug.thy ===== *)
theory Hotplug
  imports OrderedMap
begin

text \<open>
  hwc/Hwc, hwc2_device/DrmHwcTwo and HwcDisplay::SetPipeline: which displays there are, which
  pipeline drives each, and what the client is told of them. A pipeline is known by its address,
  which is the order its record is kept in. Whether \<open>HwcDisplay::Init\<close> succeeds is the answer of
  the display hardware: it is an argument of the definitions, by the number of the attempt. What
  \<open>Init\<close> and \<open>Deinit\<close> do to one display is in the frame cycle and the configurations.
\<close>

subsection \<open>State\<close>

type_synonym handle = "64 word"

definition kPrimaryDisplay :: handle where "kPrimaryDisplay = 0"

datatype display_status = kDisconnected | kConnected | kLinkTrainingFailed

record hp_display =
  hd_virtual :: bool
  hd_pipe :: "nat option"

record hwc =
  hw_displays :: "(handle, hp_display) omap"
  hw_handles :: "(nat, handle) omap"
  hw_queue :: "(handle, display_status) omap"
  hw_removal :: "handle list"
  hw_last :: handle
  hw_attempts :: nat
  hw_callback :: "bool \<times> bool"
  hw_told :: "handle \<Rightarrow> bool option"

text \<open>
  The callback is kept as whether its function and its data are there. \<open>hw_told\<close> is the client's
  own record: the last it has heard of a display since it registered.
\<close>

definition hwc_start :: hwc where
  "hwc_start = \<lparr>hw_displays = [], hw_handles = [], hw_queue = [], hw_removal = [],
     hw_last = kPrimaryDisplay, hw_attempts = 0, hw_callback = (False, False), hw_told = Map.empty\<rparr>"

definition IsInHeadlessMode :: "hp_display \<Rightarrow> bool" where
  "IsInHeadlessMode d \<longleftrightarrow> hd_pipe d = None"

subsection \<open>The queue of events\<close>

definition ScheduleHotplugEvent :: "handle \<Rightarrow> display_status \<Rightarrow> hwc \<Rightarrow> hwc" where
  "ScheduleHotplugEvent h st s = s\<lparr>hw_queue := om_put h st (hw_queue s)\<rparr>"

definition SendHotplugEventToClient :: "handle \<Rightarrow> display_status \<Rightarrow> hwc \<Rightarrow> hwc" where
  "SendHotplugEventToClient h st s =
     (if fst (hw_callback s) \<and> snd (hw_callback s)
      then s\<lparr>hw_told := (hw_told s)(h \<mapsto> st \<noteq> kDisconnected)\<rparr> else s)"

definition FlushHotplugEvents :: "hwc \<Rightarrow> hwc" where
  "FlushHotplugEvents s =
     fold (\<lambda>e. SendHotplugEventToClient (fst e) (snd e)) (hw_queue s) (s\<lparr>hw_queue := []\<rparr>)"

subsection \<open>Giving a display its pipeline\<close>

definition put_pipe :: "handle \<Rightarrow> nat option \<Rightarrow> hwc \<Rightarrow> hwc" where
  "put_pipe h p s = (case om_get (hw_displays s) h of
      None \<Rightarrow> s
    | Some d \<Rightarrow> s\<lparr>hw_displays := om_put h (d\<lparr>hd_pipe := p\<rparr>) (hw_displays s)\<rparr>)"

text \<open>The attempts after the first one, as many as are left.\<close>

fun try_again :: "(nat \<Rightarrow> bool) \<Rightarrow> nat \<Rightarrow> bool \<Rightarrow> nat \<Rightarrow> bool \<times> nat" where
  "try_again boot 0 success n = (success, n)"
| "try_again boot (Suc left) success n =
     (if success then (success, n) else try_again boot left (boot n) (Suc n))"

definition dl_SetPipeline :: "(nat \<Rightarrow> bool) \<Rightarrow> handle \<Rightarrow> nat option \<Rightarrow> hwc \<Rightarrow> hwc" where
  "dl_SetPipeline boot h p s0 =
     (let s = put_pipe h p s0 in
      case p of
        None \<Rightarrow> ScheduleHotplugEvent h (if h \<noteq> kPrimaryDisplay then kDisconnected else kConnected) s
      | Some _ \<Rightarrow>
          let n = hw_attempts s;
              s1 = (if h = kPrimaryDisplay then ScheduleHotplugEvent h kConnected s else s);
              (success, n2) = try_again boot 3 (boot n) (Suc n);
              s2 = s1\<lparr>hw_attempts := n2\<rparr>;
              s3 = (if \<not> success then put_pipe h None s2 else s2) in
          if h \<noteq> kPrimaryDisplay
          then ScheduleHotplugEvent h (if success then kConnected else kDisconnected) s3 else s3)"

subsection \<open>Attaching and detaching\<close>

definition primary_lit :: "hwc \<Rightarrow> bool" where
  "primary_lit s \<longleftrightarrow> (case om_get (hw_displays s) kPrimaryDisplay of
     None \<Rightarrow> False | Some d \<Rightarrow> \<not> IsInHeadlessMode d)"

definition new_display :: "handle \<Rightarrow> hwc \<Rightarrow> hwc" where
  "new_display h s = s\<lparr>hw_displays := om_put h \<lparr>hd_virtual = False, hd_pipe = None\<rparr> (hw_displays s)\<rparr>"

text \<open>A new handle is counted in 64 bits and kept in a variable of 32.\<close>

definition bind_handle :: "hwc \<Rightarrow> handle \<times> hwc" where
  "bind_handle s = (if primary_lit s
     then (ucast (ucast (hw_last s + 1) :: 32 word), s\<lparr>hw_last := hw_last s + 1\<rparr>)
     else (kPrimaryDisplay, s))"

definition BindDisplay :: "(nat \<Rightarrow> bool) \<Rightarrow> nat \<Rightarrow> hwc \<Rightarrow> bool \<times> hwc" where
  "BindDisplay boot p s =
     (if om_get (hw_handles s) p \<noteq> None then (False, s)
      else let (h, s1) = bind_handle s;
               s2 = (if om_get (hw_displays s1) h = None then new_display h s1 else s1);
               s3 = dl_SetPipeline boot h (Some p) s2 in
           (True, s3\<lparr>hw_handles := om_put p h (hw_handles s3)\<rparr>))"

definition UnbindDisplay :: "(nat \<Rightarrow> bool) \<Rightarrow> nat \<Rightarrow> hwc \<Rightarrow> bool \<times> hwc" where
  "UnbindDisplay boot p s = (case om_get (hw_handles s) p of
      None \<Rightarrow> (False, s)
    | Some h \<Rightarrow>
        let s1 = s\<lparr>hw_handles := om_del p (hw_handles s)\<rparr> in
        if om_get (hw_displays s1) h = None then (False, s1)
        else let s2 = dl_SetPipeline boot h None s1 in
             (True, if h \<noteq> kPrimaryDisplay then s2\<lparr>hw_removal := hw_removal s2 @ [h]\<rparr> else s2))"

text \<open>The three parts of \<open>FinalizeDisplayBinding\<close>, in its order.\<close>

definition ensure_primary :: "(nat \<Rightarrow> bool) \<Rightarrow> hwc \<Rightarrow> hwc" where
  "ensure_primary boot s = (if om_get (hw_displays s) kPrimaryDisplay = None
     then dl_SetPipeline boot kPrimaryDisplay None (new_display kPrimaryDisplay s) else s)"

definition reattach :: "(nat \<Rightarrow> bool) \<Rightarrow> hwc \<Rightarrow> hwc" where
  "reattach boot s = (if \<not> primary_lit s \<and> hw_handles s \<noteq> []
     then let p = fst (hd (hw_handles s)) in snd (BindDisplay boot p (snd (UnbindDisplay boot p s)))
     else s)"

definition retire_displays :: "hwc \<Rightarrow> hwc" where
  "retire_displays s = s\<lparr>hw_displays := fold om_del (hw_removal s) (hw_displays s), hw_removal := []\<rparr>"

definition FinalizeDisplayBinding :: "(nat \<Rightarrow> bool) \<Rightarrow> hwc \<Rightarrow> hwc" where
  "FinalizeDisplayBinding boot s = retire_displays (reattach boot (ensure_primary boot s))"

definition NotifyDisplayLinkStatus :: "nat \<Rightarrow> hwc \<Rightarrow> hwc" where
  "NotifyDisplayLinkStatus p s = (case om_get (hw_handles s) p of
      None \<Rightarrow> s | Some h \<Rightarrow> ScheduleHotplugEvent h kLinkTrainingFailed s)"

subsection \<open>Virtual displays\<close>

definition CreateVirtualDisplay :: "nat \<Rightarrow> nat \<Rightarrow> hwc \<Rightarrow> handle option \<times> hwc" where
  "CreateVirtualDisplay width height s = (None, s)"

definition DestroyVirtualDisplay :: "(nat \<Rightarrow> bool) \<Rightarrow> handle \<Rightarrow> hwc \<Rightarrow> bool \<times> hwc" where
  "DestroyVirtualDisplay boot h s = (case om_get (hw_displays s) h of
      None \<Rightarrow> (False, s)
    | Some d \<Rightarrow> if \<not> hd_virtual d then (False, s)
        else let s1 = dl_SetPipeline boot h None s in
             (True, s1\<lparr>hw_displays := om_del h (hw_displays s1)\<rparr>))"

subsection \<open>Opening the hardware\<close>

text \<open>
  What the hardware answers: nothing to drive, or for each connector the pipeline that could be
  built for it. \<open>getter\<close> says whether there is a way to read a buffer.
\<close>

record hardware =
  dv_getter :: bool
  dv_pipes :: "nat option list"

definition release_all :: "(nat \<Rightarrow> bool) \<Rightarrow> hwc \<Rightarrow> hwc" where
  "release_all boot s = FinalizeDisplayBinding boot
     (fold (\<lambda>p t. snd (UnbindDisplay boot p t)) (map fst (hw_handles s)) s)"

definition bind_all :: "(nat \<Rightarrow> bool) \<Rightarrow> nat option list \<Rightarrow> hwc \<Rightarrow> hwc" where
  "bind_all boot ps s =
     fold (\<lambda>c t. case c of None \<Rightarrow> t | Some p \<Rightarrow> snd (BindDisplay boot p t)) ps s"

definition hwc_Init :: "(nat \<Rightarrow> bool) \<Rightarrow> hardware option \<Rightarrow> hwc \<Rightarrow> bool \<times> hwc" where
  "hwc_Init boot dev s =
     (let s1 = release_all boot s in
      case dev of
        None \<Rightarrow> (False, s1)
      | Some d \<Rightarrow> if \<not> dv_getter d then (False, s1)
          else (True, FinalizeDisplayBinding boot (bind_all boot (dv_pipes d) s1)))"

definition DeinitDisplays :: "(nat \<Rightarrow> bool) \<Rightarrow> hwc \<Rightarrow> hwc" where
  "DeinitDisplays boot s = fold (\<lambda>h. dl_SetPipeline boot h None) (map fst (hw_displays s)) s"

text \<open>A client registers for hotplug with a function and data; without a function it leaves.\<close>

definition RegisterHotplug :: "(nat \<Rightarrow> bool) \<Rightarrow> hardware option \<Rightarrow> bool \<Rightarrow> bool \<Rightarrow> hwc \<Rightarrow> hwc" where
  "RegisterHotplug boot dev fn data s0 =
     (let s = s0\<lparr>hw_callback := (fn, data), hw_told := Map.empty\<rparr> in
      if fn then snd (hwc_Init boot dev s)
      else let s1 = DeinitDisplays boot s in
           s1\<lparr>hw_displays := om_del kPrimaryDisplay (hw_displays s1)\<rparr>)"

definition RegisterCallbackHook :: "(nat \<Rightarrow> bool) \<Rightarrow> hardware option \<Rightarrow> bool \<Rightarrow> bool \<Rightarrow> hwc \<Rightarrow> hwc" where
  "RegisterCallbackHook boot dev fn data s =
     FlushHotplugEvents (RegisterHotplug boot dev fn data s)"

subsection \<open>The displays said to be built in\<close>

function split_names :: "string \<Rightarrow> string list" where
  "split_names s =
     (let name = takeWhile (\<lambda>c. c \<noteq> CHR '','') s; rest = dropWhile (\<lambda>c. c \<noteq> CHR '','') s in
      (if name \<noteq> [] then [name] else []) @ (if rest = [] then [] else split_names (tl rest)))"
  by auto
termination
proof (relation "measure length", simp)
  fix s name rest :: string
  assume "rest = dropWhile (\<lambda>c. c \<noteq> CHR '','') s" "rest \<noteq> []"
  then have "length rest \<le> length s" "0 < length rest" by (simp_all add: length_dropWhile_le)
  then show "(tl rest, s) \<in> measure length" by (simp del: length_greater_0_conv)
qed

definition GetInternalDisplayNames :: "string \<Rightarrow> string set" where
  "GetInternalDisplayNames property_text = set (split_names property_text)"


text \<open>Names with no comma in them, put into one text and taken apart again, are the names.\<close>

fun join_names :: "string list \<Rightarrow> string" where
  "join_names [] = []"
| "join_names [n] = n"
| "join_names (n # ns) = n @ CHR '','' # join_names ns"

declare split_names.simps [simp del]

lemma split_names_last: "CHR '','' \<notin> set n \<Longrightarrow> split_names n = (if n = [] then [] else [n])"
proof -
  assume "CHR '','' \<notin> set n"
  then have "takeWhile (\<lambda>c. c \<noteq> CHR '','') n = n" "dropWhile (\<lambda>c. c \<noteq> CHR '','') n = []"
    by (auto simp: takeWhile_eq_all_conv)
  then show ?thesis by (subst split_names.simps) (simp only: Let_def, simp)
qed

lemma split_names_comma:
  "CHR '','' \<notin> set n \<Longrightarrow> split_names (n @ CHR '','' # s) = (if n = [] then [] else [n]) @ split_names s"
proof -
  assume "CHR '','' \<notin> set n"
  then have "takeWhile (\<lambda>c. c \<noteq> CHR '','') (n @ CHR '','' # s) = n"
    "dropWhile (\<lambda>c. c \<noteq> CHR '','') (n @ CHR '','' # s) = CHR '','' # s"
    by (auto simp: takeWhile_append dropWhile_append)
  then show ?thesis by (simp add: split_names.simps [of "n @ CHR '','' # s"] Let_def)
qed

text \<open>Empty names, which a stray comma makes, are dropped.\<close>

theorem internal_names_read:
  assumes "\<forall>n\<in>set ns. CHR '','' \<notin> set n"
  shows "GetInternalDisplayNames (join_names ns) = set ns - {[]}"
proof -
  have "split_names (join_names ns) = filter (\<lambda>n. n \<noteq> []) ns" using assms
    by (induction ns rule: join_names.induct)
      (simp_all add: split_names_last split_names_comma)
  then show ?thesis by (auto simp: GetInternalDisplayNames_def)
qed

subsection \<open>What drives each display, and what the client is to know\<close>

definition drives :: "hwc \<Rightarrow> handle \<Rightarrow> nat option" where
  "drives s h = (case om_get (hw_displays s) h of None \<Rightarrow> None | Some d \<Rightarrow> hd_pipe d)"

definition expects :: "hwc \<Rightarrow> handle \<Rightarrow> bool option" where
  "expects s h = (case om_get (hw_queue s) h of
     Some st \<Rightarrow> Some (st \<noteq> kDisconnected) | None \<Rightarrow> hw_told s h)"

definition listening :: "hwc \<Rightarrow> bool" where
  "listening s \<longleftrightarrow> hw_callback s = (True, True)"

text \<open>The displays are in order, none is virtual, and the queue is in order.\<close>

definition maps_ok :: "hwc \<Rightarrow> bool" where
  "maps_ok s \<longleftrightarrow> om_ok (hw_displays s) \<and> om_ok (hw_queue s) \<and>
     (\<forall>k d. om_get (hw_displays s) k = Some d \<longrightarrow> \<not> hd_virtual d)"

text \<open>
  The maps are in order, no display is virtual, a pipeline that drives a display is recorded as
  that display's, and a display up for removal has none.
\<close>

definition hwc_ok :: "hwc \<Rightarrow> bool" where
  "hwc_ok s \<longleftrightarrow> maps_ok s \<and> om_ok (hw_handles s) \<and>
     (\<forall>h p. drives s h = Some p \<longrightarrow> om_get (hw_handles s) p = Some h) \<and>
     (\<forall>h\<in>set (hw_removal s). h \<noteq> kPrimaryDisplay \<and> drives s h = None)"

definition truthful :: "hwc \<Rightarrow> bool" where
  "truthful s \<longleftrightarrow> (\<forall>h. h \<noteq> kPrimaryDisplay \<longrightarrow> (expects s h = Some True \<longleftrightarrow> drives s h \<noteq> None))"

lemma primary_lit_drives: "primary_lit s \<longleftrightarrow> drives s kPrimaryDisplay \<noteq> None"
  by (simp add: primary_lit_def drives_def IsInHeadlessMode_def split: option.split)

lemma hwc_okD:
  assumes "hwc_ok s"
  shows "om_ok (hw_displays s)" "om_ok (hw_handles s)" "om_ok (hw_queue s)"
    "om_get (hw_displays s) h = Some d \<Longrightarrow> \<not> hd_virtual d"
    "drives s h = Some p \<Longrightarrow> om_get (hw_handles s) p = Some h"
    "h \<in> set (hw_removal s) \<Longrightarrow> h \<noteq> kPrimaryDisplay \<and> drives s h = None"
  using assms by (auto simp: hwc_ok_def maps_ok_def)

lemma try_again_bound: "snd (try_again boot left success n) \<le> n + left"
  by (induction boot left success n rule: try_again.induct) auto

lemma put_pipe_simps [simp]:
  "hw_handles (put_pipe h p s) = hw_handles s" "hw_removal (put_pipe h p s) = hw_removal s"
  "hw_last (put_pipe h p s) = hw_last s" "hw_callback (put_pipe h p s) = hw_callback s"
  "hw_told (put_pipe h p s) = hw_told s" "hw_queue (put_pipe h p s) = hw_queue s"
  "hw_attempts (put_pipe h p s) = hw_attempts s"
  by (simp_all add: put_pipe_def split: option.split)

lemma ScheduleHotplugEvent_simps [simp]:
  "hw_displays (ScheduleHotplugEvent h st s) = hw_displays s"
  "hw_handles (ScheduleHotplugEvent h st s) = hw_handles s"
  "hw_removal (ScheduleHotplugEvent h st s) = hw_removal s"
  "hw_last (ScheduleHotplugEvent h st s) = hw_last s"
  "hw_callback (ScheduleHotplugEvent h st s) = hw_callback s"
  "hw_told (ScheduleHotplugEvent h st s) = hw_told s"
  "hw_attempts (ScheduleHotplugEvent h st s) = hw_attempts s"
  "drives (ScheduleHotplugEvent h st s) = drives s"
  by (simp_all add: ScheduleHotplugEvent_def drives_def fun_eq_iff)

lemma Schedule_maps: "maps_ok s \<Longrightarrow> maps_ok (ScheduleHotplugEvent h st s)"
  by (simp add: maps_ok_def ScheduleHotplugEvent_def om_ok_put)

lemma Schedule_expects:
  "maps_ok s \<Longrightarrow> expects (ScheduleHotplugEvent h st s) = (expects s)(h \<mapsto> st \<noteq> kDisconnected)"
  by (simp add: maps_ok_def expects_def ScheduleHotplugEvent_def om_get_put fun_eq_iff split: option.split)

lemma put_pipe_maps: "maps_ok s \<Longrightarrow> maps_ok (put_pipe h p s)"
  by (auto simp: maps_ok_def put_pipe_def om_ok_put om_get_put split: option.split)

lemma put_pipe_dom: "maps_ok s \<Longrightarrow> dom (om_get (hw_displays (put_pipe h p s))) = dom (om_get (hw_displays s))"
  by (auto simp: maps_ok_def put_pipe_def om_get_put split: option.splits)

lemma put_pipe_drives:
  "maps_ok s \<Longrightarrow> h \<in> dom (om_get (hw_displays s)) \<Longrightarrow> drives (put_pipe h p s) = (drives s)(h := p)"
  by (auto simp: maps_ok_def put_pipe_def om_get_put drives_def fun_eq_iff)

lemma put_pipe_expects [simp]: "expects (put_pipe h p s) = expects s"
  by (simp add: expects_def fun_eq_iff split: option.split)

lemma update_simps [simp]:
  "drives (s\<lparr>hw_attempts := n\<rparr>) = drives s" "expects (s\<lparr>hw_attempts := n\<rparr>) = expects s"
  "maps_ok (s\<lparr>hw_attempts := n\<rparr>) = maps_ok s"
  "drives (s\<lparr>hw_handles := m\<rparr>) = drives s" "expects (s\<lparr>hw_handles := m\<rparr>) = expects s"
  "maps_ok (s\<lparr>hw_handles := m\<rparr>) = maps_ok s"
  "drives (s\<lparr>hw_removal := l\<rparr>) = drives s" "expects (s\<lparr>hw_removal := l\<rparr>) = expects s"
  "maps_ok (s\<lparr>hw_removal := l\<rparr>) = maps_ok s"
  "drives (s\<lparr>hw_last := h\<rparr>) = drives s" "expects (s\<lparr>hw_last := h\<rparr>) = expects s"
  "maps_ok (s\<lparr>hw_last := h\<rparr>) = maps_ok s"
  "drives (s\<lparr>hw_callback := c\<rparr>) = drives s" "maps_ok (s\<lparr>hw_callback := c\<rparr>) = maps_ok s"
  "drives (s\<lparr>hw_told := f\<rparr>) = drives s" "maps_ok (s\<lparr>hw_told := f\<rparr>) = maps_ok s"
  by (simp_all add: drives_def expects_def maps_ok_def fun_eq_iff split: option.split)

lemma drives_absent: "om_get (hw_displays s) h = None \<Longrightarrow> drives s h = None"
  by (simp add: drives_def)

text \<open>A change of one display's pipeline, with what is queued for it.\<close>

definition repiped :: "handle \<Rightarrow> nat option \<Rightarrow> hwc \<Rightarrow> hwc \<Rightarrow> bool" where
  "repiped h q s t \<longleftrightarrow> drives t = (drives s)(h := q) \<and>
     expects t = (expects s)(h \<mapsto> h = kPrimaryDisplay \<or> q \<noteq> None) \<and>
     hw_handles t = hw_handles s \<and> hw_removal t = hw_removal s \<and> hw_last t = hw_last s \<and>
     hw_callback t = hw_callback s \<and> hw_told t = hw_told s \<and>
     dom (om_get (hw_displays t)) = dom (om_get (hw_displays s)) \<and>
     hw_attempts t \<le> hw_attempts s + 4 \<and> maps_ok t"

lemmas pipe_simps = Schedule_maps Schedule_expects put_pipe_maps put_pipe_dom put_pipe_drives

lemma SetPipeline_repiped:
  assumes ok: "maps_ok s" and h: "h \<in> dom (om_get (hw_displays s))"
  obtains q where "q = None \<or> q = p" "repiped h q s (dl_SetPipeline boot h p s)"
proof (cases p)
  case None
  have "repiped h None s (dl_SetPipeline boot h p s)"
    using ok h None by (simp add: repiped_def dl_SetPipeline_def pipe_simps)
  then show ?thesis using that None by blast
next
  case (Some a)
  obtain w n where wn: "try_again boot 3 (boot (hw_attempts s)) (Suc (hw_attempts s)) = (w, n)"
    by fastforce
  then have n: "n \<le> hw_attempts s + 4"
    using try_again_bound [of boot 3 "boot (hw_attempts s)" "Suc (hw_attempts s)"] by simp
  have "repiped h (if w then p else None) s (dl_SetPipeline boot h p s)"
    using ok h Some wn n
    by (cases w; cases "h = kPrimaryDisplay") (simp_all add: repiped_def dl_SetPipeline_def pipe_simps)
  moreover have "(if w then p else None) = None \<or> (if w then p else None) = p" by simp
  ultimately show ?thesis using that by blast
qed

lemma repiped_ok:
  assumes "hwc_ok s" "repiped h q s t" "q = None \<or> h \<notin> set (hw_removal s)"
    "\<And>p. q = Some p \<Longrightarrow> om_get (hw_handles s) p = Some h"
  shows "hwc_ok t"
  using assms by (auto simp: hwc_ok_def repiped_def split: if_splits)

subsection \<open>Attaching and detaching keep it\<close>

lemma Unbind_cases:
  assumes "hwc_ok s"
  obtains (absent) "om_get (hw_handles s) p = None" "UnbindDisplay boot p s = (False, s)"
  | (gone) h where "om_get (hw_handles s) p = Some h" "om_get (hw_displays s) h = None"
      "UnbindDisplay boot p s = (False, s\<lparr>hw_handles := om_del p (hw_handles s)\<rparr>)"
  | (detached) h t where "om_get (hw_handles s) p = Some h" "om_get (hw_displays s) h \<noteq> None"
      "repiped h None (s\<lparr>hw_handles := om_del p (hw_handles s)\<rparr>) t"
      "UnbindDisplay boot p s = (True, if h \<noteq> kPrimaryDisplay then t\<lparr>hw_removal := hw_removal t @ [h]\<rparr> else t)"
proof (cases "om_get (hw_handles s) p")
  case None
  then show ?thesis using absent by (simp add: UnbindDisplay_def)
next
  case (Some h)
  let ?s = "s\<lparr>hw_handles := om_del p (hw_handles s)\<rparr>"
  show ?thesis
  proof (cases "om_get (hw_displays s) h")
    case None
    then show ?thesis using Some gone by (simp add: UnbindDisplay_def)
  next
    case d: (Some d)
    have "maps_ok ?s" "h \<in> dom (om_get (hw_displays ?s))"
      using assms d by (auto simp: hwc_ok_def maps_ok_def)
    then obtain q where "q = None \<or> q = None" "repiped h q ?s (dl_SetPipeline boot h None ?s)"
      by (rule SetPipeline_repiped)
    then have "repiped h None ?s (dl_SetPipeline boot h None ?s)" by simp
    then show ?thesis using Some d by (intro detached) (simp_all add: UnbindDisplay_def Let_def)
  qed
qed

lemma Unbind_ok:
  assumes ok: "hwc_ok s"
  shows "hwc_ok (snd (UnbindDisplay boot p s))"
  using ok
proof (cases rule: Unbind_cases [where p = p and boot = boot])
  case (gone h)
  have "drives s k \<noteq> Some p" for k
    using hwc_okD(5) [OF ok, of k p] gone drives_absent [of s h] by auto
  then show ?thesis using ok gone by (auto simp: hwc_ok_def om_ok_del om_get_del)
next
  case (detached h t)
  let ?s = "s\<lparr>hw_handles := om_del p (hw_handles s)\<rparr>"
  have "drives t k = Some r \<Longrightarrow> om_get (hw_handles t) r = Some k" for k r
    using detached hwc_okD(5) [OF ok, of k r] hwc_okD(2) [OF ok]
    by (auto simp: repiped_def om_get_del split: if_splits)
  then show ?thesis using detached ok
    by (auto simp: hwc_ok_def repiped_def om_ok_del)
qed (use ok in simp)

lemma Unbind_handles:
  "hwc_ok s \<Longrightarrow> hw_handles (snd (UnbindDisplay boot p s)) = om_del p (hw_handles s)"
  by (cases rule: Unbind_cases [where p = p and boot = boot]) (auto simp: repiped_def om_del_absent om_get_None)

lemma Unbind_frame:
  assumes "hwc_ok s"
  shows "hw_callback (snd (UnbindDisplay boot p s)) = hw_callback s"
    "hw_told (snd (UnbindDisplay boot p s)) = hw_told s"
    "dom (om_get (hw_displays (snd (UnbindDisplay boot p s)))) = dom (om_get (hw_displays s))"
    "hw_last (snd (UnbindDisplay boot p s)) = hw_last s"
  using assms by (cases rule: Unbind_cases [where p = p and boot = boot]; auto simp: repiped_def)+

text \<open>Detaching tells the client of the display it took apart, and of no other.\<close>

lemma Unbind_expects:
  assumes "hwc_ok s"
  shows "drives (snd (UnbindDisplay boot p s)) k =
      (if om_get (hw_handles s) p = Some k then None else drives s k)"
    "expects (snd (UnbindDisplay boot p s)) k =
      (if om_get (hw_handles s) p = Some k \<and> om_get (hw_displays s) k \<noteq> None
       then Some (k = kPrimaryDisplay) else expects s k)"
  using assms by (cases rule: Unbind_cases [where p = p and boot = boot];
      auto simp: repiped_def drives_absent)+

lemma new_display_simps [simp]:
  "hw_handles (new_display h s) = hw_handles s" "hw_removal (new_display h s) = hw_removal s"
  "hw_last (new_display h s) = hw_last s" "hw_callback (new_display h s) = hw_callback s"
  "hw_told (new_display h s) = hw_told s" "hw_queue (new_display h s) = hw_queue s"
  "hw_attempts (new_display h s) = hw_attempts s" "expects (new_display h s) = expects s"
  by (simp_all add: new_display_def expects_def fun_eq_iff split: option.split)

lemma new_display_maps: "maps_ok s \<Longrightarrow> maps_ok (new_display h s)"
  by (auto simp: maps_ok_def new_display_def om_ok_put om_get_put)

lemma new_display_dom:
  "maps_ok s \<Longrightarrow> dom (om_get (hw_displays (new_display h s))) = insert h (dom (om_get (hw_displays s)))"
  by (simp add: maps_ok_def new_display_def om_get_put)

lemma new_display_drives:
  "maps_ok s \<Longrightarrow> om_get (hw_displays s) h = None \<Longrightarrow> drives (new_display h s) = drives s"
  by (auto simp: maps_ok_def new_display_def om_get_put drives_def fun_eq_iff)

text \<open>A display that is there, made if it was not.\<close>

definition with_display :: "handle \<Rightarrow> hwc \<Rightarrow> hwc" where
  "with_display h s = (if om_get (hw_displays s) h = None then new_display h s else s)"

lemma with_display_simps [simp]:
  "hw_handles (with_display h s) = hw_handles s" "hw_removal (with_display h s) = hw_removal s"
  "hw_last (with_display h s) = hw_last s" "hw_callback (with_display h s) = hw_callback s"
  "hw_told (with_display h s) = hw_told s" "hw_attempts (with_display h s) = hw_attempts s"
  "expects (with_display h s) = expects s"
  by (simp_all add: with_display_def)

lemma with_display_laws:
  assumes "maps_ok s"
  shows "maps_ok (with_display h s)" "drives (with_display h s) = drives s"
    "dom (om_get (hw_displays (with_display h s))) = insert h (dom (om_get (hw_displays s)))"
  using assms
  by (auto simp: with_display_def new_display_maps new_display_dom new_display_drives simp del: domIff)

lemma repiped_with_display:
  assumes "maps_ok s" "repiped h q (with_display h s) t"
  shows "drives t = (drives s)(h := q)" "expects t = (expects s)(h \<mapsto> h = kPrimaryDisplay \<or> q \<noteq> None)"
    "hw_handles t = hw_handles s" "hw_removal t = hw_removal s" "hw_last t = hw_last s"
    "hw_callback t = hw_callback s" "hw_told t = hw_told s" "maps_ok t"
    "dom (om_get (hw_displays t)) = insert h (dom (om_get (hw_displays s)))"
    "hw_attempts t \<le> hw_attempts s + 4"
  using assms(2) with_display_laws [OF assms(1), of h] by (simp_all add: repiped_def)

lemma bind_handle_laws:
  obtains h l where "bind_handle s = (h, s\<lparr>hw_last := l\<rparr>)" "\<not> primary_lit s \<Longrightarrow> h = kPrimaryDisplay"
proof (cases "primary_lit s")
  case False
  then have "bind_handle s = (kPrimaryDisplay, s\<lparr>hw_last := hw_last s\<rparr>)" by (simp add: bind_handle_def)
  then show ?thesis using that by blast
qed (use that in \<open>simp add: bind_handle_def\<close>)

lemma Bind_cases:
  assumes "hwc_ok s"
  obtains (taken) "om_get (hw_handles s) p \<noteq> None" "BindDisplay boot p s = (False, s)"
  | (attached) h q l t where "om_get (hw_handles s) p = None" "\<not> primary_lit s \<Longrightarrow> h = kPrimaryDisplay"
      "q = None \<or> q = Some p" "repiped h q (with_display h (s\<lparr>hw_last := l\<rparr>)) t"
      "BindDisplay boot p s = (True, t\<lparr>hw_handles := om_put p h (hw_handles s)\<rparr>)"
proof (cases "om_get (hw_handles s) p")
  case None
  obtain h l where b: "bind_handle s = (h, s\<lparr>hw_last := l\<rparr>)" "\<not> primary_lit s \<Longrightarrow> h = kPrimaryDisplay"
    by (rule bind_handle_laws) blast
  let ?s = "with_display h (s\<lparr>hw_last := l\<rparr>)"
  have m: "maps_ok (s\<lparr>hw_last := l\<rparr>)" using assms by (simp add: hwc_ok_def)
  obtain q where q: "q = None \<or> q = Some p" "repiped h q ?s (dl_SetPipeline boot h (Some p) ?s)"
    using SetPipeline_repiped [of ?s h "Some p" boot] with_display_laws [OF m, of h] by auto
  then have "hw_handles (dl_SetPipeline boot h (Some p) ?s) = hw_handles s"
    by (simp add: repiped_def)
  then show ?thesis
    using None b q by (intro attached [of h q l]) (simp_all add: BindDisplay_def with_display_def)
next
  case (Some h)
  then show ?thesis using taken by (simp add: BindDisplay_def)
qed

lemma Bind_ok:
  assumes ok: "hwc_ok s" and free: "hw_removal s = [] \<or> \<not> primary_lit s"
  shows "hwc_ok (snd (BindDisplay boot p s))"
  using ok
proof (cases rule: Bind_cases [where p = p and boot = boot])
  case (attached h q l t)
  have m: "maps_ok (s\<lparr>hw_last := l\<rparr>)" using ok by (simp add: hwc_ok_def)
  have t: "drives t = (drives s)(h := q)" "hw_removal t = hw_removal s" "maps_ok t"
    using repiped_with_display [OF m attached(4)] by simp_all
  have "h \<notin> set (hw_removal s)" using free attached(2) hwc_okD(6) [OF ok, of h] by auto
  moreover have "drives s k \<noteq> Some p" for k using hwc_okD(5) [OF ok, of k p] attached(1) by auto
  ultimately show ?thesis using attached(3,5) t ok hwc_okD(2,5) [OF ok]
    by (auto simp: hwc_ok_def om_ok_put om_get_put)
qed (use ok in simp)

lemma Bind_frame:
  assumes ok: "hwc_ok s"
  shows "hw_callback (snd (BindDisplay boot p s)) = hw_callback s \<and>
    hw_told (snd (BindDisplay boot p s)) = hw_told s \<and>
    hw_removal (snd (BindDisplay boot p s)) = hw_removal s \<and>
    om_get (hw_handles (snd (BindDisplay boot p s))) p \<noteq> None \<and>
    hw_attempts (snd (BindDisplay boot p s)) \<le> hw_attempts s + 4 \<and>
    dom (om_get (hw_displays s)) \<subseteq> dom (om_get (hw_displays (snd (BindDisplay boot p s))))"
  using ok
proof (cases rule: Bind_cases [where p = p and boot = boot])
  case (attached h q l t)
  have m: "maps_ok (s\<lparr>hw_last := l\<rparr>)" using ok by (simp add: hwc_ok_def)
  show ?thesis using repiped_with_display [OF m attached(4)] attached(5) hwc_okD(2) [OF ok]
    by (auto simp: om_get_put)
qed (auto simp: dom_def)

text \<open>Attaching tells the client of the display whether it came up, and of no other.\<close>

lemma Bind_truthful:
  assumes ok: "hwc_ok s" and tr: "truthful s"
  shows "truthful (snd (BindDisplay boot p s))"
  using ok
proof (cases rule: Bind_cases [where p = p and boot = boot])
  case (attached h q l t)
  have m: "maps_ok (s\<lparr>hw_last := l\<rparr>)" using ok by (simp add: hwc_ok_def)
  show ?thesis using repiped_with_display [OF m attached(4)] attached(5) tr
    by (auto simp: truthful_def)
qed (use tr in simp)

lemma Unbind_truthful:
  assumes ok: "hwc_ok s" and tr: "truthful s"
  shows "truthful (snd (UnbindDisplay boot p s))"
  using tr by (auto simp: truthful_def Unbind_expects [OF ok] dest: drives_absent)

subsection \<open>Finishing a cycle\<close>

lemma SetPipeline_none_attempts [simp]: "hw_attempts (dl_SetPipeline boot h None s) = hw_attempts s"
  by (simp add: dl_SetPipeline_def)

lemma Unbind_attempts: "hw_attempts (snd (UnbindDisplay boot p s)) = hw_attempts s"
  by (simp add: UnbindDisplay_def Let_def split: option.split)

lemma ensure_primary_cases:
  assumes "hwc_ok s"
  obtains (there) "om_get (hw_displays s) kPrimaryDisplay \<noteq> None" "ensure_primary boot s = s"
  | (made) "om_get (hw_displays s) kPrimaryDisplay = None"
      "repiped kPrimaryDisplay None (with_display kPrimaryDisplay s) (ensure_primary boot s)"
proof (cases "om_get (hw_displays s) kPrimaryDisplay")
  case None
  have m: "maps_ok s" using assms by (simp add: hwc_ok_def)
  let ?s = "with_display kPrimaryDisplay s"
  obtain q where "q = None \<or> q = None"
    "repiped kPrimaryDisplay q ?s (dl_SetPipeline boot kPrimaryDisplay None ?s)"
    using SetPipeline_repiped [of ?s kPrimaryDisplay None boot] with_display_laws [OF m, of kPrimaryDisplay]
    by auto
  then show ?thesis using None made by (simp add: ensure_primary_def with_display_def)
qed (use there in \<open>simp add: ensure_primary_def\<close>)

lemma ensure_primary_laws:
  assumes ok: "hwc_ok s"
  shows "hwc_ok (ensure_primary boot s)" "drives (ensure_primary boot s) = drives s"
    "hw_handles (ensure_primary boot s) = hw_handles s"
    "hw_callback (ensure_primary boot s) = hw_callback s" "hw_told (ensure_primary boot s) = hw_told s"
    "om_get (hw_displays (ensure_primary boot s)) kPrimaryDisplay \<noteq> None"
    "expects (ensure_primary boot s) = (if om_get (hw_displays s) kPrimaryDisplay = None
       then (expects s)(kPrimaryDisplay \<mapsto> True) else expects s)"
    "hw_removal (ensure_primary boot s) = hw_removal s"
    "hw_attempts (ensure_primary boot s) = hw_attempts s"
proof -
  have m: "maps_ok s" using ok by (simp add: hwc_ok_def)
  let ?t = "ensure_primary boot s"
  have "hwc_ok ?t \<and> drives ?t = drives s \<and> hw_handles ?t = hw_handles s \<and> hw_callback ?t = hw_callback s \<and>
    hw_told ?t = hw_told s \<and> om_get (hw_displays ?t) kPrimaryDisplay \<noteq> None \<and> hw_removal ?t = hw_removal s \<and>
    expects ?t = (if om_get (hw_displays s) kPrimaryDisplay = None
       then (expects s)(kPrimaryDisplay \<mapsto> True) else expects s)"
    using ok
  proof (cases rule: ensure_primary_cases [where boot = boot])
    case made
    note r = repiped_with_display [OF m made(2)]
    have "drives ?t = drives s" using r(1) drives_absent [OF made(1)] by auto
    moreover have "kPrimaryDisplay \<in> dom (om_get (hw_displays ?t))" using r(9) by simp
    ultimately show ?thesis using r(2-8) made(1) ok by (auto simp: hwc_ok_def)
  qed (use ok in auto)
  then show "hwc_ok ?t" "drives ?t = drives s" "hw_handles ?t = hw_handles s" "hw_callback ?t = hw_callback s"
    "hw_told ?t = hw_told s" "om_get (hw_displays ?t) kPrimaryDisplay \<noteq> None"
    "expects ?t = (if om_get (hw_displays s) kPrimaryDisplay = None
       then (expects s)(kPrimaryDisplay \<mapsto> True) else expects s)" "hw_removal ?t = hw_removal s"
    by simp_all
  show "hw_attempts ?t = hw_attempts s" by (simp add: ensure_primary_def)
qed

lemma om_get_del_all: "om_get (fold om_del hs m) k = (if k \<in> set hs then None else om_get m k)"
  by (induction hs arbitrary: m) (simp_all add: om_get_del)

lemma om_ok_del_all: "om_ok m \<Longrightarrow> om_ok (fold om_del hs m)"
  by (induction hs arbitrary: m) (simp_all add: om_ok_del)

lemma retire_displays_simps [simp]:
  "hw_handles (retire_displays s) = hw_handles s" "hw_removal (retire_displays s) = []" "hw_callback (retire_displays s) = hw_callback s"
  "hw_told (retire_displays s) = hw_told s" "hw_queue (retire_displays s) = hw_queue s" "hw_attempts (retire_displays s) = hw_attempts s"
  "expects (retire_displays s) = expects s"
  by (simp_all add: retire_displays_def expects_def fun_eq_iff split: option.split)

lemma retire_displays_drives: "hwc_ok s \<Longrightarrow> drives (retire_displays s) = drives s"
  by (auto simp: hwc_ok_def retire_displays_def drives_def om_get_del_all fun_eq_iff split: option.split)

lemma retire_displays_ok:
  assumes ok: "hwc_ok s"
  shows "hwc_ok (retire_displays s)"
proof -
  have "maps_ok (retire_displays s)"
    using ok by (auto simp: hwc_ok_def maps_ok_def retire_displays_def om_ok_del_all om_get_del_all split: if_splits)
  then show ?thesis using ok retire_displays_drives [OF ok] by (auto simp: hwc_ok_def)
qed

lemma retire_displays_primary:
  "hwc_ok s \<Longrightarrow> om_get (hw_displays (retire_displays s)) kPrimaryDisplay = om_get (hw_displays s) kPrimaryDisplay"
  by (auto simp: hwc_ok_def retire_displays_def om_get_del_all)

lemma retire_displays_truthful: "hwc_ok s \<Longrightarrow> truthful (retire_displays s) = truthful s"
  by (simp add: truthful_def retire_displays_drives)

text \<open>Moving a pipeline to the dark primary: a detach, then an attach that finds the primary dark.\<close>

lemma reattach_laws:
  assumes ok: "hwc_ok s"
  shows "hwc_ok (reattach boot s)" "truthful s \<Longrightarrow> truthful (reattach boot s)"
    "hw_callback (reattach boot s) = hw_callback s" "hw_told (reattach boot s) = hw_told s"
    "hw_attempts (reattach boot s) \<le> hw_attempts s + 4"
    "dom (om_get (hw_displays s)) \<subseteq> dom (om_get (hw_displays (reattach boot s)))"
proof -
  let ?p = "fst (hd (hw_handles s))"
  let ?u = "snd (UnbindDisplay boot ?p s)"
  have u: "hwc_ok ?u" using ok by (rule Unbind_ok)
  have dark: "\<not> primary_lit s \<Longrightarrow> \<not> primary_lit ?u"
    by (auto simp: primary_lit_drives Unbind_expects [OF ok])
  note b = Bind_frame [OF u, of boot ?p] and f = Unbind_frame [OF ok, of boot ?p]
  show "hwc_ok (reattach boot s)" using ok dark Bind_ok [OF u] by (simp add: reattach_def Let_def)
  show "truthful s \<Longrightarrow> truthful (reattach boot s)"
    using Bind_truthful [OF u Unbind_truthful [OF ok]] by (simp add: reattach_def Let_def)
  show "hw_callback (reattach boot s) = hw_callback s" "hw_told (reattach boot s) = hw_told s"
    "hw_attempts (reattach boot s) \<le> hw_attempts s + 4"
    "dom (om_get (hw_displays s)) \<subseteq> dom (om_get (hw_displays (reattach boot s)))"
    using b f Unbind_attempts [of boot ?p s] by (auto simp: reattach_def Let_def)
qed

lemma Finalize_laws:
  assumes ok: "hwc_ok s"
  shows "hwc_ok (FinalizeDisplayBinding boot s)"
    "truthful s \<Longrightarrow> truthful (FinalizeDisplayBinding boot s)"
    "hw_callback (FinalizeDisplayBinding boot s) = hw_callback s"
    "hw_told (FinalizeDisplayBinding boot s) = hw_told s"
    "hw_removal (FinalizeDisplayBinding boot s) = []"
    "hw_attempts (FinalizeDisplayBinding boot s) \<le> hw_attempts s + 4"
    "om_get (hw_displays (FinalizeDisplayBinding boot s)) kPrimaryDisplay \<noteq> None"
proof -
  note e = ensure_primary_laws [OF ok, of boot]
  note r = reattach_laws [OF e(1), of boot]
  have "truthful s \<Longrightarrow> truthful (ensure_primary boot s)" using e by (simp add: truthful_def)
  then show "truthful s \<Longrightarrow> truthful (FinalizeDisplayBinding boot s)"
    using r(2) by (simp add: FinalizeDisplayBinding_def retire_displays_truthful [OF r(1)])
  show "hwc_ok (FinalizeDisplayBinding boot s)"
    using retire_displays_ok [OF r(1)] by (simp add: FinalizeDisplayBinding_def)
  show "om_get (hw_displays (FinalizeDisplayBinding boot s)) kPrimaryDisplay \<noteq> None"
    using r(6) e(6) by (auto simp: FinalizeDisplayBinding_def retire_displays_primary [OF r(1)])
  show "hw_callback (FinalizeDisplayBinding boot s) = hw_callback s"
    "hw_told (FinalizeDisplayBinding boot s) = hw_told s"
    "hw_removal (FinalizeDisplayBinding boot s) = []"
    "hw_attempts (FinalizeDisplayBinding boot s) \<le> hw_attempts s + 4"
    using e r by (simp_all add: FinalizeDisplayBinding_def)
qed

text \<open>With no pipeline recorded, all that is left to do is the primary and the removals.\<close>

lemma Finalize_bare:
  assumes ok: "hwc_ok s" and bare: "hw_handles s = []"
  shows "hw_handles (FinalizeDisplayBinding boot s) = []"
    "drives (FinalizeDisplayBinding boot s) = drives s"
    "expects (FinalizeDisplayBinding boot s) = (if om_get (hw_displays s) kPrimaryDisplay = None
       then (expects s)(kPrimaryDisplay \<mapsto> True) else expects s)"
    "hw_attempts (FinalizeDisplayBinding boot s) = hw_attempts s"
proof -
  note e = ensure_primary_laws [OF ok, of boot]
  have "FinalizeDisplayBinding boot s = retire_displays (ensure_primary boot s)"
    using e(3) bare by (simp add: FinalizeDisplayBinding_def reattach_def)
  then show "hw_handles (FinalizeDisplayBinding boot s) = []"
    "drives (FinalizeDisplayBinding boot s) = drives s"
    "expects (FinalizeDisplayBinding boot s) = (if om_get (hw_displays s) kPrimaryDisplay = None
       then (expects s)(kPrimaryDisplay \<mapsto> True) else expects s)"
    "hw_attempts (FinalizeDisplayBinding boot s) = hw_attempts s"
    using e bare by (simp_all add: retire_displays_drives)
qed

subsection \<open>Letting go of everything\<close>

definition unbind_all :: "(nat \<Rightarrow> bool) \<Rightarrow> nat list \<Rightarrow> hwc \<Rightarrow> hwc" where
  "unbind_all boot ps s = fold (\<lambda>p t. snd (UnbindDisplay boot p t)) ps s"

lemma unbind_all_laws:
  assumes "hwc_ok s"
  shows "hwc_ok (unbind_all boot ps s) \<and>
    om_keys (hw_handles (unbind_all boot ps s)) = om_keys (hw_handles s) - set ps \<and>
    hw_callback (unbind_all boot ps s) = hw_callback s \<and> hw_told (unbind_all boot ps s) = hw_told s \<and>
    hw_attempts (unbind_all boot ps s) = hw_attempts s \<and>
    dom (om_get (hw_displays (unbind_all boot ps s))) = dom (om_get (hw_displays s)) \<and>
    expects (unbind_all boot ps s) = (\<lambda>k. if om_get (hw_displays s) k \<noteq> None \<and>
       (\<exists>p\<in>set ps. om_get (hw_handles s) p = Some k) then Some (k = kPrimaryDisplay) else expects s k)"
  using assms
proof (induction ps arbitrary: s)
  case (Cons p ps)
  let ?u = "snd (UnbindDisplay boot p s)"
  have u: "hwc_ok ?u" using Cons.prems by (rule Unbind_ok)
  have eq: "unbind_all boot (p # ps) s = unbind_all boot ps ?u" by (simp add: unbind_all_def)
  have k: "om_keys (hw_handles ?u) = om_keys (hw_handles s) - {p}"
    by (auto simp: Unbind_handles [OF Cons.prems] om_keys_def om_del_def)
  have d: "om_get (hw_displays ?u) k = None \<longleftrightarrow> om_get (hw_displays s) k = None" for k
    using Unbind_frame(3) [OF Cons.prems, of boot p] by (metis domIff)
  have g: "om_get (hw_handles ?u) q = (if q = p then None else om_get (hw_handles s) q)" for q
    by (simp add: Unbind_handles [OF Cons.prems] om_get_del)
  show ?case
    using Cons.IH [OF u] k Unbind_frame [OF Cons.prems, of boot p] Unbind_attempts [of boot p s]
    unfolding eq by (auto simp: d g Unbind_expects [OF Cons.prems] fun_eq_iff)
qed (simp add: unbind_all_def)

text \<open>After that nothing is recorded and nothing is driven.\<close>

lemma release_all_laws:
  assumes ok: "hwc_ok s"
  shows "hwc_ok (release_all boot s)" "hw_handles (release_all boot s) = []" "drives (release_all boot s) = Map.empty"
    "hw_callback (release_all boot s) = hw_callback s" "hw_told (release_all boot s) = hw_told s"
    "hw_removal (release_all boot s) = []" "hw_attempts (release_all boot s) = hw_attempts s"
    "om_get (hw_displays (release_all boot s)) kPrimaryDisplay \<noteq> None"
    "expects (release_all boot s) = (\<lambda>k. if k = kPrimaryDisplay \<and> om_get (hw_displays s) k = None then Some True
       else if om_get (hw_displays s) k \<noteq> None \<and> (\<exists>p. om_get (hw_handles s) p = Some k)
       then Some (k = kPrimaryDisplay) else expects s k)"
proof -
  let ?ps = "map fst (hw_handles s)"
  let ?u = "unbind_all boot ?ps s"
  note u = unbind_all_laws [OF ok, of boot ?ps]
  have eq: "release_all boot s = FinalizeDisplayBinding boot ?u" by (simp add: release_all_def unbind_all_def)
  have "om_keys (hw_handles ?u) = {}" using u by (simp add: om_keys_def)
  then have bare: "hw_handles ?u = []" by (simp add: om_keys_def)
  have uo: "hwc_ok ?u" using u by simp
  note fb = Finalize_bare [OF uo bare, of boot] and fl = Finalize_laws [OF uo, of boot]
  have none: "drives ?u h = None" for h
    using hwc_okD(5) [OF uo, of h] bare by (cases "drives ?u h") (auto simp: om_get_def)
  have ex: "(\<exists>p\<in>set ?ps. om_get (hw_handles s) p = Some k) \<longleftrightarrow> (\<exists>p. om_get (hw_handles s) p = Some k)" for k
    using om_get_in [of "hw_handles s" _ k] by force
  have uf: "hw_callback ?u = hw_callback s" "hw_told ?u = hw_told s" "hw_attempts ?u = hw_attempts s"
    using u by blast+
  show "hwc_ok (release_all boot s)" "hw_handles (release_all boot s) = []" "hw_removal (release_all boot s) = []"
    "om_get (hw_displays (release_all boot s)) kPrimaryDisplay \<noteq> None"
    unfolding eq by (fact fl(1) fb(1) fl(5) fl(7))+
  show "drives (release_all boot s) = Map.empty"
    unfolding eq fb(2) using none by (rule ext)
  show "hw_callback (release_all boot s) = hw_callback s" "hw_told (release_all boot s) = hw_told s"
    "hw_attempts (release_all boot s) = hw_attempts s"
    unfolding eq fb(4) fl(3,4) by (fact uf)+
  have dn: "om_get (hw_displays ?u) k = None \<longleftrightarrow> om_get (hw_displays s) k = None" for k
  proof -
    have "dom (om_get (hw_displays ?u)) = dom (om_get (hw_displays s))" using u by blast
    then show ?thesis by blast
  qed
  have ue: "expects ?u = (\<lambda>k. if om_get (hw_displays s) k \<noteq> None \<and>
      (\<exists>p. om_get (hw_handles s) p = Some k) then Some (k = kPrimaryDisplay) else expects s k)"
    using u unfolding ex by blast
  show "expects (release_all boot s) = (\<lambda>k. if k = kPrimaryDisplay \<and> om_get (hw_displays s) k = None then Some True
       else if om_get (hw_displays s) k \<noteq> None \<and> (\<exists>p. om_get (hw_handles s) p = Some k)
       then Some (k = kPrimaryDisplay) else expects s k)"
    unfolding eq fb(3) ue by (rule ext) (auto simp: dn)
qed

subsection \<open>Opening the hardware\<close>

lemma bind_all_laws:
  assumes "hwc_ok s" "hw_removal s = []"
  shows "hwc_ok (bind_all boot ps s) \<and> hw_removal (bind_all boot ps s) = [] \<and>
    (truthful s \<longrightarrow> truthful (bind_all boot ps s)) \<and>
    hw_callback (bind_all boot ps s) = hw_callback s \<and> hw_told (bind_all boot ps s) = hw_told s \<and>
    hw_attempts (bind_all boot ps s) \<le> hw_attempts s + 4 * length ps"
  using assms
proof (induction ps arbitrary: s)
  case (Cons c ps)
  show ?case
  proof (cases c)
    case None
    then have "bind_all boot (c # ps) s = bind_all boot ps s" by (simp add: bind_all_def)
    then show ?thesis using Cons.IH [OF Cons.prems] by auto
  next
    case (Some p)
    let ?b = "snd (BindDisplay boot p s)"
    have eq: "bind_all boot (c # ps) s = bind_all boot ps ?b" using Some by (simp add: bind_all_def)
    have b: "hwc_ok ?b" using Cons.prems by (auto intro: Bind_ok)
    note f = Bind_frame [OF Cons.prems(1), of boot p]
    have "hw_removal ?b = []" using f Cons.prems by simp
    from Cons.IH [OF b this] show ?thesis
      unfolding eq using f Bind_truthful [OF Cons.prems(1), of boot p] by auto
  qed
qed (simp add: bind_all_def)

lemma Init_laws:
  assumes ok: "hwc_ok s" and quiet: "expects s = Map.empty"
  shows "hwc_ok (snd (hwc_Init boot dev s))" "truthful (snd (hwc_Init boot dev s))"
    "hw_removal (snd (hwc_Init boot dev s)) = []"
    "hw_callback (snd (hwc_Init boot dev s)) = hw_callback s"
    "om_get (hw_displays (snd (hwc_Init boot dev s))) kPrimaryDisplay \<noteq> None"
proof -
  note l = release_all_laws [OF ok, of boot]
  have tr: "truthful (release_all boot s)" using l(3,9) quiet by (simp add: truthful_def)
  have "hwc_ok (snd (hwc_Init boot dev s)) \<and> truthful (snd (hwc_Init boot dev s)) \<and>
    hw_removal (snd (hwc_Init boot dev s)) = [] \<and> hw_callback (snd (hwc_Init boot dev s)) = hw_callback s \<and>
    om_get (hw_displays (snd (hwc_Init boot dev s))) kPrimaryDisplay \<noteq> None"
  proof (cases "\<exists>d. dev = Some d \<and> dv_getter d")
    case True
    then obtain d where d: "dev = Some d" "dv_getter d" by blast
    note b = bind_all_laws [OF l(1,6), of boot "dv_pipes d"]
    show ?thesis using Finalize_laws [of "bind_all boot (dv_pipes d) (release_all boot s)" boot] b d tr l(4)
      by (simp add: hwc_Init_def)
  next
    case False
    then have "snd (hwc_Init boot dev s) = release_all boot s"
      by (auto simp: hwc_Init_def Let_def split: option.split)
    then show ?thesis using l tr by simp
  qed
  then show "hwc_ok (snd (hwc_Init boot dev s))" "truthful (snd (hwc_Init boot dev s))"
    "hw_removal (snd (hwc_Init boot dev s)) = []"
    "hw_callback (snd (hwc_Init boot dev s)) = hw_callback s"
    "om_get (hw_displays (snd (hwc_Init boot dev s))) kPrimaryDisplay \<noteq> None" by simp_all
qed

subsection \<open>The primary is announced once it is touched\<close>

text \<open>Nothing takes the announcement of the primary back.\<close>

lemma Unbind_keeps_primary:
  "hwc_ok s \<Longrightarrow> expects s kPrimaryDisplay = Some True \<Longrightarrow>
   expects (snd (UnbindDisplay boot p s)) kPrimaryDisplay = Some True"
  by (simp add: Unbind_expects)

lemma Bind_keeps_primary:
  assumes ok: "hwc_ok s"
  shows "expects s kPrimaryDisplay = Some True \<Longrightarrow>
      expects (snd (BindDisplay boot p s)) kPrimaryDisplay = Some True"
    "\<not> primary_lit s \<Longrightarrow> om_get (hw_handles s) p = None \<Longrightarrow>
      expects (snd (BindDisplay boot p s)) kPrimaryDisplay = Some True"
proof -
  have m: "maps_ok (s\<lparr>hw_last := l\<rparr>)" for l using ok by (simp add: hwc_ok_def)
  show "expects s kPrimaryDisplay = Some True \<Longrightarrow>
      expects (snd (BindDisplay boot p s)) kPrimaryDisplay = Some True"
    using ok by (cases rule: Bind_cases [where p = p and boot = boot]) (auto dest: repiped_with_display(2) [OF m])
  show "\<not> primary_lit s \<Longrightarrow> om_get (hw_handles s) p = None \<Longrightarrow>
      expects (snd (BindDisplay boot p s)) kPrimaryDisplay = Some True"
    using ok by (cases rule: Bind_cases [where p = p and boot = boot]) (auto dest: repiped_with_display(2) [OF m])
qed

lemma Finalize_keeps_primary:
  assumes ok: "hwc_ok s" and e: "expects s kPrimaryDisplay = Some True"
  shows "expects (FinalizeDisplayBinding boot s) kPrimaryDisplay = Some True"
proof -
  note p = ensure_primary_laws [OF ok, of boot]
  have "expects (ensure_primary boot s) kPrimaryDisplay = Some True" using p(7) e by simp
  then have "expects (reattach boot (ensure_primary boot s)) kPrimaryDisplay = Some True"
    using Bind_keeps_primary(1) [OF Unbind_ok [OF p(1)]] Unbind_keeps_primary [OF p(1)]
    by (simp add: reattach_def Let_def)
  then show ?thesis by (simp add: FinalizeDisplayBinding_def)
qed

lemma bind_all_primary:
  assumes "hwc_ok s" "hw_removal s = []"
    "expects s kPrimaryDisplay = Some True \<or>
     hw_handles s = [] \<and> drives s = Map.empty \<and> (\<exists>p. Some p \<in> set ps)"
  shows "expects (bind_all boot ps s) kPrimaryDisplay = Some True"
  using assms
proof (induction ps arbitrary: s)
  case (Cons c ps)
  show ?case
  proof (cases c)
    case None
    then have "bind_all boot (c # ps) s = bind_all boot ps s" by (simp add: bind_all_def)
    then show ?thesis using Cons.IH [OF Cons.prems(1,2)] Cons.prems(3) None by auto
  next
    case (Some p)
    let ?b = "snd (BindDisplay boot p s)"
    have eq: "bind_all boot (c # ps) s = bind_all boot ps ?b" using Some by (simp add: bind_all_def)
    have b: "hwc_ok ?b" using Cons.prems by (auto intro: Bind_ok)
    have r: "hw_removal ?b = []" using Bind_frame [OF Cons.prems(1), of boot p] Cons.prems by simp
    have "expects ?b kPrimaryDisplay = Some True"
      using Cons.prems(3) Bind_keeps_primary [OF Cons.prems(1), where p = p and boot = boot]
      by (auto simp: primary_lit_drives om_get_def)
    then show ?thesis unfolding eq using Cons.IH [OF b r] by simp
  qed
qed (simp add: bind_all_def)

lemma bind_all_none: "(\<forall>c\<in>set ps. c = None) \<Longrightarrow> bind_all boot ps s = s"
  by (induction ps) (simp_all add: bind_all_def)

subsection \<open>Handing the queue over\<close>

lemma send_all:
  assumes "om_ok q" "listening s"
  shows "fold (\<lambda>e. SendHotplugEventToClient (fst e) (snd e)) q s = s\<lparr>hw_told := (\<lambda>h. case om_get q h of
    Some st \<Rightarrow> Some (st \<noteq> kDisconnected) | None \<Rightarrow> hw_told s h)\<rparr>"
  using assms
proof (induction q arbitrary: s)
  case (Cons e q)
  obtain h st where e: "e = (h, st)" by fastforce
  let ?s = "s\<lparr>hw_told := (hw_told s)(h \<mapsto> st \<noteq> kDisconnected)\<rparr>"
  have "om_ok q" and new: "om_get q h = None"
    using Cons.prems(1) e by (auto simp: om_ok_def om_get_None om_keys_def)
  moreover have "listening ?s" using Cons.prems(2) by (simp add: listening_def)
  ultimately have "fold (\<lambda>e. SendHotplugEventToClient (fst e) (snd e)) q ?s = ?s\<lparr>hw_told := (\<lambda>k. case om_get q k of
    Some st \<Rightarrow> Some (st \<noteq> kDisconnected) | None \<Rightarrow> hw_told ?s k)\<rparr>" by (intro Cons.IH)
  moreover have "SendHotplugEventToClient h st s = ?s"
    using Cons.prems(2) by (simp add: SendHotplugEventToClient_def listening_def)
  ultimately show ?case using new e
    by (auto simp: om_get_def fun_eq_iff intro!: arg_cong [of _ _ "\<lambda>f. s\<lparr>hw_told := f\<rparr>"] split: option.split)
qed (simp add: om_get_def)

lemma send_none: "\<not> listening s \<Longrightarrow> fold (\<lambda>e. SendHotplugEventToClient (fst e) (snd e)) q s = s"
  by (induction q) (auto simp: SendHotplugEventToClient_def listening_def prod_eq_iff)

lemma Flush_eq:
  assumes "om_ok (hw_queue s)"
  shows "FlushHotplugEvents s =
    s\<lparr>hw_queue := [], hw_told := (if listening s then expects s else hw_told s)\<rparr>"
proof (cases "listening s")
  case True
  then have "listening (s\<lparr>hw_queue := []\<rparr>)" by (simp add: listening_def)
  from send_all [OF assms this] show ?thesis using True
    by (simp add: FlushHotplugEvents_def expects_def [abs_def] cong: option.case_cong)
next
  case False
  then have "\<not> listening (s\<lparr>hw_queue := []\<rparr>)" by (simp add: listening_def)
  from send_none [OF this] show ?thesis using False by (simp add: FlushHotplugEvents_def)
qed

text \<open>Between two calls nothing is queued and nothing is up for removal.\<close>

definition at_rest :: "hwc \<Rightarrow> bool" where
  "at_rest s \<longleftrightarrow> hwc_ok s \<and> hw_removal s = [] \<and> hw_queue s = [] \<and>
     (listening s \<longrightarrow> truthful s \<and> om_get (hw_displays s) kPrimaryDisplay \<noteq> None)"

lemma Flush_rest:
  assumes ok: "hwc_ok s" and "hw_removal s = []"
    "listening s \<longrightarrow> truthful s \<and> om_get (hw_displays s) kPrimaryDisplay \<noteq> None"
  shows "at_rest (FlushHotplugEvents s)"
proof -
  let ?t = "s\<lparr>hw_queue := [], hw_told := (if listening s then expects s else hw_told s)\<rparr>"
  have d: "drives ?t = drives s" by (simp add: drives_def fun_eq_iff)
  have m: "maps_ok ?t" using ok by (simp add: hwc_ok_def maps_ok_def om_ok_def)
  have "listening s \<Longrightarrow> expects ?t = expects s" by (simp add: expects_def fun_eq_iff om_get_def)
  moreover have "listening ?t = listening s" by (simp add: listening_def)
  ultimately show ?thesis unfolding Flush_eq [OF hwc_okD(3) [OF ok]]
    using d m assms by (auto simp: at_rest_def hwc_ok_def truthful_def)
qed

subsection \<open>A client that leaves\<close>

lemma Deinit_laws:
  assumes "hwc_ok s" "set hs \<subseteq> dom (om_get (hw_displays s))"
  shows "hwc_ok (fold (\<lambda>h. dl_SetPipeline boot h None) hs s) \<and>
    hw_removal (fold (\<lambda>h. dl_SetPipeline boot h None) hs s) = hw_removal s \<and>
    hw_callback (fold (\<lambda>h. dl_SetPipeline boot h None) hs s) = hw_callback s"
  using assms
proof (induction hs arbitrary: s)
  case (Cons h hs)
  have m: "maps_ok s" using Cons.prems by (simp add: hwc_ok_def)
  obtain q where "q = None \<or> q = None" "repiped h q s (dl_SetPipeline boot h None s)"
    using SetPipeline_repiped [OF m, of h None boot] Cons.prems by auto
  then have r: "repiped h None s (dl_SetPipeline boot h None s)" by simp
  then have "hwc_ok (dl_SetPipeline boot h None s)" using repiped_ok [OF Cons.prems(1) r] by simp
  from Cons.IH [OF this] show ?case using r Cons.prems by (simp add: repiped_def)
qed simp

lemma erase_primary_ok:
  assumes ok: "hwc_ok s"
  shows "hwc_ok (s\<lparr>hw_displays := om_del kPrimaryDisplay (hw_displays s)\<rparr>)"
proof -
  let ?t = "s\<lparr>hw_displays := om_del kPrimaryDisplay (hw_displays s)\<rparr>"
  have "drives ?t = (drives s)(kPrimaryDisplay := None)" by (simp add: drives_def om_get_del fun_eq_iff)
  moreover have "maps_ok ?t" using ok by (auto simp: hwc_ok_def maps_ok_def om_ok_del om_get_del split: if_splits)
  ultimately show ?thesis using ok by (auto simp: hwc_ok_def)
qed

lemma Register_rest:
  assumes "at_rest s"
  shows "at_rest (RegisterCallbackHook boot dev fn data s)"
proof (cases fn)
  case True
  let ?s = "s\<lparr>hw_callback := (fn, data), hw_told := Map.empty\<rparr>"
  have "hwc_ok ?s" using assms by (simp add: at_rest_def hwc_ok_def)
  moreover have "expects ?s = Map.empty" using assms by (simp add: at_rest_def expects_def fun_eq_iff om_get_def)
  ultimately show ?thesis using Init_laws [of ?s boot dev] True
    by (simp add: RegisterCallbackHook_def RegisterHotplug_def Flush_rest)
next
  case False
  let ?s = "s\<lparr>hw_callback := (fn, data), hw_told := Map.empty\<rparr>"
  let ?d = "DeinitDisplays boot ?s"
  have ok: "hwc_ok ?s" using assms by (simp add: at_rest_def hwc_ok_def)
  have sub: "set (map fst (hw_displays ?s)) \<subseteq> dom (om_get (hw_displays ?s))"
    using om_get_None [of "hw_displays ?s"] by (auto simp: om_keys_def)
  have "hwc_ok ?d \<and> hw_removal ?d = [] \<and> hw_callback ?d = (fn, data)"
    using Deinit_laws [OF ok sub, of boot] assms by (simp add: DeinitDisplays_def at_rest_def)
  then show ?thesis using False
    by (simp add: RegisterCallbackHook_def RegisterHotplug_def Let_def, intro Flush_rest)
      (auto simp: erase_primary_ok listening_def)
qed

subsection \<open>Any history\<close>

definition finish_cycle :: "(nat \<Rightarrow> bool) \<Rightarrow> hwc \<Rightarrow> hwc" where
  "finish_cycle boot s = FlushHotplugEvents (FinalizeDisplayBinding boot s)"

text \<open>
  The calls that reach the displays from outside. A pipeline that arrives or goes is a whole cycle
  of the binding interface: the bind, the finish and, the lock released, the events.
\<close>

datatype hp_call =
    RegisterStep "hardware option" bool bool
  | OtherCallback
  | Attach nat
  | Detach nat
  | DestroyVirtual handle

fun hp_step :: "(nat \<Rightarrow> bool) \<Rightarrow> hp_call \<Rightarrow> hwc \<Rightarrow> hwc" where
  "hp_step boot (RegisterStep dev fn data) s = RegisterCallbackHook boot dev fn data s"
| "hp_step boot OtherCallback s = FlushHotplugEvents s"
| "hp_step boot (Attach p) s = finish_cycle boot (snd (BindDisplay boot p s))"
| "hp_step boot (Detach p) s = finish_cycle boot (snd (UnbindDisplay boot p s))"
| "hp_step boot (DestroyVirtual h) s = snd (DestroyVirtualDisplay boot h s)"

definition hp_run :: "(nat \<Rightarrow> bool) \<Rightarrow> hp_call list \<Rightarrow> hwc" where
  "hp_run boot es = fold (hp_step boot) es hwc_start"

lemma DestroyVirtual_idle: "hwc_ok s \<Longrightarrow> DestroyVirtualDisplay boot h s = (False, s)"
  using hwc_okD(4) [of s h] by (auto simp: DestroyVirtualDisplay_def split: option.split)

text \<open>
  The binding interface as its users see it: a pipeline is handed over or taken back, and the cycle
  is finished. What holds between two cycles is kept by each.
\<close>

locale frontend_binding =
  fixes bind :: "'p \<Rightarrow> 's \<Rightarrow> 's" and unbind :: "'p \<Rightarrow> 's \<Rightarrow> 's" and finish :: "'s \<Rightarrow> 's"
    and rest :: "'s \<Rightarrow> bool" and open_cycle :: "'s \<Rightarrow> bool"
  assumes rest_bind: "rest s \<Longrightarrow> open_cycle (bind p s)"
    and rest_unbind: "rest s \<Longrightarrow> open_cycle (unbind p s)"
    and finish_rest: "open_cycle s \<Longrightarrow> rest (finish s)"
begin

lemma arrives: "rest s \<Longrightarrow> rest (finish (bind p s))"
  by (intro finish_rest rest_bind)

lemma goes: "rest s \<Longrightarrow> rest (finish (unbind p s))"
  by (intro finish_rest rest_unbind)

lemma replugged: "rest s \<Longrightarrow> rest (finish (bind q (finish (unbind p s))))"
  by (intro arrives goes)

end

definition cycle_ok :: "hwc \<Rightarrow> bool" where
  "cycle_ok s \<longleftrightarrow> hwc_ok s \<and> (listening s \<longrightarrow> truthful s)"

lemma finish_cycle_rest:
  assumes "cycle_ok s"
  shows "at_rest (finish_cycle boot s)"
  unfolding finish_cycle_def
proof (rule Flush_rest)
  have ok: "hwc_ok s" and tr: "listening s \<longrightarrow> truthful s" using assms by (auto simp: cycle_ok_def)
  note f = Finalize_laws [OF ok, of boot]
  have "listening (FinalizeDisplayBinding boot s) = listening s" using f(3) by (simp add: listening_def)
  then show "listening (FinalizeDisplayBinding boot s) \<longrightarrow> truthful (FinalizeDisplayBinding boot s) \<and>
      om_get (hw_displays (FinalizeDisplayBinding boot s)) kPrimaryDisplay \<noteq> None"
    using tr f(2,7) by blast
  show "hwc_ok (FinalizeDisplayBinding boot s)" "hw_removal (FinalizeDisplayBinding boot s) = []"
    by (fact f(1) f(5))+
qed

lemma Bind_cycle: "at_rest s \<Longrightarrow> cycle_ok (snd (BindDisplay boot p s))"
  by (simp add: at_rest_def cycle_ok_def Bind_ok Bind_frame Bind_truthful listening_def)

lemma Unbind_cycle: "at_rest s \<Longrightarrow> cycle_ok (snd (UnbindDisplay boot p s))"
  by (simp add: at_rest_def cycle_ok_def Unbind_ok Unbind_frame Unbind_truthful listening_def)

interpretation fb: frontend_binding "\<lambda>p s. snd (BindDisplay boot p s)"
    "\<lambda>p s. snd (UnbindDisplay boot p s)" "finish_cycle boot" at_rest cycle_ok
  for boot
  by unfold_locales (simp_all add: Bind_cycle Unbind_cycle finish_cycle_rest)

lemma step_rest:
  assumes s: "at_rest s"
  shows "at_rest (hp_step boot e s)"
proof (cases e)
  case (RegisterStep dev fn data)
  then show ?thesis using Register_rest [OF s] by simp
next
  case OtherCallback
  then show ?thesis using Flush_rest [of s] s by (simp add: at_rest_def)
next
  case (Attach p)
  then show ?thesis using fb.arrives [OF s, of boot p] by simp
next
  case (Detach p)
  then show ?thesis using fb.goes [OF s, of boot p] by simp
next
  case (DestroyVirtual h)
  then show ?thesis using DestroyVirtual_idle s by (simp add: at_rest_def)
qed

lemma run_rest: "at_rest (hp_run boot es)"
proof -
  have "at_rest hwc_start"
    by (simp add: at_rest_def hwc_start_def hwc_ok_def maps_ok_def om_ok_def om_get_def drives_def listening_def)
  then show ?thesis unfolding hp_run_def
    by (rule fold_invariant [where Q = "\<lambda>_. True", rotated]) (simp_all add: step_rest)
qed

subsection \<open>What the client knows\<close>


definition three_panels :: hardware where
  "three_panels = \<lparr>dv_getter = True, dv_pipes = [Some 1, Some 2, Some 3]\<rparr>"


text \<open>C27: a client that registers is told of the primary before its call returns, if there was none, or a
  pipeline was recorded for it, or the hardware gives at least one pipeline; and in no other case: a
  client that registers over another, with no hardware, is told of nothing.\<close>

theorem primary_announced:
  "hw_told (hp_step boot (RegisterStep dev True True) (hp_run boot es)) kPrimaryDisplay = Some True \<longleftrightarrow>
     om_get (hw_displays (hp_run boot es)) kPrimaryDisplay = None \<or>
     (\<exists>p. om_get (hw_handles (hp_run boot es)) p = Some kPrimaryDisplay) \<or>
     (\<exists>d p. dev = Some d \<and> dv_getter d \<and> Some p \<in> set (dv_pipes d))"
proof -
  let ?s = "hp_run boot es"
  let ?r = "?s\<lparr>hw_callback := (True, True), hw_told := Map.empty\<rparr>"
  have rest: "at_rest ?s" by (rule run_rest)
  then have ok: "hwc_ok ?r" and e: "expects ?r = Map.empty"
    by (auto simp: at_rest_def hwc_ok_def expects_def fun_eq_iff om_get_def)
  note l = release_all_laws [OF ok, of boot]
  let ?old = "om_get (hw_displays ?s) kPrimaryDisplay = None \<or> (\<exists>p. om_get (hw_handles ?s) p = Some kPrimaryDisplay)"
  have old: "expects (release_all boot ?r) kPrimaryDisplay = Some True \<longleftrightarrow> ?old"
    unfolding l(9) using e by simp
  have i: "hwc_ok (snd (hwc_Init boot dev ?r))" "listening (snd (hwc_Init boot dev ?r))"
    using Init_laws [OF ok e, of boot dev] by (simp_all add: listening_def)
  have "hw_told (hp_step boot (RegisterStep dev True True) ?s) = expects (snd (hwc_Init boot dev ?r))"
    using i(2) by (simp add: RegisterCallbackHook_def RegisterHotplug_def Flush_eq [OF hwc_okD(3) [OF i(1)]])
  moreover have "expects (snd (hwc_Init boot dev ?r)) kPrimaryDisplay = Some True \<longleftrightarrow>
    ?old \<or> (\<exists>d p. dev = Some d \<and> dv_getter d \<and> Some p \<in> set (dv_pipes d))"
  proof (cases "\<exists>d. dev = Some d \<and> dv_getter d")
    case True
    then obtain d where d: "dev = Some d" "dv_getter d" by blast
    let ?b = "bind_all boot (dv_pipes d) (release_all boot ?r)"
    have i: "snd (hwc_Init boot dev ?r) = FinalizeDisplayBinding boot ?b" using d by (simp add: hwc_Init_def)
    have b: "hwc_ok ?b" using bind_all_laws [OF l(1,6)] by blast
    show ?thesis
    proof (cases "?old \<or> (\<exists>p. Some p \<in> set (dv_pipes d))")
      case True
      then have "expects ?b kPrimaryDisplay = Some True"
        using bind_all_primary [OF l(1,6), of "dv_pipes d" boot] old l(2,3) by blast
      then show ?thesis using Finalize_keeps_primary [OF b] i True d by auto
    next
      case False
      then have "\<forall>c\<in>set (dv_pipes d). c = None" by (metis option.exhaust)
      then have "?b = release_all boot ?r" by (rule bind_all_none)
      then show ?thesis using Finalize_bare(3) [OF l(1,2), of boot] l(8) old False i d by auto
    qed
  next
    case False
    then have "snd (hwc_Init boot dev ?r) = release_all boot ?r"
      by (auto simp: hwc_Init_def Let_def split: option.split)
    then show ?thesis using old False by auto
  qed
  ultimately show ?thesis by simp
qed

text \<open>C26: opening the hardware lets go of all of it first. After any calls, what is done before the new device
  is built leaves no pipeline recorded and none driving a display, and tries to open nothing.\<close>

theorem init_lets_go:
  "hw_handles (release_all boot (hp_run boot es)) = [] \<and> drives (release_all boot (hp_run boot es)) = Map.empty \<and>
   hw_attempts (release_all boot (hp_run boot es)) = hw_attempts (hp_run boot es)"
  using run_rest [of boot es] by (simp add: at_rest_def release_all_laws)

text \<open>Waiting for the windows of a process on its way out is bounded.\<close>

theorem startup_attempts_bounded:
  "hw_attempts (snd (hwc_Init boot (Some d) (hp_run boot es))) \<le>
     hw_attempts (hp_run boot es) + 4 * (length (dv_pipes d) + 1)"
proof -
  let ?s = "hp_run boot es"
  have ok: "hwc_ok ?s" using run_rest [of boot es] by (simp add: at_rest_def)
  note l = release_all_laws [OF ok, of boot]
  note b = bind_all_laws [OF l(1,6), of boot "dv_pipes d"]
  show ?thesis
    using b l(7) Finalize_laws(6) [of "bind_all boot (dv_pipes d) (release_all boot ?s)" boot]
    by (auto simp: hwc_Init_def Let_def)
qed

subsection \<open>Where it goes wrong\<close>

text \<open>
  The first pipeline fails and the second takes the primary. When the second goes, the pipeline put
  in its place is the first one recorded, the failed one, and the display that works stays second.
\<close>

lemma failed_first_keeps_primary_dark:
  "let s = hp_run (\<lambda>n. n \<in> {4, 5}) [RegisterStep (Some three_panels) True True, Detach 2] in
   drives s kPrimaryDisplay = None \<and> drives s 1 = Some 3 \<and> hw_attempts s = 10"
  by code_simp

text \<open>Registered over another client with no hardware, a client is not told of the primary.\<close>

lemma headless_again_unannounced:
  "let s = hp_run (\<lambda>n. True) [RegisterStep None True True, RegisterStep None True True] in
   om_get (hw_displays s) kPrimaryDisplay \<noteq> None \<and> hw_told s kPrimaryDisplay = None"
  by code_simp

text \<open>A failed link of a display that never came up is told to the client as a connection.\<close>

lemma link_failure_says_connected:
  "let s = hp_run (\<lambda>n. n = 0) [RegisterStep (Some three_panels) True True] in
   hw_told s 1 = Some False \<and> drives s 1 = None \<and>
   hw_told (FlushHotplugEvents (NotifyDisplayLinkStatus 2 s)) 1 = Some True"
  by code_simp

end
