(* ===== verification/Spec2Isabelle.thy ===== *)
theory Spec2Isabelle
  imports Occlusion MergeGroup SlotWorld JobQueue Controllers Governor FrameCycle
    Planes ImageCache Geometry VSync Configs MergeRuns CursorWorld Hotplug
begin

text \<open>
  A model of the hardware composer of this repository: the parts that decide what is drawn, by whom
  and how fast, with the theorems that make them correct. Everything is translated from the C++
  sources; what lies outside them (the kernel, the vendor's engine library, the GPU, the Android
  framework) is an argument of the definitions that use it.

  \<^bold>\<open>How the program works.\<close> The framework gives a display its layers (hwc/HwcLayer) and asks for a frame
  to be validated and presented (hwc/HwcDisplay). The display works out what of each layer can be
  seen (compositor/Occlusion), the planner says which layers the client draws and which the planes
  show (compositor/GenericCompositionPlanner), and a plan made once is handed back while nothing it
  depends on has changed. Layers the planes have no room for are merged by an image engine into
  one window: which of them is the choice of compositor/MergeGroup. A merged picture whose inputs
  are the same is not drawn again (compositor/PictureMemory), and one that changed in part is drawn
  in part (compositor/PartialRedraw). The merges are jobs of a queue served by a thread
  (compositor/JobQueue). A governor thread (governor/) sets the clocks of the engine, of the GPU and
  of the processor from what each frame plans and from the fences it hands back.

  \<^bold>\<open>The theories.\<close>
  \<^item> \<^verbatim>\<open>Prelude\<close>: division and unsigned arithmetic of C++, lists, the collection of invariant rules.
  \<^item> \<^verbatim>\<open>Float32\<close>: binary32 and binary64 with rounding to nearest even, as a locale of roundings.
  \<^item> \<^verbatim>\<open>Rects\<close>: compositor/Rect.h; a rectangle is also the set of pixels it covers.
  \<^item> \<^verbatim>\<open>Occlusion\<close>: Subtract, OpaqueParts, Resolve, CropSource. A layer is shown exactly the bounds of what no
    opaque part above it hides.
  \<^item> \<^verbatim>\<open>MergeGroup\<close>: ChooseMergeGroup; the chosen order keeps every overlap, the group is one run with one
    transformation, and it is no worse than a contiguous run.
  \<^item> \<^verbatim>\<open>PictureMemory\<close>: Compare, Judge, Remember; a picture is called the same exactly when it looks the same.
  \<^item> \<^verbatim>\<open>Gather\<close>, \<^verbatim>\<open>OrderedMap\<close>, \<^verbatim>\<open>DamageHistory\<close>, \<^verbatim>\<open>PartialRedraw\<close>, \<^verbatim>\<open>SlotWorld\<close>: partial redraw. Gather joins
    damage into parts an engine takes; DamageHistory remembers the last frames of the last layers;
    Decide says what of a buffer to draw; SlotWorld puts them in a world with the buffers' contents,
    as a step relation, and shows that a partial redraw leaves the whole picture in the buffer.
  \<^item> \<^verbatim>\<open>JobQueue\<close>: the queue, with the engine's thread and the waiting callers as a step relation.
  \<^item> \<^verbatim>\<open>Controllers\<close>: HdcpController, FlatteningController and GarbageCollector as step relations.
  \<^item> \<^verbatim>\<open>Tuning\<close>, \<^verbatim>\<open>FloorLane\<close>, \<^verbatim>\<open>MergePlan\<close>, \<^verbatim>\<open>Governor\<close>: governor/. The tuning file byte by byte; a lane that raises
    and lets go of a clock floor (over any actuator, a locale); the estimate of the least clock step
    that makes a deadline; the thread, its mailbox and the processor's floor, with every descriptor
    accounted for.
  \<^item> \<^verbatim>\<open>Layers\<close>, \<^verbatim>\<open>HwcLayers\<close>: a layer, its effects, and the bits it raises when something a plan depends on
    changes.
  \<^item> \<^verbatim>\<open>Planner\<close>: ValidateDisplay. The client's range is the cheapest that will do, the holes are where they
    must be, and what goes to the hardware the kernel has accepted.
  \<^item> \<^verbatim>\<open>FrameCycle\<close>: validate, accept, present and commit of HwcDisplay over any course of frames; the plan
    staged for a frame is a plan for that frame, also when it is handed back. The one course that
    breaks this, two validations without a present, is excluded from the steps and shown apart.
  \<^item> \<^verbatim>\<open>Windows\<close>, \<^verbatim>\<open>Planes\<close>: the feature table of the controller, formats and arrangements, what a window,
    the engine and the cursor unit take (tegra/), and the planes a display offers.
  \<^item> \<^verbatim>\<open>Seating\<close>: compositor/LayerToPlaneJoiningPlan; the layers are seated on planes by steering or by first
    fit. A plan shows each layer once, in an order that looks the same, on planes that take them, the
    merged ones together; with \<^verbatim>\<open>Planes\<close>, no window of the controller is given two layers.
  \<^item> \<^verbatim>\<open>ImageCache\<close>: vk/CacheBudget.h and vk/ImageCache, over a driver that can refuse anything. An image is not
    destroyed under a frame that reads it, and everything made is let go once.
  \<^item> \<^verbatim>\<open>Geometry\<close>: vk/Geometry; where a layer and its corners go, and the exact test of coverage.
  \<^item> \<^verbatim>\<open>VSync\<close>: display/VSyncWorker; the calls and the thread as a step relation, and the prediction of blanks.
  \<^item> \<^verbatim>\<open>Configs\<close>: hwc/HwcDisplayConfigs; the configurations of a display and the sanitizing of their groups.
  \<^item> \<^verbatim>\<open>Request\<close>: tegra/TegraAtomicStateManager, a plan described to the controller and to the engine. The two turn
    a layer alike, a plan made for a head is never turned away, and what goes up is that plan.
  \<^item> \<^verbatim>\<open>ScratchPool\<close>, \<^verbatim>\<open>EngineSession\<close>: tegra/ScratchPool and tegra/VicSession. The buffers taken in turn with the fences
    beside them; a pass of the engine described to the vendor's library, of which a part draws what the whole
    would and which waits for all it reads and overwrites; and the buffers cut from the zone.
  \<^item> \<^verbatim>\<open>MergeCommit\<close>, \<^verbatim>\<open>MergeSafety\<close>, \<^verbatim>\<open>MergeRuns\<close>: the commit of tegra/TegraAtomicStateManager. A group is queued when its
    frame is validated, drawn by the engine's worker, and shown, shown again, dropped or drawn anew when the
    frame is executed; frames and worker are a step relation. If the worker is prompt, the engine never draws
    over what the panel reads, and no frame waits for a job nobody draws. The runs show that the first fails
    of a worker that is late, and how long a group may stand still.
  \<^item> \<^verbatim>\<open>CursorUnit\<close>, \<^verbatim>\<open>CursorWorld\<close>: tegra/CursorUnit, and the pointer's part of the commit. A sprite being scanned is never
    written; over frames, moves and changes of power the panel shows the pointer with the frames that have
    one. A sprite refused while another is shown breaks this, and is shown apart.
  \<^item> \<^verbatim>\<open>Hotplug\<close>: hwc/Hwc, hwc2_device/DrmHwcTwo and HwcDisplay::SetPipeline. Which pipeline drives which display,
    the queue of events and the client that registers. After any calls the client knows the displays there
    are; the hardware is let go of before it is opened again; and when a client is told of the primary. What
    opening a display answers is an argument, by the number of the attempt.

  \<^bold>\<open>How the code is rendered.\<close> Structures are records, enumerations are datatypes, \<open>std::map\<close> is a list sorted by
  key (\<^verbatim>\<open>OrderedMap\<close>), operations are functions on the state. The processor is 32 bits wide: \<open>size_t\<close> and
  \<open>unsigned long\<close> wrap at \<open>2 ^ 32\<close> where the code lets them (\<open>wrap_size\<close>, \<open>usub\<close>). Signed coordinates and times
  are \<open>int\<close>: executions in which they overflow are undefined in C++ and not described. A critical
  section is one step. Raw floats keep their rounding. A file is its bytes, an environment variable
  an optional string.

  \<^bold>\<open>Bounds and fuel.\<close> No definition needs fuel of its own: every loop is structural or has a measure. The
  search of MergeGroup has a bound in the code, 4096 steps, and keeps it; the theorem about runs shows
  that what the bound cuts off is never a choice as good as the plain one. The history of partial redraw
  keeps 8 frames of 64 layers, as in the code.

  \<^bold>\<open>Not modelled.\<close> The head (tegra/DcHead) is a sequence of calls of the kernel, and so are the
  construction of the engine's session and of the backend; the GPU compositor draws through Vulkan, of
  which its cache and geometry are modelled; hwc2_device/ is a table of functions around the
  display, of which PresentDisplay is modelled; statistics, properties, logging, dumps, pictures taken and
  the record of the last frames have no effect on what is shown. Not yet modelled: the colour pipeline
  and matrices, and the GPU's drawing of the client range.
\<close>

end
